(* ===== verification/Prelude.thy ===== *)
theory Prelude
  imports
    Complex_Main
    "HOL-Library.Word"
    "HOL-Library.AList"
    "HOL-Library.Multiset"
    "HOL-Library.List_Lexorder"
    "HOL-Library.Char_ord"
    "HOL-Library.Product_Lexorder"
begin

text \<open>
  Shared vocabulary of the development: the machine integers of the Rust code as words, its
  \<open>Result\<close> as a sum (\<open>Inl\<close> the error), \<open>?\<close> as \<open>rbind\<close>, the \<open>for\<close> loop that pushes decoded rows
  and stops at the first error as \<open>collect_if\<close>, and the lemmas on these that every component uses.
  A \<open>HashMap\<close> is an association list with distinct keys (\<open>AList.update\<close> inserts, \<open>map_of\<close> looks up),
  so that code which iterates over a map has a list to iterate over. Strings are lists of UTF-8 bytes, and
  the list order on them is the byte order of Rust's \<open>String\<close>.
\<close>

section \<open>Machine integers\<close>

type_synonym u8 = "8 word"
type_synonym u16 = "16 word"
type_synonym u32 = "32 word"
type_synonym u64 = "64 word"
type_synonym u128 = "128 word"
type_synonym i32 = "32 word"
type_synonym i64 = "64 word"
type_synonym i128 = "128 word"

text \<open>Signed words are read with \<open>sint\<close>. \<open>abs\<close> of the least value wraps, as in a release build.\<close>

definition signed_abs :: "'a::len word \<Rightarrow> 'a word" where
  "signed_abs x = (if sint x < 0 then - x else x)"

lemma uint_u32: "uint t < 2 ^ 32" for t :: u32
  by (rule order.strict_trans2 [OF uint_bounded]) simp

lemma sint_ucast_uint: "sint (ucast t :: i64) = uint t" for t :: u32
proof -
  have "(ucast t :: i64) = word_of_int (uint t)" by (rule ucast_eq)
  then have "sint (ucast t :: i64) = signed_take_bit 63 (uint t)" by (simp only: signed_of_int) simp
  also have "\<dots> = uint t"
    using uint_u32 [of t] by (intro signed_take_bit_int_eq_self) (auto intro: order.trans [of _ 0] order.strict_trans)
  finally show ?thesis .
qed

lemma sint_ucast_u32: "sint (ucast t :: i64) = int (unat t)" for t :: u32
  by (simp add: sint_ucast_uint)

lemma sint_signed_abs:
  fixes x :: "'a::len word"
  assumes "sint x \<noteq> - (2 ^ (LENGTH('a) - 1))"
  shows "sint (signed_abs x) = \<bar>sint x\<bar>"
proof -
  have "- (2 ^ (LENGTH('a) - 1)) \<le> sint x" "sint x < 2 ^ (LENGTH('a) - 1)"
    by (rule sint_ge, rule sint_lt)
  with assms have "sint (- x) = - sint x"
    by (simp add: sint_word_ariths signed_take_bit_int_eq_self)
  then show ?thesis
    by (simp add: signed_abs_def)
qed

definition checked_mul_u :: "'a::len word \<Rightarrow> 'a word \<Rightarrow> 'a word option" where
  "checked_mul_u x y = (if unat x * unat y < 2 ^ LENGTH('a) then Some (x * y) else None)"

section \<open>Results\<close>

type_synonym ('e, 'a) result = "'e + 'a"

definition ok_or :: "'e \<Rightarrow> 'a option \<Rightarrow> ('e, 'a) result" where
  "ok_or e x = (case x of None \<Rightarrow> Inl e | Some y \<Rightarrow> Inr y)"

definition rbind :: "('e, 'a) result \<Rightarrow> ('a \<Rightarrow> ('e, 'b) result) \<Rightarrow> ('e, 'b) result" where
  "rbind m f = (case m of Inl e \<Rightarrow> Inl e | Inr x \<Rightarrow> f x)"

fun collect_if :: "('a \<Rightarrow> bool) \<Rightarrow> ('a \<Rightarrow> ('e, 'b) result) \<Rightarrow> 'a list \<Rightarrow> ('e, 'b list) result" where
  "collect_if p f [] = Inr []"
| "collect_if p f (x # xs) =
     (if p x then rbind (f x) (\<lambda>y. rbind (collect_if p f xs) (\<lambda>ys. Inr (y # ys)))
      else collect_if p f xs)"

named_theorems result_simps \<open>evaluation of results\<close>

lemma ok_or_simps [simp, result_simps]:
  "ok_or e None = Inl e"
  "ok_or e (Some x) = Inr x"
  by (simp_all add: ok_or_def)

lemma rbind_simps [simp, result_simps]:
  "rbind (Inl e) f = Inl e"
  "rbind (Inr x) f = f x"
  by (simp_all add: rbind_def)

lemma ok_or_eq_Inr [simp, result_simps]: "ok_or e m = Inr x \<longleftrightarrow> m = Some x"
  by (cases m) auto

lemma ok_or_eq_Inl [simp, result_simps]: "ok_or e m = Inl e' \<longleftrightarrow> m = None \<and> e' = e"
  by (cases m) auto

lemma rbind_eq_Inr [simp, result_simps]:
  "rbind m f = Inr y \<longleftrightarrow> (\<exists>x. m = Inr x \<and> f x = Inr y)"
  by (cases m) auto

lemma rbind_eq_Inl: "rbind m f = Inl e \<longleftrightarrow> m = Inl e \<or> (\<exists>x. m = Inr x \<and> f x = Inl e)"
  by (cases m) auto

lemma rbind_assoc: "rbind (rbind m f) g = rbind m (\<lambda>x. rbind (f x) g)"
  by (cases m) auto

lemma collect_if_append:
  "collect_if p f (xs @ ys) =
     rbind (collect_if p f xs) (\<lambda>as. rbind (collect_if p f ys) (\<lambda>bs. Inr (as @ bs)))"
proof (induction xs)
  case Nil
  show ?case by (cases "collect_if p f ys") auto
next
  case (Cons x xs)
  then show ?case
    by (cases "f x"; cases "collect_if p f xs"; cases "collect_if p f ys") auto
qed

lemma collect_if_length:
  "collect_if p f xs = Inr ys \<Longrightarrow> length ys = length (filter p xs)"
  by (induction xs arbitrary: ys) (auto split: if_splits)

lemma collect_if_mem:
  assumes "collect_if p f xs = Inr ys" and "y \<in> set ys"
  shows "\<exists>x \<in> set xs. p x \<and> f x = Inr y"
  using assms by (induction xs arbitrary: ys) (auto split: if_splits)

lemma collect_if_Inl:
  assumes "collect_if p f xs = Inl e"
  shows "\<exists>x \<in> set xs. p x \<and> f x = Inl e"
  using assms by (induction xs) (auto simp: rbind_eq_Inl split: if_splits)

lemma collect_if_total:
  assumes "\<And>x. x \<in> set xs \<Longrightarrow> p x \<Longrightarrow> \<exists>y. f x = Inr y"
  shows "\<exists>ys. collect_if p f xs = Inr ys"
  using assms by (induction xs) fastforce+

lemma collect_if_fails_iff:
  "(\<exists>e. collect_if p f xs = Inl e) \<longleftrightarrow> (\<exists>x \<in> set xs. p x \<and> (\<exists>e. f x = Inl e))"
proof (induction xs)
  case (Cons x xs)
  then show ?case
    by (cases "f x"; cases "collect_if p f xs") auto
qed simp

lemma collect_if_filter: "collect_if p f xs = collect_if (\<lambda>_. True) f (filter p xs)"
  by (induction xs) auto

section \<open>Lists and options\<close>

text \<open>\<open>slice.get(i)\<close>.\<close>

definition get_at :: "'a list \<Rightarrow> nat \<Rightarrow> 'a option" where
  "get_at xs i = (if i < length xs then Some (xs ! i) else None)"

lemma get_at_simps [simp]:
  "get_at [] i = None"
  "get_at (x # xs) 0 = Some x"
  "get_at (x # xs) (Suc i) = get_at xs i"
  by (simp_all add: get_at_def)

lemma get_at_numeral [simp]: "get_at (x # xs) (numeral k) = get_at xs (pred_numeral k)"
  by (simp add: numeral_eq_Suc)

lemma get_at_one [simp]: "get_at (x # xs) 1 = get_at xs 0"
  using get_at_simps(3) [of x xs 0] by simp

text \<open>\<open>iter().find(p)\<close> is \<open>List.find\<close>; a found element is in the list.\<close>

lemma find_SomeD: "List.find p xs = Some x \<Longrightarrow> x \<in> set xs \<and> p x"
  by (induction xs) (auto split: if_splits)

text \<open>\<open>or_else\<close> on options.\<close>

definition or_else :: "'a option \<Rightarrow> 'a option \<Rightarrow> 'a option" where
  "or_else x y = (case x of None \<Rightarrow> y | Some _ \<Rightarrow> x)"

lemma or_else_simps [simp]:
  "or_else None y = y"
  "or_else x None = x"
  "or_else (Some z) y = Some z"
  by (simp_all add: or_else_def split: option.split)

section \<open>Hash maps as association lists\<close>

type_synonym ('k, 'v) hmap = "('k \<times> 'v) list"

definition hm_ok :: "('k, 'v) hmap \<Rightarrow> bool" where
  "hm_ok m \<longleftrightarrow> distinct (map fst m)"

lemma hm_ok_Nil [simp]: "hm_ok []"
  by (simp add: hm_ok_def)

lemma hm_ok_update [simp]: "hm_ok m \<Longrightarrow> hm_ok (AList.update k v m)"
  by (simp add: hm_ok_def distinct_update)

lemma map_of_update [simp]: "map_of (AList.update k v m) = (map_of m)(k \<mapsto> v)"
  by (rule update_conv')

lemma hm_ok_filter [simp]: "hm_ok m \<Longrightarrow> hm_ok (filter p m)"
  unfolding hm_ok_def by (induction m) auto

lemma hm_ok_map_of: "hm_ok m \<Longrightarrow> map_of m k = Some v \<longleftrightarrow> (k, v) \<in> set m"
  by (simp add: hm_ok_def)

text \<open>Two association lists with the same lookups hold the same pairs.\<close>

lemma hm_ok_mset_eq:
  assumes "hm_ok m" "hm_ok n" "map_of m = map_of n"
  shows "mset m = mset n"
proof -
  have "distinct m" "distinct n"
    using assms(1,2) by (auto simp: hm_ok_def distinct_map)
  moreover have "set m = set n"
    using assms by (metis hm_ok_map_of subrelI subset_antisym)
  ultimately show ?thesis
    by (simp add: set_eq_iff_mset_eq_distinct)
qed

section \<open>Sorting\<close>

text \<open>
  A stable sort of two permutations of the same items gives the same list as far as a projection \<open>g\<close> of the
  items goes, when the sort key determines the projection. This is what lets the candle code claim that
  arrival order does not matter.
\<close>

lemma sort_key_proj_eq:
  fixes f :: "'a \<Rightarrow> 'k::linorder"
  assumes "mset xs = mset ys" and "\<And>x y. f x = f y \<Longrightarrow> g x = g y"
  shows "map g (sort_key f xs) = map g (sort_key f ys)"
proof -
  obtain h where h: "\<And>x. g x = h (f x)"
  proof
    fix x
    have "f (SOME y. f y = f x) = f x"
      by (rule someI [of "\<lambda>y. f y = f x"]) (rule refl)
    then show "g x = (\<lambda>k. g (SOME y. f y = k)) (f x)"
      by (intro assms(2)) simp
  qed
  have keys: "sort (map f zs) = map f (sort_key f zs)" for zs
    by (rule properties_for_sort) simp_all
  have "mset (map f xs) = mset (map f ys)"
    using assms(1) by (simp add: mset_map)
  then have "sort (map f xs) = sort (map f ys)"
    by (metis properties_for_sort mset_sort sorted_sort)
  moreover have "map g zs = map h (map f zs)" for zs
    by (simp add: h)
  ultimately show ?thesis
    by (metis keys)
qed

lemma sort_key_filter_proj_eq:
  fixes f :: "'a \<Rightarrow> 'k::linorder"
  assumes "mset xs = mset ys" and "\<And>x y. f x = f y \<Longrightarrow> g x = g y"
  shows "map g (filter p (sort_key f xs)) = map g (filter p (sort_key f ys))"
proof -
  have "mset (filter p xs) = mset (filter p ys)"
    using assms(1) by (simp add: mset_filter)
  then have "map g (sort_key f (filter p xs)) = map g (sort_key f (filter p ys))"
    by (rule sort_key_proj_eq) (rule assms(2))
  then show ?thesis
    by (simp add: filter_sort)
qed

text \<open>Sorting items whose keys are pairwise different depends on the items only.\<close>

lemma sort_key_mset_eq:
  fixes f :: "'a \<Rightarrow> 'k::linorder"
  assumes "mset xs = mset ys" and "inj_on f (set xs)"
  shows "sort_key f xs = sort_key f ys"
proof (rule properties_for_sort_key)
  show "mset (sort_key f ys) = mset xs"
    by (simp add: assms(1))
  show "sorted (map f (sort_key f ys))"
    by simp
  fix k
  have "set ys = set xs"
    using assms(1) by (metis set_mset_mset)
  have const: "zs = replicate (length zs) z" if "\<And>y. y \<in> set zs \<Longrightarrow> y = z" for zs :: "'a list" and z
    using that by (induction zs) auto
  show "k \<in> set (sort_key f ys) \<Longrightarrow>
    filter (\<lambda>x. f k = f x) (sort_key f ys) = filter (\<lambda>x. f k = f x) xs"
  proof -
    assume k: "k \<in> set (sort_key f ys)"
    let ?l = "filter (\<lambda>x. f k = f x) (sort_key f ys)" and ?r = "filter (\<lambda>x. f k = f x) xs"
    have one: "y = k" if "y \<in> set ?l \<union> set ?r" for y
      using that k assms(2) \<open>set ys = set xs\<close> by (auto dest: inj_onD)
    have "mset ?l = mset ?r"
      by (simp add: assms(1))
    then have "length ?l = length ?r"
      by (rule mset_eq_length)
    then show "?l = ?r"
      using const [of ?l k] const [of ?r k] one by (metis UnCI)
  qed
qed

text \<open>The sorted values of a map whose values know their keys, and sorting in two parts.\<close>

lemma sorted_list_of_set_split:
  fixes A :: "'a::linorder set"
  assumes "finite A" and "\<And>x y. x \<in> A \<Longrightarrow> y \<in> A \<Longrightarrow> p x \<Longrightarrow> \<not> p y \<Longrightarrow> x \<le> y"
  shows "sorted_list_of_set A = sorted_list_of_set {x \<in> A. p x} @ sorted_list_of_set {x \<in> A. \<not> p x}"
proof (rule sorted_distinct_set_unique)
  show "sorted (sorted_list_of_set {x \<in> A. p x} @ sorted_list_of_set {x \<in> A. \<not> p x})"
    using assms by (simp add: sorted_append)
qed (use assms(1) in auto)
lemma sort_key_hmap:
  fixes key :: "'c \<Rightarrow> 'k::linorder"
  assumes "hm_ok m" and "\<And>k v. (k, v) \<in> set m \<Longrightarrow> key (f v) = k"
  shows "sort_key key (map (\<lambda>(_, v). f v) m) =
    map (\<lambda>k. f (the (map_of m k))) (sorted_list_of_set (fst ` set m))"
proof -
  let ?r = "map (\<lambda>k. f (the (map_of m k))) (sorted_list_of_set (fst ` set m))"
  have look: "map_of m k = Some v \<longleftrightarrow> (k, v) \<in> set m" for k v
    by (rule hm_ok_map_of [OF assms(1)])
  have dm: "distinct (map fst m)"
    using assms(1) by (simp add: hm_ok_def)
  then have "sorted_list_of_set (fst ` set m) = sort (map fst m)"
    using sorted_list_of_set_sort_remdups [of "map fst m"] by (simp add: distinct_remdups_id)
  then have "mset (sorted_list_of_set (fst ` set m)) = mset (map fst m)"
    by simp
  then have "mset ?r = mset (map (\<lambda>k. f (the (map_of m k))) (map fst m))"
    by (metis mset_map)
  also have "map (\<lambda>k. f (the (map_of m k))) (map fst m) = map (\<lambda>(_, v). f v) m"
    by (auto simp: comp_def dest!: look [THEN iffD2])
  finally have "mset (map (\<lambda>(_, v). f v) m) = mset ?r" ..
  moreover have "inj_on key (set (map (\<lambda>(_, v). f v) m))"
  proof (rule inj_onI)
    fix x y
    assume "x \<in> set (map (\<lambda>(_, v). f v) m)" "y \<in> set (map (\<lambda>(_, v). f v) m)" "key x = key y"
    then obtain k v k' v' where "(k, v) \<in> set m" "(k', v') \<in> set m" "x = f v" "y = f v'" "k = k'"
      using assms(2) by auto
    then show "x = y"
      using look by (metis option.inject)
  qed
  ultimately have "sort_key key (map (\<lambda>(_, v). f v) m) = sort_key key ?r"
    by (rule sort_key_mset_eq)
  also have "\<dots> = ?r"
  proof (rule sort_key_id_if_sorted)
    have val: "key (f (the (map_of m k))) = k" if k: "k \<in> fst ` set m" for k
    proof -
      obtain v where "(k, v) \<in> set m"
        using k by auto
      then show ?thesis
        using look assms(2) by (metis option.sel)
    qed
    have "map key ?r = sorted_list_of_set (fst ` set m)"
      by (simp add: comp_def) (rule map_idI, rule val, simp)
    then show "sorted (map key ?r)"
      by simp
  qed
  finally show ?thesis .
qed

section \<open>Loops that emit\<close>

text \<open>
  Nested \<open>for\<close> loops that push into one accumulator run over the concatenation of what each pass emits, and a
  loop over \<open>enumerate()\<close> emits in the order of its indices.
\<close>

lemma fold_emit:
  assumes "\<And>x s. x \<in> set xs \<Longrightarrow> step x s = fold e (g x) s"
  shows "fold step xs s = fold e (concat (map g xs)) s"
  using assms by (induction xs arbitrary: s) simp_all

lemma fold_preserves: "(\<And>x s. P s \<Longrightarrow> P (f x s)) \<Longrightarrow> P s \<Longrightarrow> P (fold f xs s)"
  by (induction xs arbitrary: s) simp_all

lemma sorted_wrt_concat_enumerate:
  assumes "\<And>i x. (i, x) \<in> set (enumerate n xs) \<Longrightarrow> sorted_wrt P (g (i, x))"
    and "\<And>i x j y a b. (i, x) \<in> set (enumerate n xs) \<Longrightarrow> (j, y) \<in> set (enumerate n xs) \<Longrightarrow> i < j \<Longrightarrow>
      a \<in> set (g (i, x)) \<Longrightarrow> b \<in> set (g (j, y)) \<Longrightarrow> P a b"
  shows "sorted_wrt P (concat (map g (enumerate n xs)))"
  using assms
proof (induction xs arbitrary: n)
  case (Cons x xs)
  have "sorted_wrt P (concat (map g (enumerate (Suc n) xs)))"
  proof (rule Cons.IH)
    show "sorted_wrt P (g (i, y))" if "(i, y) \<in> set (enumerate (Suc n) xs)" for i y
      using that Cons.prems(1) by simp
    show "P a b" if "(i, y) \<in> set (enumerate (Suc n) xs)" "(j, z) \<in> set (enumerate (Suc n) xs)" "i < j"
      "a \<in> set (g (i, y))" "b \<in> set (g (j, z))" for i y j z a b
      using that Cons.prems(2) [of i y j z a b] by simp
  qed
  moreover have "P a b"
    if a: "a \<in> set (g (n, x))" and b: "b \<in> set (concat (map g (enumerate (Suc n) xs)))" for a b
  proof -
    obtain j y where j: "(j, y) \<in> set (enumerate (Suc n) xs)" "b \<in> set (g (j, y))"
      using b by auto
    moreover from j(1) have "n < j"
      by (auto simp: in_set_enumerate_eq)
    ultimately show ?thesis
      using Cons.prems(2) [of n x j y a b] a by simp
  qed
  ultimately show ?case
    using Cons.prems(1) [of n x] by (simp add: sorted_wrt_append)
qed simp

text \<open>A loop whose body may panic: \<open>None\<close> is the panic.\<close>

fun fold_opt :: "('a \<Rightarrow> 's \<Rightarrow> 's option) \<Rightarrow> 'a list \<Rightarrow> 's \<Rightarrow> 's option" where
  "fold_opt f [] s = Some s"
| "fold_opt f (x # xs) s = Option.bind (f x s) (fold_opt f xs)"

lemma fold_opt_append: "fold_opt f (xs @ ys) s = Option.bind (fold_opt f xs s) (fold_opt f ys)"
proof (induction xs arbitrary: s)
  case (Cons x xs)
  then show ?case by (cases "f x s") simp_all
qed simp

lemma fold_opt_total:
  assumes "\<And>x s. x \<in> set xs \<Longrightarrow> P s \<Longrightarrow> \<exists>s'. f x s = Some s' \<and> P s'" and "P s"
  shows "\<exists>s'. fold_opt f xs s = Some s' \<and> P s'"
  using assms
proof (induction xs arbitrary: s)
  case (Cons x xs)
  then obtain s' where "f x s = Some s'" "P s'"
    by (meson list.set_intros(1))
  then show ?case
    using Cons.IH [of s'] Cons.prems(1) by simp
qed simp

section \<open>Decimal digits\<close>

text \<open>The decimal digits \<open>format!\<close> prints.\<close>

fun show_nat :: "nat \<Rightarrow> string" where
  "show_nat n = (if n < 10 then [char_of (48 + n)] else show_nat (n div 10) @ [char_of (48 + n mod 10)])"

declare show_nat.simps [simp del]

lemma read_show_nat: "foldl (\<lambda>a c. a * 10 + (of_char c - 48)) 0 (show_nat n) = n"
proof (induction n rule: show_nat.induct)
  case (1 n)
  then show ?case
    by (subst show_nat.simps) auto
qed

lemma show_nat_inject: "show_nat m = show_nat n \<longleftrightarrow> m = n"
  by (metis read_show_nat)

section \<open>Programs that may fail\<close>

text \<open>A loop whose body may fail stops at the first failure.\<close>

fun fold_res :: "('a \<Rightarrow> 's \<Rightarrow> ('e, 's) result) \<Rightarrow> 'a list \<Rightarrow> 's \<Rightarrow> ('e, 's) result" where
  "fold_res f [] s = Inr s"
| "fold_res f (x # xs) s = rbind (f x s) (fold_res f xs)"

text \<open>
  A triple: from a state satisfying \<open>P\<close> the program either fails with an error satisfying \<open>E\<close> or returns a
  result satisfying \<open>Q\<close>.
\<close>

definition valid :: "('e \<Rightarrow> bool) \<Rightarrow> ('s \<Rightarrow> bool) \<Rightarrow> ('s \<Rightarrow> ('e, 'r) result) \<Rightarrow> ('r \<Rightarrow> bool) \<Rightarrow> bool" where
  "valid E P f Q \<longleftrightarrow> (\<forall>s. P s \<longrightarrow> (case f s of Inl e \<Rightarrow> E e | Inr r \<Rightarrow> Q r))"

lemma validD: "valid E P f Q \<Longrightarrow> P s \<Longrightarrow> f s = Inr s' \<Longrightarrow> Q s'"
  and validE: "valid E P f Q \<Longrightarrow> P s \<Longrightarrow> f s = Inl e \<Longrightarrow> E e"
  unfolding valid_def by fastforce+

lemma validI:
  assumes "\<And>s e. P s \<Longrightarrow> f s = Inl e \<Longrightarrow> E e" and "\<And>s s'. P s \<Longrightarrow> f s = Inr s' \<Longrightarrow> Q s'"
  shows "valid E P f Q"
  using assms by (auto simp: valid_def split: sum.split)

lemma valid_conseq:
  "valid E P f Q \<Longrightarrow> (\<And>s. P' s \<Longrightarrow> P s) \<Longrightarrow> (\<And>s. Q s \<Longrightarrow> Q' s) \<Longrightarrow> valid E P' f Q'"
  unfolding valid_def by (fastforce split: sum.splits)

lemma valid_skip: "(\<And>s. P s \<Longrightarrow> Q (f s)) \<Longrightarrow> valid E P (\<lambda>s. Inr (f s)) Q"
  by (simp add: valid_def)

lemma valid_bind:
  assumes "valid E P f Q" and "valid E Q g R"
  shows "valid E P (\<lambda>s. rbind (f s) g) R"
  using assms unfolding valid_def by (fastforce simp: rbind_def split: sum.splits)

lemma valid_if:
  "valid E (\<lambda>s. P s \<and> b s) f Q \<Longrightarrow> valid E (\<lambda>s. P s \<and> \<not> b s) g Q \<Longrightarrow> valid E P (\<lambda>s. if b s then f s else g s) Q"
  by (simp add: valid_def)

text \<open>A loop rule: the invariant speaks of the elements already handled.\<close>

lemma valid_fold:
  assumes "\<And>pre x post. xs = pre @ x # post \<Longrightarrow> valid E (I pre) (f x) (I (pre @ [x]))"
  shows "valid E (I []) (fold_res f xs) (I xs)"
proof -
  have "valid E (I pre) (fold_res f post) (I xs)" if "xs = pre @ post" for pre post
    using that
  proof (induction post arbitrary: pre)
    case Nil
    then show ?case by (simp add: valid_def)
  next
    case (Cons x post)
    have "valid E (I pre) (\<lambda>s. rbind (f x s) (fold_res f post)) (I xs)"
      by (rule valid_bind [OF assms [OF Cons.prems] Cons.IH]) (simp add: Cons.prems)
    then show ?case by (simp add: valid_def)
  qed
  from this [of "[]" xs] show ?thesis by simp
qed

end
