(* ===== verification/Run_Boundary.thy ===== *)
theory Run_Boundary
  imports Prelude
begin

text \<open>
  Where a reconcile run ends (\<open>run_boundary\<close>, \<open>run_end\<close> and \<open>held_back_count\<close> of
  \<open>prices-ledger-processor/src/reconcile.rs\<close>). A decoded ledger is its sequence, the start of its minute, and
  whether it is the last of its object. The properties: the boundary separates written from re-read ledgers
  exactly, it is the last such boundary, and a run that sees two minutes moves the cursor.
\<close>

type_synonym ledger_minute = "u64 \<times> u32 \<times> bool"

abbreviation led_seq :: "ledger_minute \<Rightarrow> u64" where
  "led_seq \<equiv> fst"

abbreviation led_min :: "ledger_minute \<Rightarrow> u32" where
  "led_min l \<equiv> fst (snd l)"

datatype flush_all_reason = Terminal | BudgetExhausted | NoLedgersDecoded

datatype run_end = Split u64 u32 | Hold | FlushAll flush_all_reason

definition max_of :: "'a::linorder list \<Rightarrow> 'a option" where
  "max_of xs = (case xs of [] \<Rightarrow> None | x # ys \<Rightarrow> Some (fold max ys x))"

definition min_of :: "'a::linorder list \<Rightarrow> 'a option" where
  "min_of xs = (case xs of [] \<Rightarrow> None | x # ys \<Rightarrow> Some (fold min ys x))"

text \<open>\<open>max_by_key\<close> returns the last of the greatest.\<close>

definition max_by_key :: "('a \<Rightarrow> 'b::linorder) \<Rightarrow> 'a list \<Rightarrow> 'a option" where
  "max_by_key f xs = (case xs of [] \<Rightarrow> None | x # ys \<Rightarrow> Some (fold (\<lambda>y best. if f best \<le> f y then y else best) ys x))"

definition split_at :: "ledger_minute list \<Rightarrow> u32 \<Rightarrow> u64 \<Rightarrow> (u64 \<times> u32) option" where
  "split_at ledgers open_minute c =
     Option.bind (max_of (map (\<lambda>(_, m, _). m) (filter (\<lambda>(s, _, _). s \<le> c) ledgers))) (\<lambda>below.
       let above = min_of (map (\<lambda>(_, m, _). m) (filter (\<lambda>(s, _, _). c < s) ledgers));
           clean = (below < open_minute \<and> (case above of None \<Rightarrow> True | Some a \<Rightarrow> below < a))
       in if clean then Some (c, below + 1) else None)"

definition run_boundary :: "ledger_minute list \<Rightarrow> u32 \<times> (u64 \<times> u32) option" where
  "run_boundary ledgers =
     (let open_minute = (case max_of (map (\<lambda>(_, m, _). m) ledgers) of Some m \<Rightarrow> m | None \<Rightarrow> 0);
          split = max_by_key fst (List.map_filter (\<lambda>(c, _, _). split_at ledgers open_minute c)
            (filter (\<lambda>(_, _, obj_end). obj_end) ledgers))
      in (open_minute, split))"

definition run_end_of :: "(u64 \<times> u32) option \<Rightarrow> u64 \<Rightarrow> nat \<Rightarrow> nat \<Rightarrow> bool \<Rightarrow> run_end" where
  "run_end_of split persisted max_iterations decoded_ledgers terminal =
     (if terminal then FlushAll Terminal
      else case split of
        Some (cursor, flush_before) \<Rightarrow> Split cursor flush_before
      | None \<Rightarrow>
          if max_iterations \<le> unat persisted then FlushAll BudgetExhausted
          else if 0 < persisted \<and> decoded_ledgers = 0 then FlushAll NoLedgersDecoded
          else Hold)"

definition held_back_count :: "ledger_minute list \<Rightarrow> u64 \<Rightarrow> nat" where
  "held_back_count ledgers cursor_end = length (filter (\<lambda>(s, _, _). cursor_end < s) ledgers)"

section \<open>Lemmas\<close>

lemma max_of_simps [simp]: "max_of xs = None \<longleftrightarrow> xs = []" "min_of xs = None \<longleftrightarrow> xs = []"
  by (simp_all add: max_of_def min_of_def split: list.split)

lemma max_of_eq: "xs \<noteq> [] \<Longrightarrow> max_of xs = Some (Max (set xs))"
  by (cases xs) (simp_all add: max_of_def Max.set_eq_fold [symmetric])

lemma min_of_eq: "xs \<noteq> [] \<Longrightarrow> min_of xs = Some (Min (set xs))"
  by (cases xs) (simp_all add: min_of_def Min.set_eq_fold [symmetric])

lemma max_by_key_None [simp]: "max_by_key f xs = None \<longleftrightarrow> xs = []"
  by (simp add: max_by_key_def split: list.split)

lemma max_by_key_SomeD:
  assumes "max_by_key f xs = Some x"
  shows "x \<in> set xs" and "\<forall>y \<in> set xs. f y \<le> f x"
proof -
  have step: "fold (\<lambda>y best. if f best \<le> f y then y else best) ys b \<in> insert b (set ys) \<and>
      (\<forall>y \<in> insert b (set ys). f y \<le> f (fold (\<lambda>y best. if f best \<le> f y then y else best) ys b))" for ys b
  proof (induction ys arbitrary: b)
    case (Cons y ys)
    show ?case
      using Cons.IH [of "if f b \<le> f y then y else b"] by (auto split: if_splits)
  qed simp
  show "x \<in> set xs" and "\<forall>y \<in> set xs. f y \<le> f x"
    using assms step by (cases xs; force simp: max_by_key_def)+
qed

text \<open>A cut at \<open>c\<close> is clean when ledgers at or below it end before the newest minute and share none with those above.\<close>

definition clean_cut :: "ledger_minute list \<Rightarrow> u64 \<Rightarrow> bool" where
  "clean_cut ledgers c \<longleftrightarrow> (\<exists>l \<in> set ledgers. led_seq l \<le> c) \<and>
     (\<forall>l \<in> set ledgers. led_seq l \<le> c \<longrightarrow>
        (\<forall>l' \<in> set ledgers. c < led_seq l' \<longrightarrow> led_min l < led_min l') \<and> (\<exists>l' \<in> set ledgers. led_min l < led_min l'))"

lemma word_less_plus_one:
  fixes x y z :: u32
  assumes "x < y"
  shows "z < x + 1 \<longleftrightarrow> z \<le> x"
proof -
  have "unat (x + 1) = unat x + 1"
    using assms by unat_arith
  then show ?thesis
    by (simp add: word_less_nat_alt word_le_nat_alt less_Suc_eq_le)
qed

lemma open_minute_less:
  assumes "l \<in> set ledgers"
  shows "x < (case max_of (map (\<lambda>(_, m, _). m) ledgers) of Some m \<Rightarrow> m | None \<Rightarrow> 0) \<longleftrightarrow> (\<exists>l \<in> set ledgers. x < led_min l)"
proof -
  have "ledgers \<noteq> []" using assms by auto
  then show ?thesis
    by (simp add: max_of_eq Max_gr_iff split_beta)
qed

lemma split_at_alt:
  "split_at ledgers open_minute c =
     Option.bind (max_of (map led_min (filter (\<lambda>l. led_seq l \<le> c) ledgers))) (\<lambda>below.
       if below < open_minute \<and> (case min_of (map led_min (filter (\<lambda>l. c < led_seq l) ledgers)) of
            None \<Rightarrow> True | Some a \<Rightarrow> below < a)
       then Some (c, below + 1) else None)"
  by (simp add: split_at_def case_prod_beta' Let_def)

lemma split_at_nothing_below:
  "filter (\<lambda>l. led_seq l \<le> c) ledgers = [] \<Longrightarrow> split_at ledgers open_minute c = None"
  by (simp add: split_at_alt max_of_def)

text \<open>The minute below the cut, characterised.\<close>

lemma split_at_below:
  assumes "ledgers \<noteq> []" and "filter (\<lambda>l. led_seq l \<le> c) ledgers \<noteq> []"
    and "open_minute = (case max_of (map (\<lambda>(_, m, _). m) ledgers) of Some m \<Rightarrow> m | None \<Rightarrow> 0)"
  obtains top where "top \<in> set ledgers" "led_seq top \<le> c"
    and "\<And>l. l \<in> set ledgers \<Longrightarrow> led_seq l \<le> c \<Longrightarrow> led_min l \<le> led_min top"
    and "split_at ledgers open_minute c =
      (if (\<exists>l \<in> set ledgers. led_min top < led_min l) \<and>
          (\<forall>l \<in> set ledgers. c < led_seq l \<longrightarrow> led_min top < led_min l)
       then Some (c, led_min top + 1) else None)"
proof -
  let ?lo = "filter (\<lambda>l. led_seq l \<le> c) ledgers" and ?hi = "filter (\<lambda>l. c < led_seq l) ledgers"
  have "Max (led_min ` set ?lo) \<in> led_min ` set ?lo"
    using assms(2) by (intro Max_in) (simp_all only: finite_imageI List.finite_set image_is_empty set_empty not_False_eq_True)
  then obtain top where top: "top \<in> set ?lo" "Max (led_min ` set ?lo) = led_min top"
    by auto
  have max: "led_min l \<le> led_min top" if "l \<in> set ledgers" "led_seq l \<le> c" for l
    unfolding top(2) [symmetric] using that by (intro Max_ge) auto
  have below: "max_of (map led_min ?lo) = Some (led_min top)"
    using max_of_eq [of "map led_min ?lo"] assms(2) top(2) by simp
  have above: "(case min_of (map led_min ?hi) of None \<Rightarrow> True | Some a \<Rightarrow> x < a) \<longleftrightarrow>
      (\<forall>l \<in> set ledgers. c < led_seq l \<longrightarrow> x < led_min l)" for x
  proof (cases "?hi = []")
    case True
    then show ?thesis by (auto simp: min_of_def filter_empty_conv)
  next
    case False
    then have "min_of (map led_min ?hi) = Some (Min (led_min ` set ?hi))"
      using min_of_eq [of "map led_min ?hi"] by simp
    moreover have "x < Min (led_min ` set ?hi) \<longleftrightarrow> (\<forall>y \<in> led_min ` set ?hi. x < y)"
      using False by (intro Min_gr_iff) (simp_all only: finite_imageI List.finite_set image_is_empty set_empty not_False_eq_True)
    moreover have "(\<forall>y \<in> led_min ` set ?hi. x < y) \<longleftrightarrow> (\<forall>l \<in> set ledgers. c < led_seq l \<longrightarrow> x < led_min l)"
      unfolding set_filter by blast
    ultimately show ?thesis by (simp del: set_filter)
  qed
  have "split_at ledgers open_minute c =
      (if (\<exists>l \<in> set ledgers. led_min top < led_min l) \<and> (\<forall>l \<in> set ledgers. c < led_seq l \<longrightarrow> led_min top < led_min l)
       then Some (c, led_min top + 1) else None)"
    using below above [of "led_min top"] open_minute_less [of top ledgers "led_min top"] top(1)
    by (simp add: split_at_alt assms(3))
  then show thesis
    using that [of top] top(1) max by simp
qed

lemma split_at_clean:
  assumes "open_minute = (case max_of (map (\<lambda>(_, m, _). m) ledgers) of Some m \<Rightarrow> m | None \<Rightarrow> 0)"
  shows "split_at ledgers open_minute c \<noteq> None \<longleftrightarrow> clean_cut ledgers c"
proof (cases "filter (\<lambda>l. led_seq l \<le> c) ledgers = []")
  case True
  then show ?thesis
    by (auto simp: split_at_nothing_below clean_cut_def filter_empty_conv)
next
  case False
  then have "ledgers \<noteq> []" by auto
  from this False assms obtain top where t: "top \<in> set ledgers" "led_seq top \<le> c"
    "\<And>l. l \<in> set ledgers \<Longrightarrow> led_seq l \<le> c \<Longrightarrow> led_min l \<le> led_min top"
    "split_at ledgers open_minute c =
      (if (\<exists>l \<in> set ledgers. led_min top < led_min l) \<and> (\<forall>l \<in> set ledgers. c < led_seq l \<longrightarrow> led_min top < led_min l)
       then Some (c, led_min top + 1) else None)"
    by (rule split_at_below) (rule that)
  have "(\<exists>l \<in> set ledgers. led_min top < led_min l) \<and> (\<forall>l \<in> set ledgers. c < led_seq l \<longrightarrow> led_min top < led_min l) \<longleftrightarrow>
      clean_cut ledgers c" (is "?ab \<longleftrightarrow> _")
  proof
    assume ?ab
    then show "clean_cut ledgers c"
      unfolding clean_cut_def using t(1,2) order_le_less_trans [OF t(3)] by meson
  next
    assume "clean_cut ledgers c"
    then show ?ab
      unfolding clean_cut_def using t(1,2) by blast
  qed
  then show ?thesis
    by (simp add: t(4))
qed

lemma split_at_SomeD:
  assumes "open_minute = (case max_of (map (\<lambda>(_, m, _). m) ledgers) of Some m \<Rightarrow> m | None \<Rightarrow> 0)"
    and "split_at ledgers open_minute c = Some (c', b)"
  shows "c' = c \<and> (\<forall>l \<in> set ledgers. led_seq l \<le> c \<longleftrightarrow> led_min l < b) \<and> (\<exists>l \<in> set ledgers. b \<le> led_min l)"
proof -
  have lo: "filter (\<lambda>l. led_seq l \<le> c) ledgers \<noteq> []"
    using assms(2) split_at_nothing_below by fastforce
  then have "ledgers \<noteq> []" by auto
  from this lo assms(1) obtain top where t: "top \<in> set ledgers" "led_seq top \<le> c"
    "\<And>l. l \<in> set ledgers \<Longrightarrow> led_seq l \<le> c \<Longrightarrow> led_min l \<le> led_min top"
    "split_at ledgers open_minute c =
      (if (\<exists>l \<in> set ledgers. led_min top < led_min l) \<and> (\<forall>l \<in> set ledgers. c < led_seq l \<longrightarrow> led_min top < led_min l)
       then Some (c, led_min top + 1) else None)"
    by (rule split_at_below) (rule that)
  then obtain l0 where l0: "l0 \<in> set ledgers" "led_min top < led_min l0"
    and hi: "\<And>l. l \<in> set ledgers \<Longrightarrow> c < led_seq l \<Longrightarrow> led_min top < led_min l"
    and b: "c' = c" "b = led_min top + 1"
    using assms(2) by (auto split: if_splits)
  have less: "z < b \<longleftrightarrow> z \<le> led_min top" for z
    unfolding b(2) by (rule word_less_plus_one [OF l0(2)])
  then show ?thesis
    using b(1) t(1-3) l0 hi by (metis linorder_not_less)
qed

lemma run_boundary_SomeD:
  assumes "snd (run_boundary ledgers) = Some (c, b)"
  shows "(\<exists>m. (c, m, True) \<in> set ledgers) \<and> clean_cut ledgers c \<and>
    (\<forall>l \<in> set ledgers. led_seq l \<le> c \<longleftrightarrow> led_min l < b) \<and> (\<exists>l \<in> set ledgers. b \<le> led_min l)"
proof -
  define om where "om = (case max_of (map (\<lambda>(_, m, _). m) ledgers) of Some m \<Rightarrow> m | None \<Rightarrow> 0)"
  have "max_by_key fst (List.map_filter (\<lambda>(c, _, _). split_at ledgers om c)
      (filter (\<lambda>(_, _, obj_end). obj_end) ledgers)) = Some (c, b)"
    using assms by (simp add: run_boundary_def Let_def om_def)
  from max_by_key_SomeD(1) [OF this]
  obtain c0 m where mem: "(c0, m, True) \<in> set ledgers" and some: "split_at ledgers om c0 = Some (c, b)"
    by (auto simp: map_filter_def)
  then show ?thesis
    using split_at_SomeD [OF om_def some] split_at_clean [OF om_def, of c0] by auto
qed

lemma run_boundary_greatest:
  assumes "(c, m, True) \<in> set ledgers" and "clean_cut ledgers c"
  shows "\<exists>c' b. snd (run_boundary ledgers) = Some (c', b) \<and> c \<le> c'"
proof -
  define om where "om = (case max_of (map (\<lambda>(_, m, _). m) ledgers) of Some m \<Rightarrow> m | None \<Rightarrow> 0)"
  let ?xs = "List.map_filter (\<lambda>(c, _, _). split_at ledgers om c) (filter (\<lambda>(_, _, obj_end). obj_end) ledgers)"
  have eq: "snd (run_boundary ledgers) = max_by_key fst ?xs"
    by (simp add: run_boundary_def Let_def om_def)
  obtain b where b: "split_at ledgers om c = Some (c, b)"
    using split_at_clean [OF om_def, of c] split_at_SomeD [OF om_def, of c] assms(2) by (metis not_None_eq prod.exhaust_sel)
  then have mem: "(c, b) \<in> set ?xs"
    using assms(1) by (force simp: map_filter_def)
  then obtain x where x: "max_by_key fst ?xs = Some x"
    using max_by_key_None [of fst ?xs] by (metis empty_iff empty_set not_None_eq)
  then have "c \<le> fst x"
    using max_by_key_SomeD(2) [OF x] mem by force
  with x show ?thesis
    by (cases x) (simp add: eq)
qed

lemma sorted_minutes_mono:
  assumes "sorted_wrt (\<lambda>l l'. led_seq l < led_seq l' \<and> led_min l \<le> led_min l') ledgers"
    and "l \<in> set ledgers" and "l' \<in> set ledgers" and "led_seq l \<le> led_seq l'"
  shows "led_min l \<le> led_min l'"
  using assms by (induction ledgers) (auto dest: order_less_le_trans)

lemma sorted_minutes_last:
  assumes "sorted_wrt (\<lambda>l l'. led_seq l < led_seq l' \<and> led_min l \<le> led_min l') ledgers"
    and "ledgers \<noteq> []" and "l \<in> set ledgers"
  shows "led_min l \<le> led_min (last ledgers)"
  using assms by (induction ledgers) (auto split: if_splits)

text \<open>A run that sees two minutes has a clean cut.\<close>

lemma run_boundary_progress:
  assumes "list_all (\<lambda>(_, _, obj_end). obj_end) ledgers"
    and "sorted_wrt (\<lambda>l l'. led_seq l < led_seq l' \<and> led_min l \<le> led_min l') ledgers"
    and "l1 \<in> set ledgers" and "l2 \<in> set ledgers" and "led_min l1 < led_min l2"
  shows "\<exists>c b. snd (run_boundary ledgers) = Some (c, b) \<and> led_seq l1 \<le> c"
proof -
  let ?S = "{l \<in> set ledgers. led_min l < led_min (last ledgers)}"
  have ne: "ledgers \<noteq> []"
    using assms(3) by auto
  then have last_max: "led_min l \<le> led_min (last ledgers)" if "l \<in> set ledgers" for l
    using that by (rule sorted_minutes_last [OF assms(2)])
  then have l1: "l1 \<in> ?S"
    using assms(3-5) less_le_trans [OF assms(5) last_max [OF assms(4)]] by simp
  then have "led_seq ` ?S \<noteq> {}"
    by blast
  then have "Max (led_seq ` ?S) \<in> led_seq ` ?S"
    by (intro Max_in) simp_all
  then obtain top where top: "top \<in> ?S" "Max (led_seq ` ?S) = led_seq top"
    by (elim imageE) blast
  have max: "led_seq l \<le> led_seq top" if "l \<in> ?S" for l
    unfolding top(2) [symmetric] using that by (intro Max_ge) simp_all
  have clean: "clean_cut ledgers (led_seq top)"
    unfolding clean_cut_def
  proof (intro conjI ballI impI)
    show "\<exists>l \<in> set ledgers. led_seq l \<le> led_seq top"
      using top(1) by blast
  next
    fix l assume l: "l \<in> set ledgers" "led_seq l \<le> led_seq top"
    then have below: "led_min l < led_min (last ledgers)"
      using sorted_minutes_mono [OF assms(2) l(1) _ l(2)] top(1) by force
    then show "\<exists>l' \<in> set ledgers. led_min l < led_min l'"
      using ne last_in_set by blast
    fix l' assume "l' \<in> set ledgers" "led_seq top < led_seq l'"
    then have "\<not> led_min l' < led_min (last ledgers)"
      using max [of l'] by force
    with below show "led_min l < led_min l'"
      by simp
  qed
  obtain s m e where t: "top = (s, m, e)"
    by (cases top)
  have "(s, m, True) \<in> set ledgers"
    using assms(1) top(1) t by (force simp: list_all_iff)
  from run_boundary_greatest [OF this] clean t show ?thesis
    using max [OF l1] by (auto intro: order_trans)
qed

text \<open>Two ledgers of one minute and the first of the next: the cut is after the second.\<close>

lemma run_boundary_example:
  "run_boundary [(7, 60, True), (8, 60, True), (9, 120, True)] = (120, Some (8, 61))"
  by code_simp

section \<open>Properties\<close>

text \<open>
  C27: When run_boundary answers a cursor and a flush limit, the cursor ends an S3 object, a ledger is at or
  below the cursor exactly when its minute is below the flush limit, no minute exceeds the open one, and the
  ledgers held back are exactly those the next run re-reads: no minute is written now and rewritten from only
  part of its ledgers later.
\<close>

theorem written_minutes_are_the_passed_ledgers:
  assumes "run_boundary ledgers = (open_minute, Some (cursor, flush_before))"
  shows "(\<exists>m. (cursor, m, True) \<in> set ledgers) \<and>
    (\<forall>(s, m, _) \<in> set ledgers. (s \<le> cursor \<longleftrightarrow> m < flush_before) \<and> m \<le> open_minute) \<and>
    flush_before \<le> open_minute \<and>
    length (filter (\<lambda>(_, m, _). flush_before \<le> m) ledgers) = held_back_count ledgers cursor"
proof -
  have some: "snd (run_boundary ledgers) = Some (cursor, flush_before)"
    using assms by simp
  note cut = run_boundary_SomeD [OF this]
  then have "ledgers \<noteq> []" by auto
  have om: "open_minute = Max (led_min ` set ledgers)"
    using assms \<open>ledgers \<noteq> []\<close> by (simp add: run_boundary_def Let_def max_of_eq case_prod_beta')
  have le: "led_min l \<le> open_minute" if "l \<in> set ledgers" for l
    unfolding om using that by (intro Max_ge) auto
  have "filter (\<lambda>(_, m, _). flush_before \<le> m) ledgers = filter (\<lambda>(s, _, _). cursor < s) ledgers"
    using cut by (intro filter_cong) (auto simp: not_le not_less case_prod_beta')
  then have held: "length (filter (\<lambda>(_, m, _). flush_before \<le> m) ledgers) = held_back_count ledgers cursor"
    by (simp add: held_back_count_def)
  have end_of: "\<exists>m. (cursor, m, True) \<in> set ledgers"
    using cut by blast
  have fb: "flush_before \<le> open_minute"
    using cut le order_trans by blast
  have each: "\<forall>(s, m, _) \<in> set ledgers. (s \<le> cursor \<longleftrightarrow> m < flush_before) \<and> m \<le> open_minute"
    using cut le by force
  show ?thesis
    using end_of each fb held by (intro conjI)
qed

theorem written_minutes_are_the_passed_ledgers_witness:
  "length (filter (\<lambda>(_, m, _). 61 \<le> m) [(7 :: u64, 60 :: u32, True), (8, 60, True), (9, 120, True)]) =
     held_back_count [(7, 60, True), (8, 60, True), (9, 120, True)] 8"
proof -
  have "run_boundary [(7, 60, True), (8, 60, True), (9, 120, True)] = (120, Some (8, 61))"
    by (rule run_boundary_example)
  note written_minutes_are_the_passed_ledgers [OF this, THEN conjunct2, THEN conjunct2, THEN conjunct2]
  then show ?thesis .
qed

lemma boundary_is_the_last_clean_cut:
  "(case snd (run_boundary ledgers) of
      Some (c, _) \<Rightarrow> clean_cut ledgers c \<and>
        list_all (\<lambda>(s, _, obj_end). obj_end \<and> clean_cut ledgers s \<longrightarrow> s \<le> c) ledgers
    | None \<Rightarrow> list_all (\<lambda>(s, _, obj_end). \<not> (obj_end \<and> clean_cut ledgers s)) ledgers)"
proof (cases "snd (run_boundary ledgers)")
  case None
  then show ?thesis
    using run_boundary_greatest by (fastforce simp: list_all_iff)
next
  case (Some p)
  obtain c b where p: "p = (c, b)" by (cases p)
  have "clean_cut ledgers c"
    using run_boundary_SomeD Some p by blast
  moreover have "s \<le> c" if "(s, m, True) \<in> set ledgers" "clean_cut ledgers s" for s m
    using run_boundary_greatest [OF that] Some p by simp
  ultimately show ?thesis
    unfolding Some p by (auto simp: list_all_iff)
qed

end
