(* ===== verification/Galexie_Key.thy ===== *)
theory Galexie_Key
  imports Prelude "HOL-Library.Signed_Division"
begin

text \<open>
  The S3 key of a ledger's object (\<open>prices-ledger-processor/src/galexie_key.rs\<close>). The property: the key
  determines the ledger, and its directory the partition of the ledger, for every 64-bit ledger number.
\<close>

section \<open>Formatting\<close>

definition hex_upper :: string where
  "hex_upper = ''0123456789ABCDEF''"

text \<open>\<open>{:08X}\<close> of a 32-bit number, and \<open>{}\<close> of a signed one.\<close>

definition hex08 :: "u32 \<Rightarrow> string" where
  "hex08 w = map (\<lambda>i. hex_upper ! (unat (drop_bit (4 * i) w) mod 16)) [7, 6, 5, 4, 3, 2, 1, 0]"

definition show_int :: "int \<Rightarrow> string" where
  "show_int n = (if n < 0 then CHR ''-'' # show_nat (nat (- n)) else show_nat (nat n))"

section \<open>The key\<close>

definition files_per_partition :: i64 where
  "files_per_partition = 64000"

text \<open>Rust's integer division truncates.\<close>

definition div_i64 :: "i64 \<Rightarrow> i64 \<Rightarrow> i64" where
  "div_i64 x y = word_of_int (sint x sdiv sint y)"

definition ledger_s3_key :: "i64 \<Rightarrow> string" where
  "ledger_s3_key ledger =
     (let part_start = div_i64 ledger files_per_partition * files_per_partition;
          part_end = part_start + files_per_partition - 1;
          part_prefix = 0xFFFFFFFF - (ucast part_start :: u32);
          file_prefix = 0xFFFFFFFF - (ucast ledger :: u32)
      in hex08 part_prefix @ ''--'' @ show_int (sint part_start) @ ''-'' @ show_int (sint part_end) @ ''/'' @
         hex08 file_prefix @ ''--'' @ show_int (sint ledger) @ ''.xdr.zst'')"

section \<open>Lemmas\<close>

lemma show_nat_digits: "c \<in> set (show_nat n) \<Longrightarrow> 48 \<le> (of_char c :: nat) \<and> (of_char c :: nat) < 58"
proof (induction n rule: show_nat.induct)
  case (1 n)
  then show ?case
    by (subst (asm) (2) show_nat.simps) (auto split: if_splits)
qed

lemma show_nat_nonempty: "show_nat n \<noteq> []"
  by (subst show_nat.simps) simp

lemma show_nat_not: "c \<in> set (show_nat n) \<Longrightarrow> c \<noteq> CHR ''-'' \<and> c \<noteq> CHR ''/'' \<and> c \<noteq> CHR ''.''"
  using show_nat_digits [of c n] by auto

lemma take_before:
  assumes "\<And>c. c \<in> set xs \<Longrightarrow> c \<noteq> d"
  shows "takeWhile (\<lambda>c. c \<noteq> d) (xs @ d # ys) = xs" "dropWhile (\<lambda>c. c \<noteq> d) (xs @ d # ys) = d # ys"
  using assms by (simp_all add: takeWhile_append2 dropWhile_append2)

lemma show_int_prefix:
  assumes "show_int a @ d # xs = show_int b @ d # ys" and "d = CHR ''-'' \<or> d = CHR ''.''"
  shows "a = b"
proof -
  have nat_case: "m = n" if "show_nat m @ d # xs = show_nat n @ d # ys" for m n xs ys
  proof -
    have "show_nat m = show_nat n"
      using take_before(1) [of "show_nat m" d xs] take_before(1) [of "show_nat n" d ys] show_nat_not assms(2) that by metis
    then show ?thesis by (simp add: show_nat_inject)
  qed
  have mixed: False if "CHR ''-'' # zs = show_nat n @ ws" for n zs ws
    using that show_nat_nonempty [of n] show_nat_not [of "CHR ''-''" n] by (cases "show_nat n") auto
  show ?thesis
  proof (cases "a < 0"; cases "b < 0")
    assume s: "a < 0" "b < 0"
    then have "show_nat (nat (- a)) @ d # xs = show_nat (nat (- b)) @ d # ys"
      using assms(1) by (simp add: show_int_def)
    from nat_case [OF this] s show ?thesis by simp
  next
    assume s: "\<not> a < 0" "\<not> b < 0"
    then have "show_nat (nat a) @ d # xs = show_nat (nat b) @ d # ys"
      using assms(1) by (simp add: show_int_def)
    from nat_case [OF this] s show ?thesis by simp
  next
    assume "a < 0" "\<not> b < 0"
    then show ?thesis
      using assms(1) mixed [of "show_nat (nat (- a)) @ d # xs" "nat b"] by (simp add: show_int_def)
  next
    assume "\<not> a < 0" "b < 0"
    then show ?thesis
      using assms(1) [symmetric] mixed [of "show_nat (nat (- b)) @ d # ys" "nat a"] by (simp add: show_int_def)
  qed
qed

lemma hex08_length [simp]: "length (hex08 w) = 8"
  by (simp add: hex08_def)

lemma hex08_no_slash:
  assumes "c \<in> set (hex08 w)"
  shows "c \<noteq> CHR ''/''"
proof -
  have "hex_upper ! (n mod 16) \<in> set hex_upper" for n
    by (rule nth_mem) (simp add: hex_upper_def)
  then have "c \<in> set hex_upper"
    using assms unfolding hex08_def set_map by blast
  then show ?thesis
    by (auto simp: hex_upper_def)
qed

lemma show_int_no_slash: "c \<in> set (show_int n) \<Longrightarrow> c \<noteq> CHR ''/''"
  using show_nat_not by (auto simp: show_int_def split: if_splits)

text \<open>The key's directory and its file name.\<close>

definition key_dir :: "string \<Rightarrow> string" where
  "key_dir key = takeWhile (\<lambda>c. c \<noteq> CHR ''/'') key"

lemma partition_start:
  "sint (div_i64 ledger files_per_partition * files_per_partition) = (sint ledger sdiv 64000) * 64000"
proof -
  let ?q = "sint ledger sdiv 64000"
  have q: "\<bar>?q * 64000\<bar> \<le> \<bar>sint ledger\<bar>"
  proof -
    have "\<bar>sint ledger\<bar> div 64000 * 64000 \<le> \<bar>sint ledger\<bar>"
      using div_mult_mod_eq [of "\<bar>sint ledger\<bar>" 64000] pos_mod_sign [of 64000 "\<bar>sint ledger\<bar>"] by linarith
    then show ?thesis
      by (cases "0 \<le> sint ledger") (simp_all add: signed_divide_int_def abs_mult sgn_if)
  qed
  moreover have "\<bar>sint ledger\<bar> \<le> 2 ^ 63"
    using sint_lt [of ledger] sint_ge [of ledger] by (simp add: abs_le_iff)
  moreover have "?q * 64000 \<noteq> 2 ^ 63"
  proof
    assume "?q * 64000 = 2 ^ 63"
    then have "(2 ^ 63 :: int) mod 64000 = 0"
      by (metis mod_mult_self2_is_0)
    then show False by simp
  qed
  ultimately have range: "- (2 ^ 63) \<le> ?q * 64000" "?q * 64000 < 2 ^ 63"
    by linarith+
  have "div_i64 ledger files_per_partition * files_per_partition = word_of_int (?q * 64000)"
    by (simp add: div_i64_def files_per_partition_def)
  moreover have "sint (word_of_int x :: i64) = x" if "- (2 ^ 63) \<le> x" "x < 2 ^ 63" for x
    using that by (simp add: signed_of_int signed_take_bit_int_eq_self)
  ultimately show ?thesis
    using range by metis
qed

section \<open>Property\<close>

lemma ledger_s3_key_inject: "ledger_s3_key a = ledger_s3_key b \<longleftrightarrow> a = b"
  and ledger_s3_key_dir: "key_dir (ledger_s3_key a) = key_dir (ledger_s3_key b) \<longleftrightarrow> sint a sdiv 64000 = sint b sdiv 64000"
proof -
  define start where "start x = div_i64 x files_per_partition * files_per_partition" for x
  define dir where "dir x = hex08 (0xFFFFFFFF - ucast (start x)) @ ''--'' @ show_int (sint (start x)) @ ''-'' @
    show_int (sint (start x + files_per_partition - 1))" for x
  define nm where "nm x = hex08 (0xFFFFFFFF - ucast x) @ ''--'' @ show_int (sint x) @ ''.xdr.zst''" for x :: i64
  have key: "ledger_s3_key x = dir x @ CHR ''/'' # nm x" for x
    by (simp add: ledger_s3_key_def dir_def nm_def start_def Let_def)
  have no_slash: "c \<noteq> CHR ''/''" if "c \<in> set (dir x)" for c x
    using that hex08_no_slash show_int_no_slash unfolding dir_def by auto
  have parts: "key_dir (ledger_s3_key x) = dir x" "dropWhile (\<lambda>c. c \<noteq> CHR ''/'') (ledger_s3_key x) = CHR ''/'' # nm x" for x
    unfolding key key_dir_def using take_before [OF no_slash] by simp_all
  have nm: "nm x = nm y \<longleftrightarrow> x = y" for x y
    using show_int_prefix [of "sint x" "CHR ''.''" "''xdr.zst''" "sint y" "''xdr.zst''"]
    by (auto simp: nm_def intro: signed_word_eqI)
  have dir: "dir x = dir y \<longleftrightarrow> start x = start y" for x y
  proof
    assume "dir x = dir y"
    then have "show_int (sint (start x)) @ CHR ''-'' # show_int (sint (start x + files_per_partition - 1)) =
        show_int (sint (start y)) @ CHR ''-'' # show_int (sint (start y + files_per_partition - 1))"
      by (simp add: dir_def)
    then have "sint (start x) = sint (start y)"
      by (rule show_int_prefix) simp
    then show "start x = start y"
      by (rule signed_word_eqI)
  qed (simp add: dir_def)
  have start: "start x = start y \<longleftrightarrow> sint x sdiv 64000 = sint y sdiv 64000" for x y
  proof
    assume "start x = start y"
    then have "sint x sdiv 64000 * 64000 = sint y sdiv 64000 * 64000"
      using partition_start [of x] partition_start [of y] by (simp only: start_def)
    then show "sint x sdiv 64000 = sint y sdiv 64000" by simp
  next
    assume "sint x sdiv 64000 = sint y sdiv 64000"
    then have "sint (start x) = sint (start y)"
      using partition_start [of x] partition_start [of y] by (simp only: start_def)
    then show "start x = start y" by (rule signed_word_eqI)
  qed
  have "a = b" if "ledger_s3_key a = ledger_s3_key b"
    using parts(2) [of a] parts(2) [of b] that nm [of a b] by simp
  then show "ledger_s3_key a = ledger_s3_key b \<longleftrightarrow> a = b" by blast
  show "key_dir (ledger_s3_key a) = key_dir (ledger_s3_key b) \<longleftrightarrow> sint a sdiv 64000 = sint b sdiv 64000"
    unfolding parts(1) dir start by (rule refl)
qed

text \<open>
  The S3 key of a ledger determines it, and two keys share a directory exactly when the ledgers are in the
  same partition of 64000, for every 64-bit ledger number.
\<close>

lemma keys_determine_ledger_and_partition:
  "(ledger_s3_key a = ledger_s3_key b \<longleftrightarrow> a = b) \<and>
   (key_dir (ledger_s3_key a) = key_dir (ledger_s3_key b) \<longleftrightarrow> sint a sdiv 64000 = sint b sdiv 64000)"
  using ledger_s3_key_inject ledger_s3_key_dir by blast

end
