(* ===== verification/Extractors.thy ===== *)
theory Extractors
  imports Prelude
begin

text \<open>
  The event model of \<open>packages/extractors-core\<close> and the four venue decoders: the pair decoder of
  \<open>packages/soroswap-extractor\<close> (Soroswap and SushiSwap V3), \<open>aquarius-extractor\<close>, \<open>comet-extractor\<close>
  and \<open>phoenix-extractor\<close>. The trait \<open>SwapExtractor\<close> is the locale \<open>swap_extractor\<close>: what every caller
  relies on. The three decoders that read one trade per row share the stronger locale \<open>row_extractor\<close>.
\<close>

section \<open>Events and trades\<close>

datatype venue = Soroswap | Aquarius | Phoenix | Sushiswap | Comet

fun as_source :: "venue \<Rightarrow> string" where
  "as_source Soroswap = ''soroswap''"
| "as_source Aquarius = ''aquarius''"
| "as_source Phoenix = ''phoenix''"
| "as_source Sushiswap = ''sushiswap''"
| "as_source Comet = ''comet''"

definition from_source :: "string \<Rightarrow> venue option" where
  "from_source s =
     (if s = ''soroswap'' then Some Soroswap
      else if s = ''aquarius'' then Some Aquarius
      else if s = ''phoenix'' then Some Phoenix
      else if s = ''sushiswap'' then Some Sushiswap
      else if s = ''comet'' then Some Comet
      else None)"

datatype tagged =
    TSymbol string
  | TString string
  | TAddress string
  | TI128 i128
  | TMap "(tagged \<times> tagged) list"
  | TVec "tagged list"
  | TNull

fun as_str :: "tagged \<Rightarrow> string option" where
  "as_str (TSymbol s) = Some s"
| "as_str (TString s) = Some s"
| "as_str (TAddress s) = Some s"
| "as_str _ = None"

fun as_i128 :: "tagged \<Rightarrow> i128 option" where
  "as_i128 (TI128 v) = Some v"
| "as_i128 _ = None"

fun as_address :: "tagged \<Rightarrow> string option" where
  "as_address (TAddress s) = Some s"
| "as_address _ = None"

record event_row =
  ev_contract_id :: string
  ev_transaction_id :: string
  ev_ledger_sequence :: u64
  ev_event_index :: u32
  ev_topics :: "tagged list"
  ev_data :: tagged

record trade_row =
  tr_venue :: venue
  tr_contract_id :: string
  tr_transaction_id :: string
  tr_ledger_sequence :: u64
  tr_first_event_index :: u32
  tr_token_in :: string
  tr_token_out :: string
  tr_amount_in :: i128
  tr_amount_out :: i128
  tr_fee :: "i128 option"
  tr_trader :: "string option"

record extract_result =
  res_trades :: "trade_row list"
  res_rows_consumed :: nat

datatype extract_error =
    InsufficientRows nat nat
  | MissingField string
  | UnexpectedTopicShape u32
  | NonPositiveAmount string i128

text \<open>\<open>row.topics.get(i).and_then(as_str)\<close>, and the first entry of a data map under a string key.\<close>

definition topic_as_str :: "event_row \<Rightarrow> nat \<Rightarrow> string option" where
  "topic_as_str row i = Option.bind (get_at (ev_topics row) i) as_str"

definition topic_as_address :: "event_row \<Rightarrow> nat \<Rightarrow> string option" where
  "topic_as_address row i = Option.bind (get_at (ev_topics row) i) as_address"

definition map_get :: "(tagged \<times> tagged) list \<Rightarrow> string \<Rightarrow> tagged option" where
  "map_get m key = map_option snd (List.find (\<lambda>(k, _). as_str k = Some key) m)"

lemma from_source_as_source [simp]: "from_source (as_source v) = Some v"
  by (cases v) (simp_all add: from_source_def as_source.simps)

lemma from_source_eq_Some: "from_source s = Some v \<longleftrightarrow> s = as_source v"
proof
  assume "from_source s = Some v"
  then show "s = as_source v"
    unfolding from_source_def by (simp add: as_source.simps split: if_split_asm)
qed simp

declare as_source.simps [simp del]

lemma as_address_as_str: "as_address t = Some s \<Longrightarrow> as_str t = Some s"
  by (cases t) auto

section \<open>The extractor contract\<close>

text \<open>The trade was read off this row: it names the row's contract, transaction, ledger and event index.\<close>

definition trade_from :: "venue \<Rightarrow> event_row \<Rightarrow> trade_row \<Rightarrow> bool" where
  "trade_from v row t \<longleftrightarrow>
     tr_venue t = v \<and> tr_contract_id t = ev_contract_id row \<and>
     tr_transaction_id t = ev_transaction_id row \<and>
     tr_ledger_sequence t = ev_ledger_sequence row \<and>
     tr_first_event_index t = ev_event_index row"

locale swap_extractor =
  fixes extractor :: "event_row list \<Rightarrow> (extract_error, extract_result) result"
    and ven :: venue
    and min_rows :: nat
  assumes min_rows_pos: "0 < min_rows"
    and too_few: "length rows < min_rows \<Longrightarrow> extractor rows = Inl (InsufficientRows min_rows (length rows))"
    and provenance: "extractor rows = Inr r \<Longrightarrow> t \<in> set (res_trades r) \<Longrightarrow>
      \<exists>row \<in> set rows. trade_from ven row t"
    and consumed: "extractor rows = Inr r \<Longrightarrow>
      length (res_trades r) \<le> res_rows_consumed r \<and> res_rows_consumed r \<le> length rows"
begin

lemma accepted_enough: "extractor rows = Inr r \<Longrightarrow> min_rows \<le> length rows"
  using too_few by (metis linorder_not_less sum.distinct(1))

lemma empty_rejected: "extractor [] = Inl (InsufficientRows min_rows 0)"
  using too_few [of "[]"] min_rows_pos by simp

lemma group_provenance:
  assumes "extractor rows = Inr r" and "t \<in> set (res_trades r)"
    and "\<And>row. row \<in> set rows \<Longrightarrow>
      ev_contract_id row = c \<and> ev_transaction_id row = tx \<and> ev_ledger_sequence row = l"
  shows "tr_venue t = ven \<and> tr_contract_id t = c \<and> tr_transaction_id t = tx \<and> tr_ledger_sequence t = l"
proof -
  obtain row where "row \<in> set rows" "trade_from ven row t"
    using provenance [OF assms(1,2)] by blast
  with assms(3) show ?thesis
    by (auto simp: trade_from_def)
qed

end

text \<open>An extractor that reads every matching row of the group on its own.\<close>

locale row_extractor =
  fixes extractor :: "event_row list \<Rightarrow> (extract_error, extract_result) result"
    and ven :: venue
    and is_swap :: "event_row \<Rightarrow> bool"
    and decode :: "event_row \<Rightarrow> (extract_error, trade_row) result"
  assumes extract_rows: "extractor rows =
      (if rows = [] then Inl (InsufficientRows 1 0)
       else rbind (collect_if is_swap decode rows)
         (\<lambda>ts. Inr \<lparr>res_trades = ts, res_rows_consumed = length rows\<rparr>))"
    and decode_from: "decode row = Inr t \<Longrightarrow> trade_from ven row t"
begin

lemma extract_InrD:
  assumes "extractor rows = Inr r"
  shows "rows \<noteq> [] \<and> collect_if is_swap decode rows = Inr (res_trades r) \<and>
    res_rows_consumed r = length rows"
  using assms by (auto simp: extract_rows split: if_splits)

lemma trade_count: "extractor rows = Inr r \<Longrightarrow> length (res_trades r) = length (filter is_swap rows)"
  using collect_if_length extract_InrD by blast

lemma extract_append:
  assumes "extractor xs = Inr r" and "extractor ys = Inr s"
  shows "extractor (xs @ ys) =
    Inr \<lparr>res_trades = res_trades r @ res_trades s, res_rows_consumed = length xs + length ys\<rparr>"
  using extract_InrD [OF assms(1)] extract_InrD [OF assms(2)]
  by (simp add: extract_rows collect_if_append)

lemma extract_fails_iff:
  "(\<exists>e. extractor rows = Inl e) \<longleftrightarrow>
     rows = [] \<or> (\<exists>row \<in> set rows. is_swap row \<and> (\<exists>e. decode row = Inl e))"
  using collect_if_fails_iff [of is_swap decode rows] by (simp add: extract_rows rbind_eq_Inl)

end

sublocale row_extractor \<subseteq> swap_extractor extractor ven 1
proof unfold_locales
  fix rows r t
  assume "extractor rows = Inr r" and "t \<in> set (res_trades r)"
  then show "\<exists>row \<in> set rows. trade_from ven row t"
    using extract_InrD collect_if_mem decode_from by metis
next
  fix rows r
  assume r: "extractor rows = Inr r"
  show "length (res_trades r) \<le> res_rows_consumed r \<and> res_rows_consumed r \<le> length rows"
    using trade_count [OF r] extract_InrD [OF r] by (metis length_filter_le order_refl)
qed (simp_all add: extract_rows)


section \<open>The pair decoder: Soroswap and SushiSwap V3\<close>

record token_pair =
  token0 :: string
  token1 :: string

text \<open>\<open>PairPoolRegistry\<close>: pool address to its pair.\<close>

type_synonym pair_registry = "(string, token_pair) hmap"

definition pair_register :: "string \<Rightarrow> string \<Rightarrow> string \<Rightarrow> pair_registry \<Rightarrow> pair_registry" where
  "pair_register pair t0 t1 reg = AList.update pair \<lparr>token0 = t0, token1 = t1\<rparr> reg"

definition pair_lookup :: "pair_registry \<Rightarrow> string \<Rightarrow> token_pair option" where
  "pair_lookup reg pair = map_of reg pair"

definition pair_contains :: "pair_registry \<Rightarrow> string \<Rightarrow> bool" where
  "pair_contains reg pair \<longleftrightarrow> map_of reg pair \<noteq> None"

definition swap_action :: "event_row \<Rightarrow> string option" where
  "swap_action row =
     Option.bind (topic_as_str row 0) (\<lambda>t0.
       if t0 = ''SoroswapPair'' then topic_as_str row 1 else Some t0)"

text \<open>
  The two data shapes of \<open>decode_swap\<close>: the token pair in trade direction and the two amounts. A missing
  uniswap-v2 amount reads as 0, a missing CLMM amount is an error.
\<close>

definition v2_amount :: "(tagged \<times> tagged) list \<Rightarrow> string \<Rightarrow> i128" where
  "v2_amount m key = (case Option.bind (map_get m key) as_i128 of None \<Rightarrow> 0 | Some v \<Rightarrow> v)"

definition v2_legs :: "token_pair \<Rightarrow> (tagged \<times> tagged) list \<Rightarrow> string \<times> string \<times> i128 \<times> i128" where
  "v2_legs p m =
     (let a0_in = v2_amount m ''amount_0_in''; a1_in = v2_amount m ''amount_1_in'';
          a0_out = v2_amount m ''amount_0_out''; a1_out = v2_amount m ''amount_1_out''
      in if sint a0_in \<ge> sint a1_in then (token0 p, token1 p, a0_in, a1_out)
         else (token1 p, token0 p, a1_in, a0_out))"

definition clmm_legs ::
  "token_pair \<Rightarrow> (tagged \<times> tagged) list \<Rightarrow> (extract_error, string \<times> string \<times> i128 \<times> i128) result" where
  "clmm_legs p m =
     rbind (ok_or (MissingField ''amount0'') (Option.bind (map_get m ''amount0'') as_i128)) (\<lambda>a0.
     rbind (ok_or (MissingField ''amount1'') (Option.bind (map_get m ''amount1'') as_i128)) (\<lambda>a1.
     Inr (if sint a0 \<ge> 0 then (token0 p, token1 p, a0, signed_abs a1)
          else (token1 p, token0 p, a1, signed_abs a0))))"

definition swap_legs ::
  "token_pair \<Rightarrow> (tagged \<times> tagged) list \<Rightarrow> (extract_error, string \<times> string \<times> i128 \<times> i128) result" where
  "swap_legs p m =
     (if map_get m ''amount_0_in'' \<noteq> None \<or> map_get m ''amount_1_in'' \<noteq> None
      then Inr (v2_legs p m) else clmm_legs p m)"

definition swap_trader :: "(tagged \<times> tagged) list \<Rightarrow> string option" where
  "swap_trader m =
     Option.bind
       (or_else (or_else (map_get m ''sender'') (map_get m ''recipient'')) (map_get m ''to''))
       as_address"

definition pair_decode_swap ::
  "venue \<Rightarrow> token_pair \<Rightarrow> event_row \<Rightarrow> (extract_error, trade_row) result" where
  "pair_decode_swap v p row =
     (if swap_action row \<noteq> Some ''swap'' then Inl (UnexpectedTopicShape (ev_event_index row))
      else case ev_data row of
        TMap m \<Rightarrow> rbind (swap_legs p m) (\<lambda>(token_in, token_out, amount_in, amount_out).
          Inr \<lparr>tr_venue = v,
               tr_contract_id = ev_contract_id row,
               tr_transaction_id = ev_transaction_id row,
               tr_ledger_sequence = ev_ledger_sequence row,
               tr_first_event_index = ev_event_index row,
               tr_token_in = token_in,
               tr_token_out = token_out,
               tr_amount_in = amount_in,
               tr_amount_out = amount_out,
               tr_fee = None,
               tr_trader = swap_trader m\<rparr>)
      | _ \<Rightarrow> Inl (UnexpectedTopicShape (ev_event_index row)))"

definition pair_extract ::
  "venue \<Rightarrow> token_pair \<Rightarrow> event_row list \<Rightarrow> (extract_error, extract_result) result" where
  "pair_extract v p rows =
     (if rows = [] then Inl (InsufficientRows 1 0)
      else rbind (collect_if (\<lambda>row. swap_action row = Some ''swap'') (pair_decode_swap v p) rows)
        (\<lambda>ts. Inr \<lparr>res_trades = ts, res_rows_consumed = length rows\<rparr>))"

lemma pair_from: "pair_decode_swap v p row = Inr t \<Longrightarrow> trade_from v row t"
  by (cases "ev_data row") (auto simp: pair_decode_swap_def trade_from_def split: if_splits)

interpretation pair_ext: row_extractor "pair_extract v p" v
    "\<lambda>row. swap_action row = Some ''swap''" "pair_decode_swap v p" for v p
  by unfold_locales (simp_all add: pair_extract_def pair_from)

section \<open>Aquarius\<close>

definition aquarius_trade_data_len :: nat where
  "aquarius_trade_data_len = 3"

definition aquarius_extract_one :: "event_row \<Rightarrow> (extract_error, trade_row) result" where
  "aquarius_extract_one row =
     rbind (ok_or (UnexpectedTopicShape (ev_event_index row)) (topic_as_str row 0)) (\<lambda>topic0.
     if topic0 \<noteq> ''trade'' then Inl (UnexpectedTopicShape (ev_event_index row)) else
     rbind (ok_or (MissingField ''sold_token'') (topic_as_address row 1)) (\<lambda>token_in.
     rbind (ok_or (MissingField ''bought_token'') (topic_as_address row 2)) (\<lambda>token_out.
     case ev_data row of
       TVec amounts \<Rightarrow>
         (if length amounts < aquarius_trade_data_len
          then Inl (InsufficientRows aquarius_trade_data_len (length amounts))
          else
          rbind (ok_or (MissingField ''amount_sold'') (as_i128 (amounts ! 0))) (\<lambda>amount_in.
          rbind (ok_or (MissingField ''amount_bought'') (as_i128 (amounts ! 1))) (\<lambda>amount_out.
          Inr \<lparr>tr_venue = Aquarius,
               tr_contract_id = ev_contract_id row,
               tr_transaction_id = ev_transaction_id row,
               tr_ledger_sequence = ev_ledger_sequence row,
               tr_first_event_index = ev_event_index row,
               tr_token_in = token_in,
               tr_token_out = token_out,
               tr_amount_in = amount_in,
               tr_amount_out = amount_out,
               tr_fee = as_i128 (amounts ! 2),
               tr_trader = topic_as_address row 3\<rparr>)))
     | _ \<Rightarrow> Inl (UnexpectedTopicShape (ev_event_index row)))))"

definition aquarius_extract :: "event_row list \<Rightarrow> (extract_error, extract_result) result" where
  "aquarius_extract rows =
     (if rows = [] then Inl (InsufficientRows 1 0)
      else rbind (collect_if (\<lambda>row. topic_as_str row 0 = Some ''trade'') aquarius_extract_one rows)
        (\<lambda>ts. Inr \<lparr>res_trades = ts, res_rows_consumed = length rows\<rparr>))"

lemma aquarius_from: "aquarius_extract_one row = Inr t \<Longrightarrow> trade_from Aquarius row t"
  by (cases "ev_data row") (auto simp: aquarius_extract_one_def trade_from_def split: if_splits)

interpretation aquarius_ext: row_extractor aquarius_extract Aquarius
    "\<lambda>row. topic_as_str row 0 = Some ''trade''" aquarius_extract_one
  by unfold_locales (simp_all add: aquarius_extract_def aquarius_from)

section \<open>Comet\<close>

text \<open>The Symbol or String value of a topic; an address does not pass for a name.\<close>

definition topic_name :: "event_row \<Rightarrow> nat \<Rightarrow> string option" where
  "topic_name row i =
     Option.bind (get_at (ev_topics row) i)
       (\<lambda>t. case t of TSymbol s \<Rightarrow> Some s | TString s \<Rightarrow> Some s | _ \<Rightarrow> None)"

definition is_pool_swap :: "event_row \<Rightarrow> bool" where
  "is_pool_swap row \<longleftrightarrow> topic_name row 0 = Some ''POOL'' \<and> topic_name row 1 = Some ''swap''"

definition comet_address :: "(tagged \<times> tagged) list \<Rightarrow> string \<Rightarrow> (extract_error, string) result" where
  "comet_address m key = ok_or (MissingField key) (Option.bind (map_get m key) as_address)"

definition comet_amount :: "(tagged \<times> tagged) list \<Rightarrow> string \<Rightarrow> (extract_error, i128) result" where
  "comet_amount m key =
     rbind (ok_or (MissingField key) (Option.bind (map_get m key) as_i128)) (\<lambda>value.
     if sint value \<le> 0 then Inl (NonPositiveAmount key value) else Inr value)"

definition comet_extract_one :: "event_row \<Rightarrow> (extract_error, trade_row) result" where
  "comet_extract_one row =
     (case ev_data row of
        TMap m \<Rightarrow>
          rbind (comet_address m ''token_in'') (\<lambda>token_in.
          rbind (comet_address m ''token_out'') (\<lambda>token_out.
          rbind (comet_amount m ''token_amount_in'') (\<lambda>amount_in.
          rbind (comet_amount m ''token_amount_out'') (\<lambda>amount_out.
          Inr \<lparr>tr_venue = Comet,
               tr_contract_id = ev_contract_id row,
               tr_transaction_id = ev_transaction_id row,
               tr_ledger_sequence = ev_ledger_sequence row,
               tr_first_event_index = ev_event_index row,
               tr_token_in = token_in,
               tr_token_out = token_out,
               tr_amount_in = amount_in,
               tr_amount_out = amount_out,
               tr_fee = None,
               tr_trader = Option.bind (map_get m ''caller'') as_address\<rparr>))))
      | _ \<Rightarrow> Inl (UnexpectedTopicShape (ev_event_index row)))"

definition comet_extract :: "event_row list \<Rightarrow> (extract_error, extract_result) result" where
  "comet_extract rows =
     (if rows = [] then Inl (InsufficientRows 1 0)
      else rbind (collect_if (\<lambda>_. True) comet_extract_one (filter is_pool_swap rows))
        (\<lambda>ts. Inr \<lparr>res_trades = ts, res_rows_consumed = length rows\<rparr>))"

lemma comet_from: "comet_extract_one row = Inr t \<Longrightarrow> trade_from Comet row t"
  by (cases "ev_data row") (auto simp: comet_extract_one_def trade_from_def split: if_splits)

interpretation comet_ext: row_extractor comet_extract Comet is_pool_swap comet_extract_one
  by unfold_locales
    (simp_all add: comet_extract_def comet_from collect_if_filter [of is_pool_swap])


section \<open>Phoenix\<close>

definition phoenix_xyk_event_count :: nat where
  "phoenix_xyk_event_count = 8"

definition phoenix_xyk_min_event_count :: nat where
  "phoenix_xyk_min_event_count = 4"

definition phoenix_stable_event_count :: nat where
  "phoenix_stable_event_count = 6"

definition pool_type_xyk :: u32 where
  "pool_type_xyk = 0"

text \<open>The local variables the loop over the group assigns.\<close>

record phoenix_fields =
  ph_sender :: "string option"
  ph_sell_token :: "string option"
  ph_offer_amount :: "i128 option"
  ph_buy_token :: "string option"
  ph_return_amount :: "i128 option"

definition phoenix_assign :: "string \<Rightarrow> tagged \<Rightarrow> phoenix_fields \<Rightarrow> phoenix_fields" where
  "phoenix_assign field_name data st =
     (if field_name = ''sender'' then st\<lparr>ph_sender := as_address data\<rparr>
      else if field_name = ''sell_token'' then st\<lparr>ph_sell_token := as_address data\<rparr>
      else if field_name = ''offer_amount'' then st\<lparr>ph_offer_amount := as_i128 data\<rparr>
      else if field_name = ''buy_token'' then st\<lparr>ph_buy_token := as_address data\<rparr>
      else if field_name = ''return_amount'' then st\<lparr>ph_return_amount := as_i128 data\<rparr>
      else st)"

fun phoenix_scan :: "event_row list \<Rightarrow> phoenix_fields \<Rightarrow> (extract_error, phoenix_fields) result" where
  "phoenix_scan [] st = Inr st"
| "phoenix_scan (row # rows) st =
     rbind (ok_or (UnexpectedTopicShape (ev_event_index row)) (topic_as_str row 0)) (\<lambda>topic0.
     if topic0 \<noteq> ''swap'' then Inl (UnexpectedTopicShape (ev_event_index row)) else
     rbind (ok_or (UnexpectedTopicShape (ev_event_index row)) (topic_as_str row 1)) (\<lambda>field_name.
     phoenix_scan rows (phoenix_assign field_name (ev_data row) st)))"

definition phoenix_no_fields :: phoenix_fields where
  "phoenix_no_fields = \<lparr>ph_sender = None, ph_sell_token = None, ph_offer_amount = None,
     ph_buy_token = None, ph_return_amount = None\<rparr>"

definition phoenix_trade :: "event_row \<Rightarrow> phoenix_fields \<Rightarrow> (extract_error, trade_row) result" where
  "phoenix_trade first st =
     rbind (ok_or (MissingField ''sell_token'') (ph_sell_token st)) (\<lambda>token_in.
     rbind (ok_or (MissingField ''buy_token'') (ph_buy_token st)) (\<lambda>token_out.
     rbind (ok_or (MissingField ''offer_amount'') (ph_offer_amount st)) (\<lambda>amount_in.
     rbind (ok_or (MissingField ''return_amount'') (ph_return_amount st)) (\<lambda>amount_out.
     Inr \<lparr>tr_venue = Phoenix,
          tr_contract_id = ev_contract_id first,
          tr_transaction_id = ev_transaction_id first,
          tr_ledger_sequence = ev_ledger_sequence first,
          tr_first_event_index = ev_event_index first,
          tr_token_in = token_in,
          tr_token_out = token_out,
          tr_amount_in = amount_in,
          tr_amount_out = amount_out,
          tr_fee = None,
          tr_trader = ph_sender st\<rparr>))))"

definition phoenix_extract :: "event_row list \<Rightarrow> (extract_error, extract_result) result" where
  "phoenix_extract rows =
     (if length rows < phoenix_xyk_min_event_count
      then Inl (InsufficientRows phoenix_xyk_min_event_count (length rows))
      else let group = take (min (length rows) phoenix_xyk_event_count) rows in
        rbind (phoenix_scan group phoenix_no_fields) (\<lambda>st.
        rbind (phoenix_trade (hd group) st) (\<lambda>t.
        Inr \<lparr>res_trades = [t], res_rows_consumed = length group\<rparr>)))"

lemma phoenix_trade_from: "phoenix_trade first st = Inr t \<Longrightarrow> trade_from Phoenix first t"
  by (auto simp: phoenix_trade_def trade_from_def)

interpretation phoenix_ext: swap_extractor phoenix_extract Phoenix phoenix_xyk_min_event_count
proof unfold_locales
  fix rows r t
  assume r: "phoenix_extract rows = Inr r" and t: "t \<in> set (res_trades r)"
  then have ne: "rows \<noteq> []"
    by (auto simp: phoenix_extract_def phoenix_xyk_min_event_count_def)
  then have "hd (take (min (length rows) phoenix_xyk_event_count) rows) \<in> set rows"
    by (cases rows) (auto simp: phoenix_xyk_event_count_def min_def numeral_eq_Suc)
  with r t show "\<exists>row \<in> set rows. trade_from Phoenix row t"
    by (auto simp: phoenix_extract_def Let_def dest!: phoenix_trade_from split: if_splits)
qed (auto simp: phoenix_extract_def Let_def phoenix_xyk_min_event_count_def
      phoenix_xyk_event_count_def split: if_splits)

text \<open>
  What the scan means: the last row under a name decides that field. A group is a map from field names to
  data, and the group's order matters only where a name repeats.
\<close>

definition phoenix_fields_of :: "(string \<rightharpoonup> tagged) \<Rightarrow> phoenix_fields" where
  "phoenix_fields_of m =
     \<lparr>ph_sender = Option.bind (m ''sender'') as_address,
      ph_sell_token = Option.bind (m ''sell_token'') as_address,
      ph_offer_amount = Option.bind (m ''offer_amount'') as_i128,
      ph_buy_token = Option.bind (m ''buy_token'') as_address,
      ph_return_amount = Option.bind (m ''return_amount'') as_i128\<rparr>"

definition phoenix_entries :: "event_row list \<Rightarrow> (string \<times> tagged) list" where
  "phoenix_entries rows =
     map (\<lambda>row. (case topic_as_str row 1 of None \<Rightarrow> [] | Some n \<Rightarrow> n, ev_data row)) rows"

definition phoenix_swap_row :: "event_row \<Rightarrow> bool" where
  "phoenix_swap_row row \<longleftrightarrow> topic_as_str row 0 = Some ''swap'' \<and> topic_as_str row 1 \<noteq> None"

lemma phoenix_assign_fields_of:
  "phoenix_assign n d (phoenix_fields_of m) = phoenix_fields_of (m(n \<mapsto> d))"
  by (simp add: phoenix_assign_def phoenix_fields_of_def)

lemma phoenix_scan_fields_of:
  assumes "\<forall>row \<in> set rows. phoenix_swap_row row"
  shows "phoenix_scan rows (phoenix_fields_of m) =
    Inr (phoenix_fields_of (m ++ map_of (rev (phoenix_entries rows))))"
  using assms
proof (induction rows arbitrary: m)
  case Nil
  then show ?case by (simp add: phoenix_entries_def)
next
  case (Cons row rows)
  then obtain n where n: "topic_as_str row 0 = Some ''swap''" "topic_as_str row 1 = Some n"
    by (auto simp: phoenix_swap_row_def)
  have "phoenix_scan (row # rows) (phoenix_fields_of m) =
      phoenix_scan rows (phoenix_fields_of (m(n \<mapsto> ev_data row)))"
    using n by (simp add: phoenix_assign_fields_of)
  also have "\<dots> = Inr (phoenix_fields_of (m(n \<mapsto> ev_data row) ++ map_of (rev (phoenix_entries rows))))"
    using Cons by simp
  also have "m(n \<mapsto> ev_data row) ++ map_of (rev (phoenix_entries rows)) =
      m ++ map_of (rev (phoenix_entries (row # rows)))"
    using n by (simp add: phoenix_entries_def)
  finally show ?case .
qed

lemma phoenix_no_fields_of: "phoenix_no_fields = phoenix_fields_of Map.empty"
  by (simp add: phoenix_no_fields_def phoenix_fields_of_def)

lemma phoenix_extract_map:
  assumes "phoenix_xyk_min_event_count \<le> length rows" "length rows \<le> phoenix_xyk_event_count"
    and "\<forall>row \<in> set rows. phoenix_swap_row row"
  shows "phoenix_extract rows =
    rbind (phoenix_trade (hd rows) (phoenix_fields_of (map_of (rev (phoenix_entries rows)))))
      (\<lambda>t. Inr \<lparr>res_trades = [t], res_rows_consumed = length rows\<rparr>)"
  using assms
  by (simp add: phoenix_extract_def Let_def phoenix_no_fields_of phoenix_scan_fields_of)

text \<open>\<open>PhoenixPoolRegistry\<close>.\<close>

record phoenix_pool =
  pp_contract_id :: string
  pp_pool_type :: u32
  pp_wasm_hash :: "u8 list option"

type_synonym phoenix_registry = "(string, phoenix_pool) hmap"

definition phoenix_register :: "string \<Rightarrow> u32 \<Rightarrow> phoenix_registry \<Rightarrow> phoenix_registry" where
  "phoenix_register c pool_type reg =
     AList.update c \<lparr>pp_contract_id = c, pp_pool_type = pool_type, pp_wasm_hash = None\<rparr> reg"

definition phoenix_register_with_wasm ::
  "string \<Rightarrow> u32 \<Rightarrow> u8 list \<Rightarrow> phoenix_registry \<Rightarrow> phoenix_registry" where
  "phoenix_register_with_wasm c pool_type wasm_hash reg =
     AList.update c \<lparr>pp_contract_id = c, pp_pool_type = pool_type, pp_wasm_hash = Some wasm_hash\<rparr> reg"

definition phoenix_lookup :: "phoenix_registry \<Rightarrow> string \<Rightarrow> phoenix_pool option" where
  "phoenix_lookup reg c = map_of reg c"


section \<open>Properties of the decoders\<close>

lemma phoenix_entries_perm:
  assumes "mset rows' = mset rows" and "distinct (map fst (phoenix_entries rows))"
  shows "map_of (rev (phoenix_entries rows')) = map_of (phoenix_entries rows)"
proof -
  have m: "mset (phoenix_entries rows') = mset (phoenix_entries rows)"
    using assms(1) by (simp add: phoenix_entries_def)
  then have "mset (map fst (rev (phoenix_entries rows'))) = mset (map fst (phoenix_entries rows))"
    by simp
  then have "distinct (map fst (rev (phoenix_entries rows')))"
    using assms(2) by (metis mset_eq_imp_distinct_iff)
  moreover have "set (rev (phoenix_entries rows')) = set (phoenix_entries rows)"
    using m by (metis set_rev mset_eq_setD)
  ultimately show ?thesis
    using assms(2) by (simp add: map_of_inject_set)
qed

text \<open>
  The Phoenix extractor treats a swap group of four to eight events as a map from field name to value: with
  distinct field names the result does not depend on the order of the events and is the trade built from the
  map.
\<close>

lemma phoenix_group_is_a_map:
  assumes "4 \<le> length rows" and "length rows \<le> 8"
    and "\<forall>row \<in> set rows. phoenix_swap_row row"
    and "distinct (map fst (phoenix_entries rows))"
    and "mset rows' = mset rows" and "hd rows' = hd rows"
  shows "phoenix_extract rows' =
    rbind (phoenix_trade (hd rows) (phoenix_fields_of (map_of (phoenix_entries rows))))
      (\<lambda>t. Inr \<lparr>res_trades = [t], res_rows_consumed = length rows\<rparr>)"
proof -
  have "set rows' = set rows" "length rows' = length rows"
    using assms(5) by (metis mset_eq_setD, metis mset_eq_length)
  then show ?thesis
    using assms phoenix_extract_map [of rows'] phoenix_entries_perm [OF assms(5,4)]
    by (simp add: phoenix_xyk_min_event_count_def phoenix_xyk_event_count_def)
qed

text \<open>A four-row group, as Phoenix emits it and with its last two rows swapped.\<close>

definition sample_row :: "string \<Rightarrow> tagged list \<Rightarrow> tagged \<Rightarrow> event_row" where
  "sample_row c ts d = \<lparr>ev_contract_id = c, ev_transaction_id = ''tx'', ev_ledger_sequence = 100,
     ev_event_index = 5, ev_topics = ts, ev_data = d\<rparr>"

definition sample_phoenix_rows :: "event_row list" where
  "sample_phoenix_rows =
     [sample_row ''P'' [TString ''swap'', TString ''sell_token''] (TAddress ''A''),
      sample_row ''P'' [TString ''swap'', TString ''offer_amount''] (TI128 700),
      sample_row ''P'' [TString ''swap'', TString ''buy_token''] (TAddress ''B''),
      sample_row ''P'' [TString ''swap'', TString ''return_amount''] (TI128 300)]"

lemmas sample_simps =
  sample_row_def sample_phoenix_rows_def topic_as_str_def topic_as_address_def

lemma clmm_direction:
  assumes "map_get m ''amount_0_in'' = None" and "map_get m ''amount_1_in'' = None"
    and "map_get m ''amount0'' = Some (TI128 a0)" and "map_get m ''amount1'' = Some (TI128 a1)"
    and "sint a0 > 0 \<and> sint a1 < 0 \<or> sint a0 < 0 \<and> sint a1 > 0"
    and "sint a0 \<noteq> - (2 ^ 127)" and "sint a1 \<noteq> - (2 ^ 127)"
  shows "\<exists>token_in token_out amount_in amount_out.
    swap_legs p m = Inr (token_in, token_out, amount_in, amount_out) \<and>
    sint amount_in = max (sint a0) (sint a1) \<and> sint amount_out = - min (sint a0) (sint a1) \<and>
    0 < sint amount_in \<and> 0 < sint amount_out \<and>
    (if sint a0 > 0 then token_in = token0 p \<and> token_out = token1 p
     else token_in = token1 p \<and> token_out = token0 p)"
  using assms sint_signed_abs [of a0] sint_signed_abs [of a1]
  by (auto simp: swap_legs_def clmm_legs_def max_def min_def)

definition sample_clmm :: "(tagged \<times> tagged) list" where
  "sample_clmm = [(TSymbol ''amount0'', TI128 (- 250)), (TSymbol ''amount1'', TI128 1000)]"

text \<open>
  The Comet extractor returns one trade per swap row, each with positive amounts, in order, or fails with
  the error of a swap row (or of an empty group); it never returns part of a group.
\<close>

lemma comet_all_or_nothing:
  "(case comet_extract rows of
      Inr r \<Rightarrow> rows \<noteq> [] \<and> res_rows_consumed r = length rows \<and>
        list_all2 (\<lambda>row t. comet_extract_one row = Inr t \<and> 0 < sint (tr_amount_in t) \<and>
            0 < sint (tr_amount_out t)) (filter is_pool_swap rows) (res_trades r)
    | Inl e \<Rightarrow> rows = [] \<and> e = InsufficientRows 1 0 \<or>
        (\<exists>row \<in> set rows. is_pool_swap row \<and> comet_extract_one row = Inl e))"
proof (cases "comet_extract rows")
  case (Inl e)
  then show ?thesis
    by (cases "rows = []")
      (auto simp: comet_ext.extract_rows rbind_eq_Inl dest!: collect_if_Inl)
next
  case (Inr r)
  have pos: "comet_extract_one row = Inr t \<Longrightarrow> 0 < sint (tr_amount_in t) \<and> 0 < sint (tr_amount_out t)" for row t
    by (cases "ev_data row") (auto simp: comet_extract_one_def comet_amount_def split: if_splits)
  have "collect_if (\<lambda>_. True) f xs = Inr ys \<Longrightarrow> list_all2 (\<lambda>x y. f x = Inr y) xs ys"
    for f :: "event_row \<Rightarrow> (extract_error, trade_row) result" and xs ys
    by (induction xs arbitrary: ys) auto
  then have "list_all2 (\<lambda>row t. comet_extract_one row = Inr t) (filter is_pool_swap rows) (res_trades r)"
    using comet_ext.extract_InrD [OF Inr] collect_if_filter [of is_pool_swap] by metis
  then show ?thesis
    using Inr comet_ext.extract_InrD [OF Inr] pos by (auto elim: list_all2_mono)
qed

end
