(* ===== verification/Event_Json.thy ===== *)
theory Event_Json
  imports Extractors
begin

text \<open>
  The typed-JSON values that Soroban events arrive as, and their conversion to the extractors' tagged values
  (\<open>json_to_tagged\<close>, \<open>json_int\<close>, \<open>topic_symbol\<close> and \<open>topics_to_tagged\<close> of \<open>prices-ingest-core/src/soroban.rs\<close>).
  A value is \<open>serde_json::Value\<close>: an object is a list of members whose first match is the looked-up one, an
  integer keeps its value, and a number with a fraction or exponent, which no accessor used here reads, has no payload.
\<close>

datatype json =
  JNull
| JBool bool
| JInt int
| JFloat
| JString string
| JArray "json list"
| JObject "(string \<times> json) list"

fun as_object :: "json \<Rightarrow> (string \<times> json) list option" where
  "as_object (JObject m) = Some m"
| "as_object _ = None"

fun as_array :: "json \<Rightarrow> json list option" where
  "as_array (JArray xs) = Some xs"
| "as_array _ = None"

fun json_str :: "json \<Rightarrow> string option" where
  "json_str (JString s) = Some s"
| "json_str _ = None"

fun as_u64 :: "json \<Rightarrow> u64 option" where
  "as_u64 (JInt n) = (if 0 \<le> n \<and> n < 2 ^ 64 then Some (of_int n) else None)"
| "as_u64 _ = None"

lemma json_accessors [simp]:
  "as_object v = Some m \<longleftrightarrow> v = JObject m"
  "as_array v = Some xs \<longleftrightarrow> v = JArray xs"
  "json_str v = Some t \<longleftrightarrow> v = JString t"
  by (cases v; simp)+

definition str_or_empty :: "json option \<Rightarrow> string" where
  "str_or_empty v = (case Option.bind v json_str of Some s \<Rightarrow> s | None \<Rightarrow> [])"

section \<open>Integers\<close>

text \<open>\<open>str::parse::<i128>\<close>: an optional sign, at least one decimal digit, nothing else, and no overflow.\<close>

definition digit_val :: "char \<Rightarrow> int option" where
  "digit_val c = (if 48 \<le> (of_char c :: int) \<and> (of_char c :: int) \<le> 57 then Some (of_char c - 48) else None)"

fun parse_digits :: "string \<Rightarrow> int \<Rightarrow> int option" where
  "parse_digits [] acc = Some acc"
| "parse_digits (c # cs) acc = Option.bind (digit_val c) (\<lambda>d. parse_digits cs (acc * 10 + d))"

definition parse_unsigned :: "string \<Rightarrow> int option" where
  "parse_unsigned s = (if s = [] then None else parse_digits s 0)"

definition parse_i128 :: "string \<Rightarrow> i128 option" where
  "parse_i128 s =
     (let n = (case s of
          CHR ''-'' # ds \<Rightarrow> map_option uminus (parse_unsigned ds)
        | CHR ''+'' # ds \<Rightarrow> parse_unsigned ds
        | _ \<Rightarrow> parse_unsigned s)
      in case n of
           Some k \<Rightarrow> if - (2 ^ 127) \<le> k \<and> k < 2 ^ 127 then Some (of_int k) else None
         | None \<Rightarrow> None)"

definition json_int :: "json option \<Rightarrow> i128" where
  "json_int val =
     (case val of
        Some (JString s) \<Rightarrow> (case parse_i128 s of Some k \<Rightarrow> k | None \<Rightarrow> 0)
      | Some (JInt n) \<Rightarrow> if - (2 ^ 63) \<le> n \<and> n < 2 ^ 63 then of_int n else 0
      | _ \<Rightarrow> 0)"

section \<open>Tagged values\<close>

definition json_items :: "json option \<Rightarrow> json list" where
  "json_items val = (case Option.bind val as_array of Some xs \<Rightarrow> xs | None \<Rightarrow> [])"

text \<open>The entries of a map value that have both a key and a value.\<close>

definition json_entries :: "json option \<Rightarrow> (json \<times> json) list" where
  "json_entries val = List.map_filter (\<lambda>e. Option.bind (as_object e) (\<lambda>obj.
     Option.bind (map_of obj ''key'') (\<lambda>k. Option.bind (map_of obj ''value'') (\<lambda>v. Some (k, v))))) (json_items val)"

lemma json_items_smaller:
  assumes "x \<in> set (json_items (map_of obj key))"
  shows "size x < size (JObject obj)"
proof -
  obtain xs where xs: "map_of obj key = Some (JArray xs)" "x \<in> set xs"
    using assms by (cases "Option.bind (map_of obj key) as_array") (auto simp: json_items_def bind_eq_Some_conv)
  then have "(key, JArray xs) \<in> set obj"
    by (meson map_of_SomeD)
  then have "size (JArray xs) < size (JObject obj)"
    by (induction obj) auto
  moreover have "size x < size (JArray xs)"
    using xs(2) by (induction xs) auto
  ultimately show ?thesis by simp
qed

lemma json_entries_smaller:
  assumes "(k, v) \<in> set (json_entries (map_of obj key))"
  shows "size k < size (JObject obj)" and "size v < size (JObject obj)"
proof -
  obtain e m where e: "e \<in> set (json_items (map_of obj key))" "e = JObject m"
    and kv: "map_of m ''key'' = Some k" "map_of m ''value'' = Some v"
    using assms by (auto simp: json_entries_def map_filter_def bind_eq_Some_conv)
  have "size x < size (JObject m)" if "map_of m y = Some x" for x y
    using map_of_SomeD [OF that] by (induction m) auto
  with kv e json_items_smaller [OF e(1)] show "size k < size (JObject obj)" "size v < size (JObject obj)"
    by fastforce+
qed

function json_to_tagged :: "json \<Rightarrow> tagged" where
  "json_to_tagged (JObject obj) =
     (let ty = str_or_empty (map_of obj ''type''); val = map_of obj ''value'' in
      if ty = ''sym'' then TSymbol (str_or_empty val)
      else if ty = ''string'' \<or> ty = ''str'' then TString (str_or_empty val)
      else if ty = ''address'' then TAddress (str_or_empty val)
      else if ty \<in> {''i128'', ''u128'', ''i64'', ''u64'', ''i32'', ''u32'', ''i256'', ''u256''} then TI128 (json_int val)
      else if ty = ''map'' then TMap (map (\<lambda>(k, v). (json_to_tagged k, json_to_tagged v)) (json_entries (map_of obj ''value'')))
      else if ty = ''vec'' then TVec (map json_to_tagged (json_items (map_of obj ''value'')))
      else TNull)"
| "json_to_tagged JNull = TNull"
| "json_to_tagged (JBool b) = TNull"
| "json_to_tagged (JInt n) = TNull"
| "json_to_tagged JFloat = TNull"
| "json_to_tagged (JString s) = TNull"
| "json_to_tagged (JArray xs) = TNull"
  by pat_completeness auto
termination
  by (relation "measure size") (auto dest: json_entries_smaller json_items_smaller)

definition topics_to_tagged :: "json \<Rightarrow> tagged list" where
  "topics_to_tagged topics = (case as_array topics of Some xs \<Rightarrow> map json_to_tagged xs | None \<Rightarrow> [])"

definition topic_symbol :: "json \<Rightarrow> nat \<Rightarrow> string option" where
  "topic_symbol topics idx =
     Option.bind (as_array topics) (\<lambda>xs. Option.bind (get_at xs idx) (\<lambda>t.
       Option.bind (as_object t) (\<lambda>obj. Option.bind (map_of obj ''value'') json_str)))"

definition signature :: "json \<Rightarrow> string option" where
  "signature topics = topic_symbol topics 0"

end
