(* ===== verification/Dispatch.thy ===== *)
theory Dispatch
  imports Extractors
begin

text \<open>
  Routing of one (transaction, contract) group of event rows to its venue's decoder:
  \<open>packages/ledger-processor/src/dispatch.rs\<close>. The locale \<open>keyed_store\<close> is what this code asks of each of
  the three pool registries; it is interpreted on the venue map, on the pair registry and on the Phoenix
  registry.
\<close>

section \<open>Pool registries as keyed stores\<close>

locale keyed_store =
  fixes put :: "'k \<Rightarrow> 'p \<Rightarrow> 'r \<Rightarrow> 'r"
    and get :: "'r \<Rightarrow> 'k \<Rightarrow> 'p option"
  assumes get_put: "get (put k p r) k' = (if k' = k then Some p else get r k')"
begin

lemma get_put_same [simp]: "get (put k p r) k = Some p"
  by (simp add: get_put)

lemma get_put_other [simp]: "k' \<noteq> k \<Longrightarrow> get (put k p r) k' = get r k'"
  by (simp add: get_put)

text \<open>Loading a list of entries: the last entry of a key wins, other keys keep what they had.\<close>

lemma get_fold_put:
  "get (fold (\<lambda>(k, p). put k p) kps r) k = (case map_of (rev kps) k of Some p \<Rightarrow> Some p | None \<Rightarrow> get r k)"
proof (induction kps arbitrary: r)
  case (Cons kp kps)
  obtain k' p where "kp = (k', p)" by (cases kp)
  with Cons show ?case
    by (auto simp: get_put map_add_def split: option.splits)
qed simp

lemma fold_put_agree:
  assumes "map_of (rev kps) k = Some p"
  shows "get (fold (\<lambda>(k, p). put k p) kps r) k = get (fold (\<lambda>(k, p). put k p) kps r') k"
  using assms by (simp add: get_fold_put)

end

type_synonym venue_registry = "(string, venue) hmap"

interpretation venue_store: keyed_store AList.update "\<lambda>(m :: venue_registry) k. map_of m k"
  by unfold_locales simp

interpretation pair_store: keyed_store "\<lambda>k p. pair_register k (token0 p) (token1 p)" pair_lookup
  by unfold_locales (simp add: pair_register_def pair_lookup_def)

definition phoenix_put :: "string \<Rightarrow> u32 \<times> u8 list option \<Rightarrow> phoenix_registry \<Rightarrow> phoenix_registry" where
  "phoenix_put c p reg =
     (case snd p of None \<Rightarrow> phoenix_register c (fst p) reg
      | Some h \<Rightarrow> phoenix_register_with_wasm c (fst p) h reg)"

definition phoenix_get :: "phoenix_registry \<Rightarrow> string \<Rightarrow> (u32 \<times> u8 list option) option" where
  "phoenix_get reg c = map_option (\<lambda>p. (pp_pool_type p, pp_wasm_hash p)) (phoenix_lookup reg c)"

interpretation phoenix_store: keyed_store phoenix_put phoenix_get
  by unfold_locales
    (auto simp: phoenix_put_def phoenix_get_def phoenix_lookup_def phoenix_register_def
      phoenix_register_with_wasm_def split: option.splits)

section \<open>Routing\<close>

datatype dispatch_error =
    ExtractFailed extract_error
  | UnknownPool string
  | UnknownPhoenixShape string u32 nat
  | VenueNotImplemented venue string

text \<open>\<open>Ok(extractor.extract(rows)?.trades)\<close>.\<close>

definition trades_of ::
  "(extract_error, extract_result) result \<Rightarrow> (dispatch_error, trade_row list) result" where
  "trades_of r = (case r of Inl e \<Rightarrow> Inl (ExtractFailed e) | Inr res \<Rightarrow> Inr (res_trades res))"

definition dispatch_phoenix ::
  "event_row list \<Rightarrow> phoenix_registry \<Rightarrow> (dispatch_error, trade_row list) result" where
  "dispatch_phoenix rows registry =
     (if rows = [] then Inr []
      else let c = ev_contract_id (hd rows); n = length rows in
        case phoenix_lookup registry c of
          None \<Rightarrow> Inl (UnknownPool c)
        | Some pool \<Rightarrow>
            if pp_pool_type pool = pool_type_xyk \<and> n \<ge> phoenix_xyk_min_event_count
            then trades_of (phoenix_extract rows)
            else if pp_pool_type pool \<noteq> pool_type_xyk \<and> n \<ge> phoenix_stable_event_count
            then Inl (UnknownPhoenixShape c (pp_pool_type pool) n)
            else Inl (UnknownPhoenixShape c (pp_pool_type pool) n))"

record pair_registries =
  prs_soroswap :: pair_registry
  prs_sushiswap :: pair_registry

definition dispatch ::
  "event_row list \<Rightarrow> venue_registry \<Rightarrow> phoenix_registry \<Rightarrow> pair_registries \<Rightarrow>
   (dispatch_error, trade_row list) result" where
  "dispatch rows venues phoenix pairs =
     (if rows = [] then Inr []
      else let c = ev_contract_id (hd rows) in
        case map_of venues c of
          Some Phoenix \<Rightarrow> dispatch_phoenix rows phoenix
        | Some Soroswap \<Rightarrow>
            (case pair_lookup (prs_soroswap pairs) c of
               Some pair \<Rightarrow> trades_of (pair_extract Soroswap pair rows)
             | None \<Rightarrow> Inr [])
        | Some Sushiswap \<Rightarrow>
            (case pair_lookup (prs_sushiswap pairs) c of
               Some pair \<Rightarrow> trades_of (pair_extract Sushiswap pair rows)
             | None \<Rightarrow> Inr [])
        | Some Aquarius \<Rightarrow> trades_of (aquarius_extract rows)
        | Some Comet \<Rightarrow> trades_of (comet_extract rows)
        | None \<Rightarrow> Inr [])"

lemma trades_of_eq_Inr: "trades_of r = Inr ts \<longleftrightarrow> (\<exists>res. r = Inr res \<and> res_trades res = ts)"
  by (cases r) (auto simp: trades_of_def)

section \<open>What a dispatched trade says\<close>

definition one_group :: "event_row list \<Rightarrow> string \<Rightarrow> string \<Rightarrow> u64 \<Rightarrow> bool" where
  "one_group rows c tx l \<longleftrightarrow> (\<forall>row \<in> set rows.
     ev_contract_id row = c \<and> ev_transaction_id row = tx \<and> ev_ledger_sequence row = l)"

definition trade_in_group :: "venue \<Rightarrow> string \<Rightarrow> string \<Rightarrow> u64 \<Rightarrow> trade_row \<Rightarrow> bool" where
  "trade_in_group v c tx l t \<longleftrightarrow> tr_venue t = v \<and> tr_contract_id t = c \<and>
     tr_transaction_id t = tx \<and> tr_ledger_sequence t = l"

lemma group_hd: "one_group rows c tx l \<Longrightarrow> rows \<noteq> [] \<Longrightarrow> ev_contract_id (hd rows) = c"
  by (simp add: one_group_def)

lemma trades_of_in_group:
  assumes "swap_extractor ext v n" and "trades_of (ext rows) = Inr ts" and "one_group rows c tx l"
    and "t \<in> set ts"
  shows "trade_in_group v c tx l t"
proof -
  obtain res where "ext rows = Inr res" "res_trades res = ts"
    using assms(2) by (auto simp: trades_of_eq_Inr)
  with swap_extractor.group_provenance [OF assms(1), of rows res t c tx l] assms(3,4)
  show ?thesis
    by (auto simp: trade_in_group_def one_group_def)
qed

lemmas extractor_instances =
  pair_ext.swap_extractor_axioms aquarius_ext.swap_extractor_axioms
  comet_ext.swap_extractor_axioms phoenix_ext.swap_extractor_axioms

lemma dispatch_cases:
  assumes "dispatch rows venues phoenix pairs = Inr ts" and "t \<in> set ts"
  obtains v where "rows \<noteq> []" "map_of venues (ev_contract_id (hd rows)) = Some v"
    "\<exists>ext n. swap_extractor ext v n \<and> trades_of (ext rows) = Inr ts"
proof -
  have ne: "rows \<noteq> []"
    using assms by (auto simp: dispatch_def)
  show thesis
  proof (cases "map_of venues (ev_contract_id (hd rows))")
    case None
    then show ?thesis
      using assms ne by (simp add: dispatch_def)
  next
    case (Some v)
    have "\<exists>ext n. swap_extractor ext v n \<and> trades_of (ext rows) = Inr ts"
    proof (cases v)
      case Phoenix
      with assms ne Some have "trades_of (phoenix_extract rows) = Inr ts"
        by (auto simp: dispatch_def dispatch_phoenix_def Let_def split: option.splits if_splits)
      with Phoenix extractor_instances(4) show ?thesis by blast
    next
      case Aquarius
      with assms ne Some extractor_instances(2) show ?thesis
        by (auto simp: dispatch_def)
    next
      case Comet
      with assms ne Some extractor_instances(3) show ?thesis
        by (auto simp: dispatch_def)
    next
      case Soroswap
      with assms ne Some extractor_instances(1) show ?thesis
        by (fastforce simp: dispatch_def split: option.splits)
    next
      case Sushiswap
      with assms ne Some extractor_instances(1) show ?thesis
        by (fastforce simp: dispatch_def split: option.splits)
    qed
    with ne Some that show ?thesis by blast
  qed
qed

lemma dispatch_in_group:
  assumes "dispatch rows venues phoenix pairs = Inr ts" and "one_group rows c tx l" and "t \<in> set ts"
  shows "\<exists>v. map_of venues c = Some v \<and> trade_in_group v c tx l t"
  using assms(1,3) assms(2)
proof (cases rule: dispatch_cases)
  case (1 v)
  with trades_of_in_group assms(2,3) group_hd show ?thesis by metis
qed

text \<open>A pair-backed trade carries the two tokens its own venue's registry holds for the pool.\<close>

definition trade_tokens :: "token_pair \<Rightarrow> trade_row \<Rightarrow> bool" where
  "trade_tokens p t \<longleftrightarrow>
     (tr_token_in t = token0 p \<and> tr_token_out t = token1 p) \<or>
     (tr_token_in t = token1 p \<and> tr_token_out t = token0 p)"

lemma swap_legs_tokens:
  "swap_legs p m = Inr (ti, to, ai, ao) \<Longrightarrow>
     (ti = token0 p \<and> to = token1 p) \<or> (ti = token1 p \<and> to = token0 p)"
  by (auto simp: swap_legs_def v2_legs_def clmm_legs_def Let_def split: if_splits)

lemma pair_decode_tokens: "pair_decode_swap v p row = Inr t \<Longrightarrow> trade_tokens p t"
  by (cases "ev_data row")
    (auto simp: pair_decode_swap_def trade_tokens_def dest!: swap_legs_tokens split: if_splits)

lemma pair_extract_tokens:
  assumes "trades_of (pair_extract v p rows) = Inr ts" and "t \<in> set ts"
  shows "trade_tokens p t"
proof -
  obtain res where "pair_extract v p rows = Inr res" "res_trades res = ts"
    using assms(1) by (auto simp: trades_of_eq_Inr)
  with assms(2) have "t \<in> set (res_trades res)"
    "collect_if (\<lambda>row. swap_action row = Some ''swap'') (pair_decode_swap v p) rows = Inr (res_trades res)"
    using pair_ext.extract_InrD by auto
  then show ?thesis
    using collect_if_mem pair_decode_tokens by metis
qed

text \<open>The pair a pair-backed venue resolves a contract with.\<close>

fun pair_of :: "venue \<Rightarrow> pair_registries \<Rightarrow> string \<Rightarrow> token_pair option" where
  "pair_of Soroswap pairs c = pair_lookup (prs_soroswap pairs) c"
| "pair_of Sushiswap pairs c = pair_lookup (prs_sushiswap pairs) c"
| "pair_of _ pairs c = None"

definition pair_backed :: "venue \<Rightarrow> bool" where
  "pair_backed v \<longleftrightarrow> v = Soroswap \<or> v = Sushiswap"

lemma dispatch_pair_backed:
  assumes "rows \<noteq> []" and "map_of venues (ev_contract_id (hd rows)) = Some v" and "pair_backed v"
  shows "dispatch rows venues phoenix pairs =
    (case pair_of v pairs (ev_contract_id (hd rows)) of
       Some p \<Rightarrow> trades_of (pair_extract v p rows) | None \<Rightarrow> Inr [])"
  using assms by (auto simp: dispatch_def pair_backed_def)

section \<open>Properties\<close>

text \<open>
  C38: Every trade dispatch returns for a (transaction, contract) group belongs to the contract's registered
  venue and to that contract, transaction and ledger, and on a pair-backed venue its tokens are the two tokens
  of that venue's own registry.
\<close>

theorem dispatch_attribution:
  assumes "dispatch rows venues phoenix pairs = Inr ts" and "one_group rows c tx l" and "t \<in> set ts"
  shows "\<exists>v. map_of venues c = Some v \<and> trade_in_group v c tx l t \<and>
    (pair_backed v \<longrightarrow> (\<exists>p. pair_of v pairs c = Some p \<and> trade_tokens p t))"
proof -
  obtain v where v: "map_of venues c = Some v" "trade_in_group v c tx l t"
    using dispatch_in_group [OF assms] by blast
  have ne: "rows \<noteq> []"
    using assms by (auto simp: dispatch_def)
  then have hd: "ev_contract_id (hd rows) = c"
    using assms(2) by (simp add: group_hd)
  have "\<exists>p. pair_of v pairs c = Some p \<and> trade_tokens p t" if "pair_backed v"
  proof -
    have "dispatch rows venues phoenix pairs =
        (case pair_of v pairs c of Some p \<Rightarrow> trades_of (pair_extract v p rows) | None \<Rightarrow> Inr [])"
      using dispatch_pair_backed [OF ne _ that] v(1) hd by simp
    with assms(1,3) show ?thesis
      by (cases "pair_of v pairs c") (auto intro: pair_extract_tokens)
  qed
  with v show ?thesis by blast
qed

definition sample_swap_rows :: "event_row list" where
  "sample_swap_rows = [sample_row ''P'' [TSymbol ''swap''] (TMap sample_clmm)]"

definition sample_pairs :: pair_registries where
  "sample_pairs = \<lparr>prs_soroswap = [(''P'', \<lparr>token0 = ''X'', token1 = ''Y''\<rparr>)],
     prs_sushiswap = [(''P'', \<lparr>token0 = ''A'', token1 = ''B''\<rparr>)]\<rparr>"

lemma sample_dispatch:
  "\<exists>t. dispatch sample_swap_rows [(''P'', Sushiswap)] [] sample_pairs = Inr [t]"
  by (auto simp: sample_swap_rows_def sample_pairs_def sample_row_def dispatch_def trades_of_def
      pair_extract_def pair_decode_swap_def swap_action_def topic_as_str_def swap_legs_def clmm_legs_def
      sample_clmm_def map_get_def pair_lookup_def)

theorem dispatch_attribution_witness:
  "\<exists>t. dispatch sample_swap_rows [(''P'', Sushiswap)] [] sample_pairs = Inr [t] \<and>
     tr_venue t = Sushiswap \<and> trade_tokens \<lparr>token0 = ''A'', token1 = ''B''\<rparr> t"
proof -
  obtain t where t: "dispatch sample_swap_rows [(''P'', Sushiswap)] [] sample_pairs = Inr [t]"
    using sample_dispatch by blast
  have g: "one_group sample_swap_rows ''P'' ''tx'' 100"
    by (simp add: one_group_def sample_swap_rows_def sample_row_def)
  show ?thesis
    using dispatch_attribution [OF t g, of t] t
    by (auto simp: trade_in_group_def pair_backed_def sample_pairs_def pair_lookup_def)
qed

end
