(* ===== verification/Registry_IO.thy ===== *)
theory Registry_IO
  imports Dispatch
begin

text \<open>
  The run's registries (\<open>Registries\<close> of \<open>packages/prices-ingest-core/src/soroban.rs\<close>), the committed
  factory-less pools (\<open>static_pools.rs\<close>) and the durable form of the registries, \<open>prices.pool_registry\<close>
  rows (\<open>registry_io.rs\<close>). The \<open>hex\<close> crate is a parameter: \<open>enc\<close> is \<open>hex::encode\<close>, \<open>dec\<close> is
  \<open>hex::decode(s).ok()\<close>.
\<close>

section \<open>Registries\<close>

record registries =
  reg_venue :: venue_registry
  reg_phoenix :: phoenix_registry
  reg_soroswap :: pair_registry
  reg_sushiswap :: pair_registry

definition registries_new :: registries where
  "registries_new = \<lparr>reg_venue = [], reg_phoenix = [], reg_soroswap = [], reg_sushiswap = []\<rparr>"

definition pool_count :: "registries \<Rightarrow> nat" where
  "pool_count reg = length (reg_soroswap reg) + length (reg_phoenix reg) + length (reg_sushiswap reg)"

definition registries_pairs :: "registries \<Rightarrow> pair_registries" where
  "registries_pairs reg = \<lparr>prs_soroswap = reg_soroswap reg, prs_sushiswap = reg_sushiswap reg\<rparr>"

definition static_pools :: "(string \<times> venue) list" where
  "static_pools = [(''CAS3FL6TLZKDGGSISDBWGGPXT3NRR4DYTZD7YOD3HMYO6LTJUVGRVEAM'', Comet)]"

definition merge_static_pools :: "registries \<Rightarrow> registries" where
  "merge_static_pools reg =
     reg\<lparr>reg_venue := fold (\<lambda>(c, v). AList.update c v) static_pools (reg_venue reg)\<rparr>"

section \<open>Durable rows\<close>

record pool_row =
  pr_contract_id :: string
  pr_venue :: string
  pr_token0 :: string
  pr_token1 :: string
  pr_pool_type :: u32
  pr_wasm_hash :: string

definition blank_row :: "string \<Rightarrow> venue \<Rightarrow> pool_row" where
  "blank_row c v = \<lparr>pr_contract_id = c, pr_venue = as_source v, pr_token0 = [], pr_token1 = [],
     pr_pool_type = 0, pr_wasm_hash = []\<rparr>"

definition with_pair :: "token_pair option \<Rightarrow> pool_row \<Rightarrow> pool_row" where
  "with_pair p row =
     (case p of None \<Rightarrow> row | Some p \<Rightarrow> row\<lparr>pr_token0 := token0 p, pr_token1 := token1 p\<rparr>)"

definition with_phoenix :: "(u8 list \<Rightarrow> string) \<Rightarrow> phoenix_pool option \<Rightarrow> pool_row \<Rightarrow> pool_row" where
  "with_phoenix enc p row =
     (case p of None \<Rightarrow> row
      | Some p \<Rightarrow>
          (case pp_wasm_hash p of
             None \<Rightarrow> row\<lparr>pr_pool_type := pp_pool_type p\<rparr>
           | Some h \<Rightarrow> row\<lparr>pr_pool_type := pp_pool_type p, pr_wasm_hash := enc h\<rparr>))"

definition pool_row_of :: "(u8 list \<Rightarrow> string) \<Rightarrow> registries \<Rightarrow> string \<times> venue \<Rightarrow> pool_row" where
  "pool_row_of enc reg = (\<lambda>(c, v).
     case v of
       Soroswap \<Rightarrow> with_pair (pair_lookup (reg_soroswap reg) c) (blank_row c v)
     | Phoenix \<Rightarrow> with_phoenix enc (phoenix_lookup (reg_phoenix reg) c) (blank_row c v)
     | Sushiswap \<Rightarrow> with_pair (pair_lookup (reg_sushiswap reg) c) (blank_row c v)
     | Aquarius \<Rightarrow> blank_row c v
     | Comet \<Rightarrow> blank_row c v)"

definition to_pool_rows :: "(u8 list \<Rightarrow> string) \<Rightarrow> registries \<Rightarrow> pool_row list" where
  "to_pool_rows enc reg = sort_key pr_contract_id (map (pool_row_of enc reg) (reg_venue reg))"

definition pool_rows_unpersisted ::
  "(u8 list \<Rightarrow> string) \<Rightarrow> registries \<Rightarrow> (string, pool_row) hmap \<Rightarrow> pool_row list" where
  "pool_rows_unpersisted enc reg persisted =
     filter (\<lambda>row. map_of persisted (pr_contract_id row) \<noteq> Some row) (to_pool_rows enc reg)"

definition hex_decode32 :: "(string \<Rightarrow> u8 list option) \<Rightarrow> string \<Rightarrow> u8 list option" where
  "hex_decode32 dec s =
     Option.bind (dec s) (\<lambda>bs. if length bs = 32 then Some bs else None)"

definition load_pool_row ::
  "(string \<Rightarrow> u8 list option) \<Rightarrow> pool_row \<Rightarrow> registries \<Rightarrow> registries" where
  "load_pool_row dec row reg =
     (case from_source (pr_venue row) of
        None \<Rightarrow> reg
      | Some v \<Rightarrow>
          let c = pr_contract_id row;
              reg = reg\<lparr>reg_venue := AList.update c v (reg_venue reg)\<rparr>;
              pair_complete = (pr_token0 row \<noteq> [] \<and> pr_token1 row \<noteq> [])
          in case v of
               Soroswap \<Rightarrow>
                 if pair_complete
                 then reg\<lparr>reg_soroswap := pair_register c (pr_token0 row) (pr_token1 row) (reg_soroswap reg)\<rparr>
                 else reg
             | Sushiswap \<Rightarrow>
                 if pair_complete
                 then reg\<lparr>reg_sushiswap := pair_register c (pr_token0 row) (pr_token1 row) (reg_sushiswap reg)\<rparr>
                 else reg
             | Phoenix \<Rightarrow>
                 (case hex_decode32 dec (pr_wasm_hash row) of
                    Some hash \<Rightarrow>
                      reg\<lparr>reg_phoenix := phoenix_register_with_wasm c (pr_pool_type row) hash (reg_phoenix reg)\<rparr>
                  | None \<Rightarrow> reg\<lparr>reg_phoenix := phoenix_register c (pr_pool_type row) (reg_phoenix reg)\<rparr>)
             | Aquarius \<Rightarrow> reg
             | Comet \<Rightarrow> reg)"

definition load_pool_rows ::
  "(string \<Rightarrow> u8 list option) \<Rightarrow> pool_row list \<Rightarrow> registries \<Rightarrow> registries" where
  "load_pool_rows dec rows reg = fold (load_pool_row dec) rows reg"

section \<open>What routing reads of the registries\<close>

definition dispatch_with ::
  "registries \<Rightarrow> event_row list \<Rightarrow> (dispatch_error, trade_row list) result" where
  "dispatch_with reg rows = dispatch rows (reg_venue reg) (reg_phoenix reg) (registries_pairs reg)"

text \<open>The entry a contract has, as far as routing can see it.\<close>

datatype pool_info =
    PairInfo venue "token_pair option"
  | PhoenixInfo "(u32 \<times> u8 list option) option"
  | InlineInfo venue

definition info_of :: "registries \<Rightarrow> string \<Rightarrow> venue \<Rightarrow> pool_info" where
  "info_of reg c v =
     (case v of
        Soroswap \<Rightarrow> PairInfo v (pair_lookup (reg_soroswap reg) c)
      | Sushiswap \<Rightarrow> PairInfo v (pair_lookup (reg_sushiswap reg) c)
      | Phoenix \<Rightarrow> PhoenixInfo (phoenix_get (reg_phoenix reg) c)
      | Aquarius \<Rightarrow> InlineInfo v
      | Comet \<Rightarrow> InlineInfo v)"

definition pool_view :: "registries \<Rightarrow> string \<Rightarrow> pool_info option" where
  "pool_view reg c = map_option (info_of reg c) (map_of (reg_venue reg) c)"

lemma info_of_eqD: "info_of reg c v = info_of reg' c v' \<Longrightarrow> v = v'"
  by (cases v; cases v') (auto simp: info_of_def)

lemma phoenix_get_dispatch:
  assumes "phoenix_get r c = phoenix_get r' c" and "rows \<noteq> []" and "ev_contract_id (hd rows) = c"
  shows "dispatch_phoenix rows r = dispatch_phoenix rows r'"
  using assms
  by (cases "phoenix_lookup r c"; cases "phoenix_lookup r' c")
    (auto simp: dispatch_phoenix_def phoenix_get_def Let_def)

lemma dispatch_view:
  assumes "pool_view reg (ev_contract_id (hd rows)) = pool_view reg' (ev_contract_id (hd rows))"
  shows "dispatch_with reg rows = dispatch_with reg' rows"
proof (cases "rows = []")
  case True
  then show ?thesis by (simp add: dispatch_with_def dispatch_def)
next
  case False
  let ?c = "ev_contract_id (hd rows)"
  show ?thesis
  proof (cases "map_of (reg_venue reg) ?c")
    case None
    with assms False show ?thesis
      by (auto simp: dispatch_with_def dispatch_def pool_view_def)
  next
    case (Some v)
    with assms obtain v' where v': "map_of (reg_venue reg') ?c = Some v'" "info_of reg ?c v = info_of reg' ?c v'"
      by (cases "map_of (reg_venue reg') ?c") (auto simp: pool_view_def)
    then have "v' = v" by (auto dest: info_of_eqD)
    with Some v' False phoenix_get_dispatch [of "reg_phoenix reg" ?c "reg_phoenix reg'" rows] show ?thesis
      by (cases v) (auto simp: dispatch_with_def dispatch_def registries_pairs_def info_of_def)
  qed
qed

section \<open>Loading\<close>

text \<open>A row changes nothing at another contract.\<close>

lemma load_row_other:
  assumes "pr_contract_id row \<noteq> c"
  shows "map_of (reg_venue (load_pool_row dec row reg)) c = map_of (reg_venue reg) c"
    "pair_lookup (reg_soroswap (load_pool_row dec row reg)) c = pair_lookup (reg_soroswap reg) c"
    "pair_lookup (reg_sushiswap (load_pool_row dec row reg)) c = pair_lookup (reg_sushiswap reg) c"
    "phoenix_get (reg_phoenix (load_pool_row dec row reg)) c = phoenix_get (reg_phoenix reg) c"
  using assms
  by (auto simp: load_pool_row_def Let_def pair_register_def pair_lookup_def phoenix_get_def
      phoenix_lookup_def phoenix_register_def phoenix_register_with_wasm_def
      split: option.splits venue.splits)

lemma load_rows_other:
  assumes "c \<notin> pr_contract_id ` set rows"
  shows "map_of (reg_venue (load_pool_rows dec rows reg)) c = map_of (reg_venue reg) c"
    "pair_lookup (reg_soroswap (load_pool_rows dec rows reg)) c = pair_lookup (reg_soroswap reg) c"
    "pair_lookup (reg_sushiswap (load_pool_rows dec rows reg)) c = pair_lookup (reg_sushiswap reg) c"
    "phoenix_get (reg_phoenix (load_pool_rows dec rows reg)) c = phoenix_get (reg_phoenix reg) c"
  using assms unfolding load_pool_rows_def
  by (induction rows arbitrary: reg) (auto simp: load_row_other)

lemma pool_view_cong:
  assumes "map_of (reg_venue reg) c = map_of (reg_venue reg') c"
    and "pair_lookup (reg_soroswap reg) c = pair_lookup (reg_soroswap reg') c"
    and "pair_lookup (reg_sushiswap reg) c = pair_lookup (reg_sushiswap reg') c"
    and "phoenix_get (reg_phoenix reg) c = phoenix_get (reg_phoenix reg') c"
  shows "pool_view reg c = pool_view reg' c"
proof -
  have "info_of reg c v = info_of reg' c v" for v
    using assms by (cases v) (simp_all add: info_of_def)
  then have "info_of reg c = info_of reg' c"
    by (rule ext)
  with assms(1) show ?thesis
    by (simp add: pool_view_def)
qed

lemma load_rows_view_other:
  "c \<notin> pr_contract_id ` set rows \<Longrightarrow> pool_view (load_pool_rows dec rows reg) c = pool_view reg c"
  by (rule pool_view_cong) (simp_all add: load_rows_other)

definition fresh_at :: "registries \<Rightarrow> string \<Rightarrow> bool" where
  "fresh_at reg c \<longleftrightarrow> map_of (reg_venue reg) c = None \<and> pair_lookup (reg_soroswap reg) c = None \<and>
     pair_lookup (reg_sushiswap reg) c = None \<and> phoenix_get (reg_phoenix reg) c = None"

lemma fresh_load_rows:
  "fresh_at reg c \<Longrightarrow> c \<notin> pr_contract_id ` set rows \<Longrightarrow> fresh_at (load_pool_rows dec rows reg) c"
  by (simp add: fresh_at_def load_rows_other)

lemma load_rows_member:
  assumes "distinct (map pr_contract_id rows)" and "row \<in> set rows" and "fresh_at reg (pr_contract_id row)"
  shows "\<exists>reg'. fresh_at reg' (pr_contract_id row) \<and>
    pool_view (load_pool_rows dec rows reg) (pr_contract_id row) =
    pool_view (load_pool_row dec row reg') (pr_contract_id row)"
proof -
  obtain xs ys where rows: "rows = xs @ row # ys"
    using assms(2) by (meson split_list)
  let ?reg' = "load_pool_rows dec xs reg"
  have "pr_contract_id row \<notin> pr_contract_id ` set xs" "pr_contract_id row \<notin> pr_contract_id ` set ys"
    using assms(1) by (auto simp: rows)
  then have "fresh_at ?reg' (pr_contract_id row)"
    and "pool_view (load_pool_rows dec ys (load_pool_row dec row ?reg')) (pr_contract_id row) =
      pool_view (load_pool_row dec row ?reg') (pr_contract_id row)"
    using fresh_load_rows [OF assms(3)] load_rows_view_other by auto
  then show ?thesis
    by (auto simp: rows load_pool_rows_def)
qed

text \<open>
  What the \<open>hex\<close> crate is relied on for, and what the learned registries satisfy: pair tokens are not blank,
  a Phoenix contract has its pool, a wasm hash is 32 bytes.
\<close>

definition hex_laws :: "(u8 list \<Rightarrow> string) \<Rightarrow> (string \<Rightarrow> u8 list option) \<Rightarrow> bool" where
  "hex_laws enc dec \<longleftrightarrow> (\<forall>h. dec (enc h) = Some h) \<and> dec [] = Some []"

definition storable :: "registries \<Rightarrow> bool" where
  "storable reg \<longleftrightarrow> hm_ok (reg_venue reg) \<and> (\<forall>(c, v) \<in> set (reg_venue reg).
     case info_of reg c v of
       PairInfo _ (Some p) \<Rightarrow> token0 p \<noteq> [] \<and> token1 p \<noteq> []
     | PhoenixInfo None \<Rightarrow> False
     | PhoenixInfo (Some (_, Some h)) \<Rightarrow> length h = 32
     | _ \<Rightarrow> True)"

lemma load_own_row:
  assumes "hex_laws enc dec" and "storable reg" and "(c, v) \<in> set (reg_venue reg)" and "fresh_at reg' c"
  shows "pool_view (load_pool_row dec (pool_row_of enc reg (c, v)) reg') c = Some (info_of reg c v)"
proof -
  note st = bspec [OF conjunct2 [OF assms(2) [unfolded storable_def]] assms(3), simplified]
  note defs = pool_row_of_def load_pool_row_def blank_row_def with_pair_def with_phoenix_def pool_view_def
    info_of_def fresh_at_def hex_laws_def hex_decode32_def Let_def
  show ?thesis
  proof (cases v)
    case Soroswap
    with assms(1,4) st show ?thesis
      by (cases "pair_lookup (reg_soroswap reg) c") (auto simp: defs pair_register_def pair_lookup_def)
  next
    case Sushiswap
    with assms(1,4) st show ?thesis
      by (cases "pair_lookup (reg_sushiswap reg) c") (auto simp: defs pair_register_def pair_lookup_def)
  next
    case Phoenix
    with st obtain p where p: "phoenix_lookup (reg_phoenix reg) c = Some p"
      by (cases "phoenix_lookup (reg_phoenix reg) c") (auto simp: info_of_def phoenix_get_def)
    with Phoenix assms(1,4) st show ?thesis
      by (cases "pp_wasm_hash p")
        (auto simp: defs phoenix_get_def phoenix_lookup_def phoenix_register_def
          phoenix_register_with_wasm_def)
  qed (use assms in \<open>auto simp: defs\<close>)
qed

lemma pool_row_of_contract [simp]: "pr_contract_id (pool_row_of enc reg (c, v)) = c"
  by (auto simp: pool_row_of_def blank_row_def with_pair_def with_phoenix_def split: venue.splits option.splits)

lemma pool_row_of_contract' [simp]: "pr_contract_id \<circ> pool_row_of enc reg = fst"
  by (auto simp: fun_eq_iff)

lemma to_pool_rows_set: "set (to_pool_rows enc reg) = pool_row_of enc reg ` set (reg_venue reg)"
  by (simp add: to_pool_rows_def)

lemma to_pool_rows_distinct:
  assumes "hm_ok (reg_venue reg)"
  shows "distinct (map pr_contract_id (to_pool_rows enc reg))"
proof -
  have "mset (map pr_contract_id (to_pool_rows enc reg)) = mset (map fst (reg_venue reg))"
    by (simp add: to_pool_rows_def multiset.map_comp)
  then show ?thesis
    using assms unfolding hm_ok_def by (metis mset_eq_imp_distinct_iff)
qed

lemma fresh_new [simp]: "fresh_at registries_new c"
  by (simp add: fresh_at_def registries_new_def pair_lookup_def phoenix_get_def phoenix_lookup_def)

lemma reload_view:
  assumes "hex_laws enc dec" and "storable reg"
  shows "pool_view (load_pool_rows dec (to_pool_rows enc reg) registries_new) c = pool_view reg c"
proof (cases "map_of (reg_venue reg) c")
  case None
  then have "c \<notin> pr_contract_id ` set (to_pool_rows enc reg)"
    by (force simp: to_pool_rows_set map_of_eq_None_iff)
  then show ?thesis
    using None by (simp add: load_rows_view_other) (simp add: pool_view_def registries_new_def)
next
  case (Some v)
  then have cv: "(c, v) \<in> set (reg_venue reg)"
    by (rule map_of_SomeD)
  then have "pool_row_of enc reg (c, v) \<in> set (to_pool_rows enc reg)"
    by (auto simp: to_pool_rows_set)
  moreover have "distinct (map pr_contract_id (to_pool_rows enc reg))"
    using assms(2) by (intro to_pool_rows_distinct) (simp add: storable_def)
  ultimately obtain reg' where "fresh_at reg' c"
    "pool_view (load_pool_rows dec (to_pool_rows enc reg) registries_new) c =
     pool_view (load_pool_row dec (pool_row_of enc reg (c, v)) reg') c"
    using load_rows_member [of "to_pool_rows enc reg" "pool_row_of enc reg (c, v)" registries_new dec]
    by auto
  then show ?thesis
    using load_own_row [OF assms cv] Some by (simp add: pool_view_def)
qed


section \<open>The write delta\<close>

text \<open>What a run records after its pool write succeeded: \<open>persisted_pools.extend(new rows)\<close>.\<close>

definition persist_rows :: "pool_row list \<Rightarrow> (string, pool_row) hmap \<Rightarrow> (string, pool_row) hmap" where
  "persist_rows rows persisted = fold (\<lambda>row. AList.update (pr_contract_id row) row) rows persisted"

text \<open>The cold-start snapshot: the registry's own rows, keyed by contract.\<close>

definition snapshot_rows :: "(u8 list \<Rightarrow> string) \<Rightarrow> registries \<Rightarrow> (string, pool_row) hmap" where
  "snapshot_rows enc reg = map (\<lambda>row. (pr_contract_id row, row)) (to_pool_rows enc reg)"

lemma persist_rows_other:
  "c \<notin> pr_contract_id ` set rows \<Longrightarrow> map_of (persist_rows rows m) c = map_of m c"
  unfolding persist_rows_def by (induction rows arbitrary: m) auto

lemma persist_rows_member:
  assumes "distinct (map pr_contract_id rows)" and "row \<in> set rows"
  shows "map_of (persist_rows rows m) (pr_contract_id row) = Some row"
  using assms
proof (induction rows arbitrary: m)
  case (Cons r rows)
  show ?case
  proof (cases "row \<in> set rows")
    case True
    with Cons show ?thesis by (simp add: persist_rows_def)
  next
    case False
    with Cons.prems have "row = r" by simp
    with Cons.prems persist_rows_other [of "pr_contract_id r" rows] show ?thesis
      by (simp add: persist_rows_def)
  qed
qed simp

lemma snapshot_map_of:
  assumes "hm_ok (reg_venue reg)" and "row \<in> set (to_pool_rows enc reg)"
  shows "map_of (snapshot_rows enc reg) (pr_contract_id row) = Some row"
  using assms(2) to_pool_rows_distinct [OF assms(1), of enc]
  by (intro map_of_is_SomeI) (auto simp: snapshot_rows_def comp_def)

definition initial_registries :: "registries \<Rightarrow> registries" where
  "initial_registries reg = merge_static_pools reg"

lemma hm_ok_merge_static: "hm_ok (reg_venue reg) \<Longrightarrow> hm_ok (reg_venue (merge_static_pools reg))"
  by (simp add: merge_static_pools_def static_pools_def)

section \<open>Properties\<close>

text \<open>
  C39: Persisting the pool registry and loading it back preserves routing: dispatch over load_pool_rows of
  to_pool_rows gives the same trades or the same error for every group, for registries whose pairs are
  non-blank, whose hashes are 32 bytes and whose every Phoenix contract has its pool entry.
\<close>

theorem reload_dispatch:
  assumes "hex_laws enc dec" and "storable reg"
  shows "dispatch_with (load_pool_rows dec (to_pool_rows enc reg) registries_new) rows = dispatch_with reg rows"
  by (rule dispatch_view) (rule reload_view [OF assms])

text \<open>A concrete lower-case hex codec, for the witnesses.\<close>

definition hex_chars :: string where
  "hex_chars = ''0123456789abcdef''"

definition hex_enc :: "u8 list \<Rightarrow> string" where
  "hex_enc bs = concat (map (\<lambda>b. [hex_chars ! (unat b div 16), hex_chars ! (unat b mod 16)]) bs)"

definition hex_val :: "char \<Rightarrow> nat option" where
  "hex_val ch = map_option fst (List.find (\<lambda>(_, x). x = ch) (enumerate 0 hex_chars))"

fun hex_dec :: "string \<Rightarrow> u8 list option" where
  "hex_dec [] = Some []"
| "hex_dec [_] = None"
| "hex_dec (a # b # s) =
     (case (hex_val a, hex_val b, hex_dec s) of
        (Some x, Some y, Some bs) \<Rightarrow> Some (word_of_nat (16 * x + y) # bs)
      | _ \<Rightarrow> None)"

lemma hex_val_chars: "n < 16 \<Longrightarrow> hex_val (hex_chars ! n) = Some n"
proof -
  have "\<forall>n \<in> set [0..<16]. hex_val (hex_chars ! n) = Some n"
    by code_simp
  then show "n < 16 \<Longrightarrow> hex_val (hex_chars ! n) = Some n"
    by simp
qed

lemma hex_dec_enc: "hex_dec (hex_enc bs) = Some bs"
proof (induction bs)
  case (Cons b bs)
  have "unat b < 256"
    using unsigned_less [of b, where ?'a = nat] by simp
  then have "unat b div 16 < 16" by simp
  with Cons show ?case
    by (simp add: hex_enc_def hex_val_chars)
qed (simp add: hex_enc_def)

lemma hex_laws_hex: "hex_laws hex_enc hex_dec"
  by (simp add: hex_laws_def hex_dec_enc)

definition sample_registries :: registries where
  "sample_registries =
     \<lparr>reg_venue = [(''P'', Phoenix), (''S'', Sushiswap), (''A'', Aquarius)],
      reg_phoenix = [(''P'', \<lparr>pp_contract_id = ''P'', pp_pool_type = 0, pp_wasm_hash = Some (replicate 32 171)\<rparr>)],
      reg_soroswap = [],
      reg_sushiswap = [(''S'', \<lparr>token0 = ''A'', token1 = ''B''\<rparr>)]\<rparr>"

theorem reload_dispatch_witness:
  "dispatch_with (load_pool_rows hex_dec (to_pool_rows hex_enc sample_registries) registries_new)
     sample_phoenix_rows = dispatch_with sample_registries sample_phoenix_rows"
proof (rule reload_dispatch [OF hex_laws_hex])
  show "storable sample_registries"
    by (simp add: storable_def sample_registries_def hm_ok_def info_of_def phoenix_get_def
        phoenix_lookup_def pair_lookup_def)
qed

lemma pool_delta_is_written_once:
  assumes "hm_ok (reg_venue reg)"
  shows "pool_rows_unpersisted enc reg (persist_rows (pool_rows_unpersisted enc reg persisted) persisted) = [] \<and>
    pool_rows_unpersisted enc (initial_registries reg) (snapshot_rows enc (initial_registries reg)) = []"
proof

  let ?new = "pool_rows_unpersisted enc reg persisted"
  have d: "distinct (map pr_contract_id (to_pool_rows enc reg))"
    by (rule to_pool_rows_distinct [OF assms])
  then have "distinct (map pr_contract_id ?new)"
    unfolding pool_rows_unpersisted_def by (rule distinct_map_filter)
  have "map_of (persist_rows ?new persisted) (pr_contract_id row) = Some row"
    if row: "row \<in> set (to_pool_rows enc reg)" for row
  proof (cases "row \<in> set ?new")
    case True
    then show ?thesis
      by (rule persist_rows_member [OF \<open>distinct (map pr_contract_id ?new)\<close>])
  next
    case False
    then have "map_of persisted (pr_contract_id row) = Some row"
      using row by (simp add: pool_rows_unpersisted_def)
    moreover have "pr_contract_id row \<notin> pr_contract_id ` set ?new"
      using row False d by (auto simp: pool_rows_unpersisted_def distinct_map dest: inj_onD)
    ultimately show ?thesis
      by (simp add: persist_rows_other)
  qed
  then show "pool_rows_unpersisted enc reg (persist_rows ?new persisted) = []"
    unfolding pool_rows_unpersisted_def [of enc reg "persist_rows _ _"] by (simp add: filter_empty_conv)
  show "pool_rows_unpersisted enc (initial_registries reg) (snapshot_rows enc (initial_registries reg)) = []"
    using snapshot_map_of [of "initial_registries reg"] hm_ok_merge_static [OF assms]
    by (simp add: pool_rows_unpersisted_def filter_empty_conv initial_registries_def)
qed

end
