(* ===== verification/Canonical.thy ===== *)
theory Canonical
  imports Prelude
begin

text \<open>
  Asset identities, the canonical orientation of a pair and the asset registry:
  \<open>packages/prices-ingest-core/src/canonical.rs\<close>. Two things the file takes from crates are a parameter
  \<open>env\<close>: parsing a \<open>G...\<close> account address (\<open>stellar_strkey\<close>) and the SAC address of an XDR asset
  (XDR encoding, SHA-256 and \<open>stellar_strkey\<close>). The account-address encoder the file writes itself
  (\<open>crc16\<close>, \<open>base32_encode\<close>, \<open>stellar_strkey\<close>) is modelled on words.
\<close>

unbundle bit_operations_syntax

section \<open>Identities\<close>

datatype asset_identity =
    Native
  | Credit string string
  | Contract string

text \<open>The derived order: by constructor, then by the fields.\<close>

fun identity_rank :: "asset_identity \<Rightarrow> nat \<times> string \<times> string" where
  "identity_rank Native = (0, [], [])"
| "identity_rank (Credit code issuer) = (1, code, issuer)"
| "identity_rank (Contract addr) = (2, addr, [])"

lemma identity_rank_inject: "identity_rank x = identity_rank y \<longleftrightarrow> x = y"
  by (cases x; cases y) auto

instantiation asset_identity :: linorder
begin

definition less_eq_asset_identity :: "asset_identity \<Rightarrow> asset_identity \<Rightarrow> bool" where
  "less_eq_asset_identity x y \<longleftrightarrow> identity_rank x \<le> identity_rank y"

definition less_asset_identity :: "asset_identity \<Rightarrow> asset_identity \<Rightarrow> bool" where
  "less_asset_identity x y \<longleftrightarrow> identity_rank x < identity_rank y"

instance
  by standard
    (auto simp: less_eq_asset_identity_def less_asset_identity_def identity_rank_inject
      dest: antisym)

end

definition bytes_of :: "string \<Rightarrow> u8 list" where
  "bytes_of s = map (\<lambda>c. word_of_nat (of_char c)) s"

definition string_of :: "u8 list \<Rightarrow> string" where
  "string_of bs = map (\<lambda>b. char_of (unat b)) bs"

lemma string_of_bytes_of [simp]: "string_of (bytes_of s) = s"
proof -
  have "char_of (unat (word_of_nat (of_char c) :: u8)) = c" for c
    by (simp add: unat_of_nat)
  then show ?thesis
    by (simp add: string_of_def bytes_of_def comp_def)
qed

lemma bytes_of_inject [simp]: "bytes_of s = bytes_of t \<longleftrightarrow> s = t"
  by (metis string_of_bytes_of)

fun sort_key_bytes :: "asset_identity \<Rightarrow> u8 list" where
  "sort_key_bytes Native = [0]"
| "sort_key_bytes (Credit code issuer) = [1] @ bytes_of code @ [0] @ bytes_of issuer"
| "sort_key_bytes (Contract addr) = [2] @ bytes_of addr"

definition usdc_issuer :: string where
  "usdc_issuer = ''GA5ZSEJYB37JRC5AVCIA5MOP4RHTM335X2KGX3IHOJAPP5RE34K4KZVN''"

definition usdt_issuer :: string where
  "usdt_issuer = ''GCQTGZQQ5G4PTM2GL7CDIFKUBIPEC52BROAQIAPW53XBRJVN6ZJVTG6V''"

section \<open>Account addresses\<close>

text \<open>One byte of the CRC16 loop.\<close>

definition crc16_step :: "u16 \<Rightarrow> u8 \<Rightarrow> u16" where
  "crc16_step crc byte =
     (let code = drop_bit 8 crc;
          code = code XOR ucast byte;
          code = code XOR drop_bit 4 code;
          crc = push_bit 8 crc;
          crc = crc XOR code;
          crc = crc XOR push_bit 5 code
      in crc XOR push_bit 12 code)"

definition crc16 :: "u8 list \<Rightarrow> u16" where
  "crc16 data = foldl crc16_step 0 data"

definition base32_alphabet :: string where
  "base32_alphabet = ''ABCDEFGHIJKLMNOPQRSTUVWXYZ234567''"

text \<open>The inner \<open>while bits >= 5\<close>: the characters it pushes and the bits left.\<close>

fun base32_drain :: "u64 \<Rightarrow> nat \<Rightarrow> string \<times> nat" where
  "base32_drain buffer bits =
     (if bits \<ge> 5
      then let bits = bits - 5;
               (out, rest) = base32_drain buffer bits
           in (base32_alphabet ! unat (drop_bit bits buffer AND 0x1F) # out, rest)
      else ([], bits))"

declare base32_drain.simps [simp del]

fun base32_loop :: "u8 list \<Rightarrow> u64 \<Rightarrow> nat \<Rightarrow> string" where
  "base32_loop [] buffer bits =
     (if bits > 0
      then [base32_alphabet ! unat (push_bit (5 - bits) buffer AND 0x1F)] else [])"
| "base32_loop (byte # data) buffer bits =
     (let buffer = push_bit 8 buffer OR ucast byte;
          (out, bits) = base32_drain buffer (bits + 8)
      in out @ base32_loop data buffer bits)"

definition base32_encode :: "u8 list \<Rightarrow> string" where
  "base32_encode data = base32_loop data 0 0"

definition strkey_encode :: "u8 list \<Rightarrow> string" where
  "strkey_encode ed25519 =
     (let payload = push_bit 3 6 # ed25519;
          checksum = crc16 payload
      in base32_encode (payload @ [ucast (checksum AND 0xFF), ucast (drop_bit 8 checksum)]))"

lemma crc16_check_vector: "crc16 (bytes_of ''123456789'') = 0x31C3"
  by (simp add: crc16_def crc16_step_def bytes_of_def)

section \<open>Base32: the bit-buffer loop is the grouping of the bit string\<close>

definition byte_bits :: "u8 \<Rightarrow> bool list" where
  "byte_bits b = rev (map (bit b) [0..<8])"

definition bits_val :: "bool list \<Rightarrow> nat" where
  "bits_val bs = horner_sum of_bool 2 (rev bs)"

text \<open>The reference: five bits at a time, the last group filled with zeros.\<close>

function base32_groups :: "bool list \<Rightarrow> string" where
  "base32_groups bs =
     (if bs = [] then []
      else base32_alphabet ! bits_val (take 5 (bs @ replicate 4 False)) # base32_groups (drop 5 bs))"
  by pat_completeness auto
termination
  by (relation "measure length") auto

declare base32_groups.simps [simp del]

lemma bits_val_append: "bits_val (xs @ ys) = bits_val xs * 2 ^ length ys + bits_val ys"
  by (simp add: bits_val_def horner_sum_append)

lemma bits_val_less: "bits_val bs < 2 ^ length bs"
  using horner_sum_of_bool_2_less [of "rev bs"] by (simp add: bits_val_def)

lemma bits_val_replicate: "bits_val (replicate n False) = 0"
  by (induction n) (simp_all add: bits_val_def horner_sum_append)

lemma length_byte_bits [simp]: "length (byte_bits b) = 8"
  by (simp add: byte_bits_def)

lemma bits_val_byte: "bits_val (byte_bits b) = unat b"
proof -
  have "map (bit b) [0..<8] = map (bit (unat b)) [0..<8]"
    by (rule map_cong) (simp_all add: bit_unsigned_iff)
  then have "bits_val (byte_bits b) = horner_sum of_bool 2 (map (bit (unat b)) [0..<8])"
    by (simp only: bits_val_def byte_bits_def rev_rev_ident)
  also have "\<dots> = take_bit 8 (unat b)"
    by (rule horner_sum_bit_eq_take_bit)
  also have "\<dots> = unat b"
    using unsigned_less [of b, where ?'a = nat] by (simp add: take_bit_nat_eq_self_iff)
  finally show ?thesis .
qed

lemma low5: "unat (w AND 0x1F :: u64) = take_bit 5 (unat w)"
proof -
  have "w AND 0x1F = take_bit 5 w"
    by (simp add: take_bit_eq_mask mask_eq_exp_minus_1)
  then show ?thesis
    by (simp add: unsigned_take_bit_eq)
qed

lemma take_bit_unat64 [simp]: "take_bit 64 (unat (w :: u64)) = unat w"
proof (rule take_bit_nat_eq_self)
  show "unat w < 2 ^ 64"
    using unsigned_less [of w, where ?'a = nat] by simp
qed

lemma take_bit_bits_split:
  assumes "5 \<le> length q" and "take_bit (length q) n = bits_val q"
  shows "take_bit 5 (drop_bit (length q - 5) n) = bits_val (take 5 q)"
    and "take_bit (length q - 5) n = bits_val (drop 5 q)"
proof -
  let ?m = "length q - 5"
  have q: "bits_val q = bits_val (take 5 q) * 2 ^ ?m + bits_val (drop 5 q)"
    using bits_val_append [of "take 5 q" "drop 5 q"] by simp
  have w: "bits_val (drop 5 q) < 2 ^ ?m"
    using bits_val_less [of "drop 5 q"] by simp
  have "take_bit 5 (drop_bit ?m n) = drop_bit ?m (take_bit (length q) n)"
    using assms(1) by (simp add: take_bit_drop_bit)
  then show "take_bit 5 (drop_bit ?m n) = bits_val (take 5 q)"
    using assms(2) q w by (simp add: drop_bit_eq_div)
  have "take_bit ?m n = take_bit ?m (take_bit (length q) n)"
    by (simp add: min_def)
  then show "take_bit ?m n = bits_val (drop 5 q)"
    using assms(2) q w by (simp add: take_bit_eq_mod)
qed

lemma base32_groups_5:
  "5 \<le> length q \<Longrightarrow> base32_groups (q @ r) =
     base32_alphabet ! bits_val (take 5 q) # base32_groups (drop 5 q @ r)"
  by (subst base32_groups.simps) auto

lemma base32_drain_groups:
  assumes "take_bit (length q) (unat buffer) = bits_val q" and "length q \<le> 64"
  shows "\<exists>out q'. base32_drain buffer (length q) = (out, length q') \<and> length q' < 5 \<and>
    take_bit (length q') (unat buffer) = bits_val q' \<and>
    (\<forall>r. base32_groups (q @ r) = out @ base32_groups (q' @ r))"
  using assms
proof (induction "length q" arbitrary: q rule: less_induct)
  case less
  show ?case
  proof (cases "5 \<le> length q")
    case False
    then have "base32_drain buffer (length q) = ([], length q)"
      by (subst base32_drain.simps) simp
    with False less.prems show ?thesis
      by (intro exI [of _ "[]"] exI [of _ q]) simp
  next
    case True
    let ?q = "drop 5 q" and ?k = "length q - 5"
    have rest: "take_bit (length ?q) (unat buffer) = bits_val ?q"
      using take_bit_bits_split(2) [OF True less.prems(1)] by simp
    have top: "unat (drop_bit ?k buffer AND 0x1F) = bits_val (take 5 q)"
      using take_bit_bits_split(1) [OF True less.prems(1)]
      by (simp add: low5 unsigned_drop_bit_eq)
    have shorter: "length ?q < length q" "length ?q \<le> 64"
      using True less.prems(2) by simp_all
    obtain out q' where IH: "base32_drain buffer ?k = (out, length q')" "length q' < 5"
      "take_bit (length q') (unat buffer) = bits_val q'"
      "\<forall>r. base32_groups (?q @ r) = out @ base32_groups (q' @ r)"
      using less.hyps [OF shorter(1) rest shorter(2)] by auto
    have "base32_drain buffer (length q) = (base32_alphabet ! bits_val (take 5 q) # out, length q')"
      using True IH(1) top by (subst base32_drain.simps) (simp add: Let_def)
    then show ?thesis
      using IH(2-4) base32_groups_5 [OF True]
      by (intro exI [of _ "base32_alphabet ! bits_val (take 5 q) # out"] exI [of _ q']) simp
  qed
qed

lemma buffer_push:
  assumes "k + 8 \<le> 64"
  shows "take_bit (k + 8) (unat (push_bit 8 buffer OR ucast (byte :: u8) :: u64)) =
    take_bit k (unat buffer) * 256 + unat byte"
proof -
  have "take_bit (k + 8) (unat (push_bit 8 buffer OR ucast byte :: u64)) =
      push_bit 8 (take_bit k (unat buffer)) OR unat byte"
    using assms
    by (intro bit_eqI)
      (auto simp: bit_simps bit_take_bit_iff bit_push_bit_iff bit_or_iff dest: bit_imp_le_length)
  also have "\<dots> = push_bit 8 (take_bit k (unat buffer)) + unat byte"
    by (rule disjunctive_add [symmetric])
      (auto simp: bit_simps bit_push_bit_iff dest: bit_imp_le_length)
  finally show ?thesis
    by (simp add: push_bit_eq_mult)
qed

lemma base32_loop_groups:
  assumes "take_bit (length q) (unat buffer) = bits_val q" and "length q < 5"
  shows "base32_loop data buffer (length q) = base32_groups (q @ concat (map byte_bits data))"
  using assms
proof (induction data arbitrary: buffer q)
  case Nil
  show ?case
  proof (cases "q = []")
    case False
    let ?n = "5 - length q"
    have "unat (push_bit ?n buffer AND 0x1F) = take_bit 5 (push_bit ?n (unat buffer))"
      by (simp add: low5 unsigned_push_bit_eq)
    also have "\<dots> = push_bit ?n (take_bit (length q) (unat buffer))"
      using Nil.prems(2) by (simp add: take_bit_push_bit)
    also have "\<dots> = bits_val (q @ replicate ?n False)"
      using Nil.prems(1) by (simp add: bits_val_append bits_val_replicate push_bit_eq_mult)
    also have "q @ replicate ?n False = take 5 (q @ replicate 4 False)"
      using False Nil.prems(2) by (cases q) (auto simp: min_def)
    finally show ?thesis
      using False Nil.prems(2) by (simp add: base32_groups.simps [of q] base32_groups.simps [of "[]"])
  qed (simp add: base32_groups.simps)
next
  case (Cons byte data)
  let ?buffer = "push_bit 8 buffer OR ucast byte" and ?q = "q @ byte_bits byte"
  have "take_bit (length ?q) (unat ?buffer) = bits_val ?q"
    using buffer_push [of "length q" buffer byte] Cons.prems
    by (simp add: bits_val_append bits_val_byte)
  then obtain out q' where "base32_drain ?buffer (length ?q) = (out, length q')" "length q' < 5"
    "take_bit (length q') (unat ?buffer) = bits_val q'"
    "\<forall>r. base32_groups (?q @ r) = out @ base32_groups (q' @ r)"
    using base32_drain_groups [of ?q ?buffer] Cons.prems(2) by auto
  then show ?case
    using Cons.IH [of q' ?buffer] by simp
qed

lemma base32_encode_groups: "base32_encode data = base32_groups (concat (map byte_bits data))"
  using base32_loop_groups [of "[]" 0 data] by (simp add: base32_encode_def bits_val_def)


subsection \<open>Distinct keys have distinct addresses\<close>

lemma bits_val_inject:
  "length xs = length ys \<Longrightarrow> bits_val xs = bits_val ys \<Longrightarrow> xs = ys"
proof (induction xs arbitrary: ys rule: rev_induct)
  case (snoc x xs)
  then obtain y ys' where ys: "ys = ys' @ [y]" "length ys' = length xs"
    by (cases ys rule: rev_cases) auto
  have "2 * bits_val xs + of_bool x = 2 * bits_val ys' + of_bool y"
    using snoc.prems(2) ys(1) by (simp add: bits_val_def)
  then have "bits_val xs = bits_val ys' \<and> x = y"
    by (cases x; cases y; simp; presburger)
  with snoc.IH [of ys'] ys show ?case by simp
qed simp

lemma base32_alphabet_inject: "i < 32 \<Longrightarrow> j < 32 \<Longrightarrow> base32_alphabet ! i = base32_alphabet ! j \<Longrightarrow> i = j"
proof -
  have "distinct base32_alphabet \<and> length base32_alphabet = 32"
    by (simp add: base32_alphabet_def)
  then show "i < 32 \<Longrightarrow> j < 32 \<Longrightarrow> base32_alphabet ! i = base32_alphabet ! j \<Longrightarrow> i = j"
    by (simp add: nth_eq_iff_index_eq)
qed

lemma base32_groups_inject:
  "length xs = length ys \<Longrightarrow> base32_groups xs = base32_groups ys \<Longrightarrow> xs = ys"
proof (induction xs arbitrary: ys rule: base32_groups.induct)
  case (1 xs)
  show ?case
  proof (cases "xs = []")
    case False
    let ?head = "\<lambda>zs. take 5 (zs @ replicate 4 False)"
    have ne: "ys \<noteq> []" using False 1(2) by auto
    have "length (?head zs) = 5" if "zs \<noteq> []" for zs :: "bool list"
      using that by (cases zs) auto
    then have "bits_val (?head xs) < 32" "bits_val (?head ys) < 32" "length (?head xs) = length (?head ys)"
      using bits_val_less [of "?head xs"] bits_val_less [of "?head ys"] False ne by auto
    moreover have "base32_alphabet ! bits_val (?head xs) = base32_alphabet ! bits_val (?head ys)"
      and tl: "base32_groups (drop 5 xs) = base32_groups (drop 5 ys)"
      using 1(3) False ne by (simp_all add: base32_groups.simps [of xs] base32_groups.simps [of ys])
    ultimately have "?head xs = ?head ys"
      by (metis bits_val_inject base32_alphabet_inject)
    then have "take 5 xs = take 5 ys"
      using 1(2) by (auto simp: min_def split: if_splits)
    moreover have "drop 5 xs = drop 5 ys"
      using 1(1) [OF False, of "drop 5 ys"] 1(2) tl by simp
    ultimately show ?thesis
      by (metis append_take_drop_id)
  qed (use 1(2) in simp)
qed

lemma byte_bits_inject: "byte_bits x = byte_bits y \<longleftrightarrow> x = y"
  by (metis bits_val_byte unsigned_word_eqI)

lemma concat_byte_bits_inject:
  "concat (map byte_bits xs) = concat (map byte_bits ys) \<Longrightarrow> xs = ys"
proof (induction xs arbitrary: ys)
  case Nil
  then show ?case by (cases ys) (auto simp: byte_bits_def)
next
  case (Cons x xs)
  then show ?case
    by (cases ys) (auto simp: byte_bits_inject append_eq_append_conv dest!: arg_cong [of _ _ length])
qed

lemma base32_encode_inject:
  assumes "length xs = length ys" and "base32_encode xs = base32_encode ys"
  shows "xs = ys"
proof (rule concat_byte_bits_inject, rule base32_groups_inject)
  have "length (concat (map byte_bits zs)) = 8 * length zs" for zs
    by (induction zs) auto
  then show "length (concat (map byte_bits xs)) = length (concat (map byte_bits ys))"
    using assms(1) by simp
qed (use assms(2) in \<open>simp add: base32_encode_groups\<close>)

lemma strkey_encode_inject:
  assumes "length xs = length ys" and "strkey_encode xs = strkey_encode ys"
  shows "xs = ys"
proof -
  let ?p = "\<lambda>k. (push_bit 3 6 # k) @
    [ucast (crc16 (push_bit 3 6 # k) AND 0xFF), ucast (drop_bit 8 (crc16 (push_bit 3 6 # k)))]"
  have "base32_encode (?p xs) = base32_encode (?p ys)"
    using assms(2) by (simp add: strkey_encode_def Let_def)
  then have "?p xs = ?p ys"
    by (rule base32_encode_inject [rotated]) (simp add: assms(1))
  then show ?thesis
    using assms(1) by simp
qed

section \<open>From and to XDR assets\<close>

text \<open>The XDR asset, as far as the code reads it: code bytes and the issuer's key.\<close>

datatype xdr_asset =
    XNative
  | XAlphanum4 "u8 list" "u8 list"
  | XAlphanum12 "u8 list" "u8 list"

text \<open>
  \<open>String::from_utf8_lossy\<close>: well-formed sequences stay, the longest malformed prefix of a sequence becomes
  one U+FFFD. \<open>utf8_step\<close> says whether a well-formed sequence starts here and how many bytes it (or the
  malformed prefix) takes.
\<close>

definition cont_byte :: "u8 \<Rightarrow> bool" where
  "cont_byte b \<longleftrightarrow> 0x80 \<le> b \<and> b \<le> 0xBF"

definition utf8_second :: "u8 \<Rightarrow> u8 \<Rightarrow> bool" where
  "utf8_second a b \<longleftrightarrow>
     (if a = 0xE0 then 0xA0 \<le> b \<and> b \<le> 0xBF
      else if a = 0xED then 0x80 \<le> b \<and> b \<le> 0x9F
      else if a = 0xF0 then 0x90 \<le> b \<and> b \<le> 0xBF
      else if a = 0xF4 then 0x80 \<le> b \<and> b \<le> 0x8F
      else cont_byte b)"

definition utf8_width :: "u8 \<Rightarrow> nat" where
  "utf8_width a =
     (if a < 0x80 then 1
      else if 0xC2 \<le> a \<and> a \<le> 0xDF then 2
      else if 0xE0 \<le> a \<and> a \<le> 0xEF then 3
      else if 0xF0 \<le> a \<and> a \<le> 0xF4 then 4
      else 0)"

fun utf8_step :: "u8 list \<Rightarrow> bool \<times> nat" where
  "utf8_step [] = (False, 1)"
| "utf8_step (a # bs) =
     (let w = utf8_width a in
      if w = 0 then (False, 1)
      else if w = 1 then (True, 1)
      else case bs of [] \<Rightarrow> (False, 1)
      | b # bs \<Rightarrow>
          if \<not> utf8_second a b then (False, 1)
          else let k = length (takeWhile cont_byte (take (w - 2) bs))
               in (k = w - 2, 2 + k))"

lemma utf8_step_pos: "0 < snd (utf8_step bs)"
  by (cases bs) (auto simp: Let_def split: list.splits)

function from_utf8_lossy :: "u8 list \<Rightarrow> u8 list" where
  "from_utf8_lossy bs =
     (if bs = [] then []
      else let (ok, n) = utf8_step bs
           in (if ok then take n bs else [0xEF, 0xBF, 0xBD]) @ from_utf8_lossy (drop n bs))"
  by pat_completeness auto
termination
proof (relation "measure length")
  fix bs x ok n
  assume "bs \<noteq> []" "x = utf8_step bs" "(ok, n) = x"
  then have "0 < n"
    using utf8_step_pos [of bs] by (metis snd_conv)
  with \<open>bs \<noteq> []\<close> show "(drop n bs, bs) \<in> measure length"
    by simp
qed simp

declare from_utf8_lossy.simps [simp del]

definition trim_nul :: "u8 list \<Rightarrow> u8 list" where
  "trim_nul bs = rev (dropWhile (\<lambda>b. b = 0) (rev bs))"

definition asset_code :: "u8 list \<Rightarrow> string" where
  "asset_code code = string_of (trim_nul (from_utf8_lossy code))"

fun from_xdr :: "xdr_asset \<Rightarrow> asset_identity" where
  "from_xdr XNative = Native"
| "from_xdr (XAlphanum4 code issuer) = Credit (asset_code code) (strkey_encode issuer)"
| "from_xdr (XAlphanum12 code issuer) = Credit (asset_code code) (strkey_encode issuer)"

record asset_env =
  env_parse_key :: "string \<Rightarrow> u8 list option"
  env_sac :: "xdr_asset \<Rightarrow> string option"

fun identity_to_asset :: "asset_env \<Rightarrow> asset_identity \<Rightarrow> xdr_asset option" where
  "identity_to_asset env Native = Some XNative"
| "identity_to_asset env (Credit code issuer) =
     Option.bind (env_parse_key env issuer) (\<lambda>key.
     let bytes = bytes_of code in
     if length bytes \<le> 4 then Some (XAlphanum4 (bytes @ replicate (4 - length bytes) 0) key)
     else if length bytes \<le> 12 then Some (XAlphanum12 (bytes @ replicate (12 - length bytes) 0) key)
     else None)"
| "identity_to_asset env (Contract _) = None"

definition ascii :: "u8 list \<Rightarrow> bool" where
  "ascii bs \<longleftrightarrow> (\<forall>b \<in> set bs. b < 0x80)"

lemma from_utf8_lossy_ascii: "ascii bs \<Longrightarrow> from_utf8_lossy bs = bs"
proof (induction bs)
  case Nil
  then show ?case by (simp add: from_utf8_lossy.simps)
next
  case (Cons b bs)
  then show ?case
    by (subst from_utf8_lossy.simps) (simp add: ascii_def utf8_width_def Let_def)
qed

lemma bytes_of_string_of [simp]: "bytes_of (string_of bs) = bs"
proof -
  have "word_of_nat (of_char (char_of (unat b))) = b" for b :: u8
    using unsigned_less [of b, where ?'a = nat] by simp
  then show ?thesis
    by (simp add: bytes_of_def string_of_def comp_def)
qed

lemma trim_nul_pad: "bs = [] \<or> last bs \<noteq> 0 \<Longrightarrow> trim_nul (bs @ replicate n 0) = bs"
  by (cases bs rule: rev_cases) (simp_all add: trim_nul_def dropWhile_append)


section \<open>The asset registry\<close>

definition sac_address_of :: "asset_env \<Rightarrow> asset_identity \<Rightarrow> string option" where
  "sac_address_of env identity = Option.bind (identity_to_asset env identity) (env_sac env)"

record asset_registry =
  ar_known :: "asset_identity list"
  ar_sac_index :: "(string, asset_identity) hmap"
  ar_pending :: "asset_identity list"

definition register_sac :: "asset_env \<Rightarrow> asset_identity \<Rightarrow> asset_registry \<Rightarrow> asset_registry" where
  "register_sac env identity reg =
     (case sac_address_of env identity of
        None \<Rightarrow> reg
      | Some addr \<Rightarrow>
          (case map_of (ar_sac_index reg) addr of
             Some _ \<Rightarrow> reg
           | None \<Rightarrow> reg\<lparr>ar_sac_index := AList.update addr identity (ar_sac_index reg)\<rparr>))"

definition usdc :: asset_identity where
  "usdc = Credit ''USDC'' usdc_issuer"

definition usdt :: asset_identity where
  "usdt = Credit ''USDT'' usdt_issuer"

definition from_existing :: "asset_env \<Rightarrow> asset_identity list \<Rightarrow> asset_registry" where
  "from_existing env existing =
     (let known = remdups existing;
          reg = \<lparr>ar_known = known, ar_sac_index = [], ar_pending = []\<rparr>;
          reg = register_sac env Native reg;
          reg = register_sac env usdc reg;
          reg = register_sac env usdt reg
      in fold (register_sac env) known reg)"

definition intern :: "asset_env \<Rightarrow> asset_identity \<Rightarrow> asset_registry \<Rightarrow> bool \<times> asset_registry" where
  "intern env identity reg =
     (if identity \<in> set (ar_known reg) then (False, reg)
      else (True, register_sac env identity
        (reg\<lparr>ar_known := ar_known reg @ [identity], ar_pending := ar_pending reg @ [identity]\<rparr>)))"

definition resolve_sac :: "asset_registry \<Rightarrow> string \<Rightarrow> asset_identity option" where
  "resolve_sac reg contract_addr = map_of (ar_sac_index reg) contract_addr"

definition clear_pending :: "asset_registry \<Rightarrow> asset_registry" where
  "clear_pending reg = reg\<lparr>ar_pending := []\<rparr>"

section \<open>Canonical orientation\<close>

definition is_preferred_quote :: "asset_identity \<Rightarrow> nat option" where
  "is_preferred_quote asset =
     (case asset of
        Credit code issuer \<Rightarrow>
          if code = ''USDC'' \<and> issuer = usdc_issuer then Some 0
          else if code = ''USDT'' \<and> issuer = usdt_issuer then Some 1
          else None
      | Native \<Rightarrow> Some 2
      | Contract _ \<Rightarrow> None)"

record canonical_pair =
  cp_base :: asset_identity
  cp_quote :: asset_identity
  cp_inverted :: bool

text \<open>The orientation alone, then with the interning of both sides.\<close>

definition orient :: "asset_identity \<Rightarrow> asset_identity \<Rightarrow> canonical_pair" where
  "orient sold bought =
     (let straight = \<lparr>cp_base = sold, cp_quote = bought, cp_inverted = False\<rparr>;
          flipped = \<lparr>cp_base = bought, cp_quote = sold, cp_inverted = True\<rparr>;
          by_key = (if sort_key_bytes sold < sort_key_bytes bought then straight else flipped)
      in case (is_preferred_quote sold, is_preferred_quote bought) of
           (Some a, Some b) \<Rightarrow> if a < b then flipped else if b < a then straight else by_key
         | (Some _, None) \<Rightarrow> flipped
         | (None, Some _) \<Rightarrow> straight
         | (None, None) \<Rightarrow> by_key)"

definition canonicalise ::
  "asset_env \<Rightarrow> asset_identity \<Rightarrow> asset_identity \<Rightarrow> asset_registry \<Rightarrow> canonical_pair \<times> asset_registry" where
  "canonicalise env sold bought reg =
     (let pair = orient sold bought;
          reg = snd (intern env (cp_base pair) reg);
          reg = snd (intern env (cp_quote pair) reg)
      in (pair, reg))"

text \<open>An identity whose sort key determines it: no NUL byte inside the code, which the key uses as separator.\<close>

fun key_clean :: "asset_identity \<Rightarrow> bool" where
  "key_clean (Credit code issuer) \<longleftrightarrow> 0 \<notin> set (bytes_of code)"
| "key_clean _ \<longleftrightarrow> True"

lemma append_sep_inject:
  "z \<notin> set xs \<Longrightarrow> z \<notin> set ys \<Longrightarrow> xs @ z # us = ys @ z # vs \<longleftrightarrow> xs = ys \<and> us = vs"
  by (induction xs arbitrary: ys) (case_tac ys; auto)+

lemma sort_key_bytes_inject:
  "key_clean x \<Longrightarrow> key_clean y \<Longrightarrow> sort_key_bytes x = sort_key_bytes y \<longleftrightarrow> x = y"
  by (cases x; cases y) (auto simp: append_sep_inject)

lemma is_preferred_quote_inject:
  "is_preferred_quote x = Some k \<Longrightarrow> is_preferred_quote y = Some k \<Longrightarrow> x = y"
  by (auto simp: is_preferred_quote_def split: asset_identity.splits if_splits)

lemma orient_sides: "{cp_base (orient a b), cp_quote (orient a b)} = {a, b}"
  by (auto simp: orient_def Let_def split: option.splits)

lemma orient_inverted:
  "cp_inverted (orient a b) \<longleftrightarrow> cp_base (orient a b) = b \<and> cp_quote (orient a b) = a \<and>
     orient a b \<noteq> \<lparr>cp_base = a, cp_quote = b, cp_inverted = False\<rparr>"
  by (auto simp: orient_def Let_def split: option.splits)

lemma orient_swap:
  assumes "a \<noteq> b" and "key_clean a" and "key_clean b"
  shows "cp_base (orient a b) = cp_base (orient b a) \<and> cp_quote (orient a b) = cp_quote (orient b a) \<and>
    cp_inverted (orient a b) = (\<not> cp_inverted (orient b a))"
proof -
  have "sort_key_bytes a \<noteq> sort_key_bytes b"
    using assms by (simp add: sort_key_bytes_inject)
  then have "sort_key_bytes a < sort_key_bytes b \<longleftrightarrow> \<not> sort_key_bytes b < sort_key_bytes a"
    by auto
  moreover have "is_preferred_quote a = Some k \<Longrightarrow> is_preferred_quote b \<noteq> Some k" for k
    using assms(1) is_preferred_quote_inject by blast
  ultimately show ?thesis
    by (auto simp: orient_def Let_def split: option.splits)
qed

text \<open>
  The registry's invariant: nothing known twice, what is pending is known, pending once and was not loaded,
  an entry of the SAC index is the SAC address of the known (or seeded) identity it names, and every such
  identity that has a SAC address is found under it. \<open>loaded\<close> is what the process read at start.
\<close>

definition sac_index_ok :: "asset_env \<Rightarrow> asset_identity set \<Rightarrow> (string \<rightharpoonup> asset_identity) \<Rightarrow> bool" where
  "sac_index_ok env ids idx \<longleftrightarrow>
     (\<forall>addr identity. idx addr = Some identity \<longrightarrow> identity \<in> ids \<and> sac_address_of env identity = Some addr) \<and>
     (\<forall>identity \<in> ids. \<forall>addr. sac_address_of env identity = Some addr \<longrightarrow> idx addr \<noteq> None)"

definition seeded :: "asset_identity set" where
  "seeded = {Native, usdc, usdt}"

definition registry_ok :: "asset_env \<Rightarrow> asset_identity set \<Rightarrow> asset_registry \<Rightarrow> bool" where
  "registry_ok env loaded reg \<longleftrightarrow>
     distinct (ar_known reg) \<and> distinct (ar_pending reg) \<and>
     loaded \<subseteq> set (ar_known reg) \<and> set (ar_pending reg) \<subseteq> set (ar_known reg) - loaded \<and>
     sac_index_ok env (set (ar_known reg) \<union> seeded) (map_of (ar_sac_index reg))"

lemma register_sac_fields [simp]:
  "ar_known (register_sac env identity reg) = ar_known reg"
  "ar_pending (register_sac env identity reg) = ar_pending reg"
  by (simp_all add: register_sac_def split: option.splits)

lemma register_sac_index:
  "map_of (ar_sac_index (register_sac env identity reg)) =
     (case sac_address_of env identity of
        None \<Rightarrow> map_of (ar_sac_index reg)
      | Some addr \<Rightarrow> (map_of (ar_sac_index reg))
          (addr := or_else (map_of (ar_sac_index reg) addr) (Some identity)))"
  by (auto simp: register_sac_def fun_upd_idem split: option.splits)

lemma register_sac_index_ok:
  "sac_index_ok env ids (map_of (ar_sac_index reg)) \<Longrightarrow>
   sac_index_ok env (insert identity ids) (map_of (ar_sac_index (register_sac env identity reg)))"
  by (auto simp: register_sac_index sac_index_ok_def or_else_def split: option.splits)

lemma fold_register_sac:
  assumes "sac_index_ok env ids (map_of (ar_sac_index reg))"
  shows "sac_index_ok env (ids \<union> set xs) (map_of (ar_sac_index (fold (register_sac env) xs reg))) \<and>
    ar_known (fold (register_sac env) xs reg) = ar_known reg \<and>
    ar_pending (fold (register_sac env) xs reg) = ar_pending reg"
  using assms
proof (induction xs arbitrary: reg ids)
  case (Cons x xs)
  then show ?case
    using Cons.IH [of "insert x ids" "register_sac env x reg"] register_sac_index_ok by simp
qed simp

lemma from_existing_fields:
  "sac_index_ok env (seeded \<union> set existing) (map_of (ar_sac_index (from_existing env existing)))"
  "ar_known (from_existing env existing) = remdups existing"
  "ar_pending (from_existing env existing) = []"
proof -
  let ?reg = "\<lparr>ar_known = remdups existing, ar_sac_index = [], ar_pending = []\<rparr>"
  have eq: "from_existing env existing =
      fold (register_sac env) ([Native, usdc, usdt] @ remdups existing) ?reg"
    by (simp add: from_existing_def Let_def)
  show "sac_index_ok env (seeded \<union> set existing) (map_of (ar_sac_index (from_existing env existing)))"
    "ar_known (from_existing env existing) = remdups existing"
    "ar_pending (from_existing env existing) = []"
    using fold_register_sac [of env "{}" ?reg "[Native, usdc, usdt] @ remdups existing"]
    unfolding eq by (simp_all add: sac_index_ok_def seeded_def)
qed

lemma from_existing_ok: "registry_ok env (set existing) (from_existing env existing)"
  using from_existing_fields [of env existing] by (simp add: registry_ok_def Un_commute)

lemma intern_ok:
  assumes "registry_ok env loaded reg"
  shows "registry_ok env loaded (snd (intern env identity reg))"
proof (cases "identity \<in> set (ar_known reg)")
  case False
  let ?reg = "reg\<lparr>ar_known := ar_known reg @ [identity], ar_pending := ar_pending reg @ [identity]\<rparr>"
  have "sac_index_ok env (insert identity (set (ar_known reg) \<union> seeded))
      (map_of (ar_sac_index (register_sac env identity ?reg)))"
    using assms by (intro register_sac_index_ok) (simp add: registry_ok_def)
  then show ?thesis
    using assms False by (auto simp: registry_ok_def intern_def)
qed (use assms in \<open>simp add: intern_def\<close>)

lemma canonicalise_ok:
  "registry_ok env loaded reg \<Longrightarrow> registry_ok env loaded (snd (canonicalise env a b reg))"
  by (simp add: canonicalise_def Let_def intern_ok)

lemma clear_pending_ok: "registry_ok env loaded reg \<Longrightarrow> registry_ok env (set (ar_known reg)) (clear_pending reg)"
  by (simp add: registry_ok_def clear_pending_def)

lemma intern_known: "set (ar_known (snd (intern env x reg))) = insert x (set (ar_known reg))"
  by (auto simp: intern_def)

text \<open>With no two clean identities sharing a SAC address, a known identity's SAC resolves to that identity.\<close>

definition sac_injective :: "asset_env \<Rightarrow> bool" where
  "sac_injective env \<longleftrightarrow>
     (\<forall>x y addr. key_clean x \<longrightarrow> key_clean y \<longrightarrow>
       sac_address_of env x = Some addr \<longrightarrow> sac_address_of env y = Some addr \<longrightarrow> x = y)"

lemma seeded_clean: "x \<in> seeded \<Longrightarrow> key_clean x"
  by (auto simp: seeded_def usdc_def usdt_def bytes_of_def)

lemma resolve_sac_known:
  assumes "registry_ok env loaded reg" and "sac_injective env"
    and "\<forall>x \<in> set (ar_known reg). key_clean x"
    and "x \<in> set (ar_known reg) \<union> seeded" and "sac_address_of env x = Some addr"
  shows "resolve_sac reg addr = Some x"
proof -
  have ok: "sac_index_ok env (set (ar_known reg) \<union> seeded) (map_of (ar_sac_index reg))"
    using assms(1) by (simp add: registry_ok_def)
  then obtain y where y: "map_of (ar_sac_index reg) addr = Some y"
    using assms(4,5) unfolding sac_index_ok_def by blast
  then have "sac_address_of env y = Some addr" "y \<in> set (ar_known reg) \<union> seeded"
    using ok by (auto simp: sac_index_ok_def)
  then have "y = x"
    using assms(2-5) seeded_clean unfolding sac_injective_def by blast
  with y show ?thesis
    by (simp add: resolve_sac_def)
qed

subsection \<open>A strict address decoder, for the witnesses\<close>

definition base32_val :: "char \<Rightarrow> nat" where
  "base32_val ch = length (takeWhile (\<lambda>x. x \<noteq> ch) base32_alphabet)"

definition decode_bits :: "string \<Rightarrow> bool list" where
  "decode_bits s = concat (map (\<lambda>ch. rev (map (bit (base32_val ch)) [0..<5])) s)"

function bytes_of_bits :: "bool list \<Rightarrow> u8 list" where
  "bytes_of_bits bs =
     (if length bs < 8 then [] else word_of_nat (bits_val (take 8 bs)) # bytes_of_bits (drop 8 bs))"
  by pat_completeness auto
termination
  by (relation "measure length") auto

declare bytes_of_bits.simps [simp del]

definition parse_strkey :: "string \<Rightarrow> u8 list option" where
  "parse_strkey s =
     (let key = take 32 (drop 1 (bytes_of_bits (decode_bits s)))
      in if strkey_encode key = s \<and> length key = 32 then Some key else None)"

lemma base32_val_nth: "i < 32 \<Longrightarrow> base32_val (base32_alphabet ! i) = i"
proof -
  have "list_all (\<lambda>i. base32_val (base32_alphabet ! i) = i) [0..<32]"
    by code_simp
  then show "i < 32 \<Longrightarrow> base32_val (base32_alphabet ! i) = i"
    by (simp add: list_all_iff)
qed

lemma decode_bits_groups: "take (length bs) (decode_bits (base32_groups bs)) = bs"
proof (induction bs rule: base32_groups.induct)
  case (1 bs)
  show ?case
  proof (cases "bs = []")
    case False
    let ?h = "take 5 (bs @ replicate 4 False)"
    have h5: "length ?h = 5"
      using False by (cases bs) auto
    then have "bits_val ?h < 32"
      using bits_val_less [of ?h] unfolding h5 by simp
    then have "take_bit 5 (bits_val ?h) = bits_val ?h"
      by (intro take_bit_nat_eq_self) simp
    then have "rev (map (bit (bits_val ?h)) [0..<5]) = ?h"
      by (intro bits_val_inject)
        (use h5 in \<open>simp_all add: bits_val_def [of "rev _"] horner_sum_bit_eq_take_bit del: upt_rec_numeral\<close>)
    then have "decode_bits (base32_groups bs) = ?h @ decode_bits (base32_groups (drop 5 bs))"
      using False \<open>bits_val ?h < 32\<close>
      by (subst base32_groups.simps) (simp add: decode_bits_def base32_val_nth)
    moreover have "take (length bs) (?h @ decode_bits (base32_groups (drop 5 bs))) = bs"
    proof (cases "length bs < 5")
      case True
      then show ?thesis
        by (simp add: min_def)
    next
      case False
      then have "?h = take 5 bs"
        by simp
      then show ?thesis
        using "1" [OF \<open>bs \<noteq> []\<close>] False by (simp add: min_def)
    qed
    ultimately show ?thesis by simp
  qed simp
qed

lemma bytes_of_bits_concat: "bytes_of_bits (concat (map byte_bits bs) @ rest) = bs @ bytes_of_bits rest"
  by (induction bs) (simp_all add: bytes_of_bits.simps [of "byte_bits _ @ _"] bits_val_byte)

lemma parse_strkey_encode:
  assumes "length key = 32"
  shows "parse_strkey (strkey_encode key) = Some key"
proof -
  obtain c where c: "strkey_encode key = base32_encode ((push_bit 3 6 # key) @ c)" "length c = 2"
    by (auto simp: strkey_encode_def Let_def)
  let ?bits = "concat (map byte_bits ((push_bit 3 6 # key) @ c))"
  obtain rest where "decode_bits (strkey_encode key) = ?bits @ rest"
    using decode_bits_groups [of ?bits] c(1) by (metis append_take_drop_id base32_encode_groups)
  then have "bytes_of_bits (decode_bits (strkey_encode key)) =
      push_bit 3 6 # key @ c @ bytes_of_bits rest"
    using bytes_of_bits_concat [of "(push_bit 3 6 # key) @ c" rest] by simp
  then show ?thesis
    using assms by (simp add: parse_strkey_def)
qed

section \<open>Properties\<close>

text \<open>
  base32_encode, with its 64-bit shift register that overflows after eight bytes, is the RFC 4648 encoding:
  the alphabet characters of the consecutive five-bit groups of the input, the last one padded with zeros.
\<close>

lemma base32_encode_is_grouping:
  "base32_encode data = base32_groups (concat (map byte_bits data))"
  by (rule base32_encode_groups)

text \<open>
  C40: A classic asset survives the identity the program keeps: rebuilding the XDR asset from the code and
  issuer strings of from_xdr gives the original asset, for every ASCII code of one to twelve bytes.
\<close>

theorem classic_identity_roundtrip:
  assumes "\<And>key. length key = 32 \<Longrightarrow> env_parse_key env (strkey_encode key) = Some key"
    and "length issuer = 32" and "ascii code" and "code \<noteq> [] \<and> last code \<noteq> 0"
    and "length code \<le> 12"
    and "asset = (if length code \<le> 4 then XAlphanum4 (code @ replicate (4 - length code) 0) issuer
      else XAlphanum12 (code @ replicate (12 - length code) 0) issuer)"
  shows "from_xdr asset = Credit (string_of code) (strkey_encode issuer) \<and>
    identity_to_asset env (from_xdr asset) = Some asset"
proof -
  have "asset_code (code @ replicate n 0) = string_of code" for n
  proof -
    have "ascii (code @ replicate n 0)"
      using assms(3) by (auto simp: ascii_def)
    then show ?thesis
      using assms(4) by (simp add: asset_code_def from_utf8_lossy_ascii trim_nul_pad)
  qed
  then have "from_xdr asset = Credit (string_of code) (strkey_encode issuer)"
    by (simp add: assms(6))
  moreover have "env_parse_key env (strkey_encode issuer) = Some issuer"
    using assms(1,2) by simp
  ultimately show ?thesis
    using assms(5,6) by (simp add: Let_def)
qed

definition sample_env :: asset_env where
  "sample_env = \<lparr>env_parse_key = parse_strkey,
     env_sac = (\<lambda>asset. case asset of
        XNative \<Rightarrow> Some ''N''
      | XAlphanum4 code issuer \<Rightarrow> Some (''4'' @ string_of code @ string_of issuer)
      | XAlphanum12 code issuer \<Rightarrow> Some (''C'' @ string_of code @ string_of issuer))\<rparr>"

theorem classic_identity_roundtrip_witness:
  "identity_to_asset sample_env (from_xdr (XAlphanum4 (bytes_of ''USD'' @ [0]) (replicate 32 7))) =
     Some (XAlphanum4 (bytes_of ''USD'' @ [0]) (replicate 32 7))"
proof -
  have p: "env_parse_key sample_env (strkey_encode key) = Some key" if "length key = 32" for key
    using that by (simp add: sample_env_def parse_strkey_encode)
  show ?thesis
    by (rule conjunct2 [OF classic_identity_roundtrip [of sample_env "replicate 32 7" "bytes_of ''USD''"
        "XAlphanum4 (bytes_of ''USD'' @ [0]) (replicate 32 7)"]])
      (simp_all add: p bytes_of_def ascii_def)
qed

lemma account_address_injective:
  assumes "length xs = 32" and "length ys = 32" and "strkey_encode xs = strkey_encode ys"
  shows "xs = ys"
  using assms strkey_encode_inject by metis

text \<open>
  canonicalise orients a pair the same way whichever side was sold: base and quote agree, inverted flips,
  and a preferred quote is never the base unless the quote is preferred more.
\<close>

lemma canonicalise_direction_free:
  assumes "a \<noteq> b" and "key_clean a" and "key_clean b"
  shows "let p = fst (canonicalise env a b reg); q = fst (canonicalise env b a reg) in
    cp_base p = cp_base q \<and> cp_quote p = cp_quote q \<and> cp_inverted p = (\<not> cp_inverted q) \<and>
    {cp_base p, cp_quote p} = {a, b} \<and> (cp_inverted p \<longleftrightarrow> cp_base p = b) \<and>
    (\<forall>k. is_preferred_quote (cp_base p) = Some k \<longrightarrow>
      (\<exists>j < k. is_preferred_quote (cp_quote p) = Some j))"
proof -
  have inv: "cp_inverted (orient a b) \<longleftrightarrow> cp_base (orient a b) = b"
    using assms(1) by (auto simp: orient_def Let_def split: option.splits)
  have "is_preferred_quote (cp_base (orient a b)) = Some k \<Longrightarrow>
      \<exists>j < k. is_preferred_quote (cp_quote (orient a b)) = Some j" for k
    using assms(1) is_preferred_quote_inject
    by (auto simp: orient_def Let_def split: option.splits if_splits)
  with inv orient_swap [OF assms] orient_sides [of a b] show ?thesis
    by (simp add: canonicalise_def Let_def)
qed

definition sample_assets :: "asset_identity list" where
  "sample_assets = [Credit ''ABC'' ''X'', Native, Contract ''T'']"

text \<open>
  However assets are interned, the registry stays well formed, its pending list is exactly the new
  identities, and the SAC address of every known asset resolves to that asset: AMM and order-book liquidity of
  one asset share one identity.
\<close>

lemma interning_never_splits_an_asset:
  assumes "sac_injective env" and "\<forall>x \<in> set existing \<union> set xs. key_clean x"
  shows "let reg = fold (\<lambda>x r. snd (intern env x r)) xs (from_existing env existing) in
    registry_ok env (set existing) reg \<and>
    set (ar_pending reg) = set xs - set existing \<and>
    (\<forall>x \<in> set existing \<union> set xs. \<forall>addr. sac_address_of env x = Some addr \<longrightarrow>
      resolve_sac reg addr = Some x)"
proof -
  define reg where "reg = fold (\<lambda>x r. snd (intern env x r)) xs (from_existing env existing)"
  have inv: "registry_ok env (set existing) reg \<and> set (ar_known reg) = set existing \<union> set xs \<and>
      set (ar_pending reg) = set xs - set existing"
    unfolding reg_def
  proof (induction xs rule: rev_induct)
    case Nil
    then show ?case
      by (simp add: from_existing_ok from_existing_fields)
  next
    case (snoc x xs)
    then show ?case
      by (auto simp: intern_ok intern_known) (auto simp: intern_def split: if_splits)
  qed
  have "resolve_sac reg addr = Some x"
    if "x \<in> set existing \<union> set xs" and "sac_address_of env x = Some addr" for x addr
    using resolve_sac_known [of env "set existing" reg x addr] inv assms that by auto
  with inv show ?thesis
    by (simp add: reg_def [symmetric] Let_def)
qed


lemma sample_identity_cases:
  assumes "identity_to_asset sample_env x = Some asset"
  shows "(x = Native \<and> asset = XNative) \<or>
    (\<exists>code key. x = Credit code (strkey_encode key) \<and> length code \<le> 4 \<and>
      asset = XAlphanum4 (bytes_of code @ replicate (4 - length code) 0) key) \<or>
    (\<exists>code key. x = Credit code (strkey_encode key) \<and> length code \<le> 12 \<and>
      asset = XAlphanum12 (bytes_of code @ replicate (12 - length code) 0) key)"
proof (cases x)
  case (Credit code issuer)
  then obtain key where "parse_strkey issuer = Some key"
    using assms by (auto simp: sample_env_def bind_eq_Some_conv)
  moreover from this have "issuer = strkey_encode key"
    by (simp add: parse_strkey_def Let_def split: if_splits)
  moreover have "length (bytes_of code) = length code"
    by (simp add: bytes_of_def)
  ultimately show ?thesis
    using assms Credit by (auto simp: sample_env_def Let_def split: if_splits)
qed (use assms in auto)

lemma replicate_pad_inject:
  assumes "z \<notin> set xs" and "z \<notin> set ys" and "xs @ replicate m z = ys @ replicate n z"
  shows "xs = ys"
proof -
  have strip: "takeWhile (\<lambda>b. b \<noteq> z) (us @ replicate k z) = us" if "z \<notin> set us" for us k
    using that by (induction us) (cases k; auto)+
  show ?thesis
    using strip [OF assms(1), of m] strip [OF assms(2), of n] assms(3) by simp
qed

lemma string_of_inject: "string_of xs = string_of ys \<longleftrightarrow> xs = ys"
  by (metis bytes_of_string_of)

definition padded_key :: "nat \<Rightarrow> string \<Rightarrow> u8 list \<Rightarrow> string" where
  "padded_key n code key = string_of (bytes_of code @ replicate (n - length code) 0) @ string_of key"

lemma padded_key_inject:
  assumes "padded_key n code key = padded_key n code' key'"
    and "length code \<le> n" and "length code' \<le> n"
    and "0 \<notin> set (bytes_of code)" and "0 \<notin> set (bytes_of code')"
  shows "code = code' \<and> key = key'"
proof -
  have "bytes_of code @ replicate (n - length code) 0 = bytes_of code' @ replicate (n - length code') 0"
    and "key = key'"
    using assms(1-3) unfolding padded_key_def
    by (simp_all add: string_of_inject string_of_def bytes_of_def append_eq_append_conv
        string_of_inject [unfolded string_of_def] del: map_append)
  then show ?thesis
    using replicate_pad_inject [OF assms(4,5)] bytes_of_inject by blast
qed

lemma sample_address_cases:
  assumes "sac_address_of sample_env x = Some addr"
  shows "(x = Native \<and> addr = ''N'') \<or>
    (\<exists>code key. x = Credit code (strkey_encode key) \<and> length code \<le> 4 \<and>
      addr = CHR ''4'' # padded_key 4 code key) \<or>
    (\<exists>code key. x = Credit code (strkey_encode key) \<and> length code \<le> 12 \<and>
      addr = CHR ''C'' # padded_key 12 code key)"
proof -
  obtain asset where i: "identity_to_asset sample_env x = Some asset"
    and e: "env_sac sample_env asset = Some addr"
    using assms by (auto simp: sac_address_of_def bind_eq_Some_conv)
  show ?thesis
    using sample_identity_cases [OF i] e
    by (elim disjE exE conjE) (auto simp add: sample_env_def padded_key_def)
qed

lemma sample_env_injective: "sac_injective sample_env"
  unfolding sac_injective_def
proof (intro allI impI)
  fix x y addr
  assume c: "key_clean x" "key_clean y"
    and s: "sac_address_of sample_env x = Some addr" "sac_address_of sample_env y = Some addr"
  from sample_address_cases [OF s(1)] sample_address_cases [OF s(2)] c show "x = y"
    by (elim disjE exE conjE) (auto dest: padded_key_inject)
qed

end
