(* ===== verification/Ledger_Fills.thy ===== *)
theory Ledger_Fills
  imports Canonical
begin

text \<open>
  Order-book and pool fills of a ledger (\<open>prices-ingest-core/src/filter.rs\<close>): which claims of a
  ledger's results are fills, and which resting offer priced them. The XDR types are those of the
  \<open>stellar_xdr\<close> crate, cut down to the constructors and fields the code reads; every other constructor
  of a type is its \<open>Other\<close> constructor. The once-per-process warnings are not modelled.
\<close>

section \<open>The ledger as read\<close>

record claim_body =
  cb_asset_sold :: xdr_asset
  cb_amount_sold :: i64
  cb_asset_bought :: xdr_asset
  cb_amount_bought :: i64

datatype claim_atom =
  ClaimV0 i64 claim_body
| ClaimOrderBook i64 claim_body
| ClaimLiquidityPool claim_body

text \<open>An operation's result: \<open>None\<close> is any result of the operation other than \<open>Success\<close>.\<close>

datatype operation_result_tr =
  ManageSellOffer "claim_atom list option"
| ManageBuyOffer "claim_atom list option"
| CreatePassiveSellOffer "claim_atom list option"
| PathPaymentStrictReceive "claim_atom list option"
| PathPaymentStrictSend "claim_atom list option"
| OtherOperation

datatype operation_result = OpInner operation_result_tr | OpOther

datatype inner_result = InnerTxSuccess "operation_result list" | InnerTxOther

datatype tx_result =
  TxSuccess "operation_result list"
| TxFeeBumpInnerSuccess inner_result
| TxOther

datatype ledger_entry_data = OfferEntry i64 i32 i32 | OtherEntry

datatype ledger_entry_change =
  ChangeState ledger_entry_data
| ChangeUpdated ledger_entry_data
| ChangeCreated ledger_entry_data
| ChangeRestored ledger_entry_data
| ChangeRemoved

type_synonym changes = "ledger_entry_change list"

datatype transaction_meta =
  MetaV0 "changes list"
| MetaV1 "changes list"
| MetaV2 "changes list"
| MetaV3 "changes list"
| MetaV4 "changes list"

record tx_processing =
  tp_result :: tx_result
  tp_meta :: transaction_meta

record lcm_body =
  lb_ledger_seq :: u32
  lb_close_time :: u64
  lb_tx_processing :: "tx_processing list"

datatype ledger_close_meta = LcmV0 lcm_body | LcmV1 lcm_body | LcmV2 lcm_body

section \<open>Fills\<close>

datatype price_source = Offer i32 i32 | AmountRatio

type_synonym offer_prices = "(i64, i32 \<times> i32) hmap"

record raw_trade =
  rt_ledger_sequence :: u32
  rt_closed_at :: i64
  rt_transaction_index :: u16
  rt_operation_index :: u16
  rt_claim_index :: u16
  rt_asset_sold :: asset_identity
  rt_amount_sold :: i64
  rt_asset_bought :: asset_identity
  rt_amount_bought :: i64
  rt_price_source :: price_source

record offer_lookup_counts =
  oc_order_book_fills :: u64
  oc_offer_lookup_misses :: u64
  oc_pool_fills :: u64

definition counts_default :: offer_lookup_counts where
  "counts_default = \<lparr>oc_order_book_fills = 0, oc_offer_lookup_misses = 0, oc_pool_fills = 0\<rparr>"

definition saturating_sub :: "u64 \<Rightarrow> u64 \<Rightarrow> u64" where
  "saturating_sub x y = (if y \<le> x then x - y else 0)"

definition counts_since :: "offer_lookup_counts \<Rightarrow> offer_lookup_counts \<Rightarrow> offer_lookup_counts" where
  "counts_since self earlier =
     \<lparr>oc_order_book_fills = saturating_sub (oc_order_book_fills self) (oc_order_book_fills earlier),
      oc_offer_lookup_misses = saturating_sub (oc_offer_lookup_misses self) (oc_offer_lookup_misses earlier),
      oc_pool_fills = saturating_sub (oc_pool_fills self) (oc_pool_fills earlier)\<rparr>"

definition counts_plus :: "offer_lookup_counts \<Rightarrow> offer_lookup_counts \<Rightarrow> offer_lookup_counts" where
  "counts_plus self other =
     \<lparr>oc_order_book_fills = oc_order_book_fills self + oc_order_book_fills other,
      oc_offer_lookup_misses = oc_offer_lookup_misses self + oc_offer_lookup_misses other,
      oc_pool_fills = oc_pool_fills self + oc_pool_fills other\<rparr>"

definition counts_note :: "bool \<Rightarrow> price_source \<Rightarrow> offer_lookup_counts \<Rightarrow> offer_lookup_counts" where
  "counts_note is_order_book source self =
     (if \<not> is_order_book then self\<lparr>oc_pool_fills := oc_pool_fills self + 1\<rparr>
      else (case source of
          Offer _ _ \<Rightarrow> self\<lparr>oc_order_book_fills := oc_order_book_fills self + 1\<rparr>
        | AmountRatio \<Rightarrow> self\<lparr>oc_order_book_fills := oc_order_book_fills self + 1,
            oc_offer_lookup_misses := oc_offer_lookup_misses self + 1\<rparr>))"

fun extract_claims :: "operation_result_tr \<Rightarrow> claim_atom list" where
  "extract_claims (ManageSellOffer (Some claims)) = claims"
| "extract_claims (ManageBuyOffer (Some claims)) = claims"
| "extract_claims (CreatePassiveSellOffer (Some claims)) = claims"
| "extract_claims (PathPaymentStrictReceive (Some claims)) = claims"
| "extract_claims (PathPaymentStrictSend (Some claims)) = claims"
| "extract_claims _ = []"

fun claim_body_of :: "claim_atom \<Rightarrow> claim_body" where
  "claim_body_of (ClaimV0 _ c) = c"
| "claim_body_of (ClaimOrderBook _ c) = c"
| "claim_body_of (ClaimLiquidityPool c) = c"

fun claim_offer_id :: "claim_atom \<Rightarrow> i64 option" where
  "claim_offer_id (ClaimV0 i _) = Some i"
| "claim_offer_id (ClaimOrderBook i _) = Some i"
| "claim_offer_id (ClaimLiquidityPool _) = None"

definition claim_to_raw_trade ::
  "claim_atom \<Rightarrow> u32 \<Rightarrow> i64 \<Rightarrow> u16 \<Rightarrow> u16 \<Rightarrow> u16 \<Rightarrow> price_source \<Rightarrow> raw_trade option" where
  "claim_to_raw_trade claim seq closed_at tx op idx source =
     (let c = claim_body_of claim in
      if cb_amount_sold c = 0 \<or> cb_amount_bought c = 0 then None
      else Some \<lparr>rt_ledger_sequence = seq, rt_closed_at = closed_at, rt_transaction_index = tx,
        rt_operation_index = op, rt_claim_index = idx,
        rt_asset_sold = from_xdr (cb_asset_sold c), rt_amount_sold = cb_amount_sold c,
        rt_asset_bought = from_xdr (cb_asset_bought c), rt_amount_bought = cb_amount_bought c,
        rt_price_source = source\<rparr>)"

definition price_source_for :: "claim_atom \<Rightarrow> offer_prices list option \<Rightarrow> nat \<Rightarrow> price_source" where
  "price_source_for claim offers operation_index =
     (case claim_offer_id claim of
        None \<Rightarrow> AmountRatio
      | Some offer_id \<Rightarrow>
          (case Option.bind (Option.bind offers (\<lambda>per_operation. get_at per_operation operation_index))
                  (\<lambda>operation. map_of operation offer_id) of
             Some (n, d) \<Rightarrow> Offer n d
           | None \<Rightarrow> AmountRatio))"

fun operation_changes :: "transaction_meta \<Rightarrow> changes list" where
  "operation_changes (MetaV0 operations) = operations"
| "operation_changes (MetaV1 operations) = operations"
| "operation_changes (MetaV2 operations) = operations"
| "operation_changes (MetaV3 operations) = operations"
| "operation_changes (MetaV4 operations) = operations"

fun change_entry :: "ledger_entry_change \<Rightarrow> (ledger_entry_data \<times> bool) option" where
  "change_entry (ChangeState entry) = Some (entry, True)"
| "change_entry (ChangeUpdated entry) = Some (entry, False)"
| "change_entry _ = None"

definition note_change ::
  "ledger_entry_change \<Rightarrow> (i64, bool \<times> (i32 \<times> i32)) hmap \<Rightarrow> (i64, bool \<times> (i32 \<times> i32)) hmap" where
  "note_change change offers =
     (case change_entry change of
        Some (OfferEntry oid n d, from_state) \<Rightarrow>
          (case map_of offers oid of
             None \<Rightarrow> AList.update oid (from_state, (n, d)) offers
           | Some (was_state, _) \<Rightarrow>
               if from_state \<and> \<not> was_state then AList.update oid (True, (n, d)) offers else offers)
      | _ \<Rightarrow> offers)"

definition offers_in_changes :: "changes \<Rightarrow> offer_prices" where
  "offers_in_changes changes = map (\<lambda>(oid, _, price). (oid, price)) (fold note_change changes [])"

definition offer_prices_by_operation :: "transaction_meta \<Rightarrow> nat \<Rightarrow> offer_prices list option" where
  "offer_prices_by_operation meta operation_count =
     (let changes = operation_changes meta in
      if length changes \<noteq> operation_count then None else Some (map offers_in_changes changes))"

fun lcm_contents :: "ledger_close_meta \<Rightarrow> lcm_body" where
  "lcm_contents (LcmV0 v) = v"
| "lcm_contents (LcmV1 v) = v"
| "lcm_contents (LcmV2 v) = v"

text \<open>\<open>close_time as i64\<close> keeps the bits.\<close>

definition ledger_header :: "ledger_close_meta \<Rightarrow> u32 \<times> i64" where
  "ledger_header ledger = (lb_ledger_seq (lcm_contents ledger), lb_close_time (lcm_contents ledger))"

definition tx_processing_entries :: "ledger_close_meta \<Rightarrow> tx_processing list" where
  "tx_processing_entries ledger = lb_tx_processing (lcm_contents ledger)"

fun applied_operations :: "tx_result \<Rightarrow> operation_result list option" where
  "applied_operations (TxSuccess ops) = Some ops"
| "applied_operations (TxFeeBumpInnerSuccess (InnerTxSuccess ops)) = Some ops"
| "applied_operations _ = None"

type_synonym fills = "raw_trade list \<times> offer_lookup_counts"

definition claim_step ::
  "u32 \<Rightarrow> i64 \<Rightarrow> nat \<Rightarrow> nat \<Rightarrow> offer_prices list option \<Rightarrow> nat \<times> claim_atom \<Rightarrow> fills \<Rightarrow> fills" where
  "claim_step seq closed_at tx_idx op_idx offers = (\<lambda>(claim_idx, claim) (trades, counts).
     (let source = price_source_for claim offers op_idx;
          is_order_book = claim_offer_id claim \<noteq> None
      in case claim_to_raw_trade claim seq closed_at (of_nat tx_idx) (of_nat op_idx) (of_nat claim_idx) source of
           Some trade \<Rightarrow> (trades @ [trade], counts_note is_order_book source counts)
         | None \<Rightarrow> (trades, counts)))"

definition operation_step ::
  "u32 \<Rightarrow> i64 \<Rightarrow> nat \<Rightarrow> offer_prices list option \<Rightarrow> nat \<times> operation_result \<Rightarrow> fills \<Rightarrow> fills" where
  "operation_step seq closed_at tx_idx offers = (\<lambda>(op_idx, op_result) out.
     (case op_result of
        OpInner tr \<Rightarrow> fold (claim_step seq closed_at tx_idx op_idx offers) (enumerate 0 (extract_claims tr)) out
      | OpOther \<Rightarrow> out))"

definition transaction_step :: "u32 \<Rightarrow> i64 \<Rightarrow> nat \<times> tx_processing \<Rightarrow> fills \<Rightarrow> fills" where
  "transaction_step seq closed_at = (\<lambda>(tx_idx, tx) out.
     (case applied_operations (tp_result tx) of
        None \<Rightarrow> out
      | Some ops \<Rightarrow>
          (let offers = offer_prices_by_operation (tp_meta tx) (length ops)
           in fold (operation_step seq closed_at tx_idx offers) (enumerate 0 ops) out)))"

text \<open>The ledger's fills and tally, and the process-wide totals the tally is added to (\<open>fetch_add\<close> wraps).\<close>

definition extract_trades_with_counts ::
  "ledger_close_meta \<Rightarrow> offer_lookup_counts \<Rightarrow> fills \<times> offer_lookup_counts" where
  "extract_trades_with_counts ledger totals =
     (let (seq, closed_at) = ledger_header ledger;
          out = fold (transaction_step seq closed_at) (enumerate 0 (tx_processing_entries ledger)) ([], counts_default)
      in (out, counts_plus totals (snd out)))"

definition extract_trades :: "ledger_close_meta \<Rightarrow> offer_lookup_counts \<Rightarrow> raw_trade list \<times> offer_lookup_counts" where
  "extract_trades ledger totals =
     (let (out, totals') = extract_trades_with_counts ledger totals in (fst out, totals'))"

section \<open>Which offer priced a claim\<close>

text \<open>The prices an operation's changes give for an offer, pre-images and remainders apart.\<close>

definition named_price :: "bool \<Rightarrow> i64 \<Rightarrow> ledger_entry_change \<Rightarrow> (i32 \<times> i32) option" where
  "named_price state oid change =
     (case change_entry change of
        Some (OfferEntry i n d, s) \<Rightarrow> if s = state \<and> i = oid then Some (n, d) else None
      | _ \<Rightarrow> None)"

definition first_price :: "bool \<Rightarrow> i64 \<Rightarrow> changes \<Rightarrow> (i32 \<times> i32) option" where
  "first_price state oid changes =
     (case List.map_filter (named_price state oid) changes of [] \<Rightarrow> None | p # _ \<Rightarrow> Some p)"

lemma first_price_snoc:
  "first_price state oid (changes @ [c]) = or_else (first_price state oid changes) (named_price state oid c)"
  by (cases "named_price state oid c") (auto simp: first_price_def map_filter_def split: list.split)

lemma note_change_ok: "hm_ok m \<Longrightarrow> hm_ok (fold note_change changes m)"
  by (induction changes arbitrary: m)
    (auto simp: note_change_def split: option.splits ledger_entry_data.splits)

lemma note_change_lookup:
  "map_of (fold note_change changes []) oid =
     (case first_price True oid changes of
        Some p \<Rightarrow> Some (True, p)
      | None \<Rightarrow> map_option (Pair False) (first_price False oid changes))"
proof (induction changes rule: rev_induct)
  case Nil
  then show ?case by (simp add: first_price_def map_filter_def)
next
  case (snoc c changes)
  then show ?case
    by (auto simp: first_price_snoc note_change_def named_price_def split: option.splits ledger_entry_data.splits)
qed

lemma map_of_drop_flag: "map_of (map (\<lambda>(k, _, v). (k, v)) m) k = map_option snd (map_of m k)"
  by (induction m) auto

lemma offers_in_changes_lookup:
  "map_of (offers_in_changes changes) oid = or_else (first_price True oid changes) (first_price False oid changes)"
  by (simp add: offers_in_changes_def map_of_drop_flag note_change_lookup split: option.split)
    (simp add: option.map_comp comp_def option.map_ident)

section \<open>The fills as one list\<close>

definition claim_fills ::
  "u32 \<Rightarrow> i64 \<Rightarrow> nat \<Rightarrow> nat \<Rightarrow> offer_prices list option \<Rightarrow> nat \<times> claim_atom \<Rightarrow> (raw_trade \<times> bool) list" where
  "claim_fills seq closed_at tx_idx op_idx offers = (\<lambda>(claim_idx, claim).
     (case claim_to_raw_trade claim seq closed_at (of_nat tx_idx) (of_nat op_idx) (of_nat claim_idx)
             (price_source_for claim offers op_idx) of
        Some trade \<Rightarrow> [(trade, claim_offer_id claim \<noteq> None)]
      | None \<Rightarrow> []))"

definition operation_fills ::
  "u32 \<Rightarrow> i64 \<Rightarrow> nat \<Rightarrow> offer_prices list option \<Rightarrow> nat \<times> operation_result \<Rightarrow> (raw_trade \<times> bool) list" where
  "operation_fills seq closed_at tx_idx offers = (\<lambda>(op_idx, op_result).
     (case op_result of
        OpInner tr \<Rightarrow> concat (map (claim_fills seq closed_at tx_idx op_idx offers) (enumerate 0 (extract_claims tr)))
      | OpOther \<Rightarrow> []))"

definition transaction_fills :: "u32 \<Rightarrow> i64 \<Rightarrow> nat \<times> tx_processing \<Rightarrow> (raw_trade \<times> bool) list" where
  "transaction_fills seq closed_at = (\<lambda>(tx_idx, tx).
     (case applied_operations (tp_result tx) of
        None \<Rightarrow> []
      | Some ops \<Rightarrow> concat (map (operation_fills seq closed_at tx_idx
          (offer_prices_by_operation (tp_meta tx) (length ops))) (enumerate 0 ops))))"

definition ledger_fills :: "ledger_close_meta \<Rightarrow> (raw_trade \<times> bool) list" where
  "ledger_fills ledger = (let (seq, closed_at) = ledger_header ledger in
     concat (map (transaction_fills seq closed_at) (enumerate 0 (tx_processing_entries ledger))))"

definition emit_fill :: "raw_trade \<times> bool \<Rightarrow> fills \<Rightarrow> fills" where
  "emit_fill = (\<lambda>(trade, is_order_book) (trades, counts).
     (trades @ [trade], counts_note is_order_book (rt_price_source trade) counts))"

lemma claim_to_raw_trade_SomeD:
  "claim_to_raw_trade claim seq closed_at tx op idx source = Some trade \<Longrightarrow>
     rt_price_source trade = source \<and> rt_ledger_sequence trade = seq \<and> rt_closed_at trade = closed_at \<and>
     rt_transaction_index trade = tx \<and> rt_operation_index trade = op \<and> rt_claim_index trade = idx \<and>
     rt_amount_sold trade \<noteq> 0 \<and> rt_amount_bought trade \<noteq> 0 \<and>
     rt_asset_sold trade = from_xdr (cb_asset_sold (claim_body_of claim)) \<and>
     rt_asset_bought trade = from_xdr (cb_asset_bought (claim_body_of claim)) \<and>
     rt_amount_sold trade = cb_amount_sold (claim_body_of claim) \<and>
     rt_amount_bought trade = cb_amount_bought (claim_body_of claim)"
  by (auto simp: claim_to_raw_trade_def Let_def split: if_splits)

lemma claim_step_emits:
  "claim_step seq closed_at tx op offers x out = fold emit_fill (claim_fills seq closed_at tx op offers x) out"
  by (cases x; cases out)
    (auto simp: claim_step_def claim_fills_def emit_fill_def Let_def split: option.splits
      dest: claim_to_raw_trade_SomeD)

lemma operation_step_emits:
  "operation_step seq closed_at tx offers x out = fold emit_fill (operation_fills seq closed_at tx offers x) out"
  by (cases x) (auto simp: operation_step_def operation_fills_def split: operation_result.split
      intro!: fold_emit claim_step_emits)

lemma transaction_step_emits:
  "transaction_step seq closed_at x out = fold emit_fill (transaction_fills seq closed_at x) out"
  by (cases x) (auto simp: transaction_step_def transaction_fills_def Let_def split: option.split
      intro!: fold_emit operation_step_emits)

lemma fold_emit_fill:
  "fold emit_fill fs (trades, counts) =
     (trades @ map fst fs, fold (\<lambda>(t, b). counts_note b (rt_price_source t)) fs counts)"
  by (induction fs arbitrary: trades counts) (auto simp: emit_fill_def)

lemma extract_trades_with_counts_fills:
  "fst (extract_trades_with_counts ledger totals) =
     (map fst (ledger_fills ledger),
      fold (\<lambda>(t, b). counts_note b (rt_price_source t)) (ledger_fills ledger) counts_default)"
proof -
  have "fold (transaction_step seq closed_at) xs out = fold emit_fill (concat (map (transaction_fills seq closed_at) xs)) out"
    for seq closed_at xs out
    by (rule fold_emit) (rule transaction_step_emits)
  then show ?thesis
    by (simp add: extract_trades_with_counts_def ledger_fills_def fold_emit_fill split: prod.split)
qed

lemma extract_trades_with_counts_totals:
  "snd (extract_trades_with_counts ledger totals) =
     counts_plus totals (snd (fst (extract_trades_with_counts ledger totals)))"
  by (simp add: extract_trades_with_counts_def Let_def split: prod.split)

lemma ledger_fills_nonzero:
  "f \<in> set (ledger_fills ledger) \<Longrightarrow> rt_amount_sold (fst f) \<noteq> 0 \<and> rt_amount_bought (fst f) \<noteq> 0"
  by (auto simp: ledger_fills_def transaction_fills_def operation_fills_def claim_fills_def
      split: prod.splits option.splits operation_result.splits
      dest: claim_to_raw_trade_SomeD claim_to_raw_trade_SomeD [OF sym])

lemma extract_trades_fills: "fst (extract_trades ledger totals) = map fst (ledger_fills ledger)"
  using extract_trades_with_counts_fills [of ledger totals]
  by (cases "extract_trades_with_counts ledger totals") (simp add: extract_trades_def)

lemma extracted_amounts_nonzero:
  "t \<in> set (fst (extract_trades ledger totals)) \<Longrightarrow> rt_amount_sold t \<noteq> 0 \<and> rt_amount_bought t \<noteq> 0"
  using ledger_fills_nonzero by (auto simp: extract_trades_fills)

section \<open>Fill order\<close>

definition fill_key :: "raw_trade \<Rightarrow> u16 \<times> u16 \<times> u16" where
  "fill_key t = (rt_transaction_index t, rt_operation_index t, rt_claim_index t)"

definition key_below :: "raw_trade \<times> bool \<Rightarrow> raw_trade \<times> bool \<Rightarrow> bool" where
  "key_below x y \<longleftrightarrow> fill_key (fst x) < fill_key (fst y)"

text \<open>The indices of a ledger fit the 16 bits they are cast to.\<close>

definition indices_fit :: "ledger_close_meta \<Rightarrow> bool" where
  "indices_fit ledger \<longleftrightarrow> length (tx_processing_entries ledger) \<le> 65536 \<and>
     list_all (\<lambda>tx. case applied_operations (tp_result tx) of None \<Rightarrow> True
       | Some ops \<Rightarrow> length ops \<le> 65536 \<and>
           list_all (\<lambda>r. case r of OpInner tr \<Rightarrow> length (extract_claims tr) \<le> 65536 | OpOther \<Rightarrow> True) ops)
       (tx_processing_entries ledger)"

lemma u16_less: "i < j \<Longrightarrow> j < 65536 \<Longrightarrow> (of_nat i :: u16) < of_nat j"
  by (simp add: word_less_nat_alt unat_of_nat)

lemma enumerate_below: "(i, x) \<in> set (enumerate 0 xs) \<Longrightarrow> i < length xs \<and> x \<in> set xs"
  by (auto simp: in_set_enumerate_eq)

lemma claim_fills_key:
  "f \<in> set (claim_fills seq c tx op offers (i, claim)) \<Longrightarrow> fill_key (fst f) = (of_nat tx, of_nat op, of_nat i)"
  by (auto simp: claim_fills_def fill_key_def split: option.splits
      dest: claim_to_raw_trade_SomeD claim_to_raw_trade_SomeD [OF sym])

lemma operation_fills_key:
  "f \<in> set (operation_fills seq c tx offers (i, r)) \<Longrightarrow> \<exists>k. fill_key (fst f) = (of_nat tx, of_nat i, k)"
  by (cases r) (auto simp: operation_fills_def dest: claim_fills_key)

lemma transaction_fills_key:
  "f \<in> set (transaction_fills seq c (i, tx)) \<Longrightarrow> \<exists>k. fill_key (fst f) = (of_nat i, k)"
  by (auto simp: transaction_fills_def split: option.splits dest!: operation_fills_key)

lemma claims_sorted:
  assumes "length claims \<le> 65536"
  shows "sorted_wrt key_below (concat (map (claim_fills seq c tx op offers) (enumerate 0 claims)))"
proof (rule sorted_wrt_concat_enumerate)
  show "sorted_wrt key_below (claim_fills seq c tx op offers (i, x))" for i x
    by (simp add: claim_fills_def split: option.split)
  show "key_below a b" if "(i, x) \<in> set (enumerate 0 claims)" "(j, y) \<in> set (enumerate 0 claims)" "i < j"
    "a \<in> set (claim_fills seq c tx op offers (i, x))" "b \<in> set (claim_fills seq c tx op offers (j, y))"
    for i x j y a b
    using that assms u16_less [of i j] enumerate_below [of j y claims]
    by (auto simp: key_below_def dest!: claim_fills_key)
qed

lemma operations_sorted:
  assumes "length ops \<le> 65536"
    and "\<And>tr. OpInner tr \<in> set ops \<Longrightarrow> length (extract_claims tr) \<le> 65536"
  shows "sorted_wrt key_below (concat (map (operation_fills seq c tx offers) (enumerate 0 ops)))"
proof (rule sorted_wrt_concat_enumerate)
  show "sorted_wrt key_below (operation_fills seq c tx offers (i, r))" if "(i, r) \<in> set (enumerate 0 ops)" for i r
    using enumerate_below [OF that] assms(2)
    by (auto simp: operation_fills_def intro!: claims_sorted split: operation_result.split)
  show "key_below a b" if "(i, x) \<in> set (enumerate 0 ops)" "(j, y) \<in> set (enumerate 0 ops)" "i < j"
    "a \<in> set (operation_fills seq c tx offers (i, x))" "b \<in> set (operation_fills seq c tx offers (j, y))"
    for i x j y a b
    using that assms(1) u16_less [of i j] enumerate_below [of j y ops]
    by (auto simp: key_below_def dest!: operation_fills_key)
qed

lemma ledger_fills_sorted:
  assumes "indices_fit ledger"
  shows "sorted_wrt key_below (ledger_fills ledger)"
proof -
  have "sorted_wrt key_below (concat (map (transaction_fills seq c) (enumerate 0 (tx_processing_entries ledger))))"
    for seq c
  proof (rule sorted_wrt_concat_enumerate)
    show "sorted_wrt key_below (transaction_fills seq c (i, tx))"
      if "(i, tx) \<in> set (enumerate 0 (tx_processing_entries ledger))" for i tx
    proof (cases "applied_operations (tp_result tx)")
      case (Some ops)
      have "length ops \<le> 65536 \<and>
          list_all (\<lambda>r. case r of OpInner tr \<Rightarrow> length (extract_claims tr) \<le> 65536 | OpOther \<Rightarrow> True) ops"
        using assms enumerate_below [OF that] Some by (force simp: indices_fit_def list_all_iff)
      then have "length ops \<le> 65536" "\<And>tr. OpInner tr \<in> set ops \<Longrightarrow> length (extract_claims tr) \<le> 65536"
        by (fastforce simp: list_all_iff)+
      then show ?thesis
        using Some by (simp add: transaction_fills_def operations_sorted)
    qed (simp add: transaction_fills_def)
    show "key_below a b"
      if "(i, x) \<in> set (enumerate 0 (tx_processing_entries ledger))"
        "(j, y) \<in> set (enumerate 0 (tx_processing_entries ledger))" "i < j"
        "a \<in> set (transaction_fills seq c (i, x))" "b \<in> set (transaction_fills seq c (j, y))"
      for i x j y a b
      using that assms u16_less [of i j] enumerate_below [of j y "tx_processing_entries ledger"]
      by (auto simp: key_below_def indices_fit_def dest!: transaction_fills_key)
  qed
  then show ?thesis
    by (simp add: ledger_fills_def split: prod.split)
qed

section \<open>Properties\<close>

text \<open>
  C36: A claim is priced by the offer it crossed: when metas and results align, price_source_for answers the
  price of the first State entry of that offer in the operation's own changes, else of the first Updated entry,
  and the amount ratio for pool fills, misaligned metas and offers that are not named.
\<close>

theorem fill_is_priced_by_the_resting_offer:
  "price_source_for claim (offer_prices_by_operation meta operation_count) op =
     (case claim_offer_id claim of
        None \<Rightarrow> AmountRatio
      | Some oid \<Rightarrow>
          if length (operation_changes meta) = operation_count \<and> op < operation_count
          then (case or_else (first_price True oid (operation_changes meta ! op))
                       (first_price False oid (operation_changes meta ! op)) of
                  Some (n, d) \<Rightarrow> Offer n d
                | None \<Rightarrow> AmountRatio)
          else AmountRatio)"
  by (simp add: price_source_for_def offer_prices_by_operation_def Let_def get_at_def
      offers_in_changes_lookup split: option.split)

text \<open>
  The offer-lookup tally counts the emitted fills exactly: order-book fills plus pool fills is their
  number, misses are the order-book fills priced by the amount ratio, the process totals grow by the tally of
  the ledger, and no emitted fill has a zero amount.
\<close>

lemma offer_tally_is_conserved:
  "let ((trades, counts), totals') = extract_trades_with_counts ledger totals in
    trades = map fst (ledger_fills ledger) \<and>
    oc_order_book_fills counts + oc_pool_fills counts = of_nat (length trades) \<and>
    oc_pool_fills counts = of_nat (length (filter (\<lambda>(t, b). \<not> b) (ledger_fills ledger))) \<and>
    oc_offer_lookup_misses counts =
      of_nat (length (filter (\<lambda>(t, b). b \<and> rt_price_source t = AmountRatio) (ledger_fills ledger))) \<and>
    totals' = counts_plus totals counts \<and>
    list_all (\<lambda>t. rt_amount_sold t \<noteq> 0 \<and> rt_amount_bought t \<noteq> 0) trades"
proof -
  have tally: "oc_order_book_fills (fold (\<lambda>(t, b). counts_note b (rt_price_source t)) fs counts) =
        oc_order_book_fills counts + of_nat (length (filter (\<lambda>(t, b). b) fs)) \<and>
      oc_pool_fills (fold (\<lambda>(t, b). counts_note b (rt_price_source t)) fs counts) =
        oc_pool_fills counts + of_nat (length (filter (\<lambda>(t, b). \<not> b) fs)) \<and>
      oc_offer_lookup_misses (fold (\<lambda>(t, b). counts_note b (rt_price_source t)) fs counts) =
        oc_offer_lookup_misses counts + of_nat (length (filter (\<lambda>(t, b). b \<and> rt_price_source t = AmountRatio) fs))"
    for fs counts
    by (induction fs arbitrary: counts) (auto simp: counts_note_def split: price_source.split)
  have split: "length fs = length (filter (\<lambda>(t, b). b) fs) + length (filter (\<lambda>(t, b). \<not> b) fs)"
    for fs :: "(raw_trade \<times> bool) list"
    by (induction fs) auto
  show ?thesis
    using extract_trades_with_counts_fills [of ledger totals] extract_trades_with_counts_totals [of ledger totals]
      tally [of "ledger_fills ledger" counts_default] split [of "ledger_fills ledger"] ledger_fills_nonzero [of _ ledger]
    by (cases "extract_trades_with_counts ledger totals") (auto simp: counts_default_def list_all_iff)
qed

text \<open>
  The fills extract_trades emits for a ledger are in strictly ascending (transaction, operation, claim)
  order whenever the ledger's indices fit the 16 bits they are cast to, so no two fills of a ledger share a key.
\<close>

lemma fill_keys_strictly_ascend:
  assumes "indices_fit ledger"
  shows "sorted_wrt (<) (map fill_key (fst (extract_trades ledger totals)))"
  using ledger_fills_sorted [OF assms]
  by (simp add: extract_trades_fills sorted_wrt_map key_below_def [abs_def] comp_def)

definition sample_claim :: "i64 \<Rightarrow> claim_atom" where
  "sample_claim amount = ClaimOrderBook 7 \<lparr>cb_asset_sold = XNative, cb_amount_sold = amount,
     cb_asset_bought = XAlphanum4 [85, 83, 68, 67] (replicate 32 1), cb_amount_bought = 17\<rparr>"

definition sample_ledger :: ledger_close_meta where
  "sample_ledger = LcmV1 \<lparr>lb_ledger_seq = 100, lb_close_time = 600, lb_tx_processing =
     [\<lparr>tp_result = TxSuccess [OpOther, OpInner (ManageSellOffer (Some [sample_claim 0, sample_claim 5]))],
        tp_meta = MetaV4 [[], [ChangeUpdated (OfferEntry 7 1 3), ChangeState (OfferEntry 7 1 2)]]\<rparr>,
      \<lparr>tp_result = TxFeeBumpInnerSuccess (InnerTxSuccess [OpInner (PathPaymentStrictSend (Some [sample_claim 9]))]),
        tp_meta = MetaV3 []\<rparr>]\<rparr>"

end
