(* ===== verification/Price.thy ===== *)
theory Price
  imports Prelude
begin

text \<open>
  Prices and the rounding bound (\<open>prices-ingest-core/src/price.rs\<close>, and the column conversion of
  \<open>writer.rs\<close>).

  \<open>rust_decimal::Decimal\<close> is a third-party type. A decimal is represented here by the number it denotes, a
  rational: the crate's \<open>Eq\<close>, \<open>Ord\<close>, \<open>abs\<close>, unary minus and \<open>is_zero\<close> are those of the number.
  Every operation that rounds, overflows or builds a decimal is a field of \<open>dec_ops\<close>, the parameter of all
  definitions below; what the proofs use of them is \<open>dec_laws\<close>, the crate's documented behaviour.
  A division that would panic is \<open>None\<close>.
\<close>

section \<open>The decimal crate\<close>

record dec_ops =
  d_new :: "int \<Rightarrow> nat \<Rightarrow> rat"
  d_from_i32 :: "int \<Rightarrow> rat"
  d_from_i128 :: "int \<Rightarrow> nat \<Rightarrow> rat"
  d_try_i128 :: "int \<Rightarrow> nat \<Rightarrow> rat option"
  d_add :: "rat \<Rightarrow> rat \<Rightarrow> rat option"
  d_mul :: "rat \<Rightarrow> rat \<Rightarrow> rat option"
  d_div :: "rat \<Rightarrow> rat \<Rightarrow> rat option"
  d_round :: "rat \<Rightarrow> nat \<Rightarrow> rat"
  d_scale :: "rat \<Rightarrow> nat"
  d_mantissa :: "rat \<Rightarrow> int"

text \<open>
  Building a decimal from an integer and a scale is exact within 96 bits and, where it is fallible, fails
  beyond them; a division by zero is refused and
  any other one whose quotient is within 96 bits succeeds and keeps the sign; \<open>round_dp\<close> is within half a unit
  of the last place kept, and its result has at most that many places.
\<close>

definition dec_laws :: "dec_ops \<Rightarrow> bool" where
  "dec_laws ops \<longleftrightarrow>
     (\<forall>m s. \<bar>m\<bar> \<le> 2 ^ 63 \<and> s \<le> 28 \<longrightarrow> d_new ops m s = of_int m / 10 ^ s) \<and>
     (\<forall>m. \<bar>m\<bar> < 2 ^ 32 \<longrightarrow> d_from_i32 ops m = of_int m) \<and>
     (\<forall>m s. \<bar>m\<bar> < 2 ^ 96 \<and> s \<le> 28 \<longrightarrow> d_from_i128 ops m s = of_int m / 10 ^ s) \<and>
     (\<forall>m s. s \<le> 28 \<longrightarrow> d_try_i128 ops m s = (if \<bar>m\<bar> < 2 ^ 96 then Some (of_int m / 10 ^ s) else None)) \<and>
     (\<forall>a b. b \<noteq> 0 \<and> \<bar>a / b\<bar> < 2 ^ 96 \<longrightarrow> d_div ops a b \<noteq> None) \<and>
     (\<forall>a b q. d_div ops a b = Some q \<longrightarrow> b \<noteq> 0 \<and> (0 < a \<and> 0 < b \<longrightarrow> 0 \<le> q)) \<and>
     (\<forall>x s. \<bar>d_round ops x s - x\<bar> \<le> 1 / (2 * 10 ^ s)) \<and>
     (\<forall>x s. s \<le> 28 \<longrightarrow> d_scale ops (d_round ops x s) \<le> s \<and>
        d_round ops x s = of_int (d_mantissa ops (d_round ops x s)) / 10 ^ d_scale ops (d_round ops x s))"

named_theorems dec_simps \<open>the decimal laws\<close>

lemma dec_lawsD:
  assumes "dec_laws ops"
  shows dec_new: "\<bar>m\<bar> \<le> 2 ^ 63 \<Longrightarrow> s \<le> 28 \<Longrightarrow> d_new ops m s = of_int m / 10 ^ s"
    and dec_i32: "\<bar>m\<bar> < 2 ^ 32 \<Longrightarrow> d_from_i32 ops m = of_int m"
    and dec_i128: "\<bar>m\<bar> < 2 ^ 96 \<Longrightarrow> s \<le> 28 \<Longrightarrow> d_from_i128 ops m s = of_int m / 10 ^ s"
    and dec_try_i128: "s \<le> 28 \<Longrightarrow>
      d_try_i128 ops m s = (if \<bar>m\<bar> < 2 ^ 96 then Some (of_int m / 10 ^ s) else None)"
    and dec_div_total: "b \<noteq> 0 \<Longrightarrow> \<bar>a / b\<bar> < 2 ^ 96 \<Longrightarrow> d_div ops a b \<noteq> None"
    and dec_div_nonzero: "d_div ops a b = Some q \<Longrightarrow> b \<noteq> 0"
    and dec_div_pos: "d_div ops a b = Some q \<Longrightarrow> 0 < a \<Longrightarrow> 0 < b \<Longrightarrow> 0 \<le> q"
    and dec_round_err: "\<bar>d_round ops x s - x\<bar> \<le> 1 / (2 * 10 ^ s)"
    and dec_round_scale: "s \<le> 28 \<Longrightarrow> d_scale ops (d_round ops x s) \<le> s"
    and dec_round_mantissa: "s \<le> 28 \<Longrightarrow>
      d_round ops x s = of_int (d_mantissa ops (d_round ops x s)) / 10 ^ d_scale ops (d_round ops x s)"
  using assms unfolding dec_laws_def by blast+

text \<open>A concrete crate: exact rational arithmetic refused beyond 96 bits.\<close>

definition exact_scale :: "rat \<Rightarrow> nat" where
  "exact_scale x = (case List.find (\<lambda>s. of_int \<lfloor>x * 10 ^ s\<rfloor> = x * 10 ^ s) [0..<29] of
     Some s \<Rightarrow> s | None \<Rightarrow> 28)"

definition fits_96 :: "rat \<Rightarrow> rat option" where
  "fits_96 x = (if \<bar>x\<bar> < 2 ^ 96 then Some x else None)"

definition exact_ops :: dec_ops where
  "exact_ops = \<lparr>d_new = (\<lambda>m s. of_int m / 10 ^ s), d_from_i32 = of_int,
     d_from_i128 = (\<lambda>m s. of_int m / 10 ^ s),
     d_try_i128 = (\<lambda>m s. if \<bar>m\<bar> < 2 ^ 96 \<and> s \<le> 28 then Some (of_int m / 10 ^ s) else None),
     d_add = (\<lambda>a b. fits_96 (a + b)), d_mul = (\<lambda>a b. fits_96 (a * b)),
     d_div = (\<lambda>a b. if b = 0 then None else fits_96 (a / b)),
     d_round = (\<lambda>x s. of_int (round (x * 10 ^ s)) / 10 ^ s),
     d_scale = exact_scale, d_mantissa = (\<lambda>x. \<lfloor>x * 10 ^ exact_scale x\<rfloor>)\<rparr>"

lemma exact_scale_rounded:
  fixes x :: rat
  assumes "s \<le> 28" and x: "x = of_int k / 10 ^ s"
  shows "exact_scale x \<le> s \<and> x = of_int \<lfloor>x * 10 ^ exact_scale x\<rfloor> / 10 ^ exact_scale x"
proof -
  let ?p = "\<lambda>t. of_int \<lfloor>x * 10 ^ t\<rfloor> = x * 10 ^ t"
  have ps: "?p s" by (simp add: x)
  have "s \<in> set [0..<29]" using assms by simp
  with ps have "List.find ?p [0..<29] \<noteq> None"
    unfolding find_None_iff by blast
  then obtain t where t: "List.find ?p [0..<29] = Some t"
    by blast
  then obtain i where i: "i < length [0..<29]" "?p ([0..<29] ! i)" "t = [0..<29] ! i"
    "\<forall>j < i. \<not> ?p ([0..<29] ! j)"
    unfolding find_Some_iff by blast
  have "t = i" "?p t" using i(1-3) by simp_all
  moreover have "t \<le> s"
  proof (rule ccontr)
    assume "\<not> t \<le> s"
    then have "s < i" using \<open>t = i\<close> by simp
    then have "\<not> ?p ([0..<29] ! s)" using i(4) by blast
    moreover have "[0..<29] ! s = s" using assms by simp
    ultimately show False using ps by simp
  qed
  moreover have "exact_scale x = t"
    using t by (simp add: exact_scale_def)
  ultimately show ?thesis
    by (metis nonzero_mult_div_cancel_right power_not_zero zero_neq_numeral)
qed

lemma exact_ops_laws: "dec_laws exact_ops"
proof -
  have "\<bar>of_int (round (x * 10 ^ s)) / 10 ^ s - x\<bar> \<le> 1 / (2 * 10 ^ s)" for x :: rat and s :: nat
  proof -
    have "\<bar>of_int (round (x * 10 ^ s)) - x * 10 ^ s\<bar> / 10 ^ s \<le> (1 / 2) / 10 ^ s"
      by (intro divide_right_mono of_int_round_abs_le) simp
    moreover have "of_int (round (x * 10 ^ s)) / 10 ^ s - x = (of_int (round (x * 10 ^ s)) - x * 10 ^ s) / 10 ^ s"
      by (simp add: field_simps)
    ultimately show ?thesis by (simp add: abs_divide)
  qed
  moreover have "fits_96 q \<noteq> None" if "\<bar>q\<bar> < 2 ^ 96" for q
    using that by (simp add: fits_96_def)
  ultimately show ?thesis
    using exact_scale_rounded [OF _ refl] unfolding dec_laws_def exact_ops_def
    by (auto simp: fits_96_def abs_divide split: if_splits)
qed

section \<open>Prices\<close>

definition stroops_to_decimal :: "dec_ops \<Rightarrow> i64 \<Rightarrow> rat" where
  "stroops_to_decimal ops stroops = d_new ops (sint stroops) 7"

definition compute_price :: "dec_ops \<Rightarrow> i64 \<Rightarrow> i64 \<Rightarrow> bool \<Rightarrow> rat option" where
  "compute_price ops amount_sold amount_bought inverted =
     (let sold = stroops_to_decimal ops amount_sold;
          bought = stroops_to_decimal ops amount_bought
      in if inverted then d_div ops sold bought else d_div ops bought sold)"

definition offer_price :: "dec_ops \<Rightarrow> i32 \<Rightarrow> i32 \<Rightarrow> bool \<Rightarrow> rat option" where
  "offer_price ops n d inverted =
     (if sint n \<le> 0 \<or> sint d \<le> 0 then None
      else let (numerator, denominator) = (if inverted then (d, n) else (n, d))
           in d_div ops (d_from_i32 ops (sint numerator)) (d_from_i32 ops (sint denominator)))"

definition candle_price_scale :: nat where
  "candle_price_scale = 14"

definition candle_column_max_integer :: int where
  "candle_column_max_integer = 10 ^ 24 - 1"

definition candle_price_floor :: "dec_ops \<Rightarrow> rat" where
  "candle_price_floor ops = d_from_i128 ops 1 12"

definition candle_price_column_max :: "dec_ops \<Rightarrow> rat" where
  "candle_price_column_max ops = d_from_i128 ops candle_column_max_integer 0"

definition price_survives_column_scale :: "dec_ops \<Rightarrow> rat \<Rightarrow> bool" where
  "price_survives_column_scale ops price =
     (let rounded = \<bar>d_round ops price candle_price_scale\<bar>
      in candle_price_floor ops \<le> rounded \<and> rounded \<le> candle_price_column_max ops)"

definition rounding_bound_holds :: "u128 \<Rightarrow> u128 \<Rightarrow> bool" where
  "rounding_bound_holds a b =
     (if a \<le> 1000 \<or> b \<le> 1000 then False
      else (case checked_mul_u (a - 1000) (b - 1000) of
              Some product \<Rightarrow> 1000000 \<le> product
            | None \<Rightarrow> True))"

text \<open>\<open>as u128\<close> of a signed amount is sign extension.\<close>

definition price_forming_i64 :: "i64 \<Rightarrow> i64 \<Rightarrow> bool" where
  "price_forming_i64 amount_sold amount_bought =
     (if sint amount_sold \<le> 0 \<or> sint amount_bought \<le> 0 then False
      else rounding_bound_holds (scast amount_sold) (scast amount_bought))"

definition price_forming_i128 :: "i128 \<Rightarrow> i128 \<Rightarrow> bool" where
  "price_forming_i128 amount_in amount_out =
     (if sint amount_in \<le> 0 \<or> sint amount_out \<le> 0 then False
      else rounding_bound_holds amount_in amount_out)"

text \<open>\<open>writer::decimal_to_i128\<close>: the mantissa a \<open>Decimal(38, 14)\<close> column is sent.\<close>

definition saturating_i128 :: "int \<Rightarrow> int" where
  "saturating_i128 x = max (- (2 ^ 127)) (min x (2 ^ 127 - 1))"

definition decimal_to_i128 :: "dec_ops \<Rightarrow> rat \<Rightarrow> int" where
  "decimal_to_i128 ops d =
     (let r = d_round ops d candle_price_scale;
          factor = 10 ^ (candle_price_scale - d_scale ops r)
      in saturating_i128 (d_mantissa ops r * factor))"

section \<open>Lemmas\<close>

lemma column_constants:
  assumes "dec_laws ops"
  shows "candle_price_floor ops = 1 / 10 ^ 12"
    and "candle_price_column_max ops = of_int candle_column_max_integer"
  using dec_i128 [OF assms, of 1 12] dec_i128 [OF assms, of candle_column_max_integer 0]
  by (simp_all add: candle_price_floor_def candle_price_column_max_def candle_column_max_integer_def)

text \<open>What is stored is the rounded price in units of \<open>10^-14\<close>, saturated at \<open>i128\<close>.\<close>

lemma decimal_to_i128_rounded:
  assumes "dec_laws ops"
  obtains k where "decimal_to_i128 ops x = saturating_i128 k"
    and "d_round ops x candle_price_scale = of_int k / 10 ^ 14"
proof
  let ?r = "d_round ops x candle_price_scale"
  let ?s = "d_scale ops ?r"
  let ?k = "d_mantissa ops ?r * 10 ^ (14 - ?s)"
  show "decimal_to_i128 ops x = saturating_i128 ?k"
    by (simp add: decimal_to_i128_def Let_def candle_price_scale_def)
  have s: "?s \<le> 14" and m: "?r = of_int (d_mantissa ops ?r) / 10 ^ ?s"
    using dec_round_scale [OF assms, of 14 x] dec_round_mantissa [OF assms, of 14 x]
    by (simp_all add: candle_price_scale_def)
  have "(10 :: rat) ^ 14 = 10 ^ ?s * 10 ^ (14 - ?s)"
    using s by (simp flip: power_add)
  then show "?r = of_int ?k / 10 ^ 14"
    by (subst m) (simp add: field_simps)
qed

lemma rounding_bound_nat:
  "rounding_bound_holds a b \<longleftrightarrow> 1000 < unat a \<and> 1000 < unat b \<and>
     1000 * (unat a + unat b) \<le> unat a * unat b"
proof (cases "1000 < unat a \<and> 1000 < unat b")
  case True
  then obtain m n where m: "unat a = m + 1000" and n: "unat b = n + 1000" and pos: "0 < m" "0 < n"
    by (metis add.commute less_imp_add_positive)
  have le: "\<not> a \<le> 1000" "\<not> b \<le> 1000" "1000 \<le> a" "1000 \<le> b"
    using True by (auto simp: word_le_nat_alt word_less_nat_alt not_le)
  have sub: "unat (a - 1000) = m" "unat (b - 1000) = n"
    using le m n by (simp_all add: unat_sub)
  have shifted: "1000 * (unat a + unat b) \<le> unat a * unat b \<longleftrightarrow> 1000000 \<le> m * n"
    unfolding m n by (simp add: algebra_simps)
  show ?thesis
  proof (cases "m * n < 2 ^ 128")
    case fits: True
    have "unat ((a - 1000) * (b - 1000)) = m * n"
      using fits sub by (simp add: unat_word_ariths)
    then show ?thesis
      using True le fits sub shifted
      by (simp add: rounding_bound_holds_def checked_mul_u_def word_le_nat_alt)
  next
    case False
    then have "1000000 \<le> m * n"
      by simp
    then show ?thesis
      using True le False sub shifted by (simp add: rounding_bound_holds_def checked_mul_u_def)
  qed
next
  case False
  then show ?thesis
    by (auto simp: rounding_bound_holds_def word_le_nat_alt)
qed

lemma bound_nat_rat:
  "(1000 < m \<and> 1000 < n \<and> 1000 * (m + n) \<le> m * n) \<longleftrightarrow>
     0 < m \<and> 0 < n \<and> 1 / of_nat m + 1 / of_nat n \<le> (1 / 1000 :: rat)"
proof (cases "0 < m \<and> 0 < n")
  case True
  let ?a = "of_nat m :: rat" and ?b = "of_nat n :: rat"
  have "0 < ?a" "0 < ?b" using True by simp_all
  then have "1 / ?a + 1 / ?b \<le> 1 / 1000 \<longleftrightarrow> 1000 * (?a + ?b) \<le> ?a * ?b"
    by (simp add: field_simps)
  also have "\<dots> \<longleftrightarrow> of_nat (1000 * (m + n)) \<le> (of_nat (m * n) :: rat)"
    by simp
  also have "\<dots> \<longleftrightarrow> 1000 * (m + n) \<le> m * n"
    by (rule of_nat_le_iff)
  finally have rat: "1 / ?a + 1 / ?b \<le> 1 / 1000 \<longleftrightarrow> 1000 * (m + n) \<le> m * n" .
  have "1000 < m \<and> 1000 < n" if "1000 * (m + n) \<le> m * n"
  proof -
    have "1000 * m < m * n"
      by (rule order_less_le_trans [OF _ that]) (use True in simp)
    moreover have "1000 * n < m * n"
      by (rule order_less_le_trans [OF _ that]) (use True in simp)
    ultimately have "1000 * m < n * m" "1000 * n < m * n"
      by (simp_all only: mult.commute)
    then show ?thesis
      unfolding mult_less_cancel2 by blast
  qed
  with True rat show ?thesis
    by blast
qed auto

lemmas rounding_bound_rat = rounding_bound_nat [unfolded bound_nat_rat]

lemma scast_pos:
  fixes x :: i64
  assumes "0 < sint x"
  shows "int (unat (scast x :: u128)) = sint x"
proof -
  have "sint x < 2 ^ 128"
    using sint_lt [of x] by (rule order_less_le_trans) simp
  then have "sint x mod 2 ^ 128 = sint x"
    using assms by (intro mod_pos_pos_trivial) simp_all
  then show ?thesis
    by (simp add: scast_eq uint_word_of_int del: of_int_sint)
qed

lemma unat_pos:
  fixes x :: i128
  assumes "0 < sint x"
  shows "int (unat x) = sint x"
proof -
  have "sint x < 2 ^ 128"
    using sint_lt [of x] by (rule order_less_le_trans) simp
  then have "take_bit 128 (sint x) = sint x"
    using assms by (intro take_bit_int_eq_self) simp_all
  then have "uint x = sint x"
    by (simp add: uint_sint)
  then show ?thesis
    by simp
qed

lemma bound_int_rat:
  assumes "int (unat a) = m" and "int (unat b) = n"
  shows "rounding_bound_holds a b \<longleftrightarrow> 0 < m \<and> 0 < n \<and> 1 / of_int m + 1 / of_int n \<le> (1 / 1000 :: rat)"
  unfolding rounding_bound_rat assms [symmetric] of_int_of_nat_eq of_nat_0_less_iff ..

lemma price_forming_i64_rat:
  "price_forming_i64 s t \<longleftrightarrow> 0 < sint s \<and> 0 < sint t \<and>
     1 / of_int (sint s) + 1 / of_int (sint t) \<le> (1 / 1000 :: rat)"
  unfolding price_forming_i64_def
  using bound_int_rat [OF scast_pos scast_pos] by (metis linorder_not_less)

lemma price_forming_i128_rat:
  "price_forming_i128 s t \<longleftrightarrow> 0 < sint s \<and> 0 < sint t \<and>
     1 / of_int (sint s) + 1 / of_int (sint t) \<le> (1 / 1000 :: rat)"
  unfolding price_forming_i128_def
  using bound_int_rat [OF unat_pos unat_pos] by (metis linorder_not_less)

lemma surviving_price_range:
  assumes "dec_laws ops"
  shows "price_survives_column_scale ops price \<longleftrightarrow>
    100 \<le> \<bar>decimal_to_i128 ops price\<bar> \<and>
    \<bar>decimal_to_i128 ops price\<bar> \<le> (10 ^ 24 - 1) * 10 ^ 14"
proof -
  obtain k where k: "decimal_to_i128 ops price = saturating_i128 k"
    "d_round ops price candle_price_scale = of_int k / 10 ^ 14"
    by (rule decimal_to_i128_rounded [OF assms])
  have abs: "\<bar>d_round ops price candle_price_scale\<bar> = of_int \<bar>k\<bar> / 10 ^ 14"
    by (simp add: k(2) abs_divide)
  have "1 / 10 ^ 12 \<le> \<bar>d_round ops price candle_price_scale\<bar> \<longleftrightarrow> of_int 100 \<le> (of_int \<bar>k\<bar> :: rat)"
    unfolding abs by (simp add: field_simps)
  moreover have "\<bar>d_round ops price candle_price_scale\<bar> \<le> of_int candle_column_max_integer \<longleftrightarrow>
      of_int \<bar>k\<bar> \<le> (of_int (candle_column_max_integer * 10 ^ 14) :: rat)"
    unfolding abs by (simp add: field_simps)
  ultimately have "price_survives_column_scale ops price \<longleftrightarrow>
      100 \<le> \<bar>k\<bar> \<and> \<bar>k\<bar> \<le> candle_column_max_integer * 10 ^ 14"
    unfolding of_int_le_iff by (simp add: price_survives_column_scale_def Let_def column_constants [OF assms])
  moreover have "100 \<le> \<bar>k\<bar> \<and> \<bar>k\<bar> \<le> candle_column_max_integer * 10 ^ 14 \<longleftrightarrow>
      100 \<le> \<bar>saturating_i128 k\<bar> \<and> \<bar>saturating_i128 k\<bar> \<le> (10 ^ 24 - 1) * 10 ^ 14"
    by (auto simp: saturating_i128_def candle_column_max_integer_def)
  ultimately show ?thesis
    by (simp add: k(1))
qed

section \<open>Properties\<close>

text \<open>
  C33: The integer test rounding_bound_holds is exactly the real inequality it stands for, 1/a + 1/b <= 1/1000
  with both amounts positive, over all 128-bit inputs including those whose product overflows; price_forming_i64
  and price_forming_i128 are the same test on signed amounts.
\<close>

theorem rounding_bound_is_exact:
  "(rounding_bound_holds a b \<longleftrightarrow> 0 < unat a \<and> 0 < unat b \<and>
      1 / of_nat (unat a) + 1 / of_nat (unat b) \<le> (1 / 1000 :: rat)) \<and>
   (price_forming_i64 c d \<longleftrightarrow> 0 < sint c \<and> 0 < sint d \<and>
      1 / of_int (sint c) + 1 / of_int (sint d) \<le> (1 / 1000 :: rat)) \<and>
   (price_forming_i128 e f \<longleftrightarrow> 0 < sint e \<and> 0 < sint f \<and>
      1 / of_int (sint e) + 1 / of_int (sint f) \<le> (1 / 1000 :: rat))"
  using rounding_bound_rat price_forming_i64_rat price_forming_i128_rat by blast

text \<open>
  A fill that passes price_forming_i128 has a price accurate to 0.1 %: if both integer amounts are the
  roundings of real amounts, the quotient of the real amounts differs from that of the integers by at most a
  thousandth of it.
\<close>

lemma price_forming_error_budget:
  fixes x y :: rat
  assumes "price_forming_i128 amount_in amount_out"
    and "\<bar>x - of_int (sint amount_in)\<bar> \<le> 1 / 2" and "\<bar>y - of_int (sint amount_out)\<bar> \<le> 1 / 2"
  shows "\<bar>y / x - of_int (sint amount_out) / of_int (sint amount_in)\<bar> \<le>
    (1 / 1000) * (of_int (sint amount_out) / of_int (sint amount_in))"
proof -
  define a b :: rat where "a = of_int (sint amount_in)" and "b = of_int (sint amount_out)"
  have pos: "0 < a" "0 < b" and bound: "1 / a + 1 / b \<le> 1 / 1000"
    using assms(1) unfolding price_forming_i128_rat a_def b_def by (simp_all only: of_int_0_less_iff)
  then have ab: "1000 * (a + b) \<le> a * b"
    by (simp add: field_simps)
  then have big: "1000 < a"
  proof -
    have "1000 * b < 1000 * (a + b)"
      using pos by simp
    then have "1000 * b < a * b"
      using ab by (rule order_less_le_trans)
    then show ?thesis
      using pos(2) by (simp only: mult_less_cancel_right_pos)
  qed
  have x: "a - 1 / 2 \<le> x" "x \<le> a + 1 / 2" and y: "b - 1 / 2 \<le> y" "y \<le> b + 1 / 2"
    using assms(2,3) unfolding a_def [symmetric] b_def [symmetric] by (simp_all only: abs_le_iff) linarith+
  have "0 < x" using x big by simp
  have "1000 * (a * y) \<le> 1001 * (b * x)"
  proof -
    have "1000 * (a * y) \<le> 1000 * (a * (b + 1 / 2))"
      using y pos by simp
    also have "\<dots> \<le> 1001 * (b * (a - 1 / 2))"
      using ab pos by (simp add: algebra_simps)
    also have "\<dots> \<le> 1001 * (b * x)"
      using x pos by simp
    finally show ?thesis .
  qed
  moreover have "999 * (b * x) \<le> 1000 * (a * y)"
  proof -
    have "999 * (b * x) \<le> 999 * (b * (a + 1 / 2))"
      using x pos by simp
    also have "\<dots> \<le> 1000 * (a * (b - 1 / 2))"
      using ab pos by (simp add: algebra_simps)
    also have "\<dots> \<le> 1000 * (a * y)"
      using y pos by simp
    finally show ?thesis .
  qed
  ultimately have "y / x \<le> (1001 / 1000) * (b / a)" "(999 / 1000) * (b / a) \<le> y / x"
    using pos \<open>0 < x\<close> by (simp_all add: field_simps)
  then have "\<bar>y / x - b / a\<bar> \<le> (1 / 1000) * (b / a)"
    unfolding abs_le_iff by linarith
  then show ?thesis
    by (simp add: a_def b_def)
qed

text \<open>
  price_survives_column_scale is exactly storability: it holds iff the mantissa decimal_to_i128 sends to
  ClickHouse is at least 100 and at most (10^24 - 1) * 10^14 in absolute value, so a surviving price is neither
  stored as zero nor clamped.
\<close>

lemma surviving_price_is_storable:
  assumes "dec_laws ops"
  shows "price_survives_column_scale ops price \<longleftrightarrow>
    100 \<le> \<bar>decimal_to_i128 ops price\<bar> \<and>
    \<bar>decimal_to_i128 ops price\<bar> \<le> (10 ^ 24 - 1) * 10 ^ 14"
  by (rule surviving_price_range [OF assms])

end
