(* ===== verification/Tick.thy ===== *)
theory Tick
  imports Ledger_Fills Price
begin

text \<open>
  From a fill to a priced, canonically oriented tick (\<open>prices-ingest-core/src/tick.rs\<close>). A result \<open>None\<close> is
  the panic of the decimal division in \<open>compute_price\<close>; the first property shows that no fill the ledger
  filter emits reaches it.
\<close>

record trade_tick =
  tk_ledger_sequence :: u32
  tk_closed_at :: i64
  tk_transaction_index :: u16
  tk_operation_index :: u16
  tk_claim_index :: u16
  tk_base :: asset_identity
  tk_quote :: asset_identity
  tk_price :: rat
  tk_volume_base :: rat
  tk_volume_quote :: rat
  tk_price_forming :: bool

type_synonym lex = "u32 \<times> u16 \<times> u16 \<times> u16"

definition lex_key :: "trade_tick \<Rightarrow> lex" where
  "lex_key t = (tk_ledger_sequence t, tk_transaction_index t, tk_operation_index t, tk_claim_index t)"

datatype priced_from = PricedOffer | PricedAmountRatio

definition canonical_volumes :: "dec_ops \<Rightarrow> raw_trade \<Rightarrow> canonical_pair \<Rightarrow> rat \<times> rat" where
  "canonical_volumes ops trade pair =
     (let sold = stroops_to_decimal ops (rt_amount_sold trade);
          bought = stroops_to_decimal ops (rt_amount_bought trade)
      in if cp_inverted pair then (bought, sold) else (sold, bought))"

text \<open>The one place a fill's price is decided, and the tick built from it.\<close>

definition fill_price :: "dec_ops \<Rightarrow> raw_trade \<Rightarrow> bool \<Rightarrow> (rat \<times> bool \<times> priced_from) option" where
  "fill_price ops trade inverted =
     (let from_offer = (case rt_price_source trade of
            Offer n d \<Rightarrow> if 0 < sint (rt_amount_sold trade) \<and> 0 < sint (rt_amount_bought trade)
              then offer_price ops n d inverted else None
          | AmountRatio \<Rightarrow> None)
      in case from_offer of
           Some price \<Rightarrow> Some (price, True, PricedOffer)
         | None \<Rightarrow> map_option (\<lambda>price. (price,
             price_forming_i64 (rt_amount_sold trade) (rt_amount_bought trade), PricedAmountRatio))
             (compute_price ops (rt_amount_sold trade) (rt_amount_bought trade) inverted))"

definition build_tick :: "dec_ops \<Rightarrow> raw_trade \<Rightarrow> canonical_pair \<Rightarrow> rat \<Rightarrow> bool \<Rightarrow> trade_tick" where
  "build_tick ops trade pair price priced =
     (let (volume_base, volume_quote) = canonical_volumes ops trade pair
      in \<lparr>tk_ledger_sequence = rt_ledger_sequence trade, tk_closed_at = rt_closed_at trade,
          tk_transaction_index = rt_transaction_index trade, tk_operation_index = rt_operation_index trade,
          tk_claim_index = rt_claim_index trade, tk_base = cp_base pair, tk_quote = cp_quote pair,
          tk_price = price, tk_volume_base = volume_base, tk_volume_quote = volume_quote,
          tk_price_forming = (priced \<and> price_survives_column_scale ops price)\<rparr>)"

definition raw_trade_to_tick_with_source ::
  "asset_env \<Rightarrow> dec_ops \<Rightarrow> raw_trade \<Rightarrow> asset_registry \<Rightarrow> ((trade_tick \<times> priced_from) \<times> asset_registry) option" where
  "raw_trade_to_tick_with_source env ops trade reg =
     (let (pair, reg') = canonicalise env (rt_asset_sold trade) (rt_asset_bought trade) reg
      in map_option (\<lambda>(price, priced, priced_from).
           ((build_tick ops trade pair price priced, priced_from), reg'))
           (fill_price ops trade (cp_inverted pair)))"

definition raw_trade_to_tick ::
  "asset_env \<Rightarrow> dec_ops \<Rightarrow> raw_trade \<Rightarrow> asset_registry \<Rightarrow> (trade_tick \<times> asset_registry) option" where
  "raw_trade_to_tick env ops trade reg =
     map_option (\<lambda>((tick, _), reg'). (tick, reg')) (raw_trade_to_tick_with_source env ops trade reg)"

section \<open>Lemmas\<close>

lemma stroops_value: "dec_laws ops \<Longrightarrow> stroops_to_decimal ops x = of_int (sint x) / 10 ^ 7"
  unfolding stroops_to_decimal_def
  using sint_lt [of x] sint_ge [of x] by (intro dec_new) (simp_all add: abs_le_iff)

text \<open>Dividing two stroop amounts never overflows: only a zero divisor panics.\<close>

lemma stroop_division:
  assumes "dec_laws ops" and "b \<noteq> 0"
  shows "d_div ops (stroops_to_decimal ops a) (stroops_to_decimal ops b) \<noteq> None"
proof (rule dec_div_total [OF assms(1)])
  have b: "sint b \<noteq> 0" using assms(2) signed_eq_0_iff [of b, where ?'a = int] by blast
  then show "stroops_to_decimal ops b \<noteq> 0"
    by (simp add: stroops_value [OF assms(1)] del: of_int_sint)
  have "\<bar>of_int (sint a) / of_int (sint b)\<bar> \<le> \<bar>of_int (sint a) :: rat\<bar>"
  proof -
    have "1 \<le> \<bar>of_int (sint b) :: rat\<bar>"
      using b by (simp del: of_int_sint flip: of_int_abs)
    then show ?thesis
      using mult_left_mono [of 1 "\<bar>of_int (sint b) :: rat\<bar>" "\<bar>of_int (sint a) :: rat\<bar>"]
      using b by (simp add: abs_divide divide_le_eq del: of_int_sint)
  qed
  also have "\<dots> \<le> of_int (2 ^ 63)"
    using sint_lt [of a] sint_ge [of a] unfolding of_int_abs [symmetric] of_int_le_iff by simp
  finally show "\<bar>stroops_to_decimal ops a / stroops_to_decimal ops b\<bar> < 2 ^ 96"
    by (simp add: stroops_value [OF assms(1)] del: of_int_sint)
qed

lemma compute_price_total:
  assumes "dec_laws ops" and "sold \<noteq> 0" and "bought \<noteq> 0"
  shows "compute_price ops sold bought inverted \<noteq> None"
  using stroop_division [OF assms(1)] assms(2,3) by (simp add: compute_price_def Let_def)

lemma compute_price_swap: "compute_price ops bought sold (\<not> inverted) = compute_price ops sold bought inverted"
  by (simp add: compute_price_def Let_def)

lemma offer_price_swap: "offer_price ops d n (\<not> inverted) = offer_price ops n d inverted"
  by (auto simp: offer_price_def)

lemma price_forming_swap: "price_forming_i64 b a = price_forming_i64 a b"
  by (auto simp: price_forming_i64_rat add.commute)

text \<open>The same trade told from the other side.\<close>

fun mirror_source :: "price_source \<Rightarrow> price_source" where
  "mirror_source (Offer n d) = Offer d n"
| "mirror_source AmountRatio = AmountRatio"

definition mirror :: "raw_trade \<Rightarrow> raw_trade" where
  "mirror t = t\<lparr>rt_asset_sold := rt_asset_bought t, rt_amount_sold := rt_amount_bought t,
     rt_asset_bought := rt_asset_sold t, rt_amount_bought := rt_amount_sold t,
     rt_price_source := mirror_source (rt_price_source t)\<rparr>"

lemma fill_price_mirror: "fill_price ops (mirror t) (\<not> inverted) = fill_price ops t inverted"
proof (cases "rt_price_source t")
  case (Offer n d)
  then show ?thesis
    using offer_price_swap [of ops d n inverted] compute_price_swap [of ops "rt_amount_bought t" "rt_amount_sold t" inverted]
      price_forming_swap [of "rt_amount_bought t" "rt_amount_sold t"]
    by (auto simp: fill_price_def mirror_def Let_def split: option.split)
next
  case AmountRatio
  then show ?thesis
    using compute_price_swap [of ops "rt_amount_bought t" "rt_amount_sold t" inverted]
      price_forming_swap [of "rt_amount_bought t" "rt_amount_sold t"]
    by (simp add: fill_price_def mirror_def Let_def)
qed

lemma fill_price_total:
  assumes "dec_laws ops" and "rt_amount_sold t \<noteq> 0" and "rt_amount_bought t \<noteq> 0"
  obtains price priced src where "fill_price ops t inverted = Some (price, priced, src)"
    and "priced \<Longrightarrow> 0 < sint (rt_amount_sold t) \<and> 0 < sint (rt_amount_bought t)"
    and "priced \<Longrightarrow> src = PricedOffer \<or> price_forming_i64 (rt_amount_sold t) (rt_amount_bought t)"
proof -
  obtain ratio where ratio: "compute_price ops (rt_amount_sold t) (rt_amount_bought t) inverted = Some ratio"
    using compute_price_total [OF assms] by blast
  have pf: "price_forming_i64 (rt_amount_sold t) (rt_amount_bought t) \<Longrightarrow>
      0 < sint (rt_amount_sold t) \<and> 0 < sint (rt_amount_bought t)"
    by (simp add: price_forming_i64_def split: if_splits)
  show ?thesis
  proof (cases "fill_price ops t inverted")
    case None
    then show ?thesis
      using ratio by (auto simp: fill_price_def Let_def split: option.splits)
  next
    case (Some r)
    then show ?thesis
      using ratio pf that by (cases r) (auto simp: fill_price_def Let_def split: option.splits price_source.splits if_splits)
  qed
qed

lemma build_tick_fields:
  "lex_key (build_tick ops t pair price priced) =
     (rt_ledger_sequence t, rt_transaction_index t, rt_operation_index t, rt_claim_index t)"
  "tk_closed_at (build_tick ops t pair price priced) = rt_closed_at t"
  "tk_base (build_tick ops t pair price priced) = cp_base pair"
  "tk_quote (build_tick ops t pair price priced) = cp_quote pair"
  "tk_price (build_tick ops t pair price priced) = price"
  "tk_price_forming (build_tick ops t pair price priced) \<longleftrightarrow> priced \<and> price_survives_column_scale ops price"
  by (simp_all add: build_tick_def lex_key_def split: prod.split)

section \<open>Properties\<close>

text \<open>
  Every fill extract_trades emits becomes a tick without a panic; the tick keeps the fill's key and time
  and its two assets, and if it forms a price then both amounts are positive, the price fits the candle column,
  and it came from the offer or met the rounding bound.
\<close>

lemma every_emitted_fill_becomes_a_tick:
  assumes "dec_laws ops" and "trade \<in> set (fst (extract_trades ledger totals))"
  shows "\<exists>tick src reg'. raw_trade_to_tick_with_source env ops trade reg = Some ((tick, src), reg') \<and>
    lex_key tick = (rt_ledger_sequence trade, rt_transaction_index trade, rt_operation_index trade, rt_claim_index trade) \<and>
    tk_closed_at tick = rt_closed_at trade \<and>
    {tk_base tick, tk_quote tick} = {rt_asset_sold trade, rt_asset_bought trade} \<and>
    (tk_price_forming tick \<longrightarrow>
      0 < sint (rt_amount_sold trade) \<and> 0 < sint (rt_amount_bought trade) \<and>
      100 \<le> \<bar>decimal_to_i128 ops (tk_price tick)\<bar> \<and>
      \<bar>decimal_to_i128 ops (tk_price tick)\<bar> \<le> (10 ^ 24 - 1) * 10 ^ 14 \<and>
      (src = PricedOffer \<or> price_forming_i64 (rt_amount_sold trade) (rt_amount_bought trade)))"
proof -
  have nz: "rt_amount_sold trade \<noteq> 0" "rt_amount_bought trade \<noteq> 0"
    using extracted_amounts_nonzero [OF assms(2)] by auto
  let ?pair = "orient (rt_asset_sold trade) (rt_asset_bought trade)"
  obtain price priced src where fp: "fill_price ops trade (cp_inverted ?pair) = Some (price, priced, src)"
    and "priced \<Longrightarrow> 0 < sint (rt_amount_sold trade) \<and> 0 < sint (rt_amount_bought trade)"
    and "priced \<Longrightarrow> src = PricedOffer \<or> price_forming_i64 (rt_amount_sold trade) (rt_amount_bought trade)"
    using fill_price_total [OF assms(1) nz] by blast
  moreover obtain reg' where "raw_trade_to_tick_with_source env ops trade reg =
      Some ((build_tick ops trade ?pair price priced, src), reg')"
    using fp by (simp add: raw_trade_to_tick_with_source_def canonicalise_def Let_def)
  ultimately show ?thesis
    using orient_sides [of "rt_asset_sold trade" "rt_asset_bought trade"] surviving_price_range [OF assms(1), of price]
    by (auto simp: build_tick_fields)
qed

text \<open>
  A trade read from either side is the same tick: exchanging sold and bought (and inverting the offer
  price) leaves price, volumes, base, quote and the price-forming flag unchanged.
\<close>

lemma tick_is_direction_free:
  assumes "rt_asset_sold trade \<noteq> rt_asset_bought trade"
    and "key_clean (rt_asset_sold trade)" and "key_clean (rt_asset_bought trade)"
  shows "map_option fst (raw_trade_to_tick_with_source env ops (mirror trade) reg) =
    map_option fst (raw_trade_to_tick_with_source env ops trade reg)"
proof -
  let ?p = "orient (rt_asset_sold trade) (rt_asset_bought trade)"
  let ?q = "orient (rt_asset_bought trade) (rt_asset_sold trade)"
  have q: "cp_base ?q = cp_base ?p" "cp_quote ?q = cp_quote ?p" "cp_inverted ?q \<longleftrightarrow> \<not> cp_inverted ?p"
    using orient_swap [OF assms] by auto
  have "build_tick ops (mirror trade) ?q = build_tick ops trade ?p"
    using q by (intro ext) (auto simp: build_tick_def canonical_volumes_def mirror_def Let_def)
  moreover have "fill_price ops (mirror trade) (cp_inverted ?q) = fill_price ops trade (cp_inverted ?p)"
    using fill_price_mirror [of ops trade "cp_inverted ?p"] q(3) by simp
  ultimately show ?thesis
    by (cases "fill_price ops trade (cp_inverted ?p)")
      (auto simp: raw_trade_to_tick_with_source_def canonicalise_def Let_def mirror_def)
qed

definition sample_trade :: raw_trade where
  "sample_trade = \<lparr>rt_ledger_sequence = 100, rt_closed_at = 600, rt_transaction_index = 0, rt_operation_index = 1,
     rt_claim_index = 0, rt_asset_sold = Native, rt_amount_sold = 5000, rt_asset_bought = Credit ''ABC'' ''X'',
     rt_amount_bought = 4000, rt_price_source = AmountRatio\<rparr>"

end
