(* ===== verification/Soroban.thy ===== *)
theory Soroban
  imports Event_Json Registry_IO Tick
begin

text \<open>
  Soroban events to AMM ticks and oracle samples (\<open>prices-ingest-core/src/soroban.rs\<close>): factory events
  grow the registries, pool events are grouped by contract per transaction, and every group is dispatched,
  or counted where its trades are dropped.

  Parameters: \<open>env\<close> and \<open>ops\<close> as before; \<open>extract_events\<close> is the \<open>xdr_parser\<close> crate's decoder, from a
  transaction's meta to its events; \<open>iter\<close> is the order a \<open>HashMap\<close> hands out its entries. A result \<open>None\<close>
  is a panic. The contract and error texts that are only logged are not modelled, and a record keeps the
  topics themselves where the code keeps their debug rendering.
\<close>

section \<open>State\<close>

record oracle_sample =
  os_timestamp :: u32
  os_identity :: "asset_identity option"
  os_oracle_name :: string
  os_price_usd :: i128
  os_raw_data :: string

record unresolved_swap =
  us_contract_id :: string
  us_ledger_sequence :: u32
  us_swap_count :: u32
  us_sample_topics :: "tagged list"

record ledger_soroban =
  ls_amm_ticks :: "(string \<times> trade_tick) list"
  ls_oracle :: "oracle_sample list"
  ls_unresolved :: "unresolved_swap list"
  ls_dispatch_errors :: "(string \<times> u32) list"
  ls_unregistered_events :: "(string \<times> u32) list"
  ls_unregistered_contracts :: "string list"

definition ledger_soroban_default :: ledger_soroban where
  "ledger_soroban_default = \<lparr>ls_amm_ticks = [], ls_oracle = [], ls_unresolved = [], ls_dispatch_errors = [],
     ls_unregistered_events = [], ls_unregistered_contracts = []\<rparr>"

definition amm_amount_scale :: nat where
  "amm_amount_scale = 7"

text \<open>An event as the \<open>xdr_parser\<close> crate gives it, and one read back from an event store.\<close>

record extracted_event =
  xe_diagnostic :: bool
  xe_contract_id :: "string option"
  xe_event_index :: u32
  xe_created_at :: i64
  xe_topics :: json
  xe_data :: json

record raw_soroban_event =
  re_contract_id :: string
  re_transaction_id :: string
  re_transaction_index :: u16
  re_ledger_sequence :: u32
  re_event_index :: u32
  re_topics :: json
  re_data :: json

section \<open>Learning pools\<close>

definition address_value :: "json \<Rightarrow> string option" where
  "address_value v =
     Option.bind (as_object v) (\<lambda>obj.
     Option.bind (Option.bind (map_of obj ''type'') json_str) (\<lambda>ty.
     if ty = ''address'' then Option.bind (map_of obj ''value'') json_str else None))"

definition find_map :: "('a \<Rightarrow> 'b option) \<Rightarrow> 'a list \<Rightarrow> 'b option" where
  "find_map f xs = (case List.map_filter f xs of [] \<Rightarrow> None | y # _ \<Rightarrow> Some y)"

definition first_address :: "json \<Rightarrow> string option" where
  "first_address v =
     (case json_to_tagged v of
        TVec items \<Rightarrow> find_map as_address items
      | TAddress a \<Rightarrow> Some a
      | _ \<Rightarrow> None)"

definition map_address :: "(tagged \<times> tagged) list \<Rightarrow> string \<Rightarrow> string option" where
  "map_address m key = Option.bind (map_get m key) as_address"

definition learn_pair :: "(tagged \<times> tagged) list \<Rightarrow> registries \<Rightarrow> registries" where
  "learn_pair m reg =
     (case (map_address m ''pair'', map_address m ''token_0'', map_address m ''token_1'') of
        (Some pair, Some t0, Some t1) \<Rightarrow>
          reg\<lparr>reg_soroswap := pair_register pair t0 t1 (reg_soroswap reg),
              reg_venue := AList.update pair Soroswap (reg_venue reg)\<rparr>
      | _ \<Rightarrow> reg)"

definition learn_clmm :: "(tagged \<times> tagged) list \<Rightarrow> registries \<Rightarrow> registries" where
  "learn_clmm m reg =
     (case (map_address m ''pool_address'', map_address m ''token0'', map_address m ''token1'') of
        (Some pool, Some t0, Some t1) \<Rightarrow>
          reg\<lparr>reg_sushiswap := pair_register pool t0 t1 (reg_sushiswap reg),
              reg_venue := AList.update pool Sushiswap (reg_venue reg)\<rparr>
      | _ \<Rightarrow> reg)"

definition learn_factory :: "json \<Rightarrow> json \<Rightarrow> registries \<Rightarrow> registries" where
  "learn_factory topics data reg =
     (let sig0 = signature topics; sig1 = topic_symbol topics 1 in
      if sig0 = Some ''add_pool'' then
        (case first_address data of
           Some pool \<Rightarrow> reg\<lparr>reg_venue := AList.update pool Aquarius (reg_venue reg)\<rparr>
         | None \<Rightarrow> reg)
      else if sig0 = Some ''create'' then
        (if sig1 = Some ''liquidity_pool'' then
           (case address_value data of
              Some pool \<Rightarrow> reg\<lparr>reg_venue := AList.update pool Phoenix (reg_venue reg),
                reg_phoenix := phoenix_register pool pool_type_xyk (reg_phoenix reg)\<rparr>
            | None \<Rightarrow> reg)
         else reg)
      else if sig1 = Some ''new_pair'' then
        (case json_to_tagged data of TMap m \<Rightarrow> learn_pair m reg | _ \<Rightarrow> reg)
      else if sig0 = Some ''pool_created'' then
        (case json_to_tagged data of TMap m \<Rightarrow> learn_clmm m reg | _ \<Rightarrow> reg)
      else reg)"

section \<open>Event shapes\<close>

definition topic_str :: "event_row \<Rightarrow> nat \<Rightarrow> string option" where
  "topic_str row i =
     (case get_at (ev_topics row) i of
        Some (TSymbol s) \<Rightarrow> Some s
      | Some (TString s) \<Rightarrow> Some s
      | _ \<Rightarrow> None)"

definition has_data_key :: "event_row \<Rightarrow> string \<Rightarrow> bool" where
  "has_data_key row key = (case ev_data row of TMap m \<Rightarrow> list_ex (\<lambda>(k, _). as_str k = Some key) m | _ \<Rightarrow> False)"

definition is_aquarius_router_swap :: "event_row \<Rightarrow> bool" where
  "is_aquarius_router_swap row \<longleftrightarrow> topic_as_str row 0 = Some ''swap'' \<and>
     (case get_at (ev_topics row) 1 of Some (TVec _) \<Rightarrow> True | _ \<Rightarrow> False)"

definition unregistered_pool_venue :: "event_row \<Rightarrow> venue option" where
  "unregistered_pool_venue row =
     Option.bind (topic_as_str row 0) (\<lambda>t0.
       let is_address = (\<lambda>i. topic_as_address row i \<noteq> None) in
       if t0 = ''trade'' \<and> is_address 1 \<and> is_address 2 then Some Aquarius
       else if t0 = ''SoroswapPair'' \<and> topic_str row 1 = Some ''swap'' then Some Soroswap
       else if t0 = ''swap'' \<and> topic_str row 1 = Some ''sell_token'' then Some Phoenix
       else if t0 = ''swap'' \<and> has_data_key row ''amount0'' \<and> has_data_key row ''amount1'' then Some Sushiswap
       else if t0 = ''POOL'' \<and> is_pool_swap row then Some Comet
       else None)"

section \<open>Ticks\<close>

definition resolve_amm_token :: "string \<Rightarrow> asset_registry \<Rightarrow> asset_identity" where
  "resolve_amm_token contract_addr assets =
     (case resolve_sac assets contract_addr of Some identity \<Rightarrow> identity | None \<Rightarrow> Contract contract_addr)"

definition amm_trade_to_tick ::
  "asset_env \<Rightarrow> dec_ops \<Rightarrow> trade_row \<Rightarrow> u16 \<Rightarrow> i64 \<Rightarrow> asset_registry \<Rightarrow>
   (trade_tick option \<times> asset_registry) option" where
  "amm_trade_to_tick env ops trade transaction_index closed_at assets =
     (let sold = resolve_amm_token (tr_token_in trade) assets;
          bought = resolve_amm_token (tr_token_out trade) assets
      in if sold = bought then Some (None, assets)
         else
           let (pair, assets) = canonicalise env sold bought assets;
               bound_holds = price_forming_i128 (tr_amount_in trade) (tr_amount_out trade)
           in case (d_try_i128 ops (sint (tr_amount_in trade)) amm_amount_scale,
                    d_try_i128 ops (sint (tr_amount_out trade)) amm_amount_scale) of
                (Some amount_in, Some amount_out) \<Rightarrow>
                  if amount_in = 0 \<or> amount_out = 0 then Some (None, assets)
                  else
                    let (quotient, volume_base, volume_quote) =
                      (if cp_inverted pair then (d_div ops amount_in amount_out, amount_out, amount_in)
                       else (d_div ops amount_out amount_in, amount_in, amount_out))
                    in map_option (\<lambda>price.
                         (Some \<lparr>tk_ledger_sequence = ucast (tr_ledger_sequence trade), tk_closed_at = closed_at,
                            tk_transaction_index = transaction_index,
                            tk_operation_index = ucast (tr_first_event_index trade AND 0xFFFF), tk_claim_index = 0,
                            tk_base = cp_base pair, tk_quote = cp_quote pair, tk_price = price,
                            tk_volume_base = volume_base, tk_volume_quote = volume_quote,
                            tk_price_forming = (bound_holds \<and> price_survives_column_scale ops price)\<rparr>, assets)) quotient
              | _ \<Rightarrow> Some (None, assets))"

definition unresolved_from_swaps :: "string \<Rightarrow> event_row list \<Rightarrow> u32 \<Rightarrow> unresolved_swap option" where
  "unresolved_from_swaps c swaps ledger_seq =
     (case swaps of
        [] \<Rightarrow> None
      | first # _ \<Rightarrow> Some \<lparr>us_contract_id = c, us_ledger_sequence = ledger_seq,
          us_swap_count = of_nat (length swaps), us_sample_topics = ev_topics first\<rparr>)"

definition pool_swaps :: "event_row list \<Rightarrow> event_row list" where
  "pool_swaps rows =
     filter (\<lambda>r. \<not> is_aquarius_router_swap r)
       (filter (\<lambda>r. topic_as_str r 0 = Some ''swap'' \<or> is_pool_swap r) rows)"

text \<open>The tally by source: the first entry of a source is incremented, a new source is pushed.\<close>

fun bump :: "string \<Rightarrow> (string \<times> u32) list \<Rightarrow> (string \<times> u32) list" where
  "bump source [] = [(source, 1)]"
| "bump source ((s, n) # rest) = (if s = source then (s, n + 1) # rest else (s, n) # bump source rest)"

definition unregistered_by_venue :: "event_row list \<Rightarrow> (string \<times> u32) list" where
  "unregistered_by_venue rows = fold (\<lambda>v. bump (as_source v)) (List.map_filter unregistered_pool_venue rows) []"

definition push_unresolved :: "unresolved_swap option \<Rightarrow> ledger_soroban \<Rightarrow> ledger_soroban" where
  "push_unresolved rec out = (case rec of Some r \<Rightarrow> out\<lparr>ls_unresolved := ls_unresolved out @ [r]\<rparr> | None \<Rightarrow> out)"

definition classify_unknown :: "string \<Rightarrow> event_row list \<Rightarrow> u32 \<Rightarrow> ledger_soroban \<Rightarrow> ledger_soroban" where
  "classify_unknown c rows ledger_seq out =
     (let by_venue = unregistered_by_venue rows;
          out = (if by_venue = [] then out
                 else out\<lparr>ls_unregistered_events := ls_unregistered_events out @ by_venue,
                   ls_unregistered_contracts := ls_unregistered_contracts out @ [c]\<rparr>)
      in push_unresolved (unresolved_from_swaps c (pool_swaps rows) ledger_seq) out)"

definition push_trade ::
  "asset_env \<Rightarrow> dec_ops \<Rightarrow> u16 \<Rightarrow> i64 \<Rightarrow> string \<Rightarrow> trade_row \<Rightarrow> asset_registry \<times> ledger_soroban \<Rightarrow>
   (asset_registry \<times> ledger_soroban) option" where
  "push_trade env ops transaction_index closed_at source trade = (\<lambda>(assets, out).
     map_option (\<lambda>(tick, assets).
       (assets, (case tick of
          Some t \<Rightarrow> out\<lparr>ls_amm_ticks := ls_amm_ticks out @ [(source, t)]\<rparr>
        | None \<Rightarrow> out)))
       (amm_trade_to_tick env ops trade transaction_index closed_at assets))"

definition pair_unresolved :: "venue \<Rightarrow> string \<Rightarrow> registries \<Rightarrow> bool" where
  "pair_unresolved venue c reg =
     (case venue of
        Soroswap \<Rightarrow> \<not> pair_contains (reg_soroswap reg) c
      | Sushiswap \<Rightarrow> \<not> pair_contains (reg_sushiswap reg) c
      | _ \<Rightarrow> False)"

definition classify_group ::
  "asset_env \<Rightarrow> dec_ops \<Rightarrow> u16 \<Rightarrow> registries \<Rightarrow> u32 \<Rightarrow> i64 \<Rightarrow> string \<times> event_row list \<Rightarrow>
   asset_registry \<times> ledger_soroban \<Rightarrow> (asset_registry \<times> ledger_soroban) option" where
  "classify_group env ops transaction_index reg ledger_seq closed_at = (\<lambda>(c, rows) (assets, out).
     (let swaps = pool_swaps rows in
      case map_of (reg_venue reg) c of
        None \<Rightarrow> Some (assets, classify_unknown c rows ledger_seq out)
      | Some venue \<Rightarrow>
          let source = as_source venue;
              dispatched = (case dispatch_with reg rows of
                  Inr trades \<Rightarrow>
                    fold_opt (push_trade env ops transaction_index closed_at source) trades (assets, out)
                | Inl _ \<Rightarrow> Some (assets, if swaps = [] then out
                    else out\<lparr>ls_dispatch_errors := ls_dispatch_errors out @ [(source, of_nat (length swaps))]\<rparr>))
          in map_option (\<lambda>(assets, out). (assets,
               if pair_unresolved venue c reg
               then push_unresolved (unresolved_from_swaps c swaps ledger_seq) out else out)) dispatched))"

definition classify_amm_groups ::
  "asset_env \<Rightarrow> dec_ops \<Rightarrow> (string \<times> event_row list) list \<Rightarrow> u16 \<Rightarrow> registries \<Rightarrow> u32 \<Rightarrow> i64 \<Rightarrow>
   asset_registry \<times> ledger_soroban \<Rightarrow> (asset_registry \<times> ledger_soroban) option" where
  "classify_amm_groups env ops groups transaction_index reg ledger_seq closed_at =
     fold_opt (classify_group env ops transaction_index reg ledger_seq closed_at) groups"

section \<open>Oracle events\<close>

definition reflector_key_to_identity :: "string \<Rightarrow> asset_identity option" where
  "reflector_key_to_identity key =
     (if key = ''XLM'' \<or> key = ''native'' then Some Native
      else if key = ''USDC'' then Some usdc
      else None)"

text \<open>\<open>created_at.max(0) as u64\<close>.\<close>

definition non_negative :: "i64 \<Rightarrow> u64" where
  "non_negative x = (if sint x < 0 then 0 else x)"

definition reflector_timestamp :: "extracted_event \<Rightarrow> u32" where
  "reflector_timestamp ev =
     (let given = Option.bind (as_array (xe_topics ev)) (\<lambda>ts. Option.bind (get_at ts 2) (\<lambda>t.
            Option.bind (as_object t) (\<lambda>obj. Option.bind (map_of obj ''value'') as_u64)));
          ts_ms = (case given of Some ms \<Rightarrow> ms | None \<Rightarrow> non_negative (xe_created_at ev) * 1000)
      in ucast (ts_ms div 1000))"

definition reflector_entry ::
  "asset_env \<Rightarrow> u32 \<Rightarrow> tagged \<Rightarrow> asset_registry \<times> ledger_soroban \<Rightarrow> asset_registry \<times> ledger_soroban" where
  "reflector_entry env timestamp entry = (\<lambda>(assets, out).
     (case entry of
        TVec (k # p # _) \<Rightarrow>
          (case (as_str k, as_i128 p) of
             (Some key, Some price) \<Rightarrow>
               (case reflector_key_to_identity key of
                  Some identity \<Rightarrow>
                    (snd (intern env identity assets),
                     out\<lparr>ls_oracle := ls_oracle out @
                       [\<lparr>os_timestamp = timestamp, os_identity = Some identity, os_oracle_name = ''reflector'',
                         os_price_usd = price,
                         os_raw_data = [CHR ''{'', CHR 0x22] @ ''asset'' @ [CHR 0x22, CHR '':'', CHR 0x22] @ key @
                           [CHR 0x22, CHR ''}'']\<rparr>]\<rparr>)
                | None \<Rightarrow> (assets, out))
           | _ \<Rightarrow> (assets, out))
      | _ \<Rightarrow> (assets, out)))"

definition decode_reflector ::
  "asset_env \<Rightarrow> extracted_event \<Rightarrow> asset_registry \<times> ledger_soroban \<Rightarrow> asset_registry \<times> ledger_soroban" where
  "decode_reflector env ev st =
     (case json_to_tagged (xe_data ev) of
        TMap m \<Rightarrow>
          (case map_get m ''update_data'' of
             Some (TVec entries) \<Rightarrow> fold (reflector_entry env (reflector_timestamp ev)) entries st
           | _ \<Rightarrow> st)
      | _ \<Rightarrow> st)"

definition redstone_sample :: "u32 \<Rightarrow> string \<Rightarrow> oracle_sample" where
  "redstone_sample timestamp raw_data = \<lparr>os_timestamp = timestamp, os_identity = None,
     os_oracle_name = ''redstone'', os_price_usd = 0, os_raw_data = raw_data\<rparr>"

definition decode_redstone :: "extracted_event \<Rightarrow> ledger_soroban \<Rightarrow> ledger_soroban" where
  "decode_redstone ev out =
     (let raw = str_or_empty (Option.bind (as_object (xe_data ev)) (\<lambda>obj. map_of obj ''value''))
      in out\<lparr>ls_oracle := ls_oracle out @ [redstone_sample (ucast (non_negative (xe_created_at ev))) raw]\<rparr>)"

section \<open>Ledgers\<close>

text \<open>\<open>entry(contract).or_default().push(row)\<close>.\<close>

definition push_row :: "string \<Rightarrow> event_row \<Rightarrow> (string, event_row list) hmap \<Rightarrow> (string, event_row list) hmap" where
  "push_row c row groups =
     AList.update c ((case map_of groups c of Some rows \<Rightarrow> rows | None \<Rightarrow> []) @ [row]) groups"

record soroban_state =
  ss_registries :: registries
  ss_assets :: asset_registry
  ss_out :: ledger_soroban

definition event_step ::
  "asset_env \<Rightarrow> string \<Rightarrow> u32 \<Rightarrow> extracted_event \<Rightarrow> soroban_state \<times> (string, event_row list) hmap \<Rightarrow>
   soroban_state \<times> (string, event_row list) hmap" where
  "event_step env tx_id ledger_seq ev = (\<lambda>(st, groups).
     (if xe_diagnostic ev then (st, groups)
      else case xe_contract_id ev of
        None \<Rightarrow> (st, groups)
      | Some c \<Rightarrow>
          if signature (xe_topics ev) = Some ''REFLECTOR'' then
            let (assets, out) = decode_reflector env ev (ss_assets st, ss_out st)
            in (st\<lparr>ss_assets := assets, ss_out := out\<rparr>, groups)
          else if signature (xe_topics ev) = Some ''REDSTONE'' then
            (st\<lparr>ss_out := decode_redstone ev (ss_out st)\<rparr>, groups)
          else
            (st\<lparr>ss_registries := learn_factory (xe_topics ev) (xe_data ev) (ss_registries st)\<rparr>,
             push_row c \<lparr>ev_contract_id = c, ev_transaction_id = tx_id, ev_ledger_sequence = ucast ledger_seq,
               ev_event_index = xe_event_index ev, ev_topics = topics_to_tagged (xe_topics ev),
               ev_data = json_to_tagged (xe_data ev)\<rparr> groups)))"

definition transaction_soroban ::
  "asset_env \<Rightarrow> dec_ops \<Rightarrow> ((string, event_row list) hmap \<Rightarrow> (string \<times> event_row list) list) \<Rightarrow>
   (transaction_meta \<Rightarrow> string \<Rightarrow> u32 \<Rightarrow> i64 \<Rightarrow> extracted_event list) \<Rightarrow> (nat \<Rightarrow> string) \<Rightarrow>
   u32 \<Rightarrow> i64 \<Rightarrow> nat \<times> transaction_meta \<Rightarrow> soroban_state \<Rightarrow> soroban_state option" where
  "transaction_soroban env ops iter extract_events tx_id_of ledger_seq closed_at = (\<lambda>(tx_index, tx_meta) st.
     (let tx_id = tx_id_of tx_index;
          events = extract_events tx_meta tx_id ledger_seq closed_at;
          (st, groups) = fold (event_step env tx_id ledger_seq) events (st, [])
      in map_option (\<lambda>(assets, out). st\<lparr>ss_assets := assets, ss_out := out\<rparr>)
           (classify_amm_groups env ops (iter groups) (of_nat tx_index) (ss_registries st) ledger_seq closed_at
             (ss_assets st, ss_out st))))"

text \<open>A transaction id is \<open>ledger:index\<close>.\<close>

definition transaction_id :: "u32 \<Rightarrow> nat \<Rightarrow> string" where
  "transaction_id ledger_seq tx_index = show_nat (unat ledger_seq) @ '':'' @ show_nat tx_index"

definition collect_tx_metas :: "ledger_close_meta \<Rightarrow> transaction_meta list" where
  "collect_tx_metas ledger = map tp_meta (lb_tx_processing (lcm_contents ledger))"

definition process_ledger ::
  "asset_env \<Rightarrow> dec_ops \<Rightarrow> ((string, event_row list) hmap \<Rightarrow> (string \<times> event_row list) list) \<Rightarrow>
   (transaction_meta \<Rightarrow> string \<Rightarrow> u32 \<Rightarrow> i64 \<Rightarrow> extracted_event list) \<Rightarrow> ledger_close_meta \<Rightarrow> registries \<Rightarrow>
   asset_registry \<Rightarrow> soroban_state option" where
  "process_ledger env ops iter extract_events ledger reg assets =
     (let (ledger_seq, closed_at) = ledger_header ledger
      in fold_opt (transaction_soroban env ops iter extract_events (transaction_id ledger_seq) ledger_seq closed_at)
           (enumerate 0 (collect_tx_metas ledger))
           \<lparr>ss_registries = reg, ss_assets = assets, ss_out = ledger_soroban_default\<rparr>)"

section \<open>Events read back from a store\<close>

definition row_step ::
  "raw_soroban_event \<Rightarrow> registries \<times> (string, event_row list) hmap \<Rightarrow> registries \<times> (string, event_row list) hmap" where
  "row_step ev = (\<lambda>(reg, groups).
     (if signature (re_topics ev) = Some ''REFLECTOR'' \<or> signature (re_topics ev) = Some ''REDSTONE'' then (reg, groups)
      else (learn_factory (re_topics ev) (re_data ev) reg,
        push_row (re_contract_id ev) \<lparr>ev_contract_id = re_contract_id ev, ev_transaction_id = re_transaction_id ev,
          ev_ledger_sequence = ucast (re_ledger_sequence ev), ev_event_index = re_event_index ev,
          ev_topics = topics_to_tagged (re_topics ev), ev_data = json_to_tagged (re_data ev)\<rparr> groups)))"

function process_soroban_event_rows ::
  "asset_env \<Rightarrow> dec_ops \<Rightarrow> ((string, event_row list) hmap \<Rightarrow> (string \<times> event_row list) list) \<Rightarrow>
   u32 \<Rightarrow> i64 \<Rightarrow> raw_soroban_event list \<Rightarrow> soroban_state \<Rightarrow> soroban_state option" where
  "process_soroban_event_rows env ops iter ledger_seq closed_at [] st = Some st"
| "process_soroban_event_rows env ops iter ledger_seq closed_at (ev # evs) st =
     (let same = (\<lambda>e. re_transaction_id e = re_transaction_id ev);
          (reg, groups) = fold row_step (ev # takeWhile same evs) (ss_registries st, [])
      in Option.bind
           (classify_amm_groups env ops (iter groups) (re_transaction_index ev) reg ledger_seq closed_at
             (ss_assets st, ss_out st))
           (\<lambda>(assets, out). process_soroban_event_rows env ops iter ledger_seq closed_at (dropWhile same evs)
              (st\<lparr>ss_registries := reg, ss_assets := assets, ss_out := out\<rparr>)))"
  by pat_completeness auto
termination
  by (relation "measure (\<lambda>(_, _, _, _, _, evs, _). length evs)") (auto simp: le_imp_less_Suc length_dropWhile_le)

declare process_soroban_event_rows.simps [simp del]

section \<open>One trade\<close>

text \<open>The tick of a trade, given how contract addresses resolve: what \<open>amm_trade_to_tick\<close> computes without the registry.\<close>

definition amm_tick ::
  "dec_ops \<Rightarrow> (string \<Rightarrow> asset_identity) \<Rightarrow> u16 \<Rightarrow> i64 \<Rightarrow> trade_row \<Rightarrow> trade_tick option option" where
  "amm_tick ops resolve transaction_index closed_at trade =
     (let sold = resolve (tr_token_in trade); bought = resolve (tr_token_out trade); pair = orient sold bought
      in if sold = bought then Some None
         else case (d_try_i128 ops (sint (tr_amount_in trade)) amm_amount_scale,
                    d_try_i128 ops (sint (tr_amount_out trade)) amm_amount_scale) of
                (Some a, Some b) \<Rightarrow>
                  if a = 0 \<or> b = 0 then Some None
                  else map_option (\<lambda>price. Some
                    \<lparr>tk_ledger_sequence = ucast (tr_ledger_sequence trade), tk_closed_at = closed_at,
                     tk_transaction_index = transaction_index,
                     tk_operation_index = ucast (tr_first_event_index trade AND 0xFFFF), tk_claim_index = 0,
                     tk_base = cp_base pair, tk_quote = cp_quote pair, tk_price = price,
                     tk_volume_base = (if cp_inverted pair then b else a),
                     tk_volume_quote = (if cp_inverted pair then a else b),
                     tk_price_forming = (price_forming_i128 (tr_amount_in trade) (tr_amount_out trade) \<and>
                       price_survives_column_scale ops price)\<rparr>)
                    (if cp_inverted pair then d_div ops a b else d_div ops b a)
              | _ \<Rightarrow> Some None)"

definition trade_assets :: "asset_env \<Rightarrow> trade_row \<Rightarrow> asset_registry \<Rightarrow> asset_registry" where
  "trade_assets env trade assets =
     (let sold = resolve_amm_token (tr_token_in trade) assets; bought = resolve_amm_token (tr_token_out trade) assets
      in if sold = bought then assets else snd (canonicalise env sold bought assets))"

lemma amm_trade_to_tick_alt:
  "amm_trade_to_tick env ops trade tx ct assets =
     map_option (\<lambda>t. (t, trade_assets env trade assets))
       (amm_tick ops (\<lambda>c. resolve_amm_token c assets) tx ct trade)"
  by (auto simp: amm_trade_to_tick_def amm_tick_def trade_assets_def canonicalise_def Let_def
      split: option.split) (simp_all add: option.map_comp comp_def)

lemma sint_quotient:
  fixes a b :: i128
  assumes "\<bar>sint a\<bar> < 2 ^ 96" and "sint b \<noteq> 0"
  shows "\<bar>of_int (sint a) / of_int (sint b)\<bar> < (2 ^ 96 :: rat)"
proof -
  have "1 \<le> \<bar>of_int (sint b) :: rat\<bar>"
    using assms(2) by (simp del: of_int_sint flip: of_int_abs)
  then have "\<bar>of_int (sint a) / of_int (sint b)\<bar> \<le> \<bar>of_int (sint a) :: rat\<bar>"
    using mult_left_mono [of 1 "\<bar>of_int (sint b) :: rat\<bar>" "\<bar>of_int (sint a) :: rat\<bar>"] assms(2)
    by (simp add: abs_divide divide_le_eq del: of_int_sint)
  also have "\<dots> < of_int (2 ^ 96)"
    using assms(1) unfolding of_int_abs [symmetric] of_int_less_iff .
  finally show ?thesis by simp
qed

lemma amm_tick_total:
  assumes "dec_laws ops"
  shows "amm_tick ops resolve tx ct trade \<noteq> None"
proof -
  have div: "d_div ops (of_int (sint a) / 10 ^ 7) (of_int (sint b) / 10 ^ 7) \<noteq> None"
    if "\<bar>sint a\<bar> < 2 ^ 96" "sint b \<noteq> 0" for a b :: i128
    using that sint_quotient [OF that] by (intro dec_div_total [OF assms]) (simp_all del: of_int_sint)
  show ?thesis
    using div [of "tr_amount_in trade" "tr_amount_out trade"] div [of "tr_amount_out trade" "tr_amount_in trade"]
    by (auto simp: amm_tick_def Let_def amm_amount_scale_def dec_try_i128 [OF assms] simp del: of_int_sint)
qed

section \<open>The registry of SAC addresses is stable under AMM trades\<close>

definition sac_sound :: "asset_env \<Rightarrow> asset_registry \<Rightarrow> bool" where
  "sac_sound env assets \<longleftrightarrow>
     (\<forall>addr x. map_of (ar_sac_index assets) addr = Some x \<longrightarrow> sac_address_of env x = Some addr)"

lemma registry_ok_sound: "registry_ok env loaded assets \<Longrightarrow> sac_sound env assets"
  by (auto simp: registry_ok_def sac_index_ok_def sac_sound_def)

lemma intern_resolved_index:
  assumes "sac_sound env assets" and "x = resolve_amm_token c assets0"
    and "ar_sac_index assets0 = ar_sac_index assets"
  shows "ar_sac_index (snd (intern env x assets)) = ar_sac_index assets"
proof (cases "map_of (ar_sac_index assets) c")
  case None
  then have "sac_address_of env x = None"
    using assms by (simp add: resolve_amm_token_def resolve_sac_def sac_address_of_def)
  then show ?thesis
    by (simp add: intern_def register_sac_def)
next
  case (Some y)
  then have "x = y" "sac_address_of env y = Some c"
    using assms by (auto simp: resolve_amm_token_def resolve_sac_def sac_sound_def)
  then show ?thesis
    using Some by (simp add: intern_def register_sac_def)
qed

lemma trade_assets_index:
  assumes "sac_sound env assets"
  shows "ar_sac_index (trade_assets env trade assets) = ar_sac_index assets"
proof -
  have "ar_sac_index (snd (intern env x (snd (intern env y assets)))) = ar_sac_index assets"
    if "x = resolve_amm_token c assets" "y = resolve_amm_token d assets" for x y c d
  proof -
    have y: "ar_sac_index (snd (intern env y assets)) = ar_sac_index assets"
      by (rule intern_resolved_index [OF assms that(2)]) simp
    then have "sac_sound env (snd (intern env y assets))"
      using assms by (simp add: sac_sound_def)
    then have "ar_sac_index (snd (intern env x (snd (intern env y assets)))) = ar_sac_index (snd (intern env y assets))"
      by (rule intern_resolved_index [OF _ that(1)]) (simp add: y)
    with y show ?thesis by simp
  qed
  then show ?thesis
    by (auto simp: trade_assets_def canonicalise_def orient_def Let_def split: option.split)
qed

lemma trade_assets_sound: "sac_sound env assets \<Longrightarrow> sac_sound env (trade_assets env trade assets)"
  by (simp add: sac_sound_def trade_assets_index)

lemma trade_assets_known:
  "set (ar_known (trade_assets env trade assets)) =
     set (ar_known assets) \<union> (let s = resolve_amm_token (tr_token_in trade) assets;
       b = resolve_amm_token (tr_token_out trade) assets in if s = b then {} else {s, b})"
  using orient_sides [of "resolve_amm_token (tr_token_in trade) assets" "resolve_amm_token (tr_token_out trade) assets"]
  by (auto simp: trade_assets_def canonicalise_def Let_def intern_known)

lemma resolve_index: "ar_sac_index a = ar_sac_index b \<Longrightarrow> (\<lambda>c. resolve_amm_token c a) = (\<lambda>c. resolve_amm_token c b)"
  by (simp add: resolve_amm_token_def resolve_sac_def)

section \<open>What a group adds\<close>

definition ls_append :: "ledger_soroban \<Rightarrow> ledger_soroban \<Rightarrow> ledger_soroban" where
  "ls_append a b = \<lparr>ls_amm_ticks = ls_amm_ticks a @ ls_amm_ticks b, ls_oracle = ls_oracle a @ ls_oracle b,
     ls_unresolved = ls_unresolved a @ ls_unresolved b, ls_dispatch_errors = ls_dispatch_errors a @ ls_dispatch_errors b,
     ls_unregistered_events = ls_unregistered_events a @ ls_unregistered_events b,
     ls_unregistered_contracts = ls_unregistered_contracts a @ ls_unregistered_contracts b\<rparr>"

lemma ls_append_empty [simp]:
  "ls_append a ledger_soroban_default = a" "ls_append ledger_soroban_default a = a"
  by (simp_all add: ls_append_def ledger_soroban_default_def)

lemma ls_append_assoc: "ls_append (ls_append a b) c = ls_append a (ls_append b c)"
  by (simp add: ls_append_def)

definition tick_delta ::
  "dec_ops \<Rightarrow> (string \<Rightarrow> asset_identity) \<Rightarrow> u16 \<Rightarrow> i64 \<Rightarrow> string \<Rightarrow> trade_row list \<Rightarrow> ledger_soroban" where
  "tick_delta ops resolve tx ct source trades = ledger_soroban_default\<lparr>ls_amm_ticks :=
     map (Pair source) (List.map_filter (\<lambda>t. the (amm_tick ops resolve tx ct t)) trades)\<rparr>"

definition group_delta ::
  "dec_ops \<Rightarrow> (string \<Rightarrow> asset_identity) \<Rightarrow> u16 \<Rightarrow> registries \<Rightarrow> u32 \<Rightarrow> i64 \<Rightarrow> string \<times> event_row list \<Rightarrow> ledger_soroban" where
  "group_delta ops resolve tx reg seq ct = (\<lambda>(c, rows).
     (case map_of (reg_venue reg) c of
        None \<Rightarrow> classify_unknown c rows seq ledger_soroban_default
      | Some v \<Rightarrow>
          ls_append
            (case dispatch_with reg rows of
               Inr trades \<Rightarrow> tick_delta ops resolve tx ct (as_source v) trades
             | Inl _ \<Rightarrow> if pool_swaps rows = [] then ledger_soroban_default
                 else ledger_soroban_default\<lparr>ls_dispatch_errors := [(as_source v, of_nat (length (pool_swaps rows)))]\<rparr>)
            (if pair_unresolved v c reg
             then push_unresolved (unresolved_from_swaps c (pool_swaps rows) seq) ledger_soroban_default
             else ledger_soroban_default)))"

definition group_assets :: "asset_env \<Rightarrow> registries \<Rightarrow> string \<times> event_row list \<Rightarrow> asset_registry \<Rightarrow> asset_registry" where
  "group_assets env reg = (\<lambda>(c, rows) assets.
     (case map_of (reg_venue reg) c of
        None \<Rightarrow> assets
      | Some _ \<Rightarrow> (case dispatch_with reg rows of Inr trades \<Rightarrow> fold (trade_assets env) trades assets | Inl _ \<Rightarrow> assets)))"

lemma push_unresolved_append:
  "push_unresolved r out = ls_append out (push_unresolved r ledger_soroban_default)"
  by (simp add: push_unresolved_def ls_append_def ledger_soroban_default_def split: option.split)

lemma classify_unknown_append:
  "classify_unknown c rows seq out = ls_append out (classify_unknown c rows seq ledger_soroban_default)"
  by (simp add: classify_unknown_def Let_def push_unresolved_def ls_append_def ledger_soroban_default_def
      split: option.split)

lemma push_trades:
  assumes "dec_laws ops" and "sac_sound env assets"
  shows "fold_opt (push_trade env ops tx ct source) trades (assets, out) =
      Some (fold (trade_assets env) trades assets,
        ls_append out (tick_delta ops (\<lambda>c. resolve_amm_token c assets) tx ct source trades)) \<and>
    sac_sound env (fold (trade_assets env) trades assets) \<and>
    ar_sac_index (fold (trade_assets env) trades assets) = ar_sac_index assets"
  using assms(2)
proof (induction trades arbitrary: assets out)
  case Nil
  then show ?case by (simp add: tick_delta_def map_filter_def ledger_soroban_default_def ls_append_def)
next
  case (Cons t trades)
  let ?r = "\<lambda>c. resolve_amm_token c assets" and ?assets = "trade_assets env t assets"
  obtain tick where tick: "amm_tick ops ?r tx ct t = Some tick"
    using amm_tick_total [OF assms(1)] by blast
  have sound: "sac_sound env ?assets" and index: "ar_sac_index ?assets = ar_sac_index assets"
    using Cons.prems by (simp_all add: trade_assets_sound trade_assets_index)
  have step: "push_trade env ops tx ct source t (assets, out) =
      Some (?assets, ls_append out (tick_delta ops ?r tx ct source [t]))"
    by (simp add: push_trade_def amm_trade_to_tick_alt tick tick_delta_def map_filter_def ls_append_def
        ledger_soroban_default_def split: option.split)
  have join: "ls_append (tick_delta ops ?r tx ct source [t]) (tick_delta ops ?r tx ct source trades) =
      tick_delta ops ?r tx ct source (t # trades)"
    by (simp add: tick_delta_def map_filter_def ls_append_def ledger_soroban_default_def)
  show ?case
    using Cons.IH [OF sound, of "ls_append out (tick_delta ops ?r tx ct source [t])"] index
    by (simp add: step ls_append_assoc join resolve_index [OF index])
qed

lemma classify_group_delta:
  assumes "dec_laws ops" and "sac_sound env assets"
  shows "classify_group env ops tx reg seq ct g (assets, out) =
      Some (group_assets env reg g assets, ls_append out (group_delta ops (\<lambda>c. resolve_amm_token c assets) tx reg seq ct g)) \<and>
    sac_sound env (group_assets env reg g assets) \<and>
    ar_sac_index (group_assets env reg g assets) = ar_sac_index assets"
proof -
  obtain c rows where g: "g = (c, rows)" by (cases g)
  show ?thesis
  proof (cases "map_of (reg_venue reg) c")
    case None
    then show ?thesis
      using assms(2) classify_unknown_append [of c rows seq out]
      by (simp add: g classify_group_def group_assets_def group_delta_def Let_def)
  next
    case (Some v)
    show ?thesis
    proof (cases "dispatch_with reg rows")
      case (Inl e)
      have "classify_group env ops tx reg seq ct g (assets, out) =
          Some (assets, ls_append out (group_delta ops (\<lambda>c. resolve_amm_token c assets) tx reg seq ct g))"
        by (simp add: g Some Inl classify_group_def group_delta_def Let_def push_unresolved_def ls_append_def
            ledger_soroban_default_def split: option.split)
      then show ?thesis
        using Some Inl assms(2) by (simp add: g group_assets_def)
    next
      case (Inr trades)
      then show ?thesis
        using Some push_trades [OF assms, of tx ct "as_source v" trades out]
        by (simp add: g classify_group_def group_assets_def group_delta_def Let_def push_unresolved_def ls_append_def
            ledger_soroban_default_def split: option.split)
    qed
  qed
qed

lemma classify_groups_delta:
  assumes "dec_laws ops" and "sac_sound env assets"
  shows "classify_amm_groups env ops gs tx reg seq ct (assets, out) =
      Some (fold (group_assets env reg) gs assets,
        fold (\<lambda>g o'. ls_append o' (group_delta ops (\<lambda>c. resolve_amm_token c assets) tx reg seq ct g)) gs out) \<and>
    sac_sound env (fold (group_assets env reg) gs assets) \<and>
    ar_sac_index (fold (group_assets env reg) gs assets) = ar_sac_index assets"
  using assms(2)
proof (induction gs arbitrary: assets out)
  case Nil
  then show ?case by (simp add: classify_amm_groups_def)
next
  case (Cons g gs)
  let ?d = "group_delta ops (\<lambda>c. resolve_amm_token c assets) tx reg seq ct g"
  have g: "classify_group env ops tx reg seq ct g (assets, out) = Some (group_assets env reg g assets, ls_append out ?d)"
    and sound: "sac_sound env (group_assets env reg g assets)"
    and index: "ar_sac_index (group_assets env reg g assets) = ar_sac_index assets"
    using classify_group_delta [OF assms(1) Cons.prems] by blast+
  show ?case
    using Cons.IH [OF sound, of "ls_append out ?d"] index resolve_index [OF index]
    by (simp add: classify_amm_groups_def g)
qed

lemma fold_ls_append:
  "ls_amm_ticks (fold (\<lambda>g o'. ls_append o' (d g)) gs out) = ls_amm_ticks out @ concat (map (ls_amm_ticks \<circ> d) gs)"
  "ls_oracle (fold (\<lambda>g o'. ls_append o' (d g)) gs out) = ls_oracle out @ concat (map (ls_oracle \<circ> d) gs)"
  "ls_unresolved (fold (\<lambda>g o'. ls_append o' (d g)) gs out) = ls_unresolved out @ concat (map (ls_unresolved \<circ> d) gs)"
  "ls_dispatch_errors (fold (\<lambda>g o'. ls_append o' (d g)) gs out) =
     ls_dispatch_errors out @ concat (map (ls_dispatch_errors \<circ> d) gs)"
  "ls_unregistered_events (fold (\<lambda>g o'. ls_append o' (d g)) gs out) =
     ls_unregistered_events out @ concat (map (ls_unregistered_events \<circ> d) gs)"
  by (induction gs arbitrary: out) (simp_all add: ls_append_def)

lemma mset_concat_map: "mset gs = mset gs' \<Longrightarrow> mset (concat (map f gs)) = mset (concat (map f gs'))"
proof -
  have "mset (concat (map f hs)) = \<Sum>\<^sub># (image_mset (mset \<circ> f) (mset hs))" for hs
    by (induction hs) simp_all
  then show "mset gs = mset gs' \<Longrightarrow> mset (concat (map f gs)) = mset (concat (map f gs'))"
    by simp
qed

definition trade_mentions :: "(string \<Rightarrow> asset_identity) \<Rightarrow> trade_row \<Rightarrow> asset_identity set" where
  "trade_mentions resolve t = (if resolve (tr_token_in t) = resolve (tr_token_out t) then {}
     else {resolve (tr_token_in t), resolve (tr_token_out t)})"

definition group_mentions :: "(string \<Rightarrow> asset_identity) \<Rightarrow> registries \<Rightarrow> string \<times> event_row list \<Rightarrow> asset_identity set" where
  "group_mentions resolve reg = (\<lambda>(c, rows).
     (case map_of (reg_venue reg) c of
        None \<Rightarrow> {}
      | Some _ \<Rightarrow> (case dispatch_with reg rows of Inr trades \<Rightarrow> \<Union> (trade_mentions resolve ` set trades) | Inl _ \<Rightarrow> {})))"

lemma fold_trade_assets_known:
  assumes "sac_sound env assets"
  shows "set (ar_known (fold (trade_assets env) trades assets)) =
    set (ar_known assets) \<union> \<Union> (trade_mentions (\<lambda>c. resolve_amm_token c assets) ` set trades)"
  using assms
proof (induction trades arbitrary: assets)
  case (Cons t trades)
  have "(\<lambda>c. resolve_amm_token c (trade_assets env t assets)) = (\<lambda>c. resolve_amm_token c assets)"
    using Cons.prems by (intro resolve_index trade_assets_index)
  moreover have "set (ar_known (trade_assets env t assets)) =
      set (ar_known assets) \<union> trade_mentions (\<lambda>c. resolve_amm_token c assets) t"
    by (simp add: trade_assets_known trade_mentions_def Let_def)
  ultimately show ?case
    using Cons.IH [OF trade_assets_sound [OF Cons.prems], of t] by (simp add: Un_assoc)
qed simp

lemma group_assets_known:
  assumes "sac_sound env assets"
  shows "set (ar_known (group_assets env reg g assets)) =
    set (ar_known assets) \<union> group_mentions (\<lambda>c. resolve_amm_token c assets) reg g"
  using fold_trade_assets_known [OF assms]
  by (cases g) (auto simp: group_assets_def group_mentions_def split: option.split sum.split)

lemma fold_group_assets_known:
  assumes "dec_laws ops" and "sac_sound env assets"
  shows "set (ar_known (fold (group_assets env reg) gs assets)) =
    set (ar_known assets) \<union> \<Union> (group_mentions (\<lambda>c. resolve_amm_token c assets) reg ` set gs)"
  using assms(2)
proof (induction gs arbitrary: assets)
  case (Cons g gs)
  have "sac_sound env (group_assets env reg g assets)"
    and "ar_sac_index (group_assets env reg g assets) = ar_sac_index assets"
    using classify_group_delta [OF assms(1) Cons.prems] by blast+
  then show ?case
    using Cons.IH [of "group_assets env reg g assets"] group_assets_known [OF Cons.prems, of reg g]
      resolve_index [of "group_assets env reg g assets" assets] by auto
qed simp

section \<open>No panic\<close>

lemma intern_sound:
  assumes "sac_sound env assets"
  shows "sac_sound env (snd (intern env x assets))"
  using assms by (auto simp: intern_def register_sac_def sac_sound_def split: option.split)

lemma reflector_entry_sound:
  "sac_sound env (fst st) \<Longrightarrow> sac_sound env (fst (reflector_entry env ts e st))"
  by (cases st) (auto simp: reflector_entry_def intern_sound split: tagged.split list.split option.split)

lemma decode_reflector_sound:
  assumes "sac_sound env (fst st)"
  shows "sac_sound env (fst (decode_reflector env ev st))"
proof -
  have "sac_sound env (fst (fold (reflector_entry env ts) es st))" for ts es
    by (rule fold_preserves [where P = "\<lambda>st. sac_sound env (fst st)"]) (simp_all add: reflector_entry_sound assms)
  then show ?thesis
    using assms by (auto simp: decode_reflector_def split: tagged.split option.split)
qed

lemma event_step_sound:
  assumes "sac_sound env (ss_assets (fst st))"
  shows "sac_sound env (ss_assets (fst (event_step env tx_id seq ev st)))"
  using assms decode_reflector_sound [of env "(ss_assets (fst st), ss_out (fst st))" ev]
  by (cases st) (auto simp: event_step_def Let_def split: option.split prod.split)

lemma transaction_soroban_total:
  assumes "dec_laws ops" and "sac_sound env (ss_assets st)"
  shows "\<exists>st'. transaction_soroban env ops iter events_of tx_id_of seq ct tx st = Some st' \<and> sac_sound env (ss_assets st')"
proof -
  obtain i meta where tx: "tx = (i, meta)" by (cases tx)
  let ?st = "fold (event_step env (tx_id_of i) seq) (events_of meta (tx_id_of i) seq ct) (st, [])"
  have "sac_sound env (ss_assets (fst (fold (event_step env (tx_id_of i) seq) evs x)))"
    if "sac_sound env (ss_assets (fst x))" for evs x
    by (rule fold_preserves [where P = "\<lambda>x. sac_sound env (ss_assets (fst x))"]) (rule event_step_sound, assumption, rule that)
  then have "sac_sound env (ss_assets (fst ?st))"
    using assms(2) by simp
  then show ?thesis
    using classify_groups_delta [OF assms(1), of env "ss_assets (fst ?st)" "iter (snd ?st)" "of_nat i"
        "ss_registries (fst ?st)" seq ct "ss_out (fst ?st)"]
    by (auto simp: tx transaction_soroban_def Let_def split_beta)
qed

section \<open>The store seam is the live path\<close>

definition is_oracle :: "json \<Rightarrow> bool" where
  "is_oracle topics \<longleftrightarrow> signature topics = Some ''REFLECTOR'' \<or> signature topics = Some ''REDSTONE''"

text \<open>The rows a store holds for a transaction's events.\<close>

definition stored_rows :: "u32 \<Rightarrow> string \<Rightarrow> nat \<Rightarrow> extracted_event list \<Rightarrow> raw_soroban_event list" where
  "stored_rows seq tx_id tx_index events = List.map_filter (\<lambda>ev.
     if xe_diagnostic ev then None
     else map_option (\<lambda>c. \<lparr>re_contract_id = c, re_transaction_id = tx_id, re_transaction_index = of_nat tx_index,
       re_ledger_sequence = seq, re_event_index = xe_event_index ev, re_topics = xe_topics ev, re_data = xe_data ev\<rparr>)
       (xe_contract_id ev)) events"

lemma map_filter_Cons: "List.map_filter f (x # xs) = (case f x of None \<Rightarrow> [] | Some y \<Rightarrow> [y]) @ List.map_filter f xs"
  by (simp add: map_filter_def split: option.split)

lemma fold_event_rows:
  assumes "list_all (\<lambda>ev. \<not> is_oracle (xe_topics ev)) events"
  shows "fold (event_step env tx_id seq) events (st, groups) =
    (st\<lparr>ss_registries := fst (fold row_step (stored_rows seq tx_id i events) (ss_registries st, groups))\<rparr>,
     snd (fold row_step (stored_rows seq tx_id i events) (ss_registries st, groups)))"
  using assms
proof (induction events arbitrary: st groups)
  case Nil
  then show ?case by (simp add: stored_rows_def map_filter_def)
next
  case (Cons ev events)
  then show ?case
    by (auto simp: stored_rows_def map_filter_Cons event_step_def row_step_def is_oracle_def split: option.split)
qed

lemma stored_rows_id: "r \<in> set (stored_rows seq tx_id i events) \<Longrightarrow>
    re_transaction_id r = tx_id \<and> re_transaction_index r = of_nat i"
  by (auto simp: stored_rows_def map_filter_def split: if_splits)

lemma transaction_id_inject: "transaction_id seq i = transaction_id seq j \<longleftrightarrow> i = j"
  by (simp add: transaction_id_def show_nat_inject)

text \<open>The rows of a ledger, transaction by transaction in apply order.\<close>

definition ledger_rows ::
  "(transaction_meta \<Rightarrow> string \<Rightarrow> u32 \<Rightarrow> i64 \<Rightarrow> extracted_event list) \<Rightarrow> u32 \<Rightarrow> i64 \<Rightarrow> (nat \<times> transaction_meta) list \<Rightarrow>
   raw_soroban_event list" where
  "ledger_rows events_of seq ct txs = concat (map (\<lambda>(i, meta).
     stored_rows seq (transaction_id seq i) i (events_of meta (transaction_id seq i) seq ct)) txs)"

lemma process_rows_block:
  assumes "block \<noteq> []" and "list_all (\<lambda>r. re_transaction_id r = tx_id \<and> re_transaction_index r = i) block"
    and "list_all (\<lambda>r. re_transaction_id r \<noteq> tx_id) rest"
  shows "process_soroban_event_rows env ops iter seq ct (block @ rest) st =
    (let (reg, groups) = fold row_step block (ss_registries st, []) in
     Option.bind (classify_amm_groups env ops (iter groups) i reg seq ct (ss_assets st, ss_out st))
       (\<lambda>(assets, out). process_soroban_event_rows env ops iter seq ct rest
          (st\<lparr>ss_registries := reg, ss_assets := assets, ss_out := out\<rparr>)))"
proof -
  obtain ev evs where b: "block = ev # evs" using assms(1) by (cases block) auto
  let ?same = "\<lambda>e. re_transaction_id e = re_transaction_id ev"
  have "takeWhile ?same (evs @ rest) = evs" "dropWhile ?same (evs @ rest) = rest"
  proof -
    have "list_all ?same evs" and "list_all (\<lambda>e. \<not> ?same e) rest"
      using assms(2,3) by (auto simp: b list_all_iff)
    then have "takeWhile ?same rest = []" "dropWhile ?same rest = rest" "\<forall>e \<in> set evs. ?same e"
      by (cases rest; simp add: list_all_iff)+
    then show "takeWhile ?same (evs @ rest) = evs" "dropWhile ?same (evs @ rest) = rest"
      by (simp_all add: takeWhile_append dropWhile_append)
  qed
  then show ?thesis
    using assms(2) by (simp add: b process_soroban_event_rows.simps Let_def)
qed

lemma process_rows_is_fold:
  assumes "iter [] = []" and "distinct (map fst txs)"
    and "list_all (\<lambda>(i, meta). list_all (\<lambda>ev. \<not> is_oracle (xe_topics ev)) (events_of meta (transaction_id seq i) seq ct)) txs"
  shows "process_soroban_event_rows env ops iter seq ct (ledger_rows events_of seq ct txs) st =
    fold_opt (transaction_soroban env ops iter events_of (transaction_id seq) seq ct) txs st"
  using assms(2,3)
proof (induction txs arbitrary: st)
  case Nil
  then show ?case by (simp add: ledger_rows_def process_soroban_event_rows.simps)
next
  case (Cons tx txs)
  obtain i meta where tx: "tx = (i, meta)" by (cases tx)
  let ?id = "transaction_id seq i"
  let ?events = "events_of meta ?id seq ct"
  let ?block = "stored_rows seq ?id i ?events" and ?rest = "ledger_rows events_of seq ct txs"
  have rows: "ledger_rows events_of seq ct (tx # txs) = ?block @ ?rest"
    by (simp add: ledger_rows_def tx)
  have events: "list_all (\<lambda>ev. \<not> is_oracle (xe_topics ev)) ?events"
    using Cons.prems(2) by (simp add: tx)
  have live: "transaction_soroban env ops iter events_of (transaction_id seq) seq ct tx st =
      (let (reg, groups) = fold row_step ?block (ss_registries st, []) in
       map_option (\<lambda>(assets, out). st\<lparr>ss_registries := reg, ss_assets := assets, ss_out := out\<rparr>)
         (classify_amm_groups env ops (iter groups) (of_nat i) reg seq ct (ss_assets st, ss_out st)))"
    using fold_event_rows [OF events, of env ?id seq st "[]" i]
    by (simp add: transaction_soroban_def tx Let_def split_beta)
  have IH: "process_soroban_event_rows env ops iter seq ct ?rest st' =
      fold_opt (transaction_soroban env ops iter events_of (transaction_id seq) seq ct) txs st'" for st'
    using Cons.IH Cons.prems by simp
  show ?case
  proof (cases "?block = []")
    case True
    then show ?thesis
      using assms(1) by (simp add: rows live IH classify_amm_groups_def)
  next
    case False
    have "list_all (\<lambda>r. re_transaction_id r \<noteq> ?id) ?rest"
      using Cons.prems(1) transaction_id_inject
      by (auto simp: ledger_rows_def list_all_iff tx dest!: stored_rows_id) (metis fst_conv image_eqI)
    moreover have "list_all (\<lambda>r. re_transaction_id r = ?id \<and> re_transaction_index r = of_nat i) ?block"
      by (auto simp: list_all_iff dest: stored_rows_id)
    ultimately show ?thesis
      using process_rows_block [OF False, of ?id "of_nat i" ?rest env ops iter seq ct st]
      by (auto simp: rows live IH Let_def split_beta bind_map_option comp_def
          intro!: arg_cong [of _ _ "Option.bind _"])
  qed
qed

section \<open>Properties\<close>

text \<open>
  C31: Processing a ledger of Soroban events returns: whatever the events, registries and event decoder, no
  arithmetic of amm_trade_to_tick divides by zero or overflows, and the asset registry stays sound (each SAC
  address maps to an asset whose SAC address it is).
\<close>

theorem process_ledger_never_panics:
  assumes "dec_laws ops" and "sac_sound env assets"
  shows "\<exists>st. process_ledger env ops iter events_of ledger reg assets = Some st \<and> sac_sound env (ss_assets st)"
proof -
  have "\<exists>st. fold_opt (transaction_soroban env ops iter events_of ids seq ct) txs s = Some st \<and> sac_sound env (ss_assets st)"
    if "sac_sound env (ss_assets s)" for ids seq ct txs s
    by (rule fold_opt_total [where P = "\<lambda>st. sac_sound env (ss_assets st)"])
      (rule transaction_soroban_total [OF assms(1)], assumption, rule that)
  then show ?thesis
    using assms(2) by (simp add: process_ledger_def split: prod.split)
qed

text \<open>
  C32: Repricing a ledger from stored event rows is the live decode path: on a ledger without oracle events,
  process_soroban_event_rows over the rows of its events gives the same registries, assets and output as
  process_ledger on the ledger itself.
\<close>

theorem store_seam_is_the_live_path:
  assumes "iter [] = []" and "ledger_header ledger = (seq, ct)"
    and "list_all (\<lambda>(i, meta). list_all (\<lambda>ev. \<not> is_oracle (xe_topics ev)) (events_of meta (transaction_id seq i) seq ct))
      (enumerate 0 (collect_tx_metas ledger))"
  shows "process_soroban_event_rows env ops iter seq ct
      (ledger_rows events_of seq ct (enumerate 0 (collect_tx_metas ledger)))
      \<lparr>ss_registries = reg, ss_assets = assets, ss_out = ledger_soroban_default\<rparr> =
    process_ledger env ops iter events_of ledger reg assets"
  using process_rows_is_fold [where txs = "enumerate 0 (collect_tx_metas ledger)" and iter = iter and seq = seq
      and ct = ct and events_of = events_of, OF assms(1) _ assms(3)]
  by (simp add: process_ledger_def assms(2))

text \<open>
  C37: The random iteration order of the HashMap of contract groups does not change the outcome of a
  transaction: any two orders give the same ticks, unresolved records, dispatch errors and unregistered-pool
  counts as multisets, and registries that know the same assets and resolve every SAC address alike.
\<close>

theorem group_order_is_irrelevant:
  assumes "dec_laws ops" and "sac_sound env assets" and "mset groups = mset groups'"
  shows "\<exists>a o1 a' o1'.
    classify_amm_groups env ops groups tx reg seq ct (assets, out) = Some (a, o1) \<and>
    classify_amm_groups env ops groups' tx reg seq ct (assets, out) = Some (a', o1') \<and>
    mset (ls_amm_ticks o1) = mset (ls_amm_ticks o1') \<and>
    mset (ls_unresolved o1) = mset (ls_unresolved o1') \<and>
    mset (ls_dispatch_errors o1) = mset (ls_dispatch_errors o1') \<and>
    mset (ls_unregistered_events o1) = mset (ls_unregistered_events o1') \<and>
    set (ar_known a) = set (ar_known a') \<and> resolve_sac a = resolve_sac a'"
proof -
  let ?d = "group_delta ops (\<lambda>c. resolve_amm_token c assets) tx reg seq ct"
  have "set groups = set groups'"
    using assms(3) by (metis set_mset_mset)
  then have "set (ar_known (fold (group_assets env reg) groups assets)) = set (ar_known (fold (group_assets env reg) groups' assets))"
    by (simp add: fold_group_assets_known [OF assms(1,2)])
  moreover have "resolve_sac (fold (group_assets env reg) groups assets) = resolve_sac (fold (group_assets env reg) groups' assets)"
    using classify_groups_delta [OF assms(1,2)] by (simp add: resolve_sac_def [abs_def])
  ultimately show ?thesis
    using classify_groups_delta [OF assms(1,2), of groups tx reg seq ct out]
      classify_groups_delta [OF assms(1,2), of groups' tx reg seq ct out]
      mset_concat_map [OF assms(3), of "ls_amm_ticks \<circ> ?d"] mset_concat_map [OF assms(3), of "ls_unresolved \<circ> ?d"]
      mset_concat_map [OF assms(3), of "ls_dispatch_errors \<circ> ?d"]
      mset_concat_map [OF assms(3), of "ls_unregistered_events \<circ> ?d"]
    by (auto simp: fold_ls_append)
qed

definition sample_reg :: registries where
  "sample_reg = registries_new\<lparr>reg_venue := [(''P'', Sushiswap), (''S'', Soroswap)],
     reg_sushiswap := [(''P'', \<lparr>token0 = ''X'', token1 = ''Y''\<rparr>)]\<rparr>"

definition sample_groups :: "(string \<times> event_row list) list" where
  "sample_groups = [(''P'', sample_swap_rows), (''Q'', [sample_row ''Q'' [TSymbol ''swap''] TNull])]"

lemma sample_sound: "sac_sound sample_env (from_existing sample_env [])"
  by (rule registry_ok_sound [OF from_existing_ok])

theorem group_order_is_irrelevant_witness:
  "\<exists>a o1 a' o1'.
    classify_amm_groups sample_env exact_ops sample_groups 0 sample_reg 9 60
      (from_existing sample_env [], ledger_soroban_default) = Some (a, o1) \<and>
    classify_amm_groups sample_env exact_ops (rev sample_groups) 0 sample_reg 9 60
      (from_existing sample_env [], ledger_soroban_default) = Some (a', o1') \<and>
    mset (ls_amm_ticks o1) = mset (ls_amm_ticks o1')"
  using group_order_is_irrelevant [OF exact_ops_laws sample_sound, of sample_groups "rev sample_groups" 0 sample_reg 9 60
      ledger_soroban_default] by force

text \<open>
  No group with pool-level swaps disappears: an unknown contract or a pair-backed pool without its pair is
  recorded as unresolved with the number of its swaps, a failed dispatch is counted with its venue and swaps,
  and otherwise the ticks of its trades are appended, in order.
\<close>

lemma swap_groups_are_accounted_for:
  assumes "dec_laws ops" and "sac_sound env assets" and "pool_swaps rows \<noteq> []"
  shows "\<exists>a o1. classify_group env ops tx reg seq ct (c, rows) (assets, out) = Some (a, o1) \<and>
    (let record = \<lparr>us_contract_id = c, us_ledger_sequence = seq, us_swap_count = of_nat (length (pool_swaps rows)),
           us_sample_topics = ev_topics (hd (pool_swaps rows))\<rparr> in
     case map_of (reg_venue reg) c of
       None \<Rightarrow> ls_unresolved o1 = ls_unresolved out @ [record] \<and> ls_amm_ticks o1 = ls_amm_ticks out
     | Some v \<Rightarrow>
         if pair_unresolved v c reg then ls_unresolved o1 = ls_unresolved out @ [record]
         else ls_unresolved o1 = ls_unresolved out \<and>
           (case dispatch_with reg rows of
              Inl _ \<Rightarrow> ls_dispatch_errors o1 =
                ls_dispatch_errors out @ [(as_source v, of_nat (length (pool_swaps rows)))] \<and>
                ls_amm_ticks o1 = ls_amm_ticks out
            | Inr trades \<Rightarrow> ls_amm_ticks o1 = ls_amm_ticks out @ map (Pair (as_source v))
                (List.map_filter (\<lambda>t. the (amm_tick ops (\<lambda>c. resolve_amm_token c assets) tx ct t)) trades)))"
proof -
  obtain first rest where sw: "pool_swaps rows = first # rest"
    using assms(3) by (cases "pool_swaps rows") auto
  show ?thesis
    using classify_group_delta [OF assms(1,2), of tx reg seq ct "(c, rows)" out]
    by (auto simp: Let_def group_delta_def sw unresolved_from_swaps_def push_unresolved_def ls_append_def tick_delta_def
        ledger_soroban_default_def classify_unknown_def split: option.split sum.split)
qed

text \<open>
  A Soroswap pool known by venue but absent from the pair registry, whose events have the shape real pairs
  emit (topic 0 "SoroswapPair", action in topic 1), leaves no trace at all: neither a tick nor an unresolved
  record nor a dispatch error.
\<close>

lemma soroswap_shaped_pair_miss_is_silent:
  assumes "map_of (reg_venue reg) c = Some Soroswap" and "\<not> pair_contains (reg_soroswap reg) c"
    and "\<forall>row \<in> set rows. ev_contract_id row = c \<and> topic_as_str row 0 = Some ''SoroswapPair''"
  shows "classify_group env ops tx reg seq ct (c, rows) (assets, out) = Some (assets, out)"
proof -
  have "pool_swaps rows = []"
  proof -
    have "\<not> is_pool_swap row \<and> topic_as_str row 0 \<noteq> Some ''swap''" if "row \<in> set rows" for row
      using bspec [OF assms(3) that]
      by (cases "get_at (ev_topics row) 0") (auto simp: is_pool_swap_def topic_name_def topic_as_str_def
          elim!: as_str.elims split: tagged.splits)
    then show ?thesis
      by (auto simp: pool_swaps_def filter_empty_conv)
  qed
  moreover have "dispatch_with reg rows = Inr []"
  proof (cases rows)
    case (Cons row rest)
    then show ?thesis
      using assms by (simp add: dispatch_with_def dispatch_def registries_pairs_def pair_lookup_def pair_contains_def)
  qed (simp add: dispatch_with_def dispatch_def)
  ultimately show ?thesis
    using assms(1) by (simp add: classify_group_def Let_def unresolved_from_swaps_def push_unresolved_def)
qed

definition sample_event :: extracted_event where
  "sample_event = \<lparr>xe_diagnostic = False, xe_contract_id = Some ''P'', xe_event_index = 3, xe_created_at = 600,
     xe_topics = JArray [JObject [(''type'', JString ''sym''), (''value'', JString ''swap'')]],
     xe_data = JObject [(''type'', JString ''map''), (''value'', JArray
       [JObject [(''key'', JObject [(''type'', JString ''sym''), (''value'', JString ''amount0'')]),
          (''value'', JObject [(''type'', JString ''i128''), (''value'', JString ''-250'')])],
        JObject [(''key'', JObject [(''type'', JString ''sym''), (''value'', JString ''amount1'')]),
          (''value'', JObject [(''type'', JString ''i128''), (''value'', JString ''1000'')])]])]\<rparr>"

definition sample_events_of :: "transaction_meta \<Rightarrow> string \<Rightarrow> u32 \<Rightarrow> i64 \<Rightarrow> extracted_event list" where
  "sample_events_of meta tx_id seq ct = [sample_event]"

theorem process_ledger_never_panics_witness:
  "process_ledger sample_env exact_ops (\<lambda>gs. gs) sample_events_of sample_ledger sample_reg (from_existing sample_env []) \<noteq> None"
  using process_ledger_never_panics [OF exact_ops_laws sample_sound, of "\<lambda>gs. gs" sample_events_of sample_ledger sample_reg]
  by force

theorem store_seam_is_the_live_path_witness:
  "process_soroban_event_rows sample_env exact_ops (\<lambda>gs. gs) 100 600
     (ledger_rows sample_events_of 100 600 (enumerate 0 (collect_tx_metas sample_ledger)))
     \<lparr>ss_registries = sample_reg, ss_assets = from_existing sample_env [], ss_out = ledger_soroban_default\<rparr> =
   process_ledger sample_env exact_ops (\<lambda>gs. gs) sample_events_of sample_ledger sample_reg (from_existing sample_env [])"
  by (rule store_seam_is_the_live_path)
    (simp_all add: ledger_header_def sample_ledger_def sample_events_of_def collect_tx_metas_def sample_event_def
      is_oracle_def signature_def topic_symbol_def)

text \<open>The shape and the fields of a pair venue's factory event.\<close>

definition factory_shape :: "venue \<Rightarrow> json \<Rightarrow> bool" where
  "factory_shape v topics \<longleftrightarrow>
     signature topics \<noteq> Some ''add_pool'' \<and> signature topics \<noteq> Some ''create'' \<and>
     (if v = Soroswap then topic_symbol topics 1 = Some ''new_pair''
      else topic_symbol topics 1 \<noteq> Some ''new_pair'' \<and> signature topics = Some ''pool_created'')"

definition factory_fields :: "venue \<Rightarrow> (tagged \<times> tagged) list \<Rightarrow> string option \<times> string option \<times> string option" where
  "factory_fields v m =
     (if v = Soroswap then (map_address m ''pair'', map_address m ''token_0'', map_address m ''token_1'')
      else (map_address m ''pool_address'', map_address m ''token0'', map_address m ''token1''))"

text \<open>
  A factory event takes effect at once: after learn_factory on a Soroswap new_pair or SushiSwap
  pool_created event that names pool and tokens, the groups of that pool are decoded by the venue's extractor
  with exactly those tokens.
\<close>

lemma learned_pool_is_dispatched:
  assumes "pair_backed v" and "factory_shape v topics" and "json_to_tagged data = TMap m"
    and "factory_fields v m = (Some pool, Some t0, Some t1)" and "one_group rows pool tx l" and "rows \<noteq> []"
  shows "dispatch_with (learn_factory topics data reg) rows =
    trades_of (pair_extract v \<lparr>token0 = t0, token1 = t1\<rparr> rows)"
proof -
  have "ev_contract_id (hd rows) = pool"
    using assms(5,6) by (cases rows) (auto simp: one_group_def)
  then show ?thesis
    using assms by (auto simp: pair_backed_def factory_shape_def factory_fields_def learn_factory_def learn_pair_def
        learn_clmm_def dispatch_with_def dispatch_def registries_pairs_def pair_lookup_def pair_register_def Let_def)
qed

definition sample_address :: "string \<Rightarrow> string \<Rightarrow> json" where
  "sample_address key a = JObject [(''key'', JObject [(''type'', JString ''sym''), (''value'', JString key)]),
     (''value'', JObject [(''type'', JString ''address''), (''value'', JString a)])]"

end
