(* ===== verification/Bucket.thy ===== *)
theory Bucket
  imports Tick
begin

text \<open>
  Minute candles (\<open>prices-ingest-core/src/bucket.rs\<close>): ticks are merged into open buckets keyed by minute and
  pair; a flush closes the buckets older than a minute, or all of them, in the order minute, base, quote.
  Nothing but the trade count and the version is folded while ticks arrive; every price and sum is
  computed at the close from the bucket's fills in sorted order.
\<close>

record candle =
  oc_minute :: u32
  oc_base :: asset_identity
  oc_quote :: asset_identity
  oc_open :: rat
  oc_high :: rat
  oc_low :: rat
  oc_close :: rat
  oc_volume_base :: rat
  oc_volume_quote :: rat
  oc_vwap :: rat
  oc_trade_count :: u32
  oc_version :: u64
  oc_pf_trade_count :: u32
  oc_pf_volume :: rat
  oc_pf_price_volume :: rat

record fill =
  fl_key :: lex
  fl_price :: rat
  fl_volume_base :: rat
  fl_volume_quote :: rat
  fl_price_forming :: bool

definition fill_sort_key :: "fill \<Rightarrow> lex \<times> rat \<times> rat \<times> rat" where
  "fill_sort_key f = (fl_key f, fl_price f, fl_volume_base f, fl_volume_quote f)"

record open_bucket =
  ob_candle :: candle
  ob_fills :: "fill list"

type_synonym bucket_key = "u32 \<times> asset_identity \<times> asset_identity"

type_synonym accumulator = "(bucket_key, open_bucket) hmap"

definition accumulator_new :: accumulator where
  "accumulator_new = []"

text \<open>\<open>closed_at as u32\<close> keeps the low bits.\<close>

definition minute_of :: "i64 \<Rightarrow> u32" where
  "minute_of closed_at = (ucast closed_at div 60) * 60"

definition tick_version :: "trade_tick \<Rightarrow> u64" where
  "tick_version t = ucast (tk_ledger_sequence t) * 1000 + ucast (tk_operation_index t)"

definition tick_key :: "trade_tick \<Rightarrow> bucket_key" where
  "tick_key t = (minute_of (tk_closed_at t), tk_base t, tk_quote t)"

definition fill_of :: "trade_tick \<Rightarrow> fill" where
  "fill_of t = \<lparr>fl_key = lex_key t, fl_price = tk_price t, fl_volume_base = tk_volume_base t,
     fl_volume_quote = tk_volume_quote t, fl_price_forming = tk_price_forming t\<rparr>"

definition open_candle :: "bucket_key \<Rightarrow> u64 \<Rightarrow> candle" where
  "open_candle = (\<lambda>(minute_start, base, quote) version.
     \<lparr>oc_minute = minute_start, oc_base = base, oc_quote = quote, oc_open = 0, oc_high = 0, oc_low = 0,
      oc_close = 0, oc_volume_base = 0, oc_volume_quote = 0, oc_vwap = 0, oc_trade_count = 0,
      oc_version = version, oc_pf_trade_count = 0, oc_pf_volume = 0, oc_pf_price_volume = 0\<rparr>)"

definition add_to_bucket :: "trade_tick \<Rightarrow> open_bucket \<Rightarrow> open_bucket" where
  "add_to_bucket tick b =
     (let c = ob_candle b;
          c = c\<lparr>oc_trade_count := oc_trade_count c + 1\<rparr>;
          c = (if oc_version c < tick_version tick then c\<lparr>oc_version := tick_version tick\<rparr> else c)
      in \<lparr>ob_candle = c, ob_fills = ob_fills b @ [fill_of tick]\<rparr>)"

definition merge :: "trade_tick \<Rightarrow> accumulator \<Rightarrow> accumulator" where
  "merge tick acc =
     (let key = tick_key tick;
          bucket = (case map_of acc key of
              Some b \<Rightarrow> b
            | None \<Rightarrow> \<lparr>ob_candle = open_candle key (tick_version tick), ob_fills = []\<rparr>)
      in AList.update key (add_to_bucket tick bucket) acc)"

section \<open>Closing a bucket\<close>

definition column_domain_max :: "dec_ops \<Rightarrow> rat" where
  "column_domain_max ops = d_from_i128 ops candle_column_max_integer 0"

text \<open>The clamp's state is its \<open>fired\<close> flag.\<close>

definition clamp_value :: "dec_ops \<Rightarrow> bool \<Rightarrow> rat \<Rightarrow> rat \<times> bool" where
  "clamp_value ops fired x =
     (let mx = column_domain_max ops in
      if mx < x then (mx, True) else if x < - mx then (- mx, True) else (x, fired))"

definition clamp_saturated :: "dec_ops \<Rightarrow> bool \<Rightarrow> rat \<times> bool" where
  "clamp_saturated ops negative =
     (if negative then - column_domain_max ops else column_domain_max ops, True)"

definition clamp_add :: "dec_ops \<Rightarrow> bool \<Rightarrow> rat \<Rightarrow> rat \<Rightarrow> rat \<times> bool" where
  "clamp_add ops fired a b = (case d_add ops a b of
     Some s \<Rightarrow> clamp_value ops fired s
   | None \<Rightarrow> clamp_saturated ops (b < 0))"

definition clamp_mul :: "dec_ops \<Rightarrow> bool \<Rightarrow> rat \<Rightarrow> rat \<Rightarrow> rat \<times> bool" where
  "clamp_mul ops fired a b = (case d_mul ops a b of
     Some p \<Rightarrow> clamp_value ops fired p
   | None \<Rightarrow> clamp_saturated ops ((a < 0) \<noteq> (b < 0)))"

definition clamp_div :: "dec_ops \<Rightarrow> bool \<Rightarrow> rat \<Rightarrow> rat \<Rightarrow> rat \<times> bool" where
  "clamp_div ops fired a b = (case d_div ops a b of
     Some q \<Rightarrow> clamp_value ops fired q
   | None \<Rightarrow> clamp_saturated ops ((a < 0) \<noteq> (b < 0)))"

fun sum_volumes :: "dec_ops \<Rightarrow> fill list \<Rightarrow> rat \<times> rat \<times> bool \<Rightarrow> rat \<times> rat \<times> bool" where
  "sum_volumes ops [] out = out"
| "sum_volumes ops (f # fs) (volume_base, volume_quote, fired) =
     (let (volume_base, fired) = clamp_add ops fired volume_base (fl_volume_base f);
          (volume_quote, fired) = clamp_add ops fired volume_quote (fl_volume_quote f)
      in sum_volumes ops fs (volume_base, volume_quote, fired))"

record priced_columns =
  pc_high :: rat
  pc_low :: rat
  pc_last :: fill
  pc_count :: u32
  pc_volume :: rat
  pc_price_volume :: rat

fun scan_priced :: "dec_ops \<Rightarrow> fill list \<Rightarrow> priced_columns \<times> bool \<Rightarrow> priced_columns \<times> bool" where
  "scan_priced ops [] out = out"
| "scan_priced ops (f # fs) (pc, fired) =
     (let (pf_volume, fired) = clamp_add ops fired (pc_volume pc) (fl_volume_base f);
          (notional, fired) = clamp_mul ops fired (fl_price f) (fl_volume_base f);
          (pf_price_volume, fired) = clamp_add ops fired (pc_price_volume pc) notional
      in scan_priced ops fs
           (\<lparr>pc_high = max (pc_high pc) (fl_price f), pc_low = min (pc_low pc) (fl_price f), pc_last = f,
             pc_count = pc_count pc + 1, pc_volume = pf_volume, pc_price_volume = pf_price_volume\<rparr>, fired))"

definition set_volumes :: "dec_ops \<Rightarrow> fill list \<Rightarrow> candle \<Rightarrow> candle \<times> bool" where
  "set_volumes ops fills c =
     (let (volume_base, volume_quote, fired) = sum_volumes ops fills (0, 0, False);
          (vwap, fired) = (if volume_base = 0 then (0, fired) else clamp_div ops fired volume_quote volume_base)
      in (c\<lparr>oc_volume_base := volume_base, oc_volume_quote := volume_quote, oc_vwap := vwap\<rparr>, fired))"

definition set_prices :: "dec_ops \<Rightarrow> fill list \<Rightarrow> candle \<times> bool \<Rightarrow> candle \<times> bool" where
  "set_prices ops priced = (\<lambda>(c, fired).
     (case priced of
        [] \<Rightarrow> (c, fired)
      | first # _ \<Rightarrow>
          (let (pc, fired) = scan_priced ops priced
                 (\<lparr>pc_high = fl_price first, pc_low = fl_price first, pc_last = first, pc_count = 0,
                   pc_volume = 0, pc_price_volume = 0\<rparr>, fired)
           in (c\<lparr>oc_open := fl_price first, oc_close := fl_price (pc_last pc), oc_high := pc_high pc,
                 oc_low := pc_low pc, oc_pf_trade_count := pc_count pc, oc_pf_volume := pc_volume pc,
                 oc_pf_price_volume := pc_price_volume pc\<rparr>, fired))))"

text \<open>The candle, and whether a volume was clamped (which the code logs).\<close>

definition finalise :: "dec_ops \<Rightarrow> open_bucket \<Rightarrow> candle \<times> bool" where
  "finalise ops b =
     (let fills = sort_key fill_sort_key (ob_fills b);
          priced = filter (\<lambda>f. fl_price_forming f \<and> price_survives_column_scale ops (fl_price f)) fills
      in set_prices ops priced (set_volumes ops fills (ob_candle b)))"

definition candle_key :: "candle \<Rightarrow> bucket_key" where
  "candle_key c = (oc_minute c, oc_base c, oc_quote c)"

definition sorted_candles :: "candle list \<Rightarrow> candle list" where
  "sorted_candles candles = sort_key candle_key candles"

definition flush_older_than :: "dec_ops \<Rightarrow> u32 \<Rightarrow> accumulator \<Rightarrow> candle list \<times> accumulator" where
  "flush_older_than ops current_minute acc =
     (sorted_candles (map (\<lambda>(_, bucket). fst (finalise ops bucket)) (filter (\<lambda>(key, _). fst key < current_minute) acc)),
      filter (\<lambda>(key, _). \<not> fst key < current_minute) acc)"

definition flush_all :: "dec_ops \<Rightarrow> accumulator \<Rightarrow> candle list" where
  "flush_all ops acc = sorted_candles (map (\<lambda>(_, bucket). fst (finalise ops bucket)) acc)"

section \<open>What a bucket of ticks holds\<close>

definition opened :: "bucket_key \<Rightarrow> trade_tick list \<Rightarrow> open_bucket" where
  "opened key ticks =
     \<lparr>ob_candle = (open_candle key (Max (set (map tick_version ticks))))\<lparr>oc_trade_count := of_nat (length ticks)\<rparr>,
      ob_fills = map fill_of ticks\<rparr>"

lemma open_candle_fields [simp]:
  "oc_version (open_candle key v) = v"
  "oc_trade_count (open_candle key v) = 0"
  "(open_candle key v)\<lparr>oc_version := w\<rparr> = open_candle key w"
  "(open_candle key v)\<lparr>oc_trade_count := n, oc_version := w\<rparr> = (open_candle key w)\<lparr>oc_trade_count := n\<rparr>"
  by (simp_all add: open_candle_def split: prod.split)

lemma opened_single:
  "add_to_bucket t \<lparr>ob_candle = open_candle key (tick_version t), ob_fills = []\<rparr> = opened key [t]"
  by (simp add: add_to_bucket_def opened_def Let_def)

lemma opened_snoc:
  assumes "ts \<noteq> []"
  shows "add_to_bucket t (opened key ts) = opened key (ts @ [t])"
proof -
  have "Max (set (map tick_version (ts @ [t]))) = max (tick_version t) (Max (set (map tick_version ts)))"
    using assms by simp
  then show ?thesis
    by (auto simp: add_to_bucket_def opened_def Let_def max_def not_less)
qed

text \<open>The refinement relation: an accumulator that holds exactly these ticks.\<close>

definition holds :: "accumulator \<Rightarrow> trade_tick list \<Rightarrow> bool" where
  "holds acc ticks \<longleftrightarrow> hm_ok acc \<and>
     (\<forall>key. map_of acc key =
        (let ts = filter (\<lambda>t. tick_key t = key) ticks in if ts = [] then None else Some (opened key ts)))"

lemma holds_new: "holds accumulator_new []"
  by (simp add: holds_def accumulator_new_def)

lemma holds_merge:
  assumes "holds acc ticks"
  shows "holds (merge t acc) (ticks @ [t])"
proof -
  let ?ts = "filter (\<lambda>u. tick_key u = tick_key t) ticks"
  have "map_of acc (tick_key t) = (if ?ts = [] then None else Some (opened (tick_key t) ?ts))"
    using assms unfolding holds_def Let_def by blast
  then have "add_to_bucket t (case map_of acc (tick_key t) of Some b \<Rightarrow> b
      | None \<Rightarrow> \<lparr>ob_candle = open_candle (tick_key t) (tick_version t), ob_fills = []\<rparr>) =
      opened (tick_key t) (?ts @ [t])"
    by (auto simp: opened_single opened_snoc split: if_splits)
  then show ?thesis
    using assms by (auto simp: holds_def merge_def Let_def)
qed

lemma holds_fold: "holds acc ticks \<Longrightarrow> holds (fold merge ts acc) (ticks @ ts)"
proof (induction ts arbitrary: acc ticks)
  case (Cons t ts)
  then show ?case
    using Cons.IH [OF holds_merge [of acc ticks t]] by simp
qed simp

section \<open>What a flush returns\<close>

definition candle_of :: "dec_ops \<Rightarrow> trade_tick list \<Rightarrow> bucket_key \<Rightarrow> candle" where
  "candle_of ops ticks key = fst (finalise ops (opened key (filter (\<lambda>t. tick_key t = key) ticks)))"

definition candles_of :: "dec_ops \<Rightarrow> trade_tick list \<Rightarrow> candle list" where
  "candles_of ops ticks = map (candle_of ops ticks) (sorted_list_of_set (tick_key ` set ticks))"

lemma set_volumes_key [simp]: "candle_key (fst (set_volumes ops fills c)) = candle_key c"
  by (simp add: set_volumes_def candle_key_def Let_def split: prod.split)

lemma set_prices_key [simp]: "candle_key (fst (set_prices ops priced x)) = candle_key (fst x)"
  by (simp add: set_prices_def candle_key_def Let_def split: prod.split list.split)

lemma finalise_key [simp]: "candle_key (fst (finalise ops b)) = candle_key (ob_candle b)"
  by (simp add: finalise_def Let_def)

lemma opened_key [simp]: "candle_key (ob_candle (opened key ts)) = key"
  by (simp add: opened_def candle_key_def open_candle_def split: prod.split)

lemma candles_of_inj: "inj_on candle_key (set (candles_of ops ts))"
  by (rule inj_onI) (auto simp: candles_of_def candle_of_def)

lemma flush_candles:
  assumes "hm_ok acc"
    and "\<And>key. map_of acc key = (let ts = filter (\<lambda>t. tick_key t = key) ticks in
      if p key \<and> ts \<noteq> [] then Some (opened key ts) else None)"
  shows "sorted_candles (map (\<lambda>(_, b). fst (finalise ops b)) acc) =
    map (candle_of ops ticks) (sorted_list_of_set {key \<in> tick_key ` set ticks. p key})"
proof -
  have look: "(key, b) \<in> set acc \<longleftrightarrow> p key \<and> key \<in> tick_key ` set ticks \<and>
      b = opened key (filter (\<lambda>t. tick_key t = key) ticks)" for key b
    using assms(2) [of key] hm_ok_map_of [OF assms(1), of key b]
    by (auto simp: Let_def filter_empty_conv split: if_splits)
  then have keys: "fst ` set acc = {key \<in> tick_key ` set ticks. p key}"
    by force
  have "sorted_candles (map (\<lambda>(_, b). fst (finalise ops b)) acc) =
      map (\<lambda>k. fst (finalise ops (the (map_of acc k)))) (sorted_list_of_set (fst ` set acc))"
    unfolding sorted_candles_def by (rule sort_key_hmap [OF assms(1)]) (auto simp: look)
  also have "\<dots> = map (candle_of ops ticks) (sorted_list_of_set {key \<in> tick_key ` set ticks. p key})"
    unfolding keys
  proof (rule map_cong [OF refl])
    fix k
    assume "k \<in> set (sorted_list_of_set {key \<in> tick_key ` set ticks. p key})"
    then have "(k, opened k (filter (\<lambda>t. tick_key t = k) ticks)) \<in> set acc"
      by (simp add: look)
    then show "fst (finalise ops (the (map_of acc k))) = candle_of ops ticks k"
      using hm_ok_map_of [OF assms(1)] by (metis candle_of_def option.sel)
  qed
  finally show ?thesis .
qed

lemma flush_all_holds:
  assumes "holds acc ticks"
  shows "flush_all ops acc = candles_of ops ticks"
proof -
  have "hm_ok acc"
    using assms by (simp add: holds_def)
  moreover have "map_of acc key = (let ts = filter (\<lambda>t. tick_key t = key) ticks in
      if True \<and> ts \<noteq> [] then Some (opened key ts) else None)" for key
    using spec [OF conjunct2 [OF assms [unfolded holds_def]], of key] by (simp add: Let_def)
  ultimately show ?thesis
    using flush_candles [of acc ticks "\<lambda>_. True" ops] by (simp add: flush_all_def candles_of_def)
qed

lemma flush_older_holds:
  assumes "holds acc ticks"
  shows "fst (flush_older_than ops m acc) = candles_of ops (filter (\<lambda>t. fst (tick_key t) < m) ticks)"
    and "holds (snd (flush_older_than ops m acc)) (filter (\<lambda>t. \<not> fst (tick_key t) < m) ticks)"
proof -
  have ok: "hm_ok acc"
    using assms by (simp add: holds_def)
  have look: "map_of acc key = (let ts = filter (\<lambda>t. tick_key t = key) ticks in
      if ts = [] then None else Some (opened key ts))" for key
    using spec [OF conjunct2 [OF assms [unfolded holds_def]], of key] .
  have part: "map_of (filter (\<lambda>(key, _). p key) acc) key = (if p key then map_of acc key else None)"
    for p key
    by (induction acc) auto
  have select: "filter (\<lambda>t. p (tick_key t) \<and> tick_key t = key) ticks =
      (if p key then filter (\<lambda>t. tick_key t = key) ticks else [])" for p key
    by (induction ticks) auto
  have holds_part: "holds (filter (\<lambda>(key, _). p key) acc) (filter (\<lambda>t. p (tick_key t)) ticks)" for p
    unfolding holds_def by (intro conjI allI) (simp_all add: ok part look select Let_def)
  show "fst (flush_older_than ops m acc) = candles_of ops (filter (\<lambda>t. fst (tick_key t) < m) ticks)"
    using flush_all_holds [OF holds_part [of "\<lambda>key. fst key < m"], of ops]
    by (simp add: flush_older_than_def flush_all_def)
  show "holds (snd (flush_older_than ops m acc)) (filter (\<lambda>t. \<not> fst (tick_key t) < m) ticks)"
    using holds_part [of "\<lambda>key. \<not> fst key < m"] by (simp add: flush_older_than_def)
qed

lemma candles_of_split:
  "candles_of ops (filter (\<lambda>t. fst (tick_key t) < m) ticks) @
   candles_of ops (filter (\<lambda>t. \<not> fst (tick_key t) < m) ticks) = candles_of ops ticks"
proof -
  have same: "candle_of ops (filter (\<lambda>t. p (tick_key t)) ticks) key = candle_of ops ticks key" if "p key" for p key
  proof -
    have "filter (\<lambda>t. tick_key t = key) (filter (\<lambda>t. p (tick_key t)) ticks) = filter (\<lambda>t. tick_key t = key) ticks"
      using that by (induction ticks) auto
    then show ?thesis by (simp add: candle_of_def)
  qed
  have part: "candles_of ops (filter (\<lambda>t. p (tick_key t)) ticks) =
      map (candle_of ops ticks) (sorted_list_of_set {key \<in> tick_key ` set ticks. p key})" for p
  proof -
    have "tick_key ` set (filter (\<lambda>t. p (tick_key t)) ticks) = {key \<in> tick_key ` set ticks. p key}"
      by auto
    then show ?thesis
      unfolding candles_of_def by (intro map_cong) (auto intro!: same)
  qed
  have "sorted_list_of_set (tick_key ` set ticks) =
      sorted_list_of_set {key \<in> tick_key ` set ticks. fst key < m} @
      sorted_list_of_set {key \<in> tick_key ` set ticks. \<not> fst key < m}"
    by (rule sorted_list_of_set_split) (auto simp: less_eq_prod_def)
  then show ?thesis
    using part [of "\<lambda>key. fst key < m"] part [of "\<lambda>key. \<not> fst key < m"]
    by (simp add: candles_of_def)
qed

section \<open>Arrival order\<close>

lemma fold_max_mset: "mset ts = mset us \<Longrightarrow> Max (set (map tick_version ts)) = Max (set (map tick_version us))"
  by (metis list.set_map set_mset_mset)

text \<open>The sums and the priced scan see a fill only through its sort key.\<close>

definition plain :: "fill \<Rightarrow> fill" where
  "plain f = f\<lparr>fl_price_forming := True\<rparr>"

lemma plain_fields [simp]:
  "fl_price (plain f) = fl_price f" "fl_volume_base (plain f) = fl_volume_base f"
  "fl_volume_quote (plain f) = fl_volume_quote f"
  by (simp_all add: plain_def)

lemma sort_key_determines_plain: "fill_sort_key f = fill_sort_key g \<Longrightarrow> plain f = plain g"
  by (simp add: fill_sort_key_def plain_def fill.equality)

lemma sum_volumes_plain: "sum_volumes ops (map plain fs) out = sum_volumes ops fs out"
proof (induction fs arbitrary: out)
  case (Cons f fs)
  then show ?case
    by (cases out) (simp add: Let_def split_beta)
qed simp

definition plain_columns :: "priced_columns \<times> bool \<Rightarrow> priced_columns \<times> bool" where
  "plain_columns = (\<lambda>(pc, fired). (pc\<lparr>pc_last := plain (pc_last pc)\<rparr>, fired))"

lemma scan_priced_plain:
  "scan_priced ops (map plain fs) (plain_columns out) = plain_columns (scan_priced ops fs out)"
proof (induction ops fs out rule: scan_priced.induct)
  case (2 ops f fs pc fired)
  then show ?case
    by (simp add: Let_def plain_columns_def split: prod.splits)
qed simp

lemma set_volumes_plain: "set_volumes ops (map plain fs) c = set_volumes ops fs c"
  by (simp add: set_volumes_def sum_volumes_plain)

lemma set_prices_plain: "set_prices ops (map plain fs) x = set_prices ops fs x"
proof (cases fs)
  case (Cons f fs')
  let ?start = "\<lambda>f b. (\<lparr>pc_high = fl_price f, pc_low = fl_price f, pc_last = f, pc_count = 0,
      pc_volume = 0, pc_price_volume = 0\<rparr>, b)"
  have "scan_priced ops (map plain (f # fs')) (?start (plain f) b) = plain_columns (scan_priced ops (f # fs') (?start f b))" for b
    using scan_priced_plain [of ops "f # fs'" "?start f b"] by (simp add: plain_columns_def)
  then show ?thesis
    unfolding Cons by (simp add: set_prices_def Let_def plain_columns_def del: scan_priced.simps split: prod.splits)
qed simp

lemma finalise_mset:
  assumes "mset (ob_fills b) = mset (ob_fills b')" and "ob_candle b = ob_candle b'"
  shows "finalise ops b = finalise ops b'"
proof -
  let ?p = "\<lambda>f. fl_price_forming f \<and> price_survives_column_scale ops (fl_price f)"
  have "map plain (sort_key fill_sort_key (ob_fills b)) = map plain (sort_key fill_sort_key (ob_fills b'))"
    by (rule sort_key_proj_eq [OF assms(1) sort_key_determines_plain])
  moreover have "map plain (filter ?p (sort_key fill_sort_key (ob_fills b))) =
      map plain (filter ?p (sort_key fill_sort_key (ob_fills b')))"
    by (rule sort_key_filter_proj_eq [OF assms(1) sort_key_determines_plain])
  moreover have "set_prices ops fs (set_volumes ops gs c) = set_prices ops fs' (set_volumes ops gs' c)"
    if "map plain gs = map plain gs'" "map plain fs = map plain fs'" for fs fs' gs gs' c
    using that set_volumes_plain [of ops gs] set_volumes_plain [of ops gs']
      set_prices_plain [of ops fs] set_prices_plain [of ops fs'] by simp
  ultimately show ?thesis
    unfolding finalise_def Let_def assms(2) by blast
qed

lemma candles_of_mset:
  assumes "mset ts = mset us"
  shows "candles_of ops ts = candles_of ops us"
proof -
  have "candle_of ops ts key = candle_of ops us key" for key
  proof -
    let ?f = "filter (\<lambda>t. tick_key t = key)"
    have m: "mset (?f ts) = mset (?f us)"
      using assms by (simp add: mset_filter)
    then have "ob_candle (opened key (?f ts)) = ob_candle (opened key (?f us))"
      using fold_max_mset [OF m] mset_eq_length [OF m] by (simp add: opened_def)
    moreover have "mset (ob_fills (opened key (?f ts))) = mset (ob_fills (opened key (?f us)))"
      using m by (simp add: opened_def)
    ultimately show ?thesis
      using finalise_mset by (metis candle_of_def)
  qed
  moreover have "set ts = set us"
    using assms by (metis set_mset_mset)
  ultimately show ?thesis
    by (simp add: candles_of_def cong: map_cong)
qed

section \<open>The interface the ingest loops use\<close>

text \<open>
  What a loop that merges ticks and flushes closed minutes relies on: an accumulator represents the ticks
  merged into it and not yet flushed, a flush returns their candles, and the candles of the closed and of
  the open minutes together are the candles of all.
\<close>

locale minute_accumulator =
  fixes fresh :: 'a
    and add :: "'t \<Rightarrow> 'a \<Rightarrow> 'a"
    and flush_older :: "'m \<Rightarrow> 'a \<Rightarrow> 'c list \<times> 'a"
    and flush_rest :: "'a \<Rightarrow> 'c list"
    and represents :: "'a \<Rightarrow> 't list \<Rightarrow> bool"
    and older :: "'m \<Rightarrow> 't \<Rightarrow> bool"
    and candles :: "'t list \<Rightarrow> 'c list"
  assumes fresh: "represents fresh []"
    and add: "represents a ts \<Longrightarrow> represents (add t a) (ts @ [t])"
    and flush_older_out: "represents a ts \<Longrightarrow> fst (flush_older m a) = candles (filter (older m) ts)"
    and flush_older_rest: "represents a ts \<Longrightarrow> represents (snd (flush_older m a)) (filter (\<lambda>t. \<not> older m t) ts)"
    and flush_rest: "represents a ts \<Longrightarrow> flush_rest a = candles ts"
    and candles_split: "candles (filter (older m) ts) @ candles (filter (\<lambda>t. \<not> older m t) ts) = candles ts"
    and candles_mset: "mset ts = mset us \<Longrightarrow> candles ts = candles us"
begin

lemma add_all: "represents a ts \<Longrightarrow> represents (fold add us a) (ts @ us)"
proof (induction us arbitrary: a ts)
  case (Cons u us)
  then show ?case
    using Cons.IH [OF add [of a ts u]] by simp
qed simp

lemma arrival_order_free:
  "mset ts = mset us \<Longrightarrow> flush_rest (fold add ts fresh) = flush_rest (fold add us fresh)"
  by (simp add: flush_rest [OF add_all [OF fresh]]) (rule candles_mset)

text \<open>One pass of a loop: merge a chunk of ticks, then flush what is older than a boundary.\<close>

definition pass :: "'m \<times> 't list \<Rightarrow> 'c list \<times> 'a \<Rightarrow> 'c list \<times> 'a" where
  "pass = (\<lambda>(m, ts) (out, a). let (cs, a') = flush_older m (fold add ts a) in (out @ cs, a'))"

text \<open>
  A stream whose later chunks hold nothing older than an earlier boundary loses nothing and writes nothing
  twice: what the passes flush, followed by the final flush, are the candles of all ticks.
\<close>

lemma stream_is_one_shot:
  assumes "sorted_wrt (\<lambda>(m, _) (_, ts). \<forall>t \<in> set ts. \<not> older m t) chunks" and "represents a us"
  shows "fst (fold pass chunks (out, a)) @ flush_rest (snd (fold pass chunks (out, a))) =
    out @ candles (us @ concat (map snd chunks))"
  using assms
proof (induction chunks arbitrary: out a us)
  case Nil
  then show ?case by (simp add: flush_rest)
next
  case (Cons chunk chunks)
  obtain m ts where c: "chunk = (m, ts)" by (cases chunk)
  let ?a = "fold add ts a" and ?us = "us @ ts"
  let ?keep = "filter (\<lambda>t. \<not> older m t)"
  have step: "pass chunk (out, a) = (out @ fst (flush_older m ?a), snd (flush_older m ?a))"
    by (simp add: c pass_def Let_def split_beta)
  have rep: "represents ?a ?us" by (rule add_all [OF Cons.prems(2)])
  have later: "filter (older m) (concat (map snd chunks)) = []" "?keep (concat (map snd chunks)) = concat (map snd chunks)"
    using Cons.prems(1) by (auto simp: c filter_empty_conv filter_id_conv)
  have "fst (fold pass (chunk # chunks) (out, a)) @ flush_rest (snd (fold pass (chunk # chunks) (out, a))) =
      (out @ candles (filter (older m) ?us)) @ candles (?keep ?us @ concat (map snd chunks))"
    using Cons.IH [of "snd (flush_older m ?a)" "?keep ?us" "out @ fst (flush_older m ?a)"] Cons.prems(1)
      flush_older_rest [OF rep, of m] flush_older_out [OF rep, of m]
    by (simp add: step)
  also have "\<dots> = out @ candles (us @ concat (map snd (chunk # chunks)))"
    using candles_split [of m "?us @ concat (map snd chunks)"] later by (simp add: c)
  finally show ?case .
qed

end

text \<open>The candle accumulator keeps the contract.\<close>

interpretation minutes: minute_accumulator accumulator_new merge "flush_older_than ops" "flush_all ops" holds
  "\<lambda>m t. fst (tick_key t) < m" "candles_of ops"
  for ops
proof unfold_locales
  show "holds accumulator_new []" by (rule holds_new)
  show "holds a ts \<Longrightarrow> holds (merge t a) (ts @ [t])" for a ts t by (rule holds_merge)
  show "holds a ts \<Longrightarrow> fst (flush_older_than ops m a) = candles_of ops (filter (\<lambda>t. fst (tick_key t) < m) ts)"
    for a ts m by (rule flush_older_holds)
  show "holds a ts \<Longrightarrow> holds (snd (flush_older_than ops m a)) (filter (\<lambda>t. \<not> fst (tick_key t) < m) ts)"
    for a ts m by (rule flush_older_holds)
  show "holds a ts \<Longrightarrow> flush_all ops a = candles_of ops ts" for a ts by (rule flush_all_holds)
  show "candles_of ops (filter (\<lambda>t. fst (tick_key t) < m) ts) @
      candles_of ops (filter (\<lambda>t. \<not> fst (tick_key t) < m) ts) = candles_of ops ts" for m ts
    by (rule candles_of_split)
  show "mset ts = mset us \<Longrightarrow> candles_of ops ts = candles_of ops us" for ts us by (rule candles_of_mset)
qed

section \<open>The columns of a candle\<close>

definition priced_fills :: "dec_ops \<Rightarrow> open_bucket \<Rightarrow> fill list" where
  "priced_fills ops b = filter (\<lambda>f. fl_price_forming f \<and> price_survives_column_scale ops (fl_price f))
     (sort_key fill_sort_key (ob_fills b))"

lemma finalise_alt:
  "finalise ops b = set_prices ops (priced_fills ops b)
     (set_volumes ops (sort_key fill_sort_key (ob_fills b)) (ob_candle b))"
  by (simp add: finalise_def priced_fills_def Let_def)

lemma finalise_counts [simp]:
  "oc_trade_count (fst (finalise ops b)) = oc_trade_count (ob_candle b)"
  "oc_version (fst (finalise ops b)) = oc_version (ob_candle b)"
  by (simp_all add: finalise_def set_prices_def set_volumes_def Let_def split: prod.split list.split)

lemma scan_priced_columns:
  "pc_high (fst (scan_priced ops fs (pc, b))) = fold max (map fl_price fs) (pc_high pc) \<and>
   pc_low (fst (scan_priced ops fs (pc, b))) = fold min (map fl_price fs) (pc_low pc) \<and>
   pc_last (fst (scan_priced ops fs (pc, b))) = (if fs = [] then pc_last pc else last fs) \<and>
   pc_count (fst (scan_priced ops fs (pc, b))) = pc_count pc + of_nat (length fs)"
proof (induction fs arbitrary: pc b)
  case (Cons f fs)
  then show ?case
    by (simp add: Let_def split_beta max.commute min.commute)
qed simp

lemma set_prices_columns:
  assumes "fs \<noteq> []"
  shows "oc_high (fst (set_prices ops fs x)) = Max (fl_price ` set fs)"
    and "oc_low (fst (set_prices ops fs x)) = Min (fl_price ` set fs)"
    and "oc_open (fst (set_prices ops fs x)) = fl_price (hd fs)"
    and "oc_close (fst (set_prices ops fs x)) = fl_price (last fs)"
    and "oc_pf_trade_count (fst (set_prices ops fs x)) = of_nat (length fs)"
proof -
  obtain f fs' where fs: "fs = f # fs'" using assms by (cases fs) auto
  obtain c b where x: "x = (c, b)" by (cases x)
  let ?start = "\<lparr>pc_high = fl_price f, pc_low = fl_price f, pc_last = f, pc_count = 0, pc_volume = 0, pc_price_volume = 0\<rparr>"
  have mm: "fold max (map fl_price fs) (fl_price f) = Max (fl_price ` set fs)"
    "fold min (map fl_price fs) (fl_price f) = Min (fl_price ` set fs)"
    using Max.set_eq_fold [of "fl_price f" "map fl_price fs'"] Min.set_eq_fold [of "fl_price f" "map fl_price fs'"]
    by (simp_all add: fs)
  note scan = scan_priced_columns [of ops fs ?start b]
  show "oc_high (fst (set_prices ops fs x)) = Max (fl_price ` set fs)"
    "oc_low (fst (set_prices ops fs x)) = Min (fl_price ` set fs)"
    "oc_open (fst (set_prices ops fs x)) = fl_price (hd fs)"
    "oc_close (fst (set_prices ops fs x)) = fl_price (last fs)"
    "oc_pf_trade_count (fst (set_prices ops fs x)) = of_nat (length fs)"
    using scan mm by (simp_all add: set_prices_def x fs Let_def split_beta del: scan_priced.simps fold_simps)
qed

lemma set_prices_none: "set_prices ops [] x = x"
  by (simp add: set_prices_def split: prod.split)

lemma set_volumes_keeps [simp]:
  "oc_high (fst (set_volumes ops fs c)) = oc_high c" "oc_low (fst (set_volumes ops fs c)) = oc_low c"
  "oc_open (fst (set_volumes ops fs c)) = oc_open c" "oc_close (fst (set_volumes ops fs c)) = oc_close c"
  "oc_pf_trade_count (fst (set_volumes ops fs c)) = oc_pf_trade_count c"
  "oc_pf_volume (fst (set_volumes ops fs c)) = oc_pf_volume c"
  "oc_pf_price_volume (fst (set_volumes ops fs c)) = oc_pf_price_volume c"
  by (simp_all add: set_volumes_def Let_def split: prod.split)

lemma opened_zero [simp]:
  "oc_high (ob_candle (opened key ts)) = 0" "oc_low (ob_candle (opened key ts)) = 0"
  "oc_open (ob_candle (opened key ts)) = 0" "oc_close (ob_candle (opened key ts)) = 0"
  "oc_pf_trade_count (ob_candle (opened key ts)) = 0" "oc_pf_volume (ob_candle (opened key ts)) = 0"
  "oc_pf_price_volume (ob_candle (opened key ts)) = 0"
  "oc_trade_count (ob_candle (opened key ts)) = of_nat (length ts)"
  "oc_version (ob_candle (opened key ts)) = Max (set (map tick_version ts))"
  by (simp_all add: opened_def open_candle_def split: prod.split)

section \<open>Saturation\<close>

definition in_column :: "rat \<Rightarrow> bool" where
  "in_column x \<longleftrightarrow> \<bar>x\<bar> \<le> of_int candle_column_max_integer"

lemma column_domain_value: "dec_laws ops \<Longrightarrow> column_domain_max ops = of_int candle_column_max_integer"
  using column_constants(2) by (simp add: column_domain_max_def candle_price_column_max_def)

lemma in_column_0 [simp]: "in_column 0"
  by (simp add: in_column_def candle_column_max_integer_def)

lemma clamp_in_column:
  assumes "dec_laws ops"
  shows "in_column (fst (clamp_add ops b x y))" "in_column (fst (clamp_mul ops b x y))" "in_column (fst (clamp_div ops b x y))"
proof -
  have "in_column (fst (clamp_value ops b x))" "in_column (fst (clamp_saturated ops b))" for b x
    by (auto simp: clamp_value_def clamp_saturated_def Let_def in_column_def column_domain_value [OF assms]
        candle_column_max_integer_def)
  then show "in_column (fst (clamp_add ops b x y))" "in_column (fst (clamp_mul ops b x y))" "in_column (fst (clamp_div ops b x y))"
    by (simp_all add: clamp_add_def clamp_mul_def clamp_div_def split: option.split)
qed

lemma sum_volumes_in_column:
  assumes "dec_laws ops" and "in_column (fst out)" and "in_column (fst (snd out))"
  shows "in_column (fst (sum_volumes ops fs out)) \<and> in_column (fst (snd (sum_volumes ops fs out)))"
  using assms(2,3)
proof (induction fs arbitrary: out)
  case (Cons f fs)
  obtain vb vq b where out: "out = (vb, vq, b)" by (cases out)
  show ?case
    unfolding out by (simp add: Let_def split_beta Cons.IH clamp_in_column [OF assms(1)])
qed simp

lemma scan_priced_in_column:
  assumes "dec_laws ops" and "in_column (pc_volume pc)" and "in_column (pc_price_volume pc)"
  shows "in_column (pc_volume (fst (scan_priced ops fs (pc, b)))) \<and>
    in_column (pc_price_volume (fst (scan_priced ops fs (pc, b))))"
  using assms(2,3)
proof (induction fs arbitrary: pc b)
  case (Cons f fs)
  show ?case
    by (simp add: Let_def split_beta Cons.IH clamp_in_column [OF assms(1)])
qed simp

lemma candle_volumes_in_column:
  assumes "dec_laws ops"
  shows "in_column (oc_volume_base (candle_of ops ticks key)) \<and> in_column (oc_volume_quote (candle_of ops ticks key)) \<and>
    in_column (oc_vwap (candle_of ops ticks key)) \<and> in_column (oc_pf_volume (candle_of ops ticks key)) \<and>
    in_column (oc_pf_price_volume (candle_of ops ticks key))"
proof -
  define b where "b = opened key (filter (\<lambda>t. tick_key t = key) ticks)"
  let ?v = "set_volumes ops (sort_key fill_sort_key (ob_fills b)) (ob_candle b)"
  have v: "in_column (oc_volume_base (fst ?v)) \<and> in_column (oc_volume_quote (fst ?v)) \<and> in_column (oc_vwap (fst ?v)) \<and>
      in_column (oc_pf_volume (fst ?v)) \<and> in_column (oc_pf_price_volume (fst ?v))"
    using sum_volumes_in_column [OF assms, of "(0, 0, False)" "sort_key fill_sort_key (ob_fills b)"]
    by (simp add: set_volumes_def Let_def split_beta b_def clamp_in_column [OF assms])
  show ?thesis
  proof (cases "priced_fills ops b")
    case Nil
    then show ?thesis
      using v by (simp add: candle_of_def b_def [symmetric] finalise_alt set_prices_none)
  next
    case (Cons f fs)
    then show ?thesis
      using v scan_priced_in_column [OF assms]
      by (simp add: candle_of_def b_def [symmetric] finalise_alt set_prices_def Let_def split_beta del: scan_priced.simps)
  qed
qed

lemma in_column_storable:
  assumes "dec_laws ops" and "in_column x"
  shows "\<bar>decimal_to_i128 ops x\<bar> \<le> (10 ^ 24 - 1) * 10 ^ 14"
proof -
  obtain k where k: "decimal_to_i128 ops x = saturating_i128 k" "d_round ops x candle_price_scale = of_int k / 10 ^ 14"
    by (rule decimal_to_i128_rounded [OF assms(1)])
  have "\<bar>of_int k / 10 ^ 14 - x\<bar> \<le> 1 / (2 * 10 ^ 14)"
    using dec_round_err [OF assms(1), of x candle_price_scale] unfolding k(2) unfolding candle_price_scale_def .
  then have "\<bar>of_int k :: rat\<bar> \<le> of_int candle_column_max_integer * 10 ^ 14 + 1 / 2"
  proof -
    have "of_int k \<le> x * 10 ^ 14 + 1 / 2" "x * 10 ^ 14 - 1 / 2 \<le> of_int k"
      using \<open>\<bar>of_int k / 10 ^ 14 - x\<bar> \<le> 1 / (2 * 10 ^ 14)\<close> unfolding abs_le_iff by (simp_all add: field_simps)
    moreover have "x \<le> of_int candle_column_max_integer" "- of_int candle_column_max_integer \<le> x"
      using assms(2) unfolding in_column_def by linarith+
    then have "x * 10 ^ 14 \<le> of_int candle_column_max_integer * 10 ^ 14"
      "- of_int candle_column_max_integer * 10 ^ 14 \<le> x * 10 ^ 14"
      by (simp_all only: mult_right_mono zero_le_power zero_le_numeral)
    ultimately show ?thesis
      unfolding abs_le_iff by (intro conjI) linarith+
  qed
  then have "\<bar>k\<bar> \<le> candle_column_max_integer * 10 ^ 14"
    by (simp add: candle_column_max_integer_def abs_le_iff) linarith
  then show ?thesis
    by (auto simp: k(1) saturating_i128_def candle_column_max_integer_def)
qed

section \<open>Properties\<close>

text \<open>
  C26: The candles of a run depend on its fills only, not on the order they reach the accumulator: merging any
  rearrangement of the same ticks and flushing gives the identical candle list, every column included, because
  finalise sorts the fills on a total key before it computes anything.
\<close>

theorem candles_ignore_arrival_order:
  assumes "mset ts = mset us"
  shows "flush_all ops (fold merge ts accumulator_new) = flush_all ops (fold merge us accumulator_new)"
  by (rule minutes.arrival_order_free [OF assms])

definition sample_tick :: "u16 \<Rightarrow> i64 \<Rightarrow> rat \<Rightarrow> bool \<Rightarrow> trade_tick" where
  "sample_tick op t price pf = \<lparr>tk_ledger_sequence = 100, tk_closed_at = t, tk_transaction_index = 0,
     tk_operation_index = op, tk_claim_index = 0, tk_base = Native, tk_quote = Credit ''ABC'' ''X'', tk_price = price,
     tk_volume_base = 10, tk_volume_quote = 10 * price, tk_price_forming = pf\<rparr>"

theorem candles_ignore_arrival_order_witness:
  "flush_all exact_ops (fold merge [sample_tick 1 60 2 True, sample_tick 0 61 3 True] accumulator_new) =
   flush_all exact_ops (fold merge [sample_tick 0 61 3 True, sample_tick 1 60 2 True] accumulator_new)"
  by (rule candles_ignore_arrival_order) simp

text \<open>
  flush_all emits exactly one candle per (minute, base, quote) that was traded, in ascending key order; its
  trade_count is the number of fills of that key modulo 2^32 and its version the largest version among them.
\<close>

lemma one_candle_per_minute_and_pair:
  "let out = flush_all ops (fold merge ticks accumulator_new) in
    map candle_key out = sorted_list_of_set (tick_key ` set ticks) \<and>
    list_all (\<lambda>c. let own = filter (\<lambda>t. tick_key t = candle_key c) ticks in
      oc_trade_count c = of_nat (length own) \<and> oc_version c = Max (tick_version ` set own)) out"
proof -
  have out: "flush_all ops (fold merge ticks accumulator_new) = candles_of ops ticks"
    using flush_all_holds [OF holds_fold [OF holds_new], of ops ticks] by simp
  have key: "candle_key (candle_of ops ticks key) = key" for key
    by (simp add: candle_of_def)
  show ?thesis
    unfolding out Let_def candles_of_def
    by (simp add: list_all_iff key) (simp add: candle_of_def comp_def key)
qed

text \<open>
  C34: finalise computes the candle ADR 0287 defines: the priced fills are those that form a price and survive
  the column scale, in fill-key order; open and close are the prices of the first and last, high and low their
  extremes, low <= open, close <= high; with none the prices and price sums are zero.
\<close>

theorem candle_prices_are_those_of_its_fills:
  "let b = opened key ticks; priced = priced_fills ops b; c = fst (finalise ops b) in
    oc_pf_trade_count c = of_nat (length priced) \<and>
    set priced = {f. f \<in> set (map fill_of ticks) \<and> fl_price_forming f \<and> price_survives_column_scale ops (fl_price f)} \<and>
    sorted (map fill_sort_key priced) \<and>
    (if priced = [] then oc_open c = 0 \<and> oc_high c = 0 \<and> oc_low c = 0 \<and> oc_close c = 0 \<and>
       oc_pf_volume c = 0 \<and> oc_pf_price_volume c = 0
     else oc_open c = fl_price (hd priced) \<and> oc_close c = fl_price (last priced) \<and>
       oc_high c = Max (fl_price ` set priced) \<and> oc_low c = Min (fl_price ` set priced) \<and>
       oc_low c \<le> oc_open c \<and> oc_open c \<le> oc_high c \<and> oc_low c \<le> oc_close c \<and> oc_close c \<le> oc_high c)"
proof -
  define b where "b = opened key ticks"
  have set: "set (priced_fills ops b) =
      {f. f \<in> set (map fill_of ticks) \<and> fl_price_forming f \<and> price_survives_column_scale ops (fl_price f)}"
    by (auto simp: priced_fills_def b_def opened_def)
  have sorted: "sorted (map fill_sort_key (priced_fills ops b))"
    unfolding priced_fills_def by (rule sorted_filter) simp
  show ?thesis
  proof (cases "priced_fills ops b = []")
    case True
    then show ?thesis
      using set sorted unfolding b_def [symmetric] Let_def
      by (simp add: finalise_alt set_prices_none) (simp add: b_def)
  next
    case False
    let ?c = "fst (finalise ops b)" and ?fs = "priced_fills ops b"
    have "Min (fl_price ` set ?fs) \<le> fl_price f \<and> fl_price f \<le> Max (fl_price ` set ?fs)" if "f \<in> set ?fs" for f
      using that by simp
    then have "oc_pf_trade_count ?c = of_nat (length ?fs) \<and> oc_open ?c = fl_price (hd ?fs) \<and>
        oc_close ?c = fl_price (last ?fs) \<and> oc_high ?c = Max (fl_price ` set ?fs) \<and>
        oc_low ?c = Min (fl_price ` set ?fs) \<and> oc_low ?c \<le> oc_open ?c \<and> oc_open ?c \<le> oc_high ?c \<and>
        oc_low ?c \<le> oc_close ?c \<and> oc_close ?c \<le> oc_high ?c"
      using set_prices_columns [OF False] hd_in_set [OF False] last_in_set [OF False]
      unfolding finalise_alt by metis
    then show ?thesis
      using set sorted False unfolding b_def [symmetric] Let_def by simp
  qed
qed

text \<open>
  A row whose nine decimals fit \<open>Decimal(38, 14)\<close>, and which has either no price-forming fill and zero
  prices, or prices of at least 100 ticks of the column.
\<close>

definition storable_candle :: "dec_ops \<Rightarrow> candle \<Rightarrow> bool" where
  "storable_candle ops c \<longleftrightarrow>
     list_all (\<lambda>x. \<bar>decimal_to_i128 ops x\<bar> \<le> (10 ^ 24 - 1) * 10 ^ 14)
       [oc_open c, oc_high c, oc_low c, oc_close c, oc_volume_base c, oc_volume_quote c, oc_vwap c,
        oc_pf_volume c, oc_pf_price_volume c] \<and>
     (if oc_pf_trade_count c = 0 then oc_open c = 0 \<and> oc_high c = 0 \<and> oc_low c = 0 \<and> oc_close c = 0
      else list_all (\<lambda>x. 100 \<le> \<bar>decimal_to_i128 ops x\<bar>) [oc_open c, oc_high c, oc_low c, oc_close c])"

text \<open>
  C35: Every candle a run of fewer than 2^32 fills flushes fits the Decimal(38, 14) columns: each mantissa
  written is at most (10^24 - 1) * 10^14 in absolute value, and the prices are all zero when no fill formed a
  price and at least the resolution of the column otherwise.
\<close>

theorem every_column_is_storable:
  assumes "dec_laws ops" and "length ticks < 2 ^ 32"
  shows "list_all (storable_candle ops) (flush_all ops (fold merge ticks accumulator_new))"
proof -
  have out: "flush_all ops (fold merge ticks accumulator_new) = candles_of ops ticks"
    using flush_all_holds [OF holds_fold [OF holds_new], of ops ticks] by simp
  have volumes: "in_column x \<Longrightarrow> \<bar>decimal_to_i128 ops x\<bar> \<le> (10 ^ 24 - 1) * 10 ^ 14" for x
    by (rule in_column_storable [OF assms(1)])
  have "list_all (\<lambda>x. \<bar>decimal_to_i128 ops x\<bar> \<le> (10 ^ 24 - 1) * 10 ^ 14) [oc_open c, oc_high c, oc_low c, oc_close c] \<and>
      (if oc_pf_trade_count c = 0 then oc_open c = 0 \<and> oc_high c = 0 \<and> oc_low c = 0 \<and> oc_close c = 0
       else list_all (\<lambda>x. 100 \<le> \<bar>decimal_to_i128 ops x\<bar>) [oc_open c, oc_high c, oc_low c, oc_close c])"
    if c: "c = candle_of ops ticks key" for c key
  proof -
    define own where "own = filter (\<lambda>t. tick_key t = key) ticks"
    define b where "b = opened key own"
    have cb: "c = fst (finalise ops b)"
      by (simp add: c candle_of_def b_def own_def)
    show ?thesis
    proof (cases "priced_fills ops b = []")
      case True
      then show ?thesis
        using volumes [of 0] by (simp add: cb finalise_alt set_prices_none) (simp add: b_def)
    next
      case False
      let ?fs = "priced_fills ops b"
      have range: "100 \<le> \<bar>decimal_to_i128 ops (fl_price f)\<bar> \<and> \<bar>decimal_to_i128 ops (fl_price f)\<bar> \<le> (10 ^ 24 - 1) * 10 ^ 14"
        if "f \<in> set ?fs" for f
        using that surviving_price_range [OF assms(1), of "fl_price f"] by (simp add: priced_fills_def)
      have "Max (fl_price ` set ?fs) \<in> fl_price ` set ?fs" "Min (fl_price ` set ?fs) \<in> fl_price ` set ?fs"
        using False by (auto intro!: Max_in Min_in)
      then have "\<exists>f \<in> set ?fs. Max (fl_price ` set ?fs) = fl_price f" "\<exists>f \<in> set ?fs. Min (fl_price ` set ?fs) = fl_price f"
        by (simp_all add: image_iff)
      then have mm: "\<exists>f \<in> set ?fs. oc_high c = fl_price f" "\<exists>f \<in> set ?fs. oc_low c = fl_price f"
        "\<exists>f \<in> set ?fs. oc_open c = fl_price f" "\<exists>f \<in> set ?fs. oc_close c = fl_price f"
        using set_prices_columns [OF False] False unfolding cb finalise_alt by (auto intro: hd_in_set last_in_set)
      have len: "length ?fs \<le> length ticks"
        unfolding priced_fills_def by (rule order_trans [OF length_filter_le]) (simp add: b_def opened_def own_def)
      have "oc_pf_trade_count c \<noteq> 0"
      proof -
        have "length ?fs < 2 ^ 32" "0 < length ?fs"
          using len assms(2) False by simp_all
        then have "unat (of_nat (length ?fs) :: u32) = length ?fs"
          by (simp add: unat_of_nat)
        then show ?thesis
          using set_prices_columns(5) [OF False] \<open>0 < length ?fs\<close> unfolding cb finalise_alt by (metis unat_0 less_irrefl)
      qed
      then show ?thesis
        using mm range by auto
    qed
  qed
  then have "storable_candle ops (candle_of ops ticks key)" for key
    using candle_volumes_in_column [OF assms(1), of ticks key] volumes
    unfolding storable_candle_def list.pred_inject by blast
  then show ?thesis
    unfolding out candles_of_def by (simp add: list_all_iff)
qed

theorem every_column_is_storable_witness:
  "let out = flush_all exact_ops (fold merge [sample_tick 1 60 2 True, sample_tick 0 61 3 True] accumulator_new) in
    length out = 1 \<and> list_all (storable_candle exact_ops) out"
proof -
  let ?ticks = "[sample_tick 1 60 2 True, sample_tick 0 61 3 True]"
  have "flush_all exact_ops (fold merge ?ticks accumulator_new) = candles_of exact_ops ?ticks"
    using flush_all_holds [OF holds_fold [OF holds_new], of exact_ops ?ticks] by simp
  then have "length (flush_all exact_ops (fold merge ?ticks accumulator_new)) = 1"
    by (simp add: candles_of_def sample_tick_def tick_key_def minute_of_def)
  moreover have "list_all (storable_candle exact_ops) (flush_all exact_ops (fold merge ?ticks accumulator_new))"
    by (rule every_column_is_storable [OF exact_ops_laws]) simp
  ultimately show ?thesis
    unfolding Let_def by blast
qed

end
