(* ===== verification/Reconcile.thy ===== *)
theory Reconcile
  imports Run_Boundary Galexie_Key Soroban Bucket
begin

text \<open>
  The live processor's run (\<open>Reconciler\<close> of \<open>prices-ledger-processor/src/reconcile.rs\<close>): read the
  cursor, fetch and decode objects up to a gap or the iteration budget, merge their fills, decide where the run
  ends, then write assets, pools, candles, oracle rows and last the cursor. The S3 fetcher, the decoder of an
  object and the outcome of each write are parameters; the writes that succeed are recorded in order.
\<close>

section \<open>The outside\<close>

datatype cursor_error = CursorEmpty | CursorRead string | CursorWrite string | CursorParse string

datatype reconcile_error =
  CursorFailed cursor_error
| FetchFailed string
| DecodeFailed string
| SinkFailed string

text \<open>A write of the run, as the sink and the cursor see it.\<close>

datatype effect =
  WriteNewAssets "asset_identity list"
| WritePoolRows "pool_row list"
| WriteCandles "candle list" string
| WriteOracle "oracle_sample list"
| WriteCursor u64

record run_env =
  rn_asset_env :: asset_env
  rn_ops :: dec_ops
  rn_hex :: "u8 list \<Rightarrow> string"
  rn_group_iter :: "(string, event_row list) hmap \<Rightarrow> (string \<times> event_row list) list"
  rn_source_iter :: "(string, accumulator) hmap \<Rightarrow> (string \<times> accumulator) list"
  rn_events :: "transaction_meta \<Rightarrow> string \<Rightarrow> u32 \<Rightarrow> i64 \<Rightarrow> extracted_event list"
  rn_cursor :: "(cursor_error, u64) result"
  rn_fetch :: "string \<Rightarrow> (string, u8 list option) result"
  rn_decode :: "u8 list \<Rightarrow> (string, ledger_close_meta list) result"
  rn_failure :: "effect list \<Rightarrow> effect \<Rightarrow> string option"

text \<open>The header fields \<open>decode.rs\<close> reads for the run.\<close>

definition ledger_sequence :: "ledger_close_meta \<Rightarrow> u32" where
  "ledger_sequence ledger = lb_ledger_seq (lcm_contents ledger)"

definition ledger_close_time :: "ledger_close_meta \<Rightarrow> i64" where
  "ledger_close_time ledger = lb_close_time (lcm_contents ledger)"

section \<open>State\<close>

record processing_state =
  ps_assets :: asset_registry
  ps_registries :: registries
  ps_persisted_pools :: "(string, pool_row) hmap"

definition initial_state :: "(u8 list \<Rightarrow> string) \<Rightarrow> asset_registry \<Rightarrow> registries \<Rightarrow> processing_state" where
  "initial_state enc assets registries =
     (let registries = merge_static_pools registries
      in \<lparr>ps_assets = assets, ps_registries = registries,
          ps_persisted_pools = snapshot_rows enc registries\<rparr>)"

text \<open>The timing samples of \<open>ch_write\<close> are their number; none is recorded for an empty write.\<close>

record run_stats =
  rs_start_cursor :: u64
  rs_end_cursor :: u64
  rs_ledgers_persisted :: u64
  rs_ledgers_held_back :: u64
  rs_forced_partial_flush :: bool
  rs_offer_lookups :: offer_lookup_counts
  rs_rows_emitted :: u64
  rs_pools_persisted :: u64
  rs_unregistered :: "(string, u64) hmap"
  rs_ch_write_samples :: nat

definition idle_stats :: "u64 \<Rightarrow> run_stats" where
  "idle_stats start = \<lparr>rs_start_cursor = start, rs_end_cursor = start, rs_ledgers_persisted = 0,
     rs_ledgers_held_back = 0, rs_forced_partial_flush = False, rs_offer_lookups = counts_default,
     rs_rows_emitted = 0, rs_pools_persisted = 0, rs_unregistered = [], rs_ch_write_samples = 0\<rparr>"

section \<open>Reading the contiguous run\<close>

record run_acc =
  ra_assets :: asset_registry
  ra_registries :: registries
  ra_sdex :: accumulator
  ra_amm :: "(string, accumulator) hmap"
  ra_oracle :: "oracle_sample list"
  ra_minutes :: "ledger_minute list"
  ra_offer_lookups :: "(u32 \<times> offer_lookup_counts) list"
  ra_unregistered :: "(u32 \<times> string \<times> u32) list"
  ra_current :: u64
  ra_persisted :: u64

definition run_acc_new :: "processing_state \<Rightarrow> u64 \<Rightarrow> run_acc" where
  "run_acc_new st start = \<lparr>ra_assets = ps_assets st, ra_registries = ps_registries st, ra_sdex = accumulator_new,
     ra_amm = [], ra_oracle = [], ra_minutes = [], ra_offer_lookups = [], ra_unregistered = [],
     ra_current = start, ra_persisted = 0\<rparr>"

definition merge_trade :: "asset_env \<Rightarrow> dec_ops \<Rightarrow> raw_trade \<Rightarrow> asset_registry \<times> accumulator \<Rightarrow> (asset_registry \<times> accumulator) option" where
  "merge_trade env ops trade = (\<lambda>(assets, sdex).
     map_option (\<lambda>(tick, assets). (assets, merge tick sdex))
       (raw_trade_to_tick env ops trade assets))"

definition merge_amm :: "string \<times> trade_tick \<Rightarrow> (string, accumulator) hmap \<Rightarrow> (string, accumulator) hmap" where
  "merge_amm = (\<lambda>(source, tick) amm.
     AList.update source (merge tick (case map_of amm source of Some acc \<Rightarrow> acc | None \<Rightarrow> accumulator_new)) amm)"

text \<open>One ledger of an object; a panic is \<open>None\<close>.\<close>

definition read_ledger ::
  "run_env \<Rightarrow> ledger_close_meta \<Rightarrow> run_acc \<times> (u64 \<times> u32) list \<times> u64 \<Rightarrow> (run_acc \<times> (u64 \<times> u32) list \<times> u64) option" where
  "read_ledger env ledger = (\<lambda>(acc, obj_ledgers, obj_max).
     (let ((trades, offer_lookups), _) = extract_trades_with_counts ledger counts_default
      in Option.bind (fold_opt (merge_trade (rn_asset_env env) (rn_ops env)) trades (ra_assets acc, ra_sdex acc)) (\<lambda>(assets, sdex).
         Option.bind (process_ledger (rn_asset_env env) (rn_ops env) (rn_group_iter env) (rn_events env) ledger
             (ra_registries acc) assets) (\<lambda>st.
           let sob = ss_out st;
               seq = ucast (ledger_sequence ledger);
               minute = minute_of (ledger_close_time ledger)
           in Some (acc\<lparr>ra_assets := ss_assets st, ra_registries := ss_registries st, ra_sdex := sdex,
                ra_amm := fold merge_amm (ls_amm_ticks sob) (ra_amm acc),
                ra_oracle := ra_oracle acc @ ls_oracle sob,
                ra_offer_lookups := ra_offer_lookups acc @ [(minute, offer_lookups)],
                ra_unregistered := ra_unregistered acc @ map (\<lambda>(source, n). (minute, source, n)) (ls_unregistered_events sob)\<rparr>,
              obj_ledgers @ [(seq, minute)], max obj_max seq)))))"

definition object_minutes :: "(u64 \<times> u32) list \<Rightarrow> ledger_minute list" where
  "object_minutes obj_ledgers =
     (let obj_last = max_of (map fst obj_ledgers)
      in map (\<lambda>(s, m). (s, m, Some s = obj_last)) obj_ledgers)"

text \<open>One object: \<open>Inl\<close> is an error return of the run, which leaves the registries as they are by then.\<close>

definition read_object ::
  "run_env \<Rightarrow> u64 \<Rightarrow> u8 list \<Rightarrow> run_acc \<Rightarrow> (reconcile_error, run_acc) result option" where
  "read_object env next bytes acc =
     (case rn_decode env bytes of
        Inl e \<Rightarrow> Some (Inl (DecodeFailed e))
      | Inr ledgers \<Rightarrow>
          map_option (\<lambda>(acc, obj_ledgers, obj_max).
              Inr (acc\<lparr>ra_minutes := ra_minutes acc @ object_minutes obj_ledgers,
                ra_current := max obj_max next, ra_persisted := ra_persisted acc + 1\<rparr>))
            (fold_opt (read_ledger env) ledgers (acc, [], ra_current acc)))"

fun read_run :: "run_env \<Rightarrow> nat \<Rightarrow> run_acc \<Rightarrow> (run_acc \<times> reconcile_error option) option" where
  "read_run env 0 acc = Some (acc, None)"
| "read_run env (Suc n) acc =
     (let next = ra_current acc + 1
      in case rn_fetch env (ledger_s3_key next) of
           Inl e \<Rightarrow> Some (acc, Some (FetchFailed e))
         | Inr None \<Rightarrow> Some (acc, None)
         | Inr (Some bytes) \<Rightarrow>
             Option.bind (read_object env next bytes acc) (\<lambda>r.
               case r of Inl e \<Rightarrow> Some (acc, Some e) | Inr acc \<Rightarrow> read_run env n acc))"

section \<open>Writing\<close>

text \<open>A write either fails, which ends the run, or is recorded.\<close>

type_synonym 'a writing = "effect list \<Rightarrow> effect list \<times> (reconcile_error, 'a) result"

fun write_error :: "effect \<Rightarrow> string \<Rightarrow> reconcile_error" where
  "write_error (WriteCursor _) message = CursorFailed (CursorWrite message)"
| "write_error _ message = SinkFailed message"

definition perform :: "run_env \<Rightarrow> effect \<Rightarrow> unit writing" where
  "perform env e = (\<lambda>trace. case rn_failure env trace e of
     Some message \<Rightarrow> (trace, Inl (write_error e message))
   | None \<Rightarrow> (trace @ [e], Inr ()))"

text \<open>Flush one source and write its candles, counting rows and timed writes.\<close>

definition write_source :: "run_env \<Rightarrow> u32 \<Rightarrow> string \<times> accumulator \<Rightarrow> u64 \<times> nat \<Rightarrow> (u64 \<times> nat) writing" where
  "write_source env flush_boundary = (\<lambda>(source, acc) (rows, samples) trace.
     (let candles = fst (flush_older_than (rn_ops env) flush_boundary acc)
      in case perform env (WriteCandles candles source) trace of
           (trace, Inl e) \<Rightarrow> (trace, Inl e)
         | (trace, Inr _) \<Rightarrow> (trace, Inr (rows + of_nat (length candles), if candles = [] then samples else samples + 1))))"

fun write_sources :: "run_env \<Rightarrow> u32 \<Rightarrow> (string \<times> accumulator) list \<Rightarrow> u64 \<times> nat \<Rightarrow> (u64 \<times> nat) writing" where
  "write_sources env flush_boundary [] counts trace = (trace, Inr counts)"
| "write_sources env flush_boundary (s # sources) counts trace =
     (case write_source env flush_boundary s counts trace of
        (trace, Inl e) \<Rightarrow> (trace, Inl e)
      | (trace, Inr counts) \<Rightarrow> write_sources env flush_boundary sources counts trace)"

definition sum_lookups :: "u32 \<Rightarrow> (u32 \<times> offer_lookup_counts) list \<Rightarrow> offer_lookup_counts" where
  "sum_lookups flush_boundary lookups =
     fold (\<lambda>(_, c) acc. counts_plus acc c) (filter (\<lambda>(minute, _). minute < flush_boundary) lookups) counts_default"

definition sum_unregistered :: "u32 \<Rightarrow> (u32 \<times> string \<times> u32) list \<Rightarrow> (string, u64) hmap" where
  "sum_unregistered flush_boundary dropped =
     fold (\<lambda>(_, source, n) m. AList.update source ((case map_of m source of Some k \<Rightarrow> k | None \<Rightarrow> 0) + ucast n) m)
       (filter (\<lambda>(minute, _, _). minute < flush_boundary) dropped) []"

text \<open>Candles of every source, then the oracle rows, then the cursor.\<close>

definition write_run :: "run_env \<Rightarrow> run_acc \<Rightarrow> u64 \<Rightarrow> u32 \<Rightarrow> (u64 \<times> nat) writing" where
  "write_run env acc cursor flush_boundary trace =
     (case write_sources env flush_boundary ((''sdex'', ra_sdex acc) # rn_source_iter env (ra_amm acc)) (0, 0) trace of
        (trace, Inl e) \<Rightarrow> (trace, Inl e)
      | (trace, Inr counts) \<Rightarrow>
          (case perform env (WriteOracle (ra_oracle acc)) trace of
             (trace, Inl e) \<Rightarrow> (trace, Inl e)
           | (trace, Inr _) \<Rightarrow>
               (case perform env (WriteCursor cursor) trace of
                  (trace, Inl e) \<Rightarrow> (trace, Inl e)
                | (trace, Inr _) \<Rightarrow> (trace, Inr counts))))"

section \<open>The run\<close>

type_synonym run_result = "processing_state \<times> effect list \<times> (reconcile_error, run_stats) result"

definition advance_to :: "run_end \<Rightarrow> run_acc \<Rightarrow> (u64 \<times> u32) option" where
  "advance_to end acc =
     (let highest_decoded = (case max_of (map led_seq (ra_minutes acc)) of Some s \<Rightarrow> s | None \<Rightarrow> ra_current acc)
      in case end of
           Split cursor flush_before \<Rightarrow> Some (cursor, flush_before)
         | FlushAll _ \<Rightarrow> Some (highest_decoded, - 1)
         | Hold \<Rightarrow> None)"

text \<open>The run after its pools are written.\<close>

definition finish_run :: "run_env \<Rightarrow> run_acc \<Rightarrow> run_end \<Rightarrow> u64 \<Rightarrow> u64 \<Rightarrow> run_stats writing" where
  "finish_run env acc end start pools_persisted trace =
     (case advance_to end acc of
        None \<Rightarrow> (trace, Inr ((idle_stats start)\<lparr>rs_ledgers_held_back := of_nat (length (ra_minutes acc)),
          rs_pools_persisted := pools_persisted\<rparr>))
      | Some (cursor, flush_boundary) \<Rightarrow>
          (case write_run env acc cursor flush_boundary trace of
             (trace, Inl e) \<Rightarrow> (trace, Inl e)
           | (trace, Inr (rows, samples)) \<Rightarrow>
               (trace, Inr \<lparr>rs_start_cursor = start, rs_end_cursor = cursor, rs_ledgers_persisted = ra_persisted acc,
                  rs_ledgers_held_back = of_nat (held_back_count (ra_minutes acc) cursor),
                  rs_forced_partial_flush = (end = FlushAll BudgetExhausted),
                  rs_offer_lookups = sum_lookups flush_boundary (ra_offer_lookups acc), rs_rows_emitted = rows,
                  rs_pools_persisted = pools_persisted,
                  rs_unregistered = sum_unregistered flush_boundary (ra_unregistered acc),
                  rs_ch_write_samples = samples\<rparr>)))"

text \<open>The writes of a run that fetched something.\<close>

definition close_run :: "run_env \<Rightarrow> run_acc \<Rightarrow> processing_state \<Rightarrow> u64 \<Rightarrow> nat \<Rightarrow> bool \<Rightarrow> run_result" where
  "close_run env acc st start max_iterations terminal =
     (let end = run_end_of (snd (run_boundary (ra_minutes acc))) (ra_persisted acc) max_iterations
            (length (ra_minutes acc)) terminal
      in case perform env (WriteNewAssets (ar_pending (ps_assets st))) [] of
           (trace, Inl e) \<Rightarrow> (st, trace, Inl e)
         | (trace, Inr _) \<Rightarrow>
             (let st = st\<lparr>ps_assets := clear_pending (ps_assets st)\<rparr>;
                  new_pools = pool_rows_unpersisted (rn_hex env) (ps_registries st) (ps_persisted_pools st)
              in case perform env (WritePoolRows new_pools) trace of
                   (trace, Inl e) \<Rightarrow> (st, trace, Inl e)
                 | (trace, Inr _) \<Rightarrow>
                     (st\<lparr>ps_persisted_pools := persist_rows new_pools (ps_persisted_pools st)\<rparr>,
                      finish_run env acc end start (of_nat (length new_pools)) trace)))"

definition run_inner :: "run_env \<Rightarrow> nat \<Rightarrow> bool \<Rightarrow> processing_state \<Rightarrow> run_result option" where
  "run_inner env max_iterations terminal st =
     (case rn_cursor env of
        Inl e \<Rightarrow> Some (st, [], Inl (CursorFailed e))
      | Inr start \<Rightarrow>
          map_option (\<lambda>(acc, failure).
             (let st = st\<lparr>ps_assets := ra_assets acc, ps_registries := ra_registries acc\<rparr>
              in case failure of
                   Some e \<Rightarrow> (st, [], Inl e)
                 | None \<Rightarrow>
                     if ra_persisted acc = 0 then (st, [], Inr (idle_stats start))
                     else close_run env acc st start max_iterations terminal))
            (read_run env max_iterations (run_acc_new st start)))"

definition run :: "run_env \<Rightarrow> nat \<Rightarrow> processing_state \<Rightarrow> run_result option" where
  "run env max_iterations st = run_inner env max_iterations False st"

definition run_terminal :: "run_env \<Rightarrow> nat \<Rightarrow> processing_state \<Rightarrow> run_result option" where
  "run_terminal env max_iterations st = run_inner env max_iterations True st"

end
