(* ===== verification/Run_Trace.thy ===== *)
theory Run_Trace
  imports Reconcile
begin

text \<open>
  The writes of a run, in order: new assets, new pools, the candles of a prefix of the sources, the oracle rows
  and last the cursor, each only after the one before it succeeded.
\<close>

section \<open>The order of writes\<close>

lemma perform_cases:
  obtains (Fails) message where "perform env e trace = (trace, Inl (write_error e message))"
    "rn_failure env trace e = Some message"
  | (Writes) "perform env e trace = (trace @ [e], Inr ())"
  by (cases "rn_failure env trace e") (auto simp: perform_def)

definition candle_write :: "run_env \<Rightarrow> u32 \<Rightarrow> string \<times> accumulator \<Rightarrow> effect" where
  "candle_write env fb = (\<lambda>(source, acc). WriteCandles (fst (flush_older_than (rn_ops env) fb acc)) source)"

lemma write_sources_trace:
  "\<exists>written rest. sources = written @ rest \<and> (rest \<noteq> [] \<longrightarrow> isl (snd (write_sources env fb sources counts trace))) \<and>
    fst (write_sources env fb sources counts trace) = trace @ map (candle_write env fb) written"
  (is "\<exists>written rest. ?P sources counts trace written rest")
proof (induction sources arbitrary: counts trace)
  case (Cons s sources)
  obtain source acc where s: "s = (source, acc)" by (cases s)
  obtain rows samples where counts: "counts = (rows, samples)" by (cases counts)
  let ?e = "WriteCandles (fst (flush_older_than (rn_ops env) fb acc)) source"
  show ?case
  proof (cases rule: perform_cases [of env ?e trace])
    case (Fails message)
    then have "?P (s # sources) counts trace [] (s # sources)"
      by (simp add: write_source_def s counts Let_def)
    then show ?thesis by blast
  next
    case Writes
    define counts' where "counts' = (rows + of_nat (length (fst (flush_older_than (rn_ops env) fb acc))),
      if fst (flush_older_than (rn_ops env) fb acc) = [] then samples else samples + 1)"
    have step: "write_sources env fb (s # sources) counts trace = write_sources env fb sources counts' (trace @ [?e])"
      using Writes by (simp add: write_source_def s counts Let_def counts'_def)
    obtain written rest where "?P sources counts' (trace @ [?e]) written rest"
      using Cons.IH by blast
    then have "?P (s # sources) counts trace (s # written) rest"
      unfolding step by (auto simp: s candle_write_def)
    then show ?thesis by blast
  qed
qed simp

text \<open>What a run writes after its pools: candles of a prefix of the sources, the oracle rows, the cursor.\<close>

lemma write_run_trace:
  obtains written rest tail where "(''sdex'', ra_sdex acc) # rn_source_iter env (ra_amm acc) = written @ rest"
    and "fst (write_run env acc cursor fb trace) = trace @ map (candle_write env fb) written @ tail"
    and "isl (snd (write_run env acc cursor fb trace)) \<and> (tail = [] \<or> rest = [] \<and> tail = [WriteOracle (ra_oracle acc)]) \<or>
      \<not> isl (snd (write_run env acc cursor fb trace)) \<and> rest = [] \<and> tail = [WriteOracle (ra_oracle acc), WriteCursor cursor]"
proof -
  let ?sources = "(''sdex'', ra_sdex acc) # rn_source_iter env (ra_amm acc)"
  obtain written rest where w: "?sources = written @ rest"
      "rest \<noteq> [] \<longrightarrow> isl (snd (write_sources env fb ?sources (0, 0) trace))"
      "fst (write_sources env fb ?sources (0, 0) trace) = trace @ map (candle_write env fb) written"
    using write_sources_trace by blast
  let ?trace = "trace @ map (candle_write env fb) written"
  obtain r where ws: "write_sources env fb ?sources (0, 0) trace = (?trace, r)"
    using w(3) by (metis prod.collapse)
  show thesis
  proof (cases r)
    case (Inl e)
    show ?thesis
      by (rule that [OF w(1), where tail = "[]"]) (simp_all add: write_run_def ws Inl del: write_sources.simps)
  next
    case (Inr counts)
    then have rest: "rest = []" using w(2) ws by auto
    show ?thesis
    proof (cases rule: perform_cases [of env "WriteOracle (ra_oracle acc)" "?trace"])
      case (Fails m)
      show ?thesis
        by (rule that [OF w(1), where tail = "[]"]) (simp_all add: write_run_def ws Inr Fails del: write_sources.simps)
    next
      case wo: Writes
      show ?thesis
      proof (cases rule: perform_cases [of env "WriteCursor cursor" "?trace @ [WriteOracle (ra_oracle acc)]"])
        case (Fails m)
        show ?thesis
          by (rule that [OF w(1), where tail = "[WriteOracle (ra_oracle acc)]"])
            (simp_all add: write_run_def ws Inr wo rest Fails [simplified] del: write_sources.simps)
      next
        case Writes
        show ?thesis
          by (rule that [OF w(1), where tail = "[WriteOracle (ra_oracle acc), WriteCursor cursor]"])
            (simp_all add: write_run_def ws Inr wo rest Writes [simplified] del: write_sources.simps split: prod.split)
      qed
    qed
  qed
qed

definition end_of :: "run_acc \<Rightarrow> nat \<Rightarrow> bool \<Rightarrow> run_end" where
  "end_of acc max_iterations terminal = run_end_of (snd (run_boundary (ra_minutes acc))) (ra_persisted acc) max_iterations
     (length (ra_minutes acc)) terminal"

text \<open>How the writing half of a run can go.\<close>

lemma close_run_cases:
  assumes "close_run env acc st start max_iterations terminal = (st', trace, res)"
  obtains
    (AssetsFail) "trace = []" "isl res" "st' = st"
  | (PoolsFail) "trace = [WriteNewAssets (ar_pending (ps_assets st))]" "isl res"
      "st' = st\<lparr>ps_assets := clear_pending (ps_assets st)\<rparr>"
  | (Held) rows where "trace = [WriteNewAssets (ar_pending (ps_assets st)), WritePoolRows rows]"
      "rows = pool_rows_unpersisted (rn_hex env) (ps_registries st) (ps_persisted_pools st)"
      "st' = st\<lparr>ps_assets := clear_pending (ps_assets st), ps_persisted_pools := persist_rows rows (ps_persisted_pools st)\<rparr>"
      "advance_to (end_of acc max_iterations terminal) acc = None"
      "\<exists>stats. res = Inr stats \<and> rs_end_cursor stats = start \<and> rs_start_cursor stats = start \<and> rs_rows_emitted stats = 0"
  | (Advanced) rows cursor fb written rest tail where
      "trace = [WriteNewAssets (ar_pending (ps_assets st)), WritePoolRows rows] @ map (candle_write env fb) written @ tail"
      "rows = pool_rows_unpersisted (rn_hex env) (ps_registries st) (ps_persisted_pools st)"
      "st' = st\<lparr>ps_assets := clear_pending (ps_assets st), ps_persisted_pools := persist_rows rows (ps_persisted_pools st)\<rparr>"
      "advance_to (end_of acc max_iterations terminal) acc = Some (cursor, fb)"
      "(''sdex'', ra_sdex acc) # rn_source_iter env (ra_amm acc) = written @ rest"
      "isl res \<and> (tail = [] \<or> rest = [] \<and> tail = [WriteOracle (ra_oracle acc)]) \<or>
        (\<exists>stats. res = Inr stats \<and> rs_end_cursor stats = cursor \<and> rs_start_cursor stats = start) \<and>
        rest = [] \<and> tail = [WriteOracle (ra_oracle acc), WriteCursor cursor]"
proof (cases rule: perform_cases [of env "WriteNewAssets (ar_pending (ps_assets st))" "[]"])
  case (Fails m)
  then show ?thesis
    using assms by (intro AssetsFail) (auto simp: close_run_def)
next
  case wa: Writes
  let ?rows = "pool_rows_unpersisted (rn_hex env) (ps_registries st) (ps_persisted_pools st)"
  show ?thesis
  proof (cases rule: perform_cases [of env "WritePoolRows ?rows" "[WriteNewAssets (ar_pending (ps_assets st))]"])
    case (Fails m)
    then show ?thesis
      using assms wa by (intro PoolsFail) (auto simp: close_run_def Let_def)
  next
    case wp: Writes
    let ?trace = "[WriteNewAssets (ar_pending (ps_assets st)), WritePoolRows ?rows]"
    have run: "(st\<lparr>ps_assets := clear_pending (ps_assets st), ps_persisted_pools := persist_rows ?rows (ps_persisted_pools st)\<rparr>,
        finish_run env acc (end_of acc max_iterations terminal) start (of_nat (length ?rows)) ?trace) = (st', trace, res)"
      using assms wa wp by (simp add: close_run_def Let_def end_of_def)
    then have fin: "finish_run env acc (end_of acc max_iterations terminal) start (of_nat (length ?rows)) ?trace = (trace, res)"
      and st': "st' = st\<lparr>ps_assets := clear_pending (ps_assets st), ps_persisted_pools := persist_rows ?rows (ps_persisted_pools st)\<rparr>"
      by simp_all
    show ?thesis
    proof (cases "advance_to (end_of acc max_iterations terminal) acc")
      case None
      then show ?thesis
        using fin st' by (intro Held [of ?rows]) (auto simp: finish_run_def idle_stats_def)
    next
      case (Some p)
      obtain cursor fb where p: "p = (cursor, fb)" by (cases p)
      obtain written rest tail where w: "(''sdex'', ra_sdex acc) # rn_source_iter env (ra_amm acc) = written @ rest"
          "fst (write_run env acc cursor fb ?trace) = ?trace @ map (candle_write env fb) written @ tail"
          "isl (snd (write_run env acc cursor fb ?trace)) \<and> (tail = [] \<or> rest = [] \<and> tail = [WriteOracle (ra_oracle acc)]) \<or>
            \<not> isl (snd (write_run env acc cursor fb ?trace)) \<and> rest = [] \<and> tail = [WriteOracle (ra_oracle acc), WriteCursor cursor]"
        by (rule write_run_trace)
      obtain trace1 r where wr: "write_run env acc cursor fb ?trace = (trace1, r)"
        by (cases "write_run env acc cursor fb ?trace")
      have "trace = trace1 \<and> isl res = isl r \<and>
          (\<not> isl r \<longrightarrow> (\<exists>stats. res = Inr stats \<and> rs_end_cursor stats = cursor \<and> rs_start_cursor stats = start))"
        using fin by (cases r) (auto simp: finish_run_def Some p wr split: prod.splits)
      then show ?thesis
        using w wr st' Some p by (intro Advanced [of ?rows fb written tail cursor rest]) auto
    qed
  qed
qed

end
