(* ===== verification/Interning.thy ===== *)
theory Interning
  imports Soroban Tick
begin

text \<open>
  What processing a ledger does to the registry and to the ticks: assets are only ever interned, and every tick
  carries the ledger's close time and two identities the registry knows by then.
\<close>

section \<open>Interning a list\<close>

definition interned :: "asset_env \<Rightarrow> asset_identity list \<Rightarrow> asset_registry \<Rightarrow> asset_registry" where
  "interned env xs assets = fold (\<lambda>x r. snd (intern env x r)) xs assets"

lemma interned_simps [simp]:
  "interned env [] assets = assets"
  "interned env (x # xs) assets = interned env xs (snd (intern env x assets))"
  "interned env (xs @ ys) assets = interned env ys (interned env xs assets)"
  by (simp_all add: interned_def)

lemma intern_pending:
  "set (ar_pending (snd (intern env x assets))) =
     set (ar_pending assets) \<union> ({x} - set (ar_known assets))"
  by (auto simp: intern_def register_sac_def split: option.split)

lemma known_interned: "set (ar_known (interned env xs assets)) = set (ar_known assets) \<union> set xs"
  by (induction xs arbitrary: assets) (simp_all add: intern_known)

lemma pending_interned:
  "set (ar_pending (interned env xs assets)) = set (ar_pending assets) \<union> (set xs - set (ar_known assets))"
  by (induction xs arbitrary: assets) (auto simp: intern_known intern_pending)

lemma canonicalise_interned:
  "snd (canonicalise env sold bought assets) =
     interned env [cp_base (orient sold bought), cp_quote (orient sold bought)] assets"
  by (simp add: canonicalise_def Let_def)

section \<open>Progress of a ledger\<close>

text \<open>From one point of a ledger to a later one.\<close>

definition advances ::
  "asset_env \<Rightarrow> i64 \<Rightarrow> asset_registry \<times> ledger_soroban \<Rightarrow> asset_registry \<times> ledger_soroban \<Rightarrow> bool" where
  "advances env ct = (\<lambda>(assets, out) (assets', out'). \<exists>xs new. assets' = interned env xs assets \<and>
     ls_amm_ticks out' = ls_amm_ticks out @ new \<and>
     (\<forall>(source, t) \<in> set new. source \<in> range as_source \<and> tk_closed_at t = ct \<and>
        {tk_base t, tk_quote t} \<subseteq> set (ar_known assets')))"

lemma advances_quiet: "ls_amm_ticks out' = ls_amm_ticks out \<Longrightarrow> advances env ct (assets, out) (interned env xs assets, out')"
  by (auto simp: advances_def)

lemma advances_same: "ls_amm_ticks out' = ls_amm_ticks out \<Longrightarrow> advances env ct (assets, out) (assets, out')"
  using advances_quiet [of out' out env ct assets "[]"] by simp

lemma advances_trans [trans]:
  assumes "advances env ct s1 s2" and "advances env ct s2 s3"
  shows "advances env ct s1 s3"
proof -
  obtain a1 o1 a2 o2 a3 o3 where s: "s1 = (a1, o1)" "s2 = (a2, o2)" "s3 = (a3, o3)"
    by (cases s1; cases s2; cases s3)
  from assms obtain xs new ys new' where r: "a2 = interned env xs a1" "ls_amm_ticks o2 = ls_amm_ticks o1 @ new"
      "\<forall>(source, t) \<in> set new. source \<in> range as_source \<and> tk_closed_at t = ct \<and> {tk_base t, tk_quote t} \<subseteq> set (ar_known a2)"
      "a3 = interned env ys a2" "ls_amm_ticks o3 = ls_amm_ticks o2 @ new'"
      "\<forall>(source, t) \<in> set new'. source \<in> range as_source \<and> tk_closed_at t = ct \<and> {tk_base t, tk_quote t} \<subseteq> set (ar_known a3)"
    by (auto simp: advances_def s)
  have mono: "set (ar_known a2) \<subseteq> set (ar_known a3)"
    by (simp add: r(4) known_interned)
  have new: "\<forall>(source, t) \<in> set (new @ new'). source \<in> range as_source \<and> tk_closed_at t = ct \<and>
      {tk_base t, tk_quote t} \<subseteq> set (ar_known a3)"
    using r(3,6) mono by fastforce
  have chain: "a3 = interned env (xs @ ys) a1" "ls_amm_ticks o3 = ls_amm_ticks o1 @ (new @ new')"
    using r by simp_all
  show ?thesis
    unfolding s advances_def prod.case by (intro exI conjI) (rule chain new)+
qed

lemma fold_opt_advances:
  fixes g :: "'s \<Rightarrow> asset_registry \<times> ledger_soroban"
  assumes "\<And>x s s'. f x s = Some s' \<Longrightarrow> advances env ct (g s) (g s')" and "fold_opt f xs s = Some s'"
  shows "advances env ct (g s) (g s')"
  using assms
proof (induction xs arbitrary: s)
  case Nil
  then show ?case by (cases "g s") (simp add: advances_same)
next
  case (Cons x xs)
  from Cons.prems(2) obtain s1 where s1: "f x s = Some s1" "fold_opt f xs s1 = Some s'"
    by (cases "f x s") auto
  have "advances env ct (g s) (g s1)" using s1(1) by (rule Cons.prems(1))
  also have "advances env ct (g s1) (g s')" using Cons.IH [of s1] Cons.prems(1) s1(2) by blast
  finally show ?case .
qed

lemma amm_tick_SomeD:
  assumes "amm_tick ops resolve tx ct trade = Some (Some t)"
  shows "tk_closed_at t = ct \<and> resolve (tr_token_in trade) \<noteq> resolve (tr_token_out trade) \<and>
    tk_base t = cp_base (orient (resolve (tr_token_in trade)) (resolve (tr_token_out trade))) \<and>
    tk_quote t = cp_quote (orient (resolve (tr_token_in trade)) (resolve (tr_token_out trade)))"
  using assms by (auto simp: amm_tick_def Let_def split: if_splits option.splits)

lemma trade_assets_interned: "\<exists>xs. trade_assets env trade assets = interned env xs assets"
  unfolding trade_assets_def Let_def canonicalise_interned
  by (metis interned_simps(1))

lemma push_trade_advances:
  assumes "push_trade env ops tx ct source trade s = Some s'" and "source \<in> range as_source"
  shows "advances env ct s s'"
proof -
  obtain assets out where s: "s = (assets, out)" by (cases s)
  let ?resolve = "\<lambda>c. resolve_amm_token c assets"
  from assms(1) obtain tick where t: "amm_tick ops ?resolve tx ct trade = Some tick"
      "s' = (trade_assets env trade assets,
        case tick of Some t \<Rightarrow> out\<lparr>ls_amm_ticks := ls_amm_ticks out @ [(source, t)]\<rparr> | None \<Rightarrow> out)"
    by (auto simp: push_trade_def amm_trade_to_tick_alt s)
  obtain xs where xs: "trade_assets env trade assets = interned env xs assets"
    using trade_assets_interned by blast
  show ?thesis
  proof (cases tick)
    case None
    then show ?thesis unfolding s t(2) xs by (simp add: advances_quiet)
  next
    case (Some tk)
    then have "amm_tick ops ?resolve tx ct trade = Some (Some tk)" using t(1) by simp
    note tk = amm_tick_SomeD [OF this]
    then have "{tk_base tk, tk_quote tk} \<subseteq> set (ar_known (trade_assets env trade assets))"
      by (simp add: trade_assets_def Let_def canonicalise_interned known_interned del: interned_simps)
    then show ?thesis
      unfolding s t(2) Some advances_def prod.case option.case
      using tk assms(2) xs by (intro exI [of _ xs] exI [of _ "[(source, tk)]"]) simp
  qed
qed

lemma push_unresolved_ticks [simp]: "ls_amm_ticks (push_unresolved rec out) = ls_amm_ticks out"
  by (simp add: push_unresolved_def split: option.split)

lemma classify_unknown_ticks [simp]: "ls_amm_ticks (classify_unknown c rows seq out) = ls_amm_ticks out"
  by (simp add: classify_unknown_def Let_def)

lemma classify_group_advances:
  assumes "classify_group env ops tx reg seq ct gr s = Some s'"
  shows "advances env ct s s'"
proof -
  obtain c rows assets out where s: "gr = (c, rows)" "s = (assets, out)"
    by (cases gr; cases s)
  show ?thesis
  proof (cases "map_of (reg_venue reg) c")
    case None
    then show ?thesis
      using assms by (auto simp: classify_group_def s intro: advances_same)
  next
    case (Some v)
    let ?fold = "\<lambda>trades. fold_opt (push_trade env ops tx ct (as_source v)) trades (assets, out)"
    let ?fail = "if pool_swaps rows = [] then out
      else out\<lparr>ls_dispatch_errors := ls_dispatch_errors out @ [(as_source v, of_nat (length (pool_swaps rows)))]\<rparr>"
    have "\<exists>a o1. (case dispatch_with reg rows of Inr trades \<Rightarrow> ?fold trades | Inl _ \<Rightarrow> Some (assets, ?fail)) = Some (a, o1) \<and>
        s' = (a, if pair_unresolved v c reg then push_unresolved (unresolved_from_swaps c (pool_swaps rows) seq) o1 else o1)"
      using assms by (auto simp: classify_group_def s Some Let_def split del: if_split)
    then obtain a o1 where mid: "(case dispatch_with reg rows of Inr trades \<Rightarrow> ?fold trades | Inl _ \<Rightarrow> Some (assets, ?fail)) =
        Some (a, o1)" and s': "fst s' = a" "ls_amm_ticks (snd s') = ls_amm_ticks o1"
      by auto
    have "advances env ct (assets, out) (a, o1)"
    proof (cases "dispatch_with reg rows")
      case (Inl e)
      then show ?thesis using mid by (auto intro: advances_same)
    next
      case (Inr trades)
      then have "?fold trades = Some (a, o1)" using mid by simp
      moreover have "advances env ct s s'" if "push_trade env ops tx ct (as_source v) t s = Some s'" for t s s'
        using push_trade_advances [OF that] by simp
      ultimately show ?thesis
        using fold_opt_advances [where g = "\<lambda>s. s" and s = "(assets, out)" and s' = "(a, o1)"] by blast
    qed
    also have "advances env ct (a, o1) s'"
      using s' by (cases s') (simp add: advances_same)
    finally show ?thesis unfolding s .
  qed
qed

lemma classify_amm_groups_advances:
  "classify_amm_groups env ops groups tx reg seq ct s = Some s' \<Longrightarrow> advances env ct s s'"
  unfolding classify_amm_groups_def
  by (rule fold_opt_advances [where g = "\<lambda>s. s", OF classify_group_advances])

lemma decode_reflector_advances: "advances env ct s (decode_reflector env ev s)"
proof -
  have entry: "advances env ct s (reflector_entry env ts e s)" for ts e s
  proof -
    have "\<exists>xs. fst (reflector_entry env ts e s) = interned env xs (fst s) \<and>
        ls_amm_ticks (snd (reflector_entry env ts e s)) = ls_amm_ticks (snd s)"
      by (cases s) (auto simp: reflector_entry_def intro: exI [of _ "[]"] exI [of _ "[x]" for x]
        split: tagged.split list.split option.split)
    then show ?thesis
      by (cases s; cases "reflector_entry env ts e s") (auto intro: advances_quiet)
  qed
  have "advances env ct s (fold (reflector_entry env ts) es s)" for ts es s
  proof (induction es arbitrary: s)
    case Nil
    then show ?case by (cases s) (simp add: advances_same)
  next
    case (Cons e es)
    have "advances env ct s (reflector_entry env ts e s)" by (rule entry)
    also have "advances env ct (reflector_entry env ts e s) (fold (reflector_entry env ts) es (reflector_entry env ts e s))"
      by (rule Cons.IH)
    finally show ?case by simp
  qed
  moreover have "advances env ct s s"
    by (cases s) (simp add: advances_same)
  ultimately show ?thesis
    by (auto simp: decode_reflector_def split: tagged.split option.split)
qed

text \<open>The events of a transaction, then its groups, then the ledger.\<close>

abbreviation assets_out :: "soroban_state \<Rightarrow> asset_registry \<times> ledger_soroban" where
  "assets_out st \<equiv> (ss_assets st, ss_out st)"

lemma event_step_advances:
  "advances env ct (assets_out st) (assets_out (fst (event_step env tx_id seq ev (st, groups))))"
proof (cases "xe_diagnostic ev \<or> xe_contract_id ev = None")
  case True
  then show ?thesis by (auto simp: event_step_def intro: advances_same)
next
  case False
  then obtain c where c: "\<not> xe_diagnostic ev" "xe_contract_id ev = Some c" by auto
  consider "signature (xe_topics ev) = Some ''REFLECTOR''" | "signature (xe_topics ev) = Some ''REDSTONE''"
    | "signature (xe_topics ev) \<noteq> Some ''REFLECTOR''" "signature (xe_topics ev) \<noteq> Some ''REDSTONE''" by blast
  then show ?thesis
  proof cases
    case 1
    then show ?thesis
      using decode_reflector_advances [of env ct "assets_out st" ev]
      by (cases "decode_reflector env ev (assets_out st)") (simp add: event_step_def c)
  next
    case 2
    then show ?thesis by (simp add: event_step_def c decode_redstone_def Let_def advances_same)
  next
    case 3
    then show ?thesis by (simp add: event_step_def c advances_same)
  qed
qed

lemma events_advance:
  "advances env ct (assets_out st) (assets_out (fst (fold (event_step env tx_id seq) events (st, groups))))"
proof (induction events arbitrary: st groups)
  case Nil
  then show ?case by (simp add: advances_same)
next
  case (Cons ev events)
  obtain st1 groups1 where s1: "event_step env tx_id seq ev (st, groups) = (st1, groups1)"
    by (cases "event_step env tx_id seq ev (st, groups)")
  have "advances env ct (assets_out st) (assets_out st1)"
    using event_step_advances [of env ct st tx_id seq ev groups] by (simp add: s1)
  also have "advances env ct (assets_out st1) (assets_out (fst (fold (event_step env tx_id seq) events (st1, groups1))))"
    by (rule Cons.IH)
  finally show ?case by (simp add: s1)
qed

lemma transaction_advances:
  assumes "transaction_soroban env ops iter events_of id_of seq ct tx st = Some st'"
  shows "advances env ct (assets_out st) (assets_out st')"
proof -
  obtain i meta where tx: "tx = (i, meta)" by (cases tx)
  let ?events = "events_of meta (id_of i) seq ct"
  obtain st1 groups where f: "fold (event_step env (id_of i) seq) ?events (st, []) = (st1, groups)"
    by (cases "fold (event_step env (id_of i) seq) ?events (st, [])")
  have "advances env ct (assets_out st) (assets_out st1)"
    using events_advance [of env ct st "id_of i" seq ?events "[]"] by (simp add: f)
  also have "advances env ct (assets_out st1) (assets_out st')"
    using assms classify_amm_groups_advances by (auto simp: transaction_soroban_def tx f Let_def)
  finally show ?thesis .
qed

lemma process_ledger_advances:
  assumes "process_ledger env ops iter events_of ledger reg assets = Some st"
  shows "advances env (lb_close_time (lcm_contents ledger)) (assets, ledger_soroban_default) (assets_out st)"
  using assms fold_opt_advances [where g = assets_out, OF transaction_advances]
  by (fastforce simp: process_ledger_def ledger_header_def)

end
