(* ===== verification/Run_Reading.thy ===== *)
theory Run_Reading
  imports Reconcile Interning
begin

text \<open>
  What the reading half of a run accumulates: each accumulator holds the ticks of the ledgers read, a ledger's
  order-book ticks depend on that ledger alone, and the registry grows by interning only.
\<close>

section \<open>The order-book ticks of a ledger\<close>

definition sdex_tick :: "dec_ops \<Rightarrow> raw_trade \<Rightarrow> trade_tick option" where
  "sdex_tick ops trade =
     (let pair = orient (rt_asset_sold trade) (rt_asset_bought trade)
      in map_option (\<lambda>(price, priced, _). build_tick ops trade pair price priced) (fill_price ops trade (cp_inverted pair)))"

lemma raw_trade_to_tick_alt:
  "raw_trade_to_tick env ops trade assets =
     map_option (\<lambda>t. (t, snd (canonicalise env (rt_asset_sold trade) (rt_asset_bought trade) assets))) (sdex_tick ops trade)"
  by (auto simp: raw_trade_to_tick_def raw_trade_to_tick_with_source_def sdex_tick_def canonicalise_def Let_def
      option.map_comp comp_def split_beta intro!: option.map_cong)

lemma sdex_tick_SomeD:
  assumes "sdex_tick ops trade = Some t"
  shows "tk_closed_at t = rt_closed_at trade \<and>
    tk_base t = cp_base (orient (rt_asset_sold trade) (rt_asset_bought trade)) \<and>
    tk_quote t = cp_quote (orient (rt_asset_sold trade) (rt_asset_bought trade))"
  using assms by (auto simp: sdex_tick_def Let_def build_tick_fields)

definition ledger_sdex :: "dec_ops \<Rightarrow> ledger_close_meta \<Rightarrow> trade_tick list" where
  "ledger_sdex ops ledger = map (\<lambda>f. the (sdex_tick ops (fst f))) (ledger_fills ledger)"

lemma ledger_fills_closed_at:
  "f \<in> set (ledger_fills ledger) \<Longrightarrow> rt_closed_at (fst f) = ledger_close_time ledger"
  by (auto simp: ledger_fills_def transaction_fills_def operation_fills_def claim_fills_def ledger_header_def
      ledger_close_time_def split: prod.splits option.splits operation_result.splits
      dest: claim_to_raw_trade_SomeD claim_to_raw_trade_SomeD [OF sym])

lemma ledger_sdex_minute:
  assumes "dec_laws ops" and "t \<in> set (ledger_sdex ops ledger)"
  shows "fst (tick_key t) = minute_of (ledger_close_time ledger)"
proof -
  obtain f where f: "f \<in> set (ledger_fills ledger)" "t = the (sdex_tick ops (fst f))"
    using assms(2) by (auto simp: ledger_sdex_def)
  have nz: "rt_amount_sold (fst f) \<noteq> 0" "rt_amount_bought (fst f) \<noteq> 0"
    using ledger_fills_nonzero [OF f(1)] by simp_all
  have "fill_price ops (fst f) inverted \<noteq> None" for inverted
    by (rule fill_price_total [OF assms(1) nz, of inverted]) simp
  then have "sdex_tick ops (fst f) \<noteq> None"
    by (simp add: sdex_tick_def Let_def)
  then have "sdex_tick ops (fst f) = Some t"
    using f(2) by auto
  then show ?thesis
    using sdex_tick_SomeD ledger_fills_closed_at [OF f(1)] by (simp add: tick_key_def)
qed

text \<open>A list of ticks is stamped when each carries the close time and two identities known.\<close>

definition stamped :: "i64 \<Rightarrow> asset_identity set \<Rightarrow> trade_tick list \<Rightarrow> bool" where
  "stamped ct known ts \<longleftrightarrow> (\<forall>t \<in> set ts. tk_closed_at t = ct \<and> {tk_base t, tk_quote t} \<subseteq> known)"

lemma stamped_simps [simp]:
  "stamped ct known []"
  "stamped ct known (t # ts) \<longleftrightarrow> tk_closed_at t = ct \<and> {tk_base t, tk_quote t} \<subseteq> known \<and> stamped ct known ts"
  "stamped ct known (ts @ us) \<longleftrightarrow> stamped ct known ts \<and> stamped ct known us"
  by (auto simp: stamped_def)

lemma stamped_mono: "stamped ct known ts \<Longrightarrow> known \<subseteq> known' \<Longrightarrow> stamped ct known' ts"
  by (fastforce simp: stamped_def)

lemma merge_trade_alt:
  "merge_trade env ops trade (assets, sdex) =
     map_option (\<lambda>t. (interned env [cp_base (orient (rt_asset_sold trade) (rt_asset_bought trade)),
         cp_quote (orient (rt_asset_sold trade) (rt_asset_bought trade))] assets, merge t sdex))
       (sdex_tick ops trade)"
  by (simp add: merge_trade_def raw_trade_to_tick_alt canonicalise_interned option.map_comp comp_def del: interned_simps)

lemma merge_trades:
  assumes "fold_opt (merge_trade env ops) trades (assets, sdex) = Some (assets', sdex')"
    and "\<forall>trade \<in> set trades. rt_closed_at trade = ct"
  shows "\<exists>xs. assets' = interned env xs assets \<and>
    sdex' = fold merge (map (\<lambda>trade. the (sdex_tick ops trade)) trades) sdex \<and>
    stamped ct (set (ar_known assets')) (map (\<lambda>trade. the (sdex_tick ops trade)) trades)"
  using assms
proof (induction trades arbitrary: assets sdex)
  case Nil
  then show ?case by (auto intro: exI [of _ "[]"])
next
  case (Cons trade trades)
  let ?pair = "orient (rt_asset_sold trade) (rt_asset_bought trade)"
  let ?assets = "interned env [cp_base ?pair, cp_quote ?pair] assets"
  from Cons.prems(1) obtain t where t: "sdex_tick ops trade = Some t"
      "fold_opt (merge_trade env ops) trades (?assets, merge t sdex) = Some (assets', sdex')"
    by (cases "sdex_tick ops trade")
      (simp_all add: merge_trade_alt del: interned_simps)
  obtain xs where xs: "assets' = interned env xs ?assets"
      "sdex' = fold merge (map (\<lambda>trade. the (sdex_tick ops trade)) trades) (merge t sdex)"
      "stamped ct (set (ar_known assets')) (map (\<lambda>trade. the (sdex_tick ops trade)) trades)"
    using Cons.IH [OF t(2)] Cons.prems(2) by auto
  have "{cp_base ?pair, cp_quote ?pair} \<subseteq> set (ar_known assets')"
    unfolding xs(1) known_interned by auto
  then have "stamped ct (set (ar_known assets')) (map (\<lambda>trade. the (sdex_tick ops trade)) (trade # trades))"
    using xs(3) sdex_tick_SomeD [OF t(1)] Cons.prems(2) by (simp add: t(1))
  moreover have "assets' = interned env ([cp_base ?pair, cp_quote ?pair] @ xs) assets"
    by (simp add: xs(1))
  ultimately show ?case
    using xs(2) t(1) by (intro exI [of _ "[cp_base ?pair, cp_quote ?pair] @ xs"]) (simp del: interned_simps)
qed

section \<open>One ledger\<close>

definition seq_minute :: "ledger_close_meta \<Rightarrow> u64 \<times> u32" where
  "seq_minute ledger = (ucast (ledger_sequence ledger), minute_of (ledger_close_time ledger))"

text \<open>The step of a ledger, with the ticks of its pools made explicit.\<close>

definition ledger_read ::
  "run_env \<Rightarrow> ledger_close_meta \<Rightarrow> (string \<times> trade_tick) list \<Rightarrow> run_acc \<Rightarrow> run_acc \<Rightarrow> bool" where
  "ledger_read env ledger amm acc acc' \<longleftrightarrow>
     (\<exists>xs. ra_assets acc' = interned (rn_asset_env env) xs (ra_assets acc)) \<and>
     ra_sdex acc' = fold merge (ledger_sdex (rn_ops env) ledger) (ra_sdex acc) \<and>
     ra_amm acc' = fold merge_amm amm (ra_amm acc) \<and>
     fst ` set amm \<subseteq> range as_source \<and>
     stamped (ledger_close_time ledger) (set (ar_known (ra_assets acc'))) (ledger_sdex (rn_ops env) ledger @ map snd amm) \<and>
     ra_minutes acc' = ra_minutes acc \<and> ra_current acc' = ra_current acc \<and> ra_persisted acc' = ra_persisted acc"

lemma read_ledger_SomeD:
  assumes "read_ledger env ledger (acc, objs, mx) = Some (acc', objs', mx')"
  shows "objs' = objs @ [seq_minute ledger] \<and> mx' = max mx (fst (seq_minute ledger)) \<and>
    (\<exists>amm. ledger_read env ledger amm acc acc')"
proof -
  obtain trades lookups totals where ex: "extract_trades_with_counts ledger counts_default = ((trades, lookups), totals)"
    by (cases "extract_trades_with_counts ledger counts_default") auto
  have trades: "trades = map fst (ledger_fills ledger)"
    using extract_trades_with_counts_fills [of ledger counts_default] by (simp add: ex)
  from assms obtain assets1 sdex1 st where
      m: "fold_opt (merge_trade (rn_asset_env env) (rn_ops env)) trades (ra_assets acc, ra_sdex acc) = Some (assets1, sdex1)"
    and p: "process_ledger (rn_asset_env env) (rn_ops env) (rn_group_iter env) (rn_events env) ledger
      (ra_registries acc) assets1 = Some st"
    and r: "ra_assets acc' = ss_assets st" "ra_sdex acc' = sdex1"
      "ra_amm acc' = fold merge_amm (ls_amm_ticks (ss_out st)) (ra_amm acc)"
      "ra_minutes acc' = ra_minutes acc" "ra_current acc' = ra_current acc" "ra_persisted acc' = ra_persisted acc"
      "objs' = objs @ [seq_minute ledger]" "mx' = max mx (fst (seq_minute ledger))"
    by (auto simp: read_ledger_def ex Let_def seq_minute_def bind_eq_Some_conv)
  have ct: "\<forall>trade \<in> set trades. rt_closed_at trade = ledger_close_time ledger"
    using ledger_fills_closed_at by (auto simp: trades)
  obtain xs where xs: "assets1 = interned (rn_asset_env env) xs (ra_assets acc)"
      "sdex1 = fold merge (ledger_sdex (rn_ops env) ledger) (ra_sdex acc)"
      "stamped (ledger_close_time ledger) (set (ar_known assets1)) (ledger_sdex (rn_ops env) ledger)"
    using merge_trades [OF m ct] by (auto simp: trades ledger_sdex_def comp_def)
  obtain ys new where ys: "ss_assets st = interned (rn_asset_env env) ys assets1" "ls_amm_ticks (ss_out st) = new"
      "\<forall>(source, t) \<in> set new. source \<in> range as_source \<and> tk_closed_at t = ledger_close_time ledger \<and>
         {tk_base t, tk_quote t} \<subseteq> set (ar_known (ss_assets st))"
    using process_ledger_advances [OF p] by (auto simp: advances_def ledger_soroban_default_def ledger_close_time_def)
  have "set (ar_known assets1) \<subseteq> set (ar_known (ss_assets st))"
    by (simp add: ys(1) known_interned)
  then have st: "stamped (ledger_close_time ledger) (set (ar_known (ss_assets st))) (ledger_sdex (rn_ops env) ledger @ map snd new)"
    using stamped_mono [OF xs(3)] ys(3) by (auto simp: stamped_def)
  have assets: "\<exists>zs. ss_assets st = interned (rn_asset_env env) zs (ra_assets acc)"
    unfolding ys(1) xs(1) interned_simps(3) [symmetric] by (rule exI) (rule refl)
  have sources: "fst ` set new \<subseteq> range as_source"
    using ys(3) by auto
  have "ledger_read env ledger new acc acc'"
    unfolding ledger_read_def r(1-6) ys(2)
    using assets xs(2) sources st by (intro conjI) simp_all
  then show ?thesis
    using r(7,8) by blast
qed

section \<open>The log of a run\<close>

text \<open>The ledgers read so far, each with the ticks of its pools, and what the accumulators hold of them.\<close>

type_synonym run_log = "(ledger_close_meta \<times> (string \<times> trade_tick) list) list"

definition log_sdex :: "dec_ops \<Rightarrow> run_log \<Rightarrow> trade_tick list" where
  "log_sdex ops hist = concat (map (\<lambda>(ledger, _). ledger_sdex ops ledger) hist)"

definition log_amm :: "run_log \<Rightarrow> (string \<times> trade_tick) list" where
  "log_amm hist = concat (map snd hist)"

lemma log_simps [simp]:
  "log_sdex ops [] = []" "log_amm [] = []"
  "log_sdex ops (hist @ hist') = log_sdex ops hist @ log_sdex ops hist'" "log_amm (hist @ hist') = log_amm hist @ log_amm hist'"
  "log_sdex ops [(ledger, amm)] = ledger_sdex ops ledger" "log_amm [(ledger, amm)] = amm"
  by (simp_all add: log_sdex_def log_amm_def)

definition log_ok :: "dec_ops \<Rightarrow> asset_identity set \<Rightarrow> run_log \<Rightarrow> bool" where
  "log_ok ops known hist \<longleftrightarrow> (\<forall>(ledger, amm) \<in> set hist. fst ` set amm \<subseteq> range as_source \<and>
     stamped (ledger_close_time ledger) known (ledger_sdex ops ledger @ map snd amm))"

lemma log_ok_mono: "log_ok ops known hist \<Longrightarrow> known \<subseteq> known' \<Longrightarrow> log_ok ops known' hist"
  unfolding log_ok_def case_prod_beta using stamped_mono by blast

definition logged :: "run_env \<Rightarrow> asset_registry \<Rightarrow> run_log \<Rightarrow> run_acc \<Rightarrow> bool" where
  "logged env assets hist acc \<longleftrightarrow>
     (\<exists>xs. ra_assets acc = interned (rn_asset_env env) xs assets) \<and>
     ra_sdex acc = fold merge (log_sdex (rn_ops env) hist) accumulator_new \<and>
     ra_amm acc = fold merge_amm (log_amm hist) [] \<and>
     log_ok (rn_ops env) (set (ar_known (ra_assets acc))) hist"

lemma logged_new: "logged env (ps_assets st) [] (run_acc_new st start)"
  unfolding logged_def by (auto simp: run_acc_new_def log_ok_def intro: exI [of _ "[]"])

lemma logged_ledger:
  assumes "logged env assets hist acc" and "ledger_read env ledger amm acc acc'"
  shows "logged env assets (hist @ [(ledger, amm)]) acc'"
proof -
  obtain xs where xs: "ra_assets acc = interned (rn_asset_env env) xs assets"
    using assms(1) by (auto simp: logged_def)
  obtain ys where ys: "ra_assets acc' = interned (rn_asset_env env) ys (ra_assets acc)"
    using assms(2) by (auto simp: ledger_read_def)
  have mono: "set (ar_known (ra_assets acc)) \<subseteq> set (ar_known (ra_assets acc'))"
    by (simp add: ys known_interned)
  then have "log_ok (rn_ops env) (set (ar_known (ra_assets acc'))) hist"
    using log_ok_mono assms(1) unfolding logged_def by blast
  then have ok: "log_ok (rn_ops env) (set (ar_known (ra_assets acc'))) (hist @ [(ledger, amm)])"
    using assms(2) by (auto simp: log_ok_def ledger_read_def)
  have assets: "\<exists>zs. ra_assets acc' = interned (rn_asset_env env) zs assets"
    unfolding ys xs interned_simps(3) [symmetric] by (rule exI) (rule refl)
  have "ra_sdex acc' = fold merge (log_sdex (rn_ops env) (hist @ [(ledger, amm)])) accumulator_new"
    "ra_amm acc' = fold merge_amm (log_amm (hist @ [(ledger, amm)])) []"
    using assms by (simp_all add: logged_def ledger_read_def)
  with assets ok show ?thesis
    unfolding logged_def by (intro conjI)
qed

lemma logged_with [simp]:
  "logged env assets hist (acc\<lparr>ra_minutes := ms, ra_current := c, ra_persisted := p\<rparr>) \<longleftrightarrow> logged env assets hist acc"
  by (simp add: logged_def)

text \<open>The ledgers of one object.\<close>

lemma read_ledgers_SomeD:
  assumes "fold_opt (read_ledger env) ledgers (acc, objs, mx) = Some (acc', objs', mx')"
    and "logged env assets hist acc"
  shows "\<exists>hist'. map fst hist' = ledgers \<and> logged env assets (hist @ hist') acc' \<and> objs' = objs @ map seq_minute ledgers \<and>
    mx' = fold max (map (\<lambda>l. fst (seq_minute l)) ledgers) mx \<and> ra_minutes acc' = ra_minutes acc \<and>
    ra_current acc' = ra_current acc \<and> ra_persisted acc' = ra_persisted acc"
  using assms
proof (induction ledgers arbitrary: acc objs mx hist)
  case Nil
  then show ?case by (auto intro: exI [of _ "[]"])
next
  case (Cons ledger ledgers)
  from Cons.prems(1) obtain acc1 objs1 mx1 where r: "read_ledger env ledger (acc, objs, mx) = Some (acc1, objs1, mx1)"
      "fold_opt (read_ledger env) ledgers (acc1, objs1, mx1) = Some (acc', objs', mx')"
    by (cases "read_ledger env ledger (acc, objs, mx)") auto
  obtain amm where amm: "ledger_read env ledger amm acc acc1"
    and o: "objs1 = objs @ [seq_minute ledger]" "mx1 = max mx (fst (seq_minute ledger))"
    using read_ledger_SomeD [OF r(1)] by blast
  have keep: "ra_minutes acc1 = ra_minutes acc" "ra_current acc1 = ra_current acc" "ra_persisted acc1 = ra_persisted acc"
    using amm by (simp_all add: ledger_read_def)
  obtain hist' where l: "map fst hist' = ledgers" "logged env assets ((hist @ [(ledger, amm)]) @ hist') acc'"
      "objs' = objs1 @ map seq_minute ledgers" "mx' = fold max (map (\<lambda>l. fst (seq_minute l)) ledgers) mx1"
      "ra_minutes acc' = ra_minutes acc1" "ra_current acc' = ra_current acc1" "ra_persisted acc' = ra_persisted acc1"
    using Cons.IH [OF r(2) logged_ledger [OF Cons.prems(2) amm]] by blast
  show ?case
    using l keep o by (intro exI [of _ "(ledger, amm) # hist'"]) (simp add: max.commute)
qed

lemma read_object_SomeD:
  assumes "read_object env next bytes acc = Some (Inr acc')" and "logged env assets hist acc"
  shows "\<exists>ledgers hist'. rn_decode env bytes = Inr ledgers \<and> map fst hist' = ledgers \<and> logged env assets (hist @ hist') acc' \<and>
    ra_minutes acc' = ra_minutes acc @ object_minutes (map seq_minute ledgers) \<and>
    ra_current acc' = max (fold max (map (\<lambda>l. fst (seq_minute l)) ledgers) (ra_current acc)) next \<and>
    ra_persisted acc' = ra_persisted acc + 1"
proof -
  from assms(1) obtain ledgers acc1 objs mx where d: "rn_decode env bytes = Inr ledgers"
      "fold_opt (read_ledger env) ledgers (acc, [], ra_current acc) = Some (acc1, objs, mx)"
      "acc' = acc1\<lparr>ra_minutes := ra_minutes acc1 @ object_minutes objs, ra_current := max mx next,
        ra_persisted := ra_persisted acc1 + 1\<rparr>"
    by (auto simp: read_object_def split: sum.splits)
  from read_ledgers_SomeD [OF d(2) assms(2)] d(1,3) show ?thesis
    by auto
qed

text \<open>A whole run's reading, whatever the objects hold.\<close>

lemma read_run_logged:
  assumes "read_run env n acc = Some (acc', failure)" and "logged env assets hist acc"
  shows "\<exists>hist'. logged env assets (hist @ hist') acc'"
  using assms
proof (induction n arbitrary: acc hist)
  case 0
  then show ?case by (auto intro: exI [of _ "[]"])
next
  case (Suc n)
  have same: ?case if "acc' = acc"
    using Suc.prems(2) that by (intro exI [of _ "[]"]) simp
  show ?case
  proof (cases "rn_fetch env (ledger_s3_key (ra_current acc + 1))")
    case (Inl e)
    then show ?thesis using Suc.prems(1) same by simp
  next
    case (Inr got)
    show ?thesis
    proof (cases got)
      case None
      then show ?thesis using Suc.prems(1) same Inr by simp
    next
      case (Some bytes)
      from Suc.prems(1) Inr Some obtain r where r: "read_object env (ra_current acc + 1) bytes acc = Some r"
        "(case r of Inl e \<Rightarrow> Some (acc, Some e) | Inr acc1 \<Rightarrow> read_run env n acc1) = Some (acc', failure)"
        by (cases "read_object env (ra_current acc + 1) bytes acc") (auto simp: Let_def)
      show ?thesis
      proof (cases r)
        case (Inl e)
        then show ?thesis using r(2) same by simp
      next
        case (Inr acc1)
        then have read: "read_object env (ra_current acc + 1) bytes acc = Some (Inr acc1)"
          and rest: "read_run env n acc1 = Some (acc', failure)"
          using r by simp_all
        obtain hist1 where "logged env assets (hist @ hist1) acc1"
          using read_object_SomeD [OF read Suc.prems(2)] by blast
        from Suc.IH [OF rest this] show ?thesis by auto
      qed
    qed
  qed
qed

section \<open>The accumulators of the pools\<close>

definition ticks_of :: "string \<Rightarrow> (string \<times> trade_tick) list \<Rightarrow> trade_tick list" where
  "ticks_of source amm = map snd (filter (\<lambda>p. fst p = source) amm)"

definition amm_holds :: "(string, accumulator) hmap \<Rightarrow> (string \<times> trade_tick) list \<Rightarrow> bool" where
  "amm_holds m amm \<longleftrightarrow> hm_ok m \<and> fst ` set m = fst ` set amm \<and>
     (\<forall>source acc. map_of m source = Some acc \<longrightarrow> holds acc (ticks_of source amm))"

lemma amm_holds_merge:
  assumes "amm_holds m amm"
  shows "amm_holds (merge_amm (source, t) m) (amm @ [(source, t)])"
proof -
  let ?acc = "case map_of m source of Some acc \<Rightarrow> acc | None \<Rightarrow> accumulator_new"
  have "holds ?acc (ticks_of source amm)"
  proof (cases "map_of m source")
    case None
    then have "source \<notin> fst ` set amm"
      using assms by (auto simp: amm_holds_def map_of_eq_None_iff)
    then have "ticks_of source amm = []"
      by (auto simp: ticks_of_def filter_empty_conv image_iff)
    then show ?thesis using None by (simp add: holds_new)
  next
    case (Some acc)
    then show ?thesis using assms by (simp add: amm_holds_def)
  qed
  from holds_merge [OF this, of t] have new: "holds (merge t ?acc) (ticks_of source (amm @ [(source, t)]))"
    by (simp add: ticks_of_def)
  have other: "ticks_of s (amm @ [(source, t)]) = ticks_of s amm" if "s \<noteq> source" for s
    using that by (simp add: ticks_of_def)
  have m: "merge_amm (source, t) m = AList.update source (merge t ?acc) m"
    by (simp add: merge_amm_def)
  have ok: "hm_ok (merge_amm (source, t) m)" "fst ` set (merge_amm (source, t) m) = fst ` set (amm @ [(source, t)])"
    using assms by (auto simp: m amm_holds_def hm_ok_def distinct_update dom_update)
  have "holds acc (ticks_of s (amm @ [(source, t)]))" if "map_of (merge_amm (source, t) m) s = Some acc" for s acc
  proof (cases "s = source")
    case True
    then show ?thesis using that new by (simp add: m update_conv')
  next
    case False
    then show ?thesis using that other assms by (simp add: m update_conv' amm_holds_def)
  qed
  with ok show ?thesis
    unfolding amm_holds_def by blast
qed

lemma amm_holds_fold: "amm_holds m amm \<Longrightarrow> amm_holds (fold merge_amm new m) (amm @ new)"
proof (induction new arbitrary: m amm)
  case (Cons p new)
  obtain source t where p: "p = (source, t)" by (cases p)
  show ?case
    using Cons.IH [OF amm_holds_merge [OF Cons.prems, of source t]] by (simp add: p)
qed simp

lemma amm_holds_new: "amm_holds [] []"
  by (simp add: amm_holds_def)

lemma log_sources: "log_ok ops known hist \<Longrightarrow> fst ` set (log_amm hist) \<subseteq> range as_source"
  unfolding log_ok_def log_amm_def by (fastforce simp: image_subset_iff)

text \<open>A source's accumulator in the order the map yields it.\<close>

lemma logged_source:
  assumes "logged env assets hist acc" and "mset (rn_source_iter env (ra_amm acc)) = mset (ra_amm acc)"
    and "(source, a) \<in> set ((''sdex'', ra_sdex acc) # rn_source_iter env (ra_amm acc))"
  shows "source = ''sdex'' \<and> holds a (log_sdex (rn_ops env) hist) \<or>
    source \<in> range as_source \<and> holds a (ticks_of source (log_amm hist))"
proof -
  have amm: "amm_holds (ra_amm acc) (log_amm hist)"
    using assms(1) amm_holds_fold [OF amm_holds_new, of "log_amm hist"] by (simp add: logged_def)
  have sources: "fst ` set (log_amm hist) \<subseteq> range as_source"
    using assms(1) log_sources unfolding logged_def by blast
  have "set (rn_source_iter env (ra_amm acc)) = set (ra_amm acc)"
    using assms(2) by (metis set_mset_mset)
  then consider "source = ''sdex''" "a = ra_sdex acc" | "(source, a) \<in> set (ra_amm acc)"
    using assms(3) by auto
  then show ?thesis
  proof cases
    case 1
    then show ?thesis
      using assms(1) holds_fold [OF holds_new, of "log_sdex (rn_ops env) hist"] by (simp add: logged_def)
  next
    case 2
    then have "map_of (ra_amm acc) source = Some a"
      using amm by (intro map_of_is_SomeI) (simp_all add: amm_holds_def hm_ok_def)
    moreover have "source \<in> fst ` set (ra_amm acc)"
      using 2 by (rule rev_image_eqI) simp
    then have "source \<in> range as_source"
      using amm sources unfolding amm_holds_def by blast
    ultimately show ?thesis
      using amm by (simp add: amm_holds_def)
  qed
qed

text \<open>Candles name the identities of their ticks.\<close>

lemma candles_of_names:
  assumes "c \<in> set (candles_of ops ts)"
  shows "\<exists>t \<in> set ts. tick_key t = candle_key c"
  using assms by (auto simp: candles_of_def candle_of_def)

lemma log_ticks_known:
  assumes "log_ok ops known hist" and "t \<in> set (log_sdex ops hist) \<or> t \<in> set (ticks_of source (log_amm hist))"
  shows "{tk_base t, tk_quote t} \<subseteq> known"
proof -
  from assms(2) obtain ledger amm where "(ledger, amm) \<in> set hist" "t \<in> set (ledger_sdex ops ledger @ map snd amm)"
    by (force simp: log_sdex_def log_amm_def ticks_of_def)
  then show ?thesis
    using assms(1) unfolding log_ok_def stamped_def by blast
qed

end
