(* ===== verification/Run_Sample.thy ===== *)
theory Run_Sample
  imports Run_Reading
begin

text \<open>
  A concrete run for the witnesses: two ledgers in two minutes, each its own object, the first with one pool
  fill of an operation.
\<close>

definition sample_fill :: claim_atom where
  "sample_fill = ClaimLiquidityPool \<lparr>cb_asset_sold = XNative, cb_amount_sold = 5,
     cb_asset_bought = XAlphanum4 [85, 83, 68, 67] (replicate 32 1), cb_amount_bought = 17\<rparr>"

definition sample_trade :: raw_trade where
  "sample_trade = \<lparr>rt_ledger_sequence = 1, rt_closed_at = 60, rt_transaction_index = 0, rt_operation_index = 0,
     rt_claim_index = 0, rt_asset_sold = from_xdr XNative, rt_amount_sold = 5,
     rt_asset_bought = from_xdr (XAlphanum4 [85, 83, 68, 67] (replicate 32 1)), rt_amount_bought = 17,
     rt_price_source = AmountRatio\<rparr>"

definition sample_feed :: "u64 \<Rightarrow> ledger_close_meta" where
  "sample_feed k = LcmV1 \<lparr>lb_ledger_seq = ucast k, lb_close_time = 60 * k, lb_tx_processing =
     (if k = 1 then [\<lparr>tp_result = TxSuccess [OpInner (PathPaymentStrictSend (Some [sample_fill]))],
        tp_meta = MetaV4 []\<rparr>] else [])\<rparr>"

definition sample_run_env :: "(effect list \<Rightarrow> effect \<Rightarrow> string option) \<Rightarrow> run_env" where
  "sample_run_env failure = \<lparr>rn_asset_env = sample_env, rn_ops = exact_ops, rn_hex = (\<lambda>_. []), rn_group_iter = id,
     rn_source_iter = id, rn_events = (\<lambda>_ _ _ _. []), rn_cursor = Inr 0,
     rn_fetch = (\<lambda>key. Inr (if key = ledger_s3_key 1 then Some [1] else if key = ledger_s3_key 2 then Some [2] else None)),
     rn_decode = (\<lambda>bytes. Inr [sample_feed (ucast (hd bytes))]),
     rn_failure = failure\<rparr>"

definition sample_state :: processing_state where
  "sample_state = \<lparr>ps_assets = \<lparr>ar_known = [], ar_sac_index = [], ar_pending = []\<rparr>, ps_registries = merge_static_pools registries_new,
     ps_persisted_pools = []\<rparr>"

definition sample_tick1 :: trade_tick where
  "sample_tick1 = the (sdex_tick exact_ops sample_trade)"

lemma sample_tick: "sdex_tick exact_ops sample_trade = Some sample_tick1"
proof -
  have nz: "rt_amount_sold sample_trade \<noteq> 0" "rt_amount_bought sample_trade \<noteq> 0"
    by (simp_all add: sample_trade_def)
  have "fill_price exact_ops sample_trade inverted \<noteq> None" for inverted
    by (rule fill_price_total [OF exact_ops_laws nz, of inverted]) simp
  then have "sdex_tick exact_ops sample_trade \<noteq> None"
    by (simp add: sdex_tick_def Let_def)
  then show ?thesis
    by (auto simp: sample_tick1_def)
qed

lemma sample_fills:
  "fst (fst (extract_trades_with_counts (sample_feed k) totals)) = (if k = 1 then [sample_trade] else [])"
  by (simp add: extract_trades_with_counts_def sample_feed_def sample_fill_def ledger_header_def sample_trade_def
      tx_processing_entries_def transaction_step_def operation_step_def claim_step_def Let_def
      claim_to_raw_trade_def price_source_for_def offer_prices_by_operation_def)

lemma sample_soroban:
  "process_ledger sample_env exact_ops id (\<lambda>_ _ _ _. []) (sample_feed k) reg assets =
     Some \<lparr>ss_registries = reg, ss_assets = assets, ss_out = ledger_soroban_default\<rparr>"
  by (simp add: process_ledger_def ledger_header_def sample_feed_def collect_tx_metas_def transaction_soroban_def
      classify_amm_groups_def Let_def)

text \<open>The assets a fill interns.\<close>

definition sample_assets_after :: "asset_registry \<Rightarrow> asset_registry" where
  "sample_assets_after assets = (let pair = orient (rt_asset_sold sample_trade) (rt_asset_bought sample_trade)
     in interned sample_env [cp_base pair, cp_quote pair] assets)"

lemma sample_merge:
  "merge_trade sample_env exact_ops sample_trade (assets, sdex) =
     Some (sample_assets_after assets, merge sample_tick1 sdex)"
  by (simp add: merge_trade_alt sample_tick sample_assets_after_def Let_def del: interned_simps)

lemma sample_ledger_read:
  "\<exists>lookups. read_ledger (sample_run_env failure) (sample_feed k) (acc, objs, mx) =
     Some (acc\<lparr>ra_assets := (if k = 1 then sample_assets_after (ra_assets acc) else ra_assets acc),
        ra_sdex := (if k = 1 then merge sample_tick1 (ra_sdex acc) else ra_sdex acc), ra_offer_lookups := lookups\<rparr>,
       objs @ [(ucast (ucast k :: u32), minute_of (60 * k))], max mx (ucast (ucast k :: u32)))"
proof -
  obtain trades lookups totals where ex: "extract_trades_with_counts (sample_feed k) counts_default = ((trades, lookups), totals)"
    by (cases "extract_trades_with_counts (sample_feed k) counts_default") auto
  have trades: "trades = (if k = 1 then [sample_trade] else [])"
    using sample_fills [of k counts_default] by (simp add: ex)
  have env: "rn_asset_env (sample_run_env failure) = sample_env" "rn_ops (sample_run_env failure) = exact_ops"
    by (simp_all add: sample_run_env_def)
  have soroban: "process_ledger sample_env exact_ops (rn_group_iter (sample_run_env failure))
      (rn_events (sample_run_env failure)) (sample_feed k) reg assets =
      Some \<lparr>ss_registries = reg, ss_assets = assets, ss_out = ledger_soroban_default\<rparr>" for reg assets
    using sample_soroban by (simp add: sample_run_env_def)
  have header: "ledger_sequence (sample_feed k) = ucast k" "ledger_close_time (sample_feed k) = 60 * k"
    by (simp_all add: ledger_sequence_def ledger_close_time_def sample_feed_def)
  show ?thesis
    by (simp add: read_ledger_def ex trades soroban header Let_def env sample_merge ledger_soroban_default_def) blast
qed

lemma sample_fetch:
  "rn_fetch (sample_run_env failure) (ledger_s3_key k) = Inr (if k = 1 then Some [1] else if k = 2 then Some [2] else None)"
  "rn_decode (sample_run_env failure) bytes = Inr [sample_feed (ucast (hd bytes))]"
  by (simp_all add: sample_run_env_def ledger_s3_key_inject)

lemma sample_object:
  "\<exists>lookups. read_object (sample_run_env failure) n bytes acc = (let k = ucast (hd bytes) in
     Some (Inr (acc\<lparr>ra_assets := (if k = 1 then sample_assets_after (ra_assets acc) else ra_assets acc),
        ra_sdex := (if k = 1 then merge sample_tick1 (ra_sdex acc) else ra_sdex acc), ra_offer_lookups := lookups,
       ra_minutes := ra_minutes acc @ [(ucast (ucast k :: u32), minute_of (60 * k), True)],
       ra_current := max (max (ra_current acc) (ucast (ucast k :: u32))) n,
       ra_persisted := ra_persisted acc + 1\<rparr>)))"
  using sample_ledger_read [of failure "ucast (hd bytes)" acc "[]" "ra_current acc"]
  by (elim exE) (auto simp: read_object_def sample_fetch object_minutes_def max_of_def Let_def)

text \<open>The two objects are read alike from every state.\<close>

lemma sample_read:
  "\<exists>acc. read_run (sample_run_env failure) 3 (run_acc_new st 0) = Some (acc, None) \<and>
    ra_sdex acc = merge sample_tick1 accumulator_new \<and> ra_amm acc = [] \<and>
    ra_minutes acc = [(1, 60, True), (2, 120, True)] \<and> ra_current acc = 2 \<and> ra_persisted acc = 2 \<and>
    ra_assets acc = sample_assets_after (ps_assets st) \<and> ra_registries acc = ps_registries st \<and> ra_oracle acc = []"
proof -
  have new: "run_acc_new st 0 = \<lparr>ra_assets = ps_assets st, ra_registries = ps_registries st,
      ra_sdex = accumulator_new, ra_amm = [], ra_oracle = [], ra_minutes = [], ra_offer_lookups = [],
      ra_unregistered = [], ra_current = 0, ra_persisted = 0\<rparr>"
    by (simp add: run_acc_new_def)
  obtain acc1 where o1: "read_object (sample_run_env failure) 1 [1] (run_acc_new st 0) = Some (Inr acc1)"
    and acc1: "ra_sdex acc1 = merge sample_tick1 accumulator_new" "ra_amm acc1 = []" "ra_minutes acc1 = [(1, 60, True)]"
      "ra_current acc1 = 1" "ra_persisted acc1 = 1" "ra_assets acc1 = sample_assets_after (ps_assets st)"
      "ra_registries acc1 = ps_registries st" "ra_oracle acc1 = []"
    using sample_object [of failure 1 "[1]" "run_acc_new st 0"] by (auto simp: new minute_of_def Let_def)
  obtain acc2 where o2: "read_object (sample_run_env failure) 2 [2] acc1 = Some (Inr acc2)"
    and acc2: "ra_sdex acc2 = merge sample_tick1 accumulator_new" "ra_amm acc2 = []"
      "ra_minutes acc2 = [(1, 60, True), (2, 120, True)]" "ra_current acc2 = 2" "ra_persisted acc2 = 2"
      "ra_assets acc2 = sample_assets_after (ps_assets st)" "ra_registries acc2 = ps_registries st" "ra_oracle acc2 = []"
    using sample_object [of failure 2 "[2]" acc1] acc1 by (auto simp: minute_of_def Let_def)
  have "ra_current (run_acc_new st 0) = 0"
    by (simp add: new)
  then have "read_run (sample_run_env failure) 3 (run_acc_new st 0) = Some (acc2, None)"
    using acc1(4) acc2(4) by (simp add: numeral_3_eq_3 sample_fetch o1 o2)
  then show ?thesis
    using acc2 by blast
qed

text \<open>The run with no failure: five writes, the last the cursor at the end of the first minute.\<close>

lemma sample_run_from:
  "\<exists>st' stats. run (sample_run_env (\<lambda>_ _. None)) 3 st =
     Some (st', [WriteNewAssets (ar_pending (sample_assets_after (ps_assets st))),
       WritePoolRows (pool_rows_unpersisted (\<lambda>_. []) (ps_registries st) (ps_persisted_pools st)),
       WriteCandles (fst (flush_older_than exact_ops 61 (merge sample_tick1 accumulator_new))) ''sdex'',
       WriteOracle [], WriteCursor 1], Inr stats) \<and> rs_start_cursor stats = 0 \<and> rs_end_cursor stats = 1 \<and>
     ps_registries st' = ps_registries st"
proof -
  let ?env = "sample_run_env (\<lambda>_ _. None)"
  obtain acc where acc: "read_run ?env 3 (run_acc_new st 0) = Some (acc, None)"
      "ra_sdex acc = merge sample_tick1 accumulator_new" "ra_amm acc = []" "ra_minutes acc = [(1, 60, True), (2, 120, True)]"
      "ra_current acc = 2" "ra_persisted acc = 2" "ra_assets acc = sample_assets_after (ps_assets st)"
      "ra_registries acc = ps_registries st" "ra_oracle acc = []"
    using sample_read by blast
  have writes: "perform ?env e trace = (trace @ [e], Inr ())" for e trace
    by (simp add: perform_def sample_run_env_def)
  have iter: "rn_source_iter ?env = id" "rn_ops ?env = exact_ops" "rn_cursor ?env = Inr 0" "rn_hex ?env = (\<lambda>_. [])"
    by (simp_all add: sample_run_env_def)
  have boundary: "run_boundary [(1, 60, True), (2, 120, True)] = (120, Some (1, 61))"
    by code_simp
  show ?thesis
    by (simp add: run_def run_inner_def iter acc Let_def close_run_def writes boundary finish_run_def write_run_def
        write_source_def advance_to_def run_end_of_def)
qed

lemma sample_run:
  "\<exists>st' stats. run (sample_run_env (\<lambda>_ _. None)) 3 sample_state =
     Some (st', [WriteNewAssets (ar_pending (sample_assets_after (ps_assets sample_state))), 
       WritePoolRows (to_pool_rows (\<lambda>_. []) (merge_static_pools registries_new)),
       WriteCandles (fst (flush_older_than exact_ops 61 (merge sample_tick1 accumulator_new))) ''sdex'',
       WriteOracle [], WriteCursor 1], Inr stats) \<and> rs_start_cursor stats = 0 \<and> rs_end_cursor stats = 1 \<and>
     ps_registries st' = merge_static_pools registries_new"
proof -
  have "ps_registries sample_state = merge_static_pools registries_new"
      "pool_rows_unpersisted (\<lambda>_. []) (merge_static_pools registries_new) (ps_persisted_pools sample_state) =
       to_pool_rows (\<lambda>_. []) (merge_static_pools registries_new)"
    by (simp_all add: pool_rows_unpersisted_def sample_state_def)
  then show ?thesis using sample_run_from [of sample_state] by simp
qed

end
