(* ===== verification/Run_Properties.thy ===== *)
theory Run_Properties
  imports Run_Trace Run_Sample
begin

text \<open>
  What one run of theory \<open>Reconcile\<close> guarantees, whatever fails in it: the cursor is written last and only
  after everything else, and new identities are stored before any candle that names them and leave memory only
  once they are.
\<close>

section \<open>A run, case by case\<close>

abbreviation after_reading :: "run_acc \<Rightarrow> processing_state \<Rightarrow> processing_state" where
  "after_reading acc st \<equiv> st\<lparr>ps_assets := ra_assets acc, ps_registries := ra_registries acc\<rparr>"

lemma run_inner_cases:
  assumes "run_inner env max_iterations terminal st = Some (st', trace, res)"
  obtains
    (NoCursor) e where "rn_cursor env = Inl e" "st' = st" "trace = []" "res = Inl (CursorFailed e)"
  | (ReadFails) start acc e where "rn_cursor env = Inr start"
      "read_run env max_iterations (run_acc_new st start) = Some (acc, Some e)"
      "st' = after_reading acc st" "trace = []" "res = Inl e"
  | (Idle) start acc where "rn_cursor env = Inr start"
      "read_run env max_iterations (run_acc_new st start) = Some (acc, None)" "ra_persisted acc = 0"
      "st' = after_reading acc st" "trace = []" "res = Inr (idle_stats start)"
  | (Closes) start acc where "rn_cursor env = Inr start"
      "read_run env max_iterations (run_acc_new st start) = Some (acc, None)" "ra_persisted acc \<noteq> 0"
      "close_run env acc (after_reading acc st) start max_iterations terminal = (st', trace, res)"
proof (cases "rn_cursor env")
  case (Inl e)
  then show ?thesis
    using assms by (intro NoCursor) (auto simp: run_inner_def)
next
  case (Inr start)
  obtain acc failure where r: "read_run env max_iterations (run_acc_new st start) = Some (acc, failure)"
      "(case failure of Some e \<Rightarrow> (after_reading acc st, [], Inl e)
        | None \<Rightarrow> if ra_persisted acc = 0 then (after_reading acc st, [], Inr (idle_stats start))
            else close_run env acc (after_reading acc st) start max_iterations terminal) = (st', trace, res)"
    using assms by (auto simp: run_inner_def Inr Let_def)
  show ?thesis
  proof (cases failure)
    case (Some e)
    then show ?thesis using r by (intro ReadFails [OF Inr]) auto
  next
    case None
    show ?thesis
    proof (cases "ra_persisted acc = 0")
      case True
      then show ?thesis using r None by (intro Idle [OF Inr]) auto
    next
      case False
      then show ?thesis using r None by (intro Closes [OF Inr]) auto
    qed
  qed
qed

fun is_cursor :: "effect \<Rightarrow> bool" where
  "is_cursor (WriteCursor _) = True"
| "is_cursor _ = False"

fun is_candles :: "effect \<Rightarrow> bool" where
  "is_candles (WriteCandles _ _) = True"
| "is_candles _ = False"

lemma candle_writes: "list_all (\<lambda>e. \<not> is_cursor e) (map (candle_write env fb) written)"
  by (auto simp: list_all_iff candle_write_def)

text \<open>
  C28: A run writes the cursor at most once and last, after every other write has succeeded: a run that fails
  writes no cursor, a run that holds back or finds nothing leaves it where it was and writes no candle, and
  otherwise the last write is exactly the reported end cursor.
\<close>

theorem cursor_is_written_last:
  assumes "run_inner env max_iterations terminal st = Some (st', trace, res)"
  shows "\<exists>data. list_all (\<lambda>e. \<not> is_cursor e) data \<and>
    (case res of
       Inl _ \<Rightarrow> trace = data
     | Inr stats \<Rightarrow>
         if trace = data then rs_end_cursor stats = rs_start_cursor stats \<and> list_all (\<lambda>e. \<not> is_candles e) data
         else trace = data @ [WriteCursor (rs_end_cursor stats)])"
  using assms
proof (cases rule: run_inner_cases)
  case (NoCursor e)
  then show ?thesis by simp
next
  case (ReadFails start acc e)
  then show ?thesis by simp
next
  case (Idle start acc)
  then show ?thesis by (simp add: idle_stats_def)
next
  case (Closes start acc)
  from Closes(4) show ?thesis
  proof (cases rule: close_run_cases)
    case AssetsFail
    then show ?thesis by (intro exI [of _ trace]) (auto split: sum.split)
  next
    case PoolsFail
    then show ?thesis by (intro exI [of _ trace]) (auto split: sum.split)
  next
    case (Held rows)
    then show ?thesis by (intro exI [of _ trace]) auto
  next
    case (Advanced rows cursor fb written rest tail)
    let ?data = "[WriteNewAssets (ar_pending (ps_assets (after_reading acc st))), WritePoolRows rows] @
      map (candle_write env fb) written"
    show ?thesis
    proof (cases "isl res")
      case True
      then have "list_all (\<lambda>e. \<not> is_cursor e) trace"
        using Advanced candle_writes [of env fb written] by auto
      then show ?thesis
        using True by (intro exI [of _ trace]) (auto split: sum.split)
    next
      case False
      then obtain stats where "res = Inr stats" "rs_end_cursor stats = cursor"
          "trace = (?data @ [WriteOracle (ra_oracle acc)]) @ [WriteCursor cursor]"
        using Advanced by auto
      moreover have "list_all (\<lambda>e. \<not> is_cursor e) (?data @ [WriteOracle (ra_oracle acc)])"
        using candle_writes [of env fb written] by simp
      ultimately show ?thesis
        by (intro exI [of _ "?data @ [WriteOracle (ra_oracle acc)]"]) simp
    qed
  qed
qed

theorem cursor_is_written_last_witness:
  "\<exists>st' data stats. run (sample_run_env (\<lambda>_ _. None)) 3 sample_state = Some (st', data @ [WriteCursor 1], Inr stats) \<and>
    list_all (\<lambda>e. \<not> is_cursor e) data"
proof -
  obtain st' trace stats where r: "run (sample_run_env (\<lambda>_ _. None)) 3 sample_state = Some (st', trace, Inr stats)"
      "WriteCursor 1 \<in> set trace" "rs_end_cursor stats = 1"
    using sample_run by auto
  obtain data where d: "list_all (\<lambda>e. \<not> is_cursor e) data"
      "if trace = data then rs_end_cursor stats = rs_start_cursor stats \<and> list_all (\<lambda>e. \<not> is_candles e) data
       else trace = data @ [WriteCursor (rs_end_cursor stats)]"
    using cursor_is_written_last [OF r(1) [unfolded run_def]] by auto
  then have "trace \<noteq> data"
    using r(2) by (auto simp: list_all_iff)
  then have "trace = data @ [WriteCursor 1]"
    using d(2) r(3) by simp
  then show ?thesis
    using r(1) d(1) by blast
qed

section \<open>Identities before candles, pools before the cursor\<close>

fun assets_of :: "effect \<Rightarrow> asset_identity set" where
  "assets_of (WriteNewAssets xs) = set xs"
| "assets_of _ = {}"

definition written_assets :: "effect list \<Rightarrow> asset_identity set" where
  "written_assets trace = (\<Union>e \<in> set trace. assets_of e)"

text \<open>Every candle of the trace names identities that are stored by then.\<close>

fun referenced :: "asset_identity set \<Rightarrow> effect list \<Rightarrow> bool" where
  "referenced durable [] \<longleftrightarrow> True"
| "referenced durable (WriteCandles candles source # trace) \<longleftrightarrow>
     list_all (\<lambda>c. oc_base c \<in> durable \<and> oc_quote c \<in> durable) candles \<and> referenced durable trace"
| "referenced durable (e # trace) \<longleftrightarrow> referenced (durable \<union> assets_of e) trace"

lemma referenced_mono: "referenced durable trace \<Longrightarrow> durable \<subseteq> durable' \<Longrightarrow> referenced durable' trace"
proof (induction trace arbitrary: durable durable')
  case (Cons e trace)
  have "durable \<union> assets_of e \<subseteq> durable' \<union> assets_of e"
    using Cons.prems(2) by blast
  then show ?case
    using Cons.IH Cons.prems by (cases e) (auto simp: list_all_iff)
qed simp

fun names_within :: "asset_identity set \<Rightarrow> effect \<Rightarrow> bool" where
  "names_within durable (WriteCandles candles _) \<longleftrightarrow> list_all (\<lambda>c. oc_base c \<in> durable \<and> oc_quote c \<in> durable) candles"
| "names_within durable _ \<longleftrightarrow> True"

lemma referenced_within: "list_all (names_within durable) trace \<Longrightarrow> referenced durable trace"
proof (induction trace)
  case (Cons e trace)
  then have "referenced durable trace" by simp
  then have "referenced (durable \<union> assets_of e) trace"
    by (rule referenced_mono) simp
  with Cons.prems \<open>referenced durable trace\<close> show ?case
    by (cases e) auto
qed simp

text \<open>The candles of a run name identities its registry knows.\<close>

lemma candle_write_within:
  assumes "logged env assets hist acc" and "mset (rn_source_iter env (ra_amm acc)) = mset (ra_amm acc)"
    and "(''sdex'', ra_sdex acc) # rn_source_iter env (ra_amm acc) = written @ rest"
  shows "list_all (names_within (set (ar_known (ra_assets acc)))) (map (candle_write env fb) written)"
proof -
  have "names_within (set (ar_known (ra_assets acc))) (candle_write env fb (source, a))" if "(source, a) \<in> set written" for source a
  proof -
    have mem: "(source, a) \<in> set ((''sdex'', ra_sdex acc) # rn_source_iter env (ra_amm acc))"
      using that by (simp only: assms(3)) simp
    obtain ts where ts: "holds a ts" "\<forall>t \<in> set ts. {tk_base t, tk_quote t} \<subseteq> set (ar_known (ra_assets acc))"
    proof -
      have ok: "log_ok (rn_ops env) (set (ar_known (ra_assets acc))) hist"
        using assms(1) unfolding logged_def by blast
      from logged_source [OF assms(1,2) mem] log_ticks_known [OF ok] show thesis
        using that by metis
    qed
    have "oc_base c \<in> set (ar_known (ra_assets acc)) \<and> oc_quote c \<in> set (ar_known (ra_assets acc))"
      if "c \<in> set (fst (flush_older_than (rn_ops env) fb a))" for c
    proof -
      from that have "c \<in> set (candles_of (rn_ops env) (filter (\<lambda>t. fst (tick_key t) < fb) ts))"
        by (simp add: minutes.flush_older_out [OF ts(1)])
      from candles_of_names [OF this] obtain t where "t \<in> set ts" "tick_key t = candle_key c"
        by auto
      then show ?thesis
        using ts(2) by (auto simp: tick_key_def candle_key_def)
    qed
    then show ?thesis
      by (simp add: candle_write_def list_all_iff)
  qed
  then show ?thesis
    by (auto simp: list_all_iff)
qed

text \<open>
  C29: Referential order: if every identity the registry knows is stored or pending before a run, it is so after
  it, whatever fails, and every candle the run writes names two identities that are stored by then.
\<close>

theorem assets_precede_candles:
  assumes "run_inner env max_iterations terminal st = Some (st', trace, res)"
    and "\<And>m. mset (rn_source_iter env m) = mset m"
    and "set (ar_known (ps_assets st)) \<subseteq> durable \<union> set (ar_pending (ps_assets st))"
  shows "set (ar_known (ps_assets st')) \<subseteq> durable \<union> written_assets trace \<union> set (ar_pending (ps_assets st')) \<and>
    referenced durable trace"
proof -
  have read: "set (ar_known (ra_assets acc)) \<subseteq> durable \<union> set (ar_pending (ra_assets acc))"
    if r: "read_run env max_iterations (run_acc_new st start) = Some (acc, failure)" for start acc failure
  proof -
    obtain xs where "ra_assets acc = interned (rn_asset_env env) xs (ps_assets st)"
      using read_run_logged [OF r logged_new] unfolding logged_def by blast
    then show ?thesis
      using assms(3) by (auto simp: known_interned pending_interned)
  qed
  from assms(1) show ?thesis
  proof (cases rule: run_inner_cases)
    case (NoCursor e)
    then show ?thesis using assms(3) by (simp add: written_assets_def)
  next
    case (ReadFails start acc e)
    then show ?thesis using read [OF ReadFails(2)] by (simp add: written_assets_def)
  next
    case (Idle start acc)
    then show ?thesis using read [OF Idle(2)] by (simp add: written_assets_def)
  next
    case (Closes start acc)
    note known = read [OF Closes(2)]
    let ?pending = "ar_pending (ps_assets (after_reading acc st))"
    from Closes(4) show ?thesis
    proof (cases rule: close_run_cases)
      case AssetsFail
      then show ?thesis using known by (simp add: written_assets_def)
    next
      case PoolsFail
      then show ?thesis using known by (auto simp: written_assets_def clear_pending_def)
    next
      case (Held rows)
      then show ?thesis using known by (auto simp: written_assets_def clear_pending_def)
    next
      case (Advanced rows cursor fb written rest tail)
      obtain hist where "logged env (ps_assets st) hist acc"
        using read_run_logged [OF Closes(2) logged_new] by auto
      note within = candle_write_within [OF this assms(2) Advanced(5), of fb]
      have "list_all (names_within (set (ar_known (ra_assets acc)))) tail"
        using Advanced(6) by auto
      with within have "referenced (set (ar_known (ra_assets acc))) (map (candle_write env fb) written @ tail)"
        by (intro referenced_within) simp
      then have "referenced (durable \<union> set ?pending) (map (candle_write env fb) written @ tail)"
        by (rule referenced_mono) (use known in simp)
      then have "referenced durable trace"
        unfolding Advanced(1) by simp
      moreover have "set (ar_pending (ra_assets acc)) \<subseteq> written_assets trace"
        unfolding Advanced(1) written_assets_def by simp
      moreover have "ar_known (ps_assets st') = ar_known (ra_assets acc)"
        unfolding Advanced(3) by (simp add: clear_pending_def)
      ultimately show ?thesis
        using known by (simp only: simp_thms) blast
    qed
  qed
qed

theorem assets_precede_candles_witness:
  "\<exists>st' trace res. run (sample_run_env (\<lambda>_ _. None)) 3 sample_state = Some (st', trace, res) \<and> length trace = 5 \<and>
    set (ar_known (ps_assets st')) \<subseteq> written_assets trace \<union> set (ar_pending (ps_assets st')) \<and> referenced {} trace"
proof -
  let ?env = "sample_run_env (\<lambda>_ _. None)"
  obtain st' trace res where r: "run ?env 3 sample_state = Some (st', trace, res)" "length trace = 5"
    using sample_run by auto
  have iter: "mset (rn_source_iter ?env m) = mset m" for m
    by (simp add: sample_run_env_def)
  have "set (ar_known (ps_assets sample_state)) \<subseteq> {} \<union> set (ar_pending (ps_assets sample_state))"
    by (simp add: sample_state_def)
  from assets_precede_candles [OF r(1) [unfolded run_def] iter this] r show ?thesis
    by auto
qed

section \<open>Pools before the cursor\<close>

fun pools_of :: "effect \<Rightarrow> pool_row set" where
  "pools_of (WritePoolRows rows) = set rows"
| "pools_of _ = {}"

definition written_pools :: "effect list \<Rightarrow> pool_row set" where
  "written_pools trace = (\<Union>e \<in> set trace. pools_of e)"

lemma persist_rows_from: "map_of (persist_rows rows m) c = Some row \<Longrightarrow> row \<in> set rows \<or> map_of m c = Some row"
proof (induction rows arbitrary: m)
  case (Cons r rows)
  then have "map_of (persist_rows rows (AList.update (pr_contract_id r) r m)) c = Some row"
    by (simp add: persist_rows_def)
  from Cons.IH [OF this] show ?case
    by (auto simp: update_conv' split: if_splits)
qed (simp add: persist_rows_def)

lemma to_pool_rows_from:
  "set (to_pool_rows enc reg) \<subseteq> set (pool_rows_unpersisted enc reg m) \<union> {row. \<exists>c. map_of m c = Some row}"
  by (auto simp: pool_rows_unpersisted_def)

text \<open>The rows of the committed static pools, which the live processor merges at a cold start and never writes.\<close>

definition static_rows :: "pool_row list" where
  "static_rows = map (\<lambda>(c, v). blank_row c v) static_pools"

definition pools_believed_stored :: "processing_state \<Rightarrow> pool_row set" where
  "pools_believed_stored st = {row. \<exists>c. map_of (ps_persisted_pools st) c = Some row}"

lemma run_stores_pools:
  assumes "run_inner env max_iterations terminal st = Some (st', trace, res)" and "pools_believed_stored st \<subseteq> durable"
  shows "pools_believed_stored st' \<subseteq> durable \<union> written_pools trace \<and>
    (list_all (\<lambda>e. \<not> is_cursor e) trace \<or>
      set (to_pool_rows (rn_hex env) (ps_registries st')) \<subseteq> durable \<union> written_pools trace)"
  using assms(1)
proof (cases rule: run_inner_cases)
  case (NoCursor e)
  then show ?thesis using assms(2) by (simp add: written_pools_def pools_believed_stored_def)
next
  case (ReadFails start acc e)
  then show ?thesis using assms(2) by (simp add: written_pools_def pools_believed_stored_def)
next
  case (Idle start acc)
  then show ?thesis using assms(2) by (simp add: written_pools_def pools_believed_stored_def)
next
  case (Closes start acc)
  let ?st = "after_reading acc st"
  have persisted: "ps_persisted_pools ?st = ps_persisted_pools st"
    by simp
  have stored: "{row. \<exists>c. map_of (persist_rows rows (ps_persisted_pools st)) c = Some row} \<subseteq> durable \<union> written_pools trace"
    if "set rows \<subseteq> written_pools trace" for rows
    using persist_rows_from assms(2) that unfolding pools_believed_stored_def by blast
  from Closes(4) show ?thesis
  proof (cases rule: close_run_cases)
    case AssetsFail
    then show ?thesis using assms(2) by (simp add: written_pools_def pools_believed_stored_def)
  next
    case PoolsFail
    then show ?thesis using assms(2) by (simp add: written_pools_def pools_believed_stored_def)
  next
    case (Held rows)
    have "set rows \<subseteq> written_pools trace"
      unfolding Held(1) written_pools_def by simp
    then show ?thesis
      using stored by (simp add: Held(1,3) pools_believed_stored_def)
  next
    case (Advanced rows cursor fb written rest tail)
    have mem: "set rows \<subseteq> written_pools trace"
      unfolding Advanced(1) written_pools_def by simp
    have "set (to_pool_rows (rn_hex env) (ps_registries ?st)) \<subseteq> set rows \<union> durable"
      using to_pool_rows_from [of "rn_hex env" "ps_registries ?st" "ps_persisted_pools st"] assms(2)
      unfolding Advanced(2) persisted pools_believed_stored_def by blast
    then have "set (to_pool_rows (rn_hex env) (ps_registries st')) \<subseteq> durable \<union> written_pools trace"
      using mem by (auto simp: Advanced(3))
    then show ?thesis
      using stored [OF mem] by (simp add: Advanced(3) pools_believed_stored_def)
  qed
qed

section \<open>The life of a processor\<close>

text \<open>
  A cold start on a registry whose rows are all in the table, then any runs, whatever fails in them; \<open>D\<close> are the rows of
  the table, to which others may add.
\<close>

inductive processor_life :: "(u8 list \<Rightarrow> string) \<Rightarrow> pool_row set \<Rightarrow> processing_state \<Rightarrow> bool" for enc :: "u8 list \<Rightarrow> string" where
  cold_start: "set (to_pool_rows enc loaded) \<subseteq> D \<Longrightarrow> processor_life enc D (initial_state enc assets loaded)"
| warm_run: "processor_life enc D st \<Longrightarrow> rn_hex env = enc \<Longrightarrow> run_inner env max_iterations terminal st = Some (st', trace, res) \<Longrightarrow>
    D \<union> written_pools trace \<subseteq> D' \<Longrightarrow> processor_life enc D' st'"

lemma updated_entry: "e \<in> set (AList.update k x al) \<Longrightarrow> e = (k, x) \<or> e \<in> set al"
  by (induction al) (auto split: if_splits)

lemma merged_rows: "set (to_pool_rows enc (merge_static_pools reg)) \<subseteq> set (to_pool_rows enc reg) \<union> set static_rows"
proof
  fix row
  assume "row \<in> set (to_pool_rows enc (merge_static_pools reg))"
  then obtain c v where cv: "(c, v) \<in> set (reg_venue (merge_static_pools reg))" "row = pool_row_of enc (merge_static_pools reg) (c, v)"
    by (auto simp: to_pool_rows_set)
  have "row = pool_row_of enc reg (c, v)"
    using cv(2) by (cases v) (simp_all add: pool_row_of_def merge_static_pools_def)
  moreover have "(c, v) \<in> set (reg_venue reg) \<or> (c, v) \<in> set static_pools"
    using cv(1) by (auto simp: merge_static_pools_def static_pools_def dest: updated_entry)
  moreover have "pool_row_of enc reg (c, v) = blank_row c v" if "(c, v) \<in> set static_pools"
    using that by (simp add: static_pools_def pool_row_of_def)
  ultimately show "row \<in> set (to_pool_rows enc reg) \<union> set static_rows"
    by (auto simp: to_pool_rows_set static_rows_def)
qed

lemma cold_start_believes: "pools_believed_stored (initial_state enc assets loaded) \<subseteq> set (to_pool_rows enc loaded) \<union> set static_rows"
proof -
  have "pools_believed_stored (initial_state enc assets loaded) \<subseteq> set (to_pool_rows enc (merge_static_pools loaded))"
    by (auto simp: pools_believed_stored_def initial_state_def snapshot_rows_def Let_def dest!: map_of_SomeD)
  then show ?thesis using merged_rows by blast
qed

lemma life_believes: "processor_life enc D st \<Longrightarrow> pools_believed_stored st \<subseteq> D \<union> set static_rows"
proof (induction rule: processor_life.induct)
  case (cold_start loaded D assets)
  then show ?case using cold_start_believes by blast
next
  case (warm_run D st env max_iterations terminal st' trace res D')
  then show ?case using run_stores_pools [of env max_iterations terminal st st' trace res "D \<union> set static_rows"] by blast
qed

text \<open>Rows the program wrote are loaded to what renders them again: a cold start on them is one.\<close>

lemma row_of_view: "info_of reg c v = info_of reg' c v \<Longrightarrow> pool_row_of enc reg (c, v) = pool_row_of enc reg' (c, v)"
  by (cases v; cases "phoenix_lookup (reg_phoenix reg) c"; cases "phoenix_lookup (reg_phoenix reg') c")
    (auto simp: info_of_def pool_row_of_def with_phoenix_def phoenix_get_def split: option.split)

lemma load_rows_keys: "hm_ok (reg_venue reg) \<Longrightarrow> hm_ok (reg_venue (load_pool_rows dec rows reg))"
proof (induction rows arbitrary: reg)
  case (Cons row rows)
  have "hm_ok (reg_venue (load_pool_row dec row reg))"
    using Cons.prems by (auto simp: load_pool_row_def Let_def hm_ok_def intro: distinct_update split: option.split venue.split)
  from Cons.IH [OF this] show ?case by (simp add: load_pool_rows_def)
qed (simp add: load_pool_rows_def)

lemma written_rows_are_loaded:
  assumes "hex_laws enc dec" and "distinct (map pr_contract_id rows)"
    and "\<forall>row \<in> set rows. \<exists>reg. storable reg \<and> row \<in> set (to_pool_rows enc reg)"
  shows "set (to_pool_rows enc (load_pool_rows dec rows registries_new)) \<subseteq> set rows"
proof
  let ?loaded = "load_pool_rows dec rows registries_new"
  fix row
  assume "row \<in> set (to_pool_rows enc ?loaded)"
  then obtain c v where cv: "(c, v) \<in> set (reg_venue ?loaded)" "row = pool_row_of enc ?loaded (c, v)"
    by (auto simp: to_pool_rows_set)
  have keys: "hm_ok (reg_venue ?loaded)" by (rule load_rows_keys) (simp add: registries_new_def hm_ok_def)
  have found: "map_of (reg_venue ?loaded) c = Some v" using cv(1) keys by (simp add: hm_ok_def)
  have "c \<in> pr_contract_id ` set rows"
  proof (rule ccontr)
    assume "c \<notin> pr_contract_id ` set rows"
    from load_rows_other(1) [OF this, of dec registries_new] found show False by (simp add: registries_new_def)
  qed
  then obtain row' where row': "row' \<in> set rows" "pr_contract_id row' = c" by blast
  obtain reg where reg: "storable reg" "row' \<in> set (to_pool_rows enc reg)" using assms(3) row'(1) by blast
  obtain v' where v': "(c, v') \<in> set (reg_venue reg)" "row' = pool_row_of enc reg (c, v')"
    using reg(2) row'(2) by (auto simp: to_pool_rows_set)
  obtain reg' where "fresh_at reg' c" "pool_view ?loaded c = pool_view (load_pool_row dec row' reg') c"
    using load_rows_member [OF assms(2) row'(1), of registries_new dec] row'(2) by auto
  then have "pool_view ?loaded c = Some (info_of reg c v')"
    using load_own_row [OF assms(1) reg(1) v'(1)] v'(2) by simp
  then have same: "info_of ?loaded c v = info_of reg c v'" using found by (simp add: pool_view_def)
  then have "v = v'" by (rule info_of_eqD)
  then have "row = row'" using row_of_view [of ?loaded c v reg enc] same cv(2) v'(2) by simp
  then show "row \<in> set rows" using row'(1) by simp
qed

text \<open>
  C30: From a cold start on pools loaded from the table, and after any runs whatever failed in them: when a run
  moves the cursor, every pool of its registry is a row of the table or was written before the cursor, except
  the committed static pool, which live never writes and which every cold start merges anew. So no factory event
  the cursor has passed is lost at a cold start.
\<close>

theorem pools_are_stored_before_the_cursor:
  assumes "processor_life (rn_hex env) D st" and "run_inner env max_iterations terminal st = Some (st', trace, res)"
  shows "list_all (\<lambda>e. \<not> is_cursor e) trace \<or>
    set (to_pool_rows (rn_hex env) (ps_registries st')) \<subseteq> D \<union> written_pools trace \<union> set static_rows"
  using run_stores_pools [OF assms(2) life_believes [OF assms(1)]] by blast

definition sample_loaded :: registries where
  "sample_loaded = registries_new\<lparr>reg_venue := [(''P'', Sushiswap)], reg_sushiswap := [(''P'', \<lparr>token0 = ''A'', token1 = ''B''\<rparr>)]\<rparr>"

theorem pools_are_stored_before_the_cursor_witness:
  "\<exists>st' trace res. run (sample_run_env (\<lambda>_ _. None)) 3 (initial_state (\<lambda>_. []) (ps_assets sample_state) sample_loaded) = Some (st', trace, res) \<and>
    WriteCursor 1 \<in> set trace \<and> length (to_pool_rows (\<lambda>_. []) (ps_registries st')) = 2 \<and>
    set (to_pool_rows (\<lambda>_. []) (ps_registries st')) \<subseteq> set (to_pool_rows (\<lambda>_. []) sample_loaded) \<union> written_pools trace \<union> set static_rows"
proof -
  let ?env = "sample_run_env (\<lambda>_ _. None)" and ?st = "initial_state (\<lambda>_. []) (ps_assets sample_state) sample_loaded"
  obtain st' trace res where r: "run ?env 3 ?st = Some (st', trace, res)" "WriteCursor 1 \<in> set trace" "ps_registries st' = ps_registries ?st"
    using sample_run_from [of ?st] by auto
  have hex: "rn_hex ?env = (\<lambda>_. [])" by (simp add: sample_run_env_def)
  have len: "length (to_pool_rows (\<lambda>_. []) (ps_registries ?st)) = 2"
    by (simp add: initial_state_def to_pool_rows_def merge_static_pools_def static_pools_def sample_loaded_def registries_new_def Let_def)
  have "processor_life (rn_hex ?env) (set (to_pool_rows (\<lambda>_. []) sample_loaded)) ?st"
    unfolding hex by (rule cold_start) simp
  from pools_are_stored_before_the_cursor [OF this r(1) [unfolded run_def]] r(2)
  have "set (to_pool_rows (\<lambda>_. []) (ps_registries st')) \<subseteq> set (to_pool_rows (\<lambda>_. []) sample_loaded) \<union> written_pools trace \<union> set static_rows"
    by (auto simp: list_all_iff hex)
  then show ?thesis using r len by auto
qed

end
