(* ===== verification/Live_Feed.thy ===== *)
theory Live_Feed
  imports Run_Properties
begin

text \<open>
  The live processor over a feed of ledgers: any sequence of runs and cold starts, with any failures of fetches
  and writes in between. The candles of order-book trades that reach the store are those of the whole feed, and
  every minute the cursor has passed is among them.
\<close>

section \<open>The feed\<close>

text \<open>The ledgers after \<open>a\<close> up to \<open>b\<close>, and the order-book ticks of them.\<close>

definition seqs :: "u64 \<Rightarrow> u64 \<Rightarrow> u64 list" where
  "seqs a b = map of_nat [Suc (unat a)..<Suc (unat b)]"

definition feed_ticks :: "dec_ops \<Rightarrow> (u64 \<Rightarrow> ledger_close_meta) \<Rightarrow> u64 \<Rightarrow> u64 \<Rightarrow> trade_tick list" where
  "feed_ticks ops chain a b = concat (map (\<lambda>k. ledger_sdex ops (chain k)) (seqs a b))"

definition minute_at :: "(u64 \<Rightarrow> ledger_close_meta) \<Rightarrow> u64 \<Rightarrow> u32" where
  "minute_at chain k = minute_of (ledger_close_time (chain k))"

text \<open>A feed up to ledger \<open>last\<close>: each ledger carries its number, and close times do not go back.\<close>

definition feed_ok :: "(u64 \<Rightarrow> ledger_close_meta) \<Rightarrow> u64 \<Rightarrow> bool" where
  "feed_ok chain final \<longleftrightarrow> (\<forall>k \<le> final. ucast (ledger_sequence (chain k)) = k) \<and>
     (\<forall>j k. j \<le> k \<longrightarrow> k \<le> final \<longrightarrow> minute_at chain j \<le> minute_at chain k)"

text \<open>The object store of a run: whatever it returns under a ledger's key is that ledger's object.\<close>

definition serves :: "run_env \<Rightarrow> (u64 \<Rightarrow> ledger_close_meta) \<Rightarrow> u64 \<Rightarrow> bool" where
  "serves env chain final \<longleftrightarrow> (\<forall>k bytes ledgers. rn_fetch env (ledger_s3_key k) = Inr (Some bytes) \<longrightarrow>
     rn_decode env bytes = Inr ledgers \<longrightarrow> k \<le> final \<and> ledgers = [chain k])"

lemma unat_feed:
  assumes "feed_ok chain final" and "k \<le> final"
  shows "unat k < 2 ^ 32"
proof -
  have "unat (ucast (ledger_sequence (chain k)) :: u64) = unat (ledger_sequence (chain k))"
    by (simp add: unsigned_ucast_eq take_bit_nat_eq_self [OF order_less_trans [OF unsigned_less]])
  then show ?thesis
    using assms unsigned_less [of "ledger_sequence (chain k)", where ?'a = nat] by (simp add: feed_ok_def)
qed

lemma unat_next:
  assumes "feed_ok chain final" and "k \<le> final"
  shows "unat (k + 1) = unat k + 1"
  using unat_feed [OF assms] by (simp add: unat_word_ariths)

lemma set_seqs: "k \<in> set (seqs a b) \<longleftrightarrow> a < k \<and> k \<le> b"
proof -
  have "k \<in> set (seqs a b) \<longleftrightarrow> (\<exists>n. unat a < n \<and> n \<le> unat b \<and> k = of_nat n)"
    by (auto simp: seqs_def Suc_le_eq less_Suc_eq_le)
  also have "\<dots> \<longleftrightarrow> unat a < unat k \<and> unat k \<le> unat b"
  proof
    assume "\<exists>n. unat a < n \<and> n \<le> unat b \<and> k = of_nat n"
    then obtain n where n: "unat a < n" "n \<le> unat b" "k = of_nat n" by blast
    have "n < 2 ^ 64" using n(2) unsigned_less [of b, where ?'a = nat] by simp
    then have "unat k = n" by (simp add: n(3) unat_of_nat)
    with n show "unat a < unat k \<and> unat k \<le> unat b" by simp
  next
    assume "unat a < unat k \<and> unat k \<le> unat b"
    then show "\<exists>n. unat a < n \<and> n \<le> unat b \<and> k = of_nat n"
      by (intro exI [of _ "unat k"]) simp
  qed
  finally show ?thesis
    by (simp add: word_less_nat_alt word_le_nat_alt)
qed

lemma upt_split: "(a::nat) \<le> b \<Longrightarrow> b \<le> c \<Longrightarrow> [a..<c] = [a..<b] @ [b..<c]"
  using upt_add_eq_append [of a b "c - b"] by simp

lemma seqs_append:
  assumes "a \<le> b" and "b \<le> c"
  shows "seqs a c = seqs a b @ seqs b c"
proof -
  have "[Suc (unat a)..<Suc (unat c)] = [Suc (unat a)..<Suc (unat b)] @ [Suc (unat b)..<Suc (unat c)]"
    using assms by (intro upt_split) (simp_all add: word_le_nat_alt)
  then show ?thesis
    by (simp add: seqs_def del: upt_Suc)
qed

lemma seqs_single: "unat (k + 1) = unat k + 1 \<Longrightarrow> seqs k (k + 1) = [k + 1]"
  by (simp add: seqs_def)

lemma seqs_empty [simp]: "seqs a a = []"
  by (simp add: seqs_def)

lemma feed_ticks_append: "a \<le> b \<Longrightarrow> b \<le> c \<Longrightarrow> feed_ticks ops chain a c = feed_ticks ops chain a b @ feed_ticks ops chain b c"
  using seqs_append [of a b c] by (simp add: feed_ticks_def)

lemma feed_tick_minute:
  assumes "dec_laws ops" and "t \<in> set (feed_ticks ops chain a b)"
  obtains k where "a < k" "k \<le> b" "fst (tick_key t) = minute_at chain k"
proof -
  obtain k where "k \<in> set (seqs a b)" "t \<in> set (ledger_sdex ops (chain k))"
    using assms(2) by (auto simp: feed_ticks_def)
  then show thesis
    using that [of k] ledger_sdex_minute [OF assms(1)] by (simp add: set_seqs minute_at_def)
qed

text \<open>Filtering by minute is filtering by ledger when the minutes divide the ledgers.\<close>

lemma feed_ticks_filter:
  assumes "dec_laws ops" and "\<And>k. a < k \<Longrightarrow> k \<le> c \<Longrightarrow> minute_at chain k < fb \<longleftrightarrow> k \<le> b" and "a \<le> b" and "b \<le> c"
  shows "filter (\<lambda>t. fst (tick_key t) < fb) (feed_ticks ops chain a c) = feed_ticks ops chain a b"
proof -
  have below: "filter (\<lambda>t. fst (tick_key t) < fb) (feed_ticks ops chain a b) = feed_ticks ops chain a b"
  proof -
    have "fst (tick_key t) < fb" if mem: "t \<in> set (feed_ticks ops chain a b)" for t
    proof -
      obtain k where "a < k" "k \<le> b" "fst (tick_key t) = minute_at chain k"
        using feed_tick_minute [OF assms(1) mem] .
      then show ?thesis
        using assms(2) [of k] order_trans [OF _ assms(4), of k] by simp
    qed
    then show ?thesis by (simp add: filter_id_conv)
  qed
  have above: "filter (\<lambda>t. fst (tick_key t) < fb) (feed_ticks ops chain b c) = []"
  proof -
    have "\<not> fst (tick_key t) < fb" if mem: "t \<in> set (feed_ticks ops chain b c)" for t
    proof -
      obtain k where k: "b < k" "k \<le> c" "fst (tick_key t) = minute_at chain k"
        using feed_tick_minute [OF assms(1) mem] .
      then show ?thesis
        using assms(2) [of k] order_le_less_trans [OF assms(3)] by simp
    qed
    then show ?thesis by (simp add: filter_empty_conv)
  qed
  show ?thesis
    by (simp add: feed_ticks_append [OF assms(3,4)] below above)
qed

text \<open>A boundary: no later ledger of the feed shares its minute.\<close>

definition minute_end :: "(u64 \<Rightarrow> ledger_close_meta) \<Rightarrow> u64 \<Rightarrow> u64 \<Rightarrow> bool" where
  "minute_end chain final b \<longleftrightarrow> b \<le> final \<and> (\<forall>k. b < k \<longrightarrow> k \<le> final \<longrightarrow> minute_at chain b < minute_at chain k)"

lemma candles_feed_split:
  assumes "dec_laws ops" and "feed_ok chain final" and "minute_end chain final b" and "a \<le> b"
  shows "candles_of ops (feed_ticks ops chain a final) =
    candles_of ops (feed_ticks ops chain a b) @ candles_of ops (feed_ticks ops chain b final)"
proof (cases "b = final")
  case True
  then show ?thesis
    by (simp add: feed_ticks_def candles_of_def)
next
  case False
  then have b: "b < final" "b \<le> final"
    using assms(3) by (auto simp: minute_end_def)
  let ?m = "minute_at chain (b + 1)"
  have nx: "b < b + 1" "b + 1 \<le> final"
    using unat_next [OF assms(2) b(2)] b(1) by (simp_all add: word_less_nat_alt word_le_nat_alt)
  have div: "minute_at chain k < ?m \<longleftrightarrow> k \<le> b" if "a < k" "k \<le> final" for k
  proof (cases "k \<le> b")
    case True
    then have "minute_at chain k \<le> minute_at chain b"
      using assms(2) b(2) by (simp add: feed_ok_def)
    also have "\<dots> < ?m"
      using assms(3) nx by (simp add: minute_end_def)
    finally show ?thesis using True by simp
  next
    case False
    then have "b + 1 \<le> k"
      using unat_next [OF assms(2) b(2)] by (simp add: word_less_nat_alt word_le_nat_alt not_le)
    then have "?m \<le> minute_at chain k"
      using assms(2) that(2) by (simp add: feed_ok_def)
    then show ?thesis using False by simp
  qed
  have "filter (\<lambda>t. fst (tick_key t) < ?m) (feed_ticks ops chain a final) = feed_ticks ops chain a b"
    using div assms(4) b(2) by (intro feed_ticks_filter [OF assms(1)]) simp_all
  moreover have "filter (\<lambda>t. \<not> fst (tick_key t) < ?m) (feed_ticks ops chain a final) = feed_ticks ops chain b final"
  proof -
    have "filter (\<lambda>t. \<not> fst (tick_key t) < ?m) (feed_ticks ops chain a b) = []"
    proof -
      have "fst (tick_key t) < ?m" if mem: "t \<in> set (feed_ticks ops chain a b)" for t
      proof -
        obtain k where "a < k" "k \<le> b" "fst (tick_key t) = minute_at chain k"
          using feed_tick_minute [OF assms(1) mem] .
        then show ?thesis
          using div [of k] order_trans [OF _ b(2), of k] by simp
      qed
      then show ?thesis by (simp add: filter_empty_conv)
    qed
    moreover have "fst (tick_key t) \<ge> ?m" if mem: "t \<in> set (feed_ticks ops chain b final)" for t
    proof -
      obtain k where k: "b < k" "k \<le> final" "fst (tick_key t) = minute_at chain k"
        using feed_tick_minute [OF assms(1) mem] .
      then show ?thesis
        using div [of k] order_le_less_trans [OF assms(4)] by (simp add: not_less [symmetric])
    qed
    ultimately show ?thesis
      by (simp add: feed_ticks_append [OF assms(4) b(2)] filter_id_conv not_less)
  qed
  ultimately show ?thesis
    using minutes.candles_split [of ops ?m "feed_ticks ops chain a final"] by simp
qed

section \<open>A run over the feed\<close>

text \<open>What the ledgers after \<open>a\<close> up to \<open>c\<close> add to the run.\<close>

definition feed_minutes :: "(u64 \<Rightarrow> ledger_close_meta) \<Rightarrow> u64 \<Rightarrow> u64 \<Rightarrow> ledger_minute list" where
  "feed_minutes chain a c = map (\<lambda>k. (k, minute_at chain k, True)) (seqs a c)"

lemma log_sdex_feed: "map fst hist = map chain (seqs a c) \<Longrightarrow> log_sdex ops hist = feed_ticks ops chain a c"
proof -
  assume "map fst hist = map chain (seqs a c)"
  then have "map (ledger_sdex ops) (map fst hist) = map (\<lambda>k. ledger_sdex ops (chain k)) (seqs a c)"
    by simp
  then show ?thesis
    by (simp add: log_sdex_def feed_ticks_def case_prod_beta' comp_def)
qed

lemma read_object_feed:
  assumes "read_object env (ra_current acc + 1) bytes acc = Some (Inr acc')"
    and "rn_fetch env (ledger_s3_key (ra_current acc + 1)) = Inr (Some bytes)"
    and "serves env chain final" and "feed_ok chain final" and "ra_current acc \<le> final"
    and "logged env assets hist acc"
  shows "\<exists>amm. logged env assets (hist @ [(chain (ra_current acc + 1), amm)]) acc' \<and>
    ra_minutes acc' = ra_minutes acc @ [(ra_current acc + 1, minute_at chain (ra_current acc + 1), True)] \<and>
    ra_current acc' = ra_current acc + 1 \<and> ra_persisted acc' = ra_persisted acc + 1 \<and> ra_current acc + 1 \<le> final"
proof -
  let ?k = "ra_current acc + 1"
  obtain ledgers hist' where r: "rn_decode env bytes = Inr ledgers" "map fst hist' = ledgers"
      "logged env assets (hist @ hist') acc'"
      "ra_minutes acc' = ra_minutes acc @ object_minutes (map seq_minute ledgers)"
      "ra_current acc' = max (fold max (map (\<lambda>l. fst (seq_minute l)) ledgers) (ra_current acc)) ?k"
      "ra_persisted acc' = ra_persisted acc + 1"
    using read_object_SomeD [OF assms(1,6)] by blast
  have k: "?k \<le> final" "ledgers = [chain ?k]"
    using assms(2,3) r(1) unfolding serves_def by blast+
  obtain amm where amm: "hist' = [(chain ?k, amm)]"
    using r(2) unfolding k(2) by (cases hist') auto
  have seq: "ucast (ledger_sequence (chain ?k)) = ?k"
    using assms(4) k(1) unfolding feed_ok_def by blast
  have less: "ra_current acc < ?k"
    using unat_next [OF assms(4,5)] by (simp add: word_less_nat_alt)
  have "object_minutes (map seq_minute ledgers) = [(?k, minute_at chain ?k, True)]"
    by (simp add: k(2) object_minutes_def seq_minute_def seq max_of_def minute_at_def)
  moreover have "ra_current acc' = ?k"
    using less by (simp add: r(5) k(2) seq_minute_def seq)
  ultimately show ?thesis
    using r(3,4,6) k(1) amm by (intro exI [of _ amm]) simp
qed

lemma read_run_feed:
  assumes "read_run env n acc = Some (acc', failure)"
    and "serves env chain final" and "feed_ok chain final" and "ra_current acc \<le> final"
    and "logged env assets hist acc"
  shows "\<exists>hist'. logged env assets (hist @ hist') acc' \<and>
    map fst hist' = map chain (seqs (ra_current acc) (ra_current acc')) \<and>
    ra_minutes acc' = ra_minutes acc @ feed_minutes chain (ra_current acc) (ra_current acc') \<and>
    ra_current acc \<le> ra_current acc' \<and> ra_current acc' \<le> final \<and>
    ra_persisted acc' = ra_persisted acc + of_nat (unat (ra_current acc') - unat (ra_current acc)) \<and>
    unat (ra_current acc') \<le> unat (ra_current acc) + n"
  using assms(1,4,5)
proof (induction n arbitrary: acc hist)
  case 0
  then show ?case by (auto simp: feed_minutes_def intro: exI [of _ "[]"])
next
  case (Suc n)
  have same: ?case if "acc' = acc"
    using Suc.prems(2,3) that by (intro exI [of _ "[]"]) (simp add: feed_minutes_def)
  let ?k = "ra_current acc + 1"
  show ?case
  proof (cases "rn_fetch env (ledger_s3_key ?k)")
    case (Inl e)
    then show ?thesis using Suc.prems(1) same by simp
  next
    case fetched: (Inr got)
    show ?thesis
    proof (cases got)
      case None
      then show ?thesis using Suc.prems(1) same fetched by simp
    next
      case (Some bytes)
      from Suc.prems(1) fetched Some obtain r where r: "read_object env ?k bytes acc = Some r"
        "(case r of Inl e \<Rightarrow> Some (acc, Some e) | Inr acc1 \<Rightarrow> read_run env n acc1) = Some (acc', failure)"
        by (cases "read_object env ?k bytes acc") (auto simp: Let_def)
      show ?thesis
      proof (cases r)
        case (Inl e)
        then show ?thesis using r(2) same by simp
      next
        case (Inr acc1)
        then have read: "read_object env ?k bytes acc = Some (Inr acc1)"
          and rest: "read_run env n acc1 = Some (acc', failure)"
          using r by simp_all
        have fetch: "rn_fetch env (ledger_s3_key ?k) = Inr (Some bytes)"
          using fetched Some by simp
        obtain amm where one: "logged env assets (hist @ [(chain ?k, amm)]) acc1"
            "ra_minutes acc1 = ra_minutes acc @ [(?k, minute_at chain ?k, True)]"
            "ra_current acc1 = ?k" "ra_persisted acc1 = ra_persisted acc + 1" "?k \<le> final"
          using read_object_feed [OF read fetch assms(2,3) Suc.prems(2,3)] by blast
        have nx: "unat ?k = unat (ra_current acc) + 1"
          by (rule unat_next [OF assms(3) Suc.prems(2)])
        have "ra_current acc1 \<le> final"
          using one(3,5) by simp
        from Suc.IH [OF rest this one(1)] obtain hist' where more:
            "logged env assets ((hist @ [(chain ?k, amm)]) @ hist') acc'"
            "map fst hist' = map chain (seqs ?k (ra_current acc'))"
            "ra_minutes acc' = ra_minutes acc1 @ feed_minutes chain ?k (ra_current acc')"
            "?k \<le> ra_current acc'" "ra_current acc' \<le> final"
            "ra_persisted acc' = ra_persisted acc1 + of_nat (unat (ra_current acc') - unat ?k)"
            "unat (ra_current acc') \<le> unat ?k + n"
          unfolding one(3) by blast
        have le: "ra_current acc \<le> ?k"
          using nx by (simp add: word_le_nat_alt)
        have split: "seqs (ra_current acc) (ra_current acc') = ?k # seqs ?k (ra_current acc')"
          using seqs_append [OF le more(4)] seqs_single [OF nx] by simp
        have count: "unat (ra_current acc') - unat (ra_current acc) = Suc (unat (ra_current acc') - unat ?k)"
          using nx more(4) by (simp add: word_le_nat_alt)
        have persisted: "ra_persisted acc' = ra_persisted acc + of_nat (unat (ra_current acc') - unat (ra_current acc))"
          unfolding count more(6) one(4) by simp
        have "logged env assets (hist @ ((chain ?k, amm) # hist')) acc'"
          using more(1) by simp
        then show ?thesis
          using more(2-5,7) one(2) split nx le persisted
          by (intro exI [of _ "(chain ?k, amm) # hist'"]) (simp add: feed_minutes_def)
      qed
    qed
  qed
qed

section \<open>Where a run ends\<close>

lemma seqs_sorted: "sorted_wrt (<) (seqs a b)"
  unfolding seqs_def sorted_wrt_map
proof (rule sorted_wrt_mono_rel [OF _ sorted_wrt_upt])
  fix x y
  assume "x \<in> set [Suc (unat a)..<Suc (unat b)]" "y \<in> set [Suc (unat a)..<Suc (unat b)]" "x < y"
  then have "x < 2 ^ 64" "y < 2 ^ 64"
    using unsigned_less [of b, where ?'a = nat] by auto
  then show "of_nat x < (of_nat y :: u64)"
    using \<open>x < y\<close> by (simp add: word_less_nat_alt unat_of_nat)
qed

lemma feed_minutes_mem: "l \<in> set (feed_minutes chain a c) \<longleftrightarrow> (\<exists>k. a < k \<and> k \<le> c \<and> l = (k, minute_at chain k, True))"
  by (auto simp: feed_minutes_def set_seqs)

lemma feed_minutes_sorted:
  assumes "feed_ok chain final" and "c \<le> final"
  shows "sorted_wrt (\<lambda>l l'. led_seq l < led_seq l' \<and> led_min l \<le> led_min l') (feed_minutes chain a c)"
  unfolding feed_minutes_def sorted_wrt_map
proof (rule sorted_wrt_mono_rel [OF _ seqs_sorted])
  fix j k
  assume "j \<in> set (seqs a c)" "k \<in> set (seqs a c)" "j < k"
  then have "minute_at chain j \<le> minute_at chain k"
    using assms order_trans [of k c final] by (simp add: feed_ok_def set_seqs)
  with \<open>j < k\<close> show "led_seq (j, minute_at chain j, True) < led_seq (k, minute_at chain k, True) \<and>
      led_min (j, minute_at chain j, True) \<le> led_min (k, minute_at chain k, True)"
    by simp
qed

text \<open>A run's split over the feed is a boundary of the feed, and its flush limit divides the ledgers there.\<close>

lemma feed_split:
  assumes "feed_ok chain final" and "c \<le> final"
    and "snd (run_boundary (feed_minutes chain a c)) = Some (b, fb)"
  shows "a < b \<and> b \<le> c \<and> minute_end chain final b \<and> (\<forall>k. a < k \<longrightarrow> k \<le> c \<longrightarrow> minute_at chain k < fb \<longleftrightarrow> k \<le> b)"
proof -
  note cut = run_boundary_SomeD [OF assms(3)]
  have b: "a < b" "b \<le> c"
    using cut by (auto simp: feed_minutes_mem)
  have div: "minute_at chain k < fb \<longleftrightarrow> k \<le> b" if "a < k" "k \<le> c" for k
  proof -
    have "(k, minute_at chain k, True) \<in> set (feed_minutes chain a c)"
      using that by (simp add: feed_minutes_mem)
    then show ?thesis
      using cut by force
  qed
  obtain top where top: "a < top" "top \<le> c" "fb \<le> minute_at chain top"
    using cut by (auto simp: feed_minutes_mem)
  have "minute_at chain b < minute_at chain k" if k: "b < k" "k \<le> final" for k
  proof -
    have "fb \<le> minute_at chain k"
    proof (cases "k \<le> c")
      case True
      then show ?thesis
        using div [OF order_less_trans [OF b(1) k(1)] True] k(1) by (simp add: not_less [symmetric])
    next
      case False
      then have "top \<le> k" using top(2) by simp
      then have "minute_at chain top \<le> minute_at chain k"
        using assms(1) k(2) by (simp add: feed_ok_def)
      with top(3) show ?thesis by (rule order_trans)
    qed
    moreover have "minute_at chain b < fb"
      using div [OF b] by simp
    ultimately show ?thesis by simp
  qed
  moreover have "b \<le> final"
    using b(2) assms(2) by (rule order_trans)
  ultimately show ?thesis
    using b div by (simp add: minute_end_def)
qed

text \<open>No minute of the feed holds as many ledgers as a run may read.\<close>

definition minutes_within :: "(u64 \<Rightarrow> ledger_close_meta) \<Rightarrow> u64 \<Rightarrow> nat \<Rightarrow> bool" where
  "minutes_within chain final n \<longleftrightarrow>
     (\<forall>j k. k \<le> final \<longrightarrow> unat k + 1 = unat j + n \<longrightarrow> minute_at chain j < minute_at chain k)"

lemma feed_run_end:
  assumes "feed_ok chain final" and "minutes_within chain final n"
    and "ra_minutes acc = feed_minutes chain a (ra_current acc)" and "a \<le> ra_current acc" and "ra_current acc \<le> final"
    and "ra_persisted acc = of_nat (unat (ra_current acc) - unat a)" and "unat (ra_current acc) \<le> unat a + n"
    and "ra_persisted acc \<noteq> 0"
  shows "advance_to (end_of acc n False) acc = snd (run_boundary (ra_minutes acc))"
proof (cases "snd (run_boundary (ra_minutes acc))")
  case (Some p)
  then show ?thesis
    by (cases p) (simp add: end_of_def run_end_of_def advance_to_def Let_def)
next
  case None
  let ?c = "ra_current acc"
  let ?d = "unat ?c - unat a"
  have "?d < 2 ^ 64"
    using unsigned_less [of ?c, where ?'a = nat] by simp
  then have p: "unat (ra_persisted acc) = ?d"
    by (simp add: assms(6) unat_of_nat)
  then have pos: "0 < ?d"
    using assms(8) by (simp add: unat_eq_0 [symmetric])
  have len: "length (ra_minutes acc) = ?d"
    by (simp add: assms(3) feed_minutes_def seqs_def del: upt_Suc)
  have "\<not> n \<le> ?d"
  proof
    assume "n \<le> ?d"
    then have n: "unat ?c = unat a + n"
      using assms(4,7) by (simp add: word_le_nat_alt)
    have nx: "unat (a + 1) = unat a + 1"
      using assms(4,5) by (intro unat_next [OF assms(1)]) (rule order_trans)
    then have "minute_at chain (a + 1) < minute_at chain ?c"
      using assms(2,5) n by (simp add: minutes_within_def)
    moreover have "(a + 1, minute_at chain (a + 1), True) \<in> set (ra_minutes acc)"
      "(?c, minute_at chain ?c, True) \<in> set (ra_minutes acc)"
      using nx n pos by (simp_all add: assms(3) feed_minutes_mem word_less_nat_alt word_le_nat_alt)
    moreover have "list_all (\<lambda>(_, _, obj_end). obj_end) (ra_minutes acc)"
      by (simp add: assms(3) feed_minutes_def list_all_iff)
    ultimately have "snd (run_boundary (ra_minutes acc)) \<noteq> None"
      using run_boundary_progress [of "ra_minutes acc" "(a + 1, minute_at chain (a + 1), True)" "(?c, minute_at chain ?c, True)"]
        feed_minutes_sorted [OF assms(1,5)] by (auto simp: assms(3))
    with None show False by simp
  qed
  then show ?thesis
    using None pos by (simp add: end_of_def run_end_of_def advance_to_def p len)
qed

section \<open>One run, and many\<close>

text \<open>The order-book candles of a trace, and the cursor it leaves.\<close>

fun sdex_row :: "effect \<Rightarrow> candle list" where
  "sdex_row (WriteCandles candles source) = (if source = ''sdex'' then candles else [])"
| "sdex_row _ = []"

definition sdex_rows :: "effect list \<Rightarrow> candle list" where
  "sdex_rows trace = concat (map sdex_row trace)"

fun moved_cursor :: "effect \<Rightarrow> u64 \<Rightarrow> u64" where
  "moved_cursor (WriteCursor c) _ = c"
| "moved_cursor _ c = c"

definition cursor_after :: "u64 \<Rightarrow> effect list \<Rightarrow> u64" where
  "cursor_after c trace = fold moved_cursor trace c"

lemma trace_simps [simp]:
  "sdex_rows [] = []" "sdex_rows (e # trace) = sdex_row e @ sdex_rows trace"
  "sdex_rows (trace @ trace') = sdex_rows trace @ sdex_rows trace'"
  "cursor_after c [] = c" "cursor_after c (e # trace) = cursor_after (moved_cursor e c) trace"
  "cursor_after c (trace @ trace') = cursor_after (cursor_after c trace) trace'"
  by (simp_all add: sdex_rows_def cursor_after_def)

lemma as_source_not_sdex: "as_source v \<noteq> ''sdex''"
proof
  assume "as_source v = ''sdex''"
  then have "from_source ''sdex'' = Some v"
    by (simp add: from_source_eq_Some)
  then show False
    by (simp add: from_source_def)
qed

lemma logged_amm_sources:
  assumes "logged env assets hist acc" and "mset (rn_source_iter env (ra_amm acc)) = mset (ra_amm acc)"
    and "(source, a) \<in> set (rn_source_iter env (ra_amm acc))"
  shows "source \<in> range as_source"
proof -
  have "fst ` set (ra_amm acc) = fst ` set (log_amm hist)"
    using assms(1) amm_holds_fold [OF amm_holds_new, of "log_amm hist"] by (simp add: logged_def amm_holds_def)
  moreover have "fst ` set (log_amm hist) \<subseteq> range as_source"
    using assms(1) log_sources unfolding logged_def by blast
  moreover have "(source, a) \<in> set (ra_amm acc)"
    using assms(2,3) by (metis set_mset_mset)
  then have "source \<in> fst ` set (ra_amm acc)"
    by (rule rev_image_eqI) simp
  ultimately show ?thesis by blast
qed

lemma candle_writes_keep_cursor: "cursor_after c (map (candle_write env fb) written) = c"
  by (induction written) (simp_all add: candle_write_def split_beta)

lemma amm_rows:
  assumes "\<And>source a. (source, a) \<in> set written \<Longrightarrow> source \<in> range as_source"
  shows "sdex_rows (map (candle_write env fb) written) = []"
proof -
  have "sdex_row (candle_write env fb p) = []" if "p \<in> set written" for p
  proof -
    have "fst p \<in> range as_source"
      using assms [of "fst p" "snd p"] that by simp
    then have "fst p \<noteq> ''sdex''"
      by (metis as_source_not_sdex rangeE)
    then show ?thesis by (simp add: candle_write_def split_beta)
  qed
  then show ?thesis by (simp add: sdex_rows_def)
qed

text \<open>What one run does to the store and the cursor, whatever fails in it.\<close>

lemma run_step:
  assumes "dec_laws ops" and "feed_ok chain final" and "minutes_within chain final n"
    and "run env n st = Some (st', trace, res)"
    and "isl (rn_cursor env) \<or> rn_cursor env = Inr c" and "rn_ops env = ops" and "serves env chain final"
    and "\<And>m. mset (rn_source_iter env m) = mset m" and "c \<le> final"
  shows "sdex_rows trace = [] \<and> cursor_after c trace = c \<or>
    (\<exists>b. c < b \<and> minute_end chain final b \<and> set (sdex_rows trace) \<subseteq> set (candles_of ops (feed_ticks ops chain c b)) \<and>
      (cursor_after c trace = c \<or> cursor_after c trace = b \<and> sdex_rows trace = candles_of ops (feed_ticks ops chain c b)))"
  using assms(4) [unfolded run_def]
proof (cases rule: run_inner_cases)
  case (Closes start acc)
  then have start: "start = c"
    using assms(5) by auto
  have new: "ra_current (run_acc_new st c) = c" "ra_minutes (run_acc_new st c) = []" "ra_persisted (run_acc_new st c) = 0"
    by (simp_all add: run_acc_new_def)
  from read_run_feed [OF Closes(2) [unfolded start] assms(7,2) _ logged_new, unfolded new, OF assms(9)]
  obtain hist where r: "logged env (ps_assets st) hist acc" "map fst hist = map chain (seqs c (ra_current acc))"
      "ra_minutes acc = feed_minutes chain c (ra_current acc)" "c \<le> ra_current acc" "ra_current acc \<le> final"
      "ra_persisted acc = of_nat (unat (ra_current acc) - unat c)" "unat (ra_current acc) \<le> unat c + n"
    by auto
  note end_run = feed_run_end [OF assms(2,3) r(3-7) Closes(3)]
  from Closes(4) show ?thesis
  proof (cases rule: close_run_cases)
    case (Advanced rows cursor fb written rest tail)
    then have split: "snd (run_boundary (feed_minutes chain c (ra_current acc))) = Some (cursor, fb)"
      using end_run r(3) by simp
    note cut = feed_split [OF assms(2) r(5) this]
    have "holds (ra_sdex acc) (log_sdex ops hist)"
      using r(1) holds_fold [OF holds_new, of "log_sdex ops hist"] by (simp add: logged_def assms(6))
    then have "holds (ra_sdex acc) (feed_ticks ops chain c (ra_current acc))"
      by (simp add: log_sdex_feed [OF r(2)])
    then have rows: "fst (flush_older_than ops fb (ra_sdex acc)) = candles_of ops (feed_ticks ops chain c cursor)"
      using minutes.flush_older_out feed_ticks_filter [OF assms(1), of c "ra_current acc" chain fb cursor]
        cut order_less_imp_le [of c cursor] by simp
    have sdex: "sdex_rows (map (candle_write env fb) written) =
        (if written = [] then [] else candles_of ops (feed_ticks ops chain c cursor))"
    proof (cases written)
      case (Cons s sources)
      then have s: "s = (''sdex'', ra_sdex acc)" "rn_source_iter env (ra_amm acc) = sources @ rest"
        using Advanced(5) by simp_all
      have "sdex_rows (map (candle_write env fb) sources) = []"
        using logged_amm_sources [OF r(1) assms(8)] s(2) by (intro amm_rows) auto
      then show ?thesis
        using rows s(1) assms(6) Cons by (simp add: candle_write_def)
    qed simp
    have trace: "sdex_rows trace = sdex_rows (map (candle_write env fb) written)"
      using Advanced(6) by (auto simp: Advanced(1))
    have boundary: "c < cursor" "minute_end chain final cursor"
      using cut by simp_all
    show ?thesis
    proof (cases "isl res")
      case True
      then have "cursor_after c trace = c"
        using Advanced(6) candle_writes_keep_cursor by (auto simp: Advanced(1))
      then show ?thesis
        using boundary trace sdex by (intro disjI2 exI [of _ cursor]) simp
    next
      case False
      then have "rest = []" "tail = [WriteOracle (ra_oracle acc), WriteCursor cursor]"
        using Advanced(6) by auto
      then have "written \<noteq> []" "cursor_after c trace = cursor"
        using Advanced(5) by (auto simp: Advanced(1) candle_writes_keep_cursor)
      then show ?thesis
        using boundary trace sdex by (intro disjI2 exI [of _ cursor]) simp
    qed
  qed (auto intro!: disjI1)
qed simp_all

text \<open>
  The processor over time: runs from the stored cursor with any failures, and restarts that rebuild the state
  from the database in any way. \<open>w\<close> collects the order-book candles the store has received.
\<close>

inductive live :: "dec_ops \<Rightarrow> (u64 \<Rightarrow> ledger_close_meta) \<Rightarrow> u64 \<Rightarrow> nat \<Rightarrow> u64 \<Rightarrow> processing_state \<Rightarrow> u64 \<Rightarrow> candle list \<Rightarrow> bool"
  for ops chain final n c0 where
  live_start: "live ops chain final n c0 st c0 []"
| live_run: "live ops chain final n c0 st' (cursor_after c trace) (w @ sdex_rows trace)"
    if "live ops chain final n c0 st c w" and "run env n st = Some (st', trace, res)"
      and "isl (rn_cursor env) \<or> rn_cursor env = Inr c" and "rn_ops env = ops" and "serves env chain final"
      and "\<And>m. mset (rn_source_iter env m) = mset m"
| live_restart: "live ops chain final n c0 st' c w" if "live ops chain final n c0 st c w"

lemma candles_feed_step:
  assumes "dec_laws ops" and "feed_ok chain final" and "minute_end chain final b" and "minute_end chain final c"
    and "a \<le> b" and "b \<le> c"
  shows "candles_of ops (feed_ticks ops chain a c) =
    candles_of ops (feed_ticks ops chain a b) @ candles_of ops (feed_ticks ops chain b c)"
  using candles_feed_split [OF assms(1-3,5)] candles_feed_split [OF assms(1,2,4) assms(6)]
    candles_feed_split [OF assms(1,2,4) order_trans [OF assms(5,6)]] by simp

lemma live_candles:
  assumes "dec_laws ops" and "feed_ok chain final" and "minutes_within chain final n" and "minute_end chain final c0"
    and "live ops chain final n c0 st c w"
  shows "c0 \<le> c \<and> minute_end chain final c \<and>
    set (candles_of ops (feed_ticks ops chain c0 c)) \<subseteq> set w \<and>
    set w \<subseteq> set (candles_of ops (feed_ticks ops chain c0 final))"
  using assms(5)
proof (induction rule: live.induct)
  case (live_start st)
  then show ?case
    using assms(4) by (simp add: feed_ticks_def candles_of_def)
next
  case (live_run st c w env st' trace res)
  then have c: "c0 \<le> c" "minute_end chain final c" "c \<le> final"
    by (auto simp: minute_end_def)
  from run_step [OF assms(1-3) live_run.hyps(2-6) c(3)]
  consider (same) "sdex_rows trace = []" "cursor_after c trace = c"
    | (writes) b where "c < b" "minute_end chain final b"
        "set (sdex_rows trace) \<subseteq> set (candles_of ops (feed_ticks ops chain c b))"
        "cursor_after c trace = c \<or> cursor_after c trace = b \<and> sdex_rows trace = candles_of ops (feed_ticks ops chain c b)"
    by blast
  then show ?case
  proof cases
    case same
    then show ?thesis using live_run.IH by simp
  next
    case (writes b)
    have cb: "c \<le> b" using writes(1) by simp
    have le: "c0 \<le> b" using c(1) cb by (rule order_trans)
    note whole = candles_feed_split [OF assms(1,2) writes(2) le]
      and part = candles_feed_step [OF assms(1,2) c(2) writes(2) c(1) cb]
    show ?thesis
      using writes(2-4) whole part live_run.IH le by auto
  qed
next
  case (live_restart st c w st')
  then show ?case by simp
qed

text \<open>
  C1: From a cursor at the end of a minute, the live processor loses and corrupts no order-book trade: over any
  sequence of runs with any failures of cursor, fetch, decode and writes, and restarts that rebuild the state
  arbitrarily, the cursor is always the end of a minute, the order-book candles of every ledger it has passed
  are in the store, and every order-book candle ever written is the candle of the whole feed for its minute and
  pair, so no key is ever written with two values, version included. Assumed: every run is of this code, close
  times do not go back, the store serves under a key the same ledger, alone, every time, and no minute holds as
  many ledgers as a run may read.
\<close>

theorem live_candles_are_the_feeds:
  assumes "dec_laws ops" and "feed_ok chain final" and "minutes_within chain final n" and "minute_end chain final c0"
    and "live ops chain final n c0 st c w"
  shows "c0 \<le> c \<and> minute_end chain final c \<and>
    set (candles_of ops (feed_ticks ops chain c0 c)) \<subseteq> set w \<and>
    set w \<subseteq> set (candles_of ops (feed_ticks ops chain c0 final)) \<and> inj_on candle_key (set w)"
proof -
  have "c0 \<le> c \<and> minute_end chain final c \<and> set (candles_of ops (feed_ticks ops chain c0 c)) \<subseteq> set w \<and>
      set w \<subseteq> set (candles_of ops (feed_ticks ops chain c0 final))"
    by (rule live_candles [OF assms])
  then show ?thesis
    using inj_on_subset [OF candles_of_inj] by blast
qed

theorem live_candles_are_the_feeds_witness:
  "\<exists>st w. live exact_ops sample_feed 2 3 0 st 1 w \<and>
    set (candles_of exact_ops (feed_ticks exact_ops sample_feed 0 1)) \<subseteq> set w \<and>
    set w \<subseteq> set (candles_of exact_ops (feed_ticks exact_ops sample_feed 0 2))"
proof -
  let ?env = "sample_run_env (\<lambda>_ _. None)"
  have minute: "minute_at sample_feed k = minute_of (60 * k)" and seq: "ledger_sequence (sample_feed k) = ucast k" for k
    by (simp_all add: minute_at_def ledger_close_time_def ledger_sequence_def sample_feed_def)
  have upto: "k = 0 \<or> k = 1 \<or> k = 2" if "k \<le> (2 :: u64)" for k
  proof -
    have "unat k \<le> 2" using that by (simp add: word_le_nat_alt)
    then have "unat k = unat (0 :: u64) \<or> unat k = unat (1 :: u64) \<or> unat k = unat (2 :: u64)" by simp arith
    then show ?thesis by (simp only: word_unat_eq_iff)
  qed
  have ok: "feed_ok sample_feed 2"
    unfolding feed_ok_def
  proof (intro conjI allI impI)
    fix j k :: u64
    assume "j \<le> k" "k \<le> 2"
    then show "minute_at sample_feed j \<le> minute_at sample_feed k"
      using upto [OF order_trans [of j k 2]] upto [of k] by (auto simp: minute minute_of_def)
  qed (auto simp: seq dest!: upto)
  have within: "minutes_within sample_feed 2 3"
    unfolding minutes_within_def minute by (auto simp: minute_of_def unat_eq_0 dest!: upto)
  have start: "minute_end sample_feed 2 0"
    unfolding minute_end_def minute by (auto simp: minute_of_def dest!: upto)
  have serves: "serves ?env sample_feed 2"
    by (auto simp: serves_def sample_fetch split: if_splits)
  obtain st' trace stats where r: "run ?env 3 sample_state = Some (st', trace, Inr stats)" "cursor_after 0 trace = 1"
    using sample_run by auto
  have env: "isl (rn_cursor ?env) \<or> rn_cursor ?env = Inr 0" "rn_ops ?env = exact_ops" "mset (rn_source_iter ?env m) = mset m" for m
    by (simp_all add: sample_run_env_def)
  have "live exact_ops sample_feed 2 3 0 st' 1 (sdex_rows trace)"
    using live_run [OF live_start r(1) env(1,2) serves env(3)] r(2) by simp
  then show ?thesis
    using live_candles_are_the_feeds [OF exact_ops_laws ok within start] by blast
qed

end
