(* ===== verification/Backfill_Plan.thy ===== *)
theory Backfill_Plan
  imports Galexie_Key
begin

text \<open>
  What a backfill run plans and reports: the partitions of a ledger range (\<open>sdex-backfill/src/partition.rs\<close>),
  the progress rows of a run (\<open>progress.rs\<close>) and how the sink merges them into the stored row
  (\<open>sink.rs\<close>). The properties: the partitions of a range are computed and cover it exactly, a partition's
  file is the live processor's object, and no sequence of updates moves a progress row backwards.
\<close>

section \<open>Partitions\<close>

definition root_prefix :: string where
  "root_prefix = ''v1.1/stellar/ledgers/pubnet''"

definition bucket_name :: string where
  "bucket_name = ''aws-public-blockchain''"

definition partition_size :: u32 where
  "partition_size = 64000"

record partition =
  pt_start :: u32
  pt_end :: u32
  pt_hex :: string

definition from_ledger :: "u32 \<Rightarrow> partition" where
  "from_ledger seq =
     (let start = seq - seq mod partition_size
      in \<lparr>pt_start = start, pt_end = start + partition_size - 1, pt_hex = hex08 (0xFFFFFFFF - start)\<rparr>)"

definition show_u32 :: "u32 \<Rightarrow> string" where
  "show_u32 w = show_nat (unat w)"

definition folder_name :: "partition \<Rightarrow> string" where
  "folder_name p = pt_hex p @ ''--'' @ show_u32 (pt_start p) @ ''-'' @ show_u32 (pt_end p)"

definition s3_folder :: "partition \<Rightarrow> string" where
  "s3_folder p = ''s3://'' @ bucket_name @ ''/'' @ root_prefix @ ''/'' @ folder_name p @ ''/''"

definition local_folder :: "string \<Rightarrow> partition \<Rightarrow> string" where
  "local_folder temp_dir p = temp_dir @ ''/'' @ folder_name p"

definition clamped :: "partition \<Rightarrow> u32 \<Rightarrow> u32 \<Rightarrow> u32 \<times> u32" where
  "clamped p run_start run_end = (max run_start (pt_start p), min run_end (pt_end p))"

definition local_ledger_path :: "partition \<Rightarrow> u32 \<Rightarrow> string \<Rightarrow> string" where
  "local_ledger_path p seq temp_dir =
     local_folder temp_dir p @ ''/'' @ hex08 (0xFFFFFFFF - seq) @ ''--'' @ show_u32 seq @ ''.xdr.zst''"

text \<open>The loop over the range; near the end of the 32-bit range the cursor wraps and it would not return.\<close>

partial_function (option) partitions_from :: "u32 \<Rightarrow> u32 \<Rightarrow> partition list option" where
  "partitions_from cursor end =
     (if cursor \<le> end then
        let p = from_ledger cursor
        in Option.bind (partitions_from (pt_end p + 1) end) (\<lambda>ps. Some (p # ps))
      else Some [])"

definition partitions_for_range :: "u32 \<Rightarrow> u32 \<Rightarrow> partition list option" where
  "partitions_for_range start end = (if end < start then Some [] else partitions_from start end)"

text \<open>The ledgers \<open>first..=last\<close>.\<close>

definition ledger_range :: "u32 \<Rightarrow> u32 \<Rightarrow> u32 list" where
  "ledger_range lo hi = map of_nat [unat lo..<Suc (unat hi)]"

section \<open>Progress rows\<close>

datatype extract_mode = Combined | SdexOnly

datatype progress_status = Running | Paused | Completed

fun as_ch :: "progress_status \<Rightarrow> string" where
  "as_ch Running = ''running''"
| "as_ch Paused = ''paused''"
| "as_ch Completed = ''completed''"

datatype current_update = SetForward u64 | SetBackward u64 | Keep

datatype phase = PhaseRunning | PhaseCompleted

record progress_update =
  pu_task_name :: string
  pu_start_ledger :: u64
  pu_target_ledger :: u64
  pu_current_ledger :: current_update
  pu_status :: progress_status
  pu_earliest_minute :: "u32 option"
  pu_newest_minute :: "u32 option"

record observed =
  ob_highest_indexed :: u32
  ob_sdex_earliest :: "u32 option"
  ob_sdex_latest :: "u32 option"
  ob_amm_earliest :: "u32 option"
  ob_amm_latest :: "u32 option"

definition sdex_archive :: string where
  "sdex_archive = ''sdex_archive''"

definition soroban_amm :: string where
  "soroban_amm = ''soroban_amm''"

definition combined_updates :: "u32 \<Rightarrow> u32 \<Rightarrow> u32 \<Rightarrow> observed \<Rightarrow> phase \<Rightarrow> progress_update list" where
  "combined_updates start tip activation obs phase =
     (let reached_tip = (0 < ob_highest_indexed obs \<and> tip \<le> ob_highest_indexed obs);
          soroban_current = min (ucast (ob_highest_indexed obs)) (ucast tip)
      in [\<lparr>pu_task_name = soroban_amm, pu_start_ledger = ucast activation, pu_target_ledger = ucast tip,
            pu_current_ledger = SetForward soroban_current,
            pu_status = (case phase of
                PhaseCompleted \<Rightarrow> if reached_tip then Completed
                  else if 0 < ob_highest_indexed obs then Paused else Running
              | PhaseRunning \<Rightarrow> Running),
            pu_earliest_minute = ob_amm_earliest obs, pu_newest_minute = ob_amm_latest obs\<rparr>,
          \<lparr>pu_task_name = sdex_archive, pu_start_ledger = 1, pu_target_ledger = ucast tip,
            pu_current_ledger = (case phase of PhaseRunning \<Rightarrow> Keep | PhaseCompleted \<Rightarrow> SetBackward (ucast start)),
            pu_status = (case phase of PhaseRunning \<Rightarrow> Running | PhaseCompleted \<Rightarrow> Paused),
            pu_earliest_minute = ob_sdex_earliest obs, pu_newest_minute = ob_sdex_latest obs\<rparr>])"

definition sdex_only_updates :: "u32 \<Rightarrow> u32 \<Rightarrow> u32 \<Rightarrow> observed \<Rightarrow> phase \<Rightarrow> progress_update list" where
  "sdex_only_updates start tip activation obs phase =
     (let reached_genesis = (start = 1 \<and> (if activation = 0 then 0 else activation - 1) \<le> ob_highest_indexed obs)
      in [\<lparr>pu_task_name = sdex_archive, pu_start_ledger = 1, pu_target_ledger = ucast tip,
            pu_current_ledger = (case phase of
                PhaseRunning \<Rightarrow> Keep
              | PhaseCompleted \<Rightarrow> if reached_genesis then SetBackward (ucast start) else Keep),
            pu_status = (case phase of
                PhaseCompleted \<Rightarrow> if reached_genesis then Completed else Running
              | PhaseRunning \<Rightarrow> Running),
            pu_earliest_minute = ob_sdex_earliest obs, pu_newest_minute = ob_sdex_latest obs\<rparr>])"

definition progress_updates ::
  "extract_mode \<Rightarrow> u32 \<Rightarrow> u32 \<Rightarrow> u32 \<Rightarrow> observed \<Rightarrow> phase \<Rightarrow> progress_update list" where
  "progress_updates mode start tip activation obs phase =
     (case mode of
        Combined \<Rightarrow> combined_updates start tip activation obs phase
      | SdexOnly \<Rightarrow> sdex_only_updates start tip activation obs phase)"

section \<open>The stored row\<close>

fun resolve_current :: "current_update \<Rightarrow> u64 option \<Rightarrow> u64" where
  "resolve_current (SetForward v) existing = (case existing of None \<Rightarrow> v | Some e \<Rightarrow> max e v)"
| "resolve_current (SetBackward v) existing =
     (case existing of Some e \<Rightarrow> if e \<noteq> 0 then min e v else v | None \<Rightarrow> v)"
| "resolve_current Keep existing = (case existing of Some e \<Rightarrow> e | None \<Rightarrow> 0)"

definition resolve_status :: "string option \<Rightarrow> progress_status \<Rightarrow> progress_status" where
  "resolve_status existing update =
     (if existing = Some ''completed'' \<and> (update = Running \<or> update = Paused) then Completed else update)"

definition merge_min :: "u32 option \<Rightarrow> u32 option \<Rightarrow> u32 option" where
  "merge_min a b = (case (a, b) of (Some x, Some y) \<Rightarrow> Some (min x y) | (x, y) \<Rightarrow> or_else x y)"

definition merge_max :: "u32 option \<Rightarrow> u32 option \<Rightarrow> u32 option" where
  "merge_max a b = (case (a, b) of (Some x, Some y) \<Rightarrow> Some (max x y) | (x, y) \<Rightarrow> or_else x y)"

text \<open>A row of \<open>prices.backfill_progress\<close>; times are unix seconds.\<close>

record progress_row =
  pg_start_ledger :: u64
  pg_target_ledger :: u64
  pg_current_ledger :: u64
  pg_status :: string
  pg_last_push_at :: nat
  pg_earliest :: "u32 option"
  pg_newest :: "u32 option"
  pg_started_at :: nat
  pg_completed_at :: "nat option"
  pg_updated_at :: nat

text \<open>\<open>write_progress_once\<close>: the row stored for the stream is read and replaced; \<open>now\<close> is the server's clock.\<close>

datatype progress_error = UnknownTask string

definition write_progress_once ::
  "nat \<Rightarrow> progress_update \<Rightarrow> progress_row option \<Rightarrow> (progress_error, progress_row) result" where
  "write_progress_once now update existing =
     (if pu_task_name update \<noteq> sdex_archive \<and> pu_task_name update \<noteq> soroban_amm
      then Inl (UnknownTask (pu_task_name update))
      else
        (let current = resolve_current (pu_current_ledger update) (map_option pg_current_ledger existing);
             status = resolve_status (map_option pg_status existing) (pu_status update)
         in Inr \<lparr>pg_start_ledger = pu_start_ledger update, pg_target_ledger = pu_target_ledger update,
              pg_current_ledger = current, pg_status = as_ch status, pg_last_push_at = now,
              pg_earliest = merge_min (Option.bind existing pg_earliest) (pu_earliest_minute update),
              pg_newest = merge_max (Option.bind existing pg_newest) (pu_newest_minute update),
              pg_started_at = (case existing of Some e \<Rightarrow> pg_started_at e | None \<Rightarrow> now),
              pg_completed_at = (if status = Completed
                then Some (case Option.bind existing pg_completed_at of Some ts \<Rightarrow> ts | None \<Rightarrow> now) else None),
              pg_updated_at = (case existing of Some e \<Rightarrow> max now (pg_updated_at e + 1) | None \<Rightarrow> now)\<rparr>))"

section \<open>The partitions of a range\<close>

text \<open>The first ledger of the last partition, whose end does not fit 32 bits.\<close>

definition last_partition :: u32 where
  "last_partition = 4294912000"

lemma from_ledger_nat:
  assumes "seq < last_partition"
  shows "unat (pt_start (from_ledger seq)) = unat seq - unat seq mod 64000"
    and "unat (pt_end (from_ledger seq)) = unat seq - unat seq mod 64000 + 63999"
    and "unat (pt_end (from_ledger seq) + 1) = unat seq - unat seq mod 64000 + 64000"
    and "unat seq \<le> unat (pt_end (from_ledger seq))"
proof -
  let ?n = "unat seq" and ?s = "unat seq - unat seq mod 64000"
  have n: "?n < 4294912000"
    using assms by (simp add: last_partition_def word_less_nat_alt)
  have s: "?s = 64000 * (?n div 64000)"
    using minus_mod_eq_mult_div [of ?n 64000] by simp
  have "?n div 64000 < 67108"
    using n by (simp add: less_mult_imp_div_less)
  then have bound: "?s \<le> 4294848000"
    unfolding s by simp
  have mod: "unat (seq mod partition_size) = ?n mod 64000"
    by (simp add: partition_size_def unat_mod)
  have "seq mod partition_size \<le> seq"
    by (simp add: word_le_nat_alt mod)
  then show start: "unat (pt_start (from_ledger seq)) = ?s"
    by (simp add: from_ledger_def Let_def unat_sub mod)
  then have "unat (pt_start (from_ledger seq) + 63999) = ?s + 63999"
    using bound by (simp add: unat_word_ariths)
  moreover have "pt_end (from_ledger seq) = pt_start (from_ledger seq) + 63999"
    by (simp add: from_ledger_def Let_def partition_size_def)
  ultimately show pend: "unat (pt_end (from_ledger seq)) = ?s + 63999"
    by simp
  show "unat (pt_end (from_ledger seq) + 1) = ?s + 64000"
    using bound pend by (simp add: unat_word_ariths)
  show "?n \<le> unat (pt_end (from_ledger seq))"
    unfolding pend using mod_less_divisor [of 64000 ?n] by linarith
qed

lemma ledger_range_set: "seq \<in> set (ledger_range lo hi) \<longleftrightarrow> lo \<le> seq \<and> seq \<le> hi"
proof -
  have "seq \<in> set (ledger_range lo hi) \<longleftrightarrow> (\<exists>n. unat lo \<le> n \<and> n \<le> unat hi \<and> seq = of_nat n)"
    by (auto simp: ledger_range_def less_Suc_eq_le)
  also have "\<dots> \<longleftrightarrow> unat lo \<le> unat seq \<and> unat seq \<le> unat hi"
  proof
    assume "\<exists>n. unat lo \<le> n \<and> n \<le> unat hi \<and> seq = of_nat n"
    then obtain n where n: "unat lo \<le> n" "n \<le> unat hi" "seq = of_nat n" by blast
    have "n < 2 ^ 32" using n(2) unsigned_less [of hi, where ?'a = nat] by simp
    then have "unat seq = n" by (simp add: n(3) unat_of_nat)
    with n show "unat lo \<le> unat seq \<and> unat seq \<le> unat hi" by simp
  next
    assume "unat lo \<le> unat seq \<and> unat seq \<le> unat hi"
    then show "\<exists>n. unat lo \<le> n \<and> n \<le> unat hi \<and> seq = of_nat n"
      by (intro exI [of _ "unat seq"]) simp
  qed
  finally show ?thesis by (simp add: word_le_nat_alt)
qed

definition partition_ledgers :: "u32 \<Rightarrow> u32 \<Rightarrow> partition \<Rightarrow> u32 list" where
  "partition_ledgers run_start run_end p = (let (lo, hi) = clamped p run_start run_end in ledger_range lo hi)"

text \<open>The loop from a cursor inside a partition already begun: \<open>start\<close> is the range's own start.\<close>

lemma partitions_from_covers:
  assumes "end < last_partition" and "start \<le> cursor" and "cursor = start \<or> unat cursor mod 64000 = 0"
  shows "\<exists>ps. partitions_from cursor end = Some ps \<and>
    concat (map (partition_ledgers start end) ps) = ledger_range cursor end \<and>
    (\<forall>p \<in> set ps. \<exists>seq. p = from_ledger seq \<and> cursor \<le> seq \<and> seq \<le> end)"
  using assms(2,3)
proof (induction "Suc (unat end) - unat cursor" arbitrary: cursor rule: less_induct)
  case less
  show ?case
  proof (cases "cursor \<le> end")
    case False
    then have "ledger_range cursor end = []"
      by (simp add: ledger_range_def word_le_nat_alt)
    then show ?thesis
      using False by (simp add: partitions_from.simps [of cursor])
  next
    case True
    let ?p = "from_ledger cursor" and ?next = "pt_end (from_ledger cursor) + 1"
    have small: "cursor < last_partition"
      using True assms(1) by simp
    note p = from_ledger_nat [OF small]
    have more: "unat cursor < unat ?next"
      using p(3,4,2) by simp
    have smaller: "Suc (unat end) - unat ?next < Suc (unat end) - unat cursor"
      using more True by (intro diff_less_mono2) (simp_all add: word_le_nat_alt)
    have "start \<le> ?next"
      using less.prems(1) more by (simp add: word_le_nat_alt)
    moreover have "unat ?next mod 64000 = 0"
      by (simp add: p(3) minus_mod_eq_mult_div)
    ultimately have "\<exists>ps. partitions_from ?next end = Some ps \<and>
        concat (map (partition_ledgers start end) ps) = ledger_range ?next end \<and>
        (\<forall>p \<in> set ps. \<exists>seq. p = from_ledger seq \<and> ?next \<le> seq \<and> seq \<le> end)"
      by (intro less.hyps [OF smaller]) simp_all
    then obtain ps where ps: "partitions_from ?next end = Some ps"
        "concat (map (partition_ledgers start end) ps) = ledger_range ?next end"
        "\<forall>p \<in> set ps. \<exists>seq. p = from_ledger seq \<and> ?next \<le> seq \<and> seq \<le> end"
      by blast
    have lo: "max start (pt_start ?p) = cursor"
    proof (cases "cursor = start")
      case True
      have "pt_start ?p \<le> cursor"
        by (simp add: word_le_nat_alt p(1))
      then show ?thesis
        by (simp add: True max_absorb1)
    next
      case False
      then have "unat (pt_start ?p) = unat cursor"
        using less.prems(2) p(1) by simp
      then have "pt_start ?p = cursor"
        by (simp add: word_unat_eq_iff)
      with less.prems(1) show ?thesis by (simp add: max_absorb2)
    qed
    have "[unat cursor..<Suc (unat (min end (pt_end ?p)))] @ [unat ?next..<Suc (unat end)] = [unat cursor..<Suc (unat end)]"
    proof (cases "end \<le> pt_end ?p")
      case True
      then have "Suc (unat end) \<le> unat ?next"
        using p(2,3) by (simp add: word_le_nat_alt)
      then show ?thesis
        using True by (simp add: min_absorb1 del: upt_Suc)
    next
      case False
      then have less: "unat (pt_end ?p) < unat end"
        by (simp add: word_le_nat_alt)
      have eq: "Suc (unat (pt_end ?p)) = unat ?next"
        unfolding p(2,3) by linarith
      have "unat ?next \<le> Suc (unat end)" "pt_end ?p \<le> end"
        using less eq by (simp_all add: word_le_nat_alt)
      with eq show ?thesis
        using upt_add_eq_append [of "unat cursor" "unat ?next" "Suc (unat end) - unat ?next"] more
        by (simp add: min_absorb2 del: upt_Suc)
    qed
    then have "ledger_range cursor (min end (pt_end ?p)) @ ledger_range ?next end = ledger_range cursor end"
      unfolding ledger_range_def map_append [symmetric] by simp
    then have all: "partition_ledgers start end ?p @ concat (map (partition_ledgers start end) ps) = ledger_range cursor end"
      by (simp add: partition_ledgers_def clamped_def lo ps(2))
    have mem: "\<exists>seq. p = from_ledger seq \<and> cursor \<le> seq \<and> seq \<le> end" if "p \<in> set (?p # ps)" for p
      using that ps(3) True more by (fastforce simp: word_le_nat_alt)
    show ?thesis
      using all mem True by (intro exI [of _ "?p # ps"]) (simp add: partitions_from.simps [of cursor] ps(1) Let_def)
  qed
qed

lemma partitions_cover:
  assumes "hi < last_partition"
  shows "\<exists>ps. partitions_for_range lo hi = Some ps \<and> concat (map (partition_ledgers lo hi) ps) = ledger_range lo hi"
proof (cases "hi < lo")
  case True
  then show ?thesis
    by (simp add: partitions_for_range_def ledger_range_def word_less_nat_alt)
next
  case False
  then show ?thesis
    using partitions_from_covers [OF assms order_refl, of lo] by (auto simp: partitions_for_range_def)
qed

lemma ne_list: "x \<in> set xs \<Longrightarrow> xs \<noteq> []"
  by auto

text \<open>
  C20: The loop that cuts a range into partitions returns for every range that ends before the last partition of
  the 32-bit range, and the partitions cover exactly the ledgers of the range, in order, each an aligned block
  of 64000 with at least one of them.
\<close>

theorem partitions_cover_the_range:
  assumes "end < last_partition"
  shows "\<exists>ps. partitions_for_range start end = Some ps \<and>
    concat (map (partition_ledgers start end) ps) = ledger_range start end \<and>
    list_all (\<lambda>p. unat (pt_start p) mod 64000 = 0 \<and> unat (pt_end p) = unat (pt_start p) + 63999 \<and>
      partition_ledgers start end p \<noteq> []) ps"
proof (cases "end < start")
  case True
  then show ?thesis
    by (simp add: partitions_for_range_def ledger_range_def word_less_nat_alt)
next
  case False
  from partitions_from_covers [OF assms order_refl, of start]
  obtain ps where ps: "partitions_from start end = Some ps"
      "concat (map (partition_ledgers start end) ps) = ledger_range start end"
      "\<forall>p \<in> set ps. \<exists>seq. p = from_ledger seq \<and> start \<le> seq \<and> seq \<le> end"
    by auto
  have "unat (pt_start p) mod 64000 = 0 \<and> unat (pt_end p) = unat (pt_start p) + 63999 \<and> partition_ledgers start end p \<noteq> []"
    if mem: "p \<in> set ps" for p
  proof -
    obtain seq where seq: "p = from_ledger seq" "start \<le> seq" "seq \<le> end"
      using ps(3) mem by blast
    have "seq < last_partition"
      using seq(3) assms by (rule order_le_less_trans)
    note p = from_ledger_nat [OF this]
    have "seq \<in> set (partition_ledgers start end p)"
    proof -
      have "pt_start p \<le> seq" "seq \<le> pt_end p"
        unfolding word_le_nat_alt seq(1) p(1) by (rule diff_le_self) (rule p(4))
      then show ?thesis
        using seq(2,3) by (simp add: partition_ledgers_def clamped_def ledger_range_set)
    qed
    then have "partition_ledgers start end p \<noteq> []"
      by (rule ne_list)
    moreover have "(unat seq - unat seq mod 64000) mod 64000 = 0"
      by (simp add: minus_mod_eq_mult_div)
    ultimately show ?thesis
      unfolding seq(1) p(1,2) by (simp only: simp_thms)
  qed
  then show ?thesis
    using ps(1,2) False by (simp add: partitions_for_range_def list_all_iff)
qed

theorem partitions_cover_the_range_witness:
  "\<exists>ps. partitions_for_range 63999 128001 = Some ps \<and>
    concat (map (partition_ledgers 63999 128001) ps) = ledger_range 63999 128001"
  using partitions_cover_the_range [of 128001 63999] by (auto simp: last_partition_def)

section \<open>A partition's file is the live object\<close>

lemma unat_ucast_u32: "unat (ucast w :: i64) = unat w" for w :: u32
proof -
  have "unat w < 2 ^ 64"
    using unsigned_less [of w, where ?'a = nat] by simp
  then have "take_bit 64 (unat w) = unat w"
    by (rule take_bit_nat_eq_self)
  then show ?thesis
    by (simp add: unsigned_ucast_eq)
qed

lemma ucast_down_up [simp]: "ucast (ucast w :: i64) = w" for w :: u32
  by (rule ucast_up_ucast_id) (simp add: is_up)

lemma show_int_u32: "show_int (sint (ucast w :: i64)) = show_u32 w"
  by (simp add: show_int_def sint_ucast_u32 show_u32_def)

text \<open>
  The file the backfill reads for a ledger below a synced partition folder is the object key the live
  processor derives for it: the two independent renderings of the key, 32-bit and signed 64-bit, agree.
\<close>

lemma backfill_reads_the_live_objects:
  assumes "seq < last_partition"
  shows "local_ledger_path (from_ledger seq) seq temp_dir = temp_dir @ ''/'' @ ledger_s3_key (ucast seq)"
proof -
  let ?x = "ucast seq :: i64" and ?p = "from_ledger seq"
  let ?start = "div_i64 ?x files_per_partition * files_per_partition"
  note p = from_ledger_nat [OF assms]
  have sub: "unat seq - unat seq mod 64000 = unat seq div 64000 * 64000"
    using minus_mod_eq_mult_div [of "unat seq" 64000] by simp
  have "sint ?start = int (unat seq) div 64000 * 64000"
    unfolding partition_start sint_ucast_u32 by (cases "seq = 0") (simp_all add: signed_divide_int_def)
  also have "\<dots> = int (unat (pt_start ?p))"
    unfolding p(1) sub by (simp add: zdiv_int)
  finally have start: "sint ?start = int (unat (pt_start ?p))" .
  have "sint ?start = sint (ucast (pt_start ?p) :: i64)"
    unfolding start sint_ucast_u32 by (rule refl)
  then have "?start = ucast (pt_start ?p)"
    by (rule signed_word_eqI)
  moreover have "ucast (pt_start ?p) + files_per_partition - 1 = (ucast (pt_end ?p) :: i64)"
  proof -
    have "unat (ucast (pt_start ?p) + 63999 :: i64) = unat (ucast (pt_end ?p) :: i64)"
      using unsigned_less [of "pt_start ?p", where ?'a = nat]
      by (simp add: unat_word_ariths unat_ucast_u32 p(1,2))
    then have "ucast (pt_start ?p) + 63999 = (ucast (pt_end ?p) :: i64)"
      by (simp only: word_unat_eq_iff)
    moreover have "ucast (pt_start ?p) + files_per_partition - 1 = (ucast (pt_start ?p) + 63999 :: i64)"
      by (simp add: files_per_partition_def)
    ultimately show ?thesis by simp
  qed
  moreover have "pt_hex ?p = hex08 (0xFFFFFFFF - pt_start ?p)"
    by (simp add: from_ledger_def Let_def)
  ultimately show ?thesis
    by (simp add: ledger_s3_key_def Let_def local_ledger_path_def local_folder_def folder_name_def show_int_u32)
qed

section \<open>A progress row over many updates\<close>

text \<open>What a later row may not lose of an earlier one, by the direction of its stream.\<close>

fun no_later :: "u32 option \<Rightarrow> u32 option \<Rightarrow> bool" where
  "no_later new None = True"
| "no_later None (Some x) = False"
| "no_later (Some y) (Some x) = (y \<le> x)"

fun no_earlier :: "u32 option \<Rightarrow> u32 option \<Rightarrow> bool" where
  "no_earlier new None = True"
| "no_earlier None (Some x) = False"
| "no_earlier (Some y) (Some x) = (x \<le> y)"

definition current_le :: "string \<Rightarrow> u64 \<Rightarrow> u64 \<Rightarrow> bool" where
  "current_le name old new \<longleftrightarrow>
     (if name = soroban_amm then old \<le> new else old = 0 \<or> new \<noteq> 0 \<and> new \<le> old)"

definition row_le :: "string \<Rightarrow> progress_row \<Rightarrow> progress_row \<Rightarrow> bool" where
  "row_le name old new \<longleftrightarrow>
     (pg_status old \<noteq> ''completed'' \<or> pg_status new = ''completed'') \<and>
     (pg_status old \<noteq> ''completed'' \<or> pg_completed_at old = None \<or> pg_completed_at new = pg_completed_at old) \<and>
     current_le name (pg_current_ledger old) (pg_current_ledger new) \<and>
     no_later (pg_earliest new) (pg_earliest old) \<and> no_earlier (pg_newest new) (pg_newest old) \<and>
     pg_started_at new = pg_started_at old \<and> pg_updated_at old \<le> pg_updated_at new"

text \<open>The rows a list of reports writes for a stream, each a run's update at a time.\<close>

type_synonym report = "nat \<times> extract_mode \<times> u32 \<times> u32 \<times> u32 \<times> observed \<times> phase"

definition reported_updates :: "string \<Rightarrow> report \<Rightarrow> (nat \<times> progress_update) list" where
  "reported_updates name = (\<lambda>(now, mode, start, tip, activation, obs, phase).
     map (Pair now) (filter (\<lambda>u. pu_task_name u = name) (progress_updates mode start tip activation obs phase)))"

definition store_progress :: "nat \<times> progress_update \<Rightarrow> progress_row \<Rightarrow> progress_row" where
  "store_progress = (\<lambda>(now, u) row. case write_progress_once now u (Some row) of Inl _ \<Rightarrow> row | Inr row' \<Rightarrow> row')"

lemma no_later_refl [simp]: "no_later x x" "no_earlier x x"
  by (cases x; simp)+

lemma no_later_trans:
  "no_later y x \<Longrightarrow> no_later z y \<Longrightarrow> no_later z x"
  "no_earlier y x \<Longrightarrow> no_earlier z y \<Longrightarrow> no_earlier z x"
  by (cases x; cases y; cases z; simp)+

lemma merge_window:
  "no_later (merge_min x y) x" "no_earlier (merge_max x y) x"
  by (cases x; cases y; simp add: merge_min_def merge_max_def)+

lemma row_le_refl: "row_le name row row"
  by (simp add: row_le_def current_le_def)

lemma current_le_trans: "current_le name x y \<Longrightarrow> current_le name y z \<Longrightarrow> current_le name x z"
  by (auto simp: current_le_def split: if_splits)

lemma row_le_trans:
  assumes "row_le name x y" and "row_le name y z"
  shows "row_le name x z"
proof -
  have "no_later (pg_earliest z) (pg_earliest x)" "no_earlier (pg_newest z) (pg_newest x)"
    using assms no_later_trans unfolding row_le_def by blast+
  moreover have "current_le name (pg_current_ledger x) (pg_current_ledger z)"
    using assms current_le_trans unfolding row_le_def by blast
  ultimately show ?thesis
    using assms unfolding row_le_def by auto
qed

lemma as_ch_completed: "as_ch s = ''completed'' \<longleftrightarrow> s = Completed"
  by (cases s) simp_all

lemma store_progress_le:
  assumes "current_le name (pg_current_ledger row) (resolve_current (pu_current_ledger u) (Some (pg_current_ledger row)))"
  shows "row_le name row (store_progress (now, u) row)"
proof (cases "pu_task_name u = sdex_archive \<or> pu_task_name u = soroban_amm")
  case False
  then show ?thesis
    by (simp add: store_progress_def write_progress_once_def row_le_refl)
next
  case True
  let ?new = "store_progress (now, u) row"
  let ?status = "resolve_status (Some (pg_status row)) (pu_status u)"
  have new: "pg_current_ledger ?new = resolve_current (pu_current_ledger u) (Some (pg_current_ledger row))"
      "pg_status ?new = as_ch ?status" "pg_earliest ?new = merge_min (pg_earliest row) (pu_earliest_minute u)"
      "pg_newest ?new = merge_max (pg_newest row) (pu_newest_minute u)" "pg_started_at ?new = pg_started_at row"
      "pg_updated_at ?new = max now (pg_updated_at row + 1)"
      "?status = Completed \<Longrightarrow> pg_completed_at ?new = Some (case pg_completed_at row of Some ts \<Rightarrow> ts | None \<Rightarrow> now)"
    using True by (auto simp: store_progress_def write_progress_once_def Let_def)
  have sticky: "?status = Completed" if "pg_status row = ''completed''"
    using that by (cases "pu_status u") (simp_all add: resolve_status_def)
  have "pg_completed_at row = None \<or> pg_completed_at ?new = pg_completed_at row" if "pg_status row = ''completed''"
    using new(7) [OF sticky [OF that]] by (cases "pg_completed_at row") simp_all
  then show ?thesis
    unfolding row_le_def new(1-6) using assms sticky merge_window by (simp add: as_ch_completed)
qed

lemma reported_current:
  assumes "(now', u) \<in> set (reported_updates name (now, mode, start, tip, activation, obs, phase))" and "0 < start"
    and "name = soroban_amm \<or> name = sdex_archive"
  shows "current_le name current (resolve_current (pu_current_ledger u) (Some current))"
proof -
  have backward: "current_le sdex_archive current (resolve_current (SetBackward (ucast start)) (Some current))"
  proof -
    have "unat (ucast start :: u64) \<noteq> 0"
      using assms(2) by (simp add: unat_ucast_u32 word_less_nat_alt)
    then have "(ucast start :: u64) \<noteq> 0" by auto
    then show ?thesis
      by (auto simp: current_le_def sdex_archive_def soroban_amm_def min_def)
  qed
  show ?thesis
    using assms(1,3) backward
  by (auto simp: reported_updates_def progress_updates_def combined_updates_def sdex_only_updates_def Let_def
      current_le_def sdex_archive_def soroban_amm_def split: extract_mode.splits phase.splits if_splits)
qed

text \<open>
  C25: No sequence of progress reports, of either mode and any run order, moves a stored progress row back: the
  forward stream never loses its highest ledger, the backward stream never its lowest, the covered window never
  narrows, and completed is never taken back.
\<close>

theorem progress_never_regresses:
  assumes "name = soroban_amm \<or> name = sdex_archive" and "list_all (\<lambda>(_, _, start, _). 0 < start) reports"
  shows "row_le name row (fold store_progress (concat (map (reported_updates name) reports)) row)"
  using assms(2)
proof (induction reports arbitrary: row)
  case Nil
  then show ?case by (simp add: row_le_refl)
next
  case (Cons r reports)
  obtain now mode start tip activation obs phase where r: "r = (now, mode, start, tip, activation, obs, phase)"
    by (cases r)
  have one: "row_le name row (fold store_progress us row)" if "set us \<subseteq> set (reported_updates name r)" for us row
    using that
  proof (induction us arbitrary: row)
    case (Cons p us)
    obtain now' u where p: "p = (now', u)" by (cases p)
    have "current_le name (pg_current_ledger row) (resolve_current (pu_current_ledger u) (Some (pg_current_ledger row)))"
      using Cons.prems \<open>list_all _ (r # reports)\<close> assms(1) by (intro reported_current [of now']) (auto simp: p r)
    from store_progress_le [OF this, of now'] Cons show ?case
      using row_le_trans by (fastforce simp: p)
  qed (simp add: row_le_refl)
  show ?case
    using row_le_trans [OF one [OF order_refl] Cons.IH] Cons.prems by simp
qed

definition sample_progress_row :: progress_row where
  "sample_progress_row = \<lparr>pg_start_ledger = 1, pg_target_ledger = 9, pg_current_ledger = 5, pg_status = ''paused'',
     pg_last_push_at = 7, pg_earliest = Some 60, pg_newest = Some 120, pg_started_at = 3, pg_completed_at = None,
     pg_updated_at = 7\<rparr>"

definition sample_observed :: observed where
  "sample_observed = \<lparr>ob_highest_indexed = 4, ob_sdex_earliest = Some 0, ob_sdex_latest = None, ob_amm_earliest = None,
     ob_amm_latest = None\<rparr>"

theorem progress_never_regresses_witness:
  "row_le sdex_archive sample_progress_row (fold store_progress (concat (map (reported_updates sdex_archive)
     [(8, SdexOnly, 1, 9, 5, sample_observed, PhaseCompleted), (8, Combined, 5, 9, 5, sample_observed, PhaseCompleted)]))
     sample_progress_row)"
  by (rule progress_never_regresses) (simp_all add: word_less_nat_alt)

end
