(* ===== verification/Backfill_Ingest.thy ===== *)
theory Backfill_Ingest
  imports Backfill_Plan Reconcile
begin

text \<open>
  The indexing half of the SDEX backfill (\<open>sdex-backfill/src/ingest.rs\<close>): the accumulators of a run, the
  resume markers they hold back, and the indexing of one partition with its writes in order. Every program takes
  a state and returns a new one, or the error that ended the run with the writes made by then. The archive on
  disk and the outcome of each write are parameters.
\<close>

section \<open>The outside\<close>

record unresolved_pool =
  up_contract_id :: string
  up_source :: string
  up_first_ledger :: u32
  up_last_ledger :: u32
  up_swap_count :: u64
  up_sample_topics :: "tagged list"
  up_still_unresolved :: u8

datatype bf_effect =
  BfAssets "asset_identity list"
| BfCandles "candle list" string
| BfOracle "oracle_sample list"
| BfMarkers "u32 list"
| BfPools "pool_row list"
| BfUnresolved "unresolved_pool list"
| BfProgress progress_update

text \<open>A panic ends the run too; the writes made by then stay.\<close>

datatype bf_error =
  LedgerRead string
| SinkWrite string
| SinkRead string
| SyncFailed string
| UnresolvedPools nat
| BfPanic

record bf_env =
  bf_asset_env :: asset_env
  bf_ops :: dec_ops
  bf_hex :: "u8 list \<Rightarrow> string"
  bf_group_iter :: "(string, event_row list) hmap \<Rightarrow> (string \<times> event_row list) list"
  bf_source_iter :: "(string, accumulator) hmap \<Rightarrow> (string \<times> accumulator) list"
  bf_events :: "transaction_meta \<Rightarrow> string \<Rightarrow> u32 \<Rightarrow> i64 \<Rightarrow> extracted_event list"
  bf_load :: "u32 \<Rightarrow> (string, ledger_close_meta list) result option"
  bf_sync :: "partition \<Rightarrow> (string, bool) result"
  bf_failure :: "bf_effect list \<Rightarrow> bf_effect \<Rightarrow> string option"

section \<open>State\<close>

definition oracle_flush_threshold :: nat where
  "oracle_flush_threshold = 50000"

definition sdex_source :: string where
  "sdex_source = ''sdex''"

record partition_stats =
  st_indexed :: nat
  st_skipped :: nat
  st_trade_ticks :: nat
  st_amm_ticks :: nat
  st_oracle_rows :: nat
  st_candles_written :: nat
  st_sdex_earliest :: "u32 option"
  st_sdex_latest :: "u32 option"
  st_amm_earliest :: "u32 option"
  st_amm_latest :: "u32 option"
  st_unresolved :: "unresolved_swap list"

definition stats_default :: partition_stats where
  "stats_default = \<lparr>st_indexed = 0, st_skipped = 0, st_trade_ticks = 0, st_amm_ticks = 0, st_oracle_rows = 0,
     st_candles_written = 0, st_sdex_earliest = None, st_sdex_latest = None, st_amm_earliest = None,
     st_amm_latest = None, st_unresolved = []\<rparr>"

record run_accumulators =
  ba_sdex :: accumulator
  ba_amm :: "(string, accumulator) hmap"
  ba_held_markers :: "u32 list"
  ba_held_minute :: "u32 option"

definition accumulators_new :: run_accumulators where
  "accumulators_new = \<lparr>ba_sdex = accumulator_new, ba_amm = [], ba_held_markers = [], ba_held_minute = None\<rparr>"

text \<open>The variables of a run: its registries and accumulators, the statistics the writes are noted in, the locals of
  the partition being indexed, and the writes so far.\<close>

record bf_state =
  bs_assets :: asset_registry
  bs_registries :: registries
  bs_accs :: run_accumulators
  bs_stats :: partition_stats
  bs_oracle :: "oracle_sample list"
  bs_ledgers :: "(u32 \<times> u32) list"
  bs_last_minute :: u32
  bs_trace :: "bf_effect list"

type_synonym bf_prog = "bf_state \<Rightarrow> (bf_error \<times> bf_effect list, bf_state) result"

definition fail :: "bf_error \<Rightarrow> bf_prog" where
  "fail e st = Inl (e, bs_trace st)"

definition emit :: "bf_env \<Rightarrow> bf_effect \<Rightarrow> bf_prog" where
  "emit env e st =
     (case bf_failure env (bs_trace st) e of
        Some message \<Rightarrow> fail (SinkWrite message) st
      | None \<Rightarrow> Inr (st\<lparr>bs_trace := bs_trace st @ [e]\<rparr>))"

text \<open>An empty batch of markers is not written.\<close>

definition write_completed_ledgers :: "bf_env \<Rightarrow> u32 list \<Rightarrow> bf_prog" where
  "write_completed_ledgers env sequences st = (if sequences = [] then Inr st else emit env (BfMarkers sequences) st)"

section \<open>Statistics and accumulators\<close>

definition note_candles :: "candle list \<Rightarrow> string \<Rightarrow> partition_stats \<Rightarrow> partition_stats" where
  "note_candles candles source stats =
     (let stats = stats\<lparr>st_candles_written := st_candles_written stats + length candles\<rparr>;
          lo = min_of (map oc_minute candles);
          hi = max_of (map oc_minute candles);
          widen = (\<lambda>f new old. case new of None \<Rightarrow> old | Some x \<Rightarrow> Some (case old of None \<Rightarrow> x | Some cur \<Rightarrow> f cur x))
      in if source = sdex_source
         then stats\<lparr>st_sdex_earliest := widen min lo (st_sdex_earliest stats),
           st_sdex_latest := widen max hi (st_sdex_latest stats)\<rparr>
         else stats\<lparr>st_amm_earliest := widen min lo (st_amm_earliest stats),
           st_amm_latest := widen max hi (st_amm_latest stats)\<rparr>)"

text \<open>Every minute older than the current one leaves the accumulators, per source, empty batches left out.\<close>

definition drain_closed :: "bf_env \<Rightarrow> u32 \<Rightarrow> run_accumulators \<Rightarrow> (string \<times> candle list) list \<times> run_accumulators" where
  "drain_closed env current_minute accs =
     (let flush = flush_older_than (bf_ops env) current_minute;
          out = (sdex_source, fst (flush (ba_sdex accs))) #
            map (\<lambda>(source, acc). (source, fst (flush acc))) (bf_source_iter env (ba_amm accs))
      in (filter (\<lambda>(_, candles). candles \<noteq> []) out,
          accs\<lparr>ba_sdex := snd (flush (ba_sdex accs)),
            ba_amm := map (\<lambda>(source, acc). (source, snd (flush acc))) (ba_amm accs)\<rparr>))"

definition drain_all :: "bf_env \<Rightarrow> run_accumulators \<Rightarrow> (string \<times> candle list) list \<times> run_accumulators" where
  "drain_all env accs =
     (let out = (sdex_source, flush_all (bf_ops env) (ba_sdex accs)) #
            map (\<lambda>(source, acc). (source, flush_all (bf_ops env) acc)) (bf_source_iter env (ba_amm accs))
      in (filter (\<lambda>(_, candles). candles \<noteq> []) out,
          accs\<lparr>ba_sdex := accumulator_new, ba_amm := map (\<lambda>(source, _). (source, accumulator_new)) (ba_amm accs)\<rparr>))"

text \<open>One indexed ledger's marker: due when its minute is older than the open one, held otherwise.\<close>

definition release_marker :: "u32 \<Rightarrow> u32 \<times> u32 \<Rightarrow> u32 list \<times> run_accumulators \<Rightarrow> u32 list \<times> run_accumulators" where
  "release_marker open_minute = (\<lambda>(seq, minute) (due, accs).
     if minute < open_minute then (due @ [seq], accs)
     else (due, accs\<lparr>ba_held_markers := ba_held_markers accs @ [seq], ba_held_minute := Some minute\<rparr>))"

definition release_markers ::
  "(u32 \<times> u32) list \<Rightarrow> u32 option \<Rightarrow> run_accumulators \<Rightarrow> u32 list \<times> run_accumulators" where
  "release_markers indexed open_minute accs =
     (case open_minute of
        None \<Rightarrow> ([], accs)
      | Some open_minute \<Rightarrow>
          (let older = (case ba_held_minute accs of None \<Rightarrow> False | Some held \<Rightarrow> held < open_minute);
               start = (if older then (ba_held_markers accs, accs\<lparr>ba_held_markers := [], ba_held_minute := None\<rparr>)
                 else ([], accs))
           in fold (release_marker open_minute) indexed start))"

definition take_held_markers :: "run_accumulators \<Rightarrow> u32 list \<times> run_accumulators" where
  "take_held_markers accs = (ba_held_markers accs, accs\<lparr>ba_held_markers := [], ba_held_minute := None\<rparr>)"

datatype partition_end = Carry | Drain

definition candles_at_partition_end ::
  "bf_env \<Rightarrow> partition_end \<Rightarrow> run_accumulators \<Rightarrow> (string \<times> candle list) list \<times> run_accumulators" where
  "candles_at_partition_end env end accs = (case end of Carry \<Rightarrow> ([], accs) | Drain \<Rightarrow> drain_all env accs)"

section \<open>Writes whose order matters\<close>

definition persist_new_assets :: "bf_env \<Rightarrow> bf_prog" where
  "persist_new_assets env st =
     (if ar_pending (bs_assets st) = [] then Inr st
      else rbind (emit env (BfAssets (ar_pending (bs_assets st))) st)
        (\<lambda>st. Inr (st\<lparr>bs_assets := clear_pending (bs_assets st)\<rparr>)))"

definition write_batch :: "bf_env \<Rightarrow> string \<times> candle list \<Rightarrow> bf_prog" where
  "write_batch env = (\<lambda>(source, candles) st.
     rbind (emit env (BfCandles candles source) st)
       (\<lambda>st. Inr (st\<lparr>bs_stats := note_candles candles source (bs_stats st)\<rparr>)))"

definition write_candles_after_assets :: "bf_env \<Rightarrow> (string \<times> candle list) list \<Rightarrow> bf_prog" where
  "write_candles_after_assets env batches st =
     (if batches = [] then Inr st else rbind (persist_new_assets env st) (fold_res (write_batch env) batches))"

definition flush_open_minutes :: "bf_env \<Rightarrow> bf_prog" where
  "flush_open_minutes env st =
     (let (batches, accs) = drain_all env (bs_accs st)
      in rbind (write_candles_after_assets env batches (st\<lparr>bs_accs := accs\<rparr>)) (\<lambda>st.
         let (due, accs) = take_held_markers (bs_accs st)
         in write_completed_ledgers env due (st\<lparr>bs_accs := accs\<rparr>)))"

section \<open>Indexing a partition\<close>

text \<open>\<open>ledger_minute\<close>: the close time is cut to 32 bits first.\<close>

definition ledger_minute :: "ledger_close_meta \<Rightarrow> u32" where
  "ledger_minute ledger = (ucast (lb_close_time (lcm_contents ledger)) div 60) * 60"

definition index_trades :: "bf_env \<Rightarrow> ledger_close_meta \<Rightarrow> bf_prog" where
  "index_trades env ledger st =
     (let trades = fst (extract_trades ledger counts_default)
      in case fold_opt (merge_trade (bf_asset_env env) (bf_ops env)) trades (bs_assets st, ba_sdex (bs_accs st)) of
           None \<Rightarrow> fail BfPanic st
         | Some (assets, sdex) \<Rightarrow>
             Inr (st\<lparr>bs_assets := assets, bs_accs := (bs_accs st)\<lparr>ba_sdex := sdex\<rparr>,
               bs_stats := (bs_stats st)\<lparr>st_trade_ticks := st_trade_ticks (bs_stats st) + length trades\<rparr>\<rparr>))"

definition index_events :: "bf_env \<Rightarrow> ledger_close_meta \<Rightarrow> bf_prog" where
  "index_events env ledger st =
     (case process_ledger (bf_asset_env env) (bf_ops env) (bf_group_iter env) (bf_events env) ledger
             (bs_registries st) (bs_assets st) of
        None \<Rightarrow> fail BfPanic st
      | Some so \<Rightarrow>
          (let sob = ss_out so;
               stats = bs_stats st
           in Inr (st\<lparr>bs_assets := ss_assets so, bs_registries := ss_registries so,
                bs_accs := (bs_accs st)\<lparr>ba_amm := fold merge_amm (ls_amm_ticks sob) (ba_amm (bs_accs st))\<rparr>,
                bs_stats := stats\<lparr>st_amm_ticks := st_amm_ticks stats + length (ls_amm_ticks sob),
                  st_oracle_rows := st_oracle_rows stats + length (ls_oracle sob),
                  st_unresolved := st_unresolved stats @ ls_unresolved sob\<rparr>,
                bs_oracle := bs_oracle st @ ls_oracle sob\<rparr>)))"

definition write_oracle_buffer :: "bf_env \<Rightarrow> bf_prog" where
  "write_oracle_buffer env st =
     rbind (persist_new_assets env st) (\<lambda>st. emit env (BfOracle (bs_oracle st)) st)"

definition write_closed_minutes :: "bf_env \<Rightarrow> u32 \<Rightarrow> bf_prog" where
  "write_closed_minutes env current_minute st =
     (let (closed, accs) = drain_closed env current_minute (bs_accs st)
      in write_candles_after_assets env closed (st\<lparr>bs_last_minute := current_minute, bs_accs := accs\<rparr>))"

definition index_ledger :: "bf_env \<Rightarrow> extract_mode \<Rightarrow> ledger_close_meta \<Rightarrow> bf_prog" where
  "index_ledger env mode ledger st =
     rbind (index_trades env ledger st) (\<lambda>st.
     rbind (if mode = Combined then index_events env ledger st else Inr st) (\<lambda>st.
     rbind (write_closed_minutes env (ledger_minute ledger) st) (\<lambda>st.
       if oracle_flush_threshold \<le> length (bs_oracle st)
       then rbind (write_oracle_buffer env st) (\<lambda>st. Inr (st\<lparr>bs_oracle := []\<rparr>)) else Inr st)))"

definition note_skipped :: "bf_state \<Rightarrow> bf_state" where
  "note_skipped st = st\<lparr>bs_stats := (bs_stats st)\<lparr>st_skipped := st_skipped (bs_stats st) + 1\<rparr>\<rparr>"

definition note_indexed :: "u32 \<Rightarrow> bf_state \<Rightarrow> bf_state" where
  "note_indexed seq st = st\<lparr>bs_ledgers := bs_ledgers st @ [(seq, bs_last_minute st)],
     bs_stats := (bs_stats st)\<lparr>st_indexed := st_indexed (bs_stats st) + 1\<rparr>\<rparr>"

definition index_seq :: "bf_env \<Rightarrow> extract_mode \<Rightarrow> u32 list \<Rightarrow> u32 \<Rightarrow> bf_prog" where
  "index_seq env mode completed seq st =
     (if seq \<in> set completed then Inr (note_skipped st)
      else case bf_load env seq of
        None \<Rightarrow> Inr (note_skipped st)
      | Some (Inl message) \<Rightarrow> fail (LedgerRead message) st
      | Some (Inr metas) \<Rightarrow> rbind (fold_res (index_ledger env mode) metas st) (\<lambda>st. Inr (note_indexed seq st)))"

text \<open>The markers that are due when a partition ends.\<close>

definition due_markers :: "partition_end \<Rightarrow> (u32 \<times> u32) list \<Rightarrow> run_accumulators \<Rightarrow> u32 list \<times> run_accumulators" where
  "due_markers end ledgers accs =
     (case end of
        Carry \<Rightarrow> release_markers ledgers (if ledgers = [] then None else Some (snd (last ledgers))) accs
      | Drain \<Rightarrow> (let (due, accs) = take_held_markers accs in (due @ map fst ledgers, accs)))"

definition finish_partition :: "bf_env \<Rightarrow> partition_end \<Rightarrow> bf_prog" where
  "finish_partition env end st =
     (let (open_candles, accs) = candles_at_partition_end env end (bs_accs st)
      in rbind (write_candles_after_assets env open_candles (st\<lparr>bs_accs := accs\<rparr>)) (\<lambda>st.
         rbind (if bs_oracle st = [] then Inr st else write_oracle_buffer env st) (\<lambda>st.
           let (due, accs) = due_markers end (bs_ledgers st) (bs_accs st)
           in write_completed_ledgers env due (st\<lparr>bs_accs := accs\<rparr>))))"

definition index_partition ::
  "bf_env \<Rightarrow> partition \<Rightarrow> u32 \<Rightarrow> u32 \<Rightarrow> u32 list \<Rightarrow> extract_mode \<Rightarrow> partition_end \<Rightarrow> bf_prog" where
  "index_partition env p range_start range_end completed mode end st =
     rbind (fold_res (index_seq env mode completed) (partition_ledgers range_start range_end p)
         (st\<lparr>bs_stats := stats_default, bs_oracle := [], bs_ledgers := [], bs_last_minute := 0\<rparr>))
       (finish_partition env end)"

end
