(* ===== verification/Backfill_Run.thy ===== *)
theory Backfill_Run
  imports Backfill_Ingest
begin

text \<open>
  A whole backfill run (\<open>execute\<close> of \<open>sdex-backfill/src/run.rs\<close>): the partitions still to do, each synced
  from S3 and indexed with a progress report, the minute left open, the assets and pools, the unresolved pools
  re-checked against the final registry, and the terminal report. What the run loads at the start and the outcome
  of each sync are parameters.
\<close>

record plan =
  pl_start :: u32
  pl_end :: u32
  pl_mode :: extract_mode
  pl_activation :: u32
  pl_tip :: u32

record loaded =
  ld_completed :: "(string, u32 list) result"
  ld_assets :: "(string, asset_identity list) result"
  ld_registries :: "(string, registries) result"

record bf_run =
  br_state :: bf_state
  br_totals :: partition_stats
  br_highest :: u32

definition partition_fully_done :: "partition \<Rightarrow> u32 \<Rightarrow> u32 \<Rightarrow> u32 list \<Rightarrow> bool" where
  "partition_fully_done p start end completed = list_all (\<lambda>s. s \<in> set completed) (partition_ledgers start end p)"

definition partition_end_of :: "nat \<Rightarrow> nat \<Rightarrow> partition_end" where
  "partition_end_of index len = (if index + 1 = len then Drain else Carry)"

definition add_stats :: "partition_stats \<Rightarrow> partition_stats \<Rightarrow> partition_stats" where
  "add_stats totals stats = \<lparr>
     st_indexed = st_indexed totals + st_indexed stats,
     st_skipped = st_skipped totals + st_skipped stats,
     st_trade_ticks = st_trade_ticks totals + st_trade_ticks stats,
     st_amm_ticks = st_amm_ticks totals + st_amm_ticks stats,
     st_oracle_rows = st_oracle_rows totals + st_oracle_rows stats,
     st_candles_written = st_candles_written totals + st_candles_written stats,
     st_sdex_earliest = merge_min (st_sdex_earliest totals) (st_sdex_earliest stats),
     st_sdex_latest = merge_max (st_sdex_latest totals) (st_sdex_latest stats),
     st_amm_earliest = merge_min (st_amm_earliest totals) (st_amm_earliest stats),
     st_amm_latest = merge_max (st_amm_latest totals) (st_amm_latest stats),
     st_unresolved = st_unresolved totals @ st_unresolved stats\<rparr>"

definition observe :: "u32 \<Rightarrow> partition_stats \<Rightarrow> observed" where
  "observe highest totals = \<lparr>ob_highest_indexed = highest, ob_sdex_earliest = st_sdex_earliest totals,
     ob_sdex_latest = st_sdex_latest totals, ob_amm_earliest = st_amm_earliest totals,
     ob_amm_latest = st_amm_latest totals\<rparr>"

definition report_progress :: "bf_env \<Rightarrow> plan \<Rightarrow> observed \<Rightarrow> phase \<Rightarrow> bf_prog" where
  "report_progress env plan obs phase =
     fold_res (\<lambda>u. emit env (BfProgress u))
       (progress_updates (pl_mode plan) (pl_start plan) (pl_tip plan) (pl_activation plan) obs phase)"

text \<open>One synced partition: index it, add its statistics, report.\<close>

type_synonym run_prog = "bf_run \<Rightarrow> (bf_error \<times> bf_effect list, bf_run) result"

definition process_partition :: "bf_env \<Rightarrow> plan \<Rightarrow> u32 list \<Rightarrow> partition_end \<Rightarrow> partition \<Rightarrow> run_prog" where
  "process_partition env plan completed end p r =
     rbind (index_partition env p (pl_start plan) (pl_end plan) completed (pl_mode plan) end (br_state r)) (\<lambda>st.
       let totals = add_stats (br_totals r) (bs_stats st);
           highest = max (br_highest r) (snd (clamped p (pl_start plan) (pl_end plan)))
       in rbind (report_progress env plan (observe highest totals) PhaseRunning st) (\<lambda>st.
            Inr \<lparr>br_state = st, br_totals = totals, br_highest = highest\<rparr>))"

text \<open>The loop over the partitions to do: \<open>synced\<close> is the outcome of the sync of the next one.\<close>

fun process_partitions :: "bf_env \<Rightarrow> plan \<Rightarrow> u32 list \<Rightarrow> nat \<Rightarrow> nat \<Rightarrow> bool \<Rightarrow> partition list \<Rightarrow> run_prog" where
  "process_partitions env plan completed len i synced [] r = Inr r"
| "process_partitions env plan completed len i synced (p # ps) r =
     rbind (if synced then process_partition env plan completed (partition_end_of i len) p r else Inr r) (\<lambda>r.
       case ps of
         [] \<Rightarrow> Inr r
       | q # _ \<Rightarrow>
           (case bf_sync env q of
              Inl message \<Rightarrow> Inl (SyncFailed message, bs_trace (br_state r))
            | Inr synced \<Rightarrow> process_partitions env plan completed len (i + 1) synced ps r))"

section \<open>Unresolved pools\<close>

record agg =
  ag_first :: u32
  ag_last :: u32
  ag_count :: u64
  ag_sample :: "tagged list"

definition note_unresolved :: "unresolved_swap \<Rightarrow> (string, agg) hmap \<Rightarrow> (string, agg) hmap" where
  "note_unresolved u by_contract =
     (let e = (case map_of by_contract (us_contract_id u) of
            Some e \<Rightarrow> e
          | None \<Rightarrow> \<lparr>ag_first = us_ledger_sequence u, ag_last = us_ledger_sequence u, ag_count = 0,
              ag_sample = us_sample_topics u\<rparr>)
      in AList.update (us_contract_id u)
           (e\<lparr>ag_first := min (ag_first e) (us_ledger_sequence u), ag_last := max (ag_last e) (us_ledger_sequence u),
              ag_count := ag_count e + ucast (us_swap_count u)\<rparr>) by_contract)"

definition aggregate_as :: "string \<Rightarrow> unresolved_swap list \<Rightarrow> registries \<Rightarrow> unresolved_pool list" where
  "aggregate_as source raw reg =
     sort_key (\<lambda>u. (up_still_unresolved u = 0, up_contract_id u))
       (map (\<lambda>(c, a). \<lparr>up_contract_id = c, up_source = source, up_first_ledger = ag_first a,
           up_last_ledger = ag_last a, up_swap_count = ag_count a, up_sample_topics = ag_sample a,
           up_still_unresolved = (if map_of (reg_venue reg) c = None then 1 else 0)\<rparr>)
         (fold note_unresolved raw []))"

definition aggregate_unresolved :: "unresolved_swap list \<Rightarrow> registries \<Rightarrow> unresolved_pool list" where
  "aggregate_unresolved = aggregate_as ''backfill''"

definition genuine_gaps :: "unresolved_pool list \<Rightarrow> nat" where
  "genuine_gaps pools = length (filter (\<lambda>u. up_still_unresolved u = 1) pools)"

section \<open>The run\<close>

definition finish_backfill :: "bf_env \<Rightarrow> plan \<Rightarrow> bf_run \<Rightarrow> (bf_error \<times> bf_effect list, bf_effect list) result" where
  "finish_backfill env plan r =
     rbind (flush_open_minutes env ((br_state r)\<lparr>bs_stats := br_totals r\<rparr>)) (\<lambda>st.
     rbind (persist_new_assets env st) (\<lambda>st.
     rbind (emit env (BfPools (to_pool_rows (bf_hex env) (bs_registries st))) st) (\<lambda>st.
       let totals = bs_stats st;
           unresolved = aggregate_unresolved (st_unresolved totals) (bs_registries st)
       in rbind (if unresolved = [] then Inr st else emit env (BfUnresolved unresolved) st) (\<lambda>st.
          let fatal = (if pl_start plan \<le> pl_activation plan then genuine_gaps unresolved else 0)
          in if 0 < fatal then Inl (UnresolvedPools fatal, bs_trace st)
             else rbind (report_progress env plan (observe (br_highest r) totals) PhaseCompleted st)
               (\<lambda>st. Inr (bs_trace st))))))"

definition run_new :: "bf_env \<Rightarrow> asset_identity list \<Rightarrow> registries \<Rightarrow> bf_run" where
  "run_new env assets registries = \<lparr>br_state = \<lparr>bs_assets = from_existing (bf_asset_env env) assets,
       bs_registries = merge_static_pools registries, bs_accs = accumulators_new, bs_stats = stats_default,
       bs_oracle = [], bs_ledgers = [], bs_last_minute = 0, bs_trace = []\<rparr>,
     br_totals = stats_default, br_highest = 0\<rparr>"

definition read_sink :: "(string, 'a) result \<Rightarrow> (bf_error \<times> bf_effect list, 'a) result" where
  "read_sink r = (case r of Inl message \<Rightarrow> Inl (SinkRead message, []) | Inr x \<Rightarrow> Inr x)"

text \<open>\<open>None\<close> is a run that does not return: the loop over the partitions wraps around.\<close>

definition execute :: "bf_env \<Rightarrow> loaded \<Rightarrow> plan \<Rightarrow> (bf_error \<times> bf_effect list, bf_effect list) result option" where
  "execute env loaded plan =
     (if pl_end plan < pl_start plan then Some (Inl (BfPanic, []))
      else map_option (\<lambda>partitions.
        if partitions = [] then Inr []
        else rbind (read_sink (ld_completed loaded)) (\<lambda>completed.
          let todo = filter (\<lambda>p. \<not> partition_fully_done p (pl_start plan) (pl_end plan) completed) partitions
          in if todo = [] then Inr []
             else rbind (read_sink (ld_assets loaded)) (\<lambda>assets.
               rbind (read_sink (ld_registries loaded)) (\<lambda>registries.
               case bf_sync env (hd todo) of
                 Inl message \<Rightarrow> Inl (SyncFailed message, [])
               | Inr synced \<Rightarrow>
                   rbind (process_partitions env plan completed (length todo) 0 synced todo
                       (run_new env assets registries))
                     (finish_backfill env plan)))))
        (partitions_for_range (pl_start plan) (pl_end plan)))"

end
