(* ===== verification/Backfill_Trace.thy ===== *)
theory Backfill_Trace
  imports Backfill_Run Run_Reading
begin

text \<open>
  What the programs of a backfill run add to its writes: the order-book candles and the resume markers of a
  trace, and for each program how many of them it adds, whether it returns or fails.
\<close>

section \<open>Candles and markers of a trace\<close>

fun sdex_of :: "bf_effect \<Rightarrow> candle list" where
  "sdex_of (BfCandles candles source) = (if source = sdex_source then candles else [])"
| "sdex_of _ = []"

fun markers_of :: "bf_effect \<Rightarrow> u32 list" where
  "markers_of (BfMarkers seqs) = seqs"
| "markers_of _ = []"

definition bf_rows :: "bf_effect list \<Rightarrow> candle list" where
  "bf_rows trace = concat (map sdex_of trace)"

definition bf_marks :: "bf_effect list \<Rightarrow> u32 list" where
  "bf_marks trace = concat (map markers_of trace)"

lemma bf_simps [simp]:
  "bf_rows [] = []" "bf_rows (e # t) = sdex_of e @ bf_rows t" "bf_rows (t @ t') = bf_rows t @ bf_rows t'"
  "bf_marks [] = []" "bf_marks (e # t) = markers_of e @ bf_marks t" "bf_marks (t @ t') = bf_marks t @ bf_marks t'"
  by (simp_all add: bf_rows_def bf_marks_def)

text \<open>The variables the writes leave alone.\<close>

definition same_vars :: "bf_state \<Rightarrow> bf_state \<Rightarrow> bool" where
  "same_vars st st' \<longleftrightarrow> bs_accs st' = bs_accs st \<and> bs_ledgers st' = bs_ledgers st \<and>
     bs_last_minute st' = bs_last_minute st \<and> bs_registries st' = bs_registries st"

text \<open>
  \<open>writes p rows seqs\<close>: a program that, from any state, adds to the trace the rows \<open>rows\<close> and the markers
  \<open>seqs\<close> and leaves the variables alone, or fails having added a part of the rows and no marker.
\<close>

definition writes :: "bf_prog \<Rightarrow> candle list \<Rightarrow> u32 list \<Rightarrow> bool" where
  "writes p rows seqs \<longleftrightarrow> (\<forall>st. case p st of
     Inl (e, t) \<Rightarrow> (\<exists>part. set part \<subseteq> set rows \<and> bf_rows t = bf_rows (bs_trace st) @ part \<and> bf_marks t = bf_marks (bs_trace st))
   | Inr st' \<Rightarrow> bf_rows (bs_trace st') = bf_rows (bs_trace st) @ rows \<and>
       bf_marks (bs_trace st') = bf_marks (bs_trace st) @ seqs \<and> same_vars st st')"

lemma writes_InrD:
  assumes "writes p rows seqs" and "p st = Inr st'"
  shows "bf_rows (bs_trace st') = bf_rows (bs_trace st) @ rows" and "bf_marks (bs_trace st') = bf_marks (bs_trace st) @ seqs"
    and "same_vars st st'"
  using assms(1) [unfolded writes_def, rule_format, of st] assms(2) by simp_all

lemma writes_InlD:
  assumes "writes p rows seqs" and "p st = Inl f"
  obtains part where "set part \<subseteq> set rows" "bf_rows (snd f) = bf_rows (bs_trace st) @ part"
    "bf_marks (snd f) = bf_marks (bs_trace st)"
  using assms(1) [unfolded writes_def, rule_format, of st] assms(2) by (cases f) auto

lemma writes_emit: "writes (emit env e) (sdex_of e) (markers_of e)"
  by (auto simp: writes_def emit_def fail_def same_vars_def split: option.split intro: exI [of _ "[]"])

lemma writes_skip:
  assumes "\<And>st. bs_trace (f st) = bs_trace st \<and> same_vars st (f st)"
  shows "writes (\<lambda>st. Inr (f st)) [] []"
  using assms by (simp add: writes_def)

lemma writes_bind:
  assumes "writes p rows []" and "writes q rows' seqs"
  shows "writes (\<lambda>st. rbind (p st) q) (rows @ rows') seqs"
  unfolding writes_def
proof (intro allI)
  fix st
  show "case rbind (p st) q of
      Inl (e, t) \<Rightarrow> \<exists>part. set part \<subseteq> set (rows @ rows') \<and> bf_rows t = bf_rows (bs_trace st) @ part \<and> bf_marks t = bf_marks (bs_trace st)
    | Inr st' \<Rightarrow> bf_rows (bs_trace st') = bf_rows (bs_trace st) @ rows @ rows' \<and>
        bf_marks (bs_trace st') = bf_marks (bs_trace st) @ seqs \<and> same_vars st st'"
  proof (cases "p st")
    case (Inl et)
    then show ?thesis
      using assms(1) [unfolded writes_def, rule_format, of st] by (auto simp: rbind_def)
  next
    case (Inr st1)
    then have one: "bf_rows (bs_trace st1) = bf_rows (bs_trace st) @ rows" "bf_marks (bs_trace st1) = bf_marks (bs_trace st)"
        "same_vars st st1"
      using assms(1) [unfolded writes_def, rule_format, of st] by auto
    show ?thesis
    proof (cases "q st1")
      case (Inl et)
      obtain e t where et: "et = (e, t)" by (cases et)
      obtain part where "set part \<subseteq> set rows'" "bf_rows t = bf_rows (bs_trace st1) @ part" "bf_marks t = bf_marks (bs_trace st1)"
        using assms(2) [unfolded writes_def, rule_format, of st1] Inl et by auto
      then show ?thesis
        using Inl one et \<open>p st = Inr st1\<close> by (auto simp: rbind_def intro!: exI [of _ "rows @ part"])
    next
      case (Inr st2)
      then show ?thesis
        using assms(2) [unfolded writes_def, rule_format, of st1] one \<open>p st = Inr st1\<close>
        by (auto simp: rbind_def same_vars_def)
    qed
  qed
qed

lemma writes_fold:
  assumes "\<And>x. x \<in> set xs \<Longrightarrow> writes (f x) (rows x) []"
  shows "writes (fold_res f xs) (concat (map rows xs)) []"
  using assms
proof (induction xs)
  case Nil
  then show ?case by (simp add: writes_def same_vars_def)
next
  case (Cons x xs)
  have "writes (\<lambda>st. rbind (f x st) (fold_res f xs)) (rows x @ concat (map rows xs)) []"
    using Cons by (intro writes_bind) simp_all
  then show ?case
    by (simp add: writes_def)
qed

lemma writes_if:
  assumes "writes p rows seqs" and "\<not> b \<Longrightarrow> rows = [] \<and> seqs = []"
  shows "writes (\<lambda>st. if b then p st else Inr st) rows seqs"
  using assms by (auto simp: writes_def same_vars_def split: sum.splits)

section \<open>The writing programs\<close>

lemma writes_persist: "writes (persist_new_assets env) [] []"
  unfolding writes_def persist_new_assets_def
  by (auto simp: emit_def fail_def rbind_def same_vars_def split: option.splits)

lemma writes_batch: "writes (write_batch env (source, candles)) (if source = sdex_source then candles else []) []"
proof -
  have "writes (\<lambda>st. rbind (emit env (BfCandles candles source) st)
      (\<lambda>st. Inr (st\<lparr>bs_stats := note_candles candles source (bs_stats st)\<rparr>)))
      (sdex_of (BfCandles candles source) @ []) []"
    using writes_emit [of env "BfCandles candles source"]
    by (intro writes_bind writes_skip) (simp_all add: same_vars_def)
  then show ?thesis
    by (simp add: write_batch_def)
qed

definition batch_rows :: "(string \<times> candle list) list \<Rightarrow> candle list" where
  "batch_rows batches = concat (map (\<lambda>(source, candles). if source = sdex_source then candles else []) batches)"

lemma batch_rows_simps [simp]:
  "batch_rows [] = []"
  "batch_rows ((source, candles) # batches) = (if source = sdex_source then candles else []) @ batch_rows batches"
  by (simp_all add: batch_rows_def)

lemma batch_rows_nonempty [simp]: "batch_rows (filter (\<lambda>(_, candles). candles \<noteq> []) batches) = batch_rows batches"
  by (induction batches) auto

lemma batch_rows_other: "(\<And>source candles. (source, candles) \<in> set batches \<Longrightarrow> source \<noteq> sdex_source) \<Longrightarrow> batch_rows batches = []"
  by (auto simp: batch_rows_def)

lemma writes_candles: "writes (write_candles_after_assets env batches) (batch_rows batches) []"
proof -
  have "writes (fold_res (write_batch env) batches) (concat (map (\<lambda>(source, candles). if source = sdex_source then candles else []) batches)) []"
    using writes_batch by (intro writes_fold) (auto split: prod.split)
  then have "writes (\<lambda>st. rbind (persist_new_assets env st) (fold_res (write_batch env) batches)) ([] @ batch_rows batches) []"
    unfolding batch_rows_def by (intro writes_bind [OF writes_persist])
  moreover have "write_candles_after_assets env batches = (if batches = [] then (\<lambda>st. Inr st)
      else (\<lambda>st. rbind (persist_new_assets env st) (fold_res (write_batch env) batches)))"
    by (auto simp: write_candles_after_assets_def)
  ultimately show ?thesis
    using writes_skip [of "\<lambda>st. st"] by (simp add: same_vars_def)
qed

lemma writes_oracle: "writes (write_oracle_buffer env) [] []"
  unfolding write_oracle_buffer_def writes_def
proof
  fix st
  show "case rbind (persist_new_assets env st) (\<lambda>st. emit env (BfOracle (bs_oracle st)) st) of
      Inl (e, t) \<Rightarrow> \<exists>part. set part \<subseteq> set [] \<and> bf_rows t = bf_rows (bs_trace st) @ part \<and> bf_marks t = bf_marks (bs_trace st)
    | Inr st' \<Rightarrow> bf_rows (bs_trace st') = bf_rows (bs_trace st) @ [] \<and> bf_marks (bs_trace st') = bf_marks (bs_trace st) @ [] \<and>
        same_vars st st'"
    by (auto simp: persist_new_assets_def emit_def fail_def rbind_def same_vars_def split: option.splits)
qed

lemma writes_report: "writes (report_progress env plan obs phase) [] []"
proof -
  have "writes (emit env (BfProgress u)) [] []" for u
    using writes_emit [of env "BfProgress u"] by simp
  then have "writes (fold_res (\<lambda>u. emit env (BfProgress u)) us) (concat (map (\<lambda>_. []) us)) []" for us
    by (intro writes_fold)
  moreover have "concat (map (\<lambda>_. []) us) = ([] :: candle list)" for us :: "progress_update list"
    by (induction us) simp_all
  ultimately show ?thesis
    by (simp add: report_progress_def)
qed

end
