(* ===== verification/Backfill_Index.thy ===== *)
theory Backfill_Index
  imports Backfill_Trace
begin

text \<open>
  What indexing one ledger does to the accumulators and to the trace, on every path.
\<close>

abbreviation bf_minute :: "(u32 \<Rightarrow> ledger_close_meta) \<Rightarrow> u32 \<Rightarrow> u32" where
  "bf_minute chain k \<equiv> ledger_minute (chain k)"

lemma ledger_minute_of: "ledger_minute ledger = minute_of (ledger_close_time ledger)"
  by (simp add: ledger_minute_def minute_of_def ledger_close_time_def)

definition venues_only :: "run_accumulators \<Rightarrow> bool" where
  "venues_only accs \<longleftrightarrow> fst ` set (ba_amm accs) \<subseteq> range as_source"

lemma index_trades_cases:
  "case index_trades env ledger st of
     Inl (e, t) \<Rightarrow> t = bs_trace st
   | Inr st' \<Rightarrow> ba_sdex (bs_accs st') = fold merge (ledger_sdex (bf_ops env) ledger) (ba_sdex (bs_accs st)) \<and>
       ba_amm (bs_accs st') = ba_amm (bs_accs st) \<and> ba_held_markers (bs_accs st') = ba_held_markers (bs_accs st) \<and>
       ba_held_minute (bs_accs st') = ba_held_minute (bs_accs st) \<and> bs_ledgers st' = bs_ledgers st \<and>
       bs_trace st' = bs_trace st"
proof -
  let ?trades = "fst (extract_trades ledger counts_default)"
  have trades: "?trades = map fst (ledger_fills ledger)"
    by (simp add: extract_trades_fills)
  have ct: "\<forall>trade \<in> set ?trades. rt_closed_at trade = ledger_close_time ledger"
    using ledger_fills_closed_at by (auto simp: trades)
  show ?thesis
  proof (cases "fold_opt (merge_trade (bf_asset_env env) (bf_ops env)) ?trades (bs_assets st, ba_sdex (bs_accs st))")
    case None
    then show ?thesis by (simp add: index_trades_def fail_def)
  next
    case (Some p)
    obtain assets sdex where p: "p = (assets, sdex)" by (cases p)
    have "sdex = fold merge (ledger_sdex (bf_ops env) ledger) (ba_sdex (bs_accs st))"
      using merge_trades [OF Some [unfolded p] ct] by (auto simp: trades ledger_sdex_def comp_def)
    then show ?thesis
      by (simp add: index_trades_def Some p)
  qed
qed

lemma merge_amm_sources: "fst ` set (fold merge_amm new m) \<subseteq> fst ` set m \<union> fst ` set new"
proof (induction new arbitrary: m)
  case (Cons p new)
  obtain source t where p: "p = (source, t)" by (cases p)
  have "fst ` set (merge_amm p m) \<subseteq> insert source (fst ` set m)"
    by (auto simp: p merge_amm_def dom_update)
  then show ?case
    using Cons.IH [of "merge_amm p m"] unfolding p by (simp only: fold_simps comp_apply list.simps image_insert fst_conv) blast
qed simp

lemma index_events_cases:
  assumes "venues_only (bs_accs st)"
  shows "case index_events env ledger st of
     Inl (e, t) \<Rightarrow> t = bs_trace st
   | Inr st' \<Rightarrow> ba_sdex (bs_accs st') = ba_sdex (bs_accs st) \<and> venues_only (bs_accs st') \<and>
       ba_held_markers (bs_accs st') = ba_held_markers (bs_accs st) \<and>
       ba_held_minute (bs_accs st') = ba_held_minute (bs_accs st) \<and> bs_ledgers st' = bs_ledgers st \<and>
       bs_trace st' = bs_trace st"
proof (cases "process_ledger (bf_asset_env env) (bf_ops env) (bf_group_iter env) (bf_events env) ledger
    (bs_registries st) (bs_assets st)")
  case None
  then show ?thesis by (simp add: index_events_def fail_def)
next
  case (Some so)
  obtain new where new: "ls_amm_ticks (ss_out so) = new" "\<forall>(source, t) \<in> set new. source \<in> range as_source"
    using process_ledger_advances [OF Some] by (auto simp: advances_def ledger_soroban_default_def)
  then have "fst ` set (ls_amm_ticks (ss_out so)) \<subseteq> range as_source"
    by auto
  then have "fst ` set (fold merge_amm (ls_amm_ticks (ss_out so)) (ba_amm (bs_accs st))) \<subseteq> range as_source"
    using assms unfolding venues_only_def by (intro order_trans [OF merge_amm_sources] Un_least)
  then show ?thesis
    by (simp add: index_events_def Some Let_def venues_only_def)
qed

text \<open>A pool's source is never \<open>sdex\<close>.\<close>

lemma as_source_not_sdex_source: "as_source v \<noteq> sdex_source"
proof
  assume "as_source v = sdex_source"
  then have "from_source ''sdex'' = Some v"
    by (simp add: from_source_eq_Some sdex_source_def)
  then show False
    by (simp add: from_source_def)
qed

lemma venue_batches:
  assumes "venues_only accs" and "mset (bf_source_iter env (ba_amm accs)) = mset (ba_amm accs)"
  shows "batch_rows (map (\<lambda>(source, acc). (source, f acc)) (bf_source_iter env (ba_amm accs))) = []"
proof (rule batch_rows_other)
  fix source candles
  assume "(source, candles) \<in> set (map (\<lambda>(source, acc). (source, f acc)) (bf_source_iter env (ba_amm accs)))"
  then obtain acc where "(source, acc) \<in> set (ba_amm accs)"
    using assms(2) by (auto dest: mset_eq_setD)
  then have "source \<in> fst ` set (ba_amm accs)"
    by (rule rev_image_eqI) simp
  then have "source \<in> range as_source"
    using assms(1) by (auto simp: venues_only_def)
  then show "source \<noteq> sdex_source"
    using as_source_not_sdex_source by auto
qed

lemma drain_closed_rows:
  assumes "venues_only accs" and "mset (bf_source_iter env (ba_amm accs)) = mset (ba_amm accs)"
  shows "batch_rows (fst (drain_closed env m accs)) = fst (flush_older_than (bf_ops env) m (ba_sdex accs))"
    and "ba_sdex (snd (drain_closed env m accs)) = snd (flush_older_than (bf_ops env) m (ba_sdex accs))"
    and "venues_only (snd (drain_closed env m accs))"
    and "ba_held_markers (snd (drain_closed env m accs)) = ba_held_markers accs"
    and "ba_held_minute (snd (drain_closed env m accs)) = ba_held_minute accs"
  using assms venue_batches [OF assms]
  by (auto simp: drain_closed_def Let_def venues_only_def)

lemma drain_all_rows:
  assumes "venues_only accs" and "mset (bf_source_iter env (ba_amm accs)) = mset (ba_amm accs)"
  shows "batch_rows (fst (drain_all env accs)) = flush_all (bf_ops env) (ba_sdex accs)"
    and "ba_sdex (snd (drain_all env accs)) = accumulator_new"
    and "venues_only (snd (drain_all env accs))"
    and "ba_held_markers (snd (drain_all env accs)) = ba_held_markers accs"
    and "ba_held_minute (snd (drain_all env accs)) = ba_held_minute accs"
  using assms venue_batches [OF assms]
  by (auto simp: drain_all_def Let_def venues_only_def)

lemma writes_ledger_end:
  "writes (\<lambda>st. rbind (write_candles_after_assets env batches st) (\<lambda>st.
      if oracle_flush_threshold \<le> length (bs_oracle st)
      then rbind (write_oracle_buffer env st) (\<lambda>st. Inr (st\<lparr>bs_oracle := []\<rparr>)) else Inr st)) (batch_rows batches) []"
proof -
  have "writes (\<lambda>st. rbind (write_oracle_buffer env st) (\<lambda>st. Inr (st\<lparr>bs_oracle := []\<rparr>))) ([] @ []) []"
    by (intro writes_bind [OF writes_oracle] writes_skip) (simp add: same_vars_def)
  then have "writes (\<lambda>st. if oracle_flush_threshold \<le> length (bs_oracle st)
      then rbind (write_oracle_buffer env st) (\<lambda>st. Inr (st\<lparr>bs_oracle := []\<rparr>)) else Inr st) [] []"
    by (auto simp: writes_def same_vars_def split: sum.splits)
  from writes_bind [OF writes_candles this] show ?thesis by simp
qed

text \<open>One ledger: its ticks are merged, then every older minute is written and leaves the accumulator.\<close>

lemma index_ledger_cases:
  assumes "venues_only (bs_accs st)" and "\<And>m. mset (bf_source_iter env m) = mset m"
    and "sdex = fold merge (ledger_sdex (bf_ops env) ledger) (ba_sdex (bs_accs st))"
    and "flushed = flush_older_than (bf_ops env) (ledger_minute ledger) sdex"
  shows "case index_ledger env mode ledger st of
     Inl (e, t) \<Rightarrow> \<exists>part. set part \<subseteq> set (fst flushed) \<and> bf_rows t = bf_rows (bs_trace st) @ part \<and>
       bf_marks t = bf_marks (bs_trace st)
   | Inr st' \<Rightarrow> bf_rows (bs_trace st') = bf_rows (bs_trace st) @ fst flushed \<and>
       bf_marks (bs_trace st') = bf_marks (bs_trace st) \<and> ba_sdex (bs_accs st') = snd flushed \<and>
       venues_only (bs_accs st') \<and> ba_held_markers (bs_accs st') = ba_held_markers (bs_accs st) \<and>
       ba_held_minute (bs_accs st') = ba_held_minute (bs_accs st) \<and> bs_ledgers st' = bs_ledgers st \<and>
       bs_last_minute st' = ledger_minute ledger"
proof -
  note one = index_trades_cases [where env = env and ledger = ledger and st = st]
  show ?thesis
  proof (cases "index_trades env ledger st")
    case (Inl f)
    then show ?thesis
      using one by (auto simp: index_ledger_def rbind_def intro!: exI [of _ "[]"])
  next
    case st1: (Inr st1)
    then have v1: "venues_only (bs_accs st1)"
      using one assms(1) by (simp add: venues_only_def)
    let ?p = "if mode = Combined then index_events env ledger st1 else Inr st1"
    note two = index_events_cases [OF v1, where env = env and ledger = ledger]
    show ?thesis
    proof (cases ?p)
      case (Inl f)
      then show ?thesis
        using one two st1 by (cases f) (auto simp: index_ledger_def rbind_def intro!: exI [of _ "[]"] split: if_splits)
    next
      case st2: (Inr st2)
      have same: "ba_sdex (bs_accs st2) = sdex" "venues_only (bs_accs st2)"
          "ba_held_markers (bs_accs st2) = ba_held_markers (bs_accs st)"
          "ba_held_minute (bs_accs st2) = ba_held_minute (bs_accs st)" "bs_ledgers st2 = bs_ledgers st"
          "bs_trace st2 = bs_trace st"
        using one two st1 st2 v1 by (auto simp: assms(3) split: if_splits)
      let ?closed = "drain_closed env (ledger_minute ledger) (bs_accs st2)"
      let ?st = "st2\<lparr>bs_last_minute := ledger_minute ledger, bs_accs := snd ?closed\<rparr>"
      have rows: "batch_rows (fst ?closed) = fst flushed"
        using drain_closed_rows(1) [OF same(2) assms(2)] by (simp add: same(1) assms(4))
      have ledger: "index_ledger env mode ledger st = rbind (write_candles_after_assets env (fst ?closed) ?st) (\<lambda>st.
          if oracle_flush_threshold \<le> length (bs_oracle st)
          then rbind (write_oracle_buffer env st) (\<lambda>st. Inr (st\<lparr>bs_oracle := []\<rparr>)) else Inr st)"
        using st1 st2 by (simp add: index_ledger_def write_closed_minutes_def split_beta)
      show ?thesis
        using writes_ledger_end [of env "fst ?closed", unfolded writes_def rows, rule_format, of ?st, folded ledger]
          drain_closed_rows(2-5) [OF same(2) assms(2), of "ledger_minute ledger"] same
        by (cases "index_ledger env mode ledger st") (auto simp: same_vars_def assms(4))
    qed
  qed
qed

end
