(* ===== verification/Backfill_Feed.thy ===== *)
theory Backfill_Feed
  imports Backfill_Index
begin

text \<open>
  The backfill over a range of ledgers, interrupted and resumed any number of times. A resume marker is only
  ever stored for a whole minute, and only after the minute's order-book candles are in the store.
\<close>

section \<open>Ledgers, ticks and candles by minute\<close>

definition ticks_in :: "dec_ops \<Rightarrow> (u32 \<Rightarrow> ledger_close_meta) \<Rightarrow> u32 list \<Rightarrow> trade_tick list" where
  "ticks_in ops chain ks = concat (map (\<lambda>k. ledger_sdex ops (chain k)) ks)"

definition candles_in :: "dec_ops \<Rightarrow> (u32 \<Rightarrow> ledger_close_meta) \<Rightarrow> u32 list \<Rightarrow> candle set" where
  "candles_in ops chain ks = set (candles_of ops (ticks_in ops chain ks))"

lemma ticks_in_simps [simp]:
  "ticks_in ops chain [] = []"
  "ticks_in ops chain (k # ks) = ledger_sdex ops (chain k) @ ticks_in ops chain ks"
  "ticks_in ops chain (ks @ ls) = ticks_in ops chain ks @ ticks_in ops chain ls"
  by (simp_all add: ticks_in_def)

lemma ledger_tick_minute:
  "dec_laws ops \<Longrightarrow> t \<in> set (ledger_sdex ops (chain k)) \<Longrightarrow> fst (tick_key t) = bf_minute chain k"
  by (simp add: ledger_sdex_minute ledger_minute_of)

lemma tick_minute:
  assumes "dec_laws ops" and "t \<in> set (ticks_in ops chain ks)"
  obtains k where "k \<in> set ks" "fst (tick_key t) = bf_minute chain k"
  using assms(2) ledger_tick_minute [OF assms(1)] by (auto simp: ticks_in_def)

lemma ticks_filter:
  assumes "dec_laws ops"
  shows "filter (\<lambda>t. q (fst (tick_key t))) (ticks_in ops chain ks) = ticks_in ops chain (filter (\<lambda>k. q (bf_minute chain k)) ks)"
proof (induction ks)
  case (Cons k ks)
  have "filter (\<lambda>t. q (fst (tick_key t))) (ledger_sdex ops (chain k)) =
      (if q (bf_minute chain k) then ledger_sdex ops (chain k) else [])"
    using ledger_tick_minute [OF assms, of _ chain k] by (auto simp: filter_id_conv filter_empty_conv)
  then show ?case
    using Cons.IH by simp
qed simp

lemma candles_of_filter:
  "set (candles_of ops (filter (\<lambda>t. q (fst (tick_key t))) ts)) = {c \<in> set (candles_of ops ts). q (oc_minute c)}"
proof -
  have minute: "oc_minute (candle_of ops us key) = fst key" for us key
  proof -
    have "candle_key (candle_of ops us key) = key"
      by (simp add: candle_of_def)
    from arg_cong [OF this, of fst] show ?thesis
      by (simp add: candle_key_def)
  qed
  have same: "candle_of ops (filter (\<lambda>t. q (fst (tick_key t))) ts) key = candle_of ops ts key" if "q (fst key)" for key
  proof -
    have "filter (\<lambda>t. tick_key t = key) (filter (\<lambda>t. q (fst (tick_key t))) ts) = filter (\<lambda>t. tick_key t = key) ts"
      using that by (induction ts) auto
    then show ?thesis by (simp add: candle_of_def)
  qed
  have "set (candles_of ops (filter (\<lambda>t. q (fst (tick_key t))) ts)) =
      candle_of ops (filter (\<lambda>t. q (fst (tick_key t))) ts) ` {key \<in> tick_key ` set ts. q (fst key)}"
    unfolding candles_of_def by (auto simp: image_iff)
  also have "\<dots> = candle_of ops ts ` {key \<in> tick_key ` set ts. q (fst key)}"
    by (intro image_cong) (auto simp: same)
  also have "\<dots> = {c \<in> set (candles_of ops ts). q (oc_minute c)}"
    by (auto simp: candles_of_def minute)
  finally show ?thesis .
qed

lemma candles_in_filter:
  assumes "dec_laws ops"
  shows "candles_in ops chain (filter (\<lambda>k. q (bf_minute chain k)) ks) = {c \<in> candles_in ops chain ks. q (oc_minute c)}"
  using candles_of_filter [of ops q "ticks_in ops chain ks"] ticks_filter [OF assms, of q chain ks]
  by (simp add: candles_in_def)

text \<open>Ledgers in the order of their minutes.\<close>

definition in_order :: "(u32 \<Rightarrow> ledger_close_meta) \<Rightarrow> u32 list \<Rightarrow> bool" where
  "in_order chain ks \<longleftrightarrow> sorted (map (bf_minute chain) ks)"

definition open_minute :: "(u32 \<Rightarrow> ledger_close_meta) \<Rightarrow> u32 list \<Rightarrow> u32" where
  "open_minute chain ks = (if ks = [] then 0 else bf_minute chain (last ks))"

lemma open_minute_snoc [simp]: "open_minute chain (ks @ [k]) = bf_minute chain k"
  by (simp add: open_minute_def)

lemma in_order_prefix:
  assumes "in_order chain (ks @ ls)" and "k \<in> set ks"
  shows "bf_minute chain k \<le> open_minute chain ks"
proof (cases ks rule: rev_cases)
  case (snoc js j)
  then show ?thesis
    using assms by (auto simp: in_order_def sorted_append open_minute_def)
qed (use assms in simp)

lemma in_order_suffix:
  assumes "in_order chain (ks @ ls)" and "k \<in> set ls"
  shows "open_minute chain ks \<le> bf_minute chain k"
proof (cases ks rule: rev_cases)
  case (snoc js j)
  then show ?thesis
    using assms by (auto simp: in_order_def sorted_append open_minute_def)
qed (simp add: open_minute_def)

section \<open>What a run has done so far\<close>

text \<open>
  \<open>safe\<close>: a trace of a run over the ledgers \<open>us\<close>. Its rows are candles of those ledgers, and a marker
  in it comes with every ledger of its minute and every candle of its minute.
\<close>

definition safe :: "dec_ops \<Rightarrow> (u32 \<Rightarrow> ledger_close_meta) \<Rightarrow> u32 list \<Rightarrow> bf_effect list \<Rightarrow> bool" where
  "safe ops chain us t \<longleftrightarrow> set (bf_rows t) \<subseteq> candles_in ops chain us \<and> set (bf_marks t) \<subseteq> set us \<and>
     (\<forall>k \<in> set (bf_marks t). (\<forall>j \<in> set us. bf_minute chain j = bf_minute chain k \<longrightarrow> j \<in> set (bf_marks t)) \<and>
        (\<forall>c \<in> candles_in ops chain us. oc_minute c = bf_minute chain k \<longrightarrow> c \<in> set (bf_rows t)))"

lemma safe_below:
  assumes "set (bf_rows t) \<subseteq> candles_in ops chain us" and "set (bf_marks t) = {k \<in> set us. bf_minute chain k < m}"
    and "{c \<in> candles_in ops chain us. oc_minute c < m} \<subseteq> set (bf_rows t)"
  shows "safe ops chain us t"
  using assms by (auto simp: safe_def)

text \<open>The ledgers \<open>ps\<close> of \<open>us\<close> have been indexed: every older minute is written, the open one accumulates.\<close>

definition indexed :: "dec_ops \<Rightarrow> (u32 \<Rightarrow> ledger_close_meta) \<Rightarrow> u32 list \<Rightarrow> u32 list \<Rightarrow> bf_state \<Rightarrow> bool" where
  "indexed ops chain us ps st \<longleftrightarrow>
     holds (ba_sdex (bs_accs st)) (filter (\<lambda>t. \<not> fst (tick_key t) < open_minute chain ps) (ticks_in ops chain ps)) \<and>
     venues_only (bs_accs st) \<and>
     set (bf_rows (bs_trace st)) = {c \<in> candles_in ops chain us. oc_minute c < open_minute chain ps}"

text \<open>The markers after the ledgers \<open>ps\<close>: those of older minutes are stored, the rest held.\<close>

definition marked :: "(u32 \<Rightarrow> ledger_close_meta) \<Rightarrow> u32 list \<Rightarrow> bf_state \<Rightarrow> bool" where
  "marked chain ps st \<longleftrightarrow>
     set (bf_marks (bs_trace st)) = {k \<in> set ps. bf_minute chain k < open_minute chain ps} \<and>
     set (ba_held_markers (bs_accs st)) = {k \<in> set ps. \<not> bf_minute chain k < open_minute chain ps} \<and>
     ba_held_minute (bs_accs st) = (if ps = [] then None else Some (open_minute chain ps))"

lemma marked_all:
  assumes "in_order chain (ps @ rs)" and "marked chain ps st"
  shows "set (bf_marks (bs_trace st)) = {k \<in> set (ps @ rs). bf_minute chain k < open_minute chain ps}"
proof -
  have "\<not> bf_minute chain k < open_minute chain ps" if "k \<in> set rs" for k
    using in_order_suffix [OF assms(1) that] by simp
  then show ?thesis
    using assms(2) by (auto simp: marked_def)
qed

lemma safe_while_indexing:
  assumes "in_order chain (ps @ rs)" and "marked chain ps st" and "open_minute chain ps \<le> m"
    and "bf_marks t = bf_marks (bs_trace st)"
    and "{c \<in> candles_in ops chain (ps @ rs). oc_minute c < m} \<subseteq> set (bf_rows t)"
    and "set (bf_rows t) \<subseteq> candles_in ops chain (ps @ rs)"
  shows "safe ops chain (ps @ rs) t"
proof (rule safe_below [OF assms(6)])
  show "set (bf_marks t) = {k \<in> set (ps @ rs). bf_minute chain k < open_minute chain ps}"
    unfolding assms(4) by (rule marked_all [OF assms(1,2)])
  show "{c \<in> candles_in ops chain (ps @ rs). oc_minute c < open_minute chain ps} \<subseteq> set (bf_rows t)"
    using assms(3,5) by (auto intro: order_less_le_trans)
qed

text \<open>One ledger more.\<close>

lemma index_ledger_feed:
  assumes "dec_laws ops" and "bf_ops env = ops" and "\<And>m. mset (bf_source_iter env m) = mset m"
    and "us = ps @ k # rs" and "in_order chain us" and "indexed ops chain us ps st"
  shows "case index_ledger env mode (chain k) st of
     Inl (e, t) \<Rightarrow> bf_marks t = bf_marks (bs_trace st) \<and> set (bf_rows t) \<subseteq> candles_in ops chain us \<and>
       {c \<in> candles_in ops chain us. oc_minute c < open_minute chain ps} \<subseteq> set (bf_rows t)
   | Inr st' \<Rightarrow> indexed ops chain us (ps @ [k]) st' \<and> bf_marks (bs_trace st') = bf_marks (bs_trace st) \<and>
       ba_held_markers (bs_accs st') = ba_held_markers (bs_accs st) \<and>
       ba_held_minute (bs_accs st') = ba_held_minute (bs_accs st) \<and> bs_ledgers st' = bs_ledgers st \<and>
       bs_last_minute st' = bf_minute chain k"
proof -
  let ?m = "open_minute chain ps" and ?n = "bf_minute chain k"
  let ?min = "\<lambda>t. fst (tick_key t)"
  let ?open = "filter (\<lambda>t. \<not> ?min t < ?m) (ticks_in ops chain ps) @ ledger_sdex ops (chain k)"
  define sdex where "sdex = fold merge (ledger_sdex (bf_ops env) (chain k)) (ba_sdex (bs_accs st))"
  define flushed where "flushed = flush_older_than (bf_ops env) (ledger_minute (chain k)) sdex"
  have le: "?m \<le> ?n"
    using assms(4,5) by (intro in_order_suffix [of chain ps "k # rs"]) simp_all
  have new: "\<not> ?min t < ?n" if mem: "t \<in> set (ledger_sdex ops (chain k) @ ticks_in ops chain rs)" for t
  proof -
    have "t \<in> set (ticks_in ops chain (k # rs))" using mem by simp
    then obtain j where j: "j \<in> set (k # rs)" "?min t = bf_minute chain j"
      using tick_minute [OF assms(1)] by blast
    have "in_order chain ((ps @ [k]) @ rs)"
      using assms(4,5) by simp
    then have "?n \<le> bf_minute chain j"
      using in_order_suffix [of chain "ps @ [k]" rs j] j(1) by auto
    then show ?thesis using j(2) by simp
  qed
  have sdex_holds: "holds sdex ?open"
    using assms(2,6) holds_fold by (simp add: sdex_def indexed_def)
  have rows: "set (fst flushed) = {c \<in> candles_in ops chain us. ?m \<le> oc_minute c \<and> oc_minute c < ?n}"
  proof -
    have "filter (\<lambda>t. ?min t < ?n) ?open = filter (\<lambda>t. ?m \<le> ?min t \<and> ?min t < ?n) (ticks_in ops chain us)"
      using new by (auto simp: assms(4) filter_empty_conv not_less intro!: filter_cong)
    then have "fst flushed = candles_of ops (filter (\<lambda>t. ?m \<le> ?min t \<and> ?min t < ?n) (ticks_in ops chain us))"
      using minutes.flush_older_out [OF sdex_holds] assms(2) by (simp add: flushed_def)
    then show ?thesis
      using candles_of_filter [of ops "\<lambda>x. ?m \<le> x \<and> x < ?n"] by (simp add: candles_in_def)
  qed
  have rest: "holds (snd flushed) (filter (\<lambda>t. \<not> ?min t < open_minute chain (ps @ [k])) (ticks_in ops chain (ps @ [k])))"
  proof -
    have "filter (\<lambda>t. \<not> ?min t < ?n) ?open = filter (\<lambda>t. \<not> ?min t < ?n) (ticks_in ops chain (ps @ [k]))"
      using le by (auto intro!: filter_cong)
    then show ?thesis
      using minutes.flush_older_rest [OF sdex_holds, where m = ?n] assms(2) by (simp add: flushed_def)
  qed
  have venues: "venues_only (bs_accs st)"
    using assms(6) by (simp add: indexed_def)
  have before: "set (bf_rows (bs_trace st)) = {c \<in> candles_in ops chain us. oc_minute c < ?m}"
    using assms(6) by (simp add: indexed_def)
  have all: "set (bf_rows (bs_trace st) @ fst flushed) = {c \<in> candles_in ops chain us. oc_minute c < ?n}"
    using le by (auto simp: rows before intro: order_less_le_trans)
  note step = index_ledger_cases [OF venues assms(3) sdex_def flushed_def, of mode]
  show ?thesis
  proof (cases "index_ledger env mode (chain k) st")
    case (Inl f)
    then show ?thesis
      using step before rows by (cases f) fastforce
  next
    case (Inr st')
    then show ?thesis
      using step all rest by (simp add: indexed_def)
  qed
qed

section \<open>A partition\<close>

text \<open>What the backfill relies on: each ledger read is the feed's, and maps are iterated completely.\<close>

definition archive :: "dec_ops \<Rightarrow> (u32 \<Rightarrow> ledger_close_meta) \<Rightarrow> bf_env \<Rightarrow> bool" where
  "archive ops chain env \<longleftrightarrow> bf_ops env = ops \<and> (\<forall>m. mset (bf_source_iter env m) = mset m) \<and>
     (\<forall>seq. bf_load env seq = Some (Inr [chain seq]) \<or> (\<exists>message. bf_load env seq = Some (Inl message)))"

text \<open>No partition of the archive is short of files.\<close>

definition whole_archive :: "dec_ops \<Rightarrow> (u32 \<Rightarrow> ledger_close_meta) \<Rightarrow> bf_env \<Rightarrow> bool" where
  "whole_archive ops chain env \<longleftrightarrow> archive ops chain env \<and> (\<forall>p. bf_sync env p \<noteq> Inr False)"

abbreviation todo_of :: "u32 list \<Rightarrow> u32 list \<Rightarrow> u32 list" where
  "todo_of completed seqs \<equiv> filter (\<lambda>k. k \<notin> set completed) seqs"

abbreviation safe_failure :: "dec_ops \<Rightarrow> (u32 \<Rightarrow> ledger_close_meta) \<Rightarrow> u32 list \<Rightarrow> bf_error \<times> bf_effect list \<Rightarrow> bool" where
  "safe_failure ops chain us f \<equiv> safe ops chain us (snd f)"

text \<open>In a partition: \<open>ps\<close> are the ledgers of the earlier partitions, \<open>qs\<close> those of this one so far.\<close>

definition in_partition :: "dec_ops \<Rightarrow> (u32 \<Rightarrow> ledger_close_meta) \<Rightarrow> u32 list \<Rightarrow> u32 list \<Rightarrow> u32 list \<Rightarrow> bf_state \<Rightarrow> bool" where
  "in_partition ops chain us ps qs st \<longleftrightarrow> indexed ops chain us (ps @ qs) st \<and> marked chain ps st \<and>
     bs_ledgers st = map (\<lambda>k. (k, bf_minute chain k)) qs"

lemma open_minute_mono: "in_order chain (ps @ qs) \<Longrightarrow> open_minute chain ps \<le> open_minute chain (ps @ qs)"
  using in_order_suffix [of chain ps qs "last qs"] by (cases "qs = []") (auto simp: open_minute_def)

lemma in_order_take: "in_order chain (ps @ qs) \<Longrightarrow> in_order chain ps"
  by (simp add: in_order_def sorted_append)

lemma safe_in_partition:
  assumes "in_order chain us" and "us = ps @ qs @ rs" and "in_partition ops chain us ps qs st"
    and "bf_marks t = bf_marks (bs_trace st)" and "set (bf_rows (bs_trace st)) \<subseteq> set (bf_rows t)"
    and "set (bf_rows t) \<subseteq> candles_in ops chain us"
  shows "safe ops chain us t"
proof -
  have "in_order chain (ps @ qs)"
    using assms(1,2) by (intro in_order_take [of chain "ps @ qs" rs]) simp
  then show ?thesis
    unfolding assms(2) using assms(3-6) assms(1) [unfolded assms(2)]
    by (intro safe_while_indexing [where st = st and m = "open_minute chain (ps @ qs)"] open_minute_mono)
      (auto simp: in_partition_def indexed_def assms(2))
qed

lemma index_seq_valid:
  assumes "dec_laws ops" and "archive ops chain env" and "in_order chain us"
    and "us = ps @ qs @ todo_of completed [k] @ rs"
  shows "valid (safe_failure ops chain us) (in_partition ops chain us ps qs) (index_seq env mode completed k)
    (in_partition ops chain us ps (qs @ todo_of completed [k]))"
proof (cases "k \<in> set completed")
  case True
  then show ?thesis
    by (simp add: valid_def index_seq_def note_skipped_def in_partition_def indexed_def marked_def)
next
  case False
  have split: "us = (ps @ qs) @ k # rs"
    using False assms(4) by simp
  show ?thesis
    unfolding valid_def
  proof (intro allI impI)
    fix st
    assume inv: "in_partition ops chain us ps qs st"
    consider (Loaded) "bf_load env k = Some (Inr [chain k])" | (Failed) message where "bf_load env k = Some (Inl message)"
      using assms(2) unfolding archive_def by blast
    then show "case index_seq env mode completed k st of Inl f \<Rightarrow> safe_failure ops chain us f
      | Inr st' \<Rightarrow> in_partition ops chain us ps (qs @ todo_of completed [k]) st'"
    proof cases
      case Loaded
      have env: "bf_ops env = ops" "mset (bf_source_iter env m) = mset m" for m
        using assms(2) by (simp_all add: archive_def)
      have "indexed ops chain us (ps @ qs) st"
        using inv by (simp add: in_partition_def)
      note step = index_ledger_feed [OF assms(1) env split assms(3) this, of mode]
      have run: "index_seq env mode completed k st =
          rbind (index_ledger env mode (chain k) st) (\<lambda>st. Inr (note_indexed k st))"
        using False Loaded by (simp add: index_seq_def rbind_def split: sum.splits)
      show ?thesis
      proof (cases "index_ledger env mode (chain k) st")
        case (Inl f)
        have "set (bf_rows (bs_trace st)) = {c \<in> candles_in ops chain us. oc_minute c < open_minute chain (ps @ qs)}"
          using inv by (simp add: in_partition_def indexed_def)
        then have "safe ops chain us (snd f)"
          using step Inl split by (intro safe_in_partition [OF assms(3) _ inv]) (auto split: prod.splits)
        then show ?thesis
          by (simp add: run Inl)
      next
        case (Inr st')
        then show ?thesis
          using step inv False by (simp add: run in_partition_def note_indexed_def indexed_def marked_def)
      qed
    next
      case Failed
      have "safe ops chain us (bs_trace st)"
        using split inv by (intro safe_in_partition [OF assms(3) _ inv]) (auto simp: in_partition_def indexed_def)
      then show ?thesis
        using False Failed by (simp add: index_seq_def fail_def)
    qed
  qed
qed

lemma index_seqs_valid:
  assumes "dec_laws ops" and "archive ops chain env" and "in_order chain us" and "us = ps @ todo_of completed seqs @ rs"
  shows "valid (safe_failure ops chain us) (in_partition ops chain us ps []) (fold_res (index_seq env mode completed) seqs)
    (in_partition ops chain us ps (todo_of completed seqs))"
proof -
  have "valid (safe_failure ops chain us) (in_partition ops chain us ps (todo_of completed pre)) (index_seq env mode completed k)
      (in_partition ops chain us ps (todo_of completed (pre @ [k])))" if "seqs = pre @ k # post" for pre k post
  proof -
    have "us = ps @ todo_of completed pre @ todo_of completed [k] @ (todo_of completed post @ rs)"
      using assms(4) that by simp
    from index_seq_valid [OF assms(1-3) this] show ?thesis
      by (simp only: filter_append)
  qed
  from valid_fold [where I = "\<lambda>pre. in_partition ops chain us ps (todo_of completed pre)", OF this] show ?thesis
    by simp
qed

section \<open>The end of a partition\<close>

lemma release_fold:
  assumes "\<forall>k \<in> set qs. bf_minute chain k \<le> m"
  shows "fold (release_marker m) (map (\<lambda>k. (k, bf_minute chain k)) qs) (due, accs) =
    (due @ filter (\<lambda>k. bf_minute chain k < m) qs,
     accs\<lparr>ba_held_markers := ba_held_markers accs @ filter (\<lambda>k. \<not> bf_minute chain k < m) qs,
       ba_held_minute := (if filter (\<lambda>k. \<not> bf_minute chain k < m) qs = [] then ba_held_minute accs else Some m)\<rparr>)"
  using assms
proof (induction qs arbitrary: due accs)
  case (Cons k qs)
  then show ?case
    by (cases "bf_minute chain k < m") (auto simp: release_marker_def)
qed simp

text \<open>The markers a partition that is not the last releases.\<close>

lemma due_markers_carry:
  assumes "in_order chain (ps @ qs)" and "marked chain ps st"
    and "due_markers Carry (map (\<lambda>k. (k, bf_minute chain k)) qs) (bs_accs st) = (due, accs)"
  shows "ba_sdex accs = ba_sdex (bs_accs st) \<and> ba_amm accs = ba_amm (bs_accs st) \<and>
    set (bf_marks (bs_trace st) @ due) = {k \<in> set (ps @ qs). bf_minute chain k < open_minute chain (ps @ qs)} \<and>
    set (ba_held_markers accs) = {k \<in> set (ps @ qs). \<not> bf_minute chain k < open_minute chain (ps @ qs)} \<and>
    ba_held_minute accs = (if ps @ qs = [] then None else Some (open_minute chain (ps @ qs)))"
proof (cases "qs = []")
  case True
  then show ?thesis
    using assms(2,3) by (auto simp: due_markers_def release_markers_def marked_def)
next
  case ne: False
  let ?m = "open_minute chain (ps @ qs)"
  let ?early = "open_minute chain ps"
  let ?old = "bs_accs st"
  have m: "?m = bf_minute chain (last qs)"
    using ne by (simp add: open_minute_def)
  have le: "\<forall>k \<in> set qs. bf_minute chain k \<le> ?m"
    using in_order_prefix [of chain "ps @ qs" "[]"] assms(1) by simp
  have later: "\<forall>k \<in> set qs. ?early \<le> bf_minute chain k"
    using in_order_suffix [OF assms(1)] by blast
  have earlier: "\<forall>k \<in> set ps. bf_minute chain k \<le> ?early"
    using in_order_prefix [OF assms(1)] by blast
  have mm: "?early \<le> ?m"
    by (rule open_minute_mono [OF assms(1)])
  have last: "filter (\<lambda>k. \<not> bf_minute chain k < ?m) qs \<noteq> []"
    using ne by (auto simp: m filter_empty_conv intro!: bexI [of _ "last qs"])
  have marks: "set (bf_marks (bs_trace st)) = {k \<in> set ps. bf_minute chain k < ?early}"
      "set (ba_held_markers ?old) = {k \<in> set ps. \<not> bf_minute chain k < ?early}"
      "ba_held_minute ?old = (if ps = [] then None else Some ?early)"
    using assms(2) by (simp_all add: marked_def)
  let ?older = "case ba_held_minute ?old of None \<Rightarrow> False | Some held \<Rightarrow> held < ?m"
  have release: "fold (release_marker ?m) (map (\<lambda>k. (k, bf_minute chain k)) qs)
      (if ?older then (ba_held_markers ?old, ?old\<lparr>ba_held_markers := [], ba_held_minute := None\<rparr>) else ([], ?old)) =
      (due, accs)"
    unfolding m using assms(3) ne by (simp add: due_markers_def release_markers_def last_map Let_def)
  show ?thesis
  proof (cases ?older)
    case True
    then have "ps \<noteq> []" "?early < ?m"
      using marks(3) by (auto split: if_splits)
    then have "\<forall>k \<in> set ps. bf_minute chain k < ?m"
      using earlier by (auto intro: order_le_less_trans)
    moreover have "due = ba_held_markers ?old @ filter (\<lambda>k. bf_minute chain k < ?m) qs"
      "accs = ?old\<lparr>ba_held_markers := filter (\<lambda>k. \<not> bf_minute chain k < ?m) qs, ba_held_minute := Some ?m\<rparr>"
      using release True last by (simp_all add: release_fold [OF le])
    ultimately show ?thesis
      using marks ne by auto
  next
    case False
    then have m0: "ps = [] \<or> ?early = ?m"
      using marks(3) mm by (cases "ps = []") auto
    have "due = filter (\<lambda>k. bf_minute chain k < ?m) qs"
      "accs = ?old\<lparr>ba_held_markers := ba_held_markers ?old @ filter (\<lambda>k. \<not> bf_minute chain k < ?m) qs, ba_held_minute := Some ?m\<rparr>"
      using release False last by (simp_all add: release_fold [OF le])
    then show ?thesis
      using marks m0 ne by auto
  qed
qed

lemma write_markers_cases:
  obtains (Fails) e where "write_completed_ledgers env due st = Inl (e, bs_trace st)"
  | (Writes) t where "write_completed_ledgers env due st = Inr (st\<lparr>bs_trace := bs_trace st @ t\<rparr>)" "bf_rows t = []" "bf_marks t = due"
proof (cases "due = []")
  case True
  then have "write_completed_ledgers env due st = Inr (st\<lparr>bs_trace := bs_trace st @ []\<rparr>)"
    by (simp add: write_completed_ledgers_def)
  then show thesis
    using True by (intro Writes [of "[]"]) simp_all
next
  case False
  then show thesis
    using Fails Writes [of "[BfMarkers due]"]
    by (cases "bf_failure env (bs_trace st) (BfMarkers due)") (simp_all add: write_completed_ledgers_def emit_def fail_def)
qed

lemma writes_oracle_end: "writes (\<lambda>st. if bs_oracle st = [] then Inr st else write_oracle_buffer env st) [] []"
  using writes_oracle [of env] by (auto simp: writes_def same_vars_def split: sum.splits)

lemma finish_carry_valid:
  assumes "in_order chain us" and "us = ps @ qs @ rs"
  shows "valid (safe_failure ops chain us) (in_partition ops chain us ps qs) (finish_partition env Carry)
    (\<lambda>st. indexed ops chain us (ps @ qs) st \<and> marked chain (ps @ qs) st)"
  unfolding valid_def
proof (intro allI impI)
  fix st
  assume inv: "in_partition ops chain us ps qs st"
  have ordered: "in_order chain (ps @ qs)"
    using assms by (intro in_order_take [of chain "ps @ qs" rs]) simp
  let ?w = "\<lambda>st. if bs_oracle st = [] then Inr st else write_oracle_buffer env st"
  have run: "finish_partition env Carry st = rbind (?w st) (\<lambda>st.
      let (due, accs) = due_markers Carry (bs_ledgers st) (bs_accs st) in write_completed_ledgers env due (st\<lparr>bs_accs := accs\<rparr>))"
    by (simp add: finish_partition_def candles_at_partition_end_def write_candles_after_assets_def)
  show "case finish_partition env Carry st of Inl f \<Rightarrow> safe_failure ops chain us f
    | Inr st' \<Rightarrow> indexed ops chain us (ps @ qs) st' \<and> marked chain (ps @ qs) st'"
  proof (cases "?w st")
    case (Inl f)
    obtain part where "set part \<subseteq> {}" "bf_rows (snd f) = bf_rows (bs_trace st) @ part"
        "bf_marks (snd f) = bf_marks (bs_trace st)"
      using writes_InlD [OF writes_oracle_end Inl] by auto
    then have "safe ops chain us (snd f)"
      using inv by (intro safe_in_partition [OF assms inv]) (auto simp: in_partition_def indexed_def)
    then show ?thesis
      by (simp add: run Inl)
  next
    case (Inr st1)
    have same: "bf_rows (bs_trace st1) = bf_rows (bs_trace st)" "bf_marks (bs_trace st1) = bf_marks (bs_trace st)"
        "bs_accs st1 = bs_accs st" "bs_ledgers st1 = bs_ledgers st"
      using writes_InrD [OF writes_oracle_end Inr] by (simp_all add: same_vars_def)
    have inv1: "in_partition ops chain us ps qs st1"
      using inv same by (simp add: in_partition_def indexed_def marked_def)
    obtain due accs where due: "due_markers Carry (map (\<lambda>k. (k, bf_minute chain k)) qs) (bs_accs st1) = (due, accs)"
      by (cases "due_markers Carry (map (\<lambda>k. (k, bf_minute chain k)) qs) (bs_accs st1)")
    have "marked chain ps st1" "bs_ledgers st1 = map (\<lambda>k. (k, bf_minute chain k)) qs"
      using inv1 by (simp_all add: in_partition_def)
    note released = due_markers_carry [OF ordered this(1) due]
    show ?thesis
    proof (cases rule: write_markers_cases [of env due "st1\<lparr>bs_accs := accs\<rparr>"])
      case (Fails e)
      have "safe ops chain us (bs_trace st1)"
        using inv1 by (intro safe_in_partition [OF assms inv1]) (auto simp: in_partition_def indexed_def)
      then show ?thesis
        using Fails inv1 by (simp add: run Inr due in_partition_def)
    next
      case (Writes t)
      then show ?thesis
        using released inv1 by (simp add: run Inr due in_partition_def indexed_def marked_def venues_only_def)
    qed
  qed
qed

text \<open>The last partition drains what is open, then every marker is due.\<close>

definition drained :: "dec_ops \<Rightarrow> (u32 \<Rightarrow> ledger_close_meta) \<Rightarrow> u32 list \<Rightarrow> bf_state \<Rightarrow> bool" where
  "drained ops chain us st \<longleftrightarrow> set (bf_rows (bs_trace st)) = candles_in ops chain us \<and>
     set (bf_marks (bs_trace st)) = set us \<and> ba_sdex (bs_accs st) = accumulator_new \<and> venues_only (bs_accs st) \<and>
     ba_held_markers (bs_accs st) = []"

lemma drained_safe: "drained ops chain us st \<Longrightarrow> safe ops chain us (bs_trace st)"
  by (simp add: drained_def safe_def)

lemma finish_drain_valid:
  assumes "bf_ops env = ops" and "\<And>m. mset (bf_source_iter env m) = mset m"
    and "in_order chain us" and "us = ps @ qs"
  shows "valid (safe_failure ops chain us) (in_partition ops chain us ps qs) (finish_partition env Drain)
    (drained ops chain us)"
  unfolding valid_def
proof (intro allI impI)
  fix st
  assume inv: "in_partition ops chain us ps qs st"
  obtain batches accs where all: "drain_all env (bs_accs st) = (batches, accs)"
    by (cases "drain_all env (bs_accs st)")
  let ?m = "open_minute chain us"
  have open_ticks: "holds (ba_sdex (bs_accs st)) (filter (\<lambda>t. \<not> fst (tick_key t) < ?m) (ticks_in ops chain us))"
    and venues: "venues_only (bs_accs st)"
    and before: "set (bf_rows (bs_trace st)) = {c \<in> candles_in ops chain us. oc_minute c < ?m}"
    using inv assms(4) by (simp_all add: in_partition_def indexed_def)
  have rows: "set (batch_rows batches) = {c \<in> candles_in ops chain us. \<not> oc_minute c < ?m}"
    using drain_all_rows(1) [OF venues assms(2)] flush_all_holds [OF open_ticks]
      candles_of_filter [of ops "\<lambda>x. \<not> x < ?m"] by (simp add: all candles_in_def assms(1))
  have accs: "ba_sdex accs = accumulator_new" "venues_only accs" "ba_held_markers accs = ba_held_markers (bs_accs st)"
    using drain_all_rows(2-4) [OF venues assms(2)] by (simp_all add: all)
  let ?p = "\<lambda>st. rbind (write_candles_after_assets env batches st) (\<lambda>st. if bs_oracle st = [] then Inr st else write_oracle_buffer env st)"
  have w: "writes ?p (batch_rows batches) []"
    using writes_bind [OF writes_candles writes_oracle_end, of env batches env] by simp
  let ?st = "st\<lparr>bs_accs := accs\<rparr>"
  have run: "finish_partition env Drain st = rbind (?p ?st) (\<lambda>st.
      let (due, accs) = due_markers Drain (bs_ledgers st) (bs_accs st) in write_completed_ledgers env due (st\<lparr>bs_accs := accs\<rparr>))"
    by (simp add: finish_partition_def candles_at_partition_end_def all rbind_def split: sum.splits)
  show "case finish_partition env Drain st of Inl f \<Rightarrow> safe_failure ops chain us f | Inr st' \<Rightarrow> drained ops chain us st'"
  proof (cases "?p ?st")
    case (Inl f)
    obtain part where "set part \<subseteq> set (batch_rows batches)" "bf_rows (snd f) = bf_rows (bs_trace st) @ part"
        "bf_marks (snd f) = bf_marks (bs_trace st)"
      using writes_InlD [OF w Inl] by auto
    then have "safe ops chain us (snd f)"
      using rows before assms(4) by (intro safe_in_partition [OF assms(3), of ps qs "[]", OF _ inv]) auto
    then show ?thesis
      by (simp add: run Inl)
  next
    case (Inr st1)
    have one: "bf_rows (bs_trace st1) = bf_rows (bs_trace st) @ batch_rows batches"
        "bf_marks (bs_trace st1) = bf_marks (bs_trace st)" "bs_accs st1 = accs" "bs_ledgers st1 = bs_ledgers st"
      using writes_InrD [OF w Inr] by (simp_all add: same_vars_def)
    let ?due = "ba_held_markers accs @ map fst (bs_ledgers st)"
    have cands: "set (bf_rows (bs_trace st1)) = candles_in ops chain us"
      using before rows by (auto simp: one(1))
    have marks: "set (bf_marks (bs_trace st) @ ?due) = set us"
      using inv by (auto simp: in_partition_def marked_def accs(3) assms(4) comp_def)
    show ?thesis
    proof (cases rule: write_markers_cases [of env ?due "st1\<lparr>bs_accs := accs\<lparr>ba_held_markers := [], ba_held_minute := None\<rparr>\<rparr>"])
      case (Fails e)
      have "safe ops chain us (bs_trace st1)"
        using one cands assms(4) by (intro safe_in_partition [OF assms(3), of ps qs "[]", OF _ inv]) auto
      then show ?thesis
        using Fails one by (simp add: run Inr due_markers_def take_held_markers_def)
    next
      case (Writes t)
      then show ?thesis
        using one cands marks accs by (simp add: run Inr due_markers_def take_held_markers_def drained_def venues_only_def)
    qed
  qed
qed

end
