(* ===== verification/Backfill_Resume.thy ===== *)
theory Backfill_Resume
  imports Backfill_Feed Run_Sample
begin

text \<open>
  Whole backfill runs over a range, and any sequence of interrupted runs: what the store holds in between, and
  what it holds after a run that completes.
\<close>

section \<open>One partition and the loop over them\<close>

lemma writes_safe:
  assumes "writes p [] []" and "\<And>st st'. K st \<Longrightarrow> bf_rows (bs_trace st') = bf_rows (bs_trace st) \<Longrightarrow>
      bf_marks (bs_trace st') = bf_marks (bs_trace st) \<Longrightarrow> same_vars st st' \<Longrightarrow> K st'"
    and "\<And>st t. K st \<Longrightarrow> bf_rows t = bf_rows (bs_trace st) \<Longrightarrow> bf_marks t = bf_marks (bs_trace st) \<Longrightarrow> safe ops chain us t"
  shows "valid (safe_failure ops chain us) K p K"
proof (rule validI)
  fix st f
  assume "K st" "p st = Inl f"
  then show "safe_failure ops chain us f"
    using writes_InlD [OF assms(1), of st f] assms(3) [of st "snd f"] by fastforce
next
  fix st st'
  assume "K st" "p st = Inr st'"
  then show "K st'"
    using writes_InrD [OF assms(1), of st st'] assms(2) [of st st'] by simp
qed

text \<open>Between two partitions.\<close>

definition between :: "dec_ops \<Rightarrow> (u32 \<Rightarrow> ledger_close_meta) \<Rightarrow> u32 list \<Rightarrow> u32 list \<Rightarrow> bf_state \<Rightarrow> bool" where
  "between ops chain us ps st \<longleftrightarrow> indexed ops chain us ps st \<and> marked chain ps st"

lemma safe_between:
  assumes "in_order chain us" and "us = ps @ rs" and "between ops chain us ps st"
    and "bf_rows t = bf_rows (bs_trace st)" and "bf_marks t = bf_marks (bs_trace st)"
  shows "safe ops chain us t"
  using assms(1,3-5) unfolding assms(2)
  by (intro safe_while_indexing [where st = st and m = "open_minute chain ps"]) (auto simp: between_def indexed_def)

lemma safe_drained:
  assumes "drained ops chain us st" and "bf_rows t = bf_rows (bs_trace st)" and "bf_marks t = bf_marks (bs_trace st)"
  shows "safe ops chain us t"
  using drained_safe [OF assms(1)] assms(2,3) by (simp add: safe_def)

text \<open>What holds after a partition: everything when it is the last, the open minute held otherwise.\<close>

definition after_partition ::
  "dec_ops \<Rightarrow> (u32 \<Rightarrow> ledger_close_meta) \<Rightarrow> u32 list \<Rightarrow> partition_end \<Rightarrow> u32 list \<Rightarrow> bf_state \<Rightarrow> bool" where
  "after_partition ops chain us pe ps st \<longleftrightarrow> (case pe of Carry \<Rightarrow> between ops chain us ps st | Drain \<Rightarrow> drained ops chain us st)"

lemma index_partition_valid:
  assumes "dec_laws ops" and "archive ops chain env" and "in_order chain us"
    and "us = ps @ todo_of completed (partition_ledgers lo hi p) @ rs" and "pe = Drain \<Longrightarrow> rs = []"
  shows "valid (safe_failure ops chain us) (between ops chain us ps) (index_partition env p lo hi completed mode pe)
    (after_partition ops chain us pe (ps @ todo_of completed (partition_ledgers lo hi p)))"
proof -
  let ?qs = "todo_of completed (partition_ledgers lo hi p)"
  let ?start = "\<lambda>st. st\<lparr>bs_stats := stats_default, bs_oracle := [], bs_ledgers := [], bs_last_minute := 0\<rparr>"
  have env: "bf_ops env = ops" "mset (bf_source_iter env m) = mset m" for m
    using assms(2) by (simp_all add: archive_def)
  have start: "valid (safe_failure ops chain us) (between ops chain us ps) (\<lambda>st. Inr (?start st)) (in_partition ops chain us ps [])"
    by (rule valid_skip) (simp add: between_def in_partition_def indexed_def marked_def)
  have finish: "valid (safe_failure ops chain us) (in_partition ops chain us ps ?qs) (finish_partition env pe)
      (after_partition ops chain us pe (ps @ ?qs))"
  proof (cases "pe")
    case Carry
    show ?thesis
      using finish_carry_valid [OF assms(3,4)] unfolding Carry by (rule valid_conseq) (simp_all add: after_partition_def between_def)
  next
    case Drain
    have "us = ps @ ?qs" using assms(4) assms(5) [OF Drain] by simp
    from finish_drain_valid [OF env assms(3) this] show ?thesis
      unfolding Drain by (rule valid_conseq) (simp_all add: after_partition_def)
  qed
  show ?thesis
    using valid_bind [OF start valid_bind [OF index_seqs_valid [OF assms(1-4)] finish]]
    by (simp add: index_partition_def [abs_def])
qed

text \<open>A synced partition of a run, its progress report included.\<close>

lemma process_partition_valid:
  assumes "dec_laws ops" and "archive ops chain env" and "in_order chain us"
    and "us = ps @ todo_of completed (partition_ledgers (pl_start plan) (pl_end plan) p) @ rs" and "pe = Drain \<Longrightarrow> rs = []"
  shows "valid (safe_failure ops chain us) (\<lambda>r :: bf_run. between ops chain us ps (br_state r)) (process_partition env plan completed pe p)
    (\<lambda>r. after_partition ops chain us pe (ps @ todo_of completed (partition_ledgers (pl_start plan) (pl_end plan) p)) (br_state r))"
  (is "valid ?E _ _ (\<lambda>r. ?after (br_state r))")
proof -
  have report: "valid ?E ?after (report_progress env plan obs phase) ?after" for obs phase
  proof (rule writes_safe [OF writes_report])
    fix st st'
    assume "?after st" "bf_rows (bs_trace st') = bf_rows (bs_trace st)" "bf_marks (bs_trace st') = bf_marks (bs_trace st)"
      "same_vars st st'"
    then show "?after st'"
      by (auto simp: after_partition_def between_def drained_def indexed_def marked_def same_vars_def split: partition_end.splits)
  next
    fix st t
    assume "?after st" "bf_rows t = bf_rows (bs_trace st)" "bf_marks t = bf_marks (bs_trace st)"
    then show "safe ops chain us t"
      using safe_between [OF assms(3) assms(4) [folded append_assoc]] safe_drained
      by (fastforce simp: after_partition_def split: partition_end.splits)
  qed
  show ?thesis
    unfolding valid_def
  proof (intro allI impI)
    fix r :: bf_run
    assume inv: "between ops chain us ps (br_state r)"
    note one = index_partition_valid [OF assms, where mode = "pl_mode plan"]
    show "case process_partition env plan completed pe p r of Inl f \<Rightarrow> ?E f | Inr r' \<Rightarrow> ?after (br_state r')"
    proof (cases "index_partition env p (pl_start plan) (pl_end plan) completed (pl_mode plan) pe (br_state r)")
      case (Inl f)
      then show ?thesis
        using validE [OF one inv Inl] by (simp add: process_partition_def)
    next
      case (Inr st)
      let ?report = "report_progress env plan (observe (max (br_highest r) (snd (clamped p (pl_start plan) (pl_end plan))))
        (add_stats (br_totals r) (bs_stats st))) PhaseRunning"
      have after: "?after st"
        by (rule validD [OF one inv Inr])
      show ?thesis
      proof (cases "?report st")
        case (Inl f)
        then show ?thesis
          using validE [OF report after Inl] by (simp add: process_partition_def Inr Let_def)
      next
        case reported: (Inr st')
        then show ?thesis
          using validD [OF report after reported] by (simp add: process_partition_def Inr Let_def)
      qed
    qed
  qed
qed

lemma process_partitions_feed:
  assumes "dec_laws ops" and "whole_archive ops chain env" and "in_order chain us"
    and "us = ps @ todo_of completed (concat (map (partition_ledgers (pl_start plan) (pl_end plan)) parts))"
    and "parts \<noteq> []" and "len = i + length parts" and "between ops chain us ps (br_state r)"
  shows "case process_partitions env plan completed len i True parts r of
    Inl f \<Rightarrow> safe_failure ops chain us f | Inr r' \<Rightarrow> drained ops chain us (br_state r')"
  using assms(4-7)
proof (induction parts arbitrary: ps i r)
  case (Cons p parts)
  let ?qs = "todo_of completed (partition_ledgers (pl_start plan) (pl_end plan) p)"
  let ?rs = "todo_of completed (concat (map (partition_ledgers (pl_start plan) (pl_end plan)) parts))"
  let ?pe = "partition_end_of i len"
  have split: "us = ps @ ?qs @ ?rs"
    using Cons.prems(1) by simp
  have drain: "?pe = Drain \<longleftrightarrow> parts = []"
    using Cons.prems(3) by (auto simp: partition_end_of_def)
  have none: "?pe = Drain \<Longrightarrow> ?rs = []"
    using drain by simp
  have readable: "archive ops chain env"
    using assms(2) by (simp add: whole_archive_def)
  note one = process_partition_valid [OF assms(1) readable assms(3) split none]
  show ?case
  proof (cases "process_partition env plan completed ?pe p r")
    case (Inl f)
    have "safe_failure ops chain us f"
      using validE [OF one Cons.prems(4) Inl] by simp
    then show ?thesis
      by (simp add: Inl)
  next
    case (Inr r1)
    have after: "after_partition ops chain us ?pe (ps @ ?qs) (br_state r1)"
      using validD [OF one Cons.prems(4) Inr] by simp
    show ?thesis
    proof (cases parts)
      case Nil
      then have "process_partitions env plan completed len i True (p # parts) r = Inr r1"
        by (simp add: Inr)
      then show ?thesis
        using after drain Nil by (simp add: after_partition_def del: process_partitions.simps)
    next
      case parts: (Cons q qs)
      have carry: "?pe = Carry"
        using drain parts by (cases ?pe) auto
      have mid: "between ops chain us (ps @ ?qs) (br_state r1)"
        using after by (simp add: carry after_partition_def)
      have step: "process_partitions env plan completed len i True (p # parts) r =
          (case bf_sync env q of Inl message \<Rightarrow> Inl (SyncFailed message, bs_trace (br_state r1))
           | Inr synced \<Rightarrow> process_partitions env plan completed len (i + 1) synced parts r1)"
        unfolding parts by (simp add: Inr del: process_partitions.simps(2) add: process_partitions.simps(2) [of env plan completed len i True p "q # qs"])
      show ?thesis
      proof (cases "bf_sync env q")
        case (Inl message)
        have "safe ops chain us (bs_trace (br_state r1))"
          by (rule safe_between [OF assms(3) _ mid]) (use split in simp_all)
        then show ?thesis
          unfolding step by (simp add: Inl)
      next
        case (Inr synced)
        have "synced"
          using assms(2) Inr by (cases synced) (auto simp: whole_archive_def)
        moreover have "case process_partitions env plan completed len (i + 1) True parts r1 of
            Inl f \<Rightarrow> safe_failure ops chain us f | Inr r' \<Rightarrow> drained ops chain us (br_state r')"
          by (rule Cons.IH [OF _ _ _ mid]) (use split parts Cons.prems(3) in simp_all)
        ultimately show ?thesis
          unfolding step by (simp add: Inr)
      qed
    qed
  qed
qed simp

section \<open>The end of a run\<close>

text \<open>What a run that returned has written.\<close>

definition finished :: "dec_ops \<Rightarrow> (u32 \<Rightarrow> ledger_close_meta) \<Rightarrow> u32 list \<Rightarrow> bf_effect list \<Rightarrow> bool" where
  "finished ops chain us t \<longleftrightarrow> set (bf_rows t) = candles_in ops chain us \<and> set (bf_marks t) = set us"

lemma finished_safe: "finished ops chain us t \<Longrightarrow> safe ops chain us t"
  by (simp add: finished_def safe_def)

lemma writes_nothing:
  assumes "writes p [] []"
  shows "valid (safe_failure ops chain us) (drained ops chain us) p (drained ops chain us)"
  using assms
proof (rule writes_safe)
  fix st st'
  assume "drained ops chain us st" "bf_rows (bs_trace st') = bf_rows (bs_trace st)"
    "bf_marks (bs_trace st') = bf_marks (bs_trace st)" "same_vars st st'"
  then show "drained ops chain us st'"
    by (simp add: drained_def same_vars_def)
qed (rule safe_drained)

lemma flush_open_valid:
  assumes "\<And>m. mset (bf_source_iter env m) = mset m"
  shows "valid (safe_failure ops chain us) (drained ops chain us) (flush_open_minutes env) (drained ops chain us)"
  unfolding valid_def
proof (intro allI impI)
  fix st
  assume inv: "drained ops chain us st"
  obtain batches accs where all: "drain_all env (bs_accs st) = (batches, accs)"
    by (cases "drain_all env (bs_accs st)") blast
  have venues: "venues_only (bs_accs st)" and new: "ba_sdex (bs_accs st) = accumulator_new"
    and held: "ba_held_markers (bs_accs st) = []"
    using inv by (simp_all add: drained_def)
  have "batch_rows batches = []"
    using drain_all_rows(1) [OF venues assms] flush_all_holds [OF holds_new, of "bf_ops env"]
    by (simp add: all new candles_of_def)
  with writes_candles [of env batches] have w: "writes (write_candles_after_assets env batches) [] []"
    by simp
  have accs: "ba_sdex accs = accumulator_new" "venues_only accs" "ba_held_markers accs = []"
    using drain_all_rows(2-4) [OF venues assms] held by (simp_all add: all)
  let ?st = "st\<lparr>bs_accs := accs\<rparr>"
  have inv': "drained ops chain us ?st"
    using inv accs by (simp add: drained_def)
  show "case flush_open_minutes env st of Inl f \<Rightarrow> safe_failure ops chain us f | Inr st' \<Rightarrow> drained ops chain us st'"
  proof (cases "write_candles_after_assets env batches ?st")
    case (Inl f)
    then show ?thesis
      using validE [OF writes_nothing [OF w] inv' Inl] by (simp add: flush_open_minutes_def all)
  next
    case (Inr st1)
    have "drained ops chain us st1"
      by (rule validD [OF writes_nothing [OF w] inv' Inr])
    then show ?thesis
      by (simp add: flush_open_minutes_def all Inr take_held_markers_def write_completed_ledgers_def drained_def venues_only_def)
  qed
qed

lemma finish_backfill_feed:
  assumes "\<And>m. mset (bf_source_iter env m) = mset m" and "drained ops chain us (br_state r)"
  shows "case finish_backfill env plan r of Inl f \<Rightarrow> safe_failure ops chain us f | Inr t \<Rightarrow> finished ops chain us t"
proof -
  let ?K = "drained ops chain us" and ?E = "safe_failure ops chain us"
  have quiet: "writes (emit env (BfPools rows)) [] []" "writes (emit env (BfUnresolved us)) [] []" for rows us
    using writes_emit [of env "BfPools rows"] writes_emit [of env "BfUnresolved us"] by simp_all
  have unresolved: "writes (\<lambda>st. if us = [] then Inr st else emit env (BfUnresolved us) st) [] []" for us
    using quiet(2) [of us] by (auto simp: writes_def same_vars_def)
  let ?last = "\<lambda>st. let totals = bs_stats st;
           unresolved = aggregate_unresolved (st_unresolved totals) (bs_registries st)
       in rbind (if unresolved = [] then Inr st else emit env (BfUnresolved unresolved) st) (\<lambda>st.
          let fatal = (if pl_start plan \<le> pl_activation plan then genuine_gaps unresolved else 0)
          in if 0 < fatal then Inl (UnresolvedPools fatal, bs_trace st)
             else rbind (report_progress env plan (observe (br_highest r) totals) PhaseCompleted st)
               (\<lambda>st. Inr (bs_trace st)))"
  have last: "valid ?E ?K ?last (finished ops chain us)"
    unfolding valid_def
  proof (intro allI impI)
    fix st
    assume inv: "?K st"
    define pools where "pools = aggregate_unresolved (st_unresolved (bs_stats st)) (bs_registries st)"
    define save where "save = (\<lambda>st. if pools = [] then Inr st else emit env (BfUnresolved pools) st)"
    define report where "report = report_progress env plan (observe (br_highest r) (bs_stats st)) PhaseCompleted"
    define fatal where "fatal = (if pl_start plan \<le> pl_activation plan then genuine_gaps pools else 0)"
    have w: "valid ?E ?K save ?K" and rep: "valid ?E ?K report ?K"
      unfolding save_def report_def by (intro writes_nothing unresolved writes_report)+
    have run: "?last st = rbind (save st) (\<lambda>st. if 0 < fatal then Inl (UnresolvedPools fatal, bs_trace st)
        else rbind (report st) (\<lambda>st. Inr (bs_trace st)))"
      unfolding save_def report_def fatal_def pools_def Let_def by (rule refl)
    show "case ?last st of Inl f \<Rightarrow> ?E f | Inr t \<Rightarrow> finished ops chain us t"
    proof (cases "save st")
      case (Inl f)
      then show ?thesis
        using validE [OF w inv Inl] by (simp add: run)
    next
      case (Inr st1)
      have one: "?K st1"
        by (rule validD [OF w inv Inr])
      show ?thesis
      proof (cases "report st1")
        case reported: (Inl f)
        then show ?thesis
          using drained_safe [OF one] validE [OF rep one reported] by (simp add: run Inr)
      next
        case reported: (Inr st2)
        have "finished ops chain us (bs_trace st2)"
          using validD [OF rep one reported] by (simp add: finished_def drained_def)
        then show ?thesis
          using drained_safe [OF one] by (simp add: run Inr reported)
      qed
    qed
  qed
  have inv: "?K ((br_state r)\<lparr>bs_stats := br_totals r\<rparr>)"
    using assms(2) by (simp add: drained_def)
  note flush = flush_open_valid [OF assms(1), where ops = ops and chain = chain and us = us]
    and persist = writes_nothing [OF writes_persist [of env], where ops = ops and chain = chain and us = us]
  have "valid ?E ?K (\<lambda>st. emit env (BfPools (to_pool_rows (bf_hex env) (bs_registries st))) st) ?K"
    using writes_nothing [OF quiet(1)] by (simp add: valid_def)
  from valid_bind [OF flush valid_bind [OF persist valid_bind [OF this last]]] inv show ?thesis
    unfolding valid_def finish_backfill_def by blast
qed

section \<open>A run\<close>

lemma run_new_between: "between ops chain us [] (br_state (run_new env assets registries))"
  by (auto simp: between_def indexed_def marked_def run_new_def accumulators_new_def venues_only_def open_minute_def holds_new)

lemma todo_of_partitions:
  "todo_of completed (concat (map (partition_ledgers lo hi)
      (filter (\<lambda>p. \<not> partition_fully_done p lo hi completed) ps))) =
    todo_of completed (concat (map (partition_ledgers lo hi) ps))"
proof (induction ps)
  case (Cons p ps)
  have "todo_of completed (partition_ledgers lo hi p) = []" if "partition_fully_done p lo hi completed"
    using that by (simp add: partition_fully_done_def list_all_iff filter_empty_conv)
  then show ?case
    using Cons.IH by simp
qed simp

lemma execute_feed:
  assumes "dec_laws ops" and "whole_archive ops chain env" and "pl_end plan < last_partition"
    and "in_order chain (ledger_range (pl_start plan) (pl_end plan))"
    and "isl (ld_completed loaded) \<or> (\<exists>seqs. ld_completed loaded = Inr seqs \<and> set seqs = set completed)"
    and "us = todo_of completed (ledger_range (pl_start plan) (pl_end plan))"
  obtains (Fails) f where "execute env loaded plan = Some (Inl f)" "safe ops chain us (snd f)"
  | (Returns) t where "execute env loaded plan = Some (Inr t)" "finished ops chain us t"
proof -
  let ?lo = "pl_start plan" and ?hi = "pl_end plan"
  have unwritten: "safe ops chain us []"
    by (simp add: safe_def)
  have all: "finished ops chain [] []"
    by (simp add: finished_def candles_in_def candles_of_def)
  obtain parts where parts: "partitions_for_range ?lo ?hi = Some parts"
      "concat (map (partition_ledgers ?lo ?hi) parts) = ledger_range ?lo ?hi"
    using partitions_cover [OF assms(3)] by blast
  consider (Backwards) "?hi < ?lo" | (Nothing) "\<not> ?hi < ?lo" "parts = []" | (Unread) "\<not> ?hi < ?lo" "parts \<noteq> []" "isl (ld_completed loaded)"
    | (Read) seqs where "\<not> ?hi < ?lo" "parts \<noteq> []" "ld_completed loaded = Inr seqs" "set seqs = set completed"
    using assms(5) by blast
  then show thesis
  proof cases
    case Backwards
    then have "execute env loaded plan = Some (Inl (BfPanic, []))"
      by (simp add: execute_def)
    then show thesis
      by (rule Fails) (simp add: unwritten)
  next
    case Nothing
    then have "us = []"
      using parts(2) by (simp add: assms(6))
    have "execute env loaded plan = Some (Inr [])"
      using Nothing parts(1) by (simp add: execute_def)
    then show thesis
      by (rule Returns) (simp add: \<open>us = []\<close> all)
  next
    case Unread
    then obtain message where "ld_completed loaded = Inl message"
      by (auto simp: isl_def)
    then have "execute env loaded plan = Some (Inl (SinkRead message, []))"
      using Unread parts(1) by (simp add: execute_def read_sink_def)
    then show thesis
      by (rule Fails) (simp add: unwritten)
  next
    case Read
    define todo where "todo = filter (\<lambda>p. \<not> partition_fully_done p ?lo ?hi seqs) parts"
    have us: "us = [] @ todo_of seqs (concat (map (partition_ledgers ?lo ?hi) todo))"
      unfolding todo_def todo_of_partitions parts(2) using Read(4) by (simp add: assms(6))
    have ordered: "in_order chain us"
      using assms(4) by (auto simp: assms(6) in_order_def sorted_map sorted_wrt_filter)
    define tail where "tail = rbind (read_sink (ld_assets loaded)) (\<lambda>assets.
        rbind (read_sink (ld_registries loaded)) (\<lambda>registries.
        case bf_sync env (hd todo) of
          Inl message \<Rightarrow> Inl (SyncFailed message, [])
        | Inr synced \<Rightarrow>
            rbind (process_partitions env plan seqs (length todo) 0 synced todo (run_new env assets registries))
              (finish_backfill env plan)))"
    have run: "execute env loaded plan = Some (if todo = [] then Inr [] else tail)"
      using Read(1-3) parts(1) by (simp add: execute_def read_sink_def tail_def Let_def flip: todo_def cong: sum.case_cong)
    show thesis
    proof (cases "todo = []")
      case True
      then have "execute env loaded plan = Some (Inr [])" "us = []"
        using run us by simp_all
      then show thesis
        using Returns [of "[]"] all by simp
    next
      case False
      have "case tail of Inl f \<Rightarrow> safe_failure ops chain us f | Inr t \<Rightarrow> finished ops chain us t"
      proof (cases "ld_assets loaded")
        case (Inl message)
        then show ?thesis
          using unwritten by (simp add: tail_def read_sink_def)
      next
        case assets: (Inr assets)
        show ?thesis
        proof (cases "ld_registries loaded")
          case (Inl message)
          then show ?thesis
            using unwritten assets by (simp add: tail_def read_sink_def)
        next
          case registries: (Inr registries)
          show ?thesis
          proof (cases "bf_sync env (hd todo)")
            case (Inl message)
            then show ?thesis
              using unwritten assets registries by (simp add: tail_def read_sink_def)
          next
            case (Inr synced)
            have "synced"
              using assms(2) Inr by (cases synced) (auto simp: whole_archive_def)
            let ?run = "process_partitions env plan seqs (length todo) 0 True todo (run_new env assets registries)"
            have tail: "tail = rbind ?run (finish_backfill env plan)"
              using assets registries Inr \<open>synced\<close> by (simp add: tail_def read_sink_def)
            have loop: "case ?run of Inl f \<Rightarrow> safe_failure ops chain us f | Inr r' \<Rightarrow> drained ops chain us (br_state r')"
              by (rule process_partitions_feed [OF assms(1,2) ordered us False _ run_new_between]) simp
            have iter: "mset (bf_source_iter env m) = mset m" for m
              using assms(2) by (simp add: whole_archive_def archive_def)
            show ?thesis
            proof (cases ?run)
              case (Inl f)
              then show ?thesis
                using loop by (simp add: tail)
            next
              case (Inr r')
              then show ?thesis
                using loop finish_backfill_feed [OF iter, of ops chain us r' plan] by (simp add: tail)
            qed
          qed
        qed
      qed
      then show thesis
        using Fails Returns run False by (cases tail) simp_all
    qed
  qed
qed

end
