(* ===== verification/Backfill_Store.thy ===== *)
theory Backfill_Store
  imports Backfill_Resume
begin

text \<open>
  The store a backfill fills: what it holds after any sequence of interrupted runs and after a run that
  returned, and that an undisturbed run returns.
\<close>

section \<open>Interrupted runs\<close>

text \<open>The markers \<open>marks\<close> and the candles \<open>rows\<close> of a store, against the ledgers \<open>us\<close>.\<close>

definition stored :: "dec_ops \<Rightarrow> (u32 \<Rightarrow> ledger_close_meta) \<Rightarrow> u32 list \<Rightarrow> u32 list \<Rightarrow> candle list \<Rightarrow> bool" where
  "stored ops chain us marks rows \<longleftrightarrow> set rows \<subseteq> candles_in ops chain us \<and> set marks \<subseteq> set us \<and>
     (\<forall>k \<in> set marks. (\<forall>j \<in> set us. bf_minute chain j = bf_minute chain k \<longrightarrow> j \<in> set marks) \<and>
        (\<forall>c \<in> candles_in ops chain us. oc_minute c = bf_minute chain k \<longrightarrow> c \<in> set rows))"

lemma safe_stored: "safe ops chain us t \<longleftrightarrow> stored ops chain us (bf_marks t) (bf_rows t)"
  by (simp add: safe_def stored_def)

lemma todo_by_minute:
  assumes "stored ops chain us marks rows"
  shows "todo_of marks us = filter (\<lambda>k. bf_minute chain k \<notin> bf_minute chain ` set marks) us"
  using assms by (intro filter_cong) (auto simp: stored_def)

lemma stored_step:
  assumes "dec_laws ops" and "stored ops chain us marks rows" and "stored ops chain (todo_of marks us) marks' rows'"
  shows "stored ops chain us (marks @ marks') (rows @ rows')"
proof -
  have todo: "candles_in ops chain (todo_of marks us) = {c \<in> candles_in ops chain us. oc_minute c \<notin> bf_minute chain ` set marks}"
    unfolding todo_by_minute [OF assms(2)]
    by (rule candles_in_filter [OF assms(1), where q = "\<lambda>m. m \<notin> bf_minute chain ` set marks"])
  have new: "bf_minute chain k \<notin> bf_minute chain ` set marks" if "k \<in> set marks'" for k
  proof -
    have "k \<in> set (todo_of marks us)"
      using assms(3) that by (auto simp: stored_def)
    then show ?thesis
      unfolding todo_by_minute [OF assms(2)] by simp
  qed
  show ?thesis
    unfolding stored_def
  proof (intro conjI ballI impI)
    show "set (rows @ rows') \<subseteq> candles_in ops chain us" "set (marks @ marks') \<subseteq> set us"
      using assms(2,3) todo by (auto simp: stored_def)
  next
    fix k j
    assume "k \<in> set (marks @ marks')" "j \<in> set us" "bf_minute chain j = bf_minute chain k"
    then show "j \<in> set (marks @ marks')"
      using assms(2,3) by (auto simp: stored_def)
  next
    fix k c
    assume k: "k \<in> set (marks @ marks')" "c \<in> candles_in ops chain us" "oc_minute c = bf_minute chain k"
    show "c \<in> set (rows @ rows')"
    proof (cases "k \<in> set marks")
      case True
      then show ?thesis
        using assms(2) k by (auto simp: stored_def)
    next
      case False
      then have k': "k \<in> set marks'"
        using k(1) by simp
      then have "c \<in> candles_in ops chain (todo_of marks us)"
        using new k by (simp add: todo)
      then show ?thesis
        using assms(3) k' k(3) by (auto simp: stored_def)
    qed
  qed
qed

text \<open>
  The backfill of a range over time: runs, each of which may fail anywhere, and each of which reads the markers
  stored by the earlier ones or fails to.
\<close>

definition trace_of :: "(bf_error \<times> bf_effect list, bf_effect list) result \<Rightarrow> bf_effect list" where
  "trace_of res = (case res of Inl (_, t) \<Rightarrow> t | Inr t \<Rightarrow> t)"

inductive backfilled ::
  "dec_ops \<Rightarrow> (u32 \<Rightarrow> ledger_close_meta) \<Rightarrow> u32 \<Rightarrow> u32 \<Rightarrow> u32 list \<Rightarrow> candle list \<Rightarrow> bool"
  for ops chain lo hi where
  backfill_start: "backfilled ops chain lo hi [] []"
| backfill_run: "backfilled ops chain lo hi (marks @ bf_marks (trace_of res)) (rows @ bf_rows (trace_of res))"
    if "backfilled ops chain lo hi marks rows" and "execute env loaded plan = Some res" and "whole_archive ops chain env"
      and "pl_start plan = lo" and "pl_end plan = hi"
      and "isl (ld_completed loaded) \<or> (\<exists>seqs. ld_completed loaded = Inr seqs \<and> set seqs = set marks)"

lemma backfilled_stored:
  assumes "dec_laws ops" and "in_order chain (ledger_range lo hi)" and "hi < last_partition"
    and "backfilled ops chain lo hi marks rows"
  shows "stored ops chain (ledger_range lo hi) marks rows"
  using assms(4)
proof (induction rule: backfilled.induct)
  case backfill_start
  then show ?case by (simp add: stored_def)
next
  case (backfill_run marks rows env loaded plan res)
  let ?us = "todo_of marks (ledger_range lo hi)"
  have "pl_end plan < last_partition" "in_order chain (ledger_range (pl_start plan) (pl_end plan))"
    "?us = todo_of marks (ledger_range (pl_start plan) (pl_end plan))"
    using assms(2,3) backfill_run.hyps(4,5) by simp_all
  note run = execute_feed [OF assms(1) backfill_run.hyps(3) this(1,2) backfill_run.hyps(6) this(3)]
  have "safe ops chain ?us (trace_of res)"
    using run backfill_run.hyps(2) finished_safe by (fastforce simp: trace_of_def split: sum.splits)
  then show ?case
    unfolding safe_stored by (rule stored_step [OF assms(1) backfill_run.IH])
qed

section \<open>A concrete archive\<close>

text \<open>Two ledgers of two minutes, the first with a pool fill; \<open>failure\<close> says which writes fail.\<close>

definition sample_bf_env :: "(bf_effect list \<Rightarrow> bf_effect \<Rightarrow> string option) \<Rightarrow> bf_env" where
  "sample_bf_env failure = \<lparr>bf_asset_env = sample_env, bf_ops = exact_ops, bf_hex = (\<lambda>_. []), bf_group_iter = id,
     bf_source_iter = id, bf_events = (\<lambda>_ _ _ _. []), bf_load = (\<lambda>seq. Some (Inr [sample_feed (ucast seq)])),
     bf_sync = (\<lambda>_. Inr True), bf_failure = failure\<rparr>"

definition sample_plan :: plan where
  "sample_plan = \<lparr>pl_start = 1, pl_end = 2, pl_mode = SdexOnly, pl_activation = 50457424, pl_tip = 2\<rparr>"

definition sample_loaded :: loaded where
  "sample_loaded = \<lparr>ld_completed = Inr [], ld_assets = Inr [], ld_registries = Inr registries_new\<rparr>"

lemma sample_archive: "whole_archive exact_ops (\<lambda>k. sample_feed (ucast k)) (sample_bf_env failure)"
  by (simp add: whole_archive_def archive_def sample_bf_env_def)

lemma sample_range: "ledger_range 1 2 = [1, 2]"
  by (simp add: ledger_range_def upt_rec)

lemma sample_in_order: "in_order (\<lambda>k. sample_feed (ucast k)) (ledger_range 1 2)"
  by (simp add: sample_range in_order_def ledger_minute_def sample_feed_def)

lemma execute_total:
  assumes "pl_end plan < last_partition"
  shows "execute env loaded plan \<noteq> None"
  using partitions_cover [OF assms, of "pl_start plan"] by (auto simp: execute_def)

section \<open>What the store holds\<close>

text \<open>
  C2: The backfill may be interrupted anywhere, any number of times, without losing a trade: over any sequence
  of runs of a range, each failing at any read, sync or write or not at all, a resume marker is stored only for
  whole minutes of the range and only once every order-book candle of that minute is in the store, and every
  order-book candle ever written is the candle of the whole range for its minute and pair. Assumed: close times
  do not go back, what the archive serves for a ledger is that ledger, no partition is found short of files,
  which the code skips and which would let a minute open across it be written and marked in part, and the range
  ends before the last partition of 32 bits.
\<close>

theorem backfill_resumes:
  assumes "dec_laws ops" and "in_order chain (ledger_range lo hi)" and "hi < last_partition"
    and "backfilled ops chain lo hi marks rows"
  shows "set rows \<subseteq> candles_in ops chain (ledger_range lo hi) \<and> set marks \<subseteq> set (ledger_range lo hi) \<and>
    (\<forall>k \<in> set marks. (\<forall>j \<in> set (ledger_range lo hi). bf_minute chain j = bf_minute chain k \<longrightarrow> j \<in> set marks) \<and>
       (\<forall>c \<in> candles_in ops chain (ledger_range lo hi). oc_minute c = bf_minute chain k \<longrightarrow> c \<in> set rows)) \<and>
    inj_on candle_key (set rows)"
proof -
  have "stored ops chain (ledger_range lo hi) marks rows"
    by (rule backfilled_stored [OF assms])
  moreover have "inj_on candle_key (candles_in ops chain (ledger_range lo hi))"
    unfolding candles_in_def by (rule candles_of_inj)
  ultimately show ?thesis
    unfolding stored_def by (blast intro: inj_on_subset)
qed

theorem backfill_resumes_witness:
  "\<exists>res. execute (sample_bf_env (\<lambda>t e. if bf_rows t = [] then None else Some ''down'')) sample_loaded sample_plan = Some res \<and>
    set (bf_rows (trace_of res)) \<subseteq> candles_in exact_ops (\<lambda>k. sample_feed (ucast k)) [1, 2] \<and>
    set (bf_marks (trace_of res)) \<subseteq> {1, 2}"
proof -
  let ?env = "sample_bf_env (\<lambda>t e. if bf_rows t = [] then None else Some ''down'')"
  have small: "pl_end sample_plan < last_partition"
    by (simp add: sample_plan_def last_partition_def)
  then obtain res where run: "execute ?env sample_loaded sample_plan = Some res"
    using execute_total by fast
  have "backfilled exact_ops (\<lambda>k. sample_feed (ucast k)) 1 2 ([] @ bf_marks (trace_of res)) ([] @ bf_rows (trace_of res))"
    by (rule backfill_run [OF backfill_start run sample_archive]) (simp_all add: sample_plan_def sample_loaded_def)
  from backfill_resumes [OF exact_ops_laws sample_in_order _ this] show ?thesis
    using run by (auto simp: last_partition_def sample_range)
qed

end
