(* ===== verification/Backfill_Returns.thy ===== *)
theory Backfill_Returns
  imports Backfill_Store
begin

text \<open>
  An order-book backfill that nothing disturbs returns: no write, read or sync fails, no ledger panics, and no
  pool is left unresolved.
\<close>

section \<open>Programs that do not fail\<close>

definition quiet :: "(u32 \<Rightarrow> ledger_close_meta) \<Rightarrow> bf_env \<Rightarrow> bool" where
  "quiet chain env \<longleftrightarrow> (\<forall>t e. bf_failure env t e = None) \<and> (\<forall>seq. bf_load env seq = Some (Inr [chain seq]))"

definition undisturbed :: "(u32 \<Rightarrow> ledger_close_meta) \<Rightarrow> bf_env \<Rightarrow> bool" where
  "undisturbed chain env \<longleftrightarrow> quiet chain env \<and> (\<forall>p. bf_sync env p = Inr True)"

text \<open>From any state with no unresolved pool noted the program returns such a state.\<close>

abbreviation unflagged :: "bf_state \<Rightarrow> bool" where
  "unflagged st \<equiv> st_unresolved (bs_stats st) = []"

abbreviation returns :: "bf_prog \<Rightarrow> bool" where
  "returns p \<equiv> valid (\<lambda>_. False) unflagged p unflagged"

lemma valid_returns:
  assumes "valid (\<lambda>_. False) P p Q" and "P st"
  obtains r where "p st = Inr r" "Q r"
  using assms by (cases "p st") (auto simp: valid_def)

lemma returns_emit: "quiet chain env \<Longrightarrow> returns (emit env e)"
  by (simp add: valid_def emit_def quiet_def)

lemma returns_skip: "(\<And>st. bs_stats (f st) = bs_stats st) \<Longrightarrow> returns (\<lambda>st. Inr (f st))"
  by (rule valid_skip) simp

lemma returns_fold: "(\<And>x. x \<in> set xs \<Longrightarrow> returns (f x)) \<Longrightarrow> returns (fold_res f xs)"
  by (rule valid_fold [where I = "\<lambda>_. unflagged"]) simp

lemma returns_after: "returns p \<Longrightarrow> (\<And>st. bs_stats (f st) = bs_stats st) \<Longrightarrow> returns (\<lambda>st. p (f st))"
  by (simp add: valid_def)

lemma returns_state: "(\<And>x. returns (p x)) \<Longrightarrow> returns (\<lambda>st. p (f st) st)"
  by (simp add: valid_def)

lemma note_candles_unresolved [simp]: "st_unresolved (note_candles candles source stats) = st_unresolved stats"
  by (simp add: note_candles_def Let_def)

lemma returns_persist:
  assumes "quiet chain env"
  shows "returns (persist_new_assets env)"
  using assms by (auto simp: valid_def persist_new_assets_def emit_def quiet_def)

lemma returns_candles:
  assumes "quiet chain env"
  shows "returns (write_candles_after_assets env batches)"
proof -
  have "returns (write_batch env b)" for b
    using assms by (cases b) (simp add: valid_def write_batch_def emit_def quiet_def)
  then have "returns (\<lambda>st. rbind (persist_new_assets env st) (fold_res (write_batch env) batches))"
    by (intro valid_bind [OF returns_persist [OF assms]] returns_fold)
  moreover have "write_candles_after_assets env batches = (if batches = [] then (\<lambda>st. Inr st)
      else (\<lambda>st. rbind (persist_new_assets env st) (fold_res (write_batch env) batches)))"
    by (auto simp: write_candles_after_assets_def)
  ultimately show ?thesis
    using returns_skip [of "\<lambda>st. st"] by simp
qed

lemma returns_markers: "quiet chain env \<Longrightarrow> returns (write_completed_ledgers env seqs)"
  by (simp add: valid_def write_completed_ledgers_def emit_def quiet_def)

lemma returns_oracle:
  assumes "quiet chain env"
  shows "returns (write_oracle_buffer env)"
  unfolding write_oracle_buffer_def
  by (rule valid_bind [OF returns_persist [OF assms]]) (rule returns_state [OF returns_emit [OF assms]])

lemma returns_report:
  assumes "quiet chain env"
  shows "returns (report_progress env plan obs phase)"
  unfolding report_progress_def by (intro returns_fold returns_emit [OF assms])

section \<open>Indexing\<close>

lemma merge_trades_return:
  assumes "\<And>trade. trade \<in> set trades \<Longrightarrow> sdex_tick ops trade \<noteq> None"
  shows "fold_opt (merge_trade env ops) trades (assets, sdex) \<noteq> None"
  using assms
proof (induction trades arbitrary: assets sdex)
  case (Cons trade trades)
  obtain t where "sdex_tick ops trade = Some t"
    using Cons.prems by fastforce
  then show ?case
    using Cons.IH Cons.prems by (simp add: merge_trade_alt)
qed simp

lemma fill_tick:
  assumes "dec_laws ops" and "f \<in> set (ledger_fills ledger)"
  shows "sdex_tick ops (fst f) \<noteq> None"
proof -
  have nz: "rt_amount_sold (fst f) \<noteq> 0" "rt_amount_bought (fst f) \<noteq> 0"
    using ledger_fills_nonzero [OF assms(2)] by simp_all
  have "fill_price ops (fst f) inverted \<noteq> None" for inverted
    by (rule fill_price_total [OF assms(1) nz, of inverted]) simp
  then show ?thesis
    by (simp add: sdex_tick_def Let_def)
qed

lemma returns_trades:
  assumes "dec_laws (bf_ops env)"
  shows "returns (index_trades env ledger)"
  unfolding valid_def
proof (intro allI impI)
  fix st
  assume "unflagged st"
  let ?trades = "fst (extract_trades ledger counts_default)"
  have "fold_opt (merge_trade (bf_asset_env env) (bf_ops env)) ?trades (bs_assets st, ba_sdex (bs_accs st)) \<noteq> None"
    using fill_tick [OF assms] by (intro merge_trades_return) (auto simp: extract_trades_fills)
  then obtain assets sdex where
      "fold_opt (merge_trade (bf_asset_env env) (bf_ops env)) ?trades (bs_assets st, ba_sdex (bs_accs st)) = Some (assets, sdex)"
    by auto
  then show "case index_trades env ledger st of Inl e \<Rightarrow> False | Inr st' \<Rightarrow> unflagged st'"
    using \<open>unflagged st\<close> by (simp add: index_trades_def Let_def)
qed

lemma returns_closed:
  assumes "quiet chain env"
  shows "returns (write_closed_minutes env m)"
proof -
  have "returns (\<lambda>st. write_candles_after_assets env (fst (drain_closed env m (bs_accs st)))
      (st\<lparr>bs_last_minute := m, bs_accs := snd (drain_closed env m (bs_accs st))\<rparr>))"
    using returns_candles [OF assms] by (simp add: valid_def)
  then show ?thesis
    by (simp add: write_closed_minutes_def [abs_def] case_prod_beta' Let_def)
qed

lemma returns_ledger:
  assumes "dec_laws (bf_ops env)" and "quiet chain env"
  shows "returns (index_ledger env SdexOnly ledger)"
proof -
  have flush: "returns (\<lambda>st. if oracle_flush_threshold \<le> length (bs_oracle st)
      then rbind (write_oracle_buffer env st) (\<lambda>st. Inr (st\<lparr>bs_oracle := []\<rparr>)) else Inr st)"
  proof (rule valid_if)
    have "returns (\<lambda>st. rbind (write_oracle_buffer env st) (\<lambda>st. Inr (st\<lparr>bs_oracle := []\<rparr>)))"
      by (intro valid_bind [OF returns_oracle [OF assms(2)]] returns_skip) simp
    then show "valid (\<lambda>_. False) (\<lambda>st. unflagged st \<and> oracle_flush_threshold \<le> length (bs_oracle st))
        (\<lambda>st. rbind (write_oracle_buffer env st) (\<lambda>st. Inr (st\<lparr>bs_oracle := []\<rparr>))) unflagged"
      by (rule valid_conseq) simp_all
  qed (simp add: valid_def)
  have "returns (\<lambda>st. rbind (index_trades env ledger st) (\<lambda>st. rbind (write_closed_minutes env (ledger_minute ledger) st) (\<lambda>st.
      if oracle_flush_threshold \<le> length (bs_oracle st)
      then rbind (write_oracle_buffer env st) (\<lambda>st. Inr (st\<lparr>bs_oracle := []\<rparr>)) else Inr st)))"
    by (intro valid_bind [OF returns_trades [OF assms(1)]] valid_bind [OF returns_closed [OF assms(2)]] flush)
  then show ?thesis
    by (simp add: index_ledger_def [abs_def])
qed

lemma returns_seq:
  assumes "dec_laws (bf_ops env)" and "quiet chain env"
  shows "returns (index_seq env SdexOnly completed seq)"
proof (cases "seq \<in> set completed")
  case True
  then show ?thesis
    by (simp add: valid_def index_seq_def note_skipped_def)
next
  case False
  have "returns (\<lambda>st. rbind (fold_res (index_ledger env SdexOnly) [chain seq] st) (\<lambda>st. Inr (note_indexed seq st)))"
    by (intro valid_bind [where Q = unflagged] returns_fold returns_ledger [OF assms] valid_skip) (simp add: note_indexed_def)
  moreover have "index_seq env SdexOnly completed seq =
      (\<lambda>st. rbind (fold_res (index_ledger env SdexOnly) [chain seq] st) (\<lambda>st. Inr (note_indexed seq st)))"
    using False assms(2) by (auto simp: index_seq_def quiet_def)
  ultimately show ?thesis by simp
qed

lemma returns_finish:
  assumes "quiet chain env"
  shows "returns (finish_partition env pe)"
proof -
  have buffered: "returns (\<lambda>st. if bs_oracle st = [] then Inr st else write_oracle_buffer env st)"
    using returns_oracle [OF assms] by (auto simp: valid_def)
  have markers: "returns (\<lambda>st. let (due, accs) = due_markers pe (bs_ledgers st) (bs_accs st)
      in write_completed_ledgers env due (st\<lparr>bs_accs := accs\<rparr>))"
    using returns_markers [OF assms] by (auto simp: valid_def split: prod.splits)
  note rest = valid_bind [OF buffered markers]
  have "returns (\<lambda>st. rbind (write_candles_after_assets env batches st) (\<lambda>st.
      rbind (if bs_oracle st = [] then Inr st else write_oracle_buffer env st) (\<lambda>st.
        let (due, accs) = due_markers pe (bs_ledgers st) (bs_accs st)
        in write_completed_ledgers env due (st\<lparr>bs_accs := accs\<rparr>))))" for batches
    by (rule valid_bind [OF returns_candles [OF assms] rest])
  then show ?thesis
    by (simp add: valid_def finish_partition_def split: prod.split)
qed

lemma returns_partition:
  assumes "dec_laws (bf_ops env)" and "quiet chain env"
  shows "valid (\<lambda>_. False) (\<lambda>_. True) (index_partition env p lo hi completed SdexOnly pe) unflagged"
proof -
  let ?start = "\<lambda>st. st\<lparr>bs_stats := stats_default, bs_oracle := [], bs_ledgers := [], bs_last_minute := 0\<rparr>"
  have start: "valid (\<lambda>_. False) (\<lambda>_. True) (\<lambda>st. Inr (?start st)) unflagged"
    by (rule valid_skip) (simp add: stats_default_def)
  have loop: "returns (fold_res (index_seq env SdexOnly completed) (partition_ledgers lo hi p))"
    by (intro returns_fold returns_seq [OF assms])
  show ?thesis
    using valid_bind [OF start valid_bind [OF loop returns_finish [OF assms(2)]]]
    by (simp add: index_partition_def [abs_def])
qed

section \<open>The run\<close>

abbreviation unflagged_run :: "bf_run \<Rightarrow> bool" where
  "unflagged_run r \<equiv> st_unresolved (br_totals r) = []"

lemma returns_process_partition:
  assumes "dec_laws (bf_ops env)" and "quiet chain env" and "pl_mode plan = SdexOnly"
  shows "valid (\<lambda>_. False) unflagged_run (process_partition env plan completed pe p) unflagged_run"
  unfolding valid_def
proof (intro allI impI)
  fix r :: bf_run
  assume r: "unflagged_run r"
  let ?index = "index_partition env p (pl_start plan) (pl_end plan) completed SdexOnly pe"
  note index = returns_partition [OF assms(1,2), where p = p and lo = "pl_start plan" and hi = "pl_end plan"
      and completed = completed and pe = pe]
  obtain st where st: "?index (br_state r) = Inr st" "unflagged st"
    by (rule valid_returns [OF index TrueI])
  define totals where "totals = add_stats (br_totals r) (bs_stats st)"
  define highest where "highest = max (br_highest r) (snd (clamped p (pl_start plan) (pl_end plan)))"
  let ?report = "report_progress env plan (observe highest totals) PhaseRunning st"
  obtain st' where "?report = Inr st'"
    by (rule valid_returns [OF returns_report [OF assms(2)] st(2)])
  then show "case process_partition env plan completed pe p r of Inl e \<Rightarrow> False | Inr r' \<Rightarrow> unflagged_run r'"
    using r st by (auto simp: process_partition_def assms(3) Let_def add_stats_def simp flip: totals_def highest_def)
      (simp add: totals_def add_stats_def)
qed

lemma returns_process_partitions:
  assumes "dec_laws (bf_ops env)" and "undisturbed chain env" and "pl_mode plan = SdexOnly"
  shows "valid (\<lambda>_. False) unflagged_run (process_partitions env plan completed len i True parts) unflagged_run"
proof (induction parts arbitrary: i)
  case Nil
  then show ?case by (simp add: valid_def)
next
  case (Cons p parts)
  have sync: "bf_sync env q = Inr True" for q
    using assms(2) by (simp add: undisturbed_def)
  have quiet: "quiet chain env"
    using assms(2) by (simp add: undisturbed_def)
  note one = returns_process_partition [OF assms(1) quiet assms(3)]
  show ?case
  proof (cases parts)
    case Nil
    have "valid (\<lambda>_. False) unflagged_run (\<lambda>r. rbind (process_partition env plan completed (partition_end_of i len) p r) Inr) unflagged_run"
      by (rule valid_bind [OF one]) (simp add: valid_def)
    then show ?thesis
      by (simp add: Nil valid_def)
  next
    case parts: (Cons q qs)
    have "valid (\<lambda>_. False) unflagged_run (\<lambda>r. rbind (process_partition env plan completed (partition_end_of i len) p r)
        (process_partitions env plan completed len (i + 1) True parts)) unflagged_run"
      by (rule valid_bind [OF one Cons.IH])
    then show ?thesis
      by (simp add: parts sync valid_def del: process_partitions.simps(2)
          add: process_partitions.simps(2) [of env plan completed len i True p "q # qs"])
  qed
qed

lemma returns_flush:
  assumes "quiet chain env"
  shows "returns (flush_open_minutes env)"
proof -
  have "returns (\<lambda>st. let (due, accs) = take_held_markers (bs_accs st) in write_completed_ledgers env due (st\<lparr>bs_accs := accs\<rparr>))"
    using returns_markers [OF assms] by (simp add: valid_def take_held_markers_def)
  from valid_bind [OF returns_candles [OF assms] this] show ?thesis
    by (simp add: valid_def flush_open_minutes_def split: prod.split)
qed

lemma returns_backfill:
  assumes "quiet chain env" and "unflagged_run r"
  shows "\<exists>t. finish_backfill env plan r = Inr t"
proof -
  have pools: "returns (\<lambda>st. emit env (BfPools (to_pool_rows (bf_hex env) (bs_registries st))) st)"
    using returns_emit [OF assms(1)] by (simp add: valid_def)
  let ?start = "rbind (flush_open_minutes env ((br_state r)\<lparr>bs_stats := br_totals r\<rparr>)) (\<lambda>st.
      rbind (persist_new_assets env st) (\<lambda>st. emit env (BfPools (to_pool_rows (bf_hex env) (bs_registries st))) st))"
  note start = valid_bind [OF returns_flush [OF assms(1)] valid_bind [OF returns_persist [OF assms(1)] pools]]
  obtain st where "?start = Inr st" "unflagged st"
    by (rule valid_returns [OF start, of "(br_state r)\<lparr>bs_stats := br_totals r\<rparr>"]) (use assms(2) in simp_all)
  then obtain st1 st2 st where run: "flush_open_minutes env ((br_state r)\<lparr>bs_stats := br_totals r\<rparr>) = Inr st1"
      "persist_new_assets env st1 = Inr st2" "emit env (BfPools (to_pool_rows (bf_hex env) (bs_registries st2))) st2 = Inr st"
      "unflagged st"
    unfolding rbind_eq_Inr by blast
  let ?report = "report_progress env plan (observe (br_highest r) (bs_stats st)) PhaseCompleted st"
  obtain st' where "?report = Inr st'"
    by (rule valid_returns [OF returns_report [OF assms(1)] run(4)])
  then show ?thesis
    using run by (auto simp: finish_backfill_def Let_def aggregate_unresolved_def aggregate_as_def genuine_gaps_def)
qed

lemma undisturbed_returns:
  assumes "dec_laws (bf_ops env)" and "undisturbed chain env" and "pl_mode plan = SdexOnly"
    and "pl_start plan \<le> pl_end plan" and "pl_end plan < last_partition"
    and "ld_completed loaded = Inr completed" and "ld_assets loaded = Inr assets" and "ld_registries loaded = Inr registries"
  shows "\<exists>trace. execute env loaded plan = Some (Inr trace)"
proof -
  obtain parts where parts: "partitions_for_range (pl_start plan) (pl_end plan) = Some parts"
    using partitions_cover [OF assms(5)] by blast
  define todo where "todo = filter (\<lambda>p. \<not> partition_fully_done p (pl_start plan) (pl_end plan) completed) parts"
  let ?run = "process_partitions env plan completed (length todo) 0 True todo (run_new env assets registries)"
  have "unflagged_run (run_new env assets registries)"
    by (simp add: run_new_def stats_default_def)
  then obtain r where "?run = Inr r" "unflagged_run r"
    by (rule valid_returns [OF returns_process_partitions [OF assms(1-3)]])
  then obtain t where "?run = Inr r" "finish_backfill env plan r = Inr t"
    using returns_backfill assms(2) unfolding undisturbed_def by blast
  moreover have "bf_sync env q = Inr True" for q
    using assms(2) by (simp add: undisturbed_def)
  ultimately show ?thesis
    using assms(4,6-8) parts
    by (simp add: execute_def read_sink_def Let_def not_less [symmetric] flip: todo_def)
qed

text \<open>
  C4: An order-book backfill of a valid range whose reads, syncs and writes all succeed returns without an
  error: the loop over partitions ends, no ledger panics, and no pool is left unresolved.
\<close>

theorem undisturbed_backfill_returns:
  assumes "dec_laws (bf_ops env)" and "undisturbed chain env" and "pl_mode plan = SdexOnly"
    and "pl_start plan \<le> pl_end plan" and "pl_end plan < last_partition"
    and "ld_completed loaded = Inr completed" and "ld_assets loaded = Inr assets" and "ld_registries loaded = Inr registries"
  shows "\<exists>trace. execute env loaded plan = Some (Inr trace)"
  by (rule undisturbed_returns [OF assms])

lemma sample_undisturbed: "undisturbed (\<lambda>k. sample_feed (ucast k)) (sample_bf_env (\<lambda>_ _. None))"
  by (simp add: undisturbed_def quiet_def sample_bf_env_def)

theorem undisturbed_backfill_returns_witness:
  "\<exists>trace. execute (sample_bf_env (\<lambda>_ _. None)) sample_loaded sample_plan = Some (Inr trace)"
proof -
  have "dec_laws (bf_ops (sample_bf_env (\<lambda>_ _. None)))"
    by (simp add: sample_bf_env_def exact_ops_laws)
  from undisturbed_backfill_returns [OF this sample_undisturbed] show ?thesis
    by (simp add: sample_plan_def sample_loaded_def last_partition_def)
qed

text \<open>
  C3: A backfill run that returns, after any interrupted runs before it, leaves the store at its specification:
  every ledger of the range carries a marker, and the order-book candles written are exactly those of all
  ledgers of the range. Assumed: close times do not go back, what the archive serves for a ledger is that
  ledger, no partition is found short of files, which the code skips without failing, the range ends before the
  last partition of 32 bits, and the last run could read the stored markers.
\<close>

theorem backfill_completes:
  assumes "dec_laws ops" and "in_order chain (ledger_range lo hi)" and "hi < last_partition"
    and "backfilled ops chain lo hi marks rows" and "whole_archive ops chain env" and "pl_start plan = lo" and "pl_end plan = hi"
    and "ld_completed loaded = Inr seqs" and "set seqs = set marks" and "execute env loaded plan = Some (Inr trace)"
  shows "set (marks @ bf_marks trace) = set (ledger_range lo hi) \<and>
    set (rows @ bf_rows trace) = candles_in ops chain (ledger_range lo hi)"
proof -
  let ?range = "ledger_range lo hi"
  let ?us = "todo_of marks ?range"
  have "pl_end plan < last_partition" "in_order chain (ledger_range (pl_start plan) (pl_end plan))"
    "?us = todo_of marks (ledger_range (pl_start plan) (pl_end plan))"
    "isl (ld_completed loaded) \<or> (\<exists>seqs. ld_completed loaded = Inr seqs \<and> set seqs = set marks)"
    using assms(2,3,6-9) by auto
  note run = execute_feed [OF assms(1,5) this(1,2,4,3)]
  have now: "set (bf_rows trace) = candles_in ops chain ?us" "set (bf_marks trace) = set ?us"
    using run assms(10) by (auto simp: finished_def)
  have before: "stored ops chain ?range marks rows"
    by (rule backfilled_stored [OF assms(1-4)])
  have todo: "candles_in ops chain ?us = {c \<in> candles_in ops chain ?range. oc_minute c \<notin> bf_minute chain ` set marks}"
    unfolding todo_by_minute [OF before]
    by (rule candles_in_filter [OF assms(1), where q = "\<lambda>m. m \<notin> bf_minute chain ` set marks"])
  show ?thesis
    using before now todo by (auto simp: stored_def)
qed

theorem backfill_completes_witness:
  "\<exists>trace. execute (sample_bf_env (\<lambda>_ _. None)) sample_loaded sample_plan = Some (Inr trace) \<and>
    set (bf_marks trace) = {1, 2} \<and> set (bf_rows trace) = candles_in exact_ops (\<lambda>k. sample_feed (ucast k)) [1, 2]"
proof -
  have "dec_laws (bf_ops (sample_bf_env (\<lambda>_ _. None)))"
    by (simp add: sample_bf_env_def exact_ops_laws)
  from undisturbed_returns [OF this sample_undisturbed]
  have "\<exists>trace. execute (sample_bf_env (\<lambda>_ _. None)) sample_loaded sample_plan = Some (Inr trace)"
    by (simp add: sample_plan_def sample_loaded_def last_partition_def)
  then obtain trace where run: "execute (sample_bf_env (\<lambda>_ _. None)) sample_loaded sample_plan = Some (Inr trace)"
    by blast
  have "set ([] @ bf_marks trace) = set (ledger_range 1 2) \<and>
      set ([] @ bf_rows trace) = candles_in exact_ops (\<lambda>k. sample_feed (ucast k)) (ledger_range 1 2)"
    by (rule backfill_completes [OF exact_ops_laws sample_in_order _ backfill_start sample_archive _ _ _ _ run])
      (simp_all add: sample_plan_def sample_loaded_def last_partition_def)
  then show ?thesis
    using run by (simp add: sample_range)
qed

end
