(* ===== verification/Backfill_Gap.thy ===== *)
theory Backfill_Gap
  imports Backfill_Returns
begin

text \<open>
  A partition that is short of files in S3 is skipped. What the run reports afterwards.
\<close>

lemma emits_progress:
  assumes "fold_res (\<lambda>u. emit env (BfProgress u)) us st = Inr st'"
  shows "bs_trace st' = bs_trace st @ map BfProgress us"
  using assms
proof (induction us arbitrary: st)
  case (Cons u us)
  obtain st1 where "emit env (BfProgress u) st = Inr st1" "fold_res (\<lambda>u. emit env (BfProgress u)) us st1 = Inr st'"
    using Cons.prems by auto
  moreover from this(1) have "bs_trace st1 = bs_trace st @ [BfProgress u]"
    by (auto simp: emit_def fail_def split: option.splits)
  ultimately show ?case
    using Cons.IH by simp
qed simp

lemma finish_reports:
  assumes "finish_backfill env plan r = Inr t"
  obtains pre totals where "t = pre @ map BfProgress (progress_updates (pl_mode plan) (pl_start plan) (pl_tip plan)
    (pl_activation plan) (observe (br_highest r) totals) PhaseCompleted)"
proof -
  obtain st totals st' where "report_progress env plan (observe (br_highest r) totals) PhaseCompleted st = Inr st'" "t = bs_trace st'"
    using assms by (auto simp: finish_backfill_def Let_def rbind_eq_Inr split: if_splits)
  then show thesis
    using that emits_progress unfolding report_progress_def by metis
qed

lemma their_bounds [simp]:
  "pt_start (from_ledger 1) = 0" "pt_end (from_ledger 1) = 63999"
  "pt_start (from_ledger 64000) = 64000" "pt_end (from_ledger 64000) = 127999"
  by (simp_all add: from_ledger_def partition_size_def Let_def)

lemma two_partitions: "partitions_for_range 1 64000 = Some [from_ledger 1, from_ledger 64000]"
  by (simp add: partitions_for_range_def partitions_from.simps [of 1] partitions_from.simps [of 64000]
      partitions_from.simps [of 128000] Let_def)

lemma their_ledgers:
  "1 \<in> set (partition_ledgers 1 64000 (from_ledger 1))" "partition_ledgers 1 64000 (from_ledger 64000) = [64000]"
  by (simp_all add: partition_ledgers_def clamped_def ledger_range_set) (simp add: ledger_range_def upt_rec)

text \<open>
  C5: A partition short of files in S3 is skipped, yet the run reports the archive completed down to ledger 1:
  on the range 1 to 64000 with the first partition short, only ledger 64000 is indexed and marked, and the run
  returns with a progress report of status completed and floor 1.
\<close>

theorem skipped_partition_completes_the_archive:
  assumes "dec_laws ops" and "archive ops chain env" and "quiet chain env"
    and "\<And>p. bf_sync env p = Inr (pt_start p \<noteq> 0)"
    and "ld_completed loaded = Inr []" and "ld_assets loaded = Inr assets" and "ld_registries loaded = Inr registries"
    and "plan = \<lparr>pl_start = 1, pl_end = 64000, pl_mode = SdexOnly, pl_activation = 64001, pl_tip = tip\<rparr>"
  shows "\<exists>trace u. execute env loaded plan = Some (Inr trace) \<and> set (bf_marks trace) = {64000} \<and>
    set (bf_rows trace) = candles_in ops chain [64000] \<and>
    BfProgress u \<in> set trace \<and> pu_task_name u = sdex_archive \<and> pu_status u = Completed \<and> pu_current_ledger u = SetBackward 1"
proof -
  let ?p = "from_ledger 64000"
  have ops: "dec_laws (bf_ops env)" "mset (bf_source_iter env m) = mset m" for m
    using assms(1,2) by (simp_all add: archive_def)
  have plan: "pl_start plan = 1" "pl_end plan = 64000" "pl_mode plan = SdexOnly" "pl_activation plan = 64001" "pl_tip plan = tip"
    by (simp_all add: assms(8))
  let ?r0 = "run_new env assets registries"
  let ?us = "[64000] :: u32 list"
  have ordered: "in_order chain ?us"
    by (simp add: in_order_def)
  have split: "?us = [] @ todo_of [] (partition_ledgers (pl_start plan) (pl_end plan) ?p) @ []"
    by (simp add: plan their_ledgers)
  have one: "unflagged_run ?r0"
    by (simp add: run_new_def stats_default_def)
  have step: "partition_end_of (Suc 0) (Suc (Suc 0)) = Drain"
    by (simp add: partition_end_of_def)
  obtain r where r: "process_partition env plan [] Drain ?p ?r0 = Inr r" "unflagged_run r"
    using one by (rule valid_returns [OF returns_process_partition [OF ops(1) assms(3) plan(3)]])
  have "after_partition ops chain ?us Drain ([] @ todo_of [] (partition_ledgers (pl_start plan) (pl_end plan) ?p)) (br_state r)"
    by (rule validD [OF process_partition_valid [OF assms(1,2) ordered split] _ r(1)]) (simp_all add: run_new_between)
  then have drained: "drained ops chain ?us (br_state r)"
    by (simp add: after_partition_def)
  have highest: "br_highest r = 64000"
    using r(1) by (auto simp: process_partition_def Let_def rbind_eq_Inr plan clamped_def run_new_def)
  obtain t where t: "finish_backfill env plan r = Inr t"
    using returns_backfill [OF assms(3) r(2)] by blast
  have "finished ops chain ?us t"
    using finish_backfill_feed [OF ops(2) drained, of plan] t by simp
  moreover obtain pre totals where trace: "t = pre @ map BfProgress (progress_updates SdexOnly 1 tip 64001 (observe 64000 totals) PhaseCompleted)"
    using finish_reports [OF t] unfolding plan highest by blast
  define u where "u = hd (progress_updates SdexOnly 1 tip 64001 (observe 64000 totals) PhaseCompleted)"
  have u: "BfProgress u \<in> set t" "pu_task_name u = sdex_archive" "pu_status u = Completed" "pu_current_ledger u = SetBackward 1"
    by (simp_all add: u_def trace progress_updates_def sdex_only_updates_def observe_def Let_def)
  have todo: "\<not> partition_fully_done (from_ledger 1) 1 64000 []" "\<not> partition_fully_done ?p 1 64000 []"
    using their_ledgers by (auto simp: partition_fully_done_def list_all_iff)
  have "execute env loaded plan = Some (Inr t)"
    using r(1) t todo assms(4-7) by (simp add: execute_def plan two_partitions read_sink_def step)
  ultimately show ?thesis
    using u by (auto simp: finished_def)
qed

theorem skipped_partition_completes_the_archive_witness:
  "\<exists>env loaded trace u. execute env loaded \<lparr>pl_start = 1, pl_end = 64000, pl_mode = SdexOnly, pl_activation = 64001,
      pl_tip = 70000\<rparr> = Some (Inr trace) \<and> set (bf_marks trace) = {64000} \<and>
    BfProgress u \<in> set trace \<and> pu_status u = Completed \<and> pu_current_ledger u = SetBackward 1"
proof -
  let ?env = "(sample_bf_env (\<lambda>_ _. None))\<lparr>bf_sync := \<lambda>p. Inr (pt_start p \<noteq> 0)\<rparr>"
  let ?chain = "\<lambda>k. sample_feed (ucast k)"
  have env: "archive exact_ops ?chain ?env" "quiet ?chain ?env" "bf_sync ?env p = Inr (pt_start p \<noteq> 0)" for p
    by (simp_all add: archive_def quiet_def sample_bf_env_def)
  have loaded: "ld_completed sample_loaded = Inr []" "ld_assets sample_loaded = Inr []"
      "ld_registries sample_loaded = Inr registries_new"
    by (simp_all add: sample_loaded_def)
  show ?thesis
    using skipped_partition_completes_the_archive [OF exact_ops_laws env loaded refl, of 70000] by blast
qed

end
