(* ===== verification/Reprice.thy ===== *)
theory Reprice
  imports Backfill_Run
begin

text \<open>
  The repricing of the contract pools from stored events (\<open>events-backfill/src/run.rs\<close>): the range is walked in
  chunks, the rows of a chunk are cut into ledgers, each ledger goes through the store seam, its ticks are merged
  into accumulators that live for the whole run, and closed minutes are written at the end of a chunk. The
  discovery of pools (\<open>discover.rs\<close>) walks the same chunks. The event store, the JSON parser and the outcome of
  each write are parameters.
\<close>

section \<open>The outside\<close>

record stored_event =
  sv_contract_id :: i64
  sv_transaction_id :: i64
  sv_ledger_sequence :: u32
  sv_operation_index :: u16
  sv_event_index :: u32
  sv_closed_at :: i64
  sv_topics_xdr :: string
  sv_data_xdr :: string
  sv_application_order :: "16 word"

record factory_event =
  fv_ledger_sequence :: u32
  fv_topics_xdr :: string
  fv_data_xdr :: string

datatype rp_effect =
  RpAssets "asset_identity list"
| RpCandles "candle list" string
| RpUnresolved "unresolved_pool list"
| RpPools "pool_row list"

datatype rp_error =
  RpStore string
| InvalidRange u32 u32
| InvalidChunkSize
| EmptyPoolRegistry
| NoResolvedContracts nat
| RpPanic

text \<open>A stream answers rows until it ends or fails.\<close>

record rp_env =
  rp_asset_env :: asset_env
  rp_ops :: dec_ops
  rp_hex :: "u8 list \<Rightarrow> string"
  rp_group_iter :: "(string, event_row list) hmap \<Rightarrow> (string \<times> event_row list) list"
  rp_acc_keys :: "(string, accumulator) hmap \<Rightarrow> string list"
  rp_buffer_keys :: "(string, candle list) hmap \<Rightarrow> string list"
  rp_parse :: "string \<Rightarrow> json option"
  rp_load_assets :: "(string, asset_identity list) result"
  rp_load_pools :: "(string, registries) result"
  rp_resolve :: "string list \<Rightarrow> (string, (i64, string) hmap) result"
  rp_stream :: "i64 list \<Rightarrow> u32 \<Rightarrow> u32 \<Rightarrow> stored_event list \<times> string option"
  rp_factory_stream :: "u32 \<Rightarrow> u32 \<Rightarrow> factory_event list \<times> string option"
  rp_failure :: "rp_effect list \<Rightarrow> rp_effect \<Rightarrow> string option"

record rp_cli =
  cl_start :: u32
  cl_end :: u32
  cl_chunk_size :: u32
  cl_dry_run :: bool

section \<open>State\<close>

text \<open>The variables of a run, of which the last seven are those of the chunk being streamed.\<close>

record rp_state =
  rs_assets :: asset_registry
  rs_registries :: registries
  rs_accs :: "(string, accumulator) hmap"
  rs_buffers :: "(string, candle list) hmap"
  rs_ticks :: "(string, u64) hmap"
  rs_failed :: "(string, u64) hmap"
  rs_unresolved :: "unresolved_swap list"
  rs_total_events :: u64
  rs_total_candles :: u64
  rs_ledgers_missing :: u64
  rs_events_missing :: u64
  rs_fallbacks :: u64
  rs_trace :: "rp_effect list"
  rs_ledger :: "u32 option"
  rs_closed_at :: i64
  rs_missing :: bool
  rs_events :: "raw_soroban_event list"
  rs_last_key :: "(i64 \<times> i64 \<times> u16 \<times> u32) option"

type_synonym rp_prog = "rp_state \<Rightarrow> (rp_error \<times> rp_effect list, rp_state) result"

definition rp_fail :: "rp_error \<Rightarrow> rp_prog" where
  "rp_fail e st = Inl (e, rs_trace st)"

definition rp_emit :: "rp_env \<Rightarrow> rp_effect \<Rightarrow> rp_prog" where
  "rp_emit env e st =
     (case rp_failure env (rs_trace st) e of
        Some message \<Rightarrow> rp_fail (RpStore message) st
      | None \<Rightarrow> Inr (st\<lparr>rs_trace := rs_trace st @ [e]\<rparr>))"

section \<open>One ledger\<close>

definition entry :: "'b \<Rightarrow> 'a \<Rightarrow> ('a, 'b) hmap \<Rightarrow> 'b" where
  "entry fresh k m = (case map_of m k of Some x \<Rightarrow> x | None \<Rightarrow> fresh)"

text \<open>The closed candles of one source go from its accumulator to its buffer.\<close>

definition flush_source :: "rp_env \<Rightarrow> u32 \<Rightarrow> string \<Rightarrow> rp_state \<Rightarrow> rp_state" where
  "flush_source env minute source st =
     (let (candles, acc) = flush_older_than (rp_ops env) minute (entry accumulator_new source (rs_accs st));
          st = st\<lparr>rs_accs := AList.update source acc (rs_accs st)\<rparr>
      in if candles = [] then st
         else st\<lparr>rs_buffers := AList.update source (entry [] source (rs_buffers st) @ candles) (rs_buffers st)\<rparr>)"

definition count_tick :: "string \<times> trade_tick \<Rightarrow> (string, u64) hmap \<Rightarrow> (string, u64) hmap" where
  "count_tick = (\<lambda>(source, _) m. AList.update source (entry 0 source m + 1) m)"

definition count_failed :: "string \<times> u32 \<Rightarrow> (string, u64) hmap \<Rightarrow> (string, u64) hmap" where
  "count_failed = (\<lambda>(source, swaps) m. AList.update source (entry 0 source m + ucast swaps) m)"

text \<open>\<open>accumulate_ledger\<close>; \<open>None\<close> is a panic.\<close>

definition accumulate_ledger :: "rp_env \<Rightarrow> u32 \<Rightarrow> i64 \<Rightarrow> raw_soroban_event list \<Rightarrow> rp_state \<Rightarrow> rp_state option" where
  "accumulate_ledger env ledger closed_at events st =
     map_option (\<lambda>so.
       let sob = ss_out so;
           st = st\<lparr>rs_assets := ss_assets so, rs_registries := ss_registries so,
             rs_accs := fold merge_amm (ls_amm_ticks sob) (rs_accs st),
             rs_ticks := fold count_tick (ls_amm_ticks sob) (rs_ticks st),
             rs_failed := fold count_failed (ls_dispatch_errors sob) (rs_failed st),
             rs_unresolved := rs_unresolved st @ ls_unresolved sob\<rparr>;
           current_minute = (ucast closed_at div 60) * 60
       in fold (flush_source env current_minute) (rp_acc_keys env (rs_accs st)) st)
     (process_soroban_event_rows (rp_asset_env env) (rp_ops env) (rp_group_iter env) ledger closed_at events
       \<lparr>ss_registries = rs_registries st, ss_assets = rs_assets st, ss_out = ledger_soroban_default\<rparr>)"

section \<open>The rows of a chunk\<close>

definition resolve_transaction_index :: "16 word \<Rightarrow> u16 \<times> bool" where
  "resolve_transaction_index order = (if order <s 0 then (0, True) else (order, False))"

definition finish_ledger :: "rp_env \<Rightarrow> rp_prog" where
  "finish_ledger env st =
     (case rs_ledger st of
        None \<Rightarrow> Inr st
      | Some l \<Rightarrow>
          if rs_missing st then Inr st
          else case accumulate_ledger env l (rs_closed_at st) (rs_events st) st of
            None \<Rightarrow> rp_fail RpPanic st
          | Some st' \<Rightarrow> Inr st')"

definition start_ledger :: "stored_event \<Rightarrow> rp_state \<Rightarrow> rp_state" where
  "start_ledger r st =
     (let missing = (sv_closed_at r = 0)
      in st\<lparr>rs_ledger := Some (sv_ledger_sequence r), rs_closed_at := sv_closed_at r, rs_events := [], rs_last_key := None,
           rs_missing := missing, rs_ledgers_missing := rs_ledgers_missing st + (if missing then 1 else 0)\<rparr>)"

text \<open>A row of the current ledger: an adjacent double and an unresolved contract are skipped.\<close>

definition take_event :: "rp_env \<Rightarrow> (i64, string) hmap \<Rightarrow> stored_event \<Rightarrow> rp_state \<Rightarrow> rp_state" where
  "take_event env id_map r st =
     (let key = (sv_contract_id r, sv_transaction_id r, sv_operation_index r, sv_event_index r)
      in if rs_last_key st = Some key then st
         else let st = st\<lparr>rs_last_key := Some key\<rparr>
           in case map_of id_map (sv_contract_id r) of
             None \<Rightarrow> st
           | Some strkey \<Rightarrow>
               (let (transaction_index, used_fallback) = resolve_transaction_index (sv_application_order r);
                    parse = (\<lambda>s. case rp_parse env s of Some v \<Rightarrow> v | None \<Rightarrow> JNull)
                in st\<lparr>rs_fallbacks := rs_fallbacks st + (if used_fallback then 1 else 0),
                     rs_events := rs_events st @ [\<lparr>re_contract_id = strkey,
                       re_transaction_id = show_int (sint (sv_transaction_id r)),
                       re_transaction_index = transaction_index, re_ledger_sequence = sv_ledger_sequence r,
                       re_event_index = sv_event_index r, re_topics = parse (sv_topics_xdr r),
                       re_data = parse (sv_data_xdr r)\<rparr>]\<rparr>))"

definition read_row :: "rp_env \<Rightarrow> (i64, string) hmap \<Rightarrow> stored_event \<Rightarrow> rp_prog" where
  "read_row env id_map r st =
     (let st = st\<lparr>rs_total_events := rs_total_events st + 1\<rparr>
      in rbind (if rs_ledger st \<noteq> Some (sv_ledger_sequence r)
          then rbind (finish_ledger env st) (\<lambda>st. Inr (start_ledger r st)) else Inr st) (\<lambda>st.
         Inr (if rs_missing st then st\<lparr>rs_events_missing := rs_events_missing st + 1\<rparr> else take_event env id_map r st)))"

section \<open>Writing\<close>

text \<open>New identities first; a dry run only counts.\<close>

definition emit_buffer :: "rp_env \<Rightarrow> bool \<Rightarrow> candle list \<Rightarrow> string \<Rightarrow> rp_prog" where
  "emit_buffer env dry_run candles source st =
     (if candles = [] then Inr st
      else let st = st\<lparr>rs_total_candles := rs_total_candles st + of_nat (length candles)\<rparr>
        in if dry_run then Inr st
           else rbind (if ar_pending (rs_assets st) = [] then Inr st
               else rbind (rp_emit env (RpAssets (ar_pending (rs_assets st))) st)
                 (\<lambda>st. Inr (st\<lparr>rs_assets := clear_pending (rs_assets st)\<rparr>)))
             (rp_emit env (RpCandles candles source)))"

definition drain_buffer :: "rp_env \<Rightarrow> bool \<Rightarrow> string \<Rightarrow> rp_prog" where
  "drain_buffer env dry_run source st =
     rbind (emit_buffer env dry_run (entry [] source (rs_buffers st)) source st)
       (\<lambda>st. Inr (st\<lparr>rs_buffers := AList.update source [] (rs_buffers st)\<rparr>))"

definition drain_buffers :: "rp_env \<Rightarrow> bool \<Rightarrow> rp_prog" where
  "drain_buffers env dry_run st = fold_res (drain_buffer env dry_run) (rp_buffer_keys env (rs_buffers st)) st"

definition drain_open :: "rp_env \<Rightarrow> bool \<Rightarrow> string \<Rightarrow> rp_prog" where
  "drain_open env dry_run source st =
     (let candles = flush_all (rp_ops env) (entry accumulator_new source (rs_accs st))
      in emit_buffer env dry_run candles source (st\<lparr>rs_accs := AList.update source accumulator_new (rs_accs st)\<rparr>))"

section \<open>Chunks\<close>

definition sat_add :: "u32 \<Rightarrow> u32 \<Rightarrow> u32" where
  "sat_add a b = (if a + b < a then - 1 else a + b)"

definition chunk_end :: "u32 \<Rightarrow> u32 \<Rightarrow> u32 \<Rightarrow> u32" where
  "chunk_end step hi start = min (sat_add start (step - 1)) hi"

lemma chunk_end_ge: "chunk_end step hi start < hi \<Longrightarrow> start \<le> chunk_end step hi start"
  by (auto simp: chunk_end_def sat_add_def min_def not_less split: if_splits)

lemma chunk_next:
  assumes "chunk_end step hi start < hi"
  shows "unat (chunk_end step hi start + 1) = unat (chunk_end step hi start) + 1"
proof -
  have "unat (chunk_end step hi start) < unat hi"
    using assms by (simp add: word_less_nat_alt)
  then have "unat (chunk_end step hi start) + 1 < 2 ^ 32"
    using unsigned_less [of hi, where ?'a = nat] by simp
  then show ?thesis
    by (simp add: unat_word_ariths)
qed

text \<open>The chunks of a range, in the order the loop takes them.\<close>

function chunks :: "u32 \<Rightarrow> u32 \<Rightarrow> u32 \<Rightarrow> (u32 \<times> u32) list" where
  "chunks step hi start =
     (let e = chunk_end step hi start in (start, e) # (if hi \<le> e then [] else chunks step hi (e + 1)))"
  by pat_completeness auto

termination
proof (relation "measure (\<lambda>(step, hi, start). unat hi - unat start)")
  fix step hi start e
  assume e: "e = chunk_end step hi start" "\<not> hi \<le> e"
  then have "unat start \<le> unat e" "unat e < unat hi" "unat (e + 1) = unat e + 1"
    using chunk_end_ge [of step hi start] chunk_next [of step hi start]
    by (simp_all add: word_le_nat_alt word_less_nat_alt not_le)
  then show "((step, hi, e + 1), step, hi, start) \<in> measure (\<lambda>(step, hi, start). unat hi - unat start)"
    by simp
qed simp

declare chunks.simps [simp del]

definition start_chunk :: "rp_state \<Rightarrow> rp_state" where
  "start_chunk st = st\<lparr>rs_ledger := None, rs_closed_at := 0, rs_missing := False, rs_events := [], rs_last_key := None\<rparr>"

definition read_chunk :: "rp_env \<Rightarrow> bool \<Rightarrow> (i64, string) hmap \<Rightarrow> u32 \<times> u32 \<Rightarrow> rp_prog" where
  "read_chunk env dry_run id_map = (\<lambda>(lo, hi) st.
     (let (rows, failure) = rp_stream env (map fst id_map) lo hi
      in rbind (fold_res (read_row env id_map) rows (start_chunk st)) (\<lambda>st.
         case failure of
           Some message \<Rightarrow> rp_fail (RpStore message) st
         | None \<Rightarrow> rbind (finish_ledger env st) (drain_buffers env dry_run))))"

section \<open>The run\<close>

text \<open>The empty check is on the rows loaded, before the static pools are merged.\<close>

definition reprice_registry :: "registries \<Rightarrow> (rp_error, registries) result" where
  "reprice_registry loaded = (if reg_venue loaded = [] then Inl EmptyPoolRegistry else Inr (merge_static_pools loaded))"

definition aggregate_reprice :: "unresolved_swap list \<Rightarrow> registries \<Rightarrow> unresolved_pool list" where
  "aggregate_reprice = aggregate_as ''events-backfill''"

definition reprice_new :: "rp_env \<Rightarrow> asset_identity list \<Rightarrow> registries \<Rightarrow> rp_state" where
  "reprice_new env assets reg = \<lparr>rs_assets = from_existing (rp_asset_env env) assets, rs_registries = reg, rs_accs = [],
     rs_buffers = [], rs_ticks = [], rs_failed = [], rs_unresolved = [], rs_total_events = 0, rs_total_candles = 0,
     rs_ledgers_missing = 0, rs_events_missing = 0, rs_fallbacks = 0, rs_trace = [], rs_ledger = None, rs_closed_at = 0,
     rs_missing = False, rs_events = [], rs_last_key = None\<rparr>"

definition finish_reprice :: "rp_env \<Rightarrow> bool \<Rightarrow> rp_prog" where
  "finish_reprice env dry_run st =
     rbind (fold_res (drain_open env dry_run) (rp_acc_keys env (rs_accs st)) st) (\<lambda>st.
       let unresolved = aggregate_reprice (rs_unresolved st) (rs_registries st)
       in if dry_run \<or> unresolved = [] then Inr st else rp_emit env (RpUnresolved unresolved) st)"

definition before_run :: "(string, 'a) result \<Rightarrow> (rp_error \<times> rp_effect list, 'a) result" where
  "before_run r = (case r of Inl message \<Rightarrow> Inl (RpStore message, []) | Inr x \<Rightarrow> Inr x)"

definition reprice :: "rp_env \<Rightarrow> rp_cli \<Rightarrow> (rp_error \<times> rp_effect list, rp_state) result" where
  "reprice env cli =
     rbind (before_run (rp_load_assets env)) (\<lambda>assets.
     rbind (before_run (rp_load_pools env)) (\<lambda>loaded.
     case reprice_registry loaded of
       Inl e \<Rightarrow> Inl (e, [])
     | Inr reg \<Rightarrow>
         rbind (before_run (rp_resolve env (map fst (reg_venue reg)))) (\<lambda>id_map.
           if id_map = [] then Inl (NoResolvedContracts (length (reg_venue reg)), [])
           else rbind (fold_res (read_chunk env (cl_dry_run cli) id_map) (chunks (cl_chunk_size cli) (cl_end cli) (cl_start cli))
                 (reprice_new env assets reg))
               (finish_reprice env (cl_dry_run cli)))))"

section \<open>Discovering pools\<close>

definition learn_from_row :: "rp_env \<Rightarrow> factory_event \<Rightarrow> registries \<Rightarrow> registries" where
  "learn_from_row env row reg =
     (let parse = (\<lambda>s. case rp_parse env s of Some v \<Rightarrow> v | None \<Rightarrow> JNull)
      in learn_factory (parse (fv_topics_xdr row)) (parse (fv_data_xdr row)) reg)"

definition pool_snapshot :: "rp_env \<Rightarrow> registries \<Rightarrow> (string, pool_row) hmap" where
  "pool_snapshot env reg = map (\<lambda>row. (pr_contract_id row, row)) (to_pool_rows (rp_hex env) reg)"

text \<open>The snapshot is of the rows loaded; the static pools are merged after it.\<close>

definition preload :: "rp_env \<Rightarrow> registries \<Rightarrow> registries \<times> (string, pool_row) hmap" where
  "preload env loaded = (merge_static_pools loaded, pool_snapshot env loaded)"

definition discover_chunk :: "rp_env \<Rightarrow> u32 \<times> u32 \<Rightarrow> registries \<Rightarrow> (rp_error \<times> rp_effect list, registries) result" where
  "discover_chunk env = (\<lambda>(lo, hi) reg.
     (let (rows, failure) = rp_factory_stream env lo hi
      in case failure of Some message \<Rightarrow> Inl (RpStore message, []) | None \<Rightarrow> Inr (fold (learn_from_row env) rows reg)))"

definition discover :: "rp_env \<Rightarrow> rp_cli \<Rightarrow> (rp_error \<times> rp_effect list, rp_effect list) result" where
  "discover env cli =
     rbind (before_run (rp_load_pools env)) (\<lambda>loaded.
       let (reg, persisted) = preload env loaded
       in rbind (fold_res (discover_chunk env) (chunks (cl_chunk_size cli) (cl_end cli) (cl_start cli)) reg) (\<lambda>reg.
          let new_rows = pool_rows_unpersisted (rp_hex env) reg persisted
          in if cl_dry_run cli \<or> new_rows = [] then Inr []
             else case rp_failure env [] (RpPools new_rows) of
               Some message \<Rightarrow> Inl (RpStore message, [])
             | None \<Rightarrow> Inr [RpPools new_rows]))"

definition events_backfill :: "rp_env \<Rightarrow> bool \<Rightarrow> rp_cli \<Rightarrow> (rp_error \<times> rp_effect list, rp_effect list) result" where
  "events_backfill env discover_pools cli =
     (if cl_end cli < cl_start cli then Inl (InvalidRange (cl_start cli) (cl_end cli), [])
      else if cl_chunk_size cli = 0 then Inl (InvalidChunkSize, [])
      else if discover_pools then discover env cli
      else rbind (reprice env cli) (\<lambda>st. Inr (rs_trace st)))"

end
