(* ===== verification/Reprice_Ledgers.thy ===== *)
theory Reprice_Ledgers
  imports Reprice Interning
begin

text \<open>
  What a ledger contributes to a repricing run does not depend on which identities the run has already written:
  the pending list of the asset registry influences neither ticks nor registries.
\<close>

section \<open>Registries up to their pending identities\<close>

text \<open>Of two runs that have written the identities \<open>w\<close> and \<open>w'\<close>: the same identities are known, written or pending.\<close>

definition same_ids :: "asset_identity list \<Rightarrow> asset_identity list \<Rightarrow> asset_registry \<Rightarrow> asset_registry \<Rightarrow> bool" where
  "same_ids w w' a b \<longleftrightarrow> ar_known a = ar_known b \<and> ar_sac_index a = ar_sac_index b \<and> w @ ar_pending a = w' @ ar_pending b"

lemma same_ids_intern: "same_ids w w' a b \<Longrightarrow> same_ids w w' (snd (intern env x a)) (snd (intern env x b))"
  by (auto simp: same_ids_def intern_def register_sac_def simp flip: append_assoc split: option.split)

lemma same_ids_canonicalise:
  "same_ids w w' a b \<Longrightarrow> same_ids w w' (snd (canonicalise env s t a)) (snd (canonicalise env s t b))"
  by (simp add: canonicalise_def Let_def same_ids_intern)

definition alike :: "asset_identity list \<Rightarrow> asset_identity list \<Rightarrow> asset_registry \<times> ledger_soroban \<Rightarrow> asset_registry \<times> ledger_soroban \<Rightarrow> bool" where
  "alike w w' s s' \<longleftrightarrow> same_ids w w' (fst s) (fst s') \<and> snd s = snd s'"

lemma fold_opt_alike:
  assumes "\<And>x s s'. x \<in> set xs \<Longrightarrow> r s s' \<Longrightarrow> rel_option r (f x s) (f x s')" and "r s s'"
  shows "rel_option r (fold_opt f xs s) (fold_opt f xs s')"
  using assms
proof (induction xs arbitrary: s s')
  case (Cons x xs)
  have "rel_option r (f x s) (f x s')"
    using Cons.prems by simp
  then show ?case
    using Cons.IH Cons.prems(1) by (cases "f x s"; cases "f x s'") auto
qed simp

lemma push_trade_alike:
  assumes "alike w w' s s'"
  shows "rel_option (alike w w') (push_trade env ops i ct source trade s) (push_trade env ops i ct source trade s')"
proof -
  obtain a out b where s: "s = (a, out)" "s' = (b, out)" and ids: "same_ids w w' a b"
    using assms by (cases s; cases s') (auto simp: alike_def)
  have res: "resolve_amm_token c a = resolve_amm_token c b" for c
    using ids by (simp add: resolve_amm_token_def resolve_sac_def same_ids_def)
  have "same_ids w w' (trade_assets env trade a) (trade_assets env trade b)"
    using ids by (simp add: trade_assets_def Let_def res same_ids_canonicalise)
  then show ?thesis
    by (cases "amm_tick ops (\<lambda>c. resolve_amm_token c b) i ct trade")
      (auto simp: push_trade_def s amm_trade_to_tick_alt alike_def res)
qed

lemma classify_group_alike:
  assumes "alike w w' s s'"
  shows "rel_option (alike w w') (classify_group env ops i reg seq ct g s) (classify_group env ops i reg seq ct g s')"
proof -
  obtain a out b where s: "s = (a, out)" "s' = (b, out)" and ids: "same_ids w w' a b"
    using assms by (cases s; cases s') (auto simp: alike_def)
  obtain c rows where g: "g = (c, rows)" by (cases g)
  show ?thesis
  proof (cases "map_of (reg_venue reg) c")
    case None
    then show ?thesis by (simp add: g s classify_group_def Let_def alike_def ids)
  next
    case (Some v)
    let ?push = "push_trade env ops i ct (as_source v)"
    have trades: "rel_option (alike w w') (fold_opt ?push ts (a, out)) (fold_opt ?push ts (b, out))" for ts
      by (rule fold_opt_alike) (auto simp: push_trade_alike alike_def ids)
    show ?thesis
    proof (cases "dispatch_with reg rows")
      case (Inl e)
      then show ?thesis using Some by (simp add: g s classify_group_def Let_def alike_def ids)
    next
      case (Inr ts)
      then show ?thesis
        using Some trades [of ts]
        by (cases "fold_opt ?push ts (a, out)"; cases "fold_opt ?push ts (b, out)")
          (auto simp: g s classify_group_def Let_def alike_def split: prod.split)
    qed
  qed
qed

lemma classify_amm_groups_alike:
  "alike w w' s s' \<Longrightarrow>
   rel_option (alike w w') (classify_amm_groups env ops gs i reg seq ct s) (classify_amm_groups env ops gs i reg seq ct s')"
  unfolding classify_amm_groups_def by (rule fold_opt_alike) (simp_all add: classify_group_alike)

definition alike_states :: "asset_identity list \<Rightarrow> asset_identity list \<Rightarrow> soroban_state \<Rightarrow> soroban_state \<Rightarrow> bool" where
  "alike_states w w' st st' \<longleftrightarrow> ss_registries st = ss_registries st' \<and> same_ids w w' (ss_assets st) (ss_assets st') \<and> ss_out st = ss_out st'"

text \<open>A ledger read back gives the same ticks and registries, whichever of its identities are already written.\<close>

lemma process_rows_alike:
  "alike_states w w' st st' \<Longrightarrow>
   rel_option (alike_states w w') (process_soroban_event_rows env ops iter seq ct evs st)
     (process_soroban_event_rows env ops iter seq ct evs st')"
proof (induction env ops iter seq ct evs st arbitrary: st' rule: process_soroban_event_rows.induct)
  case (1 env ops iter seq ct st)
  then show ?case by (simp add: process_soroban_event_rows.simps)
next
  case (2 env ops iter seq ct ev evs st)
  obtain reg groups where f: "fold row_step (ev # takeWhile (\<lambda>e. re_transaction_id e = re_transaction_id ev) evs)
      (ss_registries st, []) = (reg, groups)"
    by (cases "fold row_step (ev # takeWhile (\<lambda>e. re_transaction_id e = re_transaction_id ev) evs) (ss_registries st, [])")
  have f': "fold row_step (ev # takeWhile (\<lambda>e. re_transaction_id e = re_transaction_id ev) evs)
      (ss_registries st', []) = (reg, groups)"
    using f 2 by (simp add: alike_states_def)
  let ?c = "\<lambda>st. classify_amm_groups env ops (iter groups) (re_transaction_index ev) reg seq ct (ss_assets st, ss_out st)"
  have "alike w w' (ss_assets st, ss_out st) (ss_assets st', ss_out st')"
    using 2 by (simp add: alike_states_def alike_def)
  then have "rel_option (alike w w') (?c st) (?c st')" by (rule classify_amm_groups_alike)
  then show ?case
  proof (cases rule: option.rel_cases)
    case None
    then show ?thesis using f f' by (simp add: process_soroban_event_rows.simps Let_def)
  next
    case (Some x y)
    then show ?thesis
      using "2.IH" [OF refl refl f [symmetric], of x "fst x" "snd x"
          "st'\<lparr>ss_registries := reg, ss_assets := fst y, ss_out := snd y\<rparr>"] f f'
      by (cases x; cases y) (simp add: process_soroban_event_rows.simps Let_def alike_def alike_states_def)
  qed
qed

end
