(* ===== verification/Reprice_Chunks.thy ===== *)
theory Reprice_Chunks
  imports Reprice_Ledgers
begin

text \<open>
  Where the chunks of a repricing run are cut does not matter: the chunks cover the range, reading a chunk is
  reading its ledgers one after the other, and draining the buffers moves candles from a buffer to the table
  without changing what the run has produced.
\<close>

section \<open>The chunks of a range\<close>

lemma chunks_cover:
  "start \<le> hi \<Longrightarrow> concat (map (\<lambda>(a, b). ledger_range a b) (chunks step hi start)) = ledger_range start hi"
proof (induction step hi start rule: chunks.induct)
  case (1 step hi start)
  let ?e = "chunk_end step hi start"
  have le: "?e \<le> hi" by (simp add: chunk_end_def)
  show ?case
  proof (cases "hi \<le> ?e")
    case True
    then have "?e = hi" using le by simp
    then show ?thesis by (subst chunks.simps) (simp add: Let_def)
  next
    case False
    then have lt: "?e < hi" by simp
    then have n: "unat (?e + 1) = unat ?e + 1" "start \<le> ?e" "?e + 1 \<le> hi"
      using chunk_next [OF lt] chunk_end_ge [OF lt] by (simp_all add: word_le_nat_alt word_less_nat_alt)
    have "concat (map (\<lambda>(a, b). ledger_range a b) (chunks step hi start)) = ledger_range start ?e @ ledger_range (?e + 1) hi"
      using "1.IH" [OF refl False n(3)] False by (subst chunks.simps) (simp add: Let_def)
    also have "\<dots> = ledger_range start hi"
      using n lt upt_add_eq_append [of "unat start" "Suc (unat ?e)" "unat hi - unat ?e"]
      by (simp add: ledger_range_def word_le_nat_alt word_less_nat_alt flip: map_append del: upt_Suc)
    finally show ?thesis .
  qed
qed

section \<open>The rows of one ledger\<close>

text \<open>A program that does not look at what was streamed before, and the block of rows of one ledger.\<close>

definition replay_ledger :: "rp_env \<Rightarrow> (i64, string) hmap \<Rightarrow> stored_event list \<Rightarrow> rp_prog" where
  "replay_ledger env id_map rows st = rbind (fold_res (read_row env id_map) rows (start_chunk st)) (finish_ledger env)"

lemma start_chunk_simps [simp]:
  "rs_ledger (start_chunk st) = None" "start_chunk (start_chunk st) = start_chunk st"
  by (simp_all add: start_chunk_def)

lemma finish_none [simp]: "rs_ledger st = None \<Longrightarrow> finish_ledger env st = Inr st"
  by (simp add: finish_ledger_def)

lemma replay_ledger_start [simp]: "replay_ledger env id_map rows (start_chunk st) = replay_ledger env id_map rows st"
  by (simp add: replay_ledger_def)

lemma fold_res_append: "fold_res f (xs @ ys) s = rbind (fold_res f xs s) (fold_res f ys)"
proof (induction xs arbitrary: s)
  case (Cons x xs)
  then show ?case by (cases "f x s") simp_all
qed simp

lemma flush_source_total:
  "flush_source env m s (st\<lparr>rs_total_events := n\<rparr>) = (flush_source env m s st)\<lparr>rs_total_events := n\<rparr>"
  by (simp add: flush_source_def Let_def split: prod.split)

lemma flush_sources_total:
  "fold (flush_source env m) ss (st\<lparr>rs_total_events := n\<rparr>) = (fold (flush_source env m) ss st)\<lparr>rs_total_events := n\<rparr>"
  by (induction ss arbitrary: st) (simp_all add: flush_source_total)


lemma finish_ledger_total:
  "finish_ledger env (st\<lparr>rs_total_events := n\<rparr>) = rbind (finish_ledger env st) (\<lambda>s. Inr (s\<lparr>rs_total_events := n\<rparr>))"
  by (cases st) (auto simp: finish_ledger_def accumulate_ledger_def rp_fail_def Let_def flush_sources_total [symmetric]
      split: option.split)

lemma take_event_ledger [simp]: "rs_ledger (take_event env id_map r st) = rs_ledger st"
  by (simp add: take_event_def Let_def split: option.split prod.split)

text \<open>A row of the current ledger is taken without touching the registries.\<close>

lemma read_row_current:
  assumes "rs_ledger st = Some (sv_ledger_sequence r)"
  shows "\<exists>st'. read_row env id_map r st = Inr st' \<and> rs_ledger st' = rs_ledger st"
  using assms by (simp add: read_row_def Let_def)

lemma read_rows_current:
  assumes "rs_ledger st = Some k" and "\<forall>r \<in> set rows. sv_ledger_sequence r = k"
  shows "\<exists>st'. fold_res (read_row env id_map) rows st = Inr st' \<and> rs_ledger st' = Some k"
  using assms
proof (induction rows arbitrary: st)
  case (Cons r rows)
  then obtain st' where "read_row env id_map r st = Inr st'" "rs_ledger st' = Some k"
    using read_row_current [of st r env id_map] by auto
  then show ?case using Cons by simp
qed simp

text \<open>The first row of a new ledger finishes the previous one, then starts as a fresh chunk does.\<close>

lemma read_row_next:
  assumes "rs_ledger st \<noteq> Some (sv_ledger_sequence r)"
  shows "read_row env id_map r st = rbind (finish_ledger env st) (\<lambda>s. read_row env id_map r (start_chunk s))"
proof (cases "finish_ledger env st")
  case (Inr s)
  have "s = s\<lparr>rs_total_events := rs_total_events st\<rparr>"
    using Inr finish_ledger_total [of env "rs_total_events st" st] by auto
  from arg_cong [OF this, of rs_total_events] have "rs_total_events s = rs_total_events st" by simp
  moreover have "start_ledger r ((start_chunk s)\<lparr>rs_total_events := n\<rparr>) = start_ledger r (s\<lparr>rs_total_events := n\<rparr>)" for n
    by (simp add: start_ledger_def start_chunk_def Let_def)
  ultimately show ?thesis
    using assms by (simp add: read_row_def Let_def finish_ledger_total Inr)
      (simp add: start_chunk_def)
qed (simp add: read_row_def Let_def finish_ledger_total assms)

lemma read_block:
  assumes "rs_ledger st \<noteq> Some k" and "\<forall>r \<in> set rows. sv_ledger_sequence r = k" and "rows \<noteq> []"
  shows "\<exists>f. (\<forall>s. fold_res (read_row env id_map) rows (start_chunk s) = Inr (f s) \<and> rs_ledger (f s) = Some k) \<and>
    fold_res (read_row env id_map) rows st = rbind (finish_ledger env st) (\<lambda>s. Inr (f s))"
proof -
  obtain r rest where rows: "rows = r # rest" using assms(3) by (cases rows) auto
  have start: "\<exists>s'. fold_res (read_row env id_map) rows (start_chunk s) = Inr s' \<and> rs_ledger s' = Some k" for s
  proof -
    let ?s = "start_ledger r ((start_chunk s)\<lparr>rs_total_events := rs_total_events s + 1\<rparr>)"
    have "\<exists>s'. read_row env id_map r (start_chunk s) = Inr s' \<and> rs_ledger s' = Some k"
      using assms(2) by (simp add: read_row_def Let_def rows) (simp add: start_ledger_def Let_def)
    then show ?thesis
      using read_rows_current [of _ k rest env id_map] assms(2) by (auto simp: rows)
  qed
  then obtain f where f: "\<forall>s. fold_res (read_row env id_map) rows (start_chunk s) = Inr (f s) \<and> rs_ledger (f s) = Some k"
    by metis
  moreover have "fold_res (read_row env id_map) rows st = rbind (finish_ledger env st) (\<lambda>s. Inr (f s))"
    using assms read_row_next [of st r env id_map] f by (cases "finish_ledger env st") (auto simp: rows)
  ultimately show ?thesis by blast
qed

end
