(* ===== verification/Reprice_Work.thy ===== *)
theory Reprice_Work
  imports Reprice_Chunks
begin

text \<open>
  What a repricing run has done so far, written or still buffered, as a relation between two runs; every
  step keeps it, and draining the buffers of one of them does too.
\<close>

section \<open>What has been written\<close>

definition ids_in :: "rp_effect list \<Rightarrow> asset_identity list" where
  "ids_in trace = concat (map (\<lambda>e. case e of RpAssets ids \<Rightarrow> ids | _ \<Rightarrow> []) trace)"

definition candles_for :: "string \<Rightarrow> rp_effect list \<Rightarrow> candle list" where
  "candles_for source trace = concat (map (\<lambda>e. case e of RpCandles cs s \<Rightarrow> if s = source then cs else [] | _ \<Rightarrow> []) trace)"

definition reported :: "rp_effect list \<Rightarrow> unresolved_pool list" where
  "reported trace = concat (map (\<lambda>e. case e of RpUnresolved ps \<Rightarrow> ps | _ \<Rightarrow> []) trace)"

lemma effects_simps [simp]:
  "ids_in [] = []" "candles_for source [] = []" "reported [] = []"
  "ids_in (e # t) = (case e of RpAssets ids \<Rightarrow> ids | _ \<Rightarrow> []) @ ids_in t"
  "candles_for source (e # t) = (case e of RpCandles cs s \<Rightarrow> if s = source then cs else [] | _ \<Rightarrow> []) @ candles_for source t"
  "reported (e # t) = (case e of RpUnresolved ps \<Rightarrow> ps | _ \<Rightarrow> []) @ reported t"
  "ids_in (t @ t') = ids_in t @ ids_in t'" "candles_for source (t @ t') = candles_for source t @ candles_for source t'"
  "reported (t @ t') = reported t @ reported t'"
  by (simp_all add: ids_in_def candles_for_def reported_def)

text \<open>The candles of a source a run has produced: those it wrote, then those it holds back.\<close>

definition produced :: "string \<Rightarrow> rp_state \<Rightarrow> candle list" where
  "produced source st = candles_for source (rs_trace st) @ entry [] source (rs_buffers st)"

lemma entry_update [simp]: "entry x s (AList.update s' v m) = (if s = s' then v else entry x s m)"
  by (simp add: entry_def update_conv')

section \<open>The same work\<close>

definition same_work :: "rp_state \<Rightarrow> rp_state \<Rightarrow> bool" where
  "same_work st st' \<longleftrightarrow>
     (\<forall>source. produced source st = produced source st') \<and>
     same_ids (ids_in (rs_trace st)) (ids_in (rs_trace st')) (rs_assets st) (rs_assets st') \<and>
     reported (rs_trace st) = reported (rs_trace st') \<and>
     rs_registries st = rs_registries st' \<and> rs_accs st = rs_accs st' \<and> rs_ticks st = rs_ticks st' \<and>
     rs_failed st = rs_failed st' \<and> rs_unresolved st = rs_unresolved st' \<and> rs_total_events st = rs_total_events st' \<and>
     rs_ledgers_missing st = rs_ledgers_missing st' \<and> rs_events_missing st = rs_events_missing st' \<and>
     rs_fallbacks st = rs_fallbacks st'"

text \<open>The same place in the stream too.\<close>

definition place :: "rp_state \<Rightarrow> u32 option \<times> i64 \<times> bool \<times> raw_soroban_event list \<times> (i64 \<times> i64 \<times> u16 \<times> u32) option" where
  "place st = (rs_ledger st, rs_closed_at st, rs_missing st, rs_events st, rs_last_key st)"

definition same_run :: "rp_state \<Rightarrow> rp_state \<Rightarrow> bool" where
  "same_run st st' \<longleftrightarrow> same_work st st' \<and> place st = place st'"

lemma same_work_refl [simp]: "same_work st st"
  by (simp add: same_work_def same_ids_def)

lemma same_work_sym: "same_work st st' \<Longrightarrow> same_work st' st"
  by (simp add: same_work_def same_ids_def)

lemma same_work_trans: "same_work a b \<Longrightarrow> same_work b c \<Longrightarrow> same_work a c"
  by (simp add: same_work_def same_ids_def)

lemma same_run_work: "same_run st st' \<Longrightarrow> same_work st st'"
  by (simp add: same_run_def)

lemma start_chunk_same_run: "same_work st st' \<Longrightarrow> same_run (start_chunk st) (start_chunk st')"
  by (simp add: same_run_def same_work_def start_chunk_def produced_def place_def)

lemma start_chunk_work [simp]: "same_work (start_chunk st) st' = same_work st st'" "same_work st (start_chunk st') = same_work st st'"
  by (simp_all add: same_work_def start_chunk_def produced_def)

section \<open>One ledger\<close>

lemma flush_source_same_work: "same_work st st' \<Longrightarrow> same_work (flush_source env m s st) (flush_source env m s st')"
  by (auto simp: flush_source_def Let_def same_work_def produced_def simp flip: append_assoc split: prod.split)

lemma flush_sources_same_work:
  "same_work st st' \<Longrightarrow> same_work (fold (flush_source env m) ss st) (fold (flush_source env m) ss st')"
  by (induction ss arbitrary: st st') (simp_all add: flush_source_same_work)

lemma accumulate_same_work:
  assumes "same_work st st'"
  shows "rel_option same_work (accumulate_ledger env l ct evs st) (accumulate_ledger env l ct evs st')"
proof -
  let ?s = "\<lambda>st. \<lparr>ss_registries = rs_registries st, ss_assets = rs_assets st, ss_out = ledger_soroban_default\<rparr>"
  let ?p = "\<lambda>st. process_soroban_event_rows (rp_asset_env env) (rp_ops env) (rp_group_iter env) l ct evs (?s st)"
  let ?w = "ids_in (rs_trace st)" and ?w' = "ids_in (rs_trace st')"
  have "alike_states ?w ?w' (?s st) (?s st')"
    using assms by (simp add: alike_states_def same_work_def)
  then have "rel_option (alike_states ?w ?w') (?p st) (?p st')" by (rule process_rows_alike)
  then show ?thesis
  proof (cases rule: option.rel_cases)
    case None
    then show ?thesis by (simp add: accumulate_ledger_def)
  next
    case (Some so so')
    have "same_work (fold (flush_source env m) ss (st\<lparr>rs_assets := ss_assets so, rs_registries := ss_registries so,
         rs_accs := accs, rs_ticks := ticks, rs_failed := failed, rs_unresolved := us\<rparr>))
       (fold (flush_source env m) ss (st'\<lparr>rs_assets := ss_assets so', rs_registries := ss_registries so',
         rs_accs := accs, rs_ticks := ticks, rs_failed := failed, rs_unresolved := us\<rparr>))" for m ss accs ticks failed us
      by (rule flush_sources_same_work) (use assms Some in \<open>simp add: same_work_def produced_def alike_states_def\<close>)
    then show ?thesis
      using Some assms by (simp add: accumulate_ledger_def Let_def) (simp add: alike_states_def same_work_def)
  qed
qed


lemma flush_sources_place [simp]: "place (fold (flush_source env m) ss st) = place st"
proof (induction ss arbitrary: st)
  case (Cons x ss)
  then show ?case by (simp add: flush_source_def Let_def place_def split: prod.split)
qed simp

lemma accumulate_place: "accumulate_ledger env l ct evs st = Some st' \<Longrightarrow> place st' = place st"
  by (auto simp: accumulate_ledger_def Let_def) (simp add: place_def)

section \<open>Programs that agree\<close>

abbreviation agree :: "(rp_state \<Rightarrow> rp_state \<Rightarrow> bool) \<Rightarrow> (rp_error \<times> rp_effect list, rp_state) result \<Rightarrow>
    (rp_error \<times> rp_effect list, rp_state) result \<Rightarrow> bool" where
  "agree \<equiv> rel_sum (\<lambda>x y. fst x = fst y)"

lemma agree_bind:
  assumes "agree R m m'" and "\<And>s s'. R s s' \<Longrightarrow> agree Q (f s) (f' s')"
  shows "agree Q (rbind m f) (rbind m' f')"
  using assms by (cases m; cases m') auto

lemma fold_res_agree:
  assumes "\<And>x s s'. x \<in> set xs \<Longrightarrow> R s s' \<Longrightarrow> agree R (f x s) (f x s')" and "R s s'"
  shows "agree R (fold_res f xs s) (fold_res f xs s')"
  using assms
proof (induction xs arbitrary: s s')
  case (Cons x xs)
  have "agree R (fold_res f xs t) (fold_res f xs t')" if "R t t'" for t t'
    using Cons.IH Cons.prems(1) that by simp
  then show ?case
    using agree_bind [of R "f x s" "f x s'"] Cons.prems by simp
qed simp

lemma finish_agree:
  assumes "same_run st st'"
  shows "agree same_run (finish_ledger env st) (finish_ledger env st')"
proof -
  have place: "rs_ledger st' = rs_ledger st" "rs_closed_at st' = rs_closed_at st" "rs_missing st' = rs_missing st"
    "rs_events st' = rs_events st"
    using assms by (simp_all add: same_run_def place_def)
  show ?thesis
  proof (cases "rs_ledger st")
    case None
    then show ?thesis using assms place by simp
  next
    case (Some l)
    have "rel_option same_work (accumulate_ledger env l (rs_closed_at st) (rs_events st) st)
        (accumulate_ledger env l (rs_closed_at st) (rs_events st) st')"
      using assms by (simp add: accumulate_same_work same_run_work)
    then show ?thesis
      by (cases rule: option.rel_cases)
        (use assms Some place in \<open>auto simp: finish_ledger_def rp_fail_def same_run_def dest!: accumulate_place\<close>)
  qed
qed

lemma take_event_same_run:
  assumes "same_run st st'"
  shows "same_run (take_event env id_map r st) (take_event env id_map r st')"
proof -
  have "place st = place st'" "same_work st st'" using assms by (simp_all add: same_run_def)
  then show ?thesis
    by (simp add: same_run_def take_event_def Let_def place_def same_work_def produced_def split: option.split prod.split)
qed

lemma read_row_agree:
  assumes "same_run st st'"
  shows "agree same_run (read_row env id_map r st) (read_row env id_map r st')"
proof -
  let ?count = "\<lambda>st. st\<lparr>rs_total_events := rs_total_events st + 1\<rparr>"
  let ?to = "\<lambda>st. if rs_ledger st \<noteq> Some (sv_ledger_sequence r)
    then rbind (finish_ledger env st) (\<lambda>st. Inr (start_ledger r st)) else Inr st"
  let ?take = "\<lambda>st. if rs_missing st then st\<lparr>rs_events_missing := rs_events_missing st + 1\<rparr> else take_event env id_map r st"
  have count: "same_run (?count st) (?count st')"
    using assms by (simp add: same_run_def same_work_def produced_def place_def)
  have start: "agree same_run (Inr (start_ledger r s)) (Inr (start_ledger r s'))" if "same_run s s'" for s s'
    using that by (simp add: same_run_def same_work_def produced_def place_def start_ledger_def Let_def)
  have "rs_ledger (?count st) = rs_ledger (?count st')" using assms by (simp add: same_run_def place_def)
  then have to: "agree same_run (?to (?count st)) (?to (?count st'))"
    using count by (cases "rs_ledger (?count st) \<noteq> Some (sv_ledger_sequence r)")
      (auto intro!: agree_bind [OF finish_agree [OF count]] start)
  have take: "agree same_run (Inr (?take s)) (Inr (?take s'))" if "same_run s s'" for s s'
    using that take_event_same_run [OF that, of env id_map r]
    by (auto simp: same_run_def place_def same_work_def produced_def)
  show ?thesis
    unfolding read_row_def Let_def by (rule agree_bind [OF to]) (rule take)
qed

lemma replay_ledger_agree:
  assumes "same_work st st'"
  shows "agree same_work (replay_ledger env id_map rows st) (replay_ledger env id_map rows st')"
proof -
  have "agree same_run (fold_res (read_row env id_map) rows (start_chunk st)) (fold_res (read_row env id_map) rows (start_chunk st'))"
    by (rule fold_res_agree [OF read_row_agree start_chunk_same_run]) (use assms in simp_all)
  then show ?thesis
    unfolding replay_ledger_def by (rule agree_bind) (rule sum.rel_mono_strong [OF finish_agree], auto dest: same_run_work)
qed

section \<open>Draining\<close>

text \<open>Faultless writes: draining returns, leaves the buffers of the drained sources empty and changes nothing else.\<close>

definition faultless :: "rp_env \<Rightarrow> bool" where
  "faultless env \<longleftrightarrow> (\<forall>trace e. rp_failure env trace e = None)"

text \<open>What an emission of \<open>cs\<close> for \<open>source\<close> adds to the table, and what it keeps.\<close>

definition emitted :: "string \<Rightarrow> candle list \<Rightarrow> rp_state \<Rightarrow> rp_state \<Rightarrow> bool" where
  "emitted source cs st st' \<longleftrightarrow>
     (\<forall>s. candles_for s (rs_trace st') = candles_for s (rs_trace st) @ (if s = source then cs else [])) \<and>
     same_work (st\<lparr>rs_buffers := []\<rparr>) (st'\<lparr>rs_buffers := [], rs_trace := rs_trace st, rs_assets := rs_assets st\<rparr>) \<and>
     same_ids (ids_in (rs_trace st)) (ids_in (rs_trace st')) (rs_assets st) (rs_assets st') \<and>
     reported (rs_trace st') = reported (rs_trace st) \<and>
     rs_buffers st' = rs_buffers st"

lemma emit_buffer_faultless:
  assumes "faultless env"
  shows "\<exists>st'. emit_buffer env False cs source st = Inr st' \<and> emitted source cs st st'"
  using assms by (simp add: emit_buffer_def Let_def rp_emit_def faultless_def emitted_def same_work_def produced_def
      same_ids_def clear_pending_def)

text \<open>Draining moves the candles of a source from its buffer to the table.\<close>

lemma drain_buffer_same_work:
  assumes "faultless env"
  shows "\<exists>st'. drain_buffer env False source st = Inr st' \<and> same_work st st' \<and>
    (\<forall>s. entry [] s (rs_buffers st') = (if s = source then [] else entry [] s (rs_buffers st)))"
proof -
  obtain st' where "emit_buffer env False (entry [] source (rs_buffers st)) source st = Inr st'"
    "emitted source (entry [] source (rs_buffers st)) st st'"
    using emit_buffer_faultless [OF assms] by blast
  then show ?thesis
    by (simp add: drain_buffer_def emitted_def same_work_def produced_def)
qed

lemma drain_buffers_same_work:
  assumes "faultless env"
  shows "\<exists>st'. fold_res (drain_buffer env False) sources st = Inr st' \<and> same_work st st' \<and>
    (\<forall>s. entry [] s (rs_buffers st') = (if s \<in> set sources then [] else entry [] s (rs_buffers st)))"
proof (induction sources arbitrary: st)
  case (Cons source sources)
  obtain st1 where "drain_buffer env False source st = Inr st1" "same_work st st1"
    "\<forall>s. entry [] s (rs_buffers st1) = (if s = source then [] else entry [] s (rs_buffers st))"
    using drain_buffer_same_work [OF assms] by blast
  moreover obtain st2 where "fold_res (drain_buffer env False) sources st1 = Inr st2" "same_work st1 st2"
    "\<forall>s. entry [] s (rs_buffers st2) = (if s \<in> set sources then [] else entry [] s (rs_buffers st1))"
    using Cons.IH by blast
  ultimately show ?case by (auto intro: same_work_trans)
qed simp

end
