(* ===== verification/Reprice_Run.thy ===== *)
theory Reprice_Run
  imports Reprice_Work
begin

text \<open>
  A whole repricing run against a store that streams a range in ledger order: cutting the range into chunks of
  another size changes neither what the run writes nor whether it returns.
\<close>

section \<open>A chunk is its ledgers\<close>

lemma agree_refl: "(\<And>s. R s s) \<Longrightarrow> agree R m m"
  by (cases m) auto

lemma agree_trans: "agree same_work a b \<Longrightarrow> agree same_work b c \<Longrightarrow> agree same_work a c"
  by (cases a; cases b; cases c) (auto intro: same_work_trans)

lemma agree_sym: "agree same_work a b \<Longrightarrow> agree same_work b a"
  by (cases a; cases b) (auto intro: same_work_sym)

lemma read_ledgers_agree:
  "same_work st st' \<Longrightarrow>
   agree same_work (fold_res (\<lambda>k. replay_ledger env id_map (rows k)) ks st) (fold_res (\<lambda>k. replay_ledger env id_map (rows k)) ks st')"
  by (rule fold_res_agree) (simp_all add: replay_ledger_agree)

lemma fold_res_Cons: "fold_res f (x # xs) = (\<lambda>s. rbind (f x s) (fold_res f xs))"
  by (rule ext) simp

lemma rbind_Inr [simp]: "rbind m Inr = m"
  by (cases m) auto

lemma read_ledgers:
  assumes "\<forall>k. \<forall>r \<in> set (rows k). sv_ledger_sequence r = k" and "distinct ks" and "\<forall>k \<in> set ks. rs_ledger st \<noteq> Some k"
  shows "agree same_work (rbind (fold_res (read_row env id_map) (concat (map rows ks)) st) (finish_ledger env))
    (rbind (finish_ledger env st) (fold_res (\<lambda>k. replay_ledger env id_map (rows k)) ks))"
  using assms(2,3)
proof (induction ks arbitrary: st)
  case Nil
  have "fold_res (\<lambda>k. replay_ledger env id_map (rows k)) [] = Inr" by (rule ext) simp
  then show ?case by (simp add: agree_refl)
next
  case (Cons k ks)
  let ?ks = "fold_res (\<lambda>k. replay_ledger env id_map (rows k))"
  show ?case
  proof (cases "rows k = []")
    case True
    have last_step: "agree same_work (rbind (finish_ledger env st) (?ks ks)) (rbind (finish_ledger env st) (?ks (k # ks)))"
      by (rule agree_bind [OF agree_refl [where R = "(=)"]])
        (simp_all add: True replay_ledger_def read_ledgers_agree)
    then show ?thesis
      using agree_trans [OF Cons.IH [of st] last_step] Cons.prems True by (simp add: fold_res_Cons)
  next
    case False
    obtain f where f: "\<And>s. fold_res (read_row env id_map) (rows k) (start_chunk s) = Inr (f s)"
        "\<And>s. rs_ledger (f s) = Some k"
      and rows: "fold_res (read_row env id_map) (rows k) st = rbind (finish_ledger env st) (\<lambda>s. Inr (f s))"
      using read_block [of st k "rows k" env id_map] assms(1) Cons.prems False by auto
    have ledger: "replay_ledger env id_map (rows k) s = finish_ledger env (f s)" for s
      by (simp add: replay_ledger_def f)
    have "agree same_work (rbind (fold_res (read_row env id_map) (concat (map rows ks)) (f s)) (finish_ledger env)) (?ks (k # ks) s)" for s
      using Cons.IH [of "f s"] Cons.prems f(2) by (auto simp: ledger)
    then show ?thesis
      by (cases "finish_ledger env st") (simp_all add: fold_res_append rows)
  qed
qed

section \<open>The store\<close>

text \<open>
  The documented order of the event query: the rows of a range are the rows of its ledgers, one ledger after the
  other, and the stream ends without an error.
\<close>

definition in_ledger_order :: "rp_env \<Rightarrow> (i64 list \<Rightarrow> u32 \<Rightarrow> stored_event list) \<Rightarrow> bool" where
  "in_ledger_order env rows \<longleftrightarrow>
     (\<forall>ids lo hi. rp_stream env ids lo hi = (concat (map (rows ids) (ledger_range lo hi)), None)) \<and>
     (\<forall>ids k. \<forall>r \<in> set (rows ids k). sv_ledger_sequence r = k)"

definition iterates_all :: "rp_env \<Rightarrow> bool" where
  "iterates_all env \<longleftrightarrow> (\<forall>m. set (rp_buffer_keys env m) = fst ` set m)"

lemma distinct_ledger_range: "distinct (ledger_range lo hi)"
proof -
  have "inj_on (of_nat :: nat \<Rightarrow> u32) {unat lo..<Suc (unat hi)}"
  proof (rule inj_onI)
    fix m n
    assume mn: "m \<in> {unat lo..<Suc (unat hi)}" "n \<in> {unat lo..<Suc (unat hi)}" "(of_nat m :: u32) = of_nat n"
    then have "m < 2 ^ 32" "n < 2 ^ 32" using unsigned_less [of hi, where ?'a = nat] by auto
    moreover have "unat (of_nat m :: u32) = unat (of_nat n :: u32)" using mn(3) by simp
    ultimately show "m = n" by (simp add: unat_of_nat)
  qed
  then show ?thesis by (simp add: ledger_range_def distinct_map del: upt_Suc)
qed

lemma chunk_is_its_ledgers:
  assumes "in_ledger_order env rows" and "faultless env"
  shows "agree same_work (read_chunk env False id_map (lo, hi) st)
    (fold_res (\<lambda>k. replay_ledger env id_map (rows (map fst id_map) k)) (ledger_range lo hi) st)"
proof -
  let ?rows = "rows (map fst id_map)"
  let ?ks = "fold_res (\<lambda>k. replay_ledger env id_map (?rows k)) (ledger_range lo hi)"
  let ?read = "rbind (fold_res (read_row env id_map) (concat (map ?rows (ledger_range lo hi))) (start_chunk st)) (finish_ledger env)"
  have "agree same_work ?read (rbind (finish_ledger env (start_chunk st)) ?ks)"
    by (rule read_ledgers) (use assms(1) in \<open>auto simp: in_ledger_order_def distinct_ledger_range\<close>)
  then have read: "agree same_work ?read (?ks st)"
    by (simp add: agree_trans [OF _ read_ledgers_agree])
  have drain: "agree same_work (drain_buffers env False s) (Inr s')" if "same_work s s'" for s s'
    using drain_buffers_same_work [OF assms(2), of "rp_buffer_keys env (rs_buffers s)" s] that
    by (auto simp: drain_buffers_def intro: same_work_trans [OF same_work_sym])
  have "agree same_work (rbind ?read (drain_buffers env False)) (rbind (?ks st) Inr)"
    by (rule agree_bind [OF read drain])
  moreover have "rp_stream env (map fst id_map) lo hi = (concat (map ?rows (ledger_range lo hi)), None)"
    using assms(1) by (simp add: in_ledger_order_def)
  ultimately show ?thesis
    by (simp add: read_chunk_def rbind_assoc)
qed

lemma chunks_are_their_ledgers:
  assumes "in_ledger_order env rows" and "faultless env" and "same_work st st'"
  shows "agree same_work (fold_res (read_chunk env False id_map) cs st)
    (fold_res (\<lambda>k. replay_ledger env id_map (rows (map fst id_map) k)) (concat (map (\<lambda>(a, b). ledger_range a b) cs)) st')"
  using assms(3)
proof (induction cs arbitrary: st st')
  case (Cons c cs)
  obtain lo hi where c: "c = (lo, hi)" by (cases c)
  have "agree same_work (read_chunk env False id_map c st)
      (fold_res (\<lambda>k. replay_ledger env id_map (rows (map fst id_map) k)) (ledger_range lo hi) st')"
    using chunk_is_its_ledgers [OF assms(1,2), of id_map lo hi st] read_ledgers_agree [OF Cons.prems]
    unfolding c by (rule agree_trans)
  then show ?case
    by (simp add: c fold_res_append) (rule agree_bind [OF _ Cons.IH], simp_all)
qed simp

section \<open>The end of a run\<close>

text \<open>After a chunk the buffers are empty.\<close>

definition drained :: "rp_state \<Rightarrow> bool" where
  "drained st \<longleftrightarrow> (\<forall>source. entry [] source (rs_buffers st) = [])"

lemma read_chunk_drained:
  assumes "faultless env" and "iterates_all env" and "read_chunk env False id_map c st = Inr st'"
  shows "drained st'"
proof -
  obtain s where "drain_buffers env False s = Inr st'"
    using assms(3) by (auto simp: read_chunk_def rp_fail_def split: prod.splits option.splits)
  moreover have "entry [] source (rs_buffers s) = []" if "source \<notin> fst ` set (rs_buffers s)" for source
    using that by (simp add: entry_def map_of_eq_None_iff [THEN iffD2])
  ultimately show ?thesis
    using drain_buffers_same_work [OF assms(1), of "rp_buffer_keys env (rs_buffers s)" s] assms(2)
    by (auto simp: drained_def drain_buffers_def iterates_all_def)
qed

lemma read_chunks_drained:
  assumes "faultless env" and "iterates_all env" and "drained st" and "fold_res (read_chunk env False id_map) cs st = Inr st'"
  shows "drained st'"
  using assms(3,4)
proof (induction cs arbitrary: st)
  case (Cons c cs)
  then obtain s where "read_chunk env False id_map c st = Inr s" "fold_res (read_chunk env False id_map) cs s = Inr st'"
    by auto
  then show ?case by (metis Cons.IH read_chunk_drained assms(1,2))
qed simp

lemma drain_open_same_work:
  assumes "faultless env" and "same_work st st'" and "drained st" and "drained st'"
  shows "\<exists>s s'. drain_open env False source st = Inr s \<and> drain_open env False source st' = Inr s' \<and> same_work s s' \<and>
    drained s \<and> drained s'"
proof -
  let ?cs = "flush_all (rp_ops env) (entry accumulator_new source (rs_accs st))"
  let ?st = "\<lambda>st. st\<lparr>rs_accs := AList.update source accumulator_new (rs_accs st)\<rparr>"
  obtain s where s: "emit_buffer env False ?cs source (?st st) = Inr s" "emitted source ?cs (?st st) s"
    using emit_buffer_faultless [OF assms(1)] by blast
  obtain s' where s': "emit_buffer env False ?cs source (?st st') = Inr s'" "emitted source ?cs (?st st') s'"
    using emit_buffer_faultless [OF assms(1)] by blast
  have accs: "rs_accs st' = rs_accs st" using assms(2) by (simp add: same_work_def)
  have "same_work s s'" "drained s" "drained s'"
    using s(2) s'(2) assms(2-4) by (auto simp: emitted_def same_work_def same_ids_def produced_def drained_def)
  then show ?thesis
    using s(1) s'(1) accs by (simp add: drain_open_def Let_def)
qed

lemma drain_opens_same_work:
  assumes "faultless env" and "same_work st st'" and "drained st" and "drained st'"
  shows "\<exists>s s'. fold_res (drain_open env False) sources st = Inr s \<and> fold_res (drain_open env False) sources st' = Inr s' \<and>
    same_work s s' \<and> drained s \<and> drained s'"
  using assms(2-)
proof (induction sources arbitrary: st st')
  case (Cons source sources)
  then show ?case using drain_open_same_work [OF assms(1) Cons.prems, of source] by force
qed simp

lemma finish_same_work:
  assumes "faultless env" and "same_work st st'" and "drained st" and "drained st'"
  shows "\<exists>s s'. finish_reprice env False st = Inr s \<and> finish_reprice env False st' = Inr s' \<and> same_work s s' \<and>
    drained s \<and> drained s'"
proof -
  have keys: "rs_accs st' = rs_accs st" using assms(2) by (simp add: same_work_def)
  obtain s s' where s: "fold_res (drain_open env False) (rp_acc_keys env (rs_accs st)) st = Inr s"
      "fold_res (drain_open env False) (rp_acc_keys env (rs_accs st)) st' = Inr s'"
      and same: "same_work s s'" "drained s" "drained s'"
    using drain_opens_same_work [OF assms] by blast
  have "rs_unresolved s' = rs_unresolved s" "rs_registries s' = rs_registries s"
    using same(1) by (simp_all add: same_work_def)
  then show ?thesis
    using same assms(1) by (simp add: finish_reprice_def keys s Let_def rp_emit_def faultless_def)
      (auto simp: same_work_def produced_def drained_def)
qed

section \<open>The size of the chunks\<close>

text \<open>The results of a run as its tables and its log show them.\<close>

definition same_results :: "rp_state \<Rightarrow> rp_state \<Rightarrow> bool" where
  "same_results st st' \<longleftrightarrow>
     (\<forall>source. candles_for source (rs_trace st) = candles_for source (rs_trace st')) \<and>
     reported (rs_trace st) = reported (rs_trace st') \<and> rs_registries st = rs_registries st' \<and>
     rs_ticks st = rs_ticks st' \<and> rs_failed st = rs_failed st' \<and> rs_total_events st = rs_total_events st' \<and>
     rs_ledgers_missing st = rs_ledgers_missing st' \<and> rs_events_missing st = rs_events_missing st' \<and>
     rs_fallbacks st = rs_fallbacks st'"

lemma same_work_results: "same_work st st' \<Longrightarrow> drained st \<Longrightarrow> drained st' \<Longrightarrow> same_results st st'"
  by (simp add: same_work_def same_results_def produced_def drained_def)

text \<open>
  C6: Where a repricing run cuts its range into chunks does not matter: against a store that streams ledgers in
  order and writes that succeed, a run with one chunk size returns exactly when a run with any other does, and
  writes the same candles per source in the same order, reports the same unresolved pools and learns the same
  registries; a minute that straddles a chunk boundary is one candle.
\<close>

theorem chunk_size_is_irrelevant:
  assumes "in_ledger_order env rows" and "faultless env" and "iterates_all env"
    and "cl_start cli \<le> cl_end cli" and "\<not> cl_dry_run cli" and "reprice env cli = Inr st"
  shows "\<exists>st'. reprice env (cli\<lparr>cl_chunk_size := size'\<rparr>) = Inr st' \<and> same_results st st'"
proof -
  obtain assets loaded reg id_map mid where load: "rp_load_assets env = Inr assets" "rp_load_pools env = Inr loaded"
      "reprice_registry loaded = Inr reg" "rp_resolve env (map fst (reg_venue reg)) = Inr id_map" "id_map \<noteq> []"
      and mid: "fold_res (read_chunk env False id_map) (chunks (cl_chunk_size cli) (cl_end cli) (cl_start cli))
        (reprice_new env assets reg) = Inr mid" and finish: "finish_reprice env False mid = Inr st"
    using assms(5,6) by (auto simp: reprice_def before_run_def split: sum.splits if_splits)
  let ?new = "reprice_new env assets reg" and ?cs = "\<lambda>size. chunks size (cl_end cli) (cl_start cli)"
  have drained: "drained ?new" by (simp add: drained_def reprice_new_def entry_def)
  have whole: "agree same_work (fold_res (read_chunk env False id_map) (?cs size) ?new)
      (fold_res (\<lambda>k. replay_ledger env id_map (rows (map fst id_map) k)) (ledger_range (cl_start cli) (cl_end cli)) ?new)" for size
    using chunks_are_their_ledgers [OF assms(1,2) same_work_refl, of id_map "?cs size" ?new] assms(4) by (simp add: chunks_cover)
  obtain mid' where mid': "fold_res (read_chunk env False id_map) (?cs size') ?new = Inr mid'" "same_work mid mid'"
    using agree_trans [OF whole [of "cl_chunk_size cli"] agree_sym [OF whole [of size']]] mid
    by (auto elim: rel_sum.cases)
  have "drained mid" "drained mid'"
    using read_chunks_drained [OF assms(2,3) drained] mid mid'(1) by auto
  then obtain st' where "finish_reprice env False mid' = Inr st'" "same_work st st'" "drained st" "drained st'"
    using finish_same_work [OF assms(2) mid'(2)] finish by auto
  then show ?thesis
    using load mid' assms(5) by (auto simp: reprice_def before_run_def intro: same_work_results)
qed

end
