(* ===== verification/Reprice_Candles.thy ===== *)
theory Reprice_Candles
  imports Reprice_Run Run_Reading
begin

text \<open>
  The candles of a repricing run: merging every ledger into accumulators that outlive the chunks, and writing
  what is closed, gives for each source the candles of all its ticks, each minute of a pair once.
\<close>

section \<open>The ticks of a range\<close>

text \<open>The ticks the rows of a ledger add in a given state, and those of the ledgers of a range in a row.\<close>

definition row_ticks :: "rp_env \<Rightarrow> rp_state \<Rightarrow> (string \<times> trade_tick) list" where
  "row_ticks env st =
     (case rs_ledger st of
        None \<Rightarrow> []
      | Some l \<Rightarrow>
          if rs_missing st then []
          else case process_soroban_event_rows (rp_asset_env env) (rp_ops env) (rp_group_iter env) l (rs_closed_at st)
              (rs_events st) \<lparr>ss_registries = rs_registries st, ss_assets = rs_assets st, ss_out = ledger_soroban_default\<rparr> of
            None \<Rightarrow> []
          | Some so \<Rightarrow> ls_amm_ticks (ss_out so))"

definition replay_ticks :: "rp_env \<Rightarrow> (i64, string) hmap \<Rightarrow> stored_event list \<Rightarrow> rp_state \<Rightarrow> (string \<times> trade_tick) list" where
  "replay_ticks env id_map rows st =
     (case fold_res (read_row env id_map) rows (start_chunk st) of Inl _ \<Rightarrow> [] | Inr s \<Rightarrow> row_ticks env s)"

fun replayed :: "rp_env \<Rightarrow> (i64, string) hmap \<Rightarrow> (u32 \<Rightarrow> stored_event list) \<Rightarrow> u32 list \<Rightarrow> rp_state \<Rightarrow> (string \<times> trade_tick) list" where
  "replayed env id_map rows [] st = []"
| "replayed env id_map rows (k # ks) st = replay_ticks env id_map (rows k) st @
     (case replay_ledger env id_map (rows k) st of Inl _ \<Rightarrow> [] | Inr st' \<Rightarrow> replayed env id_map rows ks st')"

section \<open>Ticks carry the time of their ledger\<close>

lemma process_rows_closed_at:
  "process_soroban_event_rows env ops iter seq ct evs st = Some so \<Longrightarrow> \<forall>(_, t) \<in> set (ls_amm_ticks (ss_out st)). tk_closed_at t = ct \<Longrightarrow>
   \<forall>(_, t) \<in> set (ls_amm_ticks (ss_out so)). tk_closed_at t = ct"
proof (induction env ops iter seq ct evs st rule: process_soroban_event_rows.induct)
  case (1 env ops iter seq ct st)
  then show ?case by (simp add: process_soroban_event_rows.simps)
next
  case (2 env ops iter seq ct ev evs st)
  obtain reg groups where f: "fold row_step (ev # takeWhile (\<lambda>e. re_transaction_id e = re_transaction_id ev) evs)
      (ss_registries st, []) = (reg, groups)"
    by (cases "fold row_step (ev # takeWhile (\<lambda>e. re_transaction_id e = re_transaction_id ev) evs) (ss_registries st, [])")
  obtain assets out where c: "classify_amm_groups env ops (iter groups) (re_transaction_index ev) reg seq ct (ss_assets st, ss_out st) =
      Some (assets, out)"
    using 2(2) f by (auto simp: process_soroban_event_rows.simps Let_def split: bind_splits)
  have "\<forall>(_, t) \<in> set (ls_amm_ticks out). tk_closed_at t = ct"
    using classify_amm_groups_advances [OF c] 2(3) by (fastforce simp: advances_def)
  then show ?case
    using "2.IH" [OF refl refl f [symmetric] c refl] 2(2) f c by (simp add: process_soroban_event_rows.simps Let_def)
qed

section \<open>Accumulators per source\<close>

lemma merge_amm_entry: "entry accumulator_new s (fold merge_amm ticks m) = fold merge (ticks_of s ticks) (entry accumulator_new s m)"
proof (induction ticks arbitrary: m)
  case (Cons p ticks)
  have "merge_amm p m = AList.update (fst p) (merge (snd p) (entry accumulator_new (fst p) m)) m"
    by (simp add: merge_amm_def entry_def split_beta)
  then show ?case using Cons.IH [of "merge_amm p m"] by (cases p) (auto simp: ticks_of_def)
qed (simp add: ticks_of_def)

lemma count_ticks_entry: "entry 0 s (fold count_tick ticks m) = entry 0 s m + of_nat (length (ticks_of s ticks))"
proof (induction ticks arbitrary: m)
  case (Cons p ticks)
  then show ?case by (cases p) (auto simp: ticks_of_def count_tick_def)
qed (simp add: ticks_of_def)

lemma flush_fresh [simp]: "flush_older_than ops m accumulator_new = ([], accumulator_new)"
  by (simp add: flush_older_than_def accumulator_new_def sorted_candles_def)

text \<open>What a run holds of a source: the candles produced and the accumulator of the open minutes.\<close>

definition holding :: "string \<Rightarrow> rp_state \<Rightarrow> candle list \<times> accumulator" where
  "holding s st = (produced s st, entry accumulator_new s (rs_accs st))"

lemma flush_source_holding:
  "holding s (flush_source env m x st) = (if s = x then minutes.pass (rp_ops env) (m, []) (holding s st) else holding s st)"
  by (auto simp: holding_def flush_source_def Let_def produced_def minutes.pass_def split: prod.split)

lemma flush_sources_holding:
  "distinct ss \<Longrightarrow> holding s (fold (flush_source env m) ss st) =
    (if s \<in> set ss then minutes.pass (rp_ops env) (m, []) (holding s st) else holding s st)"
proof (induction ss arbitrary: st)
  case (Cons x ss)
  then show ?case by (cases "s = x") (simp_all add: flush_source_holding)
qed simp

definition keys_once :: "rp_env \<Rightarrow> bool" where
  "keys_once env \<longleftrightarrow> (\<forall>m. set (rp_acc_keys env m) = fst ` set m \<and> distinct (rp_acc_keys env m))"

lemma entry_none: "s \<notin> fst ` set m \<Longrightarrow> entry x s m = x"
  by (simp add: entry_def map_of_eq_None_iff [THEN iffD2])

text \<open>A ledger is one pass of the accumulator of each source.\<close>

lemma accumulate_holding:
  assumes "keys_once env" and "accumulate_ledger env l ct evs st = Some st'"
    and "process_soroban_event_rows (rp_asset_env env) (rp_ops env) (rp_group_iter env) l ct evs
      \<lparr>ss_registries = rs_registries st, ss_assets = rs_assets st, ss_out = ledger_soroban_default\<rparr> = Some so"
  shows "holding s st' = minutes.pass (rp_ops env) (minute_of ct, ticks_of s (ls_amm_ticks (ss_out so))) (holding s st)"
proof -
  let ?ticks = "ls_amm_ticks (ss_out so)"
  let ?accs = "fold merge_amm ?ticks (rs_accs st)"
  define mid where "mid = st\<lparr>rs_assets := ss_assets so, rs_registries := ss_registries so, rs_accs := ?accs,
    rs_ticks := fold count_tick ?ticks (rs_ticks st), rs_failed := fold count_failed (ls_dispatch_errors (ss_out so)) (rs_failed st),
    rs_unresolved := rs_unresolved st @ ls_unresolved (ss_out so)\<rparr>"
  have st': "st' = fold (flush_source env (minute_of ct)) (rp_acc_keys env ?accs) mid"
    using assms(2,3) by (simp add: accumulate_ledger_def Let_def mid_def minute_of_def)
  have mid: "holding s mid = (produced s st, fold merge (ticks_of s ?ticks) (entry accumulator_new s (rs_accs st)))"
    by (simp add: holding_def mid_def produced_def merge_amm_entry)
  have keys: "set (rp_acc_keys env ?accs) = fst ` set ?accs" "distinct (rp_acc_keys env ?accs)"
    using assms(1) by (simp_all add: keys_once_def)
  have "entry accumulator_new s ?accs = accumulator_new" if "s \<notin> fst ` set ?accs"
    using that by (rule entry_none)
  then have "holding s st' = minutes.pass (rp_ops env) (minute_of ct, []) (holding s mid)"
    using flush_sources_holding [OF keys(2), of s env "minute_of ct" mid] keys(1)
    by (auto simp: st' mid merge_amm_entry minutes.pass_def)
  then show ?thesis
    unfolding mid by (simp add: holding_def [of s st] minutes.pass_def)
qed

lemma accumulate_counts:
  assumes "accumulate_ledger env l ct evs st = Some st'"
    and "process_soroban_event_rows (rp_asset_env env) (rp_ops env) (rp_group_iter env) l ct evs
      \<lparr>ss_registries = rs_registries st, ss_assets = rs_assets st, ss_out = ledger_soroban_default\<rparr> = Some so"
  shows "entry 0 s (rs_ticks st') = entry 0 s (rs_ticks st) + of_nat (length (ticks_of s (ls_amm_ticks (ss_out so))))"
proof -
  have "rs_ticks (fold (flush_source env m) ss st) = rs_ticks st" for m ss st
  proof (induction ss arbitrary: st)
    case (Cons x ss)
    then show ?case by (simp add: flush_source_def Let_def split: prod.split)
  qed simp
  then show ?thesis
    using assms by (auto simp: accumulate_ledger_def Let_def count_ticks_entry)
qed

section \<open>The ledgers of a range\<close>

text \<open>The rows of a ledger carry its number and its closing time, or none; closing times do not go back.\<close>

definition timed :: "(u32 \<Rightarrow> i64) \<Rightarrow> (u32 \<Rightarrow> stored_event list) \<Rightarrow> bool" where
  "timed clock rows \<longleftrightarrow>
     (\<forall>k. \<forall>r \<in> set (rows k). sv_ledger_sequence r = k \<and> (sv_closed_at r = 0 \<or> sv_closed_at r = clock k)) \<and>
     (\<forall>k k'. k \<le> k' \<longrightarrow> minute_of (clock k) \<le> minute_of (clock k'))"

text \<open>While the rows of one ledger are read, nothing is merged.\<close>

definition reading :: "u32 \<Rightarrow> i64 \<Rightarrow> rp_state \<Rightarrow> rp_state \<Rightarrow> bool" where
  "reading k c st s \<longleftrightarrow> (\<forall>x. holding x s = holding x st) \<and> rs_ticks s = rs_ticks st \<and>
     (rs_ledger s = None \<or> (rs_ledger s = Some k \<and> (rs_missing s \<or> rs_closed_at s = c)))"

lemma take_event_keeps [simp]:
  "rs_missing (take_event env id_map r s) = rs_missing s" "rs_closed_at (take_event env id_map r s) = rs_closed_at s"
  "rs_ticks (take_event env id_map r s) = rs_ticks s" "rs_trace (take_event env id_map r s) = rs_trace s"
  "rs_buffers (take_event env id_map r s) = rs_buffers s" "rs_accs (take_event env id_map r s) = rs_accs s"
  by (simp_all add: take_event_def Let_def split: option.split prod.split)

lemma read_row_reading:
  assumes "reading k c st s" and "sv_ledger_sequence r = k" and "sv_closed_at r = 0 \<or> sv_closed_at r = c"
  shows "\<exists>s'. read_row env id_map r s = Inr s' \<and> reading k c st s'"
proof (cases "rs_ledger s")
  case None
  then show ?thesis
    using assms by (auto simp: reading_def read_row_def Let_def start_ledger_def holding_def produced_def)
next
  case (Some l)
  then show ?thesis
    using assms by (auto simp: reading_def read_row_def Let_def holding_def produced_def)
qed

lemma read_rows_reading:
  assumes "reading k c st s" and "\<forall>r \<in> set rows. sv_ledger_sequence r = k \<and> (sv_closed_at r = 0 \<or> sv_closed_at r = c)"
  shows "\<exists>s'. fold_res (read_row env id_map) rows s = Inr s' \<and> reading k c st s'"
  using assms
proof (induction rows arbitrary: s)
  case (Cons r rows)
  obtain s1 where "read_row env id_map r s = Inr s1" "reading k c st s1"
    using read_row_reading [OF Cons.prems(1), of r env id_map] Cons.prems(2) by auto
  then show ?case using Cons.IH [of s1] Cons.prems(2) by simp
qed simp

text \<open>A ledger of the range: at most one pass, over the ticks of the ledger, at the minute of its closing time.\<close>

definition passes :: "rp_env \<Rightarrow> (u32 \<times> (string \<times> trade_tick) list) list \<Rightarrow> rp_state \<Rightarrow> rp_state \<Rightarrow> bool" where
  "passes env ps st st' \<longleftrightarrow>
     (\<forall>s. holding s st' = fold (minutes.pass (rp_ops env)) (map (\<lambda>(m, ts). (m, ticks_of s ts)) ps) (holding s st) \<and>
       entry 0 s (rs_ticks st') = entry 0 s (rs_ticks st) + of_nat (length (ticks_of s (concat (map snd ps)))))"

lemma replay_ledger_passes:
  assumes "keys_once env" and "timed clock rows" and "replay_ledger env id_map (rows k) st = Inr st'"
  shows "\<exists>ps. passes env ps st st' \<and> concat (map snd ps) = replay_ticks env id_map (rows k) st \<and>
    (ps = [] \<or> (\<exists>ts. ps = [(minute_of (clock k), ts)] \<and> (\<forall>(_, t) \<in> set ts. fst (tick_key t) = minute_of (clock k))))"
proof -
  have "reading k (clock k) st (start_chunk st)"
    by (simp add: reading_def holding_def produced_def) (simp add: start_chunk_def)
  then obtain s where s: "fold_res (read_row env id_map) (rows k) (start_chunk st) = Inr s" "reading k (clock k) st s"
    using read_rows_reading [of k "clock k" st _ "rows k" env id_map] assms(2) unfolding timed_def by blast
  have finish: "finish_ledger env s = Inr st'" and ticks: "replay_ticks env id_map (rows k) st = row_ticks env s"
    using assms(3) s(1) by (simp_all add: replay_ledger_def replay_ticks_def)
  show ?thesis
  proof (cases "rs_ledger s = None \<or> rs_missing s")
    case True
    then have "st' = s" "row_ticks env s = []"
      using finish by (auto simp: finish_ledger_def row_ticks_def split: option.splits)
    then have "passes env [] st st'" "replay_ticks env id_map (rows k) st = []"
      using s(2) ticks by (simp_all add: passes_def reading_def ticks_of_def)
    then show ?thesis by fastforce
  next
    case False
    then have place: "rs_ledger s = Some k" "\<not> rs_missing s" "rs_closed_at s = clock k"
      using s(2) by (auto simp: reading_def)
    then have acc: "accumulate_ledger env k (clock k) (rs_events s) s = Some st'"
      using finish by (auto simp: finish_ledger_def rp_fail_def split: option.splits)
    then obtain so where so: "process_soroban_event_rows (rp_asset_env env) (rp_ops env) (rp_group_iter env) k (clock k)
        (rs_events s) \<lparr>ss_registries = rs_registries s, ss_assets = rs_assets s, ss_out = ledger_soroban_default\<rparr> = Some so"
      by (auto simp: accumulate_ledger_def)
    let ?ts = "ls_amm_ticks (ss_out so)"
    have "passes env [(minute_of (clock k), ?ts)] st st'"
      using accumulate_holding [OF assms(1) acc so] accumulate_counts [OF acc so] s(2) by (simp add: passes_def reading_def)
    moreover have "row_ticks env s = ?ts" using place so by (simp add: row_ticks_def)
    moreover have "\<forall>(_, t) \<in> set ?ts. fst (tick_key t) = minute_of (clock k)"
      using process_rows_closed_at [OF so] by (auto simp: tick_key_def ledger_soroban_default_def)
    ultimately show ?thesis using ticks by fastforce
  qed
qed

lemma ticks_of_simps [simp]:
  "ticks_of s [] = []" "ticks_of s (xs @ ys) = ticks_of s xs @ ticks_of s ys"
  by (simp_all add: ticks_of_def)

lemma ticks_of_concat: "ticks_of s (concat (map snd ps)) = concat (map snd (map (\<lambda>(m, ts). (m, ticks_of s ts)) ps))"
  by (induction ps) auto

lemma replay_passes:
  assumes "keys_once env" and "timed clock rows" and "sorted ks"
    and "fold_res (\<lambda>k. replay_ledger env id_map (rows k)) ks st = Inr st'"
  shows "\<exists>ps. passes env ps st st' \<and> concat (map snd ps) = replayed env id_map rows ks st \<and> sorted (map fst ps) \<and>
    (\<forall>(m, ts) \<in> set ps. m \<in> (\<lambda>k. minute_of (clock k)) ` set ks \<and> (\<forall>(_, t) \<in> set ts. fst (tick_key t) = m))"
  using assms(3,4)
proof (induction ks arbitrary: st)
  case Nil
  have "passes env [] st st" by (simp add: passes_def)
  then show ?case using Nil by fastforce
next
  case (Cons k ks)
  obtain s where s: "replay_ledger env id_map (rows k) st = Inr s"
      "fold_res (\<lambda>k. replay_ledger env id_map (rows k)) ks s = Inr st'"
    using Cons.prems(2) by auto
  obtain qs where qs: "passes env qs st s" "concat (map snd qs) = replay_ticks env id_map (rows k) st"
      "qs = [] \<or> (\<exists>ts. qs = [(minute_of (clock k), ts)] \<and> (\<forall>(_, t) \<in> set ts. fst (tick_key t) = minute_of (clock k)))"
    using replay_ledger_passes [OF assms(1,2) s(1)] by blast
  obtain ps where ps: "passes env ps s st'" "concat (map snd ps) = replayed env id_map rows ks s" "sorted (map fst ps)"
      "\<forall>(m, ts) \<in> set ps. m \<in> (\<lambda>k. minute_of (clock k)) ` set ks \<and> (\<forall>(_, t) \<in> set ts. fst (tick_key t) = m)"
    using Cons.IH [OF _ s(2)] Cons.prems(1) by auto
  have "passes env (qs @ ps) st st'"
    using qs(1) ps(1) by (simp add: passes_def)
  moreover have "concat (map snd (qs @ ps)) = replayed env id_map rows (k # ks) st"
    using qs(2) ps(2) s(1) by simp
  moreover have "minute_of (clock k) \<le> m" if "(m, ts) \<in> set ps" for m ts
    using ps(4) that assms(2) Cons.prems(1) by (fastforce simp: timed_def)
  then have "sorted (map fst (qs @ ps))" using qs(3) ps(3) by (auto simp: sorted_append)
  moreover have "\<forall>(m, ts) \<in> set (qs @ ps). m \<in> (\<lambda>k. minute_of (clock k)) ` set (k # ks) \<and> (\<forall>(_, t) \<in> set ts. fst (tick_key t) = m)"
    using qs(3) ps(4) by auto
  ultimately show ?case by blast
qed

text \<open>What is produced, with what is still open, are the candles of the ticks.\<close>

lemma replay_candles:
  assumes "keys_once env" and "timed clock rows" and "sorted ks"
    and "fold_res (\<lambda>k. replay_ledger env id_map (rows k)) ks st = Inr st'" and "holding s st = ([], accumulator_new)"
  shows "produced s st' @ flush_all (rp_ops env) (entry accumulator_new s (rs_accs st')) =
      candles_of (rp_ops env) (ticks_of s (replayed env id_map rows ks st))"
    and "entry 0 s (rs_ticks st') = entry 0 s (rs_ticks st) + of_nat (length (ticks_of s (replayed env id_map rows ks st)))"
proof -
  obtain ps where ps: "passes env ps st st'" "concat (map snd ps) = replayed env id_map rows ks st" "sorted (map fst ps)"
      "\<forall>(m, ts) \<in> set ps. \<forall>(_, t) \<in> set ts. fst (tick_key t) = m"
    using replay_passes [OF assms(1-4)] by (auto simp: split_beta)
  let ?qs = "map (\<lambda>(m, ts). (m, ticks_of s ts)) ps"
  have "sorted_wrt (\<lambda>(m, _) (_, ts). \<forall>t \<in> set ts. \<not> fst (tick_key t) < m) ?qs"
    using ps(3,4) by (induction ps) (fastforce simp: ticks_of_def)+
  then have "fst (fold (minutes.pass (rp_ops env)) ?qs ([], accumulator_new)) @
      flush_all (rp_ops env) (snd (fold (minutes.pass (rp_ops env)) ?qs ([], accumulator_new))) =
      candles_of (rp_ops env) (ticks_of s (replayed env id_map rows ks st))"
    using minutes.stream_is_one_shot [OF _ holds_new, of ?qs "rp_ops env" "[]"] ticks_of_concat [of s ps] ps(2) by simp
  moreover have "fold (minutes.pass (rp_ops env)) ?qs ([], accumulator_new) = holding s st'"
    using ps(1) assms(5) by (simp add: passes_def)
  ultimately show "produced s st' @ flush_all (rp_ops env) (entry accumulator_new s (rs_accs st')) =
      candles_of (rp_ops env) (ticks_of s (replayed env id_map rows ks st))"
    by (simp add: holding_def)
  show "entry 0 s (rs_ticks st') = entry 0 s (rs_ticks st) + of_nat (length (ticks_of s (replayed env id_map rows ks st)))"
    using ps(1,2) by (simp add: passes_def)
qed

section \<open>A whole run\<close>

lemma drain_opens_candles:
  assumes "faultless env" and "distinct ss" and "fold_res (drain_open env False) ss st = Inr st'"
  shows "candles_for s (rs_trace st') = candles_for s (rs_trace st) @
      (if s \<in> set ss then flush_all (rp_ops env) (entry accumulator_new s (rs_accs st)) else []) \<and> rs_ticks st' = rs_ticks st"
  using assms(2,3)
proof (induction ss arbitrary: st)
  case (Cons x ss)
  let ?cs = "flush_all (rp_ops env) (entry accumulator_new x (rs_accs st))"
  let ?st = "st\<lparr>rs_accs := AList.update x accumulator_new (rs_accs st)\<rparr>"
  obtain mid where mid: "emit_buffer env False ?cs x ?st = Inr mid" "emitted x ?cs ?st mid"
    using emit_buffer_faultless [OF assms(1)] by blast
  have accs: "rs_accs mid = rs_accs ?st" "rs_ticks mid = rs_ticks st"
    using mid(2) by (simp_all add: emitted_def same_work_def)
  have "drain_open env False x st = Inr mid"
    using mid(1) by (simp add: drain_open_def Let_def)
  then have "fold_res (drain_open env False) ss mid = Inr st'"
    using Cons.prems(2) by simp
  then show ?case
    using Cons.IH [of mid] Cons.prems(1) mid(2) accs by (auto simp: emitted_def)
qed simp

lemma flush_all_new [simp]: "flush_all ops accumulator_new = []"
  by (simp add: flush_all_def accumulator_new_def sorted_candles_def)

lemma finish_candles:
  assumes "faultless env" and "keys_once env" and "drained st" and "finish_reprice env False st = Inr st'"
  shows "candles_for s (rs_trace st') = produced s st @ flush_all (rp_ops env) (entry accumulator_new s (rs_accs st)) \<and>
    rs_ticks st' = rs_ticks st"
proof -
  obtain mid where mid: "fold_res (drain_open env False) (rp_acc_keys env (rs_accs st)) st = Inr mid"
    using assms(4) by (auto simp: finish_reprice_def)
  have keys: "set (rp_acc_keys env (rs_accs st)) = fst ` set (rs_accs st)" "distinct (rp_acc_keys env (rs_accs st))"
    using assms(2) by (simp_all add: keys_once_def)
  have "candles_for s (rs_trace st') = candles_for s (rs_trace mid)" "rs_ticks st' = rs_ticks mid"
    using assms(1,4) mid by (auto simp: finish_reprice_def Let_def rp_emit_def faultless_def split: if_splits)
  then show ?thesis
    using drain_opens_candles [OF assms(1) keys(2) mid, of s] keys(1) assms(3) entry_none [of s "rs_accs st"]
    by (auto simp: produced_def drained_def)
qed

lemma candles_of_distinct: "distinct (map candle_key (candles_of ops ts))"
  by (simp add: candles_of_def candle_of_def comp_def)

lemma sorted_ledger_range: "sorted (ledger_range lo hi)"
proof -
  have up: "(of_nat m :: u32) \<le> of_nat n" if "m \<le> n" "n \<le> unat hi" for m n
    using that unsigned_less [of hi, where ?'a = nat] by (simp add: word_le_nat_alt unat_of_nat)
  have "sorted_wrt (\<lambda>m n. (of_nat m :: u32) \<le> of_nat n) [unat lo..<Suc (unat hi)]"
    by (rule sorted_wrt_mono_rel [OF _ sorted_wrt_upt], rule up) auto
  then show ?thesis
    by (simp add: ledger_range_def sorted_map del: upt_Suc)
qed

text \<open>
  C7: A repricing run refines a one-shot aggregation: when closing times do not go back, the candles written for
  a source are the candles of all the ticks its ledgers add, each (minute, base, quote) once, and the tick count
  the run prints is the number of those ticks.
\<close>

theorem repricing_gives_the_candles_of_its_ticks:
  fixes rows :: "i64 list \<Rightarrow> u32 \<Rightarrow> stored_event list"
  assumes "in_ledger_order env rows" and "faultless env" and "iterates_all env" and "keys_once env"
    and "\<And>ids. timed clock (rows ids)" and "cl_start cli \<le> cl_end cli" and "\<not> cl_dry_run cli"
    and "rp_load_assets env = Inr assets" and "rp_load_pools env = Inr loaded" and "reprice_registry loaded = Inr reg"
    and "rp_resolve env (map fst (reg_venue reg)) = Inr id_map"
    and "reprice env cli = Inr st"
  shows "let ticks = ticks_of source (replayed env id_map (rows (map fst id_map))
        (ledger_range (cl_start cli) (cl_end cli)) (reprice_new env assets reg))
    in candles_for source (rs_trace st) = candles_of (rp_ops env) ticks \<and>
      distinct (map candle_key (candles_for source (rs_trace st))) \<and>
      entry 0 source (rs_ticks st) = of_nat (length ticks)"
proof -
  let ?new = "reprice_new env assets reg" and ?ks = "ledger_range (cl_start cli) (cl_end cli)"
  let ?ticks = "ticks_of source (replayed env id_map (rows (map fst id_map)) ?ks ?new)"
  let ?replay = "fold_res (\<lambda>k. replay_ledger env id_map (rows (map fst id_map) k)) ?ks ?new"
  obtain mid where mid: "fold_res (read_chunk env False id_map) (chunks (cl_chunk_size cli) (cl_end cli) (cl_start cli)) ?new = Inr mid"
      and finish: "finish_reprice env False mid = Inr st"
    using assms(7-12) by (auto simp: reprice_def before_run_def split: if_splits)
  have "agree same_work (fold_res (read_chunk env False id_map) (chunks (cl_chunk_size cli) (cl_end cli) (cl_start cli)) ?new) ?replay"
    using chunks_are_their_ledgers [OF assms(1,2) same_work_refl, of id_map "chunks (cl_chunk_size cli) (cl_end cli) (cl_start cli)" ?new]
      assms(6) by (simp add: chunks_cover)
  then obtain all where all: "?replay = Inr all" "same_work mid all"
    using mid by (auto elim: rel_sum.cases)
  have fresh: "holding source ?new = ([], accumulator_new)" "drained ?new" "entry 0 source (rs_ticks ?new) = 0"
    by (simp_all add: holding_def produced_def reprice_new_def entry_def drained_def)
  have "produced source mid = produced source all" "rs_accs mid = rs_accs all" "rs_ticks mid = rs_ticks all"
    using all(2) by (simp_all add: same_work_def)
  then have "candles_for source (rs_trace st) = candles_of (rp_ops env) ?ticks \<and>
      entry 0 source (rs_ticks st) = of_nat (length ?ticks)"
    using finish_candles [OF assms(2,4) read_chunks_drained [OF assms(2,3) fresh(2) mid] finish, of source]
      replay_candles [OF assms(4,5) sorted_ledger_range all(1) fresh(1)] fresh(3) by simp
  then show ?thesis by (simp add: Let_def candles_of_distinct)
qed

end
