(* ===== verification/Reprice_Returns.thy ===== *)
theory Reprice_Returns
  imports Reprice_Candles
begin

text \<open>
  A repricing run against a store that answers returns: no ledger makes it panic. A concrete run for the
  witnesses.
\<close>

section \<open>No ledger panics\<close>

lemma process_rows_total:
  "dec_laws ops \<Longrightarrow> sac_sound env (ss_assets st) \<Longrightarrow>
   \<exists>so. process_soroban_event_rows env ops iter seq ct evs st = Some so \<and> sac_sound env (ss_assets so)"
proof (induction env ops iter seq ct evs st rule: process_soroban_event_rows.induct)
  case (1 env ops iter seq ct st)
  then show ?case by (simp add: process_soroban_event_rows.simps)
next
  case (2 env ops iter seq ct ev evs st)
  obtain reg groups where f: "fold row_step (ev # takeWhile (\<lambda>e. re_transaction_id e = re_transaction_id ev) evs)
      (ss_registries st, []) = (reg, groups)"
    by (cases "fold row_step (ev # takeWhile (\<lambda>e. re_transaction_id e = re_transaction_id ev) evs) (ss_registries st, [])")
  obtain assets out where c: "classify_amm_groups env ops (iter groups) (re_transaction_index ev) reg seq ct (ss_assets st, ss_out st) =
      Some (assets, out)" "sac_sound env assets"
    using classify_groups_delta [OF 2(2,3)] by blast
  show ?case
    using "2.IH" [OF refl refl f [symmetric] c(1) refl 2(2)] c f by (simp add: process_soroban_event_rows.simps Let_def)
qed

definition sound :: "rp_env \<Rightarrow> rp_state \<Rightarrow> bool" where
  "sound env st \<longleftrightarrow> sac_sound (rp_asset_env env) (rs_assets st)"

abbreviation returns :: "rp_env \<Rightarrow> (rp_error \<times> rp_effect list, rp_state) result \<Rightarrow> bool" where
  "returns env m \<equiv> \<exists>st. m = Inr st \<and> sound env st"

lemma fold_res_returns:
  assumes "\<And>x st. sound env st \<Longrightarrow> returns env (f x st)" and "sound env st"
  shows "returns env (fold_res f xs st)"
  using assms(2)
proof (induction xs arbitrary: st)
  case (Cons x xs)
  then show ?case using assms(1) [OF Cons.prems, of x] by auto
qed simp

lemma flush_sources_assets [simp]: "rs_assets (fold (flush_source env m) ss st) = rs_assets st"
proof (induction ss arbitrary: st)
  case (Cons x ss)
  then show ?case by (simp add: flush_source_def Let_def split: prod.split)
qed simp

lemma finish_returns:
  assumes "dec_laws (rp_ops env)" and "sound env st"
  shows "returns env (finish_ledger env st)"
proof -
  have "\<exists>st'. accumulate_ledger env l ct evs st = Some st' \<and> sound env st'" for l ct evs
  proof -
    obtain so where so: "process_soroban_event_rows (rp_asset_env env) (rp_ops env) (rp_group_iter env) l ct evs
        \<lparr>ss_registries = rs_registries st, ss_assets = rs_assets st, ss_out = ledger_soroban_default\<rparr> = Some so"
        "sac_sound (rp_asset_env env) (ss_assets so)"
      using process_rows_total [OF assms(1), of "rp_asset_env env"
          "\<lparr>ss_registries = rs_registries st, ss_assets = rs_assets st, ss_out = ledger_soroban_default\<rparr>"] assms(2)
      unfolding sound_def by fastforce
    then show ?thesis by (simp add: accumulate_ledger_def Let_def sound_def)
  qed
  then have "returns env (finish_ledger env st)" if "rs_ledger st = Some l" "\<not> rs_missing st" for l
    using that by (auto simp: finish_ledger_def) (metis option.simps(5))
  then show ?thesis
    using assms(2) by (cases "rs_ledger st") (auto simp: finish_ledger_def)
qed

lemma sound_bind: "returns env m \<Longrightarrow> (\<And>s. sound env s \<Longrightarrow> returns env (f s)) \<Longrightarrow> returns env (rbind m f)"
  by auto

lemma read_row_returns:
  assumes "dec_laws (rp_ops env)" and "sound env st"
  shows "returns env (read_row env id_map r st)"
proof -
  have st: "sound env (st\<lparr>rs_total_events := rs_total_events st + 1\<rparr>)" using assms(2) by (simp add: sound_def)
  have start: "sound env s \<Longrightarrow> returns env (Inr (start_ledger r s))" for s
    by (simp add: sound_def start_ledger_def Let_def)
  have take: "sound env s \<Longrightarrow> returns env (Inr (if rs_missing s then s\<lparr>rs_events_missing := rs_events_missing s + 1\<rparr>
      else take_event env id_map r s))" for s
    by (simp add: sound_def take_event_def Let_def split: option.split prod.split)
  show ?thesis
    unfolding read_row_def Let_def
    by (rule sound_bind [OF _ take]) (use st sound_bind [OF finish_returns [OF assms(1) st] start] in simp)
qed

section \<open>No write fails\<close>

lemma emit_returns:
  assumes "faultless env" and "sound env st"
  shows "returns env (emit_buffer env dry_run cs source st)"
  using assms by (auto simp: emit_buffer_def Let_def rp_emit_def faultless_def sound_def sac_sound_def clear_pending_def)

lemma drain_buffers_returns: "faultless env \<Longrightarrow> sound env st \<Longrightarrow> returns env (drain_buffers env dry_run st)"
  unfolding drain_buffers_def
proof (rule fold_res_returns)
  fix source st
  assume "faultless env" "sound env st"
  then obtain s where "emit_buffer env dry_run (entry [] source (rs_buffers st)) source st = Inr s" "sound env s"
    using emit_returns by blast
  then show "returns env (drain_buffer env dry_run source st)"
    by (simp add: drain_buffer_def sound_def)
qed

lemma drain_opens_returns: "faultless env \<Longrightarrow> sound env st \<Longrightarrow> returns env (fold_res (drain_open env dry_run) ss st)"
proof (rule fold_res_returns)
  fix source st
  assume "faultless env" "sound env st"
  then have "returns env (emit_buffer env dry_run cs source (st\<lparr>rs_accs := accs\<rparr>))" for cs accs
    by (intro emit_returns) (simp_all add: sound_def)
  then show "returns env (drain_open env dry_run source st)"
    by (simp add: drain_open_def Let_def)
qed

lemma read_chunk_returns:
  assumes "dec_laws (rp_ops env)" and "faultless env" and "\<And>ids lo hi. snd (rp_stream env ids lo hi) = None" and "sound env st"
  shows "returns env (read_chunk env dry_run id_map c st)"
proof -
  obtain lo hi where c: "c = (lo, hi)" by (cases c)
  let ?rows = "fst (rp_stream env (map fst id_map) lo hi)"
  have "sound env (start_chunk st)" using assms(4) by (simp add: sound_def start_chunk_def)
  then obtain s1 where s1: "fold_res (read_row env id_map) ?rows (start_chunk st) = Inr s1" "sound env s1"
    using fold_res_returns [where f = "read_row env id_map", OF read_row_returns [OF assms(1)]] by blast
  obtain s2 where s2: "finish_ledger env s1 = Inr s2" "sound env s2"
    using finish_returns [OF assms(1) s1(2)] by blast
  show ?thesis
    using drain_buffers_returns [OF assms(2) s2(2)] assms(3) [of "map fst id_map" lo hi]
    by (simp add: c read_chunk_def s1 s2 split_beta)
qed

text \<open>A run whose queries and writes succeed returns.\<close>

lemma repricing_returns:
  assumes "dec_laws (rp_ops env)" and "faultless env" and "\<And>ids lo hi. snd (rp_stream env ids lo hi) = None"
    and "rp_load_assets env = Inr assets" and "rp_load_pools env = Inr loaded" and "reprice_registry loaded = Inr reg"
    and "rp_resolve env (map fst (reg_venue reg)) = Inr id_map" and "id_map \<noteq> []"
  shows "\<exists>st. reprice env cli = Inr st"
proof -
  have "sound env (reprice_new env assets reg)"
    using registry_ok_sound [OF from_existing_ok] by (simp add: sound_def reprice_new_def)
  then obtain mid where mid: "fold_res (read_chunk env (cl_dry_run cli) id_map) (chunks (cl_chunk_size cli) (cl_end cli) (cl_start cli))
      (reprice_new env assets reg) = Inr mid" "sound env mid"
    using fold_res_returns [where f = "read_chunk env (cl_dry_run cli) id_map", OF read_chunk_returns [OF assms(1-3)]] by blast
  then obtain last where "fold_res (drain_open env (cl_dry_run cli)) (rp_acc_keys env (rs_accs mid)) mid = Inr last"
    using drain_opens_returns [OF assms(2)] by blast
  then show ?thesis
    using assms(2) by (simp add: reprice_def before_run_def assms(4-8) mid(1) finish_reprice_def Let_def rp_emit_def faultless_def)
qed

section \<open>A concrete run\<close>

text \<open>A store with one swap in each ledger, a second apart, of a pool of the registry.\<close>

definition sample_clock :: "u32 \<Rightarrow> i64" where
  "sample_clock k = ucast k"

definition sample_stored :: "u32 \<Rightarrow> stored_event" where
  "sample_stored k = \<lparr>sv_contract_id = 7, sv_transaction_id = ucast k, sv_ledger_sequence = k, sv_operation_index = 0,
     sv_event_index = 3, sv_closed_at = sample_clock k, sv_topics_xdr = ''topics'', sv_data_xdr = ''data'',
     sv_application_order = 1\<rparr>"

definition sample_rp_env :: rp_env where
  "sample_rp_env = \<lparr>rp_asset_env = sample_env, rp_ops = exact_ops, rp_hex = (\<lambda>_. []), rp_group_iter = id,
     rp_acc_keys = (\<lambda>m. remdups (map fst m)), rp_buffer_keys = map fst,
     rp_parse = (\<lambda>s. if s = ''topics'' then Some (xe_topics sample_event) else if s = ''data'' then Some (xe_data sample_event) else None),
     rp_load_assets = Inr [], rp_load_pools = Inr sample_reg, rp_resolve = (\<lambda>_. Inr [(7, ''P'')]),
     rp_stream = (\<lambda>_ lo hi. (concat (map (\<lambda>k. [sample_stored k]) (ledger_range lo hi)), None)),
     rp_factory_stream = (\<lambda>_ _. ([], None)), rp_failure = (\<lambda>_ _. None)\<rparr>"

definition sample_cli :: rp_cli where
  "sample_cli = \<lparr>cl_start = 100, cl_end = 160, cl_chunk_size = 7, cl_dry_run = False\<rparr>"

lemma sample_rp:
  "in_ledger_order sample_rp_env (\<lambda>_ k. [sample_stored k])" "faultless sample_rp_env" "iterates_all sample_rp_env"
  "keys_once sample_rp_env" "cl_start sample_cli \<le> cl_end sample_cli" "\<not> cl_dry_run sample_cli"
  "rp_load_assets sample_rp_env = Inr []" "rp_load_pools sample_rp_env = Inr sample_reg"
  "reprice_registry sample_reg = Inr (merge_static_pools sample_reg)"
  "rp_resolve sample_rp_env x = Inr [(7, ''P'')]" "rp_ops sample_rp_env = exact_ops"
  by (simp_all add: in_ledger_order_def sample_rp_env_def faultless_def iterates_all_def keys_once_def sample_cli_def
      reprice_registry_def sample_reg_def registries_new_def sample_stored_def)

lemma minute_mono: "k \<le> k' \<Longrightarrow> minute_of (ucast k) \<le> minute_of (ucast (k' :: u32))"
proof -
  have "unat ((j div 60) * 60) = unat j div 60 * 60" for j :: u32
  proof -
    have "unat j div 60 * 60 \<le> unat j" by (rule div_times_less_eq_dividend)
    then have "unat j div 60 * 60 < 2 ^ 32" using unsigned_less [of j, where ?'a = nat] by simp
    then show ?thesis by (simp add: unat_word_ariths unat_div)
  qed
  then show "k \<le> k' \<Longrightarrow> minute_of (ucast k) \<le> minute_of (ucast k')"
    by (simp add: minute_of_def word_le_nat_alt div_le_mono)
qed

lemma sample_timed: "timed sample_clock (\<lambda>k. [sample_stored k])"
  using minute_mono by (simp add: timed_def sample_stored_def sample_clock_def)

lemma sample_reprice: "\<exists>st. reprice sample_rp_env cli = Inr st"
  by (rule repricing_returns [OF _ sample_rp(2) _ sample_rp(7-9) sample_rp(10)])
    (simp_all add: sample_rp_env_def exact_ops_laws)

theorem chunk_size_is_irrelevant_witness:
  "\<exists>st st'. reprice sample_rp_env sample_cli = Inr st \<and> reprice sample_rp_env (sample_cli\<lparr>cl_chunk_size := 61\<rparr>) = Inr st' \<and>
    same_results st st'"
  using sample_reprice [of sample_cli] chunk_size_is_irrelevant [OF sample_rp(1-3,5,6), where size' = 61] by blast

theorem repricing_gives_the_candles_of_its_ticks_witness:
  "\<exists>st ticks. reprice sample_rp_env sample_cli = Inr st \<and>
    candles_for ''sushiswap'' (rs_trace st) = candles_of exact_ops ticks \<and>
    distinct (map candle_key (candles_for ''sushiswap'' (rs_trace st))) \<and>
    entry 0 ''sushiswap'' (rs_ticks st) = of_nat (length ticks)"
proof -
  obtain st where st: "reprice sample_rp_env sample_cli = Inr st" using sample_reprice by blast
  show ?thesis
    using repricing_gives_the_candles_of_its_ticks [OF sample_rp(1-4) sample_timed sample_rp(5-10) st, of "''sushiswap''"] st
    unfolding Let_def sample_rp(11) by blast
qed

end
