(* ===== verification/Enrich_Pass.thy ===== *)
theory Enrich_Pass
  imports Canonical
begin

text \<open>
  One enrichment pass (\<open>enrichment-worker/src/ch_enrich.rs\<close>): the refusals of a USD reset, the reset itself, the
  oracle tier, then, only once that tier has drained, the external and the peg-pivot tier. The statements run in
  ClickHouse: their effect on the tables and the answers of the queries are parameters, over an abstract state of
  the database.
\<close>

section \<open>Configuration and errors\<close>

record usd_reset_spec =
  ur_quote_asset_id :: u64
  ur_not_before :: u32
  ur_not_after :: "u32 option"
  ur_require_external_rate :: bool
  ur_require_pivot_usdc_rate :: bool

record enrich_config =
  ec_database :: string
  ec_table :: string
  ec_oracle_name :: string
  ec_window_s :: u32
  ec_pivot_window_s :: u32
  ec_recent_window_s :: u32
  ec_batch_size :: u64
  ec_max_batches :: u32
  ec_one_shot :: bool
  ec_time_window :: "(u32 \<times> u32) option"
  ec_usd_reset :: "usd_reset_spec option"

definition enrich_config_default :: enrich_config where
  "enrich_config_default = \<lparr>ec_database = ''prices'', ec_table = ''price_ohlcv_1m'', ec_oracle_name = ''reflector'', ec_window_s = 300,
     ec_pivot_window_s = 86400, ec_recent_window_s = 14400, ec_batch_size = 10000, ec_max_batches = 20,
     ec_one_shot = False, ec_time_window = None, ec_usd_reset = None\<rparr>"

datatype ch_error =
  ChClickhouse string
| FreezeDenied string u32 string
| ResetBlockedByOracleRows u64 string u64 string
| ResetBlockedByPreEpochOracleRows u64 string u64
| ResetRequiresExternalRates u64
| ResetRequiresHourlyRates string
| ResetExternalRateLegIsNotUsdc u64 u64
| ResetModesAreMutuallyExclusive u64
| ResetPivotRateLegIsNotAPivotReference u64 u64 "u64 list"
| ResetPlainModeOnPivotLeg u64
| ResetWindowEmpty u64 u32 u32
| ResetTargetHasNoPricingPath u64 "u64 list" "u64 list"
| ResetEpochBelowReference u64 string u32 u32
| ResetEpochHasNoReference u64 string
| ResetEpochUsdcUnresolved u64
| ResetRequiresOneShot u64

definition validate_reset :: "usd_reset_spec \<Rightarrow> (ch_error, unit) result" where
  "validate_reset spec =
     (if ur_require_external_rate spec \<and> ur_require_pivot_usdc_rate spec
      then Inl (ResetModesAreMutuallyExclusive (ur_quote_asset_id spec))
      else case ur_not_after spec of
        Some na \<Rightarrow> if na \<le> ur_not_before spec then Inl (ResetWindowEmpty (ur_quote_asset_id spec) (ur_not_before spec) na) else Inr ()
      | None \<Rightarrow> Inr ())"

section \<open>The reference assets\<close>

record reference_ids =
  rf_xlm :: "u64 option"
  rf_usdc :: "u64 option"
  rf_usdt :: "u64 option"

definition flatten :: "'a option list \<Rightarrow> 'a list" where
  "flatten xs = List.map_filter id xs"

definition stable_ids :: "reference_ids \<Rightarrow> u64 list" where
  "stable_ids refs = flatten [rf_usdc refs]"

definition pivot_ids :: "reference_ids \<Rightarrow> u64 list" where
  "pivot_ids refs = flatten [rf_xlm refs, rf_usdt refs]"

definition can_pivot :: "reference_ids \<Rightarrow> bool" where
  "can_pivot refs \<longleftrightarrow> rf_usdc refs \<noteq> None \<and> pivot_ids refs \<noteq> []"

definition has_any :: "reference_ids \<Rightarrow> bool" where
  "has_any refs \<longleftrightarrow> stable_ids refs \<noteq> [] \<or> can_pivot refs"

text \<open>Rows of the assets table as identifier, code and issuer; a later row overrides.\<close>

definition note_reference :: "u64 \<times> string \<times> string \<Rightarrow> reference_ids \<Rightarrow> reference_ids" where
  "note_reference = (\<lambda>(asset_id, code, issuer) refs.
     if code = ''XLM'' \<and> issuer = [] then refs\<lparr>rf_xlm := Some asset_id\<rparr>
     else if code = ''USDC'' \<and> issuer = usdc_issuer then refs\<lparr>rf_usdc := Some asset_id\<rparr>
     else if code = ''USDT'' \<and> issuer = usdt_issuer then refs\<lparr>rf_usdt := Some asset_id\<rparr>
     else refs)"

definition reference_ids_of :: "(u64 \<times> string \<times> string) list \<Rightarrow> reference_ids" where
  "reference_ids_of rows = fold note_reference rows \<lparr>rf_xlm = None, rf_usdc = None, rf_usdt = None\<rparr>"

section \<open>The database\<close>

text \<open>The statements that change it, and what a pass is seen to do: run a statement, or count the candidates.\<close>

datatype stmt =
  OracleBatch
| ExternalBatch u64
| PegBatch "u64 list"
| PivotBatch u64 u64
| ResetBatch

datatype ch_event = Ran stmt | Counted u64

record 'd ch_env =
  ch_exec :: "enrich_config \<Rightarrow> u32 \<Rightarrow> stmt \<Rightarrow> 'd \<Rightarrow> (string, 'd) result"
  ch_watermark :: "enrich_config \<Rightarrow> 'd \<Rightarrow> (string, u32) result"
  ch_count :: "enrich_config \<Rightarrow> u32 \<Rightarrow> 'd \<Rightarrow> (string, u64) result"
  ch_volume_zero :: "enrich_config \<Rightarrow> u32 \<Rightarrow> 'd \<Rightarrow> (string, u64 \<times> u64) result"
  ch_assets :: "'d \<Rightarrow> (string, (u64 \<times> string \<times> string) list) result"
  ch_reset_pending :: "enrich_config \<Rightarrow> usd_reset_spec \<Rightarrow> u32 \<Rightarrow> 'd \<Rightarrow> (string, u64) result"
  ch_oracle_rows :: "enrich_config \<Rightarrow> u64 \<Rightarrow> u32 \<Rightarrow> u32 option \<Rightarrow> 'd \<Rightarrow> (string, u64) result"
  ch_external_rates :: "'d \<Rightarrow> (string, u64) result"
  ch_hourly_rates :: "'d \<Rightarrow> (string, u64) result"
  ch_pre_epoch_rows :: "enrich_config \<Rightarrow> u64 \<Rightarrow> 'd \<Rightarrow> (string, u64) result"
  ch_first_reference :: "enrich_config \<Rightarrow> u64 \<Rightarrow> u64 \<Rightarrow> 'd \<Rightarrow> (string, u32 option) result"

record 'd ch_state =
  cs_db :: 'd
  cs_trace :: "ch_event list"

type_synonym ('s, 'a) ch_prog = "'s \<Rightarrow> (ch_error \<times> 's, 'a \<times> 's) result"

definition ch_fail :: "ch_error \<Rightarrow> ('s, 'a) ch_prog" where
  "ch_fail e st = Inl (e, st)"

definition ch_return :: "'a \<Rightarrow> ('s, 'a) ch_prog" where
  "ch_return x st = Inr (x, st)"

definition ch_bind :: "('s, 'a) ch_prog \<Rightarrow> ('a \<Rightarrow> ('s, 'b) ch_prog) \<Rightarrow> ('s, 'b) ch_prog" where
  "ch_bind m f st = rbind (m st) (\<lambda>(x, st). f x st)"

definition ch_read :: "('d \<Rightarrow> (string, 'a) result) \<Rightarrow> ('d ch_state, 'a) ch_prog" where
  "ch_read q st = (case q (cs_db st) of Inl message \<Rightarrow> ch_fail (ChClickhouse message) st | Inr x \<Rightarrow> ch_return x st)"

definition ch_lift :: "(ch_error, 'a) result \<Rightarrow> ('s, 'a) ch_prog" where
  "ch_lift r = (case r of Inl e \<Rightarrow> ch_fail e | Inr x \<Rightarrow> ch_return x)"

definition ch_run :: "'d ch_env \<Rightarrow> enrich_config \<Rightarrow> u32 \<Rightarrow> stmt \<Rightarrow> ('d ch_state, unit) ch_prog" where
  "ch_run env cfg wm s st =
     (case ch_exec env cfg wm s (cs_db st) of
        Inl message \<Rightarrow> ch_fail (ChClickhouse message) st
      | Inr d \<Rightarrow> ch_return () (st\<lparr>cs_db := d, cs_trace := cs_trace st @ [Ran s]\<rparr>))"

definition count_candidates :: "'d ch_env \<Rightarrow> enrich_config \<Rightarrow> u32 \<Rightarrow> ('d ch_state, u64) ch_prog" where
  "count_candidates env cfg wm = ch_bind (ch_read (ch_count env cfg wm))
     (\<lambda>n st. ch_return n (st\<lparr>cs_trace := cs_trace st @ [Counted n]\<rparr>))"

definition resolve_reference_ids :: "'d ch_env \<Rightarrow> ('d ch_state, reference_ids) ch_prog" where
  "resolve_reference_ids env = ch_bind (ch_read (ch_assets env)) (\<lambda>rows. ch_return (reference_ids_of rows))"

section \<open>Refusals of a reset\<close>

definition assert_reset_target_is_priceable :: "usd_reset_spec \<Rightarrow> reference_ids \<Rightarrow> (ch_error, unit) result" where
  "assert_reset_target_is_priceable spec refs =
     (if ur_quote_asset_id spec \<in> set (stable_ids refs) \<or> ur_quote_asset_id spec \<in> set (pivot_ids refs) then Inr ()
      else Inl (ResetTargetHasNoPricingPath (ur_quote_asset_id spec) (stable_ids refs) (pivot_ids refs)))"

definition check_plain_mode_leg :: "usd_reset_spec \<Rightarrow> reference_ids \<Rightarrow> (ch_error, unit) result" where
  "check_plain_mode_leg spec refs =
     (if ur_require_external_rate spec \<or> ur_require_pivot_usdc_rate spec then Inr ()
      else if ur_quote_asset_id spec \<in> set (pivot_ids refs) then Inl (ResetPlainModeOnPivotLeg (ur_quote_asset_id spec))
      else Inr ())"

text \<open>The scan starts one forward-fill window below the reset.\<close>

definition oracle_scan_from :: "enrich_config \<Rightarrow> usd_reset_spec \<Rightarrow> u32" where
  "oracle_scan_from cfg spec =
     (if ur_not_before spec < ec_window_s cfg then 0 else ur_not_before spec - ec_window_s cfg)"

definition scanned_window :: "enrich_config \<Rightarrow> usd_reset_spec \<Rightarrow> string" where
  "scanned_window cfg spec =
     (let show = (\<lambda>w. show_nat (unat w)); nb = show (oracle_scan_from cfg spec);
          tail = '') (scanned from '' @ nb @ '', one forward-fill window below --reset-not-before '' @
            show (ur_not_before spec) @ '')''
      in ''['' @ nb @ '', '' @ (case ur_not_after spec of Some na \<Rightarrow> show na | None \<Rightarrow> ''all time'') @ tail)"

definition assert_reset_not_shadowed_by_oracle :: "'d ch_env \<Rightarrow> enrich_config \<Rightarrow> usd_reset_spec \<Rightarrow> ('d ch_state, unit) ch_prog" where
  "assert_reset_not_shadowed_by_oracle env cfg spec =
     ch_bind (ch_read (ch_oracle_rows env cfg (ur_quote_asset_id spec) (oracle_scan_from cfg spec) (ur_not_after spec))) (\<lambda>rows.
       if 0 < rows
       then ch_fail (ResetBlockedByOracleRows (ur_quote_asset_id spec) (ec_oracle_name cfg) rows (scanned_window cfg spec))
       else ch_return ())"

definition or_zero :: "u64 option \<Rightarrow> u64" where
  "or_zero x = (case x of Some v \<Rightarrow> v | None \<Rightarrow> 0)"

definition assert_external_rate_leg_is_usdc :: "usd_reset_spec \<Rightarrow> reference_ids \<Rightarrow> (ch_error, unit) result" where
  "assert_external_rate_leg_is_usdc spec refs =
     (if rf_usdc refs = Some (ur_quote_asset_id spec) then Inr ()
      else Inl (ResetExternalRateLegIsNotUsdc (ur_quote_asset_id spec) (or_zero (rf_usdc refs))))"

definition assert_pivot_rate_leg_is_a_pivot_reference :: "usd_reset_spec \<Rightarrow> reference_ids \<Rightarrow> (ch_error, unit) result" where
  "assert_pivot_rate_leg_is_a_pivot_reference spec refs =
     (if can_pivot refs \<and> ur_quote_asset_id spec \<in> set (pivot_ids refs) then Inr ()
      else Inl (ResetPivotRateLegIsNotAPivotReference (ur_quote_asset_id spec) (or_zero (rf_usdc refs)) (pivot_ids refs)))"

definition assert_external_rates_are_loaded :: "'d ch_env \<Rightarrow> usd_reset_spec \<Rightarrow> ('d ch_state, unit) ch_prog" where
  "assert_external_rates_are_loaded env spec =
     ch_bind (ch_read (ch_external_rates env)) (\<lambda>rows.
       if rows = 0 then ch_fail (ResetRequiresExternalRates (ur_quote_asset_id spec)) else ch_return ())"

definition bucket_width_s :: "string \<Rightarrow> u32" where
  "bucket_width_s table =
     (if table = ''price_ohlcv_1m'' then 60 else if table = ''price_ohlcv_15m'' then 900
      else if table = ''price_ohlcv_1h'' then 3600 else if table = ''price_ohlcv_4h'' then 14400
      else if table = ''price_ohlcv_1d'' then 86400 else if table = ''price_ohlcv_1w'' then 604800
      else if table = ''price_ohlcv_1M'' then 2678400 else 0)"

definition assert_hourly_rates_are_loaded :: "'d ch_env \<Rightarrow> enrich_config \<Rightarrow> ('d ch_state, unit) ch_prog" where
  "assert_hourly_rates_are_loaded env cfg =
     (let width = bucket_width_s (ec_table cfg)
      in if width = 0 \<or> 86400 \<le> width then ch_return ()
         else ch_bind (ch_read (ch_hourly_rates env)) (\<lambda>rows.
           if rows = 0 then ch_fail (ResetRequiresHourlyRates (ec_table cfg)) else ch_return ()))"

definition assert_no_pre_epoch_oracle_rows :: "'d ch_env \<Rightarrow> enrich_config \<Rightarrow> usd_reset_spec \<Rightarrow> ('d ch_state, unit) ch_prog" where
  "assert_no_pre_epoch_oracle_rows env cfg spec =
     ch_bind (ch_read (ch_pre_epoch_rows env cfg (ur_quote_asset_id spec))) (\<lambda>rows.
       if 0 < rows then ch_fail (ResetBlockedByPreEpochOracleRows (ur_quote_asset_id spec) (ec_oracle_name cfg) rows)
       else ch_return ())"

definition check_reset_epoch :: "u64 \<Rightarrow> string \<Rightarrow> u32 \<Rightarrow> u32 option \<Rightarrow> (ch_error, unit) result" where
  "check_reset_epoch quote_asset_id table not_before first_reference =
     (case first_reference of
        None \<Rightarrow> Inl (ResetEpochHasNoReference quote_asset_id table)
      | Some fr \<Rightarrow> if not_before < fr then Inl (ResetEpochBelowReference quote_asset_id table not_before fr) else Inr ())"

definition assert_reset_epoch_is_covered ::
  "'d ch_env \<Rightarrow> enrich_config \<Rightarrow> usd_reset_spec \<Rightarrow> reference_ids \<Rightarrow> ('d ch_state, unit) ch_prog" where
  "assert_reset_epoch_is_covered env cfg spec refs =
     (if ur_quote_asset_id spec \<notin> set (pivot_ids refs) then ch_return ()
      else case rf_usdc refs of
        None \<Rightarrow> ch_fail (ResetEpochUsdcUnresolved (ur_quote_asset_id spec))
      | Some usdc_id \<Rightarrow>
          ch_bind (ch_read (ch_first_reference env cfg (ur_quote_asset_id spec) usdc_id)) (\<lambda>first.
            ch_lift (check_reset_epoch (ur_quote_asset_id spec) (ec_table cfg) (ur_not_before spec) first)))"

definition ch_when :: "bool \<Rightarrow> ('s, unit) ch_prog \<Rightarrow> ('s, unit) ch_prog" where
  "ch_when b m = (if b then m else ch_return ())"

definition assert_reset_is_admissible :: "'d ch_env \<Rightarrow> enrich_config \<Rightarrow> ('d ch_state, unit) ch_prog" where
  "assert_reset_is_admissible env cfg =
     (case ec_usd_reset cfg of
        None \<Rightarrow> ch_return ()
      | Some spec \<Rightarrow>
          ch_bind (ch_lift (validate_reset spec)) (\<lambda>_.
          ch_bind (resolve_reference_ids env) (\<lambda>refs.
          ch_bind (ch_lift (assert_reset_target_is_priceable spec refs)) (\<lambda>_.
          ch_bind (ch_lift (check_plain_mode_leg spec refs)) (\<lambda>_.
          ch_bind (assert_reset_not_shadowed_by_oracle env cfg spec) (\<lambda>_.
          ch_bind (ch_when (ur_require_external_rate spec)
            (ch_bind (ch_lift (assert_external_rate_leg_is_usdc spec refs)) (\<lambda>_.
             ch_bind (assert_external_rates_are_loaded env spec) (\<lambda>_.
             ch_bind (assert_hourly_rates_are_loaded env cfg) (\<lambda>_.
             assert_no_pre_epoch_oracle_rows env cfg spec))))) (\<lambda>_.
          ch_bind (ch_when (ur_require_pivot_usdc_rate spec)
            (ch_bind (ch_lift (assert_pivot_rate_leg_is_a_pivot_reference spec refs)) (\<lambda>_.
             assert_external_rates_are_loaded env spec))) (\<lambda>_.
          assert_reset_epoch_is_covered env cfg spec refs))))))))"

section \<open>The reset\<close>

definition effective_max_batches :: "enrich_config \<Rightarrow> u32" where
  "effective_max_batches cfg = (if ec_one_shot cfg then - 1 else ec_max_batches cfg)"

definition sat_sub :: "u64 \<Rightarrow> u64 \<Rightarrow> u64" where
  "sat_sub a b = (if a < b then 0 else a - b)"

text \<open>The loop over the batches of a reset, by the batches left; it answers what is still pending.\<close>

fun reset_loop :: "'d ch_env \<Rightarrow> enrich_config \<Rightarrow> usd_reset_spec \<Rightarrow> u32 \<Rightarrow> nat \<Rightarrow> u64 \<Rightarrow> ('d ch_state, u64) ch_prog" where
  "reset_loop env cfg spec wm 0 pending = ch_return pending"
| "reset_loop env cfg spec wm (Suc n) pending =
     (if pending = 0 then ch_return pending
      else ch_bind (ch_run env cfg wm ResetBatch) (\<lambda>_.
           ch_bind (ch_read (ch_reset_pending env cfg spec wm)) (\<lambda>after.
             if pending \<le> after then ch_return after else reset_loop env cfg spec wm n after)))"

definition reset_step :: "'d ch_env \<Rightarrow> enrich_config \<Rightarrow> usd_reset_spec \<Rightarrow> u32 \<Rightarrow> ('d ch_state, u64) ch_prog" where
  "reset_step env cfg spec wm =
     (if \<not> ec_one_shot cfg then ch_fail (ResetRequiresOneShot (ur_quote_asset_id spec))
      else ch_bind (assert_reset_is_admissible env cfg) (\<lambda>_.
           ch_bind (ch_read (ch_reset_pending env cfg spec wm)) (\<lambda>before.
             if before = 0 then ch_return 0
             else ch_bind (reset_loop env cfg spec wm (unat (effective_max_batches cfg)) before)
               (\<lambda>pending. ch_return (sat_sub before pending)))))"

section \<open>The tiers\<close>

record tier_state =
  ts_remaining :: u64
  ts_batches :: u32
  ts_drained :: bool

text \<open>
  The loop of a tier: run its statements, count again, stop when nothing is left or nothing moved. The oracle tier
  reads the flag, which tells a drained tier from one that ran out of batches.
\<close>

fun tier_loop :: "'d ch_env \<Rightarrow> enrich_config \<Rightarrow> u32 \<Rightarrow> ('d ch_state, unit) ch_prog \<Rightarrow> nat \<Rightarrow> tier_state \<Rightarrow> ('d ch_state, tier_state) ch_prog" where
  "tier_loop env cfg wm step 0 ts = ch_return ts"
| "tier_loop env cfg wm step (Suc n) ts =
     (if ts_remaining ts = 0 then ch_return (ts\<lparr>ts_drained := True\<rparr>)
      else ch_bind step (\<lambda>_. ch_bind (count_candidates env cfg wm) (\<lambda>after.
        if ts_remaining ts \<le> after
        then ch_return (ts\<lparr>ts_remaining := after, ts_batches := ts_batches ts + 1, ts_drained := True\<rparr>)
        else tier_loop env cfg wm step n (ts\<lparr>ts_remaining := after, ts_batches := ts_batches ts + 1\<rparr>))))"

definition plan_peg_pivot_step :: "reference_ids \<Rightarrow> stmt list" where
  "plan_peg_pivot_step refs =
     (if stable_ids refs = [] then [] else [PegBatch (stable_ids refs)]) @
     (case rf_usdc refs of None \<Rightarrow> [] | Some usdc_id \<Rightarrow> map (\<lambda>ref_id. PivotBatch ref_id usdc_id) (pivot_ids refs))"

fun run_all :: "'d ch_env \<Rightarrow> enrich_config \<Rightarrow> u32 \<Rightarrow> stmt list \<Rightarrow> ('d ch_state, unit) ch_prog" where
  "run_all env cfg wm [] = ch_return ()"
| "run_all env cfg wm (s # ss) = ch_bind (ch_run env cfg wm s) (\<lambda>_. run_all env cfg wm ss)"

definition enrich_peg_pivot_step :: "'d ch_env \<Rightarrow> enrich_config \<Rightarrow> u32 \<Rightarrow> reference_ids \<Rightarrow> ('d ch_state, unit) ch_prog" where
  "enrich_peg_pivot_step env cfg wm refs = run_all env cfg wm (plan_peg_pivot_step refs)"

definition run_tier :: "'d ch_env \<Rightarrow> enrich_config \<Rightarrow> u32 \<Rightarrow> ('d ch_state, unit) ch_prog \<Rightarrow> tier_state \<Rightarrow> ('d ch_state, tier_state) ch_prog" where
  "run_tier env cfg wm step ts = tier_loop env cfg wm step (unat (effective_max_batches cfg)) ts"

definition run_external_tier :: "'d ch_env \<Rightarrow> enrich_config \<Rightarrow> u32 \<Rightarrow> u64 \<Rightarrow> tier_state \<Rightarrow> ('d ch_state, tier_state) ch_prog" where
  "run_external_tier env cfg wm usdc_id = run_tier env cfg wm (ch_run env cfg wm (ExternalBatch usdc_id))"

definition run_peg_pivot_tier :: "'d ch_env \<Rightarrow> enrich_config \<Rightarrow> u32 \<Rightarrow> reference_ids \<Rightarrow> tier_state \<Rightarrow> ('d ch_state, tier_state) ch_prog" where
  "run_peg_pivot_tier env cfg wm refs = run_tier env cfg wm (enrich_peg_pivot_step env cfg wm refs)"

definition run_oracle_tier :: "'d ch_env \<Rightarrow> enrich_config \<Rightarrow> u32 \<Rightarrow> u64 \<Rightarrow> ('d ch_state, tier_state) ch_prog" where
  "run_oracle_tier env cfg wm before =
     run_tier env cfg wm (ch_run env cfg wm OracleBatch) \<lparr>ts_remaining = before, ts_batches = 0, ts_drained = (before = 0)\<rparr>"

text \<open>The tiers below the oracle, on what it could not price.\<close>

definition run_reference_tiers :: "'d ch_env \<Rightarrow> enrich_config \<Rightarrow> u32 \<Rightarrow> tier_state \<Rightarrow> ('d ch_state, tier_state) ch_prog" where
  "run_reference_tiers env cfg wm ts =
     (if ts_remaining ts = 0 \<or> \<not> ts_drained ts then ch_return ts
      else ch_bind (resolve_reference_ids env) (\<lambda>refs.
           ch_bind (case rf_usdc refs of Some usdc_id \<Rightarrow> run_external_tier env cfg wm usdc_id ts | None \<Rightarrow> ch_return ts) (\<lambda>ts.
             if ts_remaining ts \<noteq> 0 \<and> has_any refs then run_peg_pivot_tier env cfg wm refs ts else ch_return ts)))"

section \<open>The pass\<close>

record ch_pass_stats =
  cp_batches :: u32
  cp_candidates_before :: u64
  cp_candidates_after :: u64
  cp_rows_enriched :: u64
  cp_rows_reset :: u64
  cp_oracle_misses :: u64
  cp_remaining_at_volume_zero :: u64
  cp_remaining_recent :: u64

definition pass_stats :: "u64 \<Rightarrow> u64 \<Rightarrow> tier_state \<Rightarrow> tier_state \<Rightarrow> u64 \<times> u64 \<Rightarrow> ch_pass_stats" where
  "pass_stats rows_reset before ot ts = (\<lambda>(total, recent).
     \<lparr>cp_batches = ts_batches ts, cp_candidates_before = before, cp_candidates_after = ts_remaining ts,
       cp_rows_enriched = sat_sub before (ts_remaining ts), cp_rows_reset = rows_reset,
       cp_oracle_misses = (if ts_drained ot then ts_remaining ot else 0),
       cp_remaining_at_volume_zero = total, cp_remaining_recent = recent\<rparr>)"

definition run_through :: "'d ch_env \<Rightarrow> enrich_config \<Rightarrow> u32 \<Rightarrow> ('d ch_state, ch_pass_stats) ch_prog" where
  "run_through env cfg wm =
     ch_bind (case ec_usd_reset cfg of Some spec \<Rightarrow> reset_step env cfg spec wm | None \<Rightarrow> ch_return 0) (\<lambda>rows_reset.
     ch_bind (count_candidates env cfg wm) (\<lambda>before.
     ch_bind (run_oracle_tier env cfg wm before) (\<lambda>ot.
     ch_bind (run_reference_tiers env cfg wm ot) (\<lambda>ts.
     ch_bind (ch_read (ch_volume_zero env cfg wm)) (\<lambda>rest.
     ch_return (pass_stats rows_reset before ot ts rest))))))"

definition run_enrichment :: "'d ch_env \<Rightarrow> enrich_config \<Rightarrow> ('d ch_state, ch_pass_stats) ch_prog" where
  "run_enrichment env cfg = ch_bind (ch_read (ch_watermark env cfg)) (run_through env cfg)"

end
