(* ===== verification/Enrich_Trace.thy ===== *)
theory Enrich_Trace
  imports Enrich_Pass
begin

text \<open>
  What the programs of a pass do, as the events they add: a triple over the events of a returning and of a failing
  program. The tiers below the oracle run only after its batch moved nothing.
\<close>

section \<open>A calculus of events\<close>

definition does :: "('d ch_state, 'a) ch_prog \<Rightarrow> ('a \<Rightarrow> ch_event list \<Rightarrow> bool) \<Rightarrow> (ch_error \<Rightarrow> ch_event list \<Rightarrow> bool) \<Rightarrow> bool" where
  "does m P Q \<longleftrightarrow> (\<forall>st. case m st of
       Inl (e, st') \<Rightarrow> \<exists>t. cs_trace st' = cs_trace st @ t \<and> Q e t
     | Inr (x, st') \<Rightarrow> \<exists>t. cs_trace st' = cs_trace st @ t \<and> P x t)"

lemma does_InrD: "does m P Q \<Longrightarrow> m st = Inr (x, st') \<Longrightarrow> \<exists>t. cs_trace st' = cs_trace st @ t \<and> P x t"
  and does_InlD: "does m P Q \<Longrightarrow> m st = Inl (e, st') \<Longrightarrow> \<exists>t. cs_trace st' = cs_trace st @ t \<and> Q e t"
  by (auto simp: does_def dest!: spec [of _ st])

lemma does_conseq:
  assumes "does m P Q" and "\<And>x t. P x t \<Longrightarrow> P' x t" and "\<And>e t. Q e t \<Longrightarrow> Q' e t"
  shows "does m P' Q'"
  unfolding does_def
proof
  fix st
  show "case m st of Inl (e, st') \<Rightarrow> \<exists>t. cs_trace st' = cs_trace st @ t \<and> Q' e t
     | Inr (x, st') \<Rightarrow> \<exists>t. cs_trace st' = cs_trace st @ t \<and> P' x t"
  proof (cases "m st")
    case (Inl r)
    then show ?thesis using does_InlD [OF assms(1)] assms(3) by (cases r) fastforce
  next
    case (Inr r)
    then show ?thesis using does_InrD [OF assms(1)] assms(2) by (cases r) fastforce
  qed
qed

lemma does_return [intro]: "P x [] \<Longrightarrow> does (ch_return x) P Q"
  by (simp add: does_def ch_return_def)

lemma does_fail [intro]: "Q e [] \<Longrightarrow> does (ch_fail e) P Q"
  by (simp add: does_def ch_fail_def)

lemma does_read: "(\<And>x. P x []) \<Longrightarrow> (\<And>message. Q (ChClickhouse message) []) \<Longrightarrow> does (ch_read q) P Q"
  by (simp add: does_def ch_read_def ch_return_def ch_fail_def split: sum.split)

lemma does_lift: "(\<And>x. r = Inr x \<Longrightarrow> P x []) \<Longrightarrow> (\<And>e. r = Inl e \<Longrightarrow> Q e []) \<Longrightarrow> does (ch_lift r) P Q"
  by (simp add: does_def ch_lift_def ch_return_def ch_fail_def split: sum.split)

lemma does_run: "P () [Ran s] \<Longrightarrow> (\<And>message. Q (ChClickhouse message) []) \<Longrightarrow> does (ch_run env cfg wm s) P Q"
  by (simp add: does_def ch_run_def ch_return_def ch_fail_def split: sum.split)

lemma does_count: "(\<And>n d. ch_count env cfg wm d = Inr n \<Longrightarrow> P n [Counted n]) \<Longrightarrow> (\<And>message. Q (ChClickhouse message) []) \<Longrightarrow> does (count_candidates env cfg wm) P Q"
  by (simp add: does_def count_candidates_def ch_bind_def ch_read_def ch_return_def ch_fail_def rbind_def split: sum.split)

lemma does_bind:
  assumes "does m P Q" and "\<And>x t. P x t \<Longrightarrow> does (f x) (\<lambda>y u. P' y (t @ u)) (\<lambda>e u. Q' e (t @ u))" and "\<And>e t. Q e t \<Longrightarrow> Q' e t"
  shows "does (ch_bind m f) P' Q'"
  unfolding does_def
proof
  fix st
  show "case ch_bind m f st of Inl (e, st') \<Rightarrow> \<exists>t. cs_trace st' = cs_trace st @ t \<and> Q' e t
     | Inr (x, st') \<Rightarrow> \<exists>t. cs_trace st' = cs_trace st @ t \<and> P' x t"
  proof (cases "m st")
    case (Inl r)
    obtain e st1 where r: "r = (e, st1)" by (cases r)
    show ?thesis
      using does_InlD [OF assms(1), of st e st1] Inl assms(3) by (auto simp: r ch_bind_def)
  next
    case (Inr r)
    obtain x st1 where r: "r = (x, st1)" by (cases r)
    obtain t where t: "cs_trace st1 = cs_trace st @ t" "P x t"
      using does_InrD [OF assms(1), of st x st1] Inr by (auto simp: r)
    have "does (f x) (\<lambda>y u. P' y (t @ u)) (\<lambda>e u. Q' e (t @ u))" by (rule assms(2) [OF t(2)])
    from does_InrD [OF this, of st1] does_InlD [OF this, of st1] show ?thesis
      using t(1) Inr by (cases "f x st1") (auto simp: r ch_bind_def)
  qed
qed

lemma does_when: "does m (\<lambda>_. P) Q \<Longrightarrow> P [] \<Longrightarrow> does (ch_when b m) (\<lambda>_. P) Q"
  by (auto simp: ch_when_def)

section \<open>The rounds of a tier\<close>

text \<open>A round runs the statements of the tier and counts; the counts fall until they stop.\<close>

fun rounds :: "stmt list \<Rightarrow> u64 list \<Rightarrow> ch_event list" where
  "rounds ss [] = []"
| "rounds ss (n # ns) = map Ran ss @ Counted n # rounds ss ns"

definition settled :: "u64 list \<Rightarrow> bool" where
  "settled ns \<longleftrightarrow> (\<exists>ms m k. ns = ms @ [m, k] \<and> m \<le> k)"

definition falling :: "u64 list \<Rightarrow> bool" where
  "falling ns \<longleftrightarrow> sorted_wrt (>) ns"

lemma settled_Cons: "settled ns \<Longrightarrow> settled (n # ns)"
  unfolding settled_def by (metis append_Cons)

lemma falling_length: "falling (r # ns) \<Longrightarrow> length ns \<le> unat r"
proof (induction ns arbitrary: r)
  case (Cons n ns)
  then have "falling (n # ns)" "n < r" by (auto simp: falling_def)
  then show ?case using Cons.IH [of n] by (simp add: word_less_nat_alt)
qed simp

definition is_clickhouse :: "ch_error \<Rightarrow> bool" where
  "is_clickhouse e \<longleftrightarrow> (\<exists>message. e = ChClickhouse message)"

lemma is_clickhouse [simp]: "is_clickhouse (ChClickhouse message)"
  by (simp add: is_clickhouse_def)

text \<open>Every count a pass sees satisfies \<open>ok\<close>.\<close>

definition counts :: "'d ch_env \<Rightarrow> enrich_config \<Rightarrow> u32 \<Rightarrow> (u64 \<Rightarrow> bool) \<Rightarrow> bool" where
  "counts env cfg wm ok \<longleftrightarrow> (\<forall>d n. ch_count env cfg wm d = Inr n \<longrightarrow> ok n)"

lemma counts_any: "counts env cfg wm (\<lambda>_. True)"
  by (simp add: counts_def)

definition tier_events :: "(u64 \<Rightarrow> bool) \<Rightarrow> stmt list \<Rightarrow> nat \<Rightarrow> tier_state \<Rightarrow> tier_state \<Rightarrow> ch_event list \<Rightarrow> bool" where
  "tier_events ok ss n ts ts' t \<longleftrightarrow> (\<exists>ns. t = rounds ss ns \<and> list_all ok ns \<and> length ns \<le> n \<and> falling (ts_remaining ts # butlast ns) \<and>
     ts_batches ts' = ts_batches ts + of_nat (length ns) \<and> ts_remaining ts' = last (ts_remaining ts # ns) \<and>
     (ts_drained ts' \<longrightarrow> ts_drained ts \<or> ts_remaining ts' = 0 \<or> settled (ts_remaining ts # ns)) \<and>
     (length ns < n \<longrightarrow> ts_drained ts' \<and> (ts_remaining ts' = 0 \<or> settled (ts_remaining ts # ns))))"

definition tier_failed :: "stmt list \<Rightarrow> ch_error \<Rightarrow> ch_event list \<Rightarrow> bool" where
  "tier_failed ss e t \<longleftrightarrow> is_clickhouse e \<and> (\<exists>ns k. t = rounds ss ns @ map Ran (take k ss))"

lemma tier_loop_does:
  assumes "counts env cfg wm ok" and "does step (\<lambda>_ t. t = map Ran ss) (\<lambda>e t. is_clickhouse e \<and> (\<exists>k. t = map Ran (take k ss)))"
  shows "does (tier_loop env cfg wm step n ts) (tier_events ok ss n ts) (tier_failed ss)"
proof (induction n arbitrary: ts)
  case 0
  then show ?case
    by (auto simp: tier_events_def falling_def intro!: exI [of _ "[]"])
next
  case (Suc n)
  show ?case
  proof (cases "ts_remaining ts = 0")
    case True
    then show ?thesis
      by (auto simp: tier_events_def falling_def intro!: exI [of _ "[]"])
  next
    case False
    let ?ts = "\<lambda>after. ts\<lparr>ts_remaining := after, ts_batches := ts_batches ts + 1\<rparr>"
    have next_round: "tier_events ok ss (Suc n) ts ts' (map Ran ss @ Counted after # t)"
      if step: "tier_events ok ss n (?ts after) ts' t" "after < ts_remaining ts" "ok after" for ts' after t
    proof -
      obtain ns where ns: "t = rounds ss ns" "list_all ok ns" "length ns \<le> n" "falling (after # butlast ns)"
        "ts_batches ts' = ts_batches ts + 1 + of_nat (length ns)" "ts_remaining ts' = last (after # ns)"
        "ts_drained ts' \<longrightarrow> ts_drained ts \<or> ts_remaining ts' = 0 \<or> settled (after # ns)"
        "length ns < n \<longrightarrow> ts_drained ts' \<and> (ts_remaining ts' = 0 \<or> settled (after # ns))"
        using step(1) unfolding tier_events_def by auto
      have "falling (ts_remaining ts # butlast (after # ns))"
        using ns(4) step(2) by (auto simp: falling_def)
      then show ?thesis
        unfolding tier_events_def using ns step(3) settled_Cons [of "after # ns" "ts_remaining ts"]
        by (intro exI [of _ "after # ns"]) auto
    qed
    have stop: "tier_events ok ss (Suc n) ts (ts\<lparr>ts_remaining := after, ts_batches := ts_batches ts + 1, ts_drained := True\<rparr>)
        (map Ran ss @ [Counted after])" if "ts_remaining ts \<le> after" "ok after" for after
      unfolding tier_events_def
      by (intro exI [of _ "[after]"]) (use that in \<open>auto simp: falling_def settled_def intro: exI [of _ "[]"]\<close>)
    have failed: "tier_failed ss e (map Ran ss @ Counted after # t)" if later: "tier_failed ss e t" for e after t
    proof -
      obtain ns k where "t = rounds ss ns @ map Ran (take k ss)" "is_clickhouse e"
        using later by (auto simp: tier_failed_def)
      then show ?thesis
        unfolding tier_failed_def by (auto intro!: exI [of _ "after # ns"])
    qed
    have first: "tier_failed ss e (map Ran (take k ss))" if "is_clickhouse e" for e k
      using that unfolding tier_failed_def by (auto intro!: exI [of _ "[]"] exI [of _ k])
    have all: "tier_failed ss e (map Ran ss)" if "is_clickhouse e" for e
      using first [OF that, of "length ss"] by simp
    have rest: "does (if ts_remaining ts \<le> after then ch_return (ts\<lparr>ts_remaining := after, ts_batches := ts_batches ts + 1, ts_drained := True\<rparr>)
        else tier_loop env cfg wm step n (?ts after))
        (\<lambda>ts' u. tier_events ok ss (Suc n) ts ts' (map Ran ss @ [Counted after] @ u)) (\<lambda>e u. tier_failed ss e (map Ran ss @ [Counted after] @ u))"
      if "ok after" for after
    proof (cases "ts_remaining ts \<le> after")
      case True
      then show ?thesis using stop that by auto
    next
      case False
      then show ?thesis
        using does_conseq [OF Suc.IH [of "?ts after"]] next_round [of after] failed that by auto
    qed
    have count: "does (ch_bind (count_candidates env cfg wm) (\<lambda>after.
        if ts_remaining ts \<le> after then ch_return (ts\<lparr>ts_remaining := after, ts_batches := ts_batches ts + 1, ts_drained := True\<rparr>)
        else tier_loop env cfg wm step n (?ts after)))
        (\<lambda>ts' u. tier_events ok ss (Suc n) ts ts' (map Ran ss @ u)) (\<lambda>e u. tier_failed ss e (map Ran ss @ u))"
    proof (rule does_bind [OF does_count [where P = "\<lambda>x t. t = [Counted x] \<and> ok x" and Q = "\<lambda>e t. is_clickhouse e \<and> t = []"]])
      fix after t
      assume "t = [Counted after] \<and> ok after"
      with rest [of after] show "does (if ts_remaining ts \<le> after
          then ch_return (ts\<lparr>ts_remaining := after, ts_batches := ts_batches ts + 1, ts_drained := True\<rparr>)
          else tier_loop env cfg wm step n (?ts after))
          (\<lambda>y u. tier_events ok ss (Suc n) ts y (map Ran ss @ t @ u)) (\<lambda>e u. tier_failed ss e (map Ran ss @ t @ u))"
        by simp
    qed (use assms(1) in \<open>auto simp: all counts_def\<close>)
    have "does (tier_loop env cfg wm step (Suc n) ts) (tier_events ok ss (Suc n) ts) (tier_failed ss)"
      unfolding tier_loop.simps if_not_P [OF False]
      by (rule does_bind [OF assms(2)]) (use count first in auto)
    then show ?thesis .
  qed
qed

lemma run_all_does:
  "does (run_all env cfg wm ss) (\<lambda>_ t. t = map Ran ss) (\<lambda>e t. is_clickhouse e \<and> (\<exists>k. t = map Ran (take k ss)))"
proof (induction ss)
  case Nil
  show ?case by auto
next
  case (Cons s ss)
  show ?case
    unfolding run_all.simps
  proof (rule does_bind [OF does_run [where P = "\<lambda>_ t. t = [Ran s]" and Q = "\<lambda>e t. is_clickhouse e \<and> t = []"]])
    fix x t
    assume "t = [Ran s]"
    then show "does (run_all env cfg wm ss) (\<lambda>y u. t @ u = map Ran (s # ss))
        (\<lambda>e u. is_clickhouse e \<and> (\<exists>k. t @ u = map Ran (take k (s # ss))))"
      by (intro does_conseq [OF Cons.IH]) (auto intro: exI [of _ "Suc k" for k])
  next
    fix e t
    assume "is_clickhouse e \<and> t = ([] :: ch_event list)"
    then show "is_clickhouse e \<and> (\<exists>k. t = map Ran (take k (s # ss)))" by (auto intro: exI [of _ 0])
  qed simp_all
qed

end
