(* ===== verification/Enrich_Safety.thy ===== *)
theory Enrich_Safety
  imports Enrich_Trace
begin

text \<open>
  The events of a whole pass: resets, one count, the rounds of the oracle tier, and, only if that tier settled, the
  rounds of the tiers below it. A pass that drains without a bound ends at a fixed point of its last tier.
\<close>

section \<open>The parts of a pass\<close>

definition resets :: "ch_event list \<Rightarrow> bool" where
  "resets t \<longleftrightarrow> set t \<subseteq> {Ran ResetBatch}"

lemma resets_simps [simp]: "resets []" "resets (x # t) \<longleftrightarrow> x = Ran ResetBatch \<and> resets t"
  by (auto simp: resets_def)

lemma does_Inl_pure: "does (ch_lift r) (\<lambda>_ t. t = []) (\<lambda>_ t. t = [])"
  by (rule does_lift) simp_all

lemma does_quiet_bind:
  assumes "does m (\<lambda>_ t. t = []) (\<lambda>_ t. t = [])" and "\<And>x. does (f x) (\<lambda>_ t. t = []) (\<lambda>_ t. t = [])"
  shows "does (ch_bind m f) (\<lambda>_ t. t = []) (\<lambda>_ t. t = [])"
  by (rule does_bind [OF assms(1)]) (use assms(2) in auto)

lemma admissible_is_quiet: "does (assert_reset_is_admissible env cfg) (\<lambda>_ t. t = []) (\<lambda>_ t. t = [])"
  unfolding assert_reset_is_admissible_def resolve_reference_ids_def assert_reset_not_shadowed_by_oracle_def ch_when_def
    assert_external_rates_are_loaded_def assert_hourly_rates_are_loaded_def assert_no_pre_epoch_oracle_rows_def
    assert_reset_epoch_is_covered_def Let_def
  by (auto intro!: does_quiet_bind does_read does_Inl_pure does_return does_fail split: option.split)

lemma reset_loop_resets: "does (reset_loop env cfg spec wm n pending) (\<lambda>_. resets) (\<lambda>_. resets)"
proof (induction n arbitrary: pending)
  case (Suc n)
  have again: "does (if pending \<le> after then ch_return after else reset_loop env cfg spec wm n after)
      (\<lambda>y u. resets ([Ran ResetBatch] @ [] @ u)) (\<lambda>e u. resets ([Ran ResetBatch] @ [] @ u))" for after
    using Suc.IH [of after] by auto
  have count: "does (ch_bind (ch_read (ch_reset_pending env cfg spec wm))
      (\<lambda>after. if pending \<le> after then ch_return after else reset_loop env cfg spec wm n after))
      (\<lambda>y u. resets ([Ran ResetBatch] @ u)) (\<lambda>e u. resets ([Ran ResetBatch] @ u))"
    by (rule does_bind [OF does_read [where P = "\<lambda>_ t. t = []" and Q = "\<lambda>_ t. t = []"]]) (use again in auto)
  have "does (ch_bind (ch_run env cfg wm ResetBatch) (\<lambda>_. ch_bind (ch_read (ch_reset_pending env cfg spec wm))
      (\<lambda>after. if pending \<le> after then ch_return after else reset_loop env cfg spec wm n after))) (\<lambda>_. resets) (\<lambda>_. resets)"
    by (rule does_bind [OF does_run [where P = "\<lambda>_ t. t = [Ran ResetBatch]" and Q = "\<lambda>_ t. t = []"]]) (use count in auto)
  then show ?case by auto
qed auto

lemma reset_step_resets: "does (reset_step env cfg spec wm) (\<lambda>_. resets) (\<lambda>_. resets)"
proof -
  have loop: "does (ch_bind (reset_loop env cfg spec wm n before) (\<lambda>pending. ch_return (sat_sub before pending)))
      (\<lambda>_. resets) (\<lambda>_. resets)" for n before
    by (rule does_bind [OF reset_loop_resets]) auto
  have "does (ch_bind (ch_read (ch_reset_pending env cfg spec wm)) (\<lambda>before. if before = 0 then ch_return 0
      else ch_bind (reset_loop env cfg spec wm n before) (\<lambda>pending. ch_return (sat_sub before pending))))
      (\<lambda>_. resets) (\<lambda>_. resets)" for n
    by (rule does_bind [OF does_read [where P = "\<lambda>_ t. t = []" and Q = "\<lambda>_ t. t = []"]]) (use loop in auto)
  then have "does (ch_bind (assert_reset_is_admissible env cfg) (\<lambda>_. ch_bind (ch_read (ch_reset_pending env cfg spec wm)) (\<lambda>before. if before = 0 then ch_return 0
      else ch_bind (reset_loop env cfg spec wm n before) (\<lambda>pending. ch_return (sat_sub before pending)))))
      (\<lambda>_. resets) (\<lambda>_. resets)" for n
    by (intro does_bind [OF admissible_is_quiet]) auto
  then show ?thesis by (auto simp: reset_step_def)
qed

lemma one_statement_does:
  "does (ch_run env cfg wm s) (\<lambda>_ t. t = map Ran [s]) (\<lambda>e t. is_clickhouse e \<and> (\<exists>k. t = map Ran (take k [s])))"
  by (rule does_run) (auto intro: exI [of _ 0])

definition rounds_left :: "enrich_config \<Rightarrow> nat" where
  "rounds_left cfg = unat (effective_max_batches cfg)"

lemma oracle_does:
  "counts env cfg wm ok \<Longrightarrow> does (run_oracle_tier env cfg wm b)
     (tier_events ok [OracleBatch] (rounds_left cfg) \<lparr>ts_remaining = b, ts_batches = 0, ts_drained = (b = 0)\<rparr>)
     (tier_failed [OracleBatch])"
  unfolding run_oracle_tier_def run_tier_def rounds_left_def by (rule tier_loop_does [OF _ one_statement_does])

lemma external_does:
  "counts env cfg wm ok \<Longrightarrow> does (run_external_tier env cfg wm x ts) (tier_events ok [ExternalBatch x] (rounds_left cfg) ts)
     (tier_failed [ExternalBatch x])"
  unfolding run_external_tier_def run_tier_def rounds_left_def by (rule tier_loop_does [OF _ one_statement_does])

lemma peg_pivot_does:
  "counts env cfg wm ok \<Longrightarrow> does (run_peg_pivot_tier env cfg wm refs ts)
     (tier_events ok (plan_peg_pivot_step refs) (rounds_left cfg) ts) (tier_failed (plan_peg_pivot_step refs))"
  unfolding run_peg_pivot_tier_def run_tier_def rounds_left_def enrich_peg_pivot_step_def by (rule tier_loop_does [OF _ run_all_does])

section \<open>The tiers below the oracle\<close>

definition below :: "ch_event list \<Rightarrow> bool" where
  "below t \<longleftrightarrow> Ran OracleBatch \<notin> set t \<and> Ran ResetBatch \<notin> set t"

lemma rounds_below: "OracleBatch \<notin> set ss \<Longrightarrow> ResetBatch \<notin> set ss \<Longrightarrow> below (rounds ss ns)"
  by (induction ns) (auto simp: below_def)

lemma plan_below: "OracleBatch \<notin> set (plan_peg_pivot_step refs)" "ResetBatch \<notin> set (plan_peg_pivot_step refs)"
  by (auto simp: plan_peg_pivot_step_def split: option.splits)

lemma tier_below:
  assumes "OracleBatch \<notin> set ss" and "ResetBatch \<notin> set ss"
  shows "tier_events ok ss n ts ts' t \<Longrightarrow> below t" and "tier_failed ss e t \<Longrightarrow> below t"
  using rounds_below [OF assms] assms by (auto simp: tier_events_def tier_failed_def below_def dest: in_set_takeD)

lemma external_below: "tier_events ok [ExternalBatch x] n ts ts' t \<Longrightarrow> below t"
  by (rule tier_below(1)) auto

definition reference_events :: "'d ch_env \<Rightarrow> enrich_config \<Rightarrow> (u64 \<Rightarrow> bool) \<Rightarrow> tier_state \<Rightarrow> tier_state \<Rightarrow> ch_event list \<Rightarrow> bool" where
  "reference_events env cfg ok ts ts' t \<longleftrightarrow>
     (if ts_remaining ts = 0 \<or> \<not> ts_drained ts then ts' = ts \<and> t = []
      else \<exists>d rows mid t1 t2. ch_assets env d = Inr rows \<and> t = t1 @ t2 \<and>
        (case rf_usdc (reference_ids_of rows) of
           Some x \<Rightarrow> tier_events ok [ExternalBatch x] (rounds_left cfg) ts mid t1
         | None \<Rightarrow> mid = ts \<and> t1 = []) \<and>
        (if ts_remaining mid \<noteq> 0 \<and> has_any (reference_ids_of rows)
         then tier_events ok (plan_peg_pivot_step (reference_ids_of rows)) (rounds_left cfg) mid ts' t2
         else ts' = mid \<and> t2 = []))"

definition reference_failed :: "tier_state \<Rightarrow> ch_error \<Rightarrow> ch_event list \<Rightarrow> bool" where
  "reference_failed ts e t \<longleftrightarrow> is_clickhouse e \<and> below t \<and> (t \<noteq> [] \<longrightarrow> ts_remaining ts \<noteq> 0 \<and> ts_drained ts)"

lemma below_append [simp]: "below []" "below (t @ u) \<longleftrightarrow> below t \<and> below u"
  by (auto simp: below_def)

lemma tier_failed_clickhouse: "tier_failed ss e t \<Longrightarrow> is_clickhouse e"
  by (simp add: tier_failed_def)

lemma reference_does:
  assumes "counts env cfg wm ok"
  shows "does (run_reference_tiers env cfg wm ts) (reference_events env cfg ok ts) (reference_failed ts)"
proof (cases "ts_remaining ts = 0 \<or> \<not> ts_drained ts")
  case True
  then show ?thesis by (auto simp: run_reference_tiers_def reference_events_def)
next
  case False
  note ext = external_does [OF assms] and peg = peg_pivot_does [OF assms]
  have peg_step: "does (if ts_remaining mid \<noteq> 0 \<and> has_any refs then run_peg_pivot_tier env cfg wm refs mid else ch_return mid)
      (\<lambda>ts' u. if ts_remaining mid \<noteq> 0 \<and> has_any refs then tier_events ok (plan_peg_pivot_step refs) (rounds_left cfg) mid ts' u
        else ts' = mid \<and> u = []) (\<lambda>e u. is_clickhouse e \<and> below u)" for refs mid
    using tier_below(2) [OF plan_below] by (auto intro: does_conseq [OF peg] dest: tier_failed_clickhouse)
  have ext_step: "does (case rf_usdc refs of Some x \<Rightarrow> run_external_tier env cfg wm x ts | None \<Rightarrow> ch_return ts)
      (\<lambda>mid u. case rf_usdc refs of Some x \<Rightarrow> tier_events ok [ExternalBatch x] (rounds_left cfg) ts mid u | None \<Rightarrow> mid = ts \<and> u = [])
      (\<lambda>e u. is_clickhouse e \<and> below u)" for refs
    using tier_below(2) [of "[ExternalBatch x]" for x]
    by (auto intro: does_conseq [OF ext] dest: tier_failed_clickhouse split: option.split)
  have both: "does (ch_bind (case rf_usdc refs of Some x \<Rightarrow> run_external_tier env cfg wm x ts | None \<Rightarrow> ch_return ts) (\<lambda>ts.
        if ts_remaining ts \<noteq> 0 \<and> has_any refs then run_peg_pivot_tier env cfg wm refs ts else ch_return ts))
      (reference_events env cfg ok ts) (\<lambda>e u. is_clickhouse e \<and> below u)"
    if refs: "ch_assets env d = Inr rows" "refs = reference_ids_of rows" for refs d rows
  proof (rule does_bind [OF ext_step])
    fix mid t1
    assume t1: "case rf_usdc refs of Some x \<Rightarrow> tier_events ok [ExternalBatch x] (rounds_left cfg) ts mid t1 | None \<Rightarrow> mid = ts \<and> t1 = []"
    then have "below t1" using external_below by (cases "rf_usdc refs") auto
    moreover have "reference_events env cfg ok ts ts' (t1 @ t2)"
      if "if ts_remaining mid \<noteq> 0 \<and> has_any refs then tier_events ok (plan_peg_pivot_step refs) (rounds_left cfg) mid ts' t2
        else ts' = mid \<and> t2 = []" for ts' t2
      unfolding reference_events_def if_not_P [OF False]
      by (rule exI [of _ d], rule exI [of _ rows], rule exI [of _ mid], rule exI [of _ t1], rule exI [of _ t2])
        (use that t1 refs(1) in \<open>auto simp: refs(2) split: if_splits\<close>)
    ultimately show "does (if ts_remaining mid \<noteq> 0 \<and> has_any refs then run_peg_pivot_tier env cfg wm refs mid else ch_return mid)
        (\<lambda>y u. reference_events env cfg ok ts y (t1 @ u)) (\<lambda>e u. is_clickhouse e \<and> below (t1 @ u))"
      by (intro does_conseq [OF peg_step]) auto
  qed simp
  have "does (ch_bind (ch_read (ch_assets env)) (\<lambda>rows. ch_return (reference_ids_of rows)))
      (\<lambda>refs t. t = [] \<and> (\<exists>d rows. ch_assets env d = Inr rows \<and> refs = reference_ids_of rows)) (\<lambda>e t. is_clickhouse e \<and> t = [])"
    unfolding does_def ch_bind_def ch_read_def ch_return_def ch_fail_def by (auto split: sum.split)
  then have "does (run_reference_tiers env cfg wm ts) (reference_events env cfg ok ts) (\<lambda>e u. is_clickhouse e \<and> below u)"
    unfolding run_reference_tiers_def resolve_reference_ids_def if_not_P [OF False]
  proof (rule does_bind)
    fix refs t
    assume "t = ([] :: ch_event list) \<and> (\<exists>d rows. ch_assets env d = Inr rows \<and> refs = reference_ids_of rows)"
    then show "does (ch_bind (case rf_usdc refs of Some x \<Rightarrow> run_external_tier env cfg wm x ts | None \<Rightarrow> ch_return ts) (\<lambda>ts.
        if ts_remaining ts \<noteq> 0 \<and> has_any refs then run_peg_pivot_tier env cfg wm refs ts else ch_return ts))
        (\<lambda>y u. reference_events env cfg ok ts y (t @ u)) (\<lambda>e u. is_clickhouse e \<and> below (t @ u))"
      using both by auto
  qed simp
  then show ?thesis
    using False by (auto elim!: does_conseq simp: reference_failed_def)
qed

lemma reference_below: "reference_events env cfg ok ts ts' t \<Longrightarrow> below t \<and> (t \<noteq> [] \<longrightarrow> ts_remaining ts \<noteq> 0 \<and> ts_drained ts)"
  using tier_below(1) [OF plan_below] external_below
  by (auto simp: reference_events_def split: if_splits option.splits)

section \<open>The events of a pass\<close>

definition pass_events :: "'d ch_env \<Rightarrow> enrich_config \<Rightarrow> (u64 \<Rightarrow> bool) \<Rightarrow> ch_pass_stats \<Rightarrow> ch_event list \<Rightarrow> bool" where
  "pass_events env cfg ok stats t \<longleftrightarrow>
     (\<exists>rs ot ts t1 t2. t = rs @ Counted (cp_candidates_before stats) # t1 @ t2 \<and> resets rs \<and> ok (cp_candidates_before stats) \<and>
        tier_events ok [OracleBatch] (rounds_left cfg) \<lparr>ts_remaining = cp_candidates_before stats, ts_batches = 0,
          ts_drained = (cp_candidates_before stats = 0)\<rparr> ot t1 \<and>
        reference_events env cfg ok ot ts t2 \<and>
        cp_batches stats = ts_batches ts \<and> cp_candidates_after stats = ts_remaining ts \<and>
        cp_rows_enriched stats = sat_sub (cp_candidates_before stats) (ts_remaining ts))"

definition pass_failed :: "ch_event list \<Rightarrow> bool" where
  "pass_failed t \<longleftrightarrow> (\<exists>rs. resets rs \<and> (t = rs \<or> (\<exists>b ns t2. t = rs @ Counted b # rounds [OracleBatch] ns @ t2 \<and>
     (t2 = [Ran OracleBatch] \<or> below t2 \<and> (t2 \<noteq> [] \<longrightarrow> settled (b # ns))))))"

lemma oracle_settled:
  assumes "tier_events ok [OracleBatch] n \<lparr>ts_remaining = b, ts_batches = 0, ts_drained = (b = 0)\<rparr> ts t"
    and "ts_remaining ts \<noteq> 0" and "ts_drained ts"
  shows "\<exists>ns. t = rounds [OracleBatch] ns \<and> settled (b # ns) \<and> ts_remaining ts = last (b # ns) \<and> list_all ok ns"
proof -
  obtain ns where ns: "t = rounds [OracleBatch] ns" "ts_remaining ts = last (b # ns)" "list_all ok ns" "falling (b # butlast ns)"
      "ts_drained ts \<longrightarrow> b = 0 \<or> ts_remaining ts = 0 \<or> settled (b # ns)"
    using assms(1) unfolding tier_events_def by auto
  have "settled (b # ns)" if "b = 0"
  proof (cases ns rule: rev_cases)
    case (snoc ms k)
    show ?thesis
    proof (cases ms rule: rev_cases)
      case (snoc ms' m)
      then have "b > m" using ns(4) \<open>ns = ms @ [k]\<close> by (auto simp: falling_def butlast_append)
      then show ?thesis using that by simp
    qed (use snoc that in \<open>auto simp: settled_def intro: exI [of _ "[]"]\<close>)
  qed (use ns(2) assms(2) that in simp)
  then show ?thesis using ns assms(2,3) by blast
qed

lemma pass_failed_reset: "resets t \<Longrightarrow> pass_failed t"
  by (auto simp: pass_failed_def)

lemma oracle_failed: "resets rs \<Longrightarrow> tier_failed [OracleBatch] e t \<Longrightarrow> pass_failed (rs @ Counted b # t)"
proof -
  assume rs: "resets rs" and "tier_failed [OracleBatch] e t"
  then obtain ns k where "t = rounds [OracleBatch] ns @ map Ran (take k [OracleBatch])"
    by (auto simp: tier_failed_def)
  then show ?thesis
    using rs unfolding pass_failed_def by (cases k) fastforce+
qed

lemma reference_tiers_failed:
  assumes "resets rs" and "tier_events ok [OracleBatch] n \<lparr>ts_remaining = b, ts_batches = 0, ts_drained = (b = 0)\<rparr> ts t1"
    and "below t2" and "t2 \<noteq> [] \<longrightarrow> ts_remaining ts \<noteq> 0 \<and> ts_drained ts"
  shows "pass_failed (rs @ Counted b # t1 @ t2)"
proof (cases "t2 = []")
  case True
  obtain ns where "t1 = rounds [OracleBatch] ns" using assms(2) unfolding tier_events_def by auto
  then show ?thesis using assms(1) True unfolding pass_failed_def by fastforce
next
  case False
  then obtain ns where "t1 = rounds [OracleBatch] ns" "settled (b # ns)"
    using oracle_settled [OF assms(2)] assms(4) by auto
  then show ?thesis using assms(1,3) unfolding pass_failed_def by blast
qed

lemma pass_does:
  assumes "counts env cfg wm ok"
  shows "does (run_through env cfg wm) (pass_events env cfg ok) (\<lambda>_. pass_failed)"
proof -
  let ?ts0 = "\<lambda>b. \<lparr>ts_remaining = b, ts_batches = 0, ts_drained = (b = 0)\<rparr>"
  let ?reset = "case ec_usd_reset cfg of Some spec \<Rightarrow> reset_step env cfg spec wm | None \<Rightarrow> ch_return 0"
  have reset: "does ?reset (\<lambda>_. resets) (\<lambda>_. resets)"
    using reset_step_resets by (auto split: option.split)
  have finish: "does (ch_bind (ch_read (ch_volume_zero env cfg wm)) (\<lambda>rest. ch_return (pass_stats r b ot ts rest)))
    (\<lambda>stats u. u = [] \<and> cp_candidates_before stats = b \<and> cp_batches stats = ts_batches ts \<and>
      cp_candidates_after stats = ts_remaining ts \<and> cp_rows_enriched stats = sat_sub b (ts_remaining ts)) (\<lambda>_ u. u = [])" for ts b r ot
    by (rule does_bind [OF does_read [where P = "\<lambda>_ t. t = []" and Q = "\<lambda>_ t. t = []"]]) (auto simp: pass_stats_def)
  show ?thesis
    unfolding run_through_def
  proof (rule does_bind [OF reset])
    fix r rs
    assume rs: "resets rs"
    show "does (ch_bind (count_candidates env cfg wm) (\<lambda>b. ch_bind (run_oracle_tier env cfg wm b) (\<lambda>ot.
        ch_bind (run_reference_tiers env cfg wm ot) (\<lambda>ts. ch_bind (ch_read (ch_volume_zero env cfg wm)) (\<lambda>rest. ch_return (pass_stats r b ot ts rest))))))
      (\<lambda>stats u. pass_events env cfg ok stats (rs @ u)) (\<lambda>_ u. pass_failed (rs @ u))"
    proof (rule does_bind [OF does_count [where P = "\<lambda>x t. t = [Counted x] \<and> ok x" and Q = "\<lambda>_ t. t = []"]])
      fix b t
      assume b: "t = [Counted b] \<and> ok b"
      show "does (ch_bind (run_oracle_tier env cfg wm b) (\<lambda>ot.
          ch_bind (run_reference_tiers env cfg wm ot) (\<lambda>ts. ch_bind (ch_read (ch_volume_zero env cfg wm)) (\<lambda>rest. ch_return (pass_stats r b ot ts rest)))))
        (\<lambda>stats u. pass_events env cfg ok stats (rs @ t @ u)) (\<lambda>_ u. pass_failed (rs @ t @ u))"
      proof (rule does_bind [OF oracle_does [OF assms]])
        fix ot t1
        assume t1: "tier_events ok [OracleBatch] (rounds_left cfg) (?ts0 b) ot t1"
        show "does (ch_bind (run_reference_tiers env cfg wm ot) (\<lambda>ts. ch_bind (ch_read (ch_volume_zero env cfg wm)) (\<lambda>rest. ch_return (pass_stats r b ot ts rest))))
          (\<lambda>stats u. pass_events env cfg ok stats (rs @ t @ t1 @ u)) (\<lambda>_ u. pass_failed (rs @ t @ t1 @ u))"
        proof (rule does_bind [OF reference_does [OF assms]])
          fix ts t2
          assume t2: "reference_events env cfg ok ot ts t2"
          have "pass_events env cfg ok stats (rs @ t @ t1 @ t2)"
            if "cp_candidates_before stats = b" "cp_batches stats = ts_batches ts" "cp_candidates_after stats = ts_remaining ts"
              "cp_rows_enriched stats = sat_sub b (ts_remaining ts)" for stats
            unfolding pass_events_def
            by (rule exI [of _ rs], rule exI [of _ ot], rule exI [of _ ts], rule exI [of _ t1], rule exI [of _ t2])
              (use that rs b t1 t2 in simp)
          moreover have "pass_failed (rs @ t @ t1 @ t2)"
            using reference_tiers_failed [OF rs t1, of t2] reference_below [OF t2] b by simp
          ultimately show "does (ch_bind (ch_read (ch_volume_zero env cfg wm)) (\<lambda>rest. ch_return (pass_stats r b ot ts rest)))
            (\<lambda>stats u. pass_events env cfg ok stats (rs @ t @ t1 @ t2 @ u)) (\<lambda>_ u. pass_failed (rs @ t @ t1 @ t2 @ u))"
            by (intro does_conseq [OF finish]) auto
        next
          fix e t2
          assume "reference_failed ot e t2"
          then show "pass_failed (rs @ t @ t1 @ t2)"
            using reference_tiers_failed [OF rs t1, of t2] b by (simp add: reference_failed_def)
        qed
      next
        fix e t1
        assume "tier_failed [OracleBatch] e t1"
        then show "pass_failed (rs @ t @ t1)" using oracle_failed [OF rs] b by auto
      qed
    qed (use assms rs pass_failed_reset in \<open>auto simp: counts_def\<close>)
  qed (rule pass_failed_reset)
qed

end
