(* ===== verification/Enrich_Guarantees.thy ===== *)
theory Enrich_Guarantees
  imports Enrich_Safety
begin

text \<open>
  What a pass guarantees: no candle is pegged while an oracle price may still reach it, a draining pass ends at a
  fixed point, and a reset zeroes rows only where a later tier can price them again.
\<close>

section \<open>Rounds as parts of a trace\<close>

lemma rounds_append: "rounds ss (ms @ ns) = rounds ss ms @ rounds ss ns"
  by (induction ms) simp_all

lemma rounds_end: "\<exists>q. q0 @ Counted r # rounds ss ns = q @ [Counted (last (r # ns))]"
proof (cases ns rule: rev_cases)
  case (snoc ms k)
  then show ?thesis by (auto simp: rounds_append intro: exI [of _ "q0 @ Counted r # rounds ss ms @ map Ran ss"])
qed simp

lemma rounds_settled:
  assumes "settled (r # ns)"
  shows "\<exists>q n. q0 @ Counted r # rounds ss ns = q @ Counted n # map Ran ss @ [Counted (last (r # ns))] \<and> n \<le> last (r # ns)"
proof -
  obtain ms m k where ms: "r # ns = ms @ [m, k]" "m \<le> k"
    using assms by (auto simp: settled_def)
  have ns: "ns = butlast ns @ [k]" and l: "last (r # ns) = k"
    using ms(1) by (cases ms; force simp: butlast_append)+
  have m: "last (r # butlast ns) = m"
    using ms(1) by (cases ms) (auto simp: butlast_append)
  obtain q where "q0 @ Counted r # rounds ss (butlast ns) = q @ [Counted m]"
    using rounds_end [of q0 r ss "butlast ns"] m by auto
  then have "q0 @ Counted r # rounds ss ns = q @ Counted m # map Ran ss @ [Counted k]"
    by (subst ns) (simp add: rounds_append)
  then show ?thesis using l ms(2) by blast
qed

lemma split_after:
  assumes "xs @ ys = pre @ x # post" and "x \<notin> set xs"
  shows "\<exists>zs. pre = xs @ zs \<and> ys = zs @ x # post"
  using assms by (induction xs arbitrary: pre) (auto simp: Cons_eq_append_conv)

section \<open>Pegging waits for the oracle\<close>

definition trace_of :: "(ch_error \<times> 'd ch_state, 'a \<times> 'd ch_state) result \<Rightarrow> ch_event list" where
  "trace_of r = (case r of Inl (_, st) \<Rightarrow> cs_trace st | Inr (_, st) \<Rightarrow> cs_trace st)"

lemma does_trace:
  assumes "does m P Q" and "cs_trace st = []"
  obtains x where "P x (trace_of (m st))" | e where "Q e (trace_of (m st))"
  using does_InrD [OF assms(1), of st] does_InlD [OF assms(1), of st] assms(2)
  by (cases "m st") (auto simp: trace_of_def)

lemma pass_trace:
  "trace_of (run_enrichment env cfg \<lparr>cs_db = d, cs_trace = []\<rparr>) = [] \<or>
   (\<exists>wm. trace_of (run_enrichment env cfg \<lparr>cs_db = d, cs_trace = []\<rparr>) =
     trace_of (run_through env cfg wm \<lparr>cs_db = d, cs_trace = []\<rparr>))"
proof (cases "ch_watermark env cfg d")
  case (Inl message)
  then show ?thesis
    by (simp add: run_enrichment_def ch_bind_def ch_read_def ch_fail_def rbind_def trace_of_def)
next
  case (Inr wm)
  then show ?thesis
    by (intro disjI2 exI [of _ wm]) (simp add: run_enrichment_def ch_bind_def ch_read_def ch_return_def rbind_def)
qed

lemma settled_oracle:
  assumes "settled (b # ns)"
  shows "\<exists>q n m. rs @ Counted b # rounds [OracleBatch] ns = q @ [Counted n, Ran OracleBatch, Counted m] \<and> n \<le> m"
  using rounds_settled [OF assms, of rs "[OracleBatch]"] by auto

lemma pass_shape:
  assumes "trace_of (run_through env cfg wm \<lparr>cs_db = d, cs_trace = []\<rparr>) = pre @ Ran s # post" and "s \<noteq> OracleBatch" and "s \<noteq> ResetBatch"
  obtains rs b ns t2 where "trace_of (run_through env cfg wm \<lparr>cs_db = d, cs_trace = []\<rparr>) = rs @ Counted b # rounds [OracleBatch] ns @ t2"
    "resets rs" "below t2" "settled (b # ns)" "t2 \<noteq> []"
proof -
  let ?t = "trace_of (run_through env cfg wm \<lparr>cs_db = d, cs_trace = []\<rparr>)"
  have mem: "Ran s \<in> set ?t" using assms(1) by simp
  have rounds: "Ran s \<notin> set (rounds [OracleBatch] ns)" for ns
    by (induction ns) (use assms(2) in auto)
  have does: "does (run_through env cfg wm) (pass_events env cfg (\<lambda>_. True)) (\<lambda>_. pass_failed)"
    by (rule pass_does [OF counts_any])
  show ?thesis
  proof (rule does_trace [OF does, of "\<lparr>cs_db = d, cs_trace = []\<rparr>"])
    fix stats
    assume "pass_events env cfg (\<lambda>_. True) stats ?t"
    then obtain rs ot ts t1 t2 where t: "?t = rs @ Counted (cp_candidates_before stats) # t1 @ t2" "resets rs"
        "tier_events (\<lambda>_. True) [OracleBatch] (rounds_left cfg) \<lparr>ts_remaining = cp_candidates_before stats, ts_batches = 0,
          ts_drained = (cp_candidates_before stats = 0)\<rparr> ot t1" "reference_events env cfg (\<lambda>_. True) ot ts t2"
      unfolding pass_events_def by auto
    obtain ns where ns: "t1 = rounds [OracleBatch] ns" using t(3) unfolding tier_events_def by auto
    have "t2 \<noteq> []"
    proof
      assume "t2 = []"
      then have "Ran s \<in> set rs" using mem t(1) rounds by (auto simp: ns)
      then show False using t(2) assms(3) by (auto simp: resets_def)
    qed
    then show ?thesis
      using that [of rs "cp_candidates_before stats" _ t2] t oracle_settled [OF t(3)] reference_below [OF t(4)] by auto
  next
    fix e
    assume "pass_failed ?t"
    then obtain rs where rs: "resets rs" and cases: "?t = rs \<or> (\<exists>b ns t2. ?t = rs @ Counted b # rounds [OracleBatch] ns @ t2 \<and>
        (t2 = [Ran OracleBatch] \<or> below t2 \<and> (t2 \<noteq> [] \<longrightarrow> settled (b # ns))))"
      unfolding pass_failed_def by auto
    have not_rs: "Ran s \<notin> set rs" using rs assms(3) by (auto simp: resets_def)
    then obtain b ns t2 where t: "?t = rs @ Counted b # rounds [OracleBatch] ns @ t2"
        "t2 = [Ran OracleBatch] \<or> below t2 \<and> (t2 \<noteq> [] \<longrightarrow> settled (b # ns))"
      using cases mem by auto
    have mem2: "Ran s \<in> set t2" using mem not_rs rounds by (auto simp: t(1))
    then have "t2 \<noteq> []" "t2 \<noteq> [Ran OracleBatch]" using assms(2) by (cases t2; auto)+
    then show ?thesis using that [OF t(1) rs] t(2) by blast
  qed simp
qed

text \<open>
  C8: No candle is pegged while an oracle price may still reach it: whatever the database answers and wherever a
  pass fails, any statement of the external, peg or pivot tier runs after an oracle batch that moved no
  candidate, and no oracle batch runs after it.
\<close>

theorem reference_tiers_wait_for_the_oracle:
  assumes "trace_of (run_enrichment env cfg \<lparr>cs_db = d, cs_trace = []\<rparr>) = pre @ Ran s # post"
    and "s \<noteq> OracleBatch" and "s \<noteq> ResetBatch"
  shows "\<exists>before n m after. pre = before @ [Counted n, Ran OracleBatch, Counted m] @ after \<and> n \<le> m \<and>
    Ran OracleBatch \<notin> set after \<and> Ran OracleBatch \<notin> set post"
proof -
  obtain wm where wm: "trace_of (run_through env cfg wm \<lparr>cs_db = d, cs_trace = []\<rparr>) = pre @ Ran s # post"
    using pass_trace [of env cfg d] assms(1) by auto
  obtain rs b ns t2 where t: "pre @ Ran s # post = rs @ Counted b # rounds [OracleBatch] ns @ t2" "resets rs" "below t2"
      "settled (b # ns)"
    using pass_shape [OF wm assms(2,3)] wm by metis
  have "Ran s \<notin> set (rs @ Counted b # rounds [OracleBatch] ns)"
    using t(2) assms(2,3) by (auto simp: resets_def) (induction ns, auto)
  then obtain after where after: "pre = (rs @ Counted b # rounds [OracleBatch] ns) @ after" "t2 = after @ Ran s # post"
    using split_after [of "rs @ Counted b # rounds [OracleBatch] ns" t2 pre "Ran s" post] t(1) by auto
  moreover obtain q n m where "rs @ Counted b # rounds [OracleBatch] ns = q @ [Counted n, Ran OracleBatch, Counted m]" "n \<le> m"
    using settled_oracle [OF t(4)] by blast
  ultimately show ?thesis using t(3) by (auto simp: below_def)
qed

section \<open>A one-shot pass drains\<close>

lemma one_shot_rounds: "ec_one_shot cfg \<Longrightarrow> rounds_left cfg = 2 ^ 32 - 1"
  by (simp add: rounds_left_def effective_max_batches_def unsigned_minus_1_eq_mask mask_eq_exp_minus_1)

lemma drains:
  assumes "tier_events (\<lambda>n. unat n < 2 ^ 32 - 2) ss (2 ^ 32 - 1) ts ts' t" and "unat (ts_remaining ts) < 2 ^ 32 - 2" and "ts_remaining ts' \<noteq> 0"
  obtains ns where "t = rounds ss ns" "settled (ts_remaining ts # ns)" "ts_remaining ts' = last (ts_remaining ts # ns)"
    "ts_drained ts'" "unat (ts_remaining ts') < 2 ^ 32 - 2"
proof -
  obtain ns where ns: "t = rounds ss ns" "list_all (\<lambda>n. unat n < 2 ^ 32 - 2) ns" "falling (ts_remaining ts # butlast ns)"
      "ts_remaining ts' = last (ts_remaining ts # ns)"
      "length ns < 2 ^ 32 - 1 \<longrightarrow> ts_drained ts' \<and> (ts_remaining ts' = 0 \<or> settled (ts_remaining ts # ns))"
    using assms(1) unfolding tier_events_def by blast
  have "length (butlast ns) \<le> unat (ts_remaining ts)" by (rule falling_length [OF ns(3)])
  then have "length ns < 2 ^ 32 - 1" using assms(2) by simp
  moreover have "unat (ts_remaining ts') < 2 ^ 32 - 2"
    using ns(2,4) assms(2) by (cases "ns = []") (auto simp: list_all_iff)
  ultimately show ?thesis using that ns assms(3) by blast
qed

lemma last_tier_settles:
  assumes "reference_events env cfg (\<lambda>n. unat n < 2 ^ 32 - 2) ot ts t" and "ts_remaining ot \<noteq> 0" and "ts_drained ot"
    and "unat (ts_remaining ot) < 2 ^ 32 - 2" and "rounds_left cfg = 2 ^ 32 - 1"
    and "\<And>d rows. ch_assets env d = Inr rows \<Longrightarrow> has_any (reference_ids_of rows)" and "ts_remaining ts \<noteq> 0"
  shows "\<exists>q rows n. (q0 @ [Counted (ts_remaining ot)]) @ t = q @ Counted n # map Ran (plan_peg_pivot_step (reference_ids_of rows)) @ [Counted (ts_remaining ts)] \<and>
    n \<le> ts_remaining ts"
proof -
  let ?ok = "\<lambda>n :: u64. unat n < 2 ^ 32 - 2"
  obtain d rows mid t1 t2 where t: "ch_assets env d = Inr rows" "t = t1 @ t2"
      "case rf_usdc (reference_ids_of rows) of Some x \<Rightarrow> tier_events ?ok [ExternalBatch x] (rounds_left cfg) ot mid t1
        | None \<Rightarrow> mid = ot \<and> t1 = []"
      "if ts_remaining mid \<noteq> 0 \<and> has_any (reference_ids_of rows)
        then tier_events ?ok (plan_peg_pivot_step (reference_ids_of rows)) (rounds_left cfg) mid ts t2 else ts = mid \<and> t2 = []"
    using assms(1-3) unfolding reference_events_def by auto
  have mid: "ts_remaining mid \<noteq> 0" using t(4) assms(7) by (auto split: if_splits)
  have handed: "?ok (ts_remaining mid) \<and> (\<exists>q. (q0 @ [Counted (ts_remaining ot)]) @ t1 = q @ [Counted (ts_remaining mid)])"
  proof (cases "rf_usdc (reference_ids_of rows)")
    case (Some x)
    then have "tier_events ?ok [ExternalBatch x] (2 ^ 32 - 1) ot mid t1" using t(3) assms(5) by simp
    then obtain ns where "t1 = rounds [ExternalBatch x] ns" "ts_remaining mid = last (ts_remaining ot # ns)" "?ok (ts_remaining mid)"
      using assms(4) mid by (rule drains)
    then show ?thesis using rounds_end [of q0 "ts_remaining ot" "[ExternalBatch x]" ns] by simp
  qed (use t(3) assms(4) in auto)
  then obtain q where q: "(q0 @ [Counted (ts_remaining ot)]) @ t1 = q @ [Counted (ts_remaining mid)]" by blast
  have "tier_events ?ok (plan_peg_pivot_step (reference_ids_of rows)) (2 ^ 32 - 1) mid ts t2"
    using t(4) mid assms(6) [OF t(1)] assms(5) by simp
  then obtain ns where ns: "t2 = rounds (plan_peg_pivot_step (reference_ids_of rows)) ns" "settled (ts_remaining mid # ns)"
      "ts_remaining ts = last (ts_remaining mid # ns)"
    using conjunct1 [OF handed] assms(7) by (rule drains)
  have "(q0 @ [Counted (ts_remaining ot)]) @ t = q @ Counted (ts_remaining mid) # t2"
    using q t(2) by simp
  then show ?thesis
    using rounds_settled [OF ns(2), of q "plan_peg_pivot_step (reference_ids_of rows)"] ns(1,3) by metis
qed

text \<open>
  C9: A one-shot pass drains: when fewer than 2^32 - 2 candidates are ever counted and a reference asset
  resolves, a pass that returns has either priced every candidate or ended with a full peg-pivot round that
  moved none, so the 32-bit batch budget never cuts it short.
\<close>

theorem one_shot_pass_ends_at_a_fixed_point:
  assumes "run_enrichment env cfg \<lparr>cs_db = d, cs_trace = []\<rparr> = Inr (stats, st)" and "ec_one_shot cfg"
    and "\<And>wm d n. ch_count env cfg wm d = Inr n \<Longrightarrow> unat n < 2 ^ 32 - 2"
    and "\<And>d rows. ch_assets env d = Inr rows \<Longrightarrow> has_any (reference_ids_of rows)"
  shows "cp_candidates_after stats = 0 \<or>
    (\<exists>before rows n. cs_trace st = before @ Counted n # map Ran (plan_peg_pivot_step (reference_ids_of rows)) @ [Counted (cp_candidates_after stats)] \<and>
      n \<le> cp_candidates_after stats)"
proof (cases "cp_candidates_after stats = 0")
  case False
  let ?ok = "\<lambda>n :: u64. unat n < 2 ^ 32 - 2"
  obtain wm where wm: "run_through env cfg wm \<lparr>cs_db = d, cs_trace = []\<rparr> = Inr (stats, st)"
    using assms(1) by (auto simp: run_enrichment_def ch_bind_def ch_read_def ch_return_def ch_fail_def split: sum.splits)
  have "counts env cfg wm ?ok" using assms(3) by (simp add: counts_def)
  then obtain rs ot ts t1 t2 where t: "cs_trace st = rs @ Counted (cp_candidates_before stats) # t1 @ t2" "?ok (cp_candidates_before stats)"
      "tier_events ?ok [OracleBatch] (2 ^ 32 - 1) \<lparr>ts_remaining = cp_candidates_before stats, ts_batches = 0,
        ts_drained = (cp_candidates_before stats = 0)\<rparr> ot t1" "reference_events env cfg ?ok ot ts t2"
      "cp_candidates_after stats = ts_remaining ts"
    using does_InrD [OF pass_does [of env cfg wm ?ok] wm] one_shot_rounds [OF assms(2)] unfolding pass_events_def by auto
  have "ts_remaining ot \<noteq> 0" using t(4,5) False by (auto simp: reference_events_def split: if_splits)
  then obtain ns where ns: "t1 = rounds [OracleBatch] ns" "ts_remaining ot = last (cp_candidates_before stats # ns)" "ts_drained ot" "?ok (ts_remaining ot)"
    using drains [OF t(3)] t(2) by auto
  obtain q0 where q0: "rs @ Counted (cp_candidates_before stats) # t1 = q0 @ [Counted (ts_remaining ot)]"
    using rounds_end [of rs "cp_candidates_before stats"] ns(1,2) by auto
  have "ts_remaining ts \<noteq> 0" using False t(5) by simp
  from last_tier_settles [OF t(4) \<open>ts_remaining ot \<noteq> 0\<close> ns(3,4) one_shot_rounds [OF assms(2)] assms(4) this, of "\<lambda>d _. d" q0]
  have "\<exists>q rows n. (q0 @ [Counted (ts_remaining ot)]) @ t2 = q @ Counted n # map Ran (plan_peg_pivot_step (reference_ids_of rows)) @
      [Counted (ts_remaining ts)] \<and> n \<le> ts_remaining ts" by blast
  then show ?thesis unfolding q0 [symmetric] using t(1,5) by simp
qed simp

end
