(* ===== verification/Enrich_Reset.thy ===== *)
theory Enrich_Reset
  imports Enrich_Guarantees
begin

text \<open>
  A pass zeroes USD columns only after every refusal was tried on the database it started from: the leg prices again
  in a later tier, no oracle reading shadows it, and what its mode needs is loaded.
\<close>

section \<open>What an admitted reset satisfies\<close>

text \<open>A table finer than a day finds hourly rates.\<close>

definition hourly_loaded :: "'d ch_env \<Rightarrow> enrich_config \<Rightarrow> 'd \<Rightarrow> bool" where
  "hourly_loaded env cfg d \<longleftrightarrow>
     (let width = bucket_width_s (ec_table cfg) in 0 < width \<and> width < 86400 \<longrightarrow> (\<exists>n. 0 < n \<and> ch_hourly_rates env d = Inr n))"

definition admitted :: "'d ch_env \<Rightarrow> enrich_config \<Rightarrow> usd_reset_spec \<Rightarrow> reference_ids \<Rightarrow> 'd \<Rightarrow> bool" where
  "admitted env cfg spec refs d \<longleftrightarrow>
     (let leg = ur_quote_asset_id spec in
      leg \<in> set (stable_ids refs) \<union> set (pivot_ids refs) \<and>
      (leg \<in> set (pivot_ids refs) \<longrightarrow> ur_require_external_rate spec \<or> ur_require_pivot_usdc_rate spec) \<and>
      \<not> (ur_require_external_rate spec \<and> ur_require_pivot_usdc_rate spec) \<and>
      (\<forall>na. ur_not_after spec = Some na \<longrightarrow> ur_not_before spec < na) \<and>
      ch_oracle_rows env cfg leg (oracle_scan_from cfg spec) (ur_not_after spec) d = Inr 0 \<and>
      (ur_require_external_rate spec \<or> ur_require_pivot_usdc_rate spec \<longrightarrow> (\<exists>n. 0 < n \<and> ch_external_rates env d = Inr n)) \<and>
      (ur_require_external_rate spec \<longrightarrow> rf_usdc refs = Some leg \<and> hourly_loaded env cfg d \<and> ch_pre_epoch_rows env cfg leg d = Inr 0) \<and>
      (ur_require_pivot_usdc_rate spec \<longrightarrow> can_pivot refs \<and> leg \<in> set (pivot_ids refs)) \<and>
      (leg \<in> set (pivot_ids refs) \<longrightarrow>
        (\<exists>usdc_id fr. rf_usdc refs = Some usdc_id \<and> ch_first_reference env cfg leg usdc_id d = Inr (Some fr) \<and> fr \<le> ur_not_before spec)))"

lemma ch_bind_Inr: "ch_bind m f st = Inr r \<longleftrightarrow> (\<exists>x st1. m st = Inr (x, st1) \<and> f x st1 = Inr r)"
  by (auto simp: ch_bind_def rbind_def split: sum.splits)

lemma ch_read_Inr: "ch_read q st = Inr (x, st') \<longleftrightarrow> q (cs_db st) = Inr x \<and> st' = st"
  by (auto simp: ch_read_def ch_return_def ch_fail_def split: sum.splits)

lemma ch_lift_Inr: "ch_lift r st = Inr (x, st') \<longleftrightarrow> r = Inr x \<and> st' = st"
  by (auto simp: ch_lift_def ch_return_def ch_fail_def split: sum.splits)

lemma ch_return_Inr: "ch_return x st = Inr (y, st') \<longleftrightarrow> y = x \<and> st' = st"
  by (auto simp: ch_return_def)

lemma ch_fail_Inr: "ch_fail e st \<noteq> Inr r"
  by (simp add: ch_fail_def)

lemmas ch_Inr = ch_bind_Inr ch_read_Inr ch_lift_Inr ch_return_Inr ch_fail_Inr

lemma not_shadowed_Inr:
  "assert_reset_not_shadowed_by_oracle env cfg spec st = Inr (u, st') \<longleftrightarrow>
   st' = st \<and> ch_oracle_rows env cfg (ur_quote_asset_id spec) (oracle_scan_from cfg spec) (ur_not_after spec) (cs_db st) = Inr 0"
  by (auto simp: assert_reset_not_shadowed_by_oracle_def ch_Inr word_gt_0 split: if_splits)

lemma rates_loaded_Inr:
  "assert_external_rates_are_loaded env spec st = Inr (u, st') \<longleftrightarrow> st' = st \<and> (\<exists>n. 0 < n \<and> ch_external_rates env (cs_db st) = Inr n)"
  by (auto simp: assert_external_rates_are_loaded_def ch_Inr word_gt_0 split: if_splits)

lemma hourly_loaded_Inr:
  "assert_hourly_rates_are_loaded env cfg st = Inr (u, st') \<longleftrightarrow> st' = st \<and> hourly_loaded env cfg (cs_db st)"
  by (auto simp: assert_hourly_rates_are_loaded_def hourly_loaded_def Let_def ch_Inr word_gt_0 not_le split: if_splits)

lemma no_pre_epoch_Inr:
  "assert_no_pre_epoch_oracle_rows env cfg spec st = Inr (u, st') \<longleftrightarrow>
   st' = st \<and> ch_pre_epoch_rows env cfg (ur_quote_asset_id spec) (cs_db st) = Inr 0"
  by (auto simp: assert_no_pre_epoch_oracle_rows_def ch_Inr word_gt_0 split: if_splits)

lemma epoch_covered_Inr:
  assumes "assert_reset_epoch_is_covered env cfg spec refs st = Inr (u, st')"
  shows "st' = st" and "ur_quote_asset_id spec \<in> set (pivot_ids refs) \<Longrightarrow> \<exists>usdc_id fr. rf_usdc refs = Some usdc_id \<and>
    ch_first_reference env cfg (ur_quote_asset_id spec) usdc_id (cs_db st) = Inr (Some fr) \<and> fr \<le> ur_not_before spec"
  using assms by (auto simp: assert_reset_epoch_is_covered_def check_reset_epoch_def ch_Inr not_less split: if_splits option.splits)

lemma external_mode_Inr:
  "ch_bind (ch_lift (assert_external_rate_leg_is_usdc spec refs)) (\<lambda>_. ch_bind (assert_external_rates_are_loaded env spec) (\<lambda>_.
     ch_bind (assert_hourly_rates_are_loaded env cfg) (\<lambda>_. assert_no_pre_epoch_oracle_rows env cfg spec))) st = Inr (u, st') \<Longrightarrow>
   st' = st \<and> rf_usdc refs = Some (ur_quote_asset_id spec) \<and> (\<exists>n. 0 < n \<and> ch_external_rates env (cs_db st) = Inr n) \<and>
   hourly_loaded env cfg (cs_db st) \<and> ch_pre_epoch_rows env cfg (ur_quote_asset_id spec) (cs_db st) = Inr 0"
  by (auto simp: ch_Inr rates_loaded_Inr no_pre_epoch_Inr hourly_loaded_Inr assert_external_rate_leg_is_usdc_def split: if_splits)

lemma pivot_mode_Inr:
  "ch_bind (ch_lift (assert_pivot_rate_leg_is_a_pivot_reference spec refs)) (\<lambda>_. assert_external_rates_are_loaded env spec) st = Inr (u, st') \<Longrightarrow>
   st' = st \<and> can_pivot refs \<and> ur_quote_asset_id spec \<in> set (pivot_ids refs) \<and> (\<exists>n. 0 < n \<and> ch_external_rates env (cs_db st) = Inr n)"
  by (auto simp: ch_Inr rates_loaded_Inr assert_pivot_rate_leg_is_a_pivot_reference_def split: if_splits)

lemma ch_when_Inr: "ch_when b m st = Inr (u, st') \<longleftrightarrow> (if b then m st = Inr (u, st') else u = () \<and> st' = st)"
  by (auto simp: ch_when_def ch_return_def)

lemma validate_Inr:
  "validate_reset spec = Inr u \<longleftrightarrow> \<not> (ur_require_external_rate spec \<and> ur_require_pivot_usdc_rate spec) \<and>
   (\<forall>na. ur_not_after spec = Some na \<longrightarrow> ur_not_before spec < na)"
  by (auto simp: validate_reset_def not_le split: option.splits)

lemma admissible_Inr:
  assumes "assert_reset_is_admissible env cfg st = Inr (u, st')" and "ec_usd_reset cfg = Some spec"
  shows "\<exists>rows. ch_assets env (cs_db st) = Inr rows \<and> admitted env cfg spec (reference_ids_of rows) (cs_db st) \<and> st' = st"
proof -
  obtain rows where rows: "ch_assets env (cs_db st) = Inr rows" and valid: "validate_reset spec = Inr ()"
    and priceable: "assert_reset_target_is_priceable spec (reference_ids_of rows) = Inr ()"
    and plain: "check_plain_mode_leg spec (reference_ids_of rows) = Inr ()"
    and rest: "ch_bind (assert_reset_not_shadowed_by_oracle env cfg spec) (\<lambda>_.
          ch_bind (ch_when (ur_require_external_rate spec)
            (ch_bind (ch_lift (assert_external_rate_leg_is_usdc spec (reference_ids_of rows))) (\<lambda>_.
             ch_bind (assert_external_rates_are_loaded env spec) (\<lambda>_.
             ch_bind (assert_hourly_rates_are_loaded env cfg) (\<lambda>_.
             assert_no_pre_epoch_oracle_rows env cfg spec))))) (\<lambda>_.
          ch_bind (ch_when (ur_require_pivot_usdc_rate spec)
            (ch_bind (ch_lift (assert_pivot_rate_leg_is_a_pivot_reference spec (reference_ids_of rows))) (\<lambda>_.
             assert_external_rates_are_loaded env spec))) (\<lambda>_.
          assert_reset_epoch_is_covered env cfg spec (reference_ids_of rows)))) st = Inr (u, st')"
    using assms unfolding assert_reset_is_admissible_def resolve_reference_ids_def by (auto simp: ch_Inr)
  obtain st1 st2 st3 u1 u2 u3 where steps: "assert_reset_not_shadowed_by_oracle env cfg spec st = Inr (u1, st1)"
    "ch_when (ur_require_external_rate spec)
            (ch_bind (ch_lift (assert_external_rate_leg_is_usdc spec (reference_ids_of rows))) (\<lambda>_.
             ch_bind (assert_external_rates_are_loaded env spec) (\<lambda>_.
             ch_bind (assert_hourly_rates_are_loaded env cfg) (\<lambda>_.
             assert_no_pre_epoch_oracle_rows env cfg spec)))) st1 = Inr (u2, st2)"
    "ch_when (ur_require_pivot_usdc_rate spec)
            (ch_bind (ch_lift (assert_pivot_rate_leg_is_a_pivot_reference spec (reference_ids_of rows))) (\<lambda>_.
             assert_external_rates_are_loaded env spec)) st2 = Inr (u3, st3)"
    "assert_reset_epoch_is_covered env cfg spec (reference_ids_of rows) st3 = Inr (u, st')"
    using rest unfolding ch_bind_Inr [of "assert_reset_not_shadowed_by_oracle env cfg spec"]
      ch_bind_Inr [of "ch_when (ur_require_external_rate spec) m" for m]
      ch_bind_Inr [of "ch_when (ur_require_pivot_usdc_rate spec) m" for m] by blast
  have shadow: "st1 = st" "ch_oracle_rows env cfg (ur_quote_asset_id spec) (oracle_scan_from cfg spec) (ur_not_after spec) (cs_db st) = Inr 0"
    using steps(1) by (auto simp: not_shadowed_Inr)
  have ext: "st2 = st" "ur_require_external_rate spec \<Longrightarrow> rf_usdc (reference_ids_of rows) = Some (ur_quote_asset_id spec) \<and>
      (\<exists>n. 0 < n \<and> ch_external_rates env (cs_db st) = Inr n) \<and> hourly_loaded env cfg (cs_db st) \<and>
      ch_pre_epoch_rows env cfg (ur_quote_asset_id spec) (cs_db st) = Inr 0"
    using steps(2) external_mode_Inr [of spec "reference_ids_of rows" env cfg st u2 st2] unfolding shadow ch_when_Inr by (auto split: if_splits)
  have piv: "st3 = st" "ur_require_pivot_usdc_rate spec \<Longrightarrow> can_pivot (reference_ids_of rows) \<and>
      ur_quote_asset_id spec \<in> set (pivot_ids (reference_ids_of rows)) \<and> (\<exists>n. 0 < n \<and> ch_external_rates env (cs_db st) = Inr n)"
    using steps(3) pivot_mode_Inr [of spec "reference_ids_of rows" env st u3 st3] unfolding ext(1) ch_when_Inr by (auto split: if_splits)
  note epoch = epoch_covered_Inr [OF steps(4) [unfolded piv(1)]]
  show ?thesis
    using rows shadow(2) ext(2) piv(2) epoch valid priceable plain
    unfolding admitted_def Let_def validate_Inr assert_reset_target_is_priceable_def check_plain_mode_leg_def
    by (auto split: if_splits)
qed

section \<open>Where a reset can come from\<close>

definition no_reset :: "ch_event list \<Rightarrow> bool" where
  "no_reset t \<longleftrightarrow> Ran ResetBatch \<notin> set t"

lemma no_reset_simps [simp]: "no_reset []" "no_reset (t @ u) \<longleftrightarrow> no_reset t \<and> no_reset u"
  by (auto simp: no_reset_def)

lemma does_no_reset_bind:
  assumes "does m (\<lambda>_. no_reset) (\<lambda>_. no_reset)" and "\<And>x. does (f x) (\<lambda>_. no_reset) (\<lambda>_. no_reset)"
  shows "does (ch_bind m f) (\<lambda>_. no_reset) (\<lambda>_. no_reset)"
  by (rule does_bind [OF assms(1)]) (auto intro: does_conseq [OF assms(2)])

lemma no_reset_rounds: "no_reset (rounds [OracleBatch] ns)"
  by (induction ns) (auto simp: no_reset_def)

lemma count_no_reset: "does (count_candidates env cfg wm) (\<lambda>_. no_reset) (\<lambda>_. no_reset)"
  by (rule does_count) (auto simp: no_reset_def)

lemma oracle_no_reset: "does (run_oracle_tier env cfg wm b) (\<lambda>_. no_reset) (\<lambda>_. no_reset)"
  by (rule does_conseq [OF oracle_does [OF counts_any]])
    (auto simp: tier_events_def tier_failed_def no_reset_rounds, auto simp: no_reset_def dest: in_set_takeD)

lemma reference_no_reset: "does (run_reference_tiers env cfg wm ts) (\<lambda>_. no_reset) (\<lambda>_. no_reset)"
  by (rule does_conseq [OF reference_does [OF counts_any]])
    (auto simp: no_reset_def reference_failed_def below_def dest: reference_below)

lemma tiers_no_reset:
  "does (ch_bind (count_candidates env cfg wm) (\<lambda>before. ch_bind (run_oracle_tier env cfg wm before) (\<lambda>ot.
     ch_bind (run_reference_tiers env cfg wm ot) (\<lambda>ts. ch_bind (ch_read (ch_volume_zero env cfg wm)) (\<lambda>rest.
     ch_return (pass_stats r before ot ts rest)))))) (\<lambda>_. no_reset) (\<lambda>_. no_reset)"
  by (intro does_no_reset_bind count_no_reset oracle_no_reset reference_no_reset does_read does_return) auto

lemma no_admission_no_reset:
  assumes "\<And>spec. ec_usd_reset cfg = Some spec \<Longrightarrow> ec_one_shot cfg \<Longrightarrow> assert_reset_is_admissible env cfg \<lparr>cs_db = d, cs_trace = []\<rparr> \<noteq> Inr ((), \<lparr>cs_db = d, cs_trace = []\<rparr>)"
  shows "no_reset (trace_of (run_through env cfg wm \<lparr>cs_db = d, cs_trace = []\<rparr>))"
proof (cases "ec_usd_reset cfg")
  case None
  have "does (run_through env cfg wm) (\<lambda>_. no_reset) (\<lambda>_. no_reset)"
    unfolding run_through_def None option.case
    by (rule does_no_reset_bind [OF _ tiers_no_reset]) auto
  then show ?thesis
    by (elim does_trace [of _ _ _ "\<lparr>cs_db = d, cs_trace = []\<rparr>"]) simp_all
next
  case (Some spec)
  let ?st = "\<lparr>cs_db = d, cs_trace = []\<rparr>"
  show ?thesis
  proof (cases "ec_one_shot cfg")
    case False
    then show ?thesis
      by (simp add: run_through_def Some reset_step_def ch_bind_def ch_fail_def trace_of_def)
  next
    case True
    have "trace_of (assert_reset_is_admissible env cfg ?st) = []"
      by (rule does_trace [OF admissible_is_quiet, of ?st]) simp_all
    moreover have "st' = ?st" if "assert_reset_is_admissible env cfg ?st = Inr (u, st')" for u st'
      using admissible_Inr [OF that Some] by blast
    ultimately obtain e st' where "assert_reset_is_admissible env cfg ?st = Inl (e, st')" "cs_trace st' = []"
      using assms [OF Some True] by (cases "assert_reset_is_admissible env cfg ?st") (auto simp: trace_of_def)
    then show ?thesis
      using True by (simp add: run_through_def Some reset_step_def ch_bind_def trace_of_def)
  qed
qed

text \<open>
  C10: A pass zeroes USD columns only in one-shot mode and only after every refusal was tried on the database it
  started from: the spec names one mode and a non-empty window, its leg is one a tier prices, no oracle reading
  shadows the window, the external rates its mode refills from are loaded, hourly ones where the table is finer
  than a day, and a pivot leg has a reference candle at or below the first row reset.
\<close>

theorem reset_only_what_prices_again:
  assumes "Ran ResetBatch \<in> set (trace_of (run_enrichment env cfg \<lparr>cs_db = d, cs_trace = []\<rparr>))"
  shows "\<exists>spec rows. ec_one_shot cfg \<and> ec_usd_reset cfg = Some spec \<and> ch_assets env d = Inr rows \<and>
    admitted env cfg spec (reference_ids_of rows) d"
proof (rule ccontr)
  assume none: "\<not> ?thesis"
  have "no_reset (trace_of (run_through env cfg wm \<lparr>cs_db = d, cs_trace = []\<rparr>))" for wm
    using none admissible_Inr [of env cfg "\<lparr>cs_db = d, cs_trace = []\<rparr>"] by (intro no_admission_no_reset) fastforce
  then show False
    using assms pass_trace [of env cfg d] by (auto simp: no_reset_def)
qed

end
