(* ===== verification/Enrich_Driver.thy ===== *)
theory Enrich_Driver
  imports Enrich_Reset
begin

text \<open>
  What the drivers of enrichment passes share: a state of the database with a log of their own events, a pass as one
  event, the look at the clock before each step, and a calculus of the events a driver can add.
\<close>

section \<open>State and steps\<close>

text \<open>\<open>sw_looks\<close> counts the looks at the machine's clock, before each step.\<close>

record ('d, 'e) sw_state =
  sw_db :: 'd
  sw_log :: "'e list"
  sw_looks :: nat

definition sw_read :: "('d \<Rightarrow> (string, 'a) result) \<Rightarrow> (('d, 'e) sw_state, 'a) ch_prog" where
  "sw_read q st = (case q (sw_db st) of Inl message \<Rightarrow> ch_fail (ChClickhouse message) st | Inr x \<Rightarrow> ch_return x st)"

definition sw_pass :: "'d ch_env \<Rightarrow> (ch_event list \<Rightarrow> 'e) \<Rightarrow> enrich_config \<Rightarrow> (('d, 'e) sw_state, ch_pass_stats) ch_prog" where
  "sw_pass env ev cfg st =
     (case run_enrichment env cfg \<lparr>cs_db = sw_db st, cs_trace = []\<rparr> of
        Inl (e, c) \<Rightarrow> Inl (e, st\<lparr>sw_db := cs_db c, sw_log := sw_log st @ [ev (cs_trace c)]\<rparr>)
      | Inr (stats, c) \<Rightarrow> Inr (stats, st\<lparr>sw_db := cs_db c, sw_log := sw_log st @ [ev (cs_trace c)]\<rparr>))"

text \<open>\<open>instant\<close> answers the looks at the machine's clock by their number.\<close>

definition past_deadline :: "(nat \<Rightarrow> nat) \<Rightarrow> nat option \<Rightarrow> (('d, 'e) sw_state, bool) ch_prog" where
  "past_deadline instant deadline st =
     (case deadline of
        None \<Rightarrow> ch_return False st
      | Some limit \<Rightarrow> ch_return (limit \<le> instant (sw_looks st)) (st\<lparr>sw_looks := Suc (sw_looks st)\<rparr>))"

definition sat_mul64 :: "u64 \<Rightarrow> u64 \<Rightarrow> u64" where
  "sat_mul64 a b = (if unat a * unat b < 2 ^ 64 then a * b else - 1)"

definition remaining_budget_ms :: "u64 \<Rightarrow> u64 \<Rightarrow> u64" where
  "remaining_budget_ms deadline_ms now_ms = sat_sub (sat_sub deadline_ms now_ms) 60000"

section \<open>The events of a driver\<close>

text \<open>Every event a program adds satisfies \<open>Q\<close>, whether it returns or fails.\<close>

definition logs :: "('e \<Rightarrow> bool) \<Rightarrow> (('d, 'e) sw_state, 'a) ch_prog \<Rightarrow> bool" where
  "logs Q m \<longleftrightarrow> (\<forall>st. list_all Q (sw_log st) \<longrightarrow> (case m st of Inl (e, st') \<Rightarrow> list_all Q (sw_log st') | Inr (x, st') \<Rightarrow> list_all Q (sw_log st')))"

named_theorems logs

lemma logs_return [logs]: "logs Q (ch_return x)"
  by (simp add: logs_def ch_return_def)

lemma logs_read [logs]: "logs Q (sw_read q)"
  by (simp add: logs_def sw_read_def ch_return_def ch_fail_def split: sum.split)

lemma logs_past [logs]: "logs Q (past_deadline instant deadline)"
  by (simp add: logs_def past_deadline_def ch_return_def split: option.split)

lemma logs_pass:
  fixes env :: "'d ch_env" and Q :: "'e \<Rightarrow> bool"
  shows "(\<And>d. Q (ev (trace_of (run_enrichment env cfg \<lparr>cs_db = d, cs_trace = []\<rparr>)))) \<Longrightarrow> logs Q (sw_pass env ev cfg)"
  unfolding logs_def sw_pass_def
proof (intro allI impI)
  fix st :: "('d, 'e) sw_state"
  assume Q: "\<And>d. Q (ev (trace_of (run_enrichment env cfg \<lparr>cs_db = d, cs_trace = []\<rparr>)))" and all: "list_all Q (sw_log st)"
  show "case (case run_enrichment env cfg \<lparr>cs_db = sw_db st, cs_trace = []\<rparr> of
        Inl (e, c) \<Rightarrow> Inl (e, st\<lparr>sw_db := cs_db c, sw_log := sw_log st @ [ev (cs_trace c)]\<rparr>)
      | Inr (stats, c) \<Rightarrow> Inr (stats, st\<lparr>sw_db := cs_db c, sw_log := sw_log st @ [ev (cs_trace c)]\<rparr>)) of
    Inl (e, st') \<Rightarrow> list_all Q (sw_log st') | Inr (x, st') \<Rightarrow> list_all Q (sw_log st')"
    using Q [of "sw_db st"] all by (auto simp: trace_of_def split: sum.split)
qed

lemma logs_bind [logs]:
  fixes m :: "(('d, 'e) sw_state, 'a) ch_prog"
  shows "logs Q m \<Longrightarrow> (\<And>x. logs Q (f x)) \<Longrightarrow> logs Q (ch_bind m f)"
  unfolding logs_def
proof (intro allI impI)
  fix st :: "('d, 'e) sw_state"
  assume m: "\<forall>st. list_all Q (sw_log st) \<longrightarrow> (case m st of Inl (e, st') \<Rightarrow> list_all Q (sw_log st') | Inr (x, st') \<Rightarrow> list_all Q (sw_log st'))"
    and f: "\<And>x. \<forall>st. list_all Q (sw_log st) \<longrightarrow> (case f x st of Inl (e, st') \<Rightarrow> list_all Q (sw_log st') | Inr (x, st') \<Rightarrow> list_all Q (sw_log st'))"
    and "list_all Q (sw_log st)"
  with m [rule_format, of st] show "case ch_bind m f st of Inl (e, st') \<Rightarrow> list_all Q (sw_log st') | Inr (x, st') \<Rightarrow> list_all Q (sw_log st')"
    by (cases "m st") (auto simp: ch_bind_def)
qed

definition final_log :: "(ch_error \<times> ('d, 'e) sw_state, 'a \<times> ('d, 'e) sw_state) result \<Rightarrow> 'e list" where
  "final_log r = (case r of Inl (_, st) \<Rightarrow> sw_log st | Inr (_, st) \<Rightarrow> sw_log st)"

lemma logs_final:
  fixes m :: "(('d, 'e) sw_state, 'a) ch_prog"
  shows "logs Q m \<Longrightarrow> list_all Q (sw_log st) \<Longrightarrow> list_all Q (final_log (m st))"
proof -
  assume logs: "logs Q m" and log: "list_all Q (sw_log st)"
  then have "case m st of Inl (e, st') \<Rightarrow> list_all Q (sw_log st') | Inr (x, st') \<Rightarrow> list_all Q (sw_log st')"
    unfolding logs_def by blast
  then show ?thesis by (cases "m st") (auto simp: final_log_def)
qed

section \<open>A pass without batches\<close>

definition silent :: "ch_event list \<Rightarrow> bool" where
  "silent t \<longleftrightarrow> (\<forall>s. Ran s \<notin> set t)"

lemma silent_simps [simp]: "silent []" "silent (t @ u) \<longleftrightarrow> silent t \<and> silent u" "silent [Counted n]"
  by (auto simp: silent_def)

lemma does_silent_bind:
  assumes "does m (\<lambda>_. silent) (\<lambda>_. silent)" and "\<And>x. does (f x) (\<lambda>_. silent) (\<lambda>_. silent)"
  shows "does (ch_bind m f) (\<lambda>_. silent) (\<lambda>_. silent)"
  by (rule does_bind [OF assms(1)]) (auto intro: does_conseq [OF assms(2)])

lemma count_silent: "does (count_candidates env cfg wm) (\<lambda>_. silent) (\<lambda>_. silent)"
  by (rule does_count) auto

lemma tier_silent: "effective_max_batches cfg = 0 \<Longrightarrow> does (run_tier env cfg wm step ts) (\<lambda>_. silent) (\<lambda>_. silent)"
  by (auto simp: run_tier_def)

lemma reference_silent: "effective_max_batches cfg = 0 \<Longrightarrow> does (run_reference_tiers env cfg wm ts) (\<lambda>_. silent) (\<lambda>_. silent)"
  unfolding run_reference_tiers_def resolve_reference_ids_def run_external_tier_def run_peg_pivot_tier_def
  by (auto intro!: does_silent_bind does_read does_return tier_silent split: option.split)

lemma idle_pass:
  assumes "effective_max_batches cfg = 0" and "ec_usd_reset cfg = None"
  shows "silent (trace_of (run_enrichment env cfg \<lparr>cs_db = d, cs_trace = []\<rparr>))"
proof -
  have "does (run_enrichment env cfg) (\<lambda>_. silent) (\<lambda>_. silent)"
    unfolding run_enrichment_def run_through_def assms(2) option.case run_oracle_tier_def
    by (intro does_silent_bind does_read does_return count_silent tier_silent reference_silent) (use assms(1) in auto)
  then show ?thesis
    by (elim does_trace [of _ _ _ "\<lparr>cs_db = d, cs_trace = []\<rparr>"]) simp_all
qed

end
