(* ===== verification/Text_Pieces.thy ===== *)
theory Text_Pieces
  imports Main
begin

text \<open>Splitting and trimming of texts, bytes in UTF-8, the way \<open>str::split\<close>, \<open>trim\<close> and \<open>split_whitespace\<close> do it.\<close>

text \<open>The pieces of a text between the occurrences of a character.\<close>

fun split_on :: "char \<Rightarrow> string \<Rightarrow> string list" where
  "split_on c [] = [[]]"
| "split_on c (x # xs) = (if x = c then [] # split_on c xs else (case split_on c xs of [] \<Rightarrow> [[x]] | s # ss \<Rightarrow> (x # s) # ss))"

text \<open>The white space characters of Unicode, in UTF-8.\<close>

definition white_chars :: "string list" where
  "white_chars = map (map char_of) ([[9], [10], [11], [12], [13], [32], [194, 133], [194, 160], [225, 154, 128]] @
     map (\<lambda>k. [226, 128, k]) [128..<139] @ [[226, 128, 168], [226, 128, 169], [226, 128, 175], [226, 129, 159], [227, 128, 128 :: nat]])"

function trim_front :: "string list \<Rightarrow> string \<Rightarrow> string" where
  "trim_front ws s = (case find (\<lambda>w. w \<noteq> [] \<and> take (length w) s = w) ws of None \<Rightarrow> s | Some w \<Rightarrow> trim_front ws (drop (length w) s))"
  by auto
termination
proof (relation "measure (length \<circ> snd)", goal_cases)
  case (2 ws s w)
  then have "w \<noteq> []" "take (length w) s = w" by (auto simp: find_Some_iff)
  then show ?case by (cases w; cases s) auto
qed auto

declare trim_front.simps [simp del]

definition trim :: "string \<Rightarrow> string" where
  "trim s = rev (trim_front (map rev white_chars) (rev (trim_front white_chars s)))"

text \<open>The first word; \<open>None\<close> of a blank text.\<close>

fun until_white :: "string \<Rightarrow> string" where
  "until_white [] = []"
| "until_white (c # cs) = (if \<exists>w \<in> set white_chars. take (length w) (c # cs) = w then [] else c # until_white cs)"

definition first_word :: "string \<Rightarrow> string option" where
  "first_word s = (case until_white (trim_front white_chars s) of [] \<Rightarrow> None | w \<Rightarrow> Some w)"

end
