(* ===== verification/Coarse_Repair.thy ===== *)
theory Coarse_Repair
  imports Enrich_Driver Event_Json Text_Pieces
begin

text \<open>
  The repair of the coarse candle tables, one monthly partition at a time, and the recurring sweep built on it
  (\<open>enrichment-worker/src/repair.rs\<close>). The enumeration of the months, the snapshot of a partition, the server's month
  window and the machine's clock are parameters.
\<close>

section \<open>Configuration and outcome\<close>

record repair_config =
  rc_enrich :: enrich_config
  rc_start_month :: u32
  rc_end_month :: u32
  rc_snapshot :: bool
  rc_dry_run :: bool
  rc_one_shot :: bool
  rc_deadline :: "nat option"

record month_window =
  mn_month :: u32
  mn_start_ts :: u32
  mn_end_ts :: u32
  mn_zeros :: u64

record month_repair =
  mr_month :: u32
  mr_zeros_before :: u64
  mr_zeros_after :: u64
  mr_rows_enriched :: u64
  mr_rows_reset :: u64
  mr_snapshot_name :: "string option"

record repair_summary =
  rs_months :: "month_repair list"
  rs_deadline_hit :: bool

definition empty_repair :: repair_summary where
  "empty_repair = \<lparr>rs_months = [], rs_deadline_hit = False\<rparr>"

definition total_enriched :: "repair_summary \<Rightarrow> u64" where
  "total_enriched summary = sum_list (map mr_rows_enriched (rs_months summary))"

definition total_remaining :: "repair_summary \<Rightarrow> u64" where
  "total_remaining summary = sum_list (map mr_zeros_after (rs_months summary))"

definition total_reset :: "repair_summary \<Rightarrow> u64" where
  "total_reset summary = sum_list (map mr_rows_reset (rs_months summary))"

section \<open>One table\<close>

text \<open>What is seen of a repair: a partition frozen under a name, and the passes with table, month and window.\<close>

datatype repair_event =
  Froze string u32 string
| Repaired string u32 "u32 \<times> u32" "ch_event list"

record 'd cr_env =
  cr_ch :: "'d ch_env"
  cr_months :: "enrich_config \<Rightarrow> u32 \<Rightarrow> u32 \<Rightarrow> 'd \<Rightarrow> (string, month_window list) result"
  cr_freeze :: "string \<Rightarrow> string \<Rightarrow> u32 \<Rightarrow> string \<Rightarrow> 'd \<Rightarrow> (string, 'd) result"
  cr_window :: "u32 \<Rightarrow> 'd \<Rightarrow> (string, u32 \<times> u32) result"
  cr_instant :: "nat \<Rightarrow> nat"

text \<open>The refusals of a pass, run on their own.\<close>

definition sw_refusals :: "'d ch_env \<Rightarrow> enrich_config \<Rightarrow> (('d, 'e) sw_state, unit) ch_prog" where
  "sw_refusals env cfg st =
     (case assert_reset_is_admissible env cfg \<lparr>cs_db = sw_db st, cs_trace = []\<rparr> of
        Inl (e, c) \<Rightarrow> Inl (e, st\<lparr>sw_db := cs_db c\<rparr>)
      | Inr (u, c) \<Rightarrow> Inr (u, st\<lparr>sw_db := cs_db c\<rparr>))"

definition snapshot_name :: "enrich_config \<Rightarrow> u32 \<Rightarrow> string" where
  "snapshot_name cfg month = ''repair_0114_'' @ ec_database cfg @ ''_'' @ ec_table cfg @ ''_'' @ show_nat (unat month)"

definition freeze_partition :: "'d cr_env \<Rightarrow> enrich_config \<Rightarrow> u32 \<Rightarrow> (('d, repair_event) sw_state, string) ch_prog" where
  "freeze_partition env cfg month st =
     (case cr_freeze env (ec_database cfg) (ec_table cfg) month (snapshot_name cfg month) (sw_db st) of
        Inl message \<Rightarrow> ch_fail (FreezeDenied (ec_table cfg) month message) st
      | Inr d \<Rightarrow> ch_return (snapshot_name cfg month)
          (st\<lparr>sw_db := d, sw_log := sw_log st @ [Froze (ec_table cfg) month (snapshot_name cfg month)]\<rparr>))"

definition dry_month :: "month_window \<Rightarrow> month_repair" where
  "dry_month mw = \<lparr>mr_month = mn_month mw, mr_zeros_before = mn_zeros mw, mr_zeros_after = mn_zeros mw,
     mr_rows_enriched = 0, mr_rows_reset = 0, mr_snapshot_name = None\<rparr>"

definition repaired_month :: "month_window \<Rightarrow> string option \<Rightarrow> ch_pass_stats \<Rightarrow> month_repair" where
  "repaired_month mw name stats = \<lparr>mr_month = mn_month mw, mr_zeros_before = cp_candidates_before stats,
     mr_zeros_after = cp_candidates_after stats, mr_rows_enriched = cp_rows_enriched stats,
     mr_rows_reset = cp_rows_reset stats, mr_snapshot_name = name\<rparr>"

text \<open>A month: the snapshot if enabled, then a pass bounded to the partition.\<close>

definition repair_month :: "'d cr_env \<Rightarrow> repair_config \<Rightarrow> month_window \<Rightarrow> (('d, repair_event) sw_state, month_repair) ch_prog" where
  "repair_month env cfg mw =
     (if rc_dry_run cfg then ch_return (dry_month mw)
      else ch_bind (if rc_snapshot cfg
                    then ch_bind (freeze_partition env (rc_enrich cfg) (mn_month mw)) (\<lambda>name. ch_return (Some name))
                    else ch_return None) (\<lambda>name.
           ch_bind (sw_pass (cr_ch env) (Repaired (ec_table (rc_enrich cfg)) (mn_month mw) (mn_start_ts mw, mn_end_ts mw))
             ((rc_enrich cfg)\<lparr>ec_time_window := Some (mn_start_ts mw, mn_end_ts mw), ec_one_shot := rc_one_shot cfg\<rparr>)) (\<lambda>stats.
           ch_return (repaired_month mw name stats))))"

fun repair_months :: "'d cr_env \<Rightarrow> repair_config \<Rightarrow> month_window list \<Rightarrow> repair_summary \<Rightarrow> (('d, repair_event) sw_state, repair_summary) ch_prog" where
  "repair_months env cfg [] summary = ch_return summary"
| "repair_months env cfg (mw # months) summary =
     ch_bind (past_deadline (cr_instant env) (rc_deadline cfg)) (\<lambda>late.
       if late then ch_return (summary\<lparr>rs_deadline_hit := True\<rparr>)
       else ch_bind (repair_month env cfg mw) (\<lambda>m.
         repair_months env cfg months (summary\<lparr>rs_months := rs_months summary @ [m]\<rparr>)))"

definition run_repair :: "'d cr_env \<Rightarrow> repair_config \<Rightarrow> (('d, repair_event) sw_state, repair_summary) ch_prog" where
  "run_repair env cfg =
     ch_bind (sw_refusals (cr_ch env) (rc_enrich cfg)) (\<lambda>_.
     ch_bind (sw_read (cr_months env (rc_enrich cfg) (rc_start_month cfg) (rc_end_month cfg))) (\<lambda>months.
     repair_months env cfg months empty_repair))"

section \<open>The table list\<close>

definition is_coarse_table :: "string \<Rightarrow> bool" where
  "is_coarse_table table \<longleftrightarrow> take 12 table = ''price_ohlcv_'' \<and> table \<noteq> ''price_ohlcv_1m''"

definition coarse_tables_from_list :: "string \<Rightarrow> string list" where
  "coarse_tables_from_list raw = filter is_coarse_table (filter (\<lambda>s. s \<noteq> []) (map trim (split_on CHR '','' raw)))"

section \<open>The recurring sweep\<close>

record sweep_tables_config =
  sc_base :: enrich_config
  sc_tables :: "string list"
  sc_lookback_months :: u32
  sc_max_batches :: u32

record table_sweep =
  tw_table :: string
  tw_summary :: repair_summary

record coarse_summary =
  co_start_month :: u32
  co_end_month :: u32
  co_tables :: "table_sweep list"
  co_failed_tables :: "string list"
  co_skipped_tables :: "string list"
  co_deadline_hit :: bool
  co_deferred_tables :: "string list"

definition was_starved :: "coarse_summary \<Rightarrow> bool" where
  "was_starved summary \<longleftrightarrow> co_deadline_hit summary \<or> (\<exists>t \<in> set (co_tables summary). rs_deadline_hit (tw_summary t))"

definition sweep_total_enriched :: "coarse_summary \<Rightarrow> u64" where
  "sweep_total_enriched summary = sum_list (map (total_enriched \<circ> tw_summary) (co_tables summary))"

definition sweep_total_remaining :: "coarse_summary \<Rightarrow> u64" where
  "sweep_total_remaining summary = sum_list (map (total_remaining \<circ> tw_summary) (co_tables summary))"

definition current_month_window :: "'d cr_env \<Rightarrow> u32 \<Rightarrow> (('d, repair_event) sw_state, u32 \<times> u32) ch_prog" where
  "current_month_window env lookback_months = sw_read (cr_window env (max lookback_months 1 - 1))"

text \<open>The repair of a table of the sweep: bounded, without a snapshot, and never a reset.\<close>

definition sweep_repair_config :: "sweep_tables_config \<Rightarrow> u32 \<times> u32 \<Rightarrow> nat option \<Rightarrow> string \<Rightarrow> repair_config" where
  "sweep_repair_config cfg window deadline table =
     \<lparr>rc_enrich = (sc_base cfg)\<lparr>ec_table := table, ec_max_batches := sc_max_batches cfg, ec_usd_reset := None\<rparr>,
       rc_start_month = fst window, rc_end_month = snd window, rc_snapshot = False, rc_dry_run = False,
       rc_one_shot = False, rc_deadline = deadline\<rparr>"

text \<open>A table whose repair fails is recorded, and the sweep goes on from the state it left.\<close>

definition sweep_table :: "'d cr_env \<Rightarrow> sweep_tables_config \<Rightarrow> u32 \<times> u32 \<Rightarrow> nat option \<Rightarrow> string \<Rightarrow> coarse_summary \<Rightarrow>
    (('d, repair_event) sw_state, coarse_summary) ch_prog" where
  "sweep_table env cfg window deadline table summary st =
     (case run_repair env (sweep_repair_config cfg window deadline table) st of
        Inr (s, st) \<Rightarrow> ch_return (summary\<lparr>co_tables := co_tables summary @ [\<lparr>tw_table = table, tw_summary = s\<rparr>]\<rparr>) st
      | Inl (e, st) \<Rightarrow> ch_return (summary\<lparr>co_failed_tables := co_failed_tables summary @ [table]\<rparr>) st)"

fun sweep_tables :: "'d cr_env \<Rightarrow> sweep_tables_config \<Rightarrow> u32 \<times> u32 \<Rightarrow> nat option \<Rightarrow> string list \<Rightarrow> coarse_summary \<Rightarrow>
    (('d, repair_event) sw_state, coarse_summary) ch_prog" where
  "sweep_tables env cfg window deadline [] summary = ch_return summary"
| "sweep_tables env cfg window deadline (table # tables) summary =
     ch_bind (past_deadline (cr_instant env) deadline) (\<lambda>late.
       if late then ch_return (summary\<lparr>co_deadline_hit := True, co_deferred_tables := dropWhile (\<lambda>t. t \<noteq> table) (sc_tables cfg)\<rparr>)
       else if \<not> is_coarse_table table
       then sweep_tables env cfg window deadline tables (summary\<lparr>co_skipped_tables := co_skipped_tables summary @ [table]\<rparr>)
       else ch_bind (sweep_table env cfg window deadline table summary) (sweep_tables env cfg window deadline tables))"

definition empty_coarse :: "u32 \<times> u32 \<Rightarrow> coarse_summary" where
  "empty_coarse window = \<lparr>co_start_month = fst window, co_end_month = snd window, co_tables = [], co_failed_tables = [],
     co_skipped_tables = [], co_deadline_hit = False, co_deferred_tables = []\<rparr>"

definition run_coarse_sweep :: "'d cr_env \<Rightarrow> sweep_tables_config \<Rightarrow> nat option \<Rightarrow> (('d, repair_event) sw_state, coarse_summary) ch_prog" where
  "run_coarse_sweep env cfg deadline =
     ch_bind (current_month_window env (sc_lookback_months cfg)) (\<lambda>window.
     sweep_tables env cfg window deadline (sc_tables cfg) (empty_coarse window))"

end
