(* ===== verification/Month_Window.thy ===== *)
theory Month_Window
  imports Prelude
begin

text \<open>
  Monthly partitions as windows of unix seconds (\<open>enrichment-worker/src/live_window.rs\<close>). The calendar of
  \<open>chrono\<close> is a parameter: the year and month of a timestamp, and the first instant of a month. Sums of months
  are taken in \<open>int\<close> where years and counts are too small to overflow 64 bits, and wrap in \<open>add_months\<close>,
  whose step is a parameter.
\<close>

section \<open>The calendar\<close>

record cal_ops =
  cal_date :: "int \<Rightarrow> (int \<times> int) option"
  cal_first :: "int \<Rightarrow> int \<Rightarrow> int option"

text \<open>Months by their absolute index, \<open>year * 12 + month0\<close>.\<close>

definition cal_month :: "cal_ops \<Rightarrow> int \<Rightarrow> int option" where
  "cal_month cal idx = cal_first cal (idx div 12) (idx mod 12 + 1)"

text \<open>
  What the code relies on: months follow each other, every month from 1970 to 2106 exists, a timestamp lies in its
  month, and timestamps of 32 bits end in February 2106.
\<close>

definition cal_laws :: "cal_ops \<Rightarrow> bool" where
  "cal_laws cal \<longleftrightarrow>
     (\<forall>i j a b. i < j \<longrightarrow> cal_month cal i = Some a \<longrightarrow> cal_month cal j = Some b \<longrightarrow> a < b) \<and>
     cal_month cal (1970 * 12) = Some 0 \<and> (\<exists>t. cal_month cal (2106 * 12 + 2) = Some t \<and> 2 ^ 32 \<le> t) \<and>
     (\<forall>i. 1970 * 12 \<le> i \<longrightarrow> i \<le> 2106 * 12 + 2 \<longrightarrow> cal_month cal i \<noteq> None) \<and>
     (\<forall>t. 0 \<le> t \<longrightarrow> t < 2 ^ 32 \<longrightarrow> cal_date cal t \<noteq> None) \<and>
     (\<forall>t y m. cal_date cal t = Some (y, m) \<longrightarrow> 1 \<le> m \<and> m \<le> 12 \<and>
        (\<exists>a. cal_month cal (y * 12 + (m - 1)) = Some a \<and> a \<le> t) \<and>
        (\<forall>j b. y * 12 + (m - 1) < j \<longrightarrow> cal_month cal j = Some b \<longrightarrow> t < b))"

section \<open>Windows\<close>

definition month_start_unix :: "cal_ops \<Rightarrow> int \<Rightarrow> u32 option" where
  "month_start_unix cal idx =
     (let year = idx div 12; month = idx mod 12 + 1 in
      if year < - (2 ^ 31) \<or> 2 ^ 31 \<le> year then None
      else case cal_first cal year month of
        None \<Rightarrow> None
      | Some start \<Rightarrow> if 0 \<le> start \<and> start < 2 ^ 32 then Some (word_of_int start) else None)"

definition live_partition_window :: "cal_ops \<Rightarrow> i64 \<Rightarrow> u32 \<Rightarrow> (u32 \<times> u32) option" where
  "live_partition_window cal now_unix partitions =
     (if partitions = 0 then None
      else case cal_date cal (sint now_unix) of
        None \<Rightarrow> None
      | Some (year, month) \<Rightarrow>
          let current = year * 12 + (month - 1)
          in case month_start_unix cal (current - (uint partitions - 1)) of
               None \<Rightarrow> None
             | Some start \<Rightarrow> (case month_start_unix cal (current + 1) of None \<Rightarrow> None | Some stop \<Rightarrow> Some (start, stop)))"

definition month_bounds :: "cal_ops \<Rightarrow> u32 \<Rightarrow> (u32 \<times> u32) option" where
  "month_bounds cal yyyymm =
     (let year = uint (yyyymm div 100); month = uint (yyyymm mod 100) in
      if 2 ^ 31 \<le> year then None
      else if \<not> (1 \<le> month \<and> month \<le> 12) then None
      else let idx = year * 12 + (month - 1)
           in case month_start_unix cal idx of
                None \<Rightarrow> None
              | Some start \<Rightarrow> (case month_start_unix cal (idx + 1) of None \<Rightarrow> None | Some stop \<Rightarrow> Some (start, stop)))"

definition month_of :: "cal_ops \<Rightarrow> i64 \<Rightarrow> u32 option" where
  "month_of cal unix = (case cal_date cal (sint unix) of None \<Rightarrow> None | Some (year, month) \<Rightarrow> Some (word_of_int year * 100 + word_of_int month))"

definition add_months :: "u32 \<Rightarrow> i64 \<Rightarrow> u32 option" where
  "add_months yyyymm n =
     (let year = ucast (yyyymm div 100) :: i64; month = ucast (yyyymm mod 100) :: i64 in
      if \<not> (1 \<le> uint month \<and> uint month \<le> 12) then None
      else let idx = year * 12 + (month - 1) + n; y = sint idx div 12; m = sint idx mod 12
           in if 0 \<le> y \<and> y < 2 ^ 32 then Some (word_of_int y * 100 + (word_of_int m + 1)) else None)"

section \<open>Partition identifiers and months\<close>

definition valid_month :: "u32 \<Rightarrow> bool" where
  "valid_month m \<longleftrightarrow> 1 \<le> unat m mod 100 \<and> unat m mod 100 \<le> 12"

definition month_index :: "u32 \<Rightarrow> int" where
  "month_index m = int (unat m div 100 * 12 + (unat m mod 100 - 1))"

lemma month_parts: "uint (m div 100) = int (unat m div 100)" "uint (m mod 100) = int (unat m mod 100)" for m :: u32
  by (simp_all add: uint_div uint_mod zdiv_int zmod_int)

lemma u32_century: "unat m div 100 \<le> 42949672" for m :: u32
proof -
  have "unat m < 2 ^ 32" using unsigned_less [of m] by simp
  then show ?thesis by simp
qed

lemma month_start_eq: "month_start_unix cal idx =
    (if idx div 12 < - (2 ^ 31) \<or> 2 ^ 31 \<le> idx div 12 then None
     else case cal_month cal idx of None \<Rightarrow> None | Some t \<Rightarrow> if 0 \<le> t \<and> t < 2 ^ 32 then Some (word_of_int t) else None)"
  by (simp add: month_start_unix_def cal_month_def Let_def)

lemma month_start_Some:
  "month_start_unix cal idx = Some t \<Longrightarrow> cal_month cal idx = Some (uint t)"
  by (auto simp: month_start_eq uint_word_of_int split: if_splits option.splits)

lemma month_bounds_Some:
  "month_bounds cal m = Some (a, b) \<Longrightarrow>
   valid_month m \<and> cal_month cal (month_index m) = Some (uint a) \<and> cal_month cal (month_index m + 1) = Some (uint b)"
  by (auto simp: month_bounds_def Let_def month_parts valid_month_def month_index_def of_nat_diff algebra_simps
      dest!: month_start_Some split: if_splits option.splits)

lemma valid_month_eqI:
  assumes "valid_month m" and "valid_month n" and "month_index m = month_index n"
  shows "m = n"
proof -
  have eq: "unat m div 100 * 12 + (unat m mod 100 - 1) = unat n div 100 * 12 + (unat n mod 100 - 1)"
    using assms(3) by (simp only: month_index_def of_nat_eq_iff)
  have small: "unat m mod 100 - 1 < 12" "unat n mod 100 - 1 < 12" "1 \<le> unat m mod 100" "1 \<le> unat n mod 100"
    using assms(1,2) by (auto simp: valid_month_def)
  have quotient: "(q * 12 + r) div 12 = q" if "r < 12" for q r :: nat
    using that by simp
  have q: "unat m div 100 = unat n div 100"
    using eq quotient [OF small(1)] quotient [OF small(2)] by metis
  moreover have "unat m mod 100 = unat n mod 100"
    using eq small unfolding q by linarith
  ultimately have "unat m = unat n" by (metis mult_div_mod_eq)
  then show ?thesis by (rule unsigned_word_eqI)
qed

lemma month_index_less:
  assumes "valid_month m" and "valid_month n"
  shows "month_index m < month_index n \<longleftrightarrow> m < n"
proof -
  let ?q = "unat m div 100" and ?q' = "unat n div 100" and ?s = "unat m mod 100 - 1" and ?s' = "unat n mod 100 - 1"
  have small: "?s < 12" "?s' < 12" and parts: "unat m = ?q * 100 + (?s + 1)" "unat n = ?q' * 100 + (?s' + 1)"
    using assms by (auto simp: valid_month_def)
  have "?q * 12 + ?s < ?q' * 12 + ?s' \<longleftrightarrow> ?q * 100 + (?s + 1) < ?q' * 100 + (?s' + 1)"
    using small by (cases ?q ?q' rule: linorder_cases) linarith+
  then show ?thesis
    by (simp only: month_index_def of_nat_less_iff word_less_nat_alt parts [symmetric])
qed

section \<open>The next month\<close>

lemma add_one_month:
  assumes "valid_month m" and "unat m < 4294967200"
  shows "add_months m 1 = Some (if unat m mod 100 = 12 then m + 89 else m + 1)"
proof -
  let ?y = "unat m div 100" and ?r = "unat m mod 100"
  have y: "?y \<le> 42949671" using assms(2) by simp
  have r: "1 \<le> ?r" "?r \<le> 12" using assms(1) by (auto simp: valid_month_def)
  have parts: "(ucast (m div 100) :: i64) = word_of_nat ?y" "(ucast (m mod 100) :: i64) = word_of_nat ?r"
    by (simp_all add: ucast_eq month_parts)
  have idx: "(word_of_nat ?y * 12 + (word_of_nat ?r - 1) + 1 :: i64) = word_of_nat (?y * 12 + ?r)"
    by simp
  have month: "uint (word_of_nat ?r :: i64) = int ?r"
    using r by (simp add: unsigned_of_nat take_bit_nat_eq_self)
  have sint: "sint (word_of_nat (?y * 12 + ?r) :: i64) = int (?y * 12 + ?r)"
    using y r by (simp add: signed_of_nat signed_take_bit_int_eq_self del: of_nat_add of_nat_mult)
  have step: "add_months m 1 = Some (word_of_nat ((?y * 12 + ?r) div 12) * 100 + (word_of_nat ((?y * 12 + ?r) mod 12) + 1))"
  proof -
    have q: "int (?y * 12 + ?r) div 12 = int ((?y * 12 + ?r) div 12)" "int (?y * 12 + ?r) mod 12 = int ((?y * 12 + ?r) mod 12)"
      by (simp_all only: zdiv_int zmod_int of_nat_numeral)
    have "(?y * 12 + ?r) div 12 < 2 ^ 32" using y r by simp
    then have range: "0 \<le> int ((?y * 12 + ?r) div 12) \<and> int ((?y * 12 + ?r) div 12) < 2 ^ 32"
      by (simp only: of_nat_less_numeral_power_cancel_iff of_nat_0_le_iff simp_thms)
    have valid: "\<not> \<not> (1 \<le> int ?r \<and> int ?r \<le> 12)" using r by simp
    show ?thesis
      unfolding add_months_def Let_def parts month idx sint q if_not_P [OF valid] if_P [OF range] of_int_of_nat_eq ..
  qed
  have "word_of_nat (?y * 100 + ?r) = m" by simp
  then have m: "word_of_nat ?y * 100 + word_of_nat ?r = m" by (simp only: of_nat_add of_nat_mult of_nat_numeral)
  show ?thesis
  proof (cases "?r = 12")
    case True
    then have "(?y * 12 + ?r) div 12 = ?y + 1" "(?y * 12 + ?r) mod 12 = 0" by simp_all
    then show ?thesis using True m unfolding step by (simp add: algebra_simps)
  next
    case False
    then have "(?y * 12 + ?r) div 12 = ?y" "(?y * 12 + ?r) mod 12 = ?r" using r by simp_all
    then have "add_months m 1 = Some (word_of_nat ?y * 100 + word_of_nat ?r + 1)" unfolding step by (simp only: add.assoc)
    then show ?thesis using False unfolding m by simp
  qed
qed

lemma next_month_valid:
  assumes "valid_month m" and "unat m < 4294967200" and "add_months m 1 = Some n"
  shows "valid_month n" and "month_index n = month_index m + 1" and "m < n" and "\<And>k. valid_month k \<Longrightarrow> m < k \<Longrightarrow> n \<le> k"
proof -
  let ?q = "unat m div 100" and ?r = "unat m mod 100"
  have r: "1 \<le> ?r" "?r \<le> 12" using assms(1) by (auto simp: valid_month_def)
  have m: "unat m = ?q * 100 + ?r" by simp
  have "unat (m + 89) = unat m + 89" "unat (m + 1) = unat m + 1"
    using assms(2) by (simp_all add: unat_word_ariths)
  then have n: "unat n = (if ?r = 12 then (?q + 1) * 100 + 1 else ?q * 100 + (?r + 1))"
    using assms(3) m unfolding add_one_month [OF assms(1,2)] by (cases "?r = 12"; simp; linarith)
  have parts_of: "(q * 100 + s) div 100 = q" "(q * 100 + s) mod 100 = s" if "s < 100" for q s :: nat
    using that by simp_all
  have parts: "unat n div 100 = (if ?r = 12 then ?q + 1 else ?q)" "unat n mod 100 = (if ?r = 12 then 1 else ?r + 1)"
  proof -
    have "?r + 1 < 100" "(1 :: nat) < 100" using r by simp_all
    then show "unat n div 100 = (if ?r = 12 then ?q + 1 else ?q)" "unat n mod 100 = (if ?r = 12 then 1 else ?r + 1)"
      unfolding n by (cases "?r = 12"; simp only: if_True if_False parts_of)+
  qed
  show valid: "valid_month n" using r parts by (auto simp: valid_month_def)
  show index: "month_index n = month_index m + 1"
    using r parts by (auto simp: month_index_def)
  then show "m < n" using month_index_less [OF assms(1) valid] by simp
  show "n \<le> k" if "valid_month k" "m < k" for k
    using month_index_less [OF assms(1) that(1)] month_index_less [OF that(1) valid] index that(2) by (auto simp: not_le [symmetric])
qed

section \<open>A timestamp and its month\<close>

lemma cal_months_ascend:
  assumes "cal_laws cal" and "cal_month cal i = Some a" and "cal_month cal j = Some b"
  shows "i < j \<longleftrightarrow> a < b" and "i = j \<longleftrightarrow> a = b" and "i \<le> j \<longleftrightarrow> a \<le> b"
proof -
  have less: "a < b" if "i < j" "cal_month cal i = Some a" "cal_month cal j = Some b" for i j a b
    using assms(1) that unfolding cal_laws_def by blast
  show "i < j \<longleftrightarrow> a < b" "i = j \<longleftrightarrow> a = b" "i \<le> j \<longleftrightarrow> a \<le> b"
    using less [of i j a b] less [of j i b a] assms(2,3) by (cases i j rule: linorder_cases; auto)+
qed

lemma cal_month_exists: "cal_laws cal \<Longrightarrow> 1970 * 12 \<le> i \<Longrightarrow> i \<le> 2106 * 12 + 2 \<Longrightarrow> \<exists>t. cal_month cal i = Some t"
  unfolding cal_laws_def by blast

lemma cal_date_Some:
  assumes "cal_laws cal" and "cal_date cal t = Some (y, m)"
  shows "1 \<le> m" and "m \<le> 12" and "\<exists>a. cal_month cal (y * 12 + (m - 1)) = Some a \<and> a \<le> t"
    and "y * 12 + (m - 1) < j \<Longrightarrow> cal_month cal j = Some b \<Longrightarrow> t < b"
  using assms unfolding cal_laws_def by blast+

lemma cal_date_u32:
  assumes "cal_laws cal" and "0 \<le> t" and "t < 2 ^ 32"
  obtains y m a b where "cal_date cal t = Some (y, m)" "1 \<le> m" "m \<le> 12" "1970 \<le> y" "y \<le> 2106"
    "cal_month cal (y * 12 + (m - 1)) = Some a" "a \<le> t" "cal_month cal (y * 12 + (m - 1) + 1) = Some b" "t < b"
proof -
  obtain y m where ym: "cal_date cal t = Some (y, m)"
    using assms unfolding cal_laws_def by fastforce
  note date = cal_date_Some [OF assms(1) ym]
  obtain a where a: "cal_month cal (y * 12 + (m - 1)) = Some a" "a \<le> t" using date(3) by blast
  obtain e where e: "cal_month cal (2106 * 12 + 2) = Some e" "2 ^ 32 \<le> e" using assms(1) unfolding cal_laws_def by blast
  have zero: "cal_month cal (1970 * 12) = Some 0" using assms(1) unfolding cal_laws_def by blast
  have hi: "y * 12 + (m - 1) < 2106 * 12 + 2"
    using cal_months_ascend(1) [OF assms(1) a(1) e(1)] a(2) e(2) assms(3) by simp
  have lo: "1970 * 12 \<le> y * 12 + (m - 1)"
    using date(4) [of "1970 * 12" 0] zero assms(2) by (meson not_less)
  obtain b where b: "cal_month cal (y * 12 + (m - 1) + 1) = Some b"
    using cal_month_exists [OF assms(1), of "y * 12 + (m - 1) + 1"] lo hi by auto
  show ?thesis
    by (rule that [OF ym date(1,2) _ _ a b date(4) [OF _ b]]) (use lo hi date(1,2) in linarith)+
qed

text \<open>The month of a timestamp, as the identifier of its partition.\<close>

lemma month_of_u32:
  fixes t :: u32
  assumes "cal_laws cal"
  obtains m a b where "month_of cal (ucast t) = Some m" "valid_month m" "unat m < 4294967200"
    "cal_month cal (month_index m) = Some a" "a \<le> uint t" "cal_month cal (month_index m + 1) = Some b" "uint t < b"
proof -
  have t: "0 \<le> uint t" "uint t < 2 ^ 32" using uint_u32 [of t] by (simp, assumption)
  obtain y mo a b where d: "cal_date cal (uint t) = Some (y, mo)" "1 \<le> mo" "mo \<le> 12" "1970 \<le> y" "y \<le> 2106"
      "cal_month cal (y * 12 + (mo - 1)) = Some a" "a \<le> uint t" "cal_month cal (y * 12 + (mo - 1) + 1) = Some b" "uint t < b"
    using cal_date_u32 [OF assms t] by blast
  let ?m = "word_of_int y * 100 + word_of_int mo :: u32"
  obtain q r where qr: "y = int q" "mo = int r" using d(2,4) by (metis nonneg_int_cases order.trans zero_le_numeral zero_le_one)
  have "unat (word_of_nat (q * 100 + r) :: u32) = q * 100 + r"
    using d(3,5) qr by (simp only: unat_of_nat) simp
  then have unat: "unat ?m = q * 100 + r" using qr by simp
  have parts: "unat ?m div 100 = q" "unat ?m mod 100 = r" using d(3) qr unfolding unat by simp_all
  have valid: "valid_month ?m" using d(2,3) qr unfolding valid_month_def parts by simp
  have index: "month_index ?m = y * 12 + (mo - 1)" using d(2) qr unfolding month_index_def parts by simp
  have "unat ?m < 4294967200" using d(3,5) qr unfolding unat by simp
  moreover have "month_of cal (ucast t) = Some ?m" by (simp add: month_of_def sint_ucast_uint d(1))
  ultimately show ?thesis using that valid d(6-9) index by metis
qed

text \<open>
  The two ways to tell a month agree: a timestamp carries the identifier of a partition exactly when it lies within
  the bounds of that partition.
\<close>

lemma month_of_is_its_month:
  assumes "cal_laws cal" and "month_bounds cal m = Some (a, b)"
  shows "month_of cal (ucast t) = Some m \<longleftrightarrow> a \<le> t \<and> t < b"
proof -
  obtain k ka kb where k: "month_of cal (ucast t) = Some k" "valid_month k" "cal_month cal (month_index k) = Some ka" "ka \<le> uint t"
      "cal_month cal (month_index k + 1) = Some kb" "uint t < kb"
    using month_of_u32 [OF assms(1)] by metis
  note m = month_bounds_Some [OF assms(2)]
  note ascend = cal_months_ascend [OF assms(1)]
  show ?thesis
  proof
    assume "month_of cal (ucast t) = Some m"
    then show "a \<le> t \<and> t < b" using k m by (auto simp: word_le_def word_less_def)
  next
    assume "a \<le> t \<and> t < b"
    then have t: "uint a \<le> uint t" "uint t < uint b" by (simp_all add: word_le_def word_less_def)
    have "month_index k < month_index m + 1" "month_index m < month_index k + 1"
      using ascend(1) [OF k(3) conjunct2 [OF conjunct2 [OF m]]] ascend(1) [OF conjunct1 [OF conjunct2 [OF m]] k(5)] k(4,6) t by auto
    then have "k = m" using valid_month_eqI k(2) m by auto
    then show "month_of cal (ucast t) = Some m" using k(1) by simp
  qed
qed

text \<open>A partition before the month of a timestamp ends at or before it.\<close>

lemma earlier_month_ends:
  assumes "cal_laws cal" and "month_of cal (ucast t) = Some l" and "m < l" and "month_bounds cal m = Some (a, b)"
  shows "b \<le> t"
proof -
  obtain ka where k: "valid_month l" "cal_month cal (month_index l) = Some ka" "ka \<le> uint t"
    using month_of_u32 [OF assms(1), of t] assms(2) by (metis option.inject)
  note m = month_bounds_Some [OF assms(4)]
  have "month_index m + 1 \<le> month_index l" using month_index_less [of m l] m k(1) assms(3) by auto
  then have "uint b \<le> ka" using cal_months_ascend(3) [OF assms(1) conjunct2 [OF conjunct2 [OF m]] k(2)] by simp
  then show ?thesis using k(3) by (simp add: word_le_def)
qed

text \<open>The live window holds the current moment and spans whole months, as many as asked for.\<close>

lemma live_window_covers_now:
  assumes "cal_laws cal" and "live_partition_window cal now n = Some (a, b)"
  shows "uint a \<le> sint now" and "sint now < uint b"
    and "\<exists>idx. cal_month cal idx = Some (uint a) \<and> cal_month cal (idx + uint n) = Some (uint b)"
proof -
  obtain y m where ym: "n \<noteq> 0" "cal_date cal (sint now) = Some (y, m)"
      "month_start_unix cal (y * 12 + (m - 1) - (uint n - 1)) = Some a" "month_start_unix cal (y * 12 + (m - 1) + 1) = Some b"
    using assms(2) by (auto simp: live_partition_window_def Let_def split: if_splits option.splits)
  note date = cal_date_Some [OF assms(1) ym(2)]
  note ab = month_start_Some [OF ym(3)] month_start_Some [OF ym(4)]
  obtain c where c: "cal_month cal (y * 12 + (m - 1)) = Some c" "c \<le> sint now" using date(3) by blast
  have n: "1 \<le> uint n" using ym(1) uint_ge_0 [of n] by (metis unsigned_0 int_one_le_iff_zero_less order.not_eq_order_implies_strict unsigned_word_eqI)
  have "uint a \<le> c" using cal_months_ascend(3) [OF assms(1) ab(1) c(1)] n by simp
  then show "uint a \<le> sint now" using c(2) by simp
  show "sint now < uint b" by (rule date(4) [OF _ ab(2)]) simp
  show "\<exists>idx. cal_month cal idx = Some (uint a) \<and> cal_month cal (idx + uint n) = Some (uint b)"
    using ab by (intro exI [of _ "y * 12 + (m - 1) - (uint n - 1)"]) (simp add: algebra_simps)
qed

section \<open>The Gregorian calendar\<close>

definition leap_days :: "int \<Rightarrow> int" where
  "leap_days y = y div 4 - y div 100 + y div 400"

definition month_days :: "int \<Rightarrow> int" where
  "month_days idx = (let y = idx div 12; m = idx mod 12 in
     365 * y + leap_days (if m \<le> 1 then y - 1 else y) + [0, 31, 59, 90, 120, 151, 181, 212, 243, 273, 304, 334] ! nat m)"

definition month_seconds :: "int \<Rightarrow> int" where
  "month_seconds idx = 86400 * (month_days idx - 719527)"

text \<open>The month of a timestamp, by search.\<close>

fun seek_month :: "nat \<Rightarrow> int \<Rightarrow> int \<Rightarrow> int option" where
  "seek_month 0 idx t = None"
| "seek_month (Suc n) idx t = (if t < month_seconds (idx + 1) then Some idx else seek_month n (idx + 1) t)"

definition gregorian :: cal_ops where
  "gregorian = \<lparr>cal_date = (\<lambda>t. if t < 0 then None else
       case seek_month 1700 (1970 * 12) t of None \<Rightarrow> None | Some idx \<Rightarrow> Some (idx div 12, idx mod 12 + 1)),
     cal_first = (\<lambda>y m. if 1 \<le> m \<and> m \<le> 12 then Some (month_seconds (y * 12 + (m - 1))) else None)\<rparr>"

lemma gregorian_month: "cal_month gregorian idx = Some (month_seconds idx)"
  by (simp add: cal_month_def gregorian_def)

lemma month_seconds_epoch: "month_seconds (1970 * 12) = 0" "2 ^ 32 \<le> month_seconds (2106 * 12 + 2)"
  by (simp_all add: month_seconds_def month_days_def leap_days_def)

lemma leap_days_mono: "leap_days (y - 1) \<le> leap_days y"
proof -
  obtain q r where y: "y = q * 100 + r" "0 \<le> r" "r < 100"
    by (metis div_mult_mod_eq pos_mod_bound pos_mod_sign zero_less_numeral)
  have "(y - 1) div 400 \<le> y div 400" "(y - 1) div 4 \<le> y div 4" by (simp_all add: zdiv_mono1)
  moreover have "(y - 1) div 100 = y div 100" if "r \<noteq> 0" using y that by simp
  moreover have "(y - 1) div 4 + 1 = y div 4" "y div 100 = (y - 1) div 100 + 1" if "r = 0"
  proof -
    have "y - 1 = (25 * q - 1) * 4 + 3" "y - 1 = (q - 1) * 100 + 99" "y = (25 * q) * 4" "y = q * 100" using y(1) that by simp_all
    moreover have "((25 * q - 1) * 4 + 3) div 4 = 25 * q - 1" "((q - 1) * 100 + 99) div 100 = q - 1" by simp_all
    ultimately show "(y - 1) div 4 + 1 = y div 4" "y div 100 = (y - 1) div 100 + 1" by simp_all
  qed
  ultimately show ?thesis unfolding leap_days_def by (cases "r = 0") simp_all
qed

lemma month_seconds_Suc: "month_seconds i < month_seconds (i + 1)"
proof -
  obtain y m where i: "i = y * 12 + m" "0 \<le> m" "m < 12"
    by (metis div_mult_mod_eq pos_mod_bound pos_mod_sign zero_less_numeral)
  have cases: "m = 0 \<or> m = 1 \<or> m = 2 \<or> m = 3 \<or> m = 4 \<or> m = 5 \<or> m = 6 \<or> m = 7 \<or> m = 8 \<or> m = 9 \<or> m = 10 \<or> m = 11"
    using i(2,3) by presburger
  have "month_days i < month_days (i + 1)"
    using cases leap_days_mono [of y] unfolding i(1) by (auto simp: month_days_def Let_def)
  then show ?thesis by (simp add: month_seconds_def)
qed

lemma month_seconds_less: "i < j \<Longrightarrow> month_seconds i < month_seconds j"
proof -
  have "month_seconds i < month_seconds (i + int (Suc n))" for n
  proof (induction n)
    case 0
    show ?case using month_seconds_Suc [of i] by simp
  next
    case (Suc n)
    have "i + int (Suc (Suc n)) = i + int (Suc n) + 1" by simp
    then show ?case using Suc month_seconds_Suc [of "i + int (Suc n)"] by (simp only:)
  qed
  from this [of "nat (j - i) - 1"] show "i < j \<Longrightarrow> month_seconds i < month_seconds j" by simp
qed

lemma seek_month_Some:
  assumes "month_seconds idx \<le> t" and "t < month_seconds (idx + int n)"
  shows "\<exists>i. seek_month n idx t = Some i \<and> month_seconds i \<le> t \<and> t < month_seconds (i + 1)"
  using assms
proof (induction n arbitrary: idx)
  case (Suc n)
  then show ?case using Suc.IH [of "idx + 1"] by (cases "t < month_seconds (idx + 1)") (simp_all add: ac_simps)
qed simp

lemma seek_month_bounds:
  "seek_month n idx t = Some i \<Longrightarrow> month_seconds idx \<le> t \<Longrightarrow> month_seconds i \<le> t \<and> t < month_seconds (i + 1)"
  by (induction n arbitrary: idx) (auto split: if_splits)

lemma cal_laws_gregorian: "cal_laws gregorian"
proof -
  have found: "cal_date gregorian t \<noteq> None" if "0 \<le> t" "t < 2 ^ 32" for t
  proof -
    have "t < month_seconds (1970 * 12 + int 1700)"
      using that(2) month_seconds_epoch(2) month_seconds_less [of "2106 * 12 + 2" "1970 * 12 + int 1700"] by simp
    moreover have "month_seconds (1970 * 12) \<le> t" using that(1) month_seconds_epoch(1) by simp
    ultimately show ?thesis
      using seek_month_Some [of "1970 * 12" t 1700] that(1) by (auto simp: gregorian_def)
  qed
  have date: "1 \<le> m \<and> m \<le> 12 \<and> month_seconds (y * 12 + (m - 1)) \<le> t \<and> (\<forall>j. y * 12 + (m - 1) < j \<longrightarrow> t < month_seconds j)"
    if day: "cal_date gregorian t = Some (y, m)" for t y m
  proof -
    obtain i where i: "seek_month 1700 (1970 * 12) t = Some i" "y = i div 12" "m = i mod 12 + 1" "0 \<le> t"
      using day by (cases "seek_month 1700 (1970 * 12) t") (auto simp: gregorian_def split: if_splits)
    have "month_seconds (1970 * 12) \<le> t" using i(4) month_seconds_epoch(1) by simp
    note bounds = seek_month_bounds [OF i(1) this]
    have "t < month_seconds j" if "i < j" for j
      using bounds that month_seconds_less [of "i + 1" j] by (cases "i + 1 = j") auto
    then show ?thesis using bounds i(2,3) by simp
  qed
  show ?thesis
    unfolding cal_laws_def gregorian_month using month_seconds_less month_seconds_epoch found date by simp
qed

end
