(* ===== verification/Frontier.thy ===== *)
theory Frontier
  imports Month_Window Enrich_Driver "HOL-Library.AList" "HOL-Library.Product_Lexorder"
begin

text \<open>
  The drain of the history, month by month (\<open>enrichment-worker/src/frontier.rs\<close>), and the invocation that runs it
  after the live pass (\<open>main.rs\<close>). The frontier table, the server's clock and the machine's clock are parameters.
\<close>

section \<open>The stored frontier\<close>

datatype frontier_state = Pending | Exhausted

definition frontier_str :: "frontier_state \<Rightarrow> string" where
  "frontier_str s = (case s of Pending \<Rightarrow> ''pending'' | Exhausted \<Rightarrow> ''exhausted'')"

definition parse_frontier_state :: "string \<Rightarrow> frontier_state option" where
  "parse_frontier_state s = (if s = ''pending'' then Some Pending else if s = ''exhausted'' then Some Exhausted else None)"

record month_state =
  ms_state :: frontier_state
  ms_swept_at :: u32

text \<open>Rows of the table as month, state and time of the last sweep; the map has one entry per month.\<close>

definition collect_states :: "(u32 \<times> string \<times> u32) list \<Rightarrow> (u32, month_state) hmap" where
  "collect_states rows = fold (\<lambda>(month, state, swept_at) states.
     case parse_frontier_state state of
       None \<Rightarrow> states
     | Some s \<Rightarrow> AList.update month \<lparr>ms_state = s, ms_swept_at = swept_at\<rparr> states) rows []"

definition span_of :: "u32 \<times> u32 \<Rightarrow> (u32 \<times> u32) option" where
  "span_of = (\<lambda>(lo, hi). if 190001 \<le> lo \<and> lo \<le> hi then Some (lo, hi) else None)"

section \<open>The months to work\<close>

text \<open>The walk from the oldest month. Its step may wrap at the end of the 32 bits, so it is partial.\<close>

partial_function (option) walk_months :: "(u32, month_state) hmap \<Rightarrow> u32 \<Rightarrow> u32 \<Rightarrow> u32 \<Rightarrow> u32 list option" where
  "walk_months states hi live_start m =
     (if m < live_start \<and> m \<le> hi
      then let this = (if map_option ms_state (map_of states m) \<noteq> Some Exhausted then [m] else [])
           in case add_months m 1 of
                None \<Rightarrow> Some this
              | Some next_m \<Rightarrow> Option.bind (walk_months states hi live_start next_m) (\<lambda>ms. Some (this @ ms))
      else Some [])"

definition months_to_sweep :: "u32 \<times> u32 \<Rightarrow> u32 \<Rightarrow> (u32, month_state) hmap \<Rightarrow> u32 list option" where
  "months_to_sweep bounds live_start states = walk_months states (snd bounds) live_start (fst bounds)"

definition sat_sub32 :: "u32 \<Rightarrow> u32 \<Rightarrow> u32" where
  "sat_sub32 a b = (if a < b then 0 else a - b)"

definition stale_exhausted_months :: "(u32, month_state) hmap \<Rightarrow> u32 \<Rightarrow> u32 \<Rightarrow> u32 \<Rightarrow> u32 list" where
  "stale_exhausted_months states now recheck_after_secs limit =
     (let stale = map (\<lambda>(m, s). (ms_swept_at s, m))
            (filter (\<lambda>(_, s). ms_state s = Exhausted \<and> recheck_after_secs \<le> sat_sub32 now (ms_swept_at s)) states)
      in map snd (take (unat limit) (sort stale)))"

section \<open>A sweep\<close>

record hs_config =
  hc_base :: enrich_config
  hc_live_start_month :: u32
  hc_max_months :: u32
  hc_deadline :: "nat option"
  hc_recheck_after_secs :: u32
  hc_max_rechecks :: u32

record month_sweep =
  mw_month :: u32
  mw_zeros_before :: u64
  mw_zeros_after :: u64
  mw_rows_enriched :: u64
  mw_state :: string

record sweep_summary =
  su_months :: "month_sweep list"
  su_months_pending :: u32
  su_frontier_month :: "u32 option"
  su_deadline_hit :: bool
  su_months_rechecked :: u32
  su_months_reopened :: u32

definition empty_sweep :: sweep_summary where
  "empty_sweep = \<lparr>su_months = [], su_months_pending = 0, su_frontier_month = None, su_deadline_hit = False,
     su_months_rechecked = 0, su_months_reopened = 0\<rparr>"

text \<open>What is seen of an invocation: the passes with their windows and events, and the rows of the frontier written.\<close>

datatype sweep_event =
  Live "(u32 \<times> u32) option" "ch_event list"
| Worked u32 "u32 \<times> u32" "ch_event list"
| Rechecked u32 "u32 \<times> u32" "ch_event list"
| Marked u32 frontier_state u64

record 'd fr_env =
  fr_ch :: "'d ch_env"
  fr_span :: "string \<Rightarrow> 'd \<Rightarrow> (string, u32 \<times> u32) result"
  fr_rows :: "string \<Rightarrow> 'd \<Rightarrow> (string, (u32 \<times> string \<times> u32) list) result"
  fr_now :: "'d \<Rightarrow> (string, u32) result"
  fr_record :: "string \<Rightarrow> u32 \<Rightarrow> string \<Rightarrow> u64 \<Rightarrow> 'd \<Rightarrow> (string, 'd) result"
  fr_instant :: "nat \<Rightarrow> nat"

definition sw_record :: "'d fr_env \<Rightarrow> string \<Rightarrow> u32 \<Rightarrow> frontier_state \<Rightarrow> u64 \<Rightarrow> (('d, sweep_event) sw_state, unit) ch_prog" where
  "sw_record env tbl month state zeros_seen st =
     (case fr_record env tbl month (frontier_str state) zeros_seen (sw_db st) of
        Inl message \<Rightarrow> ch_fail (ChClickhouse message) st
      | Inr d \<Rightarrow> ch_return () (st\<lparr>sw_db := d, sw_log := sw_log st @ [Marked month state zeros_seen]\<rparr>))"

definition outcome_of :: "ch_pass_stats \<Rightarrow> frontier_state" where
  "outcome_of stats = (if cp_candidates_after stats = 0 \<or> cp_rows_enriched stats = 0 then Exhausted else Pending)"

fun work_months :: "'d fr_env \<Rightarrow> cal_ops \<Rightarrow> hs_config \<Rightarrow> u32 list \<Rightarrow> sweep_summary \<Rightarrow> (('d, sweep_event) sw_state, sweep_summary) ch_prog" where
  "work_months env cal cfg [] summary = ch_return summary"
| "work_months env cal cfg (month # queue) summary =
     ch_bind (past_deadline (fr_instant env) (hc_deadline cfg)) (\<lambda>late.
       if late then ch_return (summary\<lparr>su_deadline_hit := True\<rparr>)
       else case month_bounds cal month of
         None \<Rightarrow> work_months env cal cfg queue summary
       | Some window \<Rightarrow>
           ch_bind (sw_pass (fr_ch env) (Worked month window) ((hc_base cfg)\<lparr>ec_time_window := Some window, ec_one_shot := False\<rparr>)) (\<lambda>stats.
           ch_bind (sw_record env (ec_table (hc_base cfg)) month (outcome_of stats) (cp_candidates_after stats)) (\<lambda>_.
           work_months env cal cfg queue (summary\<lparr>su_months := su_months summary @
             [\<lparr>mw_month = month, mw_zeros_before = cp_candidates_before stats, mw_zeros_after = cp_candidates_after stats,
               mw_rows_enriched = cp_rows_enriched stats, mw_state = frontier_str (outcome_of stats)\<rparr>]\<rparr>))))"

fun recheck_months :: "'d fr_env \<Rightarrow> cal_ops \<Rightarrow> hs_config \<Rightarrow> u32 list \<Rightarrow> sweep_summary \<Rightarrow> (('d, sweep_event) sw_state, sweep_summary) ch_prog" where
  "recheck_months env cal cfg [] summary = ch_return summary"
| "recheck_months env cal cfg (month # stale) summary =
     ch_bind (past_deadline (fr_instant env) (hc_deadline cfg)) (\<lambda>late.
       if late then ch_return (summary\<lparr>su_deadline_hit := True\<rparr>)
       else case month_bounds cal month of
         None \<Rightarrow> recheck_months env cal cfg stale summary
       | Some window \<Rightarrow>
           ch_bind (sw_pass (fr_ch env) (Rechecked month window)
             ((hc_base cfg)\<lparr>ec_time_window := Some window, ec_one_shot := False, ec_max_batches := 0\<rparr>)) (\<lambda>stats.
           if cp_candidates_before stats = 0
           then ch_bind (sw_record env (ec_table (hc_base cfg)) month Exhausted 0) (\<lambda>_.
             recheck_months env cal cfg stale (summary\<lparr>su_months_rechecked := su_months_rechecked summary + 1\<rparr>))
           else ch_bind (sw_record env (ec_table (hc_base cfg)) month Pending (cp_candidates_before stats)) (\<lambda>_.
             recheck_months env cal cfg stale (summary\<lparr>su_months_rechecked := su_months_rechecked summary + 1,
               su_months_reopened := su_months_reopened summary + 1\<rparr>))))"

text \<open>What a sweep reads first; a table without candles has no span.\<close>

definition read_frontier ::
  "'d fr_env \<Rightarrow> hs_config \<Rightarrow> (('d, sweep_event) sw_state, ((u32 \<times> u32) \<times> (u32, month_state) hmap) option) ch_prog" where
  "read_frontier env cfg =
     ch_bind (sw_read (fr_span env (ec_table (hc_base cfg)))) (\<lambda>row.
       case span_of row of
         None \<Rightarrow> ch_return None
       | Some bounds \<Rightarrow> ch_bind (sw_read (fr_rows env (ec_table (hc_base cfg)))) (\<lambda>rows. ch_return (Some (bounds, collect_states rows))))"

definition sweep_queue ::
  "'d fr_env \<Rightarrow> cal_ops \<Rightarrow> hs_config \<Rightarrow> (u32, month_state) hmap \<Rightarrow> u32 list \<Rightarrow> (('d, sweep_event) sw_state, sweep_summary) ch_prog" where
  "sweep_queue env cal cfg states queue =
     ch_bind (work_months env cal cfg (take (unat (hc_max_months cfg)) queue)
       (empty_sweep\<lparr>su_months_pending := of_nat (length queue), su_frontier_month := (case queue of [] \<Rightarrow> None | m # _ \<Rightarrow> Some m)\<rparr>)) (\<lambda>summary.
     ch_bind (sw_read (fr_now env)) (\<lambda>now.
     recheck_months env cal cfg (stale_exhausted_months states now (hc_recheck_after_secs cfg) (hc_max_rechecks cfg)) summary))"

text \<open>\<open>None\<close> stands for a walk over the months that does not end.\<close>

definition run_historical_sweep ::
  "'d fr_env \<Rightarrow> cal_ops \<Rightarrow> hs_config \<Rightarrow> ('d, sweep_event) sw_state \<Rightarrow> (ch_error \<times> ('d, sweep_event) sw_state, sweep_summary \<times> ('d, sweep_event) sw_state) result option" where
  "run_historical_sweep env cal cfg st =
     (case read_frontier env cfg st of
        Inl failed \<Rightarrow> Some (Inl failed)
      | Inr (None, st) \<Rightarrow> Some (Inr (empty_sweep, st))
      | Inr (Some (bounds, states), st) \<Rightarrow>
          map_option (\<lambda>queue. sweep_queue env cal cfg states queue st) (months_to_sweep bounds (hc_live_start_month cfg) states))"

section \<open>An invocation\<close>

record worker_config =
  wk_base :: enrich_config
  wk_live_partitions :: u32
  wk_historical :: bool
  wk_max_months :: u32
  wk_budget_secs :: u64
  wk_recheck_secs :: u32
  wk_max_rechecks :: u32

text \<open>The worker never carries a reset, and sets the window of each pass itself.\<close>

definition worker_base :: "worker_config \<Rightarrow> enrich_config" where
  "worker_base wk = (wk_base wk)\<lparr>ec_time_window := None, ec_usd_reset := None\<rparr>"

definition live_start_month_of :: "cal_ops \<Rightarrow> (u32 \<times> u32) option \<Rightarrow> u32" where
  "live_start_month_of cal window =
     (case Option.bind window (\<lambda>(start, _). month_of cal (ucast start)) of Some m \<Rightarrow> m | None \<Rightarrow> - 1)"

definition sweep_config :: "'d fr_env \<Rightarrow> cal_ops \<Rightarrow> worker_config \<Rightarrow> (u32 \<times> u32) option \<Rightarrow> u64 \<Rightarrow> u64 \<Rightarrow> nat \<Rightarrow> hs_config" where
  "sweep_config env cal wk window deadline_ms now_ms looks =
     \<lparr>hc_base = worker_base wk, hc_live_start_month = live_start_month_of cal window, hc_max_months = wk_max_months wk,
       hc_deadline = Some (fr_instant env looks + unat (min (remaining_budget_ms deadline_ms now_ms) (sat_mul64 (wk_budget_secs wk) 1000))),
       hc_recheck_after_secs = wk_recheck_secs wk, hc_max_rechecks = wk_max_rechecks wk\<rparr>"

text \<open>The live pass must succeed; an error of the sweep is logged and dropped.\<close>

definition worker_invocation ::
  "'d fr_env \<Rightarrow> cal_ops \<Rightarrow> worker_config \<Rightarrow> i64 \<Rightarrow> u64 \<Rightarrow> u64 \<Rightarrow> ('d, sweep_event) sw_state \<Rightarrow>
   (ch_error \<times> ('d, sweep_event) sw_state, ch_pass_stats \<times> ('d, sweep_event) sw_state) result option" where
  "worker_invocation env cal wk now_unix deadline_ms now_ms st =
     (let window = live_partition_window cal now_unix (wk_live_partitions wk)
      in case sw_pass (fr_ch env) (Live window) ((worker_base wk)\<lparr>ec_time_window := window\<rparr>) st of
           Inl failed \<Rightarrow> Some (Inl failed)
         | Inr (stats, st) \<Rightarrow>
             (if wk_historical wk \<and> 0 < wk_live_partitions wk
              then map_option (\<lambda>r. case r of Inl (e, st) \<Rightarrow> Inr (stats, st) | Inr (summary, st) \<Rightarrow> Inr (stats, st))
                (run_historical_sweep env cal (sweep_config env cal wk window deadline_ms now_ms (sw_looks st)) (st\<lparr>sw_looks := Suc (sw_looks st)\<rparr>))
              else Some (Inr (stats, st))))"

end
