(* ===== verification/Worker_Config.thy ===== *)
theory Worker_Config
  imports Coarse_Repair Frontier
begin

text \<open>
  How the entry points configure their passes: the environment of the two scheduled workers
  (\<open>prices-clickhouse/src/env.rs\<close>, \<open>main.rs\<close> of the enrichment and of the coarse sweep worker), and the arguments of the
  operator's repair (\<open>bin/coarse-repair.rs\<close>).
\<close>

section \<open>Environment variables\<close>

text \<open>\<open>parse\<close> of the unsigned types: an optional plus sign and digits, no overflow.\<close>

definition parse_nat_below :: "int \<Rightarrow> string \<Rightarrow> int option" where
  "parse_nat_below limit s =
     (case (case s of CHR ''+'' # ds \<Rightarrow> parse_unsigned ds | _ \<Rightarrow> parse_unsigned s) of
        Some k \<Rightarrow> if k < limit then Some k else None
      | None \<Rightarrow> None)"

definition parse_u32 :: "string \<Rightarrow> u32 option" where
  "parse_u32 s = map_option of_int (parse_nat_below (2 ^ 32) s)"

definition parse_u64 :: "string \<Rightarrow> u64 option" where
  "parse_u64 s = map_option of_int (parse_nat_below (2 ^ 64) s)"

definition parse_bool :: "string \<Rightarrow> bool option" where
  "parse_bool s = (if s = ''true'' then Some True else if s = ''false'' then Some False else None)"

text \<open>\<open>vars\<close> is the environment; a variable that is unset or not Unicode has no value.\<close>

definition env_or :: "(string \<Rightarrow> string option) \<Rightarrow> string \<Rightarrow> string \<Rightarrow> string" where
  "env_or vars key deflt = (case vars key of Some v \<Rightarrow> v | None \<Rightarrow> deflt)"

definition env_parse_or :: "(string \<Rightarrow> 'a option) \<Rightarrow> (string \<Rightarrow> string option) \<Rightarrow> string \<Rightarrow> 'a \<Rightarrow> 'a" where
  "env_parse_or parse vars key deflt = (case Option.bind (vars key) parse of Some v \<Rightarrow> v | None \<Rightarrow> deflt)"

section \<open>The scheduled workers\<close>

definition env_base :: "(string \<Rightarrow> string option) \<Rightarrow> u32 \<Rightarrow> bool \<Rightarrow> enrich_config" where
  "env_base vars max_batches one_shot =
     \<lparr>ec_database = env_or vars ''CLICKHOUSE_DATABASE'' ''prices'', ec_table = env_or vars ''CLICKHOUSE_TABLE'' ''price_ohlcv_1m'',
       ec_oracle_name = env_or vars ''ORACLE_NAME'' ''reflector'', ec_window_s = env_parse_or parse_u32 vars ''FORWARD_FILL_WINDOW_S'' 300,
       ec_pivot_window_s = env_parse_or parse_u32 vars ''PIVOT_WINDOW_S'' 86400,
       ec_recent_window_s = env_parse_or parse_u32 vars ''ENRICH_RECENT_WINDOW_S'' 14400,
       ec_batch_size = env_parse_or parse_u64 vars ''BATCH_SIZE'' 10000, ec_max_batches = max_batches,
       ec_one_shot = one_shot, ec_time_window = None, ec_usd_reset = None\<rparr>"

definition worker_config_from_env :: "(string \<Rightarrow> string option) \<Rightarrow> worker_config" where
  "worker_config_from_env vars =
     (let live_partitions = env_parse_or parse_u32 vars ''ENRICH_LIVE_PARTITIONS'' 2
      in \<lparr>wk_base = env_base vars (env_parse_or parse_u32 vars ''MAX_BATCHES'' 20) (env_parse_or parse_bool vars ''ENRICHMENT_ONE_SHOT'' False),
           wk_live_partitions = live_partitions,
           wk_historical = (env_parse_or parse_bool vars ''ENRICH_HISTORICAL_SWEEP'' False \<and> 0 < live_partitions),
           wk_max_months = env_parse_or parse_u32 vars ''ENRICH_HISTORICAL_MAX_MONTHS'' 1,
           wk_budget_secs = env_parse_or parse_u64 vars ''ENRICH_HISTORICAL_TIME_BUDGET_SECS'' 120,
           wk_recheck_secs = env_parse_or parse_u32 vars ''ENRICH_HISTORICAL_RECHECK_SECS'' 604800,
           wk_max_rechecks = env_parse_or parse_u32 vars ''ENRICH_HISTORICAL_MAX_RECHECKS'' 4\<rparr>)"

definition coarse_base_from_env :: "(string \<Rightarrow> string option) \<Rightarrow> enrich_config" where
  "coarse_base_from_env vars = env_base vars (env_parse_or parse_u32 vars ''COARSE_SWEEP_MAX_BATCHES'' 20) False"

definition sweep_config_from_env :: "(string \<Rightarrow> string option) \<Rightarrow> enrich_config \<Rightarrow> sweep_tables_config option" where
  "sweep_config_from_env vars base =
     (let tables = coarse_tables_from_list (env_or vars ''COARSE_SWEEP_TABLES'' [])
      in if tables = [] then None
         else Some \<lparr>sc_base = base, sc_tables = tables,
           sc_lookback_months = env_parse_or parse_u32 vars ''COARSE_SWEEP_LOOKBACK_MONTHS'' 2,
           sc_max_batches = env_parse_or parse_u32 vars ''COARSE_SWEEP_MAX_BATCHES'' 20\<rparr>)"

text \<open>An invocation of the coarse sweep worker; without tables it does nothing and says so.\<close>

definition coarse_invocation ::
  "'d cr_env \<Rightarrow> (string \<Rightarrow> string option) \<Rightarrow> u64 \<Rightarrow> u64 \<Rightarrow> (('d, repair_event) sw_state, coarse_summary option) ch_prog" where
  "coarse_invocation env vars deadline_ms now_ms st =
     (case sweep_config_from_env vars (coarse_base_from_env vars) of
        None \<Rightarrow> ch_return None st
      | Some cfg \<Rightarrow>
          (let budget_ms = min (sat_mul64 (env_parse_or parse_u64 vars ''COARSE_SWEEP_TIME_BUDGET_SECS'' 120) 1000) (remaining_budget_ms deadline_ms now_ms);
               started = cr_instant env (sw_looks st)
           in ch_bind (run_coarse_sweep env cfg (Some (started + unat budget_ms))) (\<lambda>summary. ch_return (Some summary))
                (st\<lparr>sw_looks := Suc (sw_looks st)\<rparr>)))"

section \<open>The operator's repair\<close>

record repair_args =
  rp_database :: string
  rp_table :: string
  rp_start_month :: u32
  rp_end_month :: u32
  rp_dry_run :: bool
  rp_skip_snapshot :: bool
  rp_batch_size :: u64
  rp_oracle_name :: string
  rp_window_s :: u32
  rp_pivot_window_s :: u32
  rp_reset_quote_asset_id :: "u64 option"
  rp_reset_not_before :: "u32 option"
  rp_reset_not_after :: "u32 option"
  rp_reset_require_external_rate :: bool
  rp_reset_require_pivot_usdc_rate :: bool
  rp_snapshots_verified :: bool

datatype operator_error =
  InvalidMonth string u32
| StartAfterEnd u32 u32
| NotACoarseTable string
| SnapshotsNotVerified
| PivotWindowTooShort u32 string u32
| DerivedWindowTooShort u32 string u32
| ResetRefused ch_error

definition validate_month :: "string \<Rightarrow> u32 \<Rightarrow> (operator_error, unit) result" where
  "validate_month label m =
     (if 2015 \<le> m div 100 \<and> m div 100 \<le> 2100 \<and> 1 \<le> m mod 100 \<and> m mod 100 \<le> 12 then Inr () else Inl (InvalidMonth label m))"

definition external_window_s :: "string \<Rightarrow> u32" where
  "external_window_s table = max (bucket_width_s table) 86400"

definition min_window :: "string \<Rightarrow> u32" where
  "min_window table =
     (if table = ''price_ohlcv_1w'' then 604800 else if table = ''price_ohlcv_1M'' then 2678400
      else if table = ''price_ohlcv_1d'' then 86400 else 0)"

definition usdc_oracle_epoch_s :: u32 where
  "usdc_oracle_epoch_s = 1773237600"

definition check_windows :: "repair_args \<Rightarrow> (operator_error, unit) result" where
  "check_windows args =
     (if rp_reset_quote_asset_id args = None then Inr ()
      else if rp_pivot_window_s args < min_window (rp_table args)
      then Inl (PivotWindowTooShort (rp_pivot_window_s args) (rp_table args) (min_window (rp_table args)))
      else if (rp_reset_require_external_rate args \<or> rp_reset_require_pivot_usdc_rate args) \<and>
        external_window_s (rp_table args) < min_window (rp_table args)
      then Inl (DerivedWindowTooShort (external_window_s (rp_table args)) (rp_table args) (min_window (rp_table args)))
      else Inr ())"

definition reset_not_after :: "repair_args \<Rightarrow> u32 option" where
  "reset_not_after args =
     (case rp_reset_not_after args of
        Some na \<Rightarrow> Some na
      | None \<Rightarrow> if rp_reset_require_external_rate args \<or> rp_reset_require_pivot_usdc_rate args then Some usdc_oracle_epoch_s else None)"

definition operator_reset :: "repair_args \<Rightarrow> (operator_error, usd_reset_spec option) result" where
  "operator_reset args =
     (case (rp_reset_quote_asset_id args, rp_reset_not_before args) of
        (Some quote_asset_id, Some not_before) \<Rightarrow>
          (let spec = \<lparr>ur_quote_asset_id = quote_asset_id, ur_not_before = not_before, ur_not_after = reset_not_after args,
                 ur_require_external_rate = rp_reset_require_external_rate args,
                 ur_require_pivot_usdc_rate = rp_reset_require_pivot_usdc_rate args\<rparr>
           in case validate_reset spec of Inl e \<Rightarrow> Inl (ResetRefused e) | Inr _ \<Rightarrow> Inr (Some spec))
      | _ \<Rightarrow> Inr None)"

definition operator_enrich :: "repair_args \<Rightarrow> usd_reset_spec option \<Rightarrow> enrich_config" where
  "operator_enrich args reset =
     \<lparr>ec_database = rp_database args, ec_table = rp_table args, ec_oracle_name = rp_oracle_name args, ec_window_s = rp_window_s args,
       ec_pivot_window_s = rp_pivot_window_s args, ec_recent_window_s = 14400, ec_batch_size = rp_batch_size args, ec_max_batches = 20,
       ec_one_shot = True, ec_time_window = None, ec_usd_reset = reset\<rparr>"

text \<open>The checks of the command line in their order, then the configuration of the run.\<close>

definition operator_config :: "repair_args \<Rightarrow> (operator_error, repair_config) result" where
  "operator_config args =
     rbind (validate_month ''--start-month'' (rp_start_month args)) (\<lambda>_.
     rbind (validate_month ''--end-month'' (rp_end_month args)) (\<lambda>_.
     if rp_end_month args < rp_start_month args then Inl (StartAfterEnd (rp_start_month args) (rp_end_month args))
     else if \<not> is_coarse_table (rp_table args) then Inl (NotACoarseTable (rp_table args))
     else if rp_reset_quote_asset_id args \<noteq> None \<and> \<not> rp_dry_run args \<and> rp_skip_snapshot args \<and> \<not> rp_snapshots_verified args
     then Inl SnapshotsNotVerified
     else rbind (check_windows args) (\<lambda>_. rbind (operator_reset args) (\<lambda>reset.
       Inr \<lparr>rc_enrich = operator_enrich args reset, rc_start_month = rp_start_month args, rc_end_month = rp_end_month args,
         rc_snapshot = (\<not> rp_skip_snapshot args), rc_dry_run = rp_dry_run args, rc_one_shot = True, rc_deadline = None\<rparr>))))"

text \<open>What the summary of a finished run tells the operator about a reset: how many values were lost.\<close>

definition reset_shortfall :: "repair_summary \<Rightarrow> u64 option" where
  "reset_shortfall summary =
     (if 0 < total_reset summary \<and> total_enriched summary < total_reset summary
      then Some (total_reset summary - total_enriched summary) else None)"

end
