(* ===== verification/Repair_Guarantees.thy ===== *)
theory Repair_Guarantees
  imports Coarse_Repair Enrich_Reset
begin

text \<open>
  What a repair does: it walks the months enumerated in order, freezes a partition before anything runs on it, and
  changes nothing in a dry run.
\<close>

section \<open>Reading programs\<close>

definition reads :: "('s, 'a) ch_prog \<Rightarrow> bool" where
  "reads m \<longleftrightarrow> (\<forall>st. case m st of Inl (e, st') \<Rightarrow> st' = st | Inr (x, st') \<Rightarrow> st' = st)"

named_theorems reads

lemma reads_prims [reads]: "reads (ch_return x)" "reads (ch_fail e)" "reads (ch_lift r)" "reads (ch_read q)"
  by (auto simp: reads_def ch_return_def ch_fail_def ch_lift_def ch_read_def split: sum.split)

lemma reads_bind [reads]:
  assumes "reads m" and "\<And>x. reads (f x)"
  shows "reads (ch_bind m f)"
  unfolding reads_def
proof
  fix st
  show "case ch_bind m f st of Inl (e, st') \<Rightarrow> st' = st | Inr (x, st') \<Rightarrow> st' = st"
    using assms(1) assms(2) by (cases "m st") (force simp: reads_def ch_bind_def dest: spec [of _ st])+
qed

lemma reads_when [reads]: "reads m \<Longrightarrow> reads (ch_when b m)"
  by (simp add: ch_when_def reads)

lemma admissible_reads: "reads (assert_reset_is_admissible env cfg)"
  unfolding assert_reset_is_admissible_def resolve_reference_ids_def assert_reset_not_shadowed_by_oracle_def
    assert_external_rates_are_loaded_def assert_hourly_rates_are_loaded_def assert_no_pre_epoch_oracle_rows_def
    assert_reset_epoch_is_covered_def Let_def
  by (auto intro!: reads split: option.split)

lemma refusals_read: "reads (sw_refusals env cfg :: (('d, 'e) sw_state, unit) ch_prog)"
  unfolding reads_def
proof
  fix st :: "('d, 'e) sw_state"
  show "case sw_refusals env cfg st of Inl (e, st') \<Rightarrow> st' = st | Inr (x, st') \<Rightarrow> st' = st"
    using admissible_reads [of env cfg, unfolded reads_def, rule_format, of "\<lparr>cs_db = sw_db st, cs_trace = []\<rparr>"]
    by (auto simp: sw_refusals_def split: sum.splits)
qed

lemma sw_read_reads [reads]: "reads (sw_read q)"
  by (auto simp: reads_def sw_read_def ch_return_def ch_fail_def split: sum.split)

section \<open>A month\<close>

definition month_events :: "repair_config \<Rightarrow> month_window \<Rightarrow> ch_event list \<Rightarrow> repair_event list" where
  "month_events cfg mw t =
     (if rc_snapshot cfg then [Froze (ec_table (rc_enrich cfg)) (mn_month mw) (snapshot_name (rc_enrich cfg) (mn_month mw))] else []) @
     [Repaired (ec_table (rc_enrich cfg)) (mn_month mw) (mn_start_ts mw, mn_end_ts mw) t]"

lemma repair_month_Inr:
  assumes "repair_month env cfg mw st = Inr (m, st')" and "\<not> rc_dry_run cfg"
  shows "mr_month m = mn_month mw \<and> sw_looks st' = sw_looks st \<and> (\<exists>t. sw_log st' = sw_log st @ month_events cfg mw t)"
proof (cases "rc_snapshot cfg")
  case True
  then show ?thesis
    using assms unfolding repair_month_def
    by (auto simp: ch_bind_Inr ch_return_Inr freeze_partition_def sw_pass_def month_events_def repaired_month_def
        ch_return_def ch_fail_def split: sum.splits)
next
  case False
  then show ?thesis
    using assms unfolding repair_month_def
    by (auto simp: ch_bind_Inr ch_return_Inr sw_pass_def month_events_def repaired_month_def split: sum.splits)
qed

lemma repair_month_Inl:
  assumes "repair_month env cfg mw st = Inl (e, st')"
  shows "sw_log st' = sw_log st \<or> (\<exists>t. sw_log st' = sw_log st @ month_events cfg mw t) \<or>
    rc_snapshot cfg \<and> sw_log st' = sw_log st @ butlast (month_events cfg mw [])"
  using assms unfolding repair_month_def
  by (auto simp: ch_bind_def rbind_def freeze_partition_def sw_pass_def month_events_def ch_return_def ch_fail_def
      split: sum.splits if_splits)

lemma repair_month_dry: "rc_dry_run cfg \<Longrightarrow> repair_month env cfg mw st = Inr (dry_month mw, st)"
  by (simp add: repair_month_def ch_return_def)

section \<open>The walk\<close>

text \<open>The events of a walk over the months, wherever it stopped.\<close>

fun walked :: "repair_config \<Rightarrow> month_window list \<Rightarrow> repair_event list \<Rightarrow> bool" where
  "walked cfg [] evs \<longleftrightarrow> evs = []"
| "walked cfg (mw # months) evs \<longleftrightarrow>
     evs = [] \<or> rc_snapshot cfg \<and> evs = butlast (month_events cfg mw []) \<or>
     (\<exists>t rest. evs = month_events cfg mw t @ rest \<and> walked cfg months rest)"

lemma walked_Nil [simp]: "walked cfg months []"
  by (cases months) auto

lemma walked_step: "walked cfg months rest \<Longrightarrow> walked cfg (mw # months) (month_events cfg mw t @ rest)"
  by auto

lemma walked_one: "walked cfg (mw # months) (month_events cfg mw t)"
  using walked_step [of cfg months "[]" mw t] by simp

lemma past_cases:
  obtains late st' where "past_deadline instant deadline st = Inr (late, st')" and "sw_log st' = sw_log st" and "sw_db st' = sw_db st"
    and "deadline = None \<longrightarrow> \<not> late"
  by (cases deadline) (auto simp: past_deadline_def ch_return_def)

lemma repair_months_walked:
  assumes "\<not> rc_dry_run cfg"
  shows "\<exists>evs. final_log (repair_months env cfg months summary st) = sw_log st @ evs \<and> walked cfg months evs"
proof (induction months arbitrary: summary st)
  case Nil
  then show ?case by (simp add: final_log_def ch_return_def)
next
  case (Cons mw months)
  obtain late st1 where late: "past_deadline (cr_instant env) (rc_deadline cfg) st = Inr (late, st1)" "sw_log st1 = sw_log st"
    by (rule past_cases [of "cr_instant env" "rc_deadline cfg" st])
  show ?case
  proof (cases late)
    case True
    then show ?thesis using late by (simp add: ch_bind_def final_log_def ch_return_def)
  next
    case False
    show ?thesis
    proof (cases "repair_month env cfg mw st1")
      case (Inl failed)
      obtain e st2 where e: "failed = (e, st2)" by (cases failed)
      have log: "final_log (repair_months env cfg (mw # months) summary st) = sw_log st2"
        using late(1) False Inl e by (simp add: ch_bind_def final_log_def)
      have "\<exists>evs. sw_log st2 = sw_log st @ evs \<and> walked cfg (mw # months) evs"
        using repair_month_Inl [OF Inl [unfolded e]] walked_one [of cfg mw months] unfolding late(2) by (metis append_Nil2 walked.simps(2))
      then show ?thesis unfolding log .
    next
      case (Inr r)
      obtain m st2 where r: "r = (m, st2)" by (cases r)
      obtain t where t: "sw_log st2 = sw_log st @ month_events cfg mw t"
        using repair_month_Inr [OF Inr [unfolded r] assms] late(2) by auto
      obtain evs where evs: "final_log (repair_months env cfg months (summary\<lparr>rs_months := rs_months summary @ [m]\<rparr>) st2) = sw_log st2 @ evs"
          "walked cfg months evs"
        using Cons by blast
      have "final_log (repair_months env cfg (mw # months) summary st) = sw_log st @ (month_events cfg mw t @ evs)"
        using late(1) False Inr r evs(1) t by (simp add: ch_bind_def)
      then show ?thesis using walked_step [OF evs(2)] by blast
    qed
  qed
qed

lemma walked_frozen:
  assumes "walked cfg months (before @ Repaired tbl m w t # after)" and "rc_snapshot cfg" and "distinct (map mn_month months)"
  shows "\<exists>pre. before = pre @ [Froze tbl m (snapshot_name (rc_enrich cfg) m)] \<and> m \<in> set (map mn_month months) \<and>
    (\<forall>w t. Repaired tbl m w t \<notin> set pre) \<and> tbl = ec_table (rc_enrich cfg)"
  using assms(1,3)
proof (induction months arbitrary: before)
  case Nil
  then show ?case by simp
next
  case (Cons mw months)
  let ?f = "Froze (ec_table (rc_enrich cfg)) (mn_month mw) (snapshot_name (rc_enrich cfg) (mn_month mw))"
  let ?r = "Repaired (ec_table (rc_enrich cfg)) (mn_month mw) (mn_start_ts mw, mn_end_ts mw)"
  have events: "month_events cfg mw u = [?f, ?r u]" for u using assms(2) by (simp add: month_events_def)
  obtain u rest where rest: "before @ Repaired tbl m w t # after = ?f # ?r u # rest" "walked cfg months rest"
    using Cons.prems(1) by (auto simp: events Cons_eq_append_conv append_eq_Cons_conv)
  then consider "before = [?f]" "Repaired tbl m w t = ?r u" | pre where "before = ?f # ?r u # pre" "rest = pre @ Repaired tbl m w t # after"
    by (auto simp: append_eq_Cons_conv)
  then show ?case
  proof cases
    case 1
    then show ?thesis by auto
  next
    case (2 pre)
    with Cons rest obtain pre' where pre': "pre = pre' @ [Froze tbl m (snapshot_name (rc_enrich cfg) m)]" "m \<in> set (map mn_month months)"
        "\<forall>w t. Repaired tbl m w t \<notin> set pre'" "tbl = ec_table (rc_enrich cfg)"
      by (metis (no_types, lifting) distinct.simps(2) list.map(2))
    have "mn_month mw \<notin> set (map mn_month months)" using Cons.prems(2) by simp
    then have "m \<noteq> mn_month mw" using pre'(2) by metis
    then show ?thesis using pre'(1,3,4) pre'(2) 2(1) by (intro exI [of _ "?f # ?r u # pre'"]) (simp del: set_map; blast)
  qed
qed

lemma run_repair_cases:
  obtains (failed) e where "run_repair env cfg st = Inl (e, st)"
  | (months) months where "cr_months env (rc_enrich cfg) (rc_start_month cfg) (rc_end_month cfg) (sw_db st) = Inr months"
      "run_repair env cfg st = repair_months env cfg months empty_repair st"
proof (cases "sw_refusals (cr_ch env) (rc_enrich cfg) st")
  case (Inl r)
  then have "snd r = st" using refusals_read [of "cr_ch env" "rc_enrich cfg", unfolded reads_def, rule_format, of st] by (cases r) auto
  then show ?thesis using failed [of "fst r"] Inl by (cases r) (simp add: run_repair_def ch_bind_def)
next
  case (Inr r)
  then have st: "snd r = st" using refusals_read [of "cr_ch env" "rc_enrich cfg", unfolded reads_def, rule_format, of st] by (cases r) auto
  show ?thesis
  proof (cases "cr_months env (rc_enrich cfg) (rc_start_month cfg) (rc_end_month cfg) (sw_db st)")
    case (Inl message)
    then show ?thesis using failed [of "ChClickhouse message"] Inr st
      by (cases r) (simp add: run_repair_def ch_bind_def sw_read_def ch_fail_def)
  next
    case months': (Inr ms)
    then show ?thesis using months [OF months'] Inr st
      by (cases r) (simp add: run_repair_def ch_bind_def sw_read_def ch_return_def)
  qed
qed

section \<open>A dry run\<close>

definition final_db :: "(ch_error \<times> ('d, 'e) sw_state, 'a \<times> ('d, 'e) sw_state) result \<Rightarrow> 'd" where
  "final_db r = (case r of Inl (_, st) \<Rightarrow> sw_db st | Inr (_, st) \<Rightarrow> sw_db st)"

lemma repair_months_dry:
  assumes "rc_dry_run cfg"
  shows "final_log (repair_months env cfg months summary st) = sw_log st \<and> final_db (repair_months env cfg months summary st) = sw_db st"
proof (induction months arbitrary: summary st)
  case (Cons mw months)
  obtain late st1 where "past_deadline (cr_instant env) (rc_deadline cfg) st = Inr (late, st1)" "sw_log st1 = sw_log st" "sw_db st1 = sw_db st"
    by (rule past_cases [of "cr_instant env" "rc_deadline cfg" st])
  then show ?case using Cons assms by (simp add: ch_bind_def repair_month_dry ch_return_def final_log_def final_db_def)
qed (simp add: final_log_def final_db_def ch_return_def)

lemma dry_run_changes_nothing:
  "rc_dry_run cfg \<Longrightarrow> final_log (run_repair env cfg st) = sw_log st \<and> final_db (run_repair env cfg st) = sw_db st"
  by (cases rule: run_repair_cases [of env cfg st]) (simp add: final_log_def final_db_def, simp add: repair_months_dry)

section \<open>The months repaired\<close>

lemma repair_month_number: "repair_month env cfg mw st = Inr (m, st') \<Longrightarrow> mr_month m = mn_month mw"
  using repair_month_Inr [of env cfg mw st m st'] by (cases "rc_dry_run cfg") (auto simp: repair_month_dry dry_month_def)

definition walk_result :: "repair_config \<Rightarrow> month_window list \<Rightarrow> u32 list \<Rightarrow> repair_event list \<Rightarrow> repair_summary \<Rightarrow>
    repair_event list \<Rightarrow> nat \<Rightarrow> ch_event list list \<Rightarrow> bool" where
  "walk_result cfg months before old summary new k ts \<longleftrightarrow> k \<le> length months \<and> length ts = k \<and>
    map mr_month (rs_months summary) = before @ map mn_month (take k months) \<and>
    (rs_deadline_hit summary \<longleftrightarrow> k < length months) \<and> (rc_deadline cfg = None \<longrightarrow> k = length months) \<and>
    (\<not> rc_dry_run cfg \<longrightarrow> new = old @ concat (map2 (month_events cfg) (take k months) ts))"

lemma repair_months_Inr:
  assumes "repair_months env cfg months summary st = Inr (summary', st')" and "\<not> rs_deadline_hit summary"
  shows "\<exists>k ts. walk_result cfg months (map mr_month (rs_months summary)) (sw_log st) summary' (sw_log st') k ts"
  using assms
proof (induction months arbitrary: summary st)
  case Nil
  then have "walk_result cfg [] (map mr_month (rs_months summary)) (sw_log st) summary' (sw_log st') 0 []"
    by (auto simp: ch_return_Inr walk_result_def)
  then show ?case by blast
next
  case (Cons mw months)
  obtain late st1 where late: "past_deadline (cr_instant env) (rc_deadline cfg) st = Inr (late, st1)" "sw_log st1 = sw_log st"
      "rc_deadline cfg = None \<longrightarrow> \<not> late"
    by (rule past_cases [of "cr_instant env" "rc_deadline cfg" st])
  show ?case
  proof (cases late)
    case True
    then have "summary' = summary\<lparr>rs_deadline_hit := True\<rparr>" "st' = st1"
      using Cons.prems(1) late(1) by (auto simp: ch_bind_def ch_return_def)
    then have "walk_result cfg (mw # months) (map mr_month (rs_months summary)) (sw_log st) summary' (sw_log st') 0 []"
      using late True by (simp add: walk_result_def)
    then show ?thesis by blast
  next
    case False
    let ?next = "\<lambda>m. summary\<lparr>rs_months := rs_months summary @ [m]\<rparr>"
    obtain m st2 where m: "repair_month env cfg mw st1 = Inr (m, st2)"
        "repair_months env cfg months (?next m) st2 = Inr (summary', st')"
      using Cons.prems(1) late(1) False by (auto simp: ch_bind_Inr)
    have "\<not> rs_deadline_hit (?next m)" using Cons.prems(2) by simp
    then obtain k ts where k: "walk_result cfg months (map mr_month (rs_months (?next m))) (sw_log st2) summary' (sw_log st') k ts"
      using Cons.IH [OF m(2)] by blast
    obtain t where t: "\<not> rc_dry_run cfg \<longrightarrow> sw_log st2 = sw_log st @ month_events cfg mw t"
      using repair_month_Inr [OF m(1)] late(2) by auto
    have "walk_result cfg (mw # months) (map mr_month (rs_months summary)) (sw_log st) summary' (sw_log st') (Suc k) (t # ts)"
      using k t repair_month_number [OF m(1)] by (simp add: walk_result_def)
    then show ?thesis by blast
  qed
qed

lemma months_are_frozen_before_they_are_written:
  assumes "rc_snapshot cfg"
    and "\<And>d months. cr_months env (rc_enrich cfg) (rc_start_month cfg) (rc_end_month cfg) d = Inr months \<Longrightarrow> distinct (map mn_month months)"
    and "sw_log st = []" and "final_log (run_repair env cfg st) = before @ Repaired tbl m w t # after"
  shows "\<exists>pre. before = pre @ [Froze tbl m (snapshot_name (rc_enrich cfg) m)] \<and> (\<forall>w t. Repaired tbl m w t \<notin> set pre) \<and>
    tbl = ec_table (rc_enrich cfg)"
proof (cases rule: run_repair_cases [of env cfg st])
  case (failed e)
  then show ?thesis using assms(3,4) by (simp add: final_log_def)
next
  case (months months)
  show ?thesis
  proof (cases "rc_dry_run cfg")
    case True
    then show ?thesis using dry_run_changes_nothing [of cfg env st] assms(3,4) by simp
  next
    case False
    have "walked cfg months (before @ Repaired tbl m w t # after)"
      using repair_months_walked [OF False, of env months empty_repair st] months(2) assms(3,4) by auto
    from walked_frozen [OF this assms(1) assms(2) [OF months(1)]] show ?thesis by blast
  qed
qed

lemma repair_walks_the_enumerated_months:
  assumes "run_repair env cfg st = Inr (summary, st')"
  shows "\<exists>months k. cr_months env (rc_enrich cfg) (rc_start_month cfg) (rc_end_month cfg) (sw_db st) = Inr months \<and> k \<le> length months \<and>
    map mr_month (rs_months summary) = map mn_month (take k months) \<and>
    (rs_deadline_hit summary \<longleftrightarrow> k < length months) \<and> (rc_deadline cfg = None \<longrightarrow> k = length months) \<and>
    (if rc_dry_run cfg then sw_db st' = sw_db st \<and> sw_log st' = sw_log st
     else \<exists>ts. length ts = k \<and> sw_log st' = sw_log st @ concat (map2 (month_events cfg) (take k months) ts))"
proof (cases rule: run_repair_cases [of env cfg st])
  case (failed e)
  then show ?thesis using assms by simp
next
  case (months months)
  have run: "repair_months env cfg months empty_repair st = Inr (summary, st')" using months(2) assms by simp
  have "\<not> rs_deadline_hit empty_repair" by (simp add: empty_repair_def)
  then obtain k ts where "walk_result cfg months (map mr_month (rs_months empty_repair)) (sw_log st) summary (sw_log st') k ts"
    using repair_months_Inr [OF run] by blast
  then have "walk_result cfg months [] (sw_log st) summary (sw_log st') k ts" by (simp add: empty_repair_def)
  moreover have "rc_dry_run cfg \<Longrightarrow> sw_db st' = sw_db st \<and> sw_log st' = sw_log st"
    using dry_run_changes_nothing [of cfg env st] assms by (simp add: final_log_def final_db_def)
  ultimately show ?thesis using months(1) by (intro exI [of _ months] exI [of _ k]) (auto simp: walk_result_def)
qed

section \<open>The sweep\<close>

lemma sweep_table_Inr: "\<exists>summary' st'. sweep_table env cfg window deadline table summary st = Inr (summary', st') \<and>
   (summary' = summary\<lparr>co_failed_tables := co_failed_tables summary @ [table]\<rparr> \<or>
    (\<exists>s. summary' = summary\<lparr>co_tables := co_tables summary @ [\<lparr>tw_table = table, tw_summary = s\<rparr>]\<rparr>))"
  by (auto simp: sweep_table_def ch_return_def split: sum.split)

definition visited :: "coarse_summary \<Rightarrow> string multiset" where
  "visited summary = mset (map tw_table (co_tables summary)) + mset (co_failed_tables summary) + mset (co_skipped_tables summary)"

definition sorted_out :: "coarse_summary \<Rightarrow> bool" where
  "sorted_out summary \<longleftrightarrow> (\<forall>t \<in> set (map tw_table (co_tables summary)) \<union> set (co_failed_tables summary). is_coarse_table t) \<and>
     (\<forall>t \<in> set (co_skipped_tables summary). \<not> is_coarse_table t)"

lemma sweep_tables_visits:
  assumes "sc_tables cfg = front @ tables" and "distinct (sc_tables cfg)" and "co_deferred_tables summary = []"
    and "\<not> co_deadline_hit summary" and "sorted_out summary"
  shows "\<exists>summary' st' done. sweep_tables env cfg window deadline tables summary st = Inr (summary', st') \<and>
    tables = done @ co_deferred_tables summary' \<and> visited summary' = visited summary + mset done \<and> sorted_out summary' \<and>
    (co_deadline_hit summary' \<longleftrightarrow> co_deferred_tables summary' \<noteq> []) \<and> (deadline = None \<longrightarrow> co_deferred_tables summary' = [])"
  using assms
proof (induction tables arbitrary: front summary st)
  case Nil
  then show ?case by (simp add: ch_return_def)
next
  case (Cons table tables)
  obtain late st1 where late: "past_deadline (cr_instant env) deadline st = Inr (late, st1)" "deadline = None \<longrightarrow> \<not> late"
    by (rule past_cases [of "cr_instant env" deadline st])
  show ?case
  proof (cases late)
    case True
    have "dropWhile (\<lambda>t. t \<noteq> table) (sc_tables cfg) = table # tables"
      using Cons.prems(1,2) by (auto simp: dropWhile_append)
    then show ?thesis using late True Cons.prems(5)
      by (simp add: ch_bind_def ch_return_def visited_def sorted_out_def)
  next
    case False
    show ?thesis
    proof (cases "is_coarse_table table")
      case coarse: False
      let ?s = "summary\<lparr>co_skipped_tables := co_skipped_tables summary @ [table]\<rparr>"
      have "sorted_out ?s" using Cons.prems(5) coarse by (auto simp: sorted_out_def)
      then obtain summary' st' rest where r: "sweep_tables env cfg window deadline tables ?s st1 = Inr (summary', st')"
          "tables = rest @ co_deferred_tables summary'" "visited summary' = visited ?s + mset rest" "sorted_out summary'"
          "co_deadline_hit summary' \<longleftrightarrow> co_deferred_tables summary' \<noteq> []" "deadline = None \<longrightarrow> co_deferred_tables summary' = []"
        using Cons.IH [of "front @ [table]" ?s st1] Cons.prems by auto
      then show ?thesis using late(1) False coarse
        by (intro exI [of _ summary'] exI [of _ st'] exI [of _ "table # rest"]) (simp add: ch_bind_def visited_def)
    next
      case coarse: True
      obtain s st2 where s: "sweep_table env cfg window deadline table summary st1 = Inr (s, st2)"
          "s = summary\<lparr>co_failed_tables := co_failed_tables summary @ [table]\<rparr> \<or>
           (\<exists>r. s = summary\<lparr>co_tables := co_tables summary @ [\<lparr>tw_table = table, tw_summary = r\<rparr>]\<rparr>)"
        using sweep_table_Inr [of env cfg window deadline table summary st1] by blast
      have same: "co_deferred_tables s = []" "\<not> co_deadline_hit s" "sorted_out s" "visited s = visited summary + {#table#}"
        using s(2) Cons.prems(3-5) coarse by (auto simp: sorted_out_def visited_def)
      then obtain summary' st' rest where r: "sweep_tables env cfg window deadline tables s st2 = Inr (summary', st')"
          "tables = rest @ co_deferred_tables summary'" "visited summary' = visited s + mset rest" "sorted_out summary'"
          "co_deadline_hit summary' \<longleftrightarrow> co_deferred_tables summary' \<noteq> []" "deadline = None \<longrightarrow> co_deferred_tables summary' = []"
        using Cons.IH [of "front @ [table]" s st2] Cons.prems by auto
      then show ?thesis using late(1) False coarse s(1) same(4)
        by (intro exI [of _ summary'] exI [of _ st'] exI [of _ "table # rest"]) (simp add: ch_bind_def)
    qed
  qed
qed

text \<open>
  C13: The recurring sweep of a list of tables without repetition fails only when its month window cannot be
  read. Otherwise each table reached is exactly one of swept, failed or refused, whatever became of the tables
  before it, refused are exactly those that are not coarse, and the tables deferred are the rest of the list,
  none without a deadline.
\<close>

theorem sweep_accounts_for_every_table:
  assumes "distinct (sc_tables cfg)"
  shows "case run_coarse_sweep env cfg deadline st of
      Inl (e, st') \<Rightarrow> st' = st \<and> (\<exists>message. cr_window env (max (sc_lookback_months cfg) 1 - 1) (sw_db st) = Inl message \<and> e = ChClickhouse message)
    | Inr (summary, st') \<Rightarrow>
        (\<exists>reached. sc_tables cfg = reached @ co_deferred_tables summary \<and>
           mset reached = mset (map tw_table (co_tables summary)) + mset (co_failed_tables summary) + mset (co_skipped_tables summary)) \<and>
        (\<forall>t \<in> set (map tw_table (co_tables summary)) \<union> set (co_failed_tables summary). is_coarse_table t) \<and>
        (\<forall>t \<in> set (co_skipped_tables summary). \<not> is_coarse_table t) \<and>
        (co_deadline_hit summary \<longleftrightarrow> co_deferred_tables summary \<noteq> []) \<and> (deadline = None \<longrightarrow> co_deferred_tables summary = [])"
proof (cases "cr_window env (max (sc_lookback_months cfg) 1 - 1) (sw_db st)")
  case (Inl message)
  then show ?thesis by (simp add: run_coarse_sweep_def current_month_window_def ch_bind_def sw_read_def ch_fail_def)
next
  case (Inr window)
  have fresh: "co_deferred_tables (empty_coarse window) = []" "\<not> co_deadline_hit (empty_coarse window)"
    "sorted_out (empty_coarse window)" "visited (empty_coarse window) = {#}"
    by (simp_all add: empty_coarse_def sorted_out_def visited_def)
  obtain summary' st' reached where r: "sweep_tables env cfg window deadline (sc_tables cfg) (empty_coarse window) st = Inr (summary', st')"
      "sc_tables cfg = reached @ co_deferred_tables summary'" "visited summary' = mset reached" "sorted_out summary'"
      "co_deadline_hit summary' \<longleftrightarrow> co_deferred_tables summary' \<noteq> []" "deadline = None \<longrightarrow> co_deferred_tables summary' = []"
    using sweep_tables_visits [OF append_Nil [symmetric] assms fresh(1-3), of env window deadline st] unfolding fresh(4) add_0 by blast
  have "run_coarse_sweep env cfg deadline st = Inr (summary', st')"
    using Inr r(1) by (simp add: run_coarse_sweep_def current_month_window_def ch_bind_def sw_read_def ch_return_def)
  then show ?thesis using r(2-6) by (auto simp: visited_def sorted_out_def)
qed

section \<open>What the sweep runs\<close>

lemma plain_pass_no_reset:
  assumes "ec_usd_reset cfg = None"
  shows "Ran ResetBatch \<notin> set (trace_of (run_enrichment env cfg \<lparr>cs_db = d, cs_trace = []\<rparr>))"
proof -
  have "no_reset (trace_of (run_through env cfg wm \<lparr>cs_db = d, cs_trace = []\<rparr>))" for wm
    using assms by (intro no_admission_no_reset) simp
  then show ?thesis using pass_trace [of env cfg d] by (auto simp: no_reset_def)
qed

text \<open>An event of a sweep over the tables given.\<close>

definition keeps_to :: "string list \<Rightarrow> repair_event \<Rightarrow> bool" where
  "keeps_to tables ev = (case ev of
     Froze tbl m name \<Rightarrow> False
   | Repaired tbl m w t \<Rightarrow> tbl \<in> set tables \<and> is_coarse_table tbl \<and> Ran ResetBatch \<notin> set t)"

lemma repair_months_logs:
  assumes "\<not> rc_snapshot cfg" and "ec_usd_reset (rc_enrich cfg) = None" and "ec_table (rc_enrich cfg) \<in> set tables"
    and "is_coarse_table (ec_table (rc_enrich cfg))"
  shows "logs (keeps_to tables) (repair_months env cfg months summary)"
proof (induction months arbitrary: summary)
  case (Cons mw months)
  have "logs (keeps_to tables) (repair_month env cfg mw)"
    unfolding repair_month_def using assms
    by (auto intro!: logs logs_pass simp: keeps_to_def plain_pass_no_reset)
  then show ?case
    unfolding repair_months.simps by (auto intro!: logs Cons)
qed (auto intro: logs)

lemma logs_refusals: "logs Q (sw_refusals env cfg :: (('d, 'e) sw_state, unit) ch_prog)"
  unfolding logs_def
proof (intro allI impI)
  fix st :: "('d, 'e) sw_state"
  assume "list_all Q (sw_log st)"
  then show "case sw_refusals env cfg st of Inl (e, st') \<Rightarrow> list_all Q (sw_log st') | Inr (x, st') \<Rightarrow> list_all Q (sw_log st')"
    using refusals_read [of env cfg, unfolded reads_def, rule_format, of st] by (auto split: sum.splits)
qed

lemma sweep_table_logs:
  assumes "is_coarse_table table" and "table \<in> set tables"
  shows "logs (keeps_to tables) (sweep_table env cfg window deadline table summary)"
proof -
  have run: "logs (keeps_to tables) (run_repair env (sweep_repair_config cfg window deadline table))"
    unfolding run_repair_def using assms
    by (intro logs logs_refusals repair_months_logs) (simp_all add: sweep_repair_config_def)
  show ?thesis
    unfolding logs_def
  proof (intro allI impI)
    fix st :: "('a, repair_event) sw_state"
    assume "list_all (keeps_to tables) (sw_log st)"
    then show "case sweep_table env cfg window deadline table summary st of Inl (e, st') \<Rightarrow> list_all (keeps_to tables) (sw_log st')
        | Inr (x, st') \<Rightarrow> list_all (keeps_to tables) (sw_log st')"
      using run [unfolded logs_def, rule_format, of st] by (auto simp: sweep_table_def ch_return_def split: sum.splits)
  qed
qed

lemma sweep_tables_logs:
  "set tables \<subseteq> set (sc_tables cfg) \<Longrightarrow> logs (keeps_to (sc_tables cfg)) (sweep_tables env cfg window deadline tables summary)"
proof (induction tables arbitrary: summary)
  case (Cons table tables)
  then show ?case
    unfolding sweep_tables.simps by (auto intro!: logs sweep_table_logs)
qed (auto intro: logs)

lemma sweep_keeps_off_the_live_table:
  assumes "final_log (run_coarse_sweep env cfg deadline \<lparr>sw_db = d, sw_log = [], sw_looks = looks\<rparr>) = before @ ev # after"
  shows "\<exists>tbl m w t. ev = Repaired tbl m w t \<and> tbl \<in> set (sc_tables cfg) \<and> tbl \<noteq> ''price_ohlcv_1m'' \<and> Ran ResetBatch \<notin> set t"
proof -
  have "logs (keeps_to (sc_tables cfg)) (run_coarse_sweep env cfg deadline)"
    unfolding run_coarse_sweep_def current_month_window_def by (intro logs sweep_tables_logs) simp
  from logs_final [OF this, of "\<lparr>sw_db = d, sw_log = [], sw_looks = looks\<rparr>"]
  have "list_all (keeps_to (sc_tables cfg)) (before @ ev # after)" unfolding assms by simp
  then show ?thesis by (cases ev) (auto simp: keeps_to_def is_coarse_table_def)
qed

end
