(* ===== verification/Operator_Guarantees.thy ===== *)
theory Operator_Guarantees
  imports Worker_Config Repair_Guarantees
begin

text \<open>
  What the operator's repair accepts: a reset that writes runs only on a coarse table and on partitions frozen first,
  unless the operator asserts that the snapshots exist.
\<close>

lemma validate_month_Inr: "validate_month label m = Inr u \<longleftrightarrow> 2015 \<le> m div 100 \<and> m div 100 \<le> 2100 \<and> 1 \<le> m mod 100 \<and> m mod 100 \<le> 12"
  by (auto simp: validate_month_def)

text \<open>The staleness bound derived from the table is never the shorter one.\<close>

lemma derived_window_suffices: "min_window table \<le> external_window_s table"
  by (simp add: min_window_def external_window_s_def bucket_width_s_def max_def)

lemma derived_guard_never_fires: "check_windows args \<noteq> Inl (DerivedWindowTooShort d table w)"
  using derived_window_suffices [of "rp_table args"] by (auto simp: check_windows_def not_less)

lemma operator_reset_Inr:
  "operator_reset args = Inr (Some spec) \<Longrightarrow> validate_reset spec = Inr () \<and> rp_reset_quote_asset_id args = Some (ur_quote_asset_id spec)"
  by (auto simp: operator_reset_def Let_def split: option.splits sum.splits)

lemma operator_config_Inr:
  assumes "operator_config args = Inr cfg"
  shows "is_coarse_table (rp_table args)" and "check_windows args = Inr ()"
    and "operator_reset args = Inr (ec_usd_reset (rc_enrich cfg))" and "ec_table (rc_enrich cfg) = rp_table args"
    and "ec_pivot_window_s (rc_enrich cfg) = rp_pivot_window_s args" and "rc_dry_run cfg = rp_dry_run args"
    and "rc_snapshot cfg = (\<not> rp_skip_snapshot args)" and "rc_one_shot cfg" and "rc_deadline cfg = None"
    and "rp_reset_quote_asset_id args \<noteq> None \<Longrightarrow> rp_dry_run args \<or> \<not> rp_skip_snapshot args \<or> rp_snapshots_verified args"
  using assms by (auto simp: operator_config_def operator_enrich_def split: if_splits)

text \<open>
  C12: A reset of the operator can be reverted: in a run with an empty log, over months enumerated once each,
  when the command line is accepted without the assertion that snapshots exist, every pass of the run that
  discards values is directly preceded by the snapshot of its partition and no earlier pass touched that
  partition, the table is a coarse one, and on a daily, weekly or monthly table the pivot window is no shorter
  than its buckets; of a finer table the code asks no window.
\<close>

theorem operator_reset_is_revertible:
  assumes "operator_config args = Inr cfg" and "ec_usd_reset (rc_enrich cfg) = Some spec" and "\<not> rp_snapshots_verified args"
    and "\<And>d months. cr_months env (rc_enrich cfg) (rc_start_month cfg) (rc_end_month cfg) d = Inr months \<Longrightarrow> distinct (map mn_month months)"
    and "sw_log st = []" and "final_log (run_repair env cfg st) = before @ Repaired tbl m w t # after"
  shows "is_coarse_table tbl \<and> validate_reset spec = Inr () \<and> min_window tbl \<le> ec_pivot_window_s (rc_enrich cfg) \<and>
    (\<exists>pre. before = pre @ [Froze tbl m (snapshot_name (rc_enrich cfg) m)] \<and> (\<forall>w t. Repaired tbl m w t \<notin> set pre))"
proof -
  note cfg = operator_config_Inr [OF assms(1)]
  have "operator_reset args = Inr (Some spec)" using cfg(3) assms(2) by simp
  note reset = operator_reset_Inr [OF this]
  have "\<not> rc_dry_run cfg"
    using dry_run_changes_nothing [of cfg env st] assms(5,6) by auto
  then have frozen: "rc_snapshot cfg" using cfg(6,7,10) reset assms(3) by auto
  have "min_window (rp_table args) \<le> rp_pivot_window_s args"
    using cfg(2) reset by (auto simp: check_windows_def not_less split: if_splits)
  moreover have "\<exists>pre. before = pre @ [Froze tbl m (snapshot_name (rc_enrich cfg) m)] \<and> (\<forall>w t. Repaired tbl m w t \<notin> set pre) \<and>
      tbl = ec_table (rc_enrich cfg)"
    by (rule months_are_frozen_before_they_are_written [OF frozen _ assms(5,6)]) (rule assms(4))
  ultimately show ?thesis using cfg(1,4,5) reset by auto
qed

end
