(* ===== verification/Frontier_Sweep.thy ===== *)
theory Frontier_Sweep
  imports Frontier
begin

text \<open>
  What a sweep of the history does: it visits the months the frontier leaves open, oldest first; it changes only
  partitions below the live window; its rechecks change nothing but the frontier.
\<close>

section \<open>The months visited\<close>

lemma filter_upt_skip:
  assumes "a \<le> c" and "\<And>k. a \<le> k \<Longrightarrow> k < c \<Longrightarrow> k < b \<Longrightarrow> \<not> P (f k)"
  shows "filter P (map f [a..<b]) = filter P (map f [c..<b])"
proof (cases "c \<le> b")
  case True
  then have "[a..<b] = [a..<c] @ [c..<b]"
    using upt_add_eq_append [OF assms(1), of "b - c"] by simp
  then show ?thesis using assms(2) True by (auto simp: filter_empty_conv)
next
  case False
  then show ?thesis using assms by (auto simp: filter_empty_conv)
qed

lemma walk_months_eq:
  assumes "valid_month m" and "unat hi < 4294967200"
  shows "walk_months states hi live_start m = Some [k \<leftarrow> map of_nat [unat m..<Suc (unat hi)].
    valid_month k \<and> k < live_start \<and> map_option ms_state (map_of states k) \<noteq> Some Exhausted]"
  using assms
proof (induction "Suc (unat hi) - unat m" arbitrary: m rule: less_induct)
  case (less m)
  let ?P = "\<lambda>k. valid_month k \<and> k < live_start \<and> map_option ms_state (map_of states k) \<noteq> Some Exhausted"
  let ?months = "\<lambda>m. filter ?P (map of_nat [unat m..<Suc (unat hi)])"
  have small: "unat (of_nat k :: u32) = k" if "k < Suc (unat hi)" for k
    using that less.prems(2) by (simp add: unat_of_nat)
  show ?case
  proof (cases "m < live_start \<and> m \<le> hi")
    case False
    have "\<not> ?P (of_nat k)" if "unat m \<le> k" "k < Suc (unat hi)" for k
      using False that small [OF that(2)] by (auto simp: word_less_nat_alt word_le_nat_alt)
    then have "?months m = []" by (auto simp: filter_empty_conv)
    then show ?thesis using False by (subst walk_months.simps) (simp only: if_False)
  next
    case True
    then have "unat m < 4294967200" "unat m < Suc (unat hi)" using less.prems(2) by (simp_all add: word_le_nat_alt)
    then obtain n where n: "add_months m 1 = Some n" using add_one_month [OF less.prems(1)] by blast
    note next_m = next_month_valid [OF less.prems(1) \<open>unat m < 4294967200\<close> n]
    have "?months m = (if ?P m then [m] else []) @ filter ?P (map of_nat [Suc (unat m)..<Suc (unat hi)])"
      using \<open>unat m < Suc (unat hi)\<close> by (simp add: upt_conv_Cons del: upt_Suc)
    also have "filter ?P (map of_nat [Suc (unat m)..<Suc (unat hi)]) = ?months n"
    proof (rule filter_upt_skip)
      show "Suc (unat m) \<le> unat n" using next_m(3) by (simp add: word_less_nat_alt)
      fix k
      assume k: "Suc (unat m) \<le> k" "k < unat n" "k < Suc (unat hi)"
      show "\<not> ?P (of_nat k)"
        using next_m(4) [of "of_nat k"] k small [OF k(3)] by (auto simp: word_less_nat_alt word_le_nat_alt)
    qed
    finally have step: "?months m = (if ?P m then [m] else []) @ ?months n" .
    have "Suc (unat hi) - unat n < Suc (unat hi) - unat m"
      using next_m(3) \<open>unat m < Suc (unat hi)\<close> by (simp add: word_less_nat_alt)
    then have rest: "walk_months states hi live_start n = Some (?months n)"
      using less.hyps next_m(1) less.prems(2) by blast
    show ?thesis
      unfolding step using True less.prems(1) by (subst walk_months.simps) (simp add: n rest del: upt_Suc)
  qed
qed

text \<open>
  The walk over the months ends for every table of dates before the year 42949672 and visits, oldest first,
  exactly the calendar months of the span that lie below the live window and are not marked exhausted.
\<close>

lemma sweep_visits_the_open_months:
  assumes "valid_month lo" and "unat hi < 4294967200"
  shows "months_to_sweep (lo, hi) live_start states = Some [k \<leftarrow> map of_nat [unat lo..<Suc (unat hi)].
    valid_month k \<and> k < live_start \<and> map_option ms_state (map_of states k) \<noteq> Some Exhausted]"
  using walk_months_eq [OF assms] by (simp add: months_to_sweep_def)

section \<open>The events of a sweep\<close>

lemma logs_record [logs]: "(\<And>m s z. Q (Marked m s z)) \<Longrightarrow> logs Q (sw_record env tbl month state zeros)"
  by (simp add: logs_def sw_record_def ch_return_def ch_fail_def split: sum.split)

lemma work_months_logs:
  assumes "\<And>m s z. Q (Marked m s z)"
    and "\<And>m w d. m \<in> set queue \<Longrightarrow> month_bounds cal m = Some w \<Longrightarrow>
      Q (Worked m w (trace_of (run_enrichment (fr_ch env) ((hc_base cfg)\<lparr>ec_time_window := Some w, ec_one_shot := False\<rparr>) \<lparr>cs_db = d, cs_trace = []\<rparr>)))"
  shows "logs Q (work_months env cal cfg queue summary)"
  using assms(2)
proof (induction queue arbitrary: summary)
  case (Cons m queue)
  show ?case
    unfolding work_months.simps by (auto intro!: logs logs_pass Cons assms(1) split: option.split)
qed (auto intro: logs)

lemma recheck_months_logs:
  assumes "\<And>m s z. Q (Marked m s z)"
    and "\<And>m w d. m \<in> set stale \<Longrightarrow> month_bounds cal m = Some w \<Longrightarrow> Q (Rechecked m w (trace_of (run_enrichment (fr_ch env)
      ((hc_base cfg)\<lparr>ec_time_window := Some w, ec_one_shot := False, ec_max_batches := 0\<rparr>) \<lparr>cs_db = d, cs_trace = []\<rparr>)))"
  shows "logs Q (recheck_months env cal cfg stale summary)"
  using assms(2)
proof (induction stale arbitrary: summary)
  case (Cons m stale)
  show ?case
    unfolding recheck_months.simps by (auto intro!: logs logs_pass Cons assms(1) split: option.split)
qed (auto intro: logs)

section \<open>The sweep keeps below the live window\<close>

text \<open>An event of an invocation whose live window starts at \<open>a\<close>.\<close>

definition keeps_below :: "u32 \<Rightarrow> u32 \<Rightarrow> sweep_event \<Rightarrow> bool" where
  "keeps_below a b ev = (case ev of
     Live window t \<Rightarrow> window = Some (a, b)
   | Worked m (x, y) t \<Rightarrow> y \<le> a
   | Rechecked m window t \<Rightarrow> silent t
   | Marked m s z \<Rightarrow> True)"

lemma walk_months_below: "walk_months states hi live_start m = Some ms \<Longrightarrow> \<forall>k \<in> set ms. k < live_start"
proof (rule walk_months.raw_induct [where P = "\<lambda>states hi live_start m ms. \<forall>k \<in> set ms. k < live_start"], goal_cases)
  case (1 walk states hi live_start m ms)
  show ?case
  proof (cases "m < live_start \<and> m \<le> hi")
    case True
    then show ?thesis
      using 1 by (cases "add_months m 1") (auto simp: Let_def Option.bind_eq_Some_conv split: if_splits)
  qed (use 1(3) in auto)
qed

lemma walk_months_open:
  "walk_months states hi live_start m = Some ms \<Longrightarrow> \<forall>k \<in> set ms. map_option ms_state (map_of states k) \<noteq> Some Exhausted"
proof (rule walk_months.raw_induct [where P = "\<lambda>states hi live_start m ms. \<forall>k \<in> set ms. map_option ms_state (map_of states k) \<noteq> Some Exhausted"],
    goal_cases)
  case (1 walk states hi live_start m ms)
  show ?case
  proof (cases "m < live_start \<and> m \<le> hi")
    case True
    then show ?thesis
      using 1 by (cases "add_months m 1") (auto simp: Let_def Option.bind_eq_Some_conv split: if_splits)
  qed (use 1(3) in auto)
qed

lemma sweep_queue_logs:
  assumes "cal_laws cal" and "month_of cal (ucast a) = Some (hc_live_start_month cfg)" and "ec_usd_reset (hc_base cfg) = None"
    and "\<And>m. m \<in> set queue \<Longrightarrow> m < hc_live_start_month cfg"
  shows "logs (keeps_below a b) (sweep_queue env cal cfg states queue)"
proof -
  have worked: "keeps_below a b (Worked m w t)" if "m \<in> set queue" "month_bounds cal m = Some w" for m w t
    using earlier_month_ends [OF assms(1,2) assms(4) [OF that(1)]] that(2) by (cases w) (simp add: keeps_below_def)
  have idle: "keeps_below a b (Rechecked m w (trace_of (run_enrichment (fr_ch env)
      ((hc_base cfg)\<lparr>ec_time_window := Some w, ec_one_shot := False, ec_max_batches := 0\<rparr>) \<lparr>cs_db = d, cs_trace = []\<rparr>)))" for m w d
    using assms(3) by (simp add: keeps_below_def idle_pass effective_max_batches_def)
  have marked: "keeps_below a b (Marked m s z)" for m s z by (simp add: keeps_below_def)
  show ?thesis
    unfolding sweep_queue_def
    by (intro logs work_months_logs recheck_months_logs) (auto intro: worked idle marked dest: in_set_takeD)
qed

lemma read_frontier_logs: "logs Q (read_frontier env cfg)"
  unfolding read_frontier_def by (auto intro!: logs split: option.split)

lemma run_sweep_logs:
  assumes "cal_laws cal" and "month_of cal (ucast a) = Some (hc_live_start_month cfg)" and "ec_usd_reset (hc_base cfg) = None"
    and "run_historical_sweep env cal cfg st = Some r" and "list_all (keeps_below a b) (sw_log st)"
  shows "list_all (keeps_below a b) (final_log r)"
proof (cases "read_frontier env cfg st")
  case (Inl failed)
  then show ?thesis
    using assms(4,5) logs_final [OF read_frontier_logs, of "keeps_below a b" st env cfg]
    by (cases failed) (auto simp: run_historical_sweep_def final_log_def)
next
  case (Inr x)
  obtain found st1 where x: "x = (found, st1)" by (cases x)
  have log: "list_all (keeps_below a b) (sw_log st1)"
    using logs_final [OF read_frontier_logs assms(5), of env cfg] Inr x by (simp add: final_log_def)
  show ?thesis
  proof (cases found)
    case None
    then show ?thesis using assms(4) Inr x log by (auto simp: run_historical_sweep_def final_log_def)
  next
    case (Some f)
    obtain bounds states where f: "f = (bounds, states)" by (cases f)
    obtain queue where queue: "months_to_sweep bounds (hc_live_start_month cfg) states = Some queue"
        "r = sweep_queue env cal cfg states queue st1"
      using assms(4) Inr x Some f by (auto simp: run_historical_sweep_def)
    have "m < hc_live_start_month cfg" if "m \<in> set queue" for m
      using queue(1) walk_months_below that unfolding months_to_sweep_def by blast
    then show ?thesis
      unfolding queue(2) by (intro logs_final [OF sweep_queue_logs [OF assms(1-3)] log])
  qed
qed

text \<open>
  C11: The live pass and the historical sweep never contend for a partition: in an invocation of the worker
  whose live window starts at a, every month the sweep works ends at or before a, and its rechecks of older
  marks run no statement at all.
\<close>

theorem sweep_writes_below_the_live_window:
  assumes "cal_laws cal" and "live_partition_window cal now (wk_live_partitions wk) = Some (a, b)"
    and "worker_invocation env cal wk now deadline_ms now_ms \<lparr>sw_db = d, sw_log = [], sw_looks = looks\<rparr> = Some r"
  shows "list_all (keeps_below a b) (final_log r)"
proof -
  let ?st = "\<lparr>sw_db = d, sw_log = [], sw_looks = looks\<rparr>"
  have live: "list_all (keeps_below a b) (final_log (sw_pass (fr_ch env) (Live (Some (a, b))) cfg ?st))" for cfg
    by (rule logs_final [OF logs_pass]) (simp_all add: keeps_below_def)
  show ?thesis
  proof (cases "sw_pass (fr_ch env) (Live (Some (a, b))) ((worker_base wk)\<lparr>ec_time_window := Some (a, b)\<rparr>) ?st")
    case (Inl failed)
    then show ?thesis using live [of "(worker_base wk)\<lparr>ec_time_window := Some (a, b)\<rparr>"] assms(2,3) by (auto simp: worker_invocation_def)
  next
    case (Inr x)
    obtain stats st1 where x: "x = (stats, st1)" by (cases x)
    let ?cfg = "sweep_config env cal wk (Some (a, b)) deadline_ms now_ms (sw_looks st1)"
    have log: "list_all (keeps_below a b) (sw_log (st1\<lparr>sw_looks := Suc (sw_looks st1)\<rparr>))"
      using live [of "(worker_base wk)\<lparr>ec_time_window := Some (a, b)\<rparr>"] Inr x by (simp add: final_log_def)
    obtain l where l: "month_of cal (ucast a) = Some l" using month_of_u32 [OF assms(1), of a] by metis
    show ?thesis
    proof (cases "wk_historical wk \<and> 0 < wk_live_partitions wk")
      case True
      then obtain r' where r': "run_historical_sweep env cal ?cfg (st1\<lparr>sw_looks := Suc (sw_looks st1)\<rparr>) = Some r'" "r = (case r' of Inl (e, st) \<Rightarrow> Inr (stats, st) | Inr (summary, st) \<Rightarrow> Inr (stats, st))"
        using assms(2,3) Inr x unfolding worker_invocation_def by auto
      then have final: "final_log r = final_log r'" by (auto simp: final_log_def split: sum.splits)
      show ?thesis
        unfolding final
        by (rule run_sweep_logs [OF assms(1) _ _ r'(1) log]) (simp_all add: sweep_config_def live_start_month_of_def worker_base_def l)
    next
      case False
      then have "r = Inr (stats, st1)" using assms(2,3) Inr x by (auto simp: worker_invocation_def)
      then show ?thesis using log by (simp add: final_log_def)
    qed
  qed
qed

end
