(* ===== verification/Frontier_Rotation.thy ===== *)
theory Frontier_Rotation
  imports Frontier_Sweep
begin

text \<open>
  No mark is final: a month marked exhausted is rechecked after a bounded number of runs once its mark is old enough,
  because each run rechecks the oldest marks and stamps them anew.
\<close>

section \<open>The frontier table and its clock\<close>

text \<open>
  What the sweep relies on: a read of the table shows one row per month, a recorded row replaces the one of its month
  and carries the server's time, which does not go back; the statements of a pass leave the table alone.
\<close>

definition frontier_laws :: "'d fr_env \<Rightarrow> string \<Rightarrow> ('d \<Rightarrow> u32 \<Rightarrow> month_state option) \<Rightarrow> ('d \<Rightarrow> u32) \<Rightarrow> bool" where
  "frontier_laws env tbl view clock \<longleftrightarrow>
     (\<forall>d rows. fr_rows env tbl d = Inr rows \<longrightarrow> map_of (collect_states rows) = view d) \<and>
     (\<forall>d n. fr_now env d = Inr n \<longrightarrow> n = clock d) \<and>
     (\<forall>d d' m s z. fr_record env tbl m (frontier_str s) z d = Inr d' \<longrightarrow>
        (\<exists>stamp. view d' = (view d)(m \<mapsto> \<lparr>ms_state = s, ms_swept_at = stamp\<rparr>) \<and> clock d \<le> stamp \<and> stamp \<le> clock d')) \<and>
     (\<forall>cfg wm s d d'. ch_exec (fr_ch env) cfg wm s d = Inr d' \<longrightarrow> view d' = view d \<and> clock d \<le> clock d')"

text \<open>The marks a recheck takes before the one of month \<open>m\<close> stamped at \<open>s\<close>.\<close>

definition ahead :: "(u32 \<Rightarrow> month_state option) \<Rightarrow> u32 \<Rightarrow> u32 \<Rightarrow> u32 set" where
  "ahead v s m = {k. \<exists>stamp. v k = Some \<lparr>ms_state = Exhausted, ms_swept_at = stamp\<rparr> \<and> (stamp, k) < (s, m)}"

section \<open>Changes of the table along a program\<close>

definition stamped :: "('d \<Rightarrow> u32 \<Rightarrow> month_state option) \<Rightarrow> ('d \<Rightarrow> u32) \<Rightarrow> u32 set \<Rightarrow> 'd \<Rightarrow> 'd \<Rightarrow> bool" where
  "stamped view clock A d d' \<longleftrightarrow> clock d \<le> clock d' \<and>
     (\<forall>k. view d' k = view d k \<or> k \<in> A \<and> (\<exists>ms. view d' k = Some ms \<and> clock d \<le> ms_swept_at ms))"

lemma stamped_refl [simp]: "stamped view clock A d d"
  by (simp add: stamped_def)

lemma stamped_trans: "stamped view clock A d d' \<Longrightarrow> stamped view clock A d' d'' \<Longrightarrow> stamped view clock A d d''"
  unfolding stamped_def by (metis order_trans)

lemma stamped_weaken: "stamped view clock A d d' \<Longrightarrow> A \<subseteq> B \<Longrightarrow> stamped view clock B d d'"
  unfolding stamped_def by blast

definition grows :: "('d \<Rightarrow> u32 \<Rightarrow> month_state option) \<Rightarrow> ('d \<Rightarrow> u32) \<Rightarrow> u32 set \<Rightarrow> (('d, sweep_event) sw_state, 'a) ch_prog \<Rightarrow> bool" where
  "grows view clock A m \<longleftrightarrow> (\<forall>st x st'. m st = Inr (x, st') \<longrightarrow>
     stamped view clock A (sw_db st) (sw_db st') \<and> set (sw_log st) \<subseteq> set (sw_log st'))"

named_theorems grows

lemma grows_return [grows]: "grows view clock A (ch_return x)"
  by (simp add: grows_def ch_return_def)

lemma grows_read [grows]: "grows view clock A (sw_read q)"
  by (auto simp: grows_def sw_read_def ch_return_def ch_fail_def split: sum.splits)

lemma grows_past [grows]: "grows view clock A (past_deadline (fr_instant env) (hc_deadline cfg))"
  by (auto simp: grows_def past_deadline_def ch_return_def split: option.splits)

lemma grows_bind [grows]:
  assumes "grows view clock A m" and "\<And>x. grows view clock A (f x)"
  shows "grows view clock A (ch_bind m f)"
  unfolding grows_def ch_bind_Inr using assms unfolding grows_def by (meson stamped_trans subset_trans)

lemma sw_record_Inr:
  assumes "frontier_laws env tbl view clock" and "sw_record env tbl month state zeros st = Inr (x, st')"
  obtains stamp where "view (sw_db st') = (view (sw_db st))(month \<mapsto> \<lparr>ms_state = state, ms_swept_at = stamp\<rparr>)"
    "clock (sw_db st) \<le> stamp" "stamp \<le> clock (sw_db st')" "set (sw_log st) \<subseteq> set (sw_log st')"
proof -
  obtain d where d: "fr_record env tbl month (frontier_str state) zeros (sw_db st) = Inr d" "sw_db st' = d"
      "sw_log st' = sw_log st @ [Marked month state zeros]"
    using assms(2) by (auto simp: sw_record_def ch_return_def ch_fail_def split: sum.splits)
  obtain stamp where "view d = (view (sw_db st))(month \<mapsto> \<lparr>ms_state = state, ms_swept_at = stamp\<rparr>)" "clock (sw_db st) \<le> stamp" "stamp \<le> clock d"
    using assms(1) d(1) unfolding frontier_laws_def by blast
  then show ?thesis using that d(2,3) by auto
qed

lemma grows_record [grows]:
  assumes "frontier_laws env tbl view clock" and "month \<in> A"
  shows "grows view clock A (sw_record env tbl month state zeros)"
  unfolding grows_def
proof (intro allI impI)
  fix st x st'
  assume "sw_record env tbl month state zeros st = Inr (x, st')"
  then obtain stamp where "view (sw_db st') = (view (sw_db st))(month \<mapsto> \<lparr>ms_state = state, ms_swept_at = stamp\<rparr>)"
      "clock (sw_db st) \<le> stamp" "stamp \<le> clock (sw_db st')" "set (sw_log st) \<subseteq> set (sw_log st')"
    by (rule sw_record_Inr [OF assms(1)])
  then show "stamped view clock A (sw_db st) (sw_db st') \<and> set (sw_log st) \<subseteq> set (sw_log st')"
    using assms(2) by (auto simp: stamped_def)
qed

text \<open>A pass leaves the table as it is.\<close>

definition leaves :: "('d \<Rightarrow> u32 \<Rightarrow> month_state option) \<Rightarrow> ('d \<Rightarrow> u32) \<Rightarrow> ('d ch_state, 'a) ch_prog \<Rightarrow> bool" where
  "leaves view clock m \<longleftrightarrow> (\<forall>st x st'. m st = Inr (x, st') \<longrightarrow> view (cs_db st') = view (cs_db st) \<and> clock (cs_db st) \<le> clock (cs_db st'))"

named_theorems leaves

lemma leaves_prims [leaves]:
  "leaves view clock (ch_return x)" "leaves view clock (ch_fail e)" "leaves view clock (ch_read q)" "leaves view clock (ch_lift r)"
  by (auto simp: leaves_def ch_Inr)

lemma leaves_bind [leaves]:
  "leaves view clock m \<Longrightarrow> (\<And>x. leaves view clock (f x)) \<Longrightarrow> leaves view clock (ch_bind m f)"
  unfolding leaves_def ch_bind_Inr by (metis order_trans)

lemma leaves_when [leaves]: "leaves view clock m \<Longrightarrow> leaves view clock (ch_when b m)"
  by (auto simp: ch_when_def leaves)

lemma leaves_count [leaves]: "leaves view clock (count_candidates env cfg wm)"
  unfolding count_candidates_def by (rule leaves_bind [OF leaves_prims(3)]) (simp add: leaves_def ch_return_def)

lemma leaves_run [leaves]: "frontier_laws env tbl view clock \<Longrightarrow> leaves view clock (ch_run (fr_ch env) cfg wm s)"
  unfolding frontier_laws_def leaves_def ch_run_def ch_return_def ch_fail_def by (auto split: sum.splits)

lemma leaves_tier [leaves]: "leaves view clock step \<Longrightarrow> leaves view clock (tier_loop env cfg wm step n ts)"
  by (induction n arbitrary: ts) (auto intro!: leaves)

lemma leaves_run_all [leaves]: "frontier_laws env tbl view clock \<Longrightarrow> leaves view clock (run_all (fr_ch env) cfg wm ss)"
  by (induction ss) (auto intro!: leaves)

lemma leaves_reset_loop [leaves]: "frontier_laws env tbl view clock \<Longrightarrow> leaves view clock (reset_loop (fr_ch env) cfg spec wm n pending)"
  by (induction n arbitrary: pending) (auto intro!: leaves)

lemma leaves_admissible [leaves]: "leaves view clock (assert_reset_is_admissible env cfg)"
  unfolding assert_reset_is_admissible_def resolve_reference_ids_def assert_reset_not_shadowed_by_oracle_def
    assert_external_rates_are_loaded_def assert_hourly_rates_are_loaded_def assert_no_pre_epoch_oracle_rows_def
    assert_reset_epoch_is_covered_def Let_def
  by (auto intro!: leaves split: option.split)

lemma leaves_reference [leaves]:
  "frontier_laws env tbl view clock \<Longrightarrow> leaves view clock (run_reference_tiers (fr_ch env) cfg wm ts)"
  unfolding run_reference_tiers_def resolve_reference_ids_def run_external_tier_def run_peg_pivot_tier_def run_tier_def
    enrich_peg_pivot_step_def
  by (auto intro!: leaves split: option.split)

lemma leaves_reset_step [leaves]: "frontier_laws env tbl view clock \<Longrightarrow> leaves view clock (reset_step (fr_ch env) cfg spec wm)"
  unfolding reset_step_def by (auto intro!: leaves)

lemma pass_leaves: "frontier_laws env tbl view clock \<Longrightarrow> leaves view clock (run_enrichment (fr_ch env) cfg)"
  unfolding run_enrichment_def run_through_def run_oracle_tier_def run_tier_def
  by (auto intro!: leaves split: option.split)

lemma sw_pass_Inr:
  assumes "frontier_laws env tbl view clock" and "sw_pass (fr_ch env) ev cfg st = Inr (stats, st')"
  shows "view (sw_db st') = view (sw_db st)" and "clock (sw_db st) \<le> clock (sw_db st')" and "\<exists>t. sw_log st' = sw_log st @ [ev t]"
proof -
  obtain c where c: "run_enrichment (fr_ch env) cfg \<lparr>cs_db = sw_db st, cs_trace = []\<rparr> = Inr (stats, c)"
      "st' = st\<lparr>sw_db := cs_db c, sw_log := sw_log st @ [ev (cs_trace c)]\<rparr>"
    using assms(2) by (auto simp: sw_pass_def split: sum.splits)
  then have "view (cs_db c) = view (sw_db st) \<and> clock (sw_db st) \<le> clock (cs_db c)"
    using pass_leaves [OF assms(1), of cfg] unfolding leaves_def by fastforce
  then show "view (sw_db st') = view (sw_db st)" "clock (sw_db st) \<le> clock (sw_db st')" "\<exists>t. sw_log st' = sw_log st @ [ev t]"
    by (auto simp: c(2))
qed

lemma grows_pass [grows]:
  assumes "frontier_laws env tbl view clock"
  shows "grows view clock A (sw_pass (fr_ch env) ev cfg)"
  unfolding grows_def stamped_def
proof (intro allI impI)
  fix st x st'
  assume "sw_pass (fr_ch env) ev cfg st = Inr (x, st')"
  from sw_pass_Inr [OF assms this] show "(clock (sw_db st) \<le> clock (sw_db st') \<and> (\<forall>k. view (sw_db st') k = view (sw_db st) k \<or>
      k \<in> A \<and> (\<exists>ms. view (sw_db st') k = Some ms \<and> clock (sw_db st) \<le> ms_swept_at ms))) \<and> set (sw_log st) \<subseteq> set (sw_log st')"
    by auto
qed

section \<open>The two loops of a sweep\<close>

lemma work_months_grows:
  assumes "frontier_laws env (ec_table (hc_base cfg)) view clock"
  shows "\<forall>m \<in> set queue. month_bounds cal m \<noteq> None \<longrightarrow> m \<in> A \<Longrightarrow> grows view clock A (work_months env cal cfg queue summary)"
proof (induction queue arbitrary: summary)
  case (Cons m queue)
  then show ?case
    unfolding work_months.simps
    by (auto intro!: grows_bind grows_return grows_past grows_pass [OF assms] grows_record [OF assms] split: option.split)
qed (auto intro: grows)

lemma recheck_months_grows:
  assumes "frontier_laws env (ec_table (hc_base cfg)) view clock"
  shows "set stale \<subseteq> A \<Longrightarrow> grows view clock A (recheck_months env cal cfg stale summary)"
proof (induction stale arbitrary: summary)
  case (Cons m stale)
  then show ?case
    unfolding recheck_months.simps
    by (auto intro!: grows_bind grows_return grows_past grows_pass [OF assms] grows_record [OF assms] split: option.split)
qed (auto intro: grows)

lemma recheck_deadline_sticks:
  "recheck_months env cal cfg stale summary st = Inr (summary', st') \<Longrightarrow> su_deadline_hit summary \<Longrightarrow> su_deadline_hit summary'"
  by (induction stale arbitrary: summary st) (auto simp: ch_Inr split: if_splits option.splits)

text \<open>Unless the deadline stops it, the loop rechecks every month of its list and stamps it anew.\<close>

lemma recheck_months_all:
  assumes "frontier_laws env (ec_table (hc_base cfg)) view clock" and "\<And>m. m \<in> set stale \<Longrightarrow> month_bounds cal m \<noteq> None"
    and "recheck_months env cal cfg stale summary st = Inr (summary', st')" and "\<not> su_deadline_hit summary'"
    and "k \<in> set stale"
  shows "(\<exists>w t. Rechecked k w t \<in> set (sw_log st')) \<and> (\<exists>ms. view (sw_db st') k = Some ms \<and> clock (sw_db st) \<le> ms_swept_at ms)"
  using assms(2-5)
proof (induction stale arbitrary: summary st)
  case (Cons m stale)
  obtain w where w: "month_bounds cal m = Some w" using Cons.prems(1) [of m] by auto
  obtain st1 where past: "past_deadline (fr_instant env) (hc_deadline cfg) st = Inr (False, st1)"
    using Cons.prems(2,3) by (auto simp: ch_Inr split: if_splits)
  then have st1: "sw_db st1 = sw_db st" "sw_log st1 = sw_log st"
    by (auto simp: past_deadline_def ch_return_def split: option.splits)
  let ?ecfg = "(hc_base cfg)\<lparr>ec_time_window := Some w, ec_one_shot := False, ec_max_batches := 0\<rparr>"
  obtain stats st2 where pass: "sw_pass (fr_ch env) (Rechecked m w) ?ecfg st1 = Inr (stats, st2)"
    and after: "(if cp_candidates_before stats = 0
           then ch_bind (sw_record env (ec_table (hc_base cfg)) m Exhausted 0) (\<lambda>_.
             recheck_months env cal cfg stale (summary\<lparr>su_months_rechecked := su_months_rechecked summary + 1\<rparr>))
           else ch_bind (sw_record env (ec_table (hc_base cfg)) m Pending (cp_candidates_before stats)) (\<lambda>_.
             recheck_months env cal cfg stale (summary\<lparr>su_months_rechecked := su_months_rechecked summary + 1,
               su_months_reopened := su_months_reopened summary + 1\<rparr>))) st2 = Inr (summary', st')"
    using Cons.prems(2) past w by (auto simp: ch_bind_Inr)
  have "\<exists>state zeros u st3 summary''. sw_record env (ec_table (hc_base cfg)) m state zeros st2 = Inr (u, st3) \<and>
      recheck_months env cal cfg stale summary'' st3 = Inr (summary', st')"
  proof (cases "cp_candidates_before stats = 0")
    case True
    from after [unfolded if_P [OF True] ch_bind_Inr] show ?thesis by blast
  next
    case False
    from after [unfolded if_not_P [OF False] ch_bind_Inr] show ?thesis by blast
  qed
  then obtain state zeros u st3 summary'' where rec: "sw_record env (ec_table (hc_base cfg)) m state zeros st2 = Inr (u, st3)"
    and rest: "recheck_months env cal cfg stale summary'' st3 = Inr (summary', st')"
    by blast
  have "stamped view clock {m} (sw_db st2) (sw_db st3) \<and> set (sw_log st2) \<subseteq> set (sw_log st3)"
    using grows_record [OF assms(1), of m "{m}" state zeros] rec unfolding grows_def by blast
  note step = this sw_pass_Inr [OF assms(1) pass]
  have clock: "clock (sw_db st) \<le> clock (sw_db st3)" using step st1 by (auto simp: stamped_def)
  have "stamped view clock (set stale) (sw_db st3) (sw_db st') \<and> set (sw_log st3) \<subseteq> set (sw_log st')"
    using recheck_months_grows [OF assms(1) subset_refl, of stale cal summary''] rest unfolding grows_def by blast
  note tail = this
  show ?case
  proof (cases "k \<in> set stale")
    case True
    have "(\<exists>w t. Rechecked k w t \<in> set (sw_log st')) \<and> (\<exists>ms. view (sw_db st') k = Some ms \<and> clock (sw_db st3) \<le> ms_swept_at ms)"
      by (rule Cons.IH [OF _ rest Cons.prems(3) True]) (use Cons.prems(1) in auto)
    then show ?thesis using clock order_trans by blast
  next
    case False
    then have k: "k = m" using Cons.prems(4) by simp
    obtain t where t: "sw_log st2 = sw_log st1 @ [Rechecked m w t]" using step(4) by blast
    have "Rechecked k w t \<in> set (sw_log st2)" unfolding t k by simp
    then have log: "Rechecked k w t \<in> set (sw_log st')" using step(1) tail by blast
    obtain stamp where "view (sw_db st3) = (view (sw_db st2))(m \<mapsto> \<lparr>ms_state = state, ms_swept_at = stamp\<rparr>)" "clock (sw_db st2) \<le> stamp"
      using sw_record_Inr [OF assms(1) rec] by metis
    then have "view (sw_db st3) k = Some \<lparr>ms_state = state, ms_swept_at = stamp\<rparr>" "clock (sw_db st) \<le> stamp"
      using k step(3) st1 by auto
    then have "\<exists>ms. view (sw_db st') k = Some ms \<and> clock (sw_db st) \<le> ms_swept_at ms"
      using tail clock unfolding stamped_def by (metis month_state.select_convs(2) order_trans)
    then show ?thesis using log by blast
  qed
qed simp

section \<open>The oldest marks come first\<close>

lemma sorted_take:
  fixes xs :: "('a :: linorder) list"
  assumes "sorted xs" and "distinct xs" and "x \<in> set xs"
  shows "x \<in> set (take n xs) \<longleftrightarrow> card {y \<in> set xs. y < x} < n" and "x \<notin> set (take n xs) \<Longrightarrow> set (take n xs) \<subseteq> {y. y < x}"
proof -
  obtain i where i: "i < length xs" "xs ! i = x" using assms(3) by (auto simp: in_set_conv_nth)
  have strict: "sorted_wrt (<) xs" using assms(1,2) by (simp add: strict_sorted_iff)
  have less: "xs ! j < x \<longleftrightarrow> j < i" if "j < length xs" for j
    using that i sorted_wrt_nth_less [OF strict, of j i] sorted_wrt_nth_less [OF strict, of i j] by (cases j i rule: linorder_cases) auto
  have "{y \<in> set xs. y < x} = (!) xs ` {..<i}"
  proof (intro equalityI subsetI)
    fix y
    assume "y \<in> {y \<in> set xs. y < x}"
    then show "y \<in> (!) xs ` {..<i}" using less by (auto simp: in_set_conv_nth)
  next
    fix y
    assume "y \<in> (!) xs ` {..<i}"
    then show "y \<in> {y \<in> set xs. y < x}" using less i(1) by auto
  qed
  moreover have "inj_on ((!) xs) {..<i}" using assms(2) i(1) by (auto simp: inj_on_def nth_eq_iff_index_eq)
  ultimately have card: "card {y \<in> set xs. y < x} = i" by (simp add: card_image)
  have mem: "x \<in> set (take n xs) \<longleftrightarrow> i < n"
    using i assms(2) by (auto simp: in_set_conv_nth nth_eq_iff_index_eq)
  then show "x \<in> set (take n xs) \<longleftrightarrow> card {y \<in> set xs. y < x} < n" using card by simp
  show "set (take n xs) \<subseteq> {y. y < x}" if "x \<notin> set (take n xs)"
    using that mem less by (fastforce simp: in_set_conv_nth)
qed

lemma collect_states_distinct: "distinct (map fst (collect_states rows))"
proof -
  have "distinct (map fst states) \<Longrightarrow> distinct (map fst (fold (\<lambda>(month, state, swept_at) states.
     case parse_frontier_state state of
       None \<Rightarrow> states
     | Some s \<Rightarrow> AList.update month \<lparr>ms_state = s, ms_swept_at = swept_at\<rparr> states) rows states))" for states
    by (induction rows arbitrary: states) (auto simp: distinct_update split: option.split)
  then show ?thesis unfolding collect_states_def by simp
qed

text \<open>The marks old enough, in the order of the rechecks.\<close>

definition stale_marks :: "(u32, month_state) hmap \<Rightarrow> u32 \<Rightarrow> u32 \<Rightarrow> (u32 \<times> u32) list" where
  "stale_marks states now secs = sort (map (\<lambda>(m, s). (ms_swept_at s, m))
     (filter (\<lambda>(_, s). ms_state s = Exhausted \<and> secs \<le> sat_sub32 now (ms_swept_at s)) states))"

lemma stale_marks_eq: "stale_exhausted_months states now secs limit = map snd (take (unat limit) (stale_marks states now secs))"
  by (simp add: stale_exhausted_months_def stale_marks_def Let_def)

lemma stale_marks_set:
  assumes "distinct (map fst states)"
  shows "set (stale_marks states now secs) = {(stamp, m). map_of states m = Some \<lparr>ms_state = Exhausted, ms_swept_at = stamp\<rparr> \<and>
    secs \<le> sat_sub32 now stamp}"
proof -
  have "(m, s) \<in> set states \<longleftrightarrow> map_of states m = Some s" for m s
    using assms by (auto simp: map_of_eq_Some_iff)
  then show ?thesis
    unfolding stale_marks_def by (force simp: image_iff)
qed

lemma stale_marks_distinct:
  assumes "distinct (map fst states)"
  shows "distinct (stale_marks states now secs)" and "distinct (map snd (stale_marks states now secs))"
proof -
  have unique: "s = s'" if "(m, s) \<in> set states" "(m, s') \<in> set states" for m s s'
    using eq_key_imp_eq_value [OF assms that] .
  have "distinct states" using assms by (simp add: distinct_map)
  then show marks: "distinct (stale_marks states now secs)"
    unfolding stale_marks_def by (auto simp: distinct_map inj_on_def dest: unique)
  show "distinct (map snd (stale_marks states now secs))"
    unfolding distinct_map using marks by (auto simp: stale_marks_set [OF assms] inj_on_def)
qed

lemma sat_sub32_ge: "0 < secs \<Longrightarrow> secs \<le> sat_sub32 now s \<Longrightarrow> s < now"
  by (auto simp: sat_sub32_def word_less_nat_alt word_le_nat_alt unat_sub_if' split: if_splits)

lemma sat_sub32_mono: "s \<le> s' \<Longrightarrow> sat_sub32 now s' \<le> sat_sub32 now s"
  by (auto simp: sat_sub32_def word_less_nat_alt word_le_nat_alt unat_sub_if')

lemma sat_sub32_mono_now: "now \<le> now' \<Longrightarrow> sat_sub32 now s \<le> sat_sub32 now' s"
  by (auto simp: sat_sub32_def word_less_nat_alt word_le_nat_alt unat_sub_if')

section \<open>One run\<close>

text \<open>A run that returns and is not cut short by its deadline.\<close>

definition full_sweep :: "'d fr_env \<Rightarrow> cal_ops \<Rightarrow> hs_config \<Rightarrow> ('d, sweep_event) sw_state \<Rightarrow> ('d, sweep_event) sw_state \<Rightarrow> bool" where
  "full_sweep env cal cfg st st' \<longleftrightarrow> (\<exists>summary. run_historical_sweep env cal cfg st = Some (Inr (summary, st')) \<and> \<not> su_deadline_hit summary)"

definition exhausted_at :: "('d \<Rightarrow> u32 \<Rightarrow> month_state option) \<Rightarrow> 'd \<Rightarrow> u32 \<Rightarrow> u32 \<Rightarrow> bool" where
  "exhausted_at view d m s \<longleftrightarrow> view d m = Some \<lparr>ms_state = Exhausted, ms_swept_at = s\<rparr>"

text \<open>Only months with a window are ever marked, and the table always holds candles.\<close>

definition bounded_marks :: "cal_ops \<Rightarrow> ('d \<Rightarrow> u32 \<Rightarrow> month_state option) \<Rightarrow> 'd \<Rightarrow> bool" where
  "bounded_marks cal view d \<longleftrightarrow> (\<forall>k s. exhausted_at view d k s \<longrightarrow> month_bounds cal k \<noteq> None)"

definition has_candles :: "'d fr_env \<Rightarrow> string \<Rightarrow> bool" where
  "has_candles env tbl \<longleftrightarrow> (\<forall>d row. fr_span env tbl d = Inr row \<longrightarrow> span_of row \<noteq> None)"

lemma full_sweep_steps:
  assumes "frontier_laws env (ec_table (hc_base cfg)) view clock" and "full_sweep env cal cfg st st'"
    and "has_candles env (ec_table (hc_base cfg))" and "bounded_marks cal view (sw_db st)"
  obtains states A d1 where "distinct (map fst states)" "map_of states = view (sw_db st)"
    "\<forall>k s. exhausted_at view (sw_db st) k s \<longrightarrow> k \<notin> A" "\<forall>k \<in> A. month_bounds cal k \<noteq> None" "stamped view clock A (sw_db st) d1" "set (sw_log st) \<subseteq> set (sw_log st')"
    "stamped view clock (set (stale_exhausted_months states (clock d1) (hc_recheck_after_secs cfg) (hc_max_rechecks cfg))) d1 (sw_db st')"
    "\<forall>k \<in> set (stale_exhausted_months states (clock d1) (hc_recheck_after_secs cfg) (hc_max_rechecks cfg)).
      (\<exists>w t. Rechecked k w t \<in> set (sw_log st')) \<and> (\<exists>ms. view (sw_db st') k = Some ms \<and> clock d1 \<le> ms_swept_at ms)"
proof -
  let ?tbl = "ec_table (hc_base cfg)"
  obtain summary where run: "run_historical_sweep env cal cfg st = Some (Inr (summary, st'))" "\<not> su_deadline_hit summary"
    using assms(2) unfolding full_sweep_def by blast
  obtain found st0 where found: "read_frontier env cfg st = Inr (found, st0)"
    using run(1) by (cases "read_frontier env cfg st") (auto simp: run_historical_sweep_def)
  have "st0 = st \<and> (\<exists>bounds rows. found = Some (bounds, collect_states rows) \<and> fr_rows env ?tbl (sw_db st) = Inr rows)"
  proof -
    obtain row st1 where row: "sw_read (fr_span env ?tbl) st = Inr (row, st1)" "(case span_of row of None \<Rightarrow> ch_return None
       | Some bounds \<Rightarrow> ch_bind (sw_read (fr_rows env ?tbl)) (\<lambda>rows. ch_return (Some (bounds, collect_states rows)))) st1 = Inr (found, st0)"
      using found unfolding read_frontier_def ch_bind_Inr by blast
    then have "fr_span env ?tbl (sw_db st) = Inr row" "st1 = st"
      by (auto simp: sw_read_def ch_return_def ch_fail_def split: sum.splits)
    moreover then obtain bounds where "span_of row = Some bounds" using assms(3) unfolding has_candles_def by blast
    ultimately show ?thesis
      using row(2) by (auto simp: ch_bind_Inr sw_read_def ch_return_def ch_fail_def split: sum.splits)
  qed
  then obtain bounds rows where read: "st0 = st" "found = Some (bounds, collect_states rows)" "fr_rows env ?tbl (sw_db st) = Inr rows"
    by blast
  let ?states = "collect_states rows"
  obtain queue where queue: "months_to_sweep bounds (hc_live_start_month cfg) ?states = Some queue"
      "sweep_queue env cal cfg ?states queue st = Inr (summary, st')"
    using run(1) found read by (auto simp: run_historical_sweep_def)
  obtain summary1 st1 where work: "work_months env cal cfg (take (unat (hc_max_months cfg)) queue)
       (empty_sweep\<lparr>su_months_pending := of_nat (length queue), su_frontier_month := (case queue of [] \<Rightarrow> None | m # _ \<Rightarrow> Some m)\<rparr>) st = Inr (summary1, st1)"
    and after: "ch_bind (sw_read (fr_now env)) (\<lambda>now. recheck_months env cal cfg
      (stale_exhausted_months ?states now (hc_recheck_after_secs cfg) (hc_max_rechecks cfg)) summary1) st1 = Inr (summary, st')"
    using queue(2) unfolding sweep_queue_def ch_bind_Inr [of "work_months env cal cfg q s" for q s] by blast
  have states: "map_of ?states = view (sw_db st)" and now: "fr_now env d = Inr n \<Longrightarrow> n = clock d" for d n
    using assms(1) read(3) unfolding frontier_laws_def by blast+
  let ?stale = "stale_exhausted_months ?states (clock (sw_db st1)) (hc_recheck_after_secs cfg) (hc_max_rechecks cfg)"
  have recheck: "recheck_months env cal cfg ?stale summary1 st1 = Inr (summary, st')"
    using after now unfolding ch_bind_Inr sw_read_def ch_return_def ch_fail_def by (auto split: sum.splits)
  have open_months: "k \<notin> set queue" if "exhausted_at view (sw_db st) k s" for k s
    using walk_months_open [OF queue(1) [unfolded months_to_sweep_def]] that states by (auto simp: exhausted_at_def)
  let ?A = "{k \<in> set queue. month_bounds cal k \<noteq> None}"
  have grown: "stamped view clock ?A (sw_db st) (sw_db st1) \<and> set (sw_log st) \<subseteq> set (sw_log st1)"
  proof -
    have "\<forall>m \<in> set (take (unat (hc_max_months cfg)) queue). month_bounds cal m \<noteq> None \<longrightarrow> m \<in> ?A" by (auto dest: in_set_takeD)
    from work_months_grows [OF assms(1) this] show ?thesis using work unfolding grows_def by blast
  qed
  have grown': "stamped view clock (set ?stale) (sw_db st1) (sw_db st') \<and> set (sw_log st1) \<subseteq> set (sw_log st')"
    using recheck_months_grows [OF assms(1) subset_refl] recheck unfolding grows_def by blast
  have bounds: "month_bounds cal k \<noteq> None" if "k \<in> set ?stale" for k
  proof -
    have "k \<in> snd ` set (stale_marks ?states (clock (sw_db st1)) (hc_recheck_after_secs cfg))"
      using that by (auto simp: stale_marks_eq dest: in_set_takeD)
    then obtain s where "exhausted_at view (sw_db st) k s"
      by (auto simp: stale_marks_set [OF collect_states_distinct] states exhausted_at_def)
    then show ?thesis using assms(4) unfolding bounded_marks_def by blast
  qed
  have all: "\<forall>k \<in> set ?stale. (\<exists>w t. Rechecked k w t \<in> set (sw_log st')) \<and>
      (\<exists>ms. view (sw_db st') k = Some ms \<and> clock (sw_db st1) \<le> ms_swept_at ms)"
    using recheck_months_all [OF assms(1) bounds recheck run(2)] by blast
  have apart: "\<forall>k s. exhausted_at view (sw_db st) k s \<longrightarrow> k \<notin> ?A" "\<forall>k \<in> ?A. month_bounds cal k \<noteq> None" using open_months by blast+
  have logs: "set (sw_log st) \<subseteq> set (sw_log st')" using grown grown' by blast
  show ?thesis
    by (rule that [OF collect_states_distinct states apart(1) apart(2) conjunct1 [OF grown] logs conjunct1 [OF grown'] all])
qed

text \<open>A full run rechecks the month, or rechecks as many marks ahead of it as its limit allows.\<close>

lemma full_sweep_rotates:
  assumes "frontier_laws env (ec_table (hc_base cfg)) view clock" and "full_sweep env cal cfg st st'"
    and "has_candles env (ec_table (hc_base cfg))" and "bounded_marks cal view (sw_db st)"
    and "exhausted_at view (sw_db st) m s" and "0 < hc_recheck_after_secs cfg" and "hc_recheck_after_secs cfg \<le> sat_sub32 (clock (sw_db st)) s"
  shows "(\<exists>w t. Rechecked m w t \<in> set (sw_log st')) \<or>
    exhausted_at view (sw_db st') m s \<and> card (ahead (view (sw_db st')) s m) + unat (hc_max_rechecks cfg) \<le> card (ahead (view (sw_db st)) s m)"
proof -
  let ?secs = "hc_recheck_after_secs cfg" and ?n = "unat (hc_max_rechecks cfg)"
  obtain states A d1 where run: "distinct (map fst states)" "map_of states = view (sw_db st)"
    "\<forall>k s. exhausted_at view (sw_db st) k s \<longrightarrow> k \<notin> A" "\<forall>k \<in> A. month_bounds cal k \<noteq> None" "stamped view clock A (sw_db st) d1" "set (sw_log st) \<subseteq> set (sw_log st')"
    "stamped view clock (set (stale_exhausted_months states (clock d1) ?secs (hc_max_rechecks cfg))) d1 (sw_db st')"
    "\<forall>k \<in> set (stale_exhausted_months states (clock d1) ?secs (hc_max_rechecks cfg)).
      (\<exists>w t. Rechecked k w t \<in> set (sw_log st')) \<and> (\<exists>ms. view (sw_db st') k = Some ms \<and> clock d1 \<le> ms_swept_at ms)"
    by (rule full_sweep_steps [OF assms(1-4)])
  let ?marks = "stale_marks states (clock d1) ?secs"
  have stale: "set (stale_exhausted_months states (clock d1) ?secs (hc_max_rechecks cfg)) = snd ` set (take ?n ?marks)"
    by (simp add: stale_marks_eq)
  have clock: "clock (sw_db st) \<le> clock d1" using run(5) by (simp add: stamped_def)
  have old: "s < clock (sw_db st)" by (rule sat_sub32_ge [OF assms(6,7)])
  have aged: "?secs \<le> sat_sub32 (clock d1) stamp" if "stamp \<le> s" for stamp
    using assms(7) sat_sub32_mono [OF that] sat_sub32_mono_now [OF clock, of stamp] sat_sub32_mono_now [OF clock, of s] by (meson order_trans)
  have mark: "(s, m) \<in> set ?marks"
    using assms(5) aged [of s] by (simp add: stale_marks_set [OF run(1)] run(2) exhausted_at_def)
  have before: "{y \<in> set ?marks. y < (s, m)} = (\<lambda>k. (ms_swept_at (the (view (sw_db st) k)), k)) ` ahead (view (sw_db st)) s m"
    using aged by (fastforce simp: stale_marks_set [OF run(1)] run(2) ahead_def less_prod_def image_iff)
  have card: "card {y \<in> set ?marks. y < (s, m)} = card (ahead (view (sw_db st)) s m)"
    unfolding before by (rule card_image) (simp add: inj_on_def)
  have sorted: "sorted ?marks" by (simp add: stale_marks_def)
  show ?thesis
  proof (cases "(s, m) \<in> set (take ?n ?marks)")
    case True
    then have "m \<in> snd ` set (take ?n ?marks)" by force
    then show ?thesis using run(8) stale by blast
  next
    case False
    let ?taken = "snd ` set (take ?n ?marks)"
    have taken: "(stamp, k) < (s, m) \<and> exhausted_at view (sw_db st) k stamp" if "(stamp, k) \<in> set (take ?n ?marks)" for stamp k
      using that sorted_take(2) [OF sorted stale_marks_distinct(1) [OF run(1)] mark False] set_take_subset [of ?n ?marks]
      by (auto simp: stale_marks_set [OF run(1)] run(2) exhausted_at_def)
    have not_m: "m \<notin> ?taken"
      using taken assms(5) by (fastforce simp: exhausted_at_def)
    have kept: "view (sw_db st') k = view (sw_db st) k" if "k \<notin> A" "k \<notin> ?taken" for k
      using run(5,7) that stale unfolding stamped_def by metis
    have fresh: "view (sw_db st') k = view (sw_db st) k \<or> (\<exists>ms. view (sw_db st') k = Some ms \<and> clock (sw_db st) \<le> ms_swept_at ms)" for k
      using run(5,7) clock unfolding stamped_def by (metis order_trans)
    have sub: "ahead (view (sw_db st')) s m \<subseteq> ahead (view (sw_db st)) s m - ?taken"
    proof
      fix k
      assume "k \<in> ahead (view (sw_db st')) s m"
      then obtain stamp where k: "view (sw_db st') k = Some \<lparr>ms_state = Exhausted, ms_swept_at = stamp\<rparr>" "(stamp, k) < (s, m)"
        by (auto simp: ahead_def)
      then have "stamp < clock (sw_db st)" using old by (auto simp: less_prod_def)
      then have "view (sw_db st') k = view (sw_db st) k" using fresh [of k] k(1) by auto
      moreover have "k \<notin> ?taken"
        using run(8) [THEN bspec, of k] k(1) \<open>stamp < clock (sw_db st)\<close> clock unfolding stale by fastforce
      ultimately show "k \<in> ahead (view (sw_db st)) s m - ?taken" using k by (auto simp: ahead_def)
    qed
    have "?n \<le> length ?marks" using False mark by (metis nat_le_linear take_all)
    moreover have "distinct (map snd (take ?n ?marks))"
      unfolding take_map [symmetric] by (rule distinct_take [OF stale_marks_distinct(2) [OF run(1)]])
    ultimately have "card ?taken = ?n"
      using distinct_card [of "map snd (take ?n ?marks)"] by simp
    moreover have "?taken \<subseteq> ahead (view (sw_db st)) s m" using taken by (force simp: ahead_def exhausted_at_def)
    ultimately have "card (ahead (view (sw_db st)) s m - ?taken) + ?n = card (ahead (view (sw_db st)) s m)"
      by (metis card_Diff_subset card_mono finite le_add_diff_inverse2)
    moreover have "card (ahead (view (sw_db st')) s m) \<le> card (ahead (view (sw_db st)) s m - ?taken)"
      by (rule card_mono [OF _ sub]) simp
    moreover have "exhausted_at view (sw_db st') m s"
      using kept [OF run(3) [rule_format, OF assms(5)] not_m] assms(5) by (simp add: exhausted_at_def)
    ultimately show ?thesis by linarith
  qed
qed

section \<open>Many runs\<close>

text \<open>Between two runs the server's clock advances and others write candles, not the frontier.\<close>

definition waits :: "('d \<Rightarrow> u32 \<Rightarrow> month_state option) \<Rightarrow> ('d \<Rightarrow> u32) \<Rightarrow> ('d, sweep_event) sw_state \<Rightarrow> ('d, sweep_event) sw_state \<Rightarrow> bool" where
  "waits view clock st st' \<longleftrightarrow> view (sw_db st') = view (sw_db st) \<and> clock (sw_db st) \<le> clock (sw_db st') \<and> sw_log st' = sw_log st"

fun sweeps :: "'d fr_env \<Rightarrow> cal_ops \<Rightarrow> ('d \<Rightarrow> u32 \<Rightarrow> month_state option) \<Rightarrow> ('d \<Rightarrow> u32) \<Rightarrow> hs_config list \<Rightarrow> ('d, sweep_event) sw_state \<Rightarrow> ('d, sweep_event) sw_state \<Rightarrow> bool" where
  "sweeps env cal view clock [] st st' \<longleftrightarrow> st' = st"
| "sweeps env cal view clock (cfg # cfgs) st st' \<longleftrightarrow>
     (\<exists>st1 st2. full_sweep env cal cfg st st1 \<and> waits view clock st1 st2 \<and> sweeps env cal view clock cfgs st2 st')"

lemma full_sweep_keeps:
  assumes "frontier_laws env (ec_table (hc_base cfg)) view clock" and "full_sweep env cal cfg st st'"
    and "has_candles env (ec_table (hc_base cfg))" and "bounded_marks cal view (sw_db st)"
  shows "set (sw_log st) \<subseteq> set (sw_log st')" and "clock (sw_db st) \<le> clock (sw_db st')" and "bounded_marks cal view (sw_db st')"
proof -
  have bounds: "month_bounds cal k \<noteq> None" if "exhausted_at view (sw_db st) k s" for k s
    using assms(4) that unfolding bounded_marks_def by blast
  obtain states A d1 where run: "distinct (map fst states)" "map_of states = view (sw_db st)"
    "\<forall>k s. exhausted_at view (sw_db st) k s \<longrightarrow> k \<notin> A" "\<forall>k \<in> A. month_bounds cal k \<noteq> None" "stamped view clock A (sw_db st) d1"
    "set (sw_log st) \<subseteq> set (sw_log st')"
    "stamped view clock (set (stale_exhausted_months states (clock d1) (hc_recheck_after_secs cfg) (hc_max_rechecks cfg))) d1 (sw_db st')"
    "\<forall>k \<in> set (stale_exhausted_months states (clock d1) (hc_recheck_after_secs cfg) (hc_max_rechecks cfg)).
      (\<exists>w t. Rechecked k w t \<in> set (sw_log st')) \<and> (\<exists>ms. view (sw_db st') k = Some ms \<and> clock d1 \<le> ms_swept_at ms)"
    by (rule full_sweep_steps [OF assms(1-4)])
  show "set (sw_log st) \<subseteq> set (sw_log st')" by (rule run(6))
  show "clock (sw_db st) \<le> clock (sw_db st')" using run(5,7) unfolding stamped_def by (meson order_trans)
  have stale: "\<exists>s. exhausted_at view (sw_db st) k s" if "k \<in> set (stale_exhausted_months states (clock d1) (hc_recheck_after_secs cfg) (hc_max_rechecks cfg))" for k
    using that stale_marks_set [OF run(1), of "clock d1" "hc_recheck_after_secs cfg"]
    by (auto simp: stale_marks_eq run(2) exhausted_at_def dest!: in_set_takeD)
  show "bounded_marks cal view (sw_db st')"
    unfolding bounded_marks_def
  proof (intro allI impI)
    fix k s
    assume "exhausted_at view (sw_db st') k s"
    then have "exhausted_at view (sw_db st) k s \<or> k \<in> A \<or> (\<exists>s. exhausted_at view (sw_db st) k s)"
      using run(5,7) stale [of k] unfolding stamped_def exhausted_at_def by metis
    then show "month_bounds cal k \<noteq> None" using run(4) bounds by blast
  qed
qed

lemma sweeps_log:
  assumes "frontier_laws env tbl view clock" and "\<And>cfg. cfg \<in> set cfgs \<Longrightarrow> ec_table (hc_base cfg) = tbl"
    and "has_candles env tbl"
    and "sweeps env cal view clock cfgs st st'" and "bounded_marks cal view (sw_db st)"
  shows "set (sw_log st) \<subseteq> set (sw_log st')"
  using assms(2,4,5)
proof (induction cfgs arbitrary: st)
  case (Cons cfg cfgs)
  obtain st1 st2 where steps: "full_sweep env cal cfg st st1" "waits view clock st1 st2" "sweeps env cal view clock cfgs st2 st'"
    using Cons.prems(2) by auto
  have tbl: "ec_table (hc_base cfg) = tbl" using Cons.prems(1) by simp
  note keeps = full_sweep_keeps [OF assms(1) [folded tbl] steps(1) assms(3) [folded tbl] Cons.prems(3)]
  have "set (sw_log st2) \<subseteq> set (sw_log st')"
    by (rule Cons.IH [OF _ steps(3)]) (use Cons.prems(1) keeps(3) steps(2) in \<open>auto simp: waits_def bounded_marks_def exhausted_at_def\<close>)
  then show ?case using keeps(1) steps(2) by (auto simp: waits_def)
qed simp

text \<open>
  C19: No mark of the frontier is final: an exhausted month whose mark is old enough is rechecked after a number
  of undisturbed sweeps that grows only with the number of older marks divided by the recheck limit, whatever is
  marked or reopened meanwhile.
\<close>

theorem every_mark_is_rechecked:
  assumes "frontier_laws env tbl view clock" and "sweeps env cal view clock cfgs st st'"
    and "\<And>cfg. cfg \<in> set cfgs \<Longrightarrow> ec_table (hc_base cfg) = tbl \<and> hc_recheck_after_secs cfg = secs \<and> hc_max_rechecks cfg = limit"
    and "has_candles env tbl" and "bounded_marks cal view (sw_db st)"
    and "exhausted_at view (sw_db st) m s" and "0 < secs" and "secs \<le> sat_sub32 (clock (sw_db st)) s"
    and "card (ahead (view (sw_db st)) s m) < length cfgs * unat limit"
  shows "\<exists>w t. Rechecked m w t \<in> set (sw_log st')"
  using assms(2,3,5,6,8,9)
proof (induction cfgs arbitrary: st)
  case (Cons cfg cfgs)
  obtain st1 st2 where steps: "full_sweep env cal cfg st st1" "waits view clock st1 st2" "sweeps env cal view clock cfgs st2 st'"
    using Cons.prems(1) by auto
  have cfg: "ec_table (hc_base cfg) = tbl" "hc_recheck_after_secs cfg = secs" "hc_max_rechecks cfg = limit"
    using Cons.prems(2) by simp_all
  note keeps = full_sweep_keeps [OF assms(1) [folded cfg(1)] steps(1) assms(4) [folded cfg(1)] Cons.prems(3)]
  have marks: "bounded_marks cal view (sw_db st2)" using keeps(3) steps(2) by (auto simp: waits_def bounded_marks_def exhausted_at_def)
  consider (now) w t where "Rechecked m w t \<in> set (sw_log st1)"
    | (later) "exhausted_at view (sw_db st1) m s" "card (ahead (view (sw_db st1)) s m) + unat limit \<le> card (ahead (view (sw_db st)) s m)"
    using full_sweep_rotates [OF assms(1) [folded cfg(1)] steps(1) assms(4) [folded cfg(1)] Cons.prems(3,4)]
      assms(7) Cons.prems(5) unfolding cfg by blast
  then show ?case
  proof cases
    case now
    then have "Rechecked m w t \<in> set (sw_log st2)" using steps(2) by (simp add: waits_def)
    then show ?thesis
      using sweeps_log [OF assms(1) _ assms(4) steps(3) marks] Cons.prems(2) by fastforce
  next
    case later
    have "secs \<le> sat_sub32 (clock (sw_db st2)) s"
      using Cons.prems(5) sat_sub32_mono_now [of "clock (sw_db st)" "clock (sw_db st2)" s] keeps(2) steps(2)
      by (auto simp: waits_def intro: order_trans)
    moreover have "exhausted_at view (sw_db st2) m s" "card (ahead (view (sw_db st2)) s m) < length cfgs * unat limit"
      using later steps(2) Cons.prems(6) by (auto simp: waits_def exhausted_at_def)
    ultimately show ?thesis
      by (intro Cons.IH [OF steps(3) _ marks]) (use Cons.prems(2) in auto)
  qed
qed simp

end
