(* ===== verification/Enrich_Sample.thy ===== *)
theory Enrich_Sample
  imports Enrich_Reset
begin

text \<open>
  A small database for the witnesses: a state is the number of candidates, the oracle prices all but four of them,
  the external tier all but three, the peg all but two.
\<close>

definition sample_exec :: "enrich_config \<Rightarrow> u32 \<Rightarrow> stmt \<Rightarrow> nat \<Rightarrow> (string, nat) result" where
  "sample_exec cfg wm s d = Inr (case s of
     OracleBatch \<Rightarrow> min d 4 | ExternalBatch _ \<Rightarrow> min d 3 | PegBatch _ \<Rightarrow> min d 2 | PivotBatch _ _ \<Rightarrow> d | ResetBatch \<Rightarrow> d + 1)"

definition sample_env :: "nat ch_env" where
  "sample_env = \<lparr>ch_exec = sample_exec, ch_watermark = (\<lambda>_ _. Inr 1700000000), ch_count = (\<lambda>_ _ d. Inr (of_nat (min d 100))),
     ch_volume_zero = (\<lambda>_ _ _. Inr (0, 0)), ch_assets = (\<lambda>_. Inr [(7, ''XLM'', []), (8, ''USDC'', usdc_issuer)]),
     ch_reset_pending = (\<lambda>_ _ _ d. Inr (of_nat (8 - d))), ch_oracle_rows = (\<lambda>_ _ _ _ _. Inr 0), ch_external_rates = (\<lambda>_. Inr 24),
     ch_hourly_rates = (\<lambda>_. Inr 24), ch_pre_epoch_rows = (\<lambda>_ _ _. Inr 0), ch_first_reference = (\<lambda>_ _ _ _. Inr (Some 1600000000))\<rparr>"

definition sample_one_shot :: enrich_config where
  "sample_one_shot = enrich_config_default\<lparr>ec_one_shot := True\<rparr>"

definition sample_reset :: enrich_config where
  "sample_reset = sample_one_shot\<lparr>ec_usd_reset := Some \<lparr>ur_quote_asset_id = 8, ur_not_before = 1650000000, ur_not_after = None,
     ur_require_external_rate = True, ur_require_pivot_usdc_rate = False\<rparr>\<rparr>"

lemma tier_loop_step:
  "0 < n \<Longrightarrow> tier_loop env cfg wm step n ts =
     (if ts_remaining ts = 0 then ch_return (ts\<lparr>ts_drained := True\<rparr>)
      else ch_bind step (\<lambda>_. ch_bind (count_candidates env cfg wm) (\<lambda>after.
        if ts_remaining ts \<le> after
        then ch_return (ts\<lparr>ts_remaining := after, ts_batches := ts_batches ts + 1, ts_drained := True\<rparr>)
        else tier_loop env cfg wm step (n - 1) (ts\<lparr>ts_remaining := after, ts_batches := ts_batches ts + 1\<rparr>))))"
  by (cases n) (simp_all cong: if_cong)

lemma reset_loop_step:
  "0 < n \<Longrightarrow> reset_loop env cfg spec wm n pending =
     (if pending = 0 then ch_return pending
      else ch_bind (ch_run env cfg wm ResetBatch) (\<lambda>_. ch_bind (ch_read (ch_reset_pending env cfg spec wm)) (\<lambda>after.
        if pending \<le> after then ch_return after else reset_loop env cfg spec wm (n - 1) after)))"
  by (cases n) (simp_all cong: if_cong)

lemmas ch_prims = ch_bind_def ch_read_def ch_return_def ch_lift_def ch_run_def rbind_def ch_when_def

lemma sample_refs: "reference_ids_of [(7, ''XLM'', []), (8, ''USDC'', usdc_issuer)] = \<lparr>rf_xlm = Some 7, rf_usdc = Some 8, rf_usdt = None\<rparr>"
  by (simp add: reference_ids_of_def note_reference_def)

lemma sample_has_any: "has_any \<lparr>rf_xlm = Some 7, rf_usdc = Some 8, rf_usdt = None\<rparr>"
  by (simp add: has_any_def stable_ids_def flatten_def)

lemma sample_plan: "plan_peg_pivot_step \<lparr>rf_xlm = Some 7, rf_usdc = Some 8, rf_usdt = None\<rparr> = [PegBatch [8], PivotBatch 7 8]"
  by (simp add: plan_peg_pivot_step_def stable_ids_def pivot_ids_def flatten_def)

lemmas sample_pass_simps = run_enrichment_def run_through_def count_candidates_def run_oracle_tier_def run_tier_def
  run_reference_tiers_def resolve_reference_ids_def run_external_tier_def run_peg_pivot_tier_def enrich_peg_pivot_step_def
  ch_prims tier_loop_step reset_loop_step sample_env_def sample_exec_def sample_refs sample_has_any sample_plan

lemma sample_pass:
  "trace_of (run_enrichment sample_env sample_one_shot \<lparr>cs_db = 5, cs_trace = []\<rparr>) =
   [Counted 5, Ran OracleBatch, Counted 4, Ran OracleBatch, Counted 4, Ran (ExternalBatch 8), Counted 3, Ran (ExternalBatch 8), Counted 3] @
   Ran (PegBatch [8]) # [Ran (PivotBatch 7 8), Counted 2, Ran (PegBatch [8]), Ran (PivotBatch 7 8), Counted 2]"
  by (simp add: sample_pass_simps sample_one_shot_def enrich_config_default_def effective_max_batches_def
      unsigned_minus_1_eq_mask mask_eq_exp_minus_1 trace_of_def)

theorem reference_tiers_wait_for_the_oracle_witness:
  "\<exists>before n m after.
     [Counted 5, Ran OracleBatch, Counted 4, Ran OracleBatch, Counted 4, Ran (ExternalBatch 8), Counted 3, Ran (ExternalBatch 8), Counted 3] =
     before @ [Counted n, Ran OracleBatch, Counted m] @ after \<and> n \<le> m \<and> Ran OracleBatch \<notin> set after \<and>
     Ran OracleBatch \<notin> set [Ran (PivotBatch 7 8), Counted 2, Ran (PegBatch [8]), Ran (PivotBatch 7 8), Counted 2]"
  by (rule reference_tiers_wait_for_the_oracle [OF sample_pass]) simp_all

lemma sample_pass_returns:
  "\<exists>stats st. run_enrichment sample_env sample_one_shot \<lparr>cs_db = 5, cs_trace = []\<rparr> = Inr (stats, st) \<and> cp_candidates_after stats = 2"
  by (simp add: sample_pass_simps sample_one_shot_def enrich_config_default_def effective_max_batches_def
      unsigned_minus_1_eq_mask mask_eq_exp_minus_1 pass_stats_def)

theorem one_shot_pass_ends_at_a_fixed_point_witness:
  "\<exists>stats st. run_enrichment sample_env sample_one_shot \<lparr>cs_db = 5, cs_trace = []\<rparr> = Inr (stats, st) \<and> cp_candidates_after stats = 2 \<and>
    (\<exists>before rows n. cs_trace st = before @ Counted n # map Ran (plan_peg_pivot_step (reference_ids_of rows)) @ [Counted 2] \<and> n \<le> 2)"
proof -
  obtain stats st where st: "run_enrichment sample_env sample_one_shot \<lparr>cs_db = 5, cs_trace = []\<rparr> = Inr (stats, st)"
      "cp_candidates_after stats = 2"
    using sample_pass_returns by blast
  have count: "unat n < 2 ^ 32 - 2" if "ch_count sample_env sample_one_shot wm d = Inr n" for wm d n
    using that by (auto simp: sample_env_def unat_of_nat)
  have refs: "has_any (reference_ids_of rows)" if "ch_assets sample_env d = Inr rows" for d rows
    using that sample_has_any by (auto simp: sample_env_def sample_refs)
  have shot: "ec_one_shot sample_one_shot" by (simp add: sample_one_shot_def)
  show ?thesis using one_shot_pass_ends_at_a_fixed_point [OF st(1) shot count refs] st by auto
qed

lemma sample_reset_runs: "Ran ResetBatch \<in> set (trace_of (run_enrichment sample_env sample_reset \<lparr>cs_db = 5, cs_trace = []\<rparr>))"
  by (simp add: sample_pass_simps sample_reset_def sample_one_shot_def enrich_config_default_def effective_max_batches_def
      unsigned_minus_1_eq_mask mask_eq_exp_minus_1 trace_of_def reset_step_def assert_reset_is_admissible_def validate_reset_def
      assert_reset_target_is_priceable_def stable_ids_def pivot_ids_def flatten_def check_plain_mode_leg_def
      assert_reset_not_shadowed_by_oracle_def assert_external_rate_leg_is_usdc_def assert_external_rates_are_loaded_def
      assert_hourly_rates_are_loaded_def bucket_width_s_def assert_no_pre_epoch_oracle_rows_def assert_reset_epoch_is_covered_def)

theorem reset_only_what_prices_again_witness:
  "\<exists>spec rows. ec_one_shot sample_reset \<and> ec_usd_reset sample_reset = Some spec \<and> ch_assets sample_env 5 = Inr rows \<and>
    admitted sample_env sample_reset spec (reference_ids_of rows) 5"
  by (rule reset_only_what_prices_again [OF sample_reset_runs])

end
