(* ===== verification/Frontier_Sample.thy ===== *)
theory Frontier_Sample
  imports Frontier_Rotation Enrich_Sample
begin

text \<open>
  Concrete sweeps: a database of frontier rows and a server clock, whose candles hold three candidates that no tier
  can price.
\<close>

section \<open>A database without references\<close>

type_synonym frontier_db = "(u32 \<times> string \<times> u32) list \<times> u32"

definition bare_env :: "frontier_db ch_env" where
  "bare_env = \<lparr>ch_exec = (\<lambda>_ _ _ d. Inr d), ch_watermark = (\<lambda>_ _. Inr 1700000000), ch_count = (\<lambda>_ _ _. Inr 3),
     ch_volume_zero = (\<lambda>_ _ _. Inr (3, 0)), ch_assets = (\<lambda>_. Inr []), ch_reset_pending = (\<lambda>_ _ _ _. Inr 0),
     ch_oracle_rows = (\<lambda>_ _ _ _ _. Inr 0), ch_external_rates = (\<lambda>_. Inr 0), ch_hourly_rates = (\<lambda>_. Inr 0),
     ch_pre_epoch_rows = (\<lambda>_ _ _. Inr 0), ch_first_reference = (\<lambda>_ _ _ _. Inr None)\<rparr>"

text \<open>The table spans August to November 2023; a recorded row carries the clock, which the test advances by hand.\<close>

definition sample_frontier :: "frontier_db fr_env" where
  "sample_frontier = \<lparr>fr_ch = bare_env, fr_span = (\<lambda>_ _. Inr (202308, 202311)), fr_rows = (\<lambda>_ d. Inr (fst d)),
     fr_now = (\<lambda>d. Inr (snd d)), fr_record = (\<lambda>_ m s _ d. Inr (fst d @ [(m, s, snd d)], snd d)), fr_instant = (\<lambda>n. n)\<rparr>"

definition sample_view :: "frontier_db \<Rightarrow> u32 \<Rightarrow> month_state option" where
  "sample_view d = map_of (collect_states (fst d))"

lemma parse_frontier_str: "parse_frontier_state (frontier_str s) = Some s"
  by (cases s) (simp_all add: parse_frontier_state_def frontier_str_def)

lemma sample_frontier_laws: "frontier_laws sample_frontier tbl sample_view snd"
  by (auto simp: frontier_laws_def sample_frontier_def bare_env_def sample_view_def collect_states_def parse_frontier_str update_conv')

definition sample_sweep_config :: hs_config where
  "sample_sweep_config = \<lparr>hc_base = enrich_config_default, hc_live_start_month = 202310, hc_max_months = 1, hc_deadline = None,
     hc_recheck_after_secs = 604800, hc_max_rechecks = 1\<rparr>"

section \<open>Evaluation\<close>

lemma gregorian_start: "month_start_unix gregorian idx =
    (if idx div 12 < - (2 ^ 31) \<or> 2 ^ 31 \<le> idx div 12 then None
     else if 0 \<le> month_seconds idx \<and> month_seconds idx < 2 ^ 32 then Some (word_of_int (month_seconds idx)) else None)"
  by (simp add: month_start_eq gregorian_month)

lemma sample_months:
  "month_bounds gregorian 202308 = Some (1690848000, 1693526400)" "month_bounds gregorian 202309 = Some (1693526400, 1696118400)"
  by (simp_all add: month_bounds_def gregorian_start Let_def month_seconds_def month_days_def leap_days_def)

lemma sample_steps: "add_months 202308 1 = Some 202309" "add_months 202309 1 = Some 202310"
  by (simp_all add: add_months_def Let_def)

lemmas sample_sweep_simps = run_historical_sweep_def read_frontier_def sweep_queue_def months_to_sweep_def walk_months.simps
  stale_exhausted_months_def sat_sub32_def sw_read_def sw_record_def sw_pass_def past_deadline_def outcome_of_def collect_states_def
  parse_frontier_state_def span_of_def empty_sweep_def sample_frontier_def sample_sweep_config_def
  sample_months sample_steps Let_def

lemmas bare_simps = run_enrichment_def run_through_def count_candidates_def run_oracle_tier_def run_tier_def run_reference_tiers_def
  resolve_reference_ids_def ch_prims tier_loop_step bare_env_def reference_ids_of_def has_any_def stable_ids_def can_pivot_def flatten_def
  pass_stats_def sat_sub_def enrich_config_default_def effective_max_batches_def

lemma bare_pass:
  "run_enrichment bare_env (enrich_config_default\<lparr>ec_time_window := w, ec_one_shot := False\<rparr>) \<lparr>cs_db = d, cs_trace = []\<rparr> =
   Inr (\<lparr>cp_batches = 1, cp_candidates_before = 3, cp_candidates_after = 3, cp_rows_enriched = 0, cp_rows_reset = 0, cp_oracle_misses = 3,
     cp_remaining_at_volume_zero = 3, cp_remaining_recent = 0\<rparr>, \<lparr>cs_db = d, cs_trace = [Counted 3, Ran OracleBatch, Counted 3]\<rparr>)"
  by (simp add: bare_simps)

lemma bare_recheck:
  "run_enrichment bare_env (enrich_config_default\<lparr>ec_time_window := w, ec_one_shot := False, ec_max_batches := 0\<rparr>) \<lparr>cs_db = d, cs_trace = []\<rparr> =
   Inr (\<lparr>cp_batches = 0, cp_candidates_before = 3, cp_candidates_after = 3, cp_rows_enriched = 0, cp_rows_reset = 0, cp_oracle_misses = 0,
     cp_remaining_at_volume_zero = 3, cp_remaining_recent = 0\<rparr>, \<lparr>cs_db = d, cs_trace = [Counted 3]\<rparr>)"
  by (simp add: bare_simps)

section \<open>A month nobody can price\<close>

text \<open>The first run marks August exhausted.\<close>

lemma first_run:
  "run_historical_sweep sample_frontier gregorian sample_sweep_config \<lparr>sw_db = ([], 1000000), sw_log = [], sw_looks = 0\<rparr> =
   Some (Inr (\<lparr>su_months = [\<lparr>mw_month = 202308, mw_zeros_before = 3, mw_zeros_after = 3, mw_rows_enriched = 0, mw_state = ''exhausted''\<rparr>],
       su_months_pending = 2, su_frontier_month = Some 202308, su_deadline_hit = False, su_months_rechecked = 0, su_months_reopened = 0\<rparr>,
     \<lparr>sw_db = ([(202308, ''exhausted'', 1000000)], 1000000), sw_log =
       [Worked 202308 (1690848000, 1693526400) [Counted 3, Ran OracleBatch, Counted 3], Marked 202308 Exhausted 3], sw_looks = 0\<rparr>))"
  by (simp add: sample_sweep_simps ch_bind_def ch_return_def rbind_def frontier_str_def bare_pass del: rbind_eq_Inr)

text \<open>A week later, with nothing written meanwhile, the recheck opens it again.\<close>

lemma second_run:
  "run_historical_sweep sample_frontier gregorian sample_sweep_config
     \<lparr>sw_db = ([(202308, ''exhausted'', 1000000)], 1604800), sw_log = [], sw_looks = 0\<rparr> =
   Some (Inr (\<lparr>su_months = [\<lparr>mw_month = 202309, mw_zeros_before = 3, mw_zeros_after = 3, mw_rows_enriched = 0, mw_state = ''exhausted''\<rparr>],
       su_months_pending = 1, su_frontier_month = Some 202309, su_deadline_hit = False, su_months_rechecked = 1, su_months_reopened = 1\<rparr>,
     \<lparr>sw_db = ([(202308, ''exhausted'', 1000000), (202309, ''exhausted'', 1604800), (202308, ''pending'', 1604800)], 1604800), sw_log =
       [Worked 202309 (1693526400, 1696118400) [Counted 3, Ran OracleBatch, Counted 3], Marked 202309 Exhausted 3,
        Rechecked 202308 (1690848000, 1693526400) [Counted 3], Marked 202308 Pending 3], sw_looks = 0\<rparr>))"
  by (simp add: sample_sweep_simps ch_bind_def ch_return_def rbind_def frontier_str_def bare_pass bare_recheck del: rbind_eq_Inr)

text \<open>
  A mark set because nothing could be priced is not confirmed by its recheck, though not a row has changed: it goes
  back to \<open>pending\<close>, to be worked and marked again.
\<close>

lemma unpriceable_month_is_reopened:
  "\<exists>done later st1 st2.
     run_historical_sweep sample_frontier gregorian sample_sweep_config \<lparr>sw_db = ([], 1000000), sw_log = [], sw_looks = 0\<rparr> = Some (Inr (done, st1)) \<and>
     Marked 202308 Exhausted 3 \<in> set (sw_log st1) \<and>
     run_historical_sweep sample_frontier gregorian sample_sweep_config \<lparr>sw_db = (fst (sw_db st1), 1604800), sw_log = [], sw_looks = 0\<rparr> =
       Some (Inr (later, st2)) \<and>
     Marked 202308 Pending 3 \<in> set (sw_log st2) \<and> su_months_reopened later = 1"
  unfolding first_run by (intro exI conjI, rule refl, simp, simp only: sw_state.select_convs fst_conv, rule second_run) simp_all

section \<open>Witnesses\<close>

lemma sample_sweep_visits:
  "months_to_sweep (202309, 202312) 202312 [(202310, \<lparr>ms_state = Exhausted, ms_swept_at = 5\<rparr>)] = Some [202309, 202311]"
  using sweep_visits_the_open_months [of 202309 202312 202312 "[(202310, \<lparr>ms_state = Exhausted, ms_swept_at = 5\<rparr>)]"]
  by (simp add: valid_month_def)

lemma gregorian_date_eq:
  assumes "0 \<le> t" and "1970 * 12 \<le> idx" and "idx < 1970 * 12 + 1700" and "month_seconds idx \<le> t" and "t < month_seconds (idx + 1)"
  shows "cal_date gregorian t = Some (idx div 12, idx mod 12 + 1)"
proof -
  have low: "month_seconds (1970 * 12) \<le> t" using assms(1) month_seconds_epoch(1) by simp
  have "month_seconds (idx + 1) \<le> month_seconds (1970 * 12 + int 1700)"
    using month_seconds_less [of "idx + 1" "1970 * 12 + int 1700"] assms(3) by (cases "idx + 1 = 1970 * 12 + int 1700") auto
  then obtain i where i: "seek_month 1700 (1970 * 12) t = Some i" "month_seconds i \<le> t" "t < month_seconds (i + 1)"
    using seek_month_Some [OF low, of 1700] assms(5) by auto
  have "i = idx"
    using month_seconds_less [of "i + 1" idx] month_seconds_less [of "idx + 1" i] i(2,3) assms(4,5)
    by (cases i idx rule: linorder_cases) (cases "i + 1 = idx"; cases "idx + 1 = i"; force)+
  then show ?thesis using i(1) assms(1) by (simp add: gregorian_def)
qed

lemma sample_dates: "cal_date gregorian 1700000000 = Some (2023, 11)" "cal_date gregorian 1696118400 = Some (2023, 10)"
  using gregorian_date_eq [of 1700000000 24286] gregorian_date_eq [of 1696118400 24285]
  by (simp_all add: month_seconds_def month_days_def leap_days_def)

lemma sample_window: "live_partition_window gregorian 1700000000 2 = Some (1696118400, 1701388800)"
  by (simp add: live_partition_window_def sample_dates gregorian_start Let_def month_seconds_def month_days_def leap_days_def)

lemma sample_live_start: "month_of gregorian (ucast (1696118400 :: u32)) = Some 202310"
  by (simp add: month_of_def sint_ucast_uint sample_dates)

definition sample_worker :: worker_config where
  "sample_worker = \<lparr>wk_base = enrich_config_default, wk_live_partitions = 2, wk_historical = True, wk_max_months = 1,
     wk_budget_secs = 120, wk_recheck_secs = 604800, wk_max_rechecks = 4\<rparr>"

lemma sample_base: "worker_base sample_worker = enrich_config_default"
  by (simp add: worker_base_def sample_worker_def enrich_config_default_def)

lemma bare_live_pass:
  "run_enrichment bare_env (enrich_config_default\<lparr>ec_time_window := w\<rparr>) \<lparr>cs_db = d, cs_trace = []\<rparr> =
   Inr (\<lparr>cp_batches = 1, cp_candidates_before = 3, cp_candidates_after = 3, cp_rows_enriched = 0, cp_rows_reset = 0, cp_oracle_misses = 3,
     cp_remaining_at_volume_zero = 3, cp_remaining_recent = 0\<rparr>, \<lparr>cs_db = d, cs_trace = [Counted 3, Ran OracleBatch, Counted 3]\<rparr>)"
  by (simp add: bare_simps)

lemma sample_worker_sweep:
  "sweep_config sample_frontier gregorian sample_worker (Some (1696118400, 1701388800)) 300000 0 0 =
   \<lparr>hc_base = enrich_config_default, hc_live_start_month = 202310, hc_max_months = 1, hc_deadline = Some 120000,
     hc_recheck_after_secs = 604800, hc_max_rechecks = 4\<rparr>"
  unfolding sweep_config_def sample_base
  by (simp add: sample_worker_def live_start_month_of_def sample_live_start [simplified] sample_live_start sample_frontier_def remaining_budget_ms_def sat_sub_def sat_mul64_def)

lemma sample_invocation:
  "\<exists>r. worker_invocation sample_frontier gregorian sample_worker 1700000000 300000 0 \<lparr>sw_db = ([], 1000000), sw_log = [], sw_looks = 0\<rparr> = Some r \<and>
     final_log r = [Live (Some (1696118400, 1701388800)) [Counted 3, Ran OracleBatch, Counted 3],
       Worked 202308 (1690848000, 1693526400) [Counted 3, Ran OracleBatch, Counted 3], Marked 202308 Exhausted 3]"
proof -
  have live: "sw_pass (fr_ch sample_frontier) (Live w) (enrich_config_default\<lparr>ec_time_window := w\<rparr>) \<lparr>sw_db = ([], 1000000), sw_log = [], sw_looks = 0\<rparr> =
      Inr (\<lparr>cp_batches = 1, cp_candidates_before = 3, cp_candidates_after = 3, cp_rows_enriched = 0, cp_rows_reset = 0, cp_oracle_misses = 3,
        cp_remaining_at_volume_zero = 3, cp_remaining_recent = 0\<rparr>, \<lparr>sw_db = ([], 1000000),
        sw_log = [Live w [Counted 3, Ran OracleBatch, Counted 3]], sw_looks = 0\<rparr>)" for w
    by (simp add: sw_pass_def sample_frontier_def bare_live_pass)
  have window: "live_partition_window gregorian 1700000000 (wk_live_partitions sample_worker) = Some (1696118400, 1701388800)"
    "wk_historical sample_worker \<and> 0 < wk_live_partitions sample_worker"
    by (simp_all add: sample_worker_def sample_window)
  show ?thesis
    unfolding worker_invocation_def window(1) Let_def sample_base live sum.case prod.case if_P [OF window(2)] sw_state.select_convs sample_worker_sweep
    by (simp add: sample_sweep_simps ch_bind_def ch_return_def rbind_def frontier_str_def bare_pass final_log_def del: rbind_eq_Inr)
qed

theorem sweep_writes_below_the_live_window_witness:
  "\<exists>r. worker_invocation sample_frontier gregorian sample_worker 1700000000 300000 0 \<lparr>sw_db = ([], 1000000), sw_log = [], sw_looks = 0\<rparr> = Some r \<and>
     Worked 202308 (1690848000, 1693526400) [Counted 3, Ran OracleBatch, Counted 3] \<in> set (final_log r) \<and>
     list_all (keeps_below 1696118400 1701388800) (final_log r)"
proof -
  obtain r where r: "worker_invocation sample_frontier gregorian sample_worker 1700000000 300000 0 \<lparr>sw_db = ([], 1000000), sw_log = [], sw_looks = 0\<rparr> = Some r"
      "final_log r = [Live (Some (1696118400, 1701388800)) [Counted 3, Ran OracleBatch, Counted 3],
       Worked 202308 (1690848000, 1693526400) [Counted 3, Ran OracleBatch, Counted 3], Marked 202308 Exhausted 3]"
    using sample_invocation by blast
  have "live_partition_window gregorian 1700000000 (wk_live_partitions sample_worker) = Some (1696118400, 1701388800)"
    by (simp add: sample_worker_def sample_window)
  from sweep_writes_below_the_live_window [OF cal_laws_gregorian this r(1)] r show ?thesis by auto
qed

text \<open>Two exhausted months and one recheck per run: the younger mark waits for the second run.\<close>

lemma rotation_first:
  "full_sweep sample_frontier gregorian sample_sweep_config
     \<lparr>sw_db = ([(202308, ''exhausted'', 1000), (202309, ''exhausted'', 900)], 1604800), sw_log = [], sw_looks = 0\<rparr>
     \<lparr>sw_db = ([(202308, ''exhausted'', 1000), (202309, ''exhausted'', 900), (202309, ''pending'', 1604800)], 1604800),
       sw_log = [Rechecked 202309 (1693526400, 1696118400) [Counted 3], Marked 202309 Pending 3], sw_looks = 0\<rparr>"
  unfolding full_sweep_def
  by (simp add: sample_sweep_simps ch_bind_def ch_return_def rbind_def frontier_str_def bare_pass bare_recheck del: rbind_eq_Inr)

lemma rotation_second:
  "\<exists>st'. full_sweep sample_frontier gregorian sample_sweep_config
     \<lparr>sw_db = ([(202308, ''exhausted'', 1000), (202309, ''exhausted'', 900), (202309, ''pending'', 1604800)], 1604800),
       sw_log = [Rechecked 202309 (1693526400, 1696118400) [Counted 3], Marked 202309 Pending 3], sw_looks = 0\<rparr> st'"
  unfolding full_sweep_def
  by (simp add: sample_sweep_simps ch_bind_def ch_return_def rbind_def frontier_str_def bare_pass bare_recheck del: rbind_eq_Inr)

lemma rotation_view: "sample_view ([(202308, ''exhausted'', 1000), (202309, ''exhausted'', 900)], c) =
    [202308 \<mapsto> \<lparr>ms_state = Exhausted, ms_swept_at = 1000\<rparr>, 202309 \<mapsto> \<lparr>ms_state = Exhausted, ms_swept_at = 900\<rparr>]"
  by (simp add: sample_view_def collect_states_def parse_frontier_state_def fun_upd_twist)

theorem every_mark_is_rechecked_witness:
  "\<exists>st'. sweeps sample_frontier gregorian sample_view snd [sample_sweep_config, sample_sweep_config]
       \<lparr>sw_db = ([(202308, ''exhausted'', 1000), (202309, ''exhausted'', 900)], 1604800), sw_log = [], sw_looks = 0\<rparr> st' \<and>
     (\<exists>w t. Rechecked 202308 w t \<in> set (sw_log st'))"
proof -
  let ?st = "\<lparr>sw_db = ([(202308, ''exhausted'', 1000), (202309, ''exhausted'', 900)], 1604800), sw_log = [], sw_looks = 0\<rparr> :: (frontier_db, sweep_event) sw_state"
  obtain st' where run: "sweeps sample_frontier gregorian sample_view snd [sample_sweep_config, sample_sweep_config] ?st st'"
    using rotation_first rotation_second by (auto simp: waits_def)
  have "ahead (sample_view (sw_db ?st)) 1000 202308 \<subseteq> {202309}"
    by (auto simp: ahead_def rotation_view less_prod_def split: if_splits)
  then have "card (ahead (sample_view (sw_db ?st)) 1000 202308) \<le> 1"
    using card_mono [of "{202309 :: u32}"] by fastforce
  then have ahead: "card (ahead (sample_view (sw_db ?st)) 1000 202308) < length [sample_sweep_config, sample_sweep_config] * unat (1 :: u32)"
    by simp
  have marks: "bounded_marks gregorian sample_view (sw_db ?st)"
    by (auto simp: bounded_marks_def exhausted_at_def rotation_view sample_months split: if_splits)
  have "\<exists>w t. Rechecked 202308 w t \<in> set (sw_log st')"
    by (rule every_mark_is_rechecked [where secs = 604800 and tbl = "''price_ohlcv_1m''", OF sample_frontier_laws run _ _ marks _ _ _ ahead])
      (auto simp: sample_sweep_config_def enrich_config_default_def has_candles_def sample_frontier_def span_of_def exhausted_at_def rotation_view sat_sub32_def)
  then show ?thesis using run by blast
qed

end
