(* ===== verification/Repair_Sample.thy ===== *)
theory Repair_Sample
  imports Operator_Guarantees Frontier_Sample
begin

text \<open>Concrete repairs: an operator's reset on the database of \<open>Enrich_Sample\<close>, and a sweep of tables, one of which is down, on the bare
  database of \<open>Frontier_Sample\<close>.\<close>

definition sample_repair :: "frontier_db cr_env" where
  "sample_repair = \<lparr>cr_ch = bare_env,
     cr_months = (\<lambda>cfg _ _ _. if ec_table cfg = ''price_ohlcv_4h'' then Inl ''down'' else
       Inr [\<lparr>mn_month = 202308, mn_start_ts = 1690848000, mn_end_ts = 1693526400, mn_zeros = 3\<rparr>,
            \<lparr>mn_month = 202309, mn_start_ts = 1693526400, mn_end_ts = 1696118400, mn_zeros = 3\<rparr>]),
     cr_freeze = (\<lambda>_ _ _ _ d. Inr d), cr_window = (\<lambda>_ _. Inr (202308, 202309)), cr_instant = (\<lambda>n. n)\<rparr>"

text \<open>The operator resets the USDC leg of two months of the hourly table.\<close>

definition sample_args :: repair_args where
  "sample_args = \<lparr>rp_database = ''prices'', rp_table = ''price_ohlcv_1h'', rp_start_month = 202308, rp_end_month = 202309,
     rp_dry_run = False, rp_skip_snapshot = False, rp_batch_size = 10000, rp_oracle_name = ''reflector'', rp_window_s = 300,
     rp_pivot_window_s = 86400, rp_reset_quote_asset_id = Some 8, rp_reset_not_before = Some 1650000000, rp_reset_not_after = None,
     rp_reset_require_external_rate = True, rp_reset_require_pivot_usdc_rate = False, rp_snapshots_verified = False\<rparr>"

definition sample_spec :: usd_reset_spec where
  "sample_spec = \<lparr>ur_quote_asset_id = 8, ur_not_before = 1650000000, ur_not_after = Some 1773237600,
     ur_require_external_rate = True, ur_require_pivot_usdc_rate = False\<rparr>"

definition sample_hourly :: repair_config where
  "sample_hourly = \<lparr>rc_enrich = operator_enrich sample_args (Some sample_spec), rc_start_month = 202308, rc_end_month = 202309,
     rc_snapshot = True, rc_dry_run = False, rc_one_shot = True, rc_deadline = None\<rparr>"

lemma sample_accepted: "operator_config sample_args = Inr sample_hourly"
  by (simp add: operator_config_def validate_month_def sample_args_def is_coarse_table_def check_windows_def min_window_def
      external_window_s_def bucket_width_s_def operator_reset_def reset_not_after_def validate_reset_def usdc_oracle_epoch_s_def
      sample_hourly_def sample_spec_def)

lemma bare_hourly_pass:
  "run_enrichment bare_env (enrich_config_default\<lparr>ec_table := t, ec_time_window := w, ec_one_shot := False\<rparr>) \<lparr>cs_db = d, cs_trace = []\<rparr> =
   Inr (\<lparr>cp_batches = 1, cp_candidates_before = 3, cp_candidates_after = 3, cp_rows_enriched = 0, cp_rows_reset = 0, cp_oracle_misses = 3,
     cp_remaining_at_volume_zero = 3, cp_remaining_recent = 0\<rparr>, \<lparr>cs_db = d, cs_trace = [Counted 3, Ran OracleBatch, Counted 3]\<rparr>)"
  by (simp add: bare_simps)

lemma default_no_reset: "ec_usd_reset enrich_config_default = None"
  by (simp add: enrich_config_default_def)

lemmas repair_simps = run_repair_def sw_refusals_def assert_reset_is_admissible_def default_no_reset repair_month_def freeze_partition_def
  sw_read_def sw_pass_def past_deadline_def empty_repair_def repaired_month_def ch_bind_def ch_return_def ch_fail_def rbind_def
  bare_hourly_pass sample_repair_def

abbreviation sample_start :: "(frontier_db, repair_event) sw_state" where
  "sample_start \<equiv> \<lparr>sw_db = ([], 1000000), sw_log = [], sw_looks = 0\<rparr>"

definition reset_repair :: "nat cr_env" where
  "reset_repair = \<lparr>cr_ch = sample_env, cr_months = (\<lambda>_ _ _ _. Inr
       [\<lparr>mn_month = 202308, mn_start_ts = 1690848000, mn_end_ts = 1693526400, mn_zeros = 3\<rparr>]),
     cr_freeze = (\<lambda>_ _ _ _ d. Inr d), cr_window = (\<lambda>_ _. Inr (202308, 202309)), cr_instant = (\<lambda>n. n)\<rparr>"

lemma sample_admitted:
  "assert_reset_is_admissible sample_env (operator_enrich sample_args (Some sample_spec)) \<lparr>cs_db = d, cs_trace = []\<rparr> =
   Inr ((), \<lparr>cs_db = d, cs_trace = []\<rparr>)"
  by (simp add: operator_enrich_def sample_args_def sample_spec_def sample_env_def sample_refs ch_prims
      assert_reset_is_admissible_def resolve_reference_ids_def validate_reset_def assert_reset_target_is_priceable_def stable_ids_def
      pivot_ids_def flatten_def check_plain_mode_leg_def assert_reset_not_shadowed_by_oracle_def assert_external_rate_leg_is_usdc_def
      assert_external_rates_are_loaded_def assert_hourly_rates_are_loaded_def bucket_width_s_def assert_no_pre_epoch_oracle_rows_def
      assert_reset_epoch_is_covered_def)

lemma sample_table: "ec_table (operator_enrich sample_args r) = ''price_ohlcv_1h''"
  by (simp add: operator_enrich_def sample_args_def)

lemma sample_log:
  "\<exists>t. final_log (run_repair reset_repair sample_hourly \<lparr>sw_db = 5, sw_log = [], sw_looks = 0\<rparr>) =
     [Froze ''price_ohlcv_1h'' 202308 (snapshot_name (rc_enrich sample_hourly) 202308)] @
     Repaired ''price_ohlcv_1h'' 202308 (1690848000, 1693526400) t # []"
proof -
  let ?cfg = "(operator_enrich sample_args (Some sample_spec))\<lparr>ec_time_window := Some (1690848000, 1693526400), ec_one_shot := True\<rparr>"
  have refusals: "sw_refusals sample_env (operator_enrich sample_args (Some sample_spec)) st = Inr ((), st)" for st :: "(nat, repair_event) sw_state"
    by (simp add: sw_refusals_def sample_admitted)
  show ?thesis
    by (cases "run_enrichment sample_env ?cfg \<lparr>cs_db = 5, cs_trace = []\<rparr>")
      (auto simp: run_repair_def reset_repair_def refusals sw_read_def repair_month_def freeze_partition_def sw_pass_def past_deadline_def
        ch_bind_def ch_return_def rbind_def final_log_def sample_hourly_def sample_table simp del: rbind_eq_Inr)
qed

theorem operator_reset_is_revertible_witness:
  "\<exists>before t. final_log (run_repair reset_repair sample_hourly \<lparr>sw_db = 5, sw_log = [], sw_looks = 0\<rparr>) =
       before @ [Repaired ''price_ohlcv_1h'' 202308 (1690848000, 1693526400) t] \<and>
     (\<exists>pre. before = pre @ [Froze ''price_ohlcv_1h'' 202308 (snapshot_name (rc_enrich sample_hourly) 202308)] \<and>
       (\<forall>w t. Repaired ''price_ohlcv_1h'' 202308 w t \<notin> set pre))"
proof -
  obtain t where t: "final_log (run_repair reset_repair sample_hourly \<lparr>sw_db = 5, sw_log = [], sw_looks = 0\<rparr>) =
     [Froze ''price_ohlcv_1h'' 202308 (snapshot_name (rc_enrich sample_hourly) 202308)] @
     Repaired ''price_ohlcv_1h'' 202308 (1690848000, 1693526400) t # []"
    using sample_log by blast
  have "ec_usd_reset (rc_enrich sample_hourly) = Some sample_spec" by (simp add: sample_hourly_def operator_enrich_def)
  from operator_reset_is_revertible [OF sample_accepted this _ _ _ t]
  have "\<exists>pre. [Froze ''price_ohlcv_1h'' 202308 (snapshot_name (rc_enrich sample_hourly) 202308)] =
      pre @ [Froze ''price_ohlcv_1h'' 202308 (snapshot_name (rc_enrich sample_hourly) 202308)] \<and>
      (\<forall>w t. Repaired ''price_ohlcv_1h'' 202308 w t \<notin> set pre)"
    by (auto simp: sample_args_def reset_repair_def)
  then show ?thesis using t by blast
qed

text \<open>The window guard asks nothing of the tables finer than a day: a reset of four-hour candles with a pivot window of a minute is accepted.\<close>

lemma short_window_is_accepted_below_a_day:
  "\<exists>cfg. operator_config (sample_args\<lparr>rp_table := ''price_ohlcv_4h'', rp_pivot_window_s := 60\<rparr>) = Inr cfg \<and>
     ec_pivot_window_s (rc_enrich cfg) < bucket_width_s ''price_ohlcv_4h''"
  by (simp add: operator_config_def operator_enrich_def validate_month_def sample_args_def is_coarse_table_def check_windows_def min_window_def
      external_window_s_def bucket_width_s_def operator_reset_def reset_not_after_def validate_reset_def usdc_oracle_epoch_s_def)

definition sample_tables :: sweep_tables_config where
  "sample_tables = \<lparr>sc_base = enrich_config_default, sc_tables = [''price_ohlcv_1h'', ''price_ohlcv_1m'', ''price_ohlcv_4h'', ''price_ohlcv_1d''],
     sc_lookback_months = 2, sc_max_batches = 20\<rparr>"

lemma default_batches: "enrich_config_default\<lparr>ec_table := t, ec_max_batches := 20, ec_usd_reset := None, ec_time_window := w, ec_one_shot := False\<rparr> =
    enrich_config_default\<lparr>ec_table := t, ec_time_window := w, ec_one_shot := False\<rparr>"
  by (simp add: enrich_config_default_def)

lemma sample_table_sweep:
  "\<exists>s st'. run_coarse_sweep sample_repair sample_tables None sample_start = Inr (s, st') \<and> map tw_table (co_tables s) = [''price_ohlcv_1h'', ''price_ohlcv_1d''] \<and>
     co_failed_tables s = [''price_ohlcv_4h''] \<and> co_skipped_tables s = [''price_ohlcv_1m''] \<and> co_deferred_tables s = [] \<and>
     final_log (Inr (s, st')) = [Repaired ''price_ohlcv_1h'' 202308 (1690848000, 1693526400) [Counted 3, Ran OracleBatch, Counted 3],
       Repaired ''price_ohlcv_1h'' 202309 (1693526400, 1696118400) [Counted 3, Ran OracleBatch, Counted 3],
       Repaired ''price_ohlcv_1d'' 202308 (1690848000, 1693526400) [Counted 3, Ran OracleBatch, Counted 3]] @
       Repaired ''price_ohlcv_1d'' 202309 (1693526400, 1696118400) [Counted 3, Ran OracleBatch, Counted 3] # []"
  by (simp add: run_coarse_sweep_def current_month_window_def sample_tables_def is_coarse_table_def empty_coarse_def sweep_table_def
      sweep_repair_config_def default_batches repair_simps final_log_def del: rbind_eq_Inr)

theorem sweep_accounts_for_every_table_witness:
  "\<exists>s st'. run_coarse_sweep sample_repair sample_tables None sample_start = Inr (s, st') \<and> co_failed_tables s = [''price_ohlcv_4h''] \<and>
     (\<exists>reached. sc_tables sample_tables = reached @ co_deferred_tables s \<and>
       mset reached = mset (map tw_table (co_tables s)) + mset (co_failed_tables s) + mset (co_skipped_tables s))"
proof -
  have "distinct (sc_tables sample_tables)" by (simp add: sample_tables_def)
  from sweep_accounts_for_every_table [OF this, of sample_start sample_repair None] sample_table_sweep show ?thesis by fastforce
qed

text \<open>A table listed twice is reported deferred although its only candles were swept, when the budget ends before the second turn.\<close>

lemma swept_table_is_reported_deferred:
  "\<exists>s st'. run_coarse_sweep sample_repair (sample_tables\<lparr>sc_tables := [''price_ohlcv_1h'', ''price_ohlcv_1d'', ''price_ohlcv_1h'']\<rparr>) (Some 6) sample_start =
     Inr (s, st') \<and> map tw_table (co_tables s) = [''price_ohlcv_1h'', ''price_ohlcv_1d''] \<and>
     co_deferred_tables s = [''price_ohlcv_1h'', ''price_ohlcv_1d'', ''price_ohlcv_1h'']"
  by (simp add: run_coarse_sweep_def current_month_window_def sample_tables_def is_coarse_table_def empty_coarse_def sweep_table_def
      sweep_repair_config_def default_batches repair_simps del: rbind_eq_Inr)

end
