(* ===== verification/Key_Naming.thy ===== *)
theory Key_Naming
  imports Month_Window
begin

text \<open>
  The portal's API keys: their names, which of several keys of one user counts
  (\<open>prices-api/src/portal/keys/naming.rs\<close>), the quota period (\<open>portal/period.rs\<close>) and the cap on re-issue
  (\<open>keys/cap.rs\<close>).
\<close>

section \<open>Names\<close>

definition is_ascii_digit :: "char \<Rightarrow> bool" where
  "is_ascii_digit c \<longleftrightarrow> 48 \<le> (of_char c :: nat) \<and> (of_char c :: nat) \<le> 57"

definition key_name :: "string \<Rightarrow> string option" where
  "key_name user_id =
     (if user_id \<noteq> [] \<and> length user_id \<le> 32 \<and> list_all is_ascii_digit user_id
      then Some (''discord-'' @ user_id @ ''-key'') else None)"

record key_record =
  kr_id :: string
  kr_name :: string
  kr_created_at :: "u64 option"
  kr_enabled :: bool
  kr_last_updated_at :: "u64 option"

definition exact_matches :: "key_record list \<Rightarrow> string \<Rightarrow> key_record list" where
  "exact_matches records name = filter (\<lambda>r. kr_name r = name) records"

section \<open>Ranking\<close>

text \<open>\<open>min_by_key\<close> answers the first of several minimal elements.\<close>

definition min_by_key :: "('a \<Rightarrow> 'k::linorder) \<Rightarrow> 'a list \<Rightarrow> 'a option" where
  "min_by_key f xs = (case xs of [] \<Rightarrow> None | x # xs \<Rightarrow> Some (foldl (\<lambda>m y. if f y < f m then y else m) x xs))"

definition rank :: "key_record \<Rightarrow> u64 \<times> string" where
  "rank record = (case kr_created_at record of Some t \<Rightarrow> t | None \<Rightarrow> - 1, kr_id record)"

definition choose_winner :: "key_record list \<Rightarrow> key_record option" where
  "choose_winner records = min_by_key rank records"

definition losers :: "key_record list \<Rightarrow> key_record \<Rightarrow> key_record list" where
  "losers records winner = filter (\<lambda>r. kr_id r \<noteq> kr_id winner) records"

definition max_of_list :: "'a::linorder list \<Rightarrow> 'a option" where
  "max_of_list xs = (case xs of [] \<Rightarrow> None | x # xs \<Rightarrow> Some (foldl max x xs))"

definition revocation_instant :: "key_record list \<Rightarrow> u64 option" where
  "revocation_instant revoked = max_of_list (List.map_filter kr_last_updated_at revoked)"

text \<open>Newest revocation first, the undated last, ties by id.\<close>

definition revocation_rank :: "key_record \<Rightarrow> int \<times> string" where
  "revocation_rank record = (case kr_last_updated_at record of Some t \<Rightarrow> - uint t | None \<Rightarrow> 1, kr_id record)"

definition revoked_newest_first :: "key_record list \<Rightarrow> key_record list" where
  "revoked_newest_first revoked = sort_key revocation_rank revoked"

definition current_key :: "key_record list \<Rightarrow> key_record option" where
  "current_key records =
     (let enabled = filter kr_enabled records
      in if enabled = [] then (case revoked_newest_first records of [] \<Rightarrow> None | r # _ \<Rightarrow> Some r)
         else min_by_key rank enabled)"

section \<open>The quota period\<close>

record period =
  pe_year :: int
  pe_month :: int

definition next_month :: "int \<times> int \<Rightarrow> int \<times> int" where
  "next_month = (\<lambda>(y, m). if m = 12 then (y + 1, 1) else (y, m + 1))"

text \<open>The period of a date, by its year and month; \<open>None\<close> is the panic at the end of the calendar.\<close>

definition period_containing :: "cal_ops \<Rightarrow> int \<times> int \<Rightarrow> period option" where
  "period_containing cal = (\<lambda>(y, m).
     if cal_first cal y m = None then None
     else case next_month (y, m) of (y', m') \<Rightarrow> if cal_first cal y' m' = None then None else Some \<lparr>pe_year = y, pe_month = m\<rparr>)"

definition pad_to :: "nat \<Rightarrow> string \<Rightarrow> string" where
  "pad_to n s = replicate (n - length s) CHR ''0'' @ s"

definition show_year :: "int \<Rightarrow> string" where
  "show_year y =
     (if 0 \<le> y \<and> y \<le> 9999 then pad_to 4 (show_nat (nat y))
      else (if y < 0 then ''-'' else ''+'') @ pad_to 4 (show_nat (nat \<bar>y\<bar>)))"

definition show_ymd :: "int \<times> int \<times> int \<Rightarrow> string" where
  "show_ymd = (\<lambda>(y, m, d). show_year y @ ''-'' @ pad_to 2 (show_nat (nat m)) @ ''-'' @ pad_to 2 (show_nat (nat d)))"

definition start_ymd :: "period \<Rightarrow> string" where
  "start_ymd p = show_ymd (pe_year p, pe_month p, 1)"

definition next_start_ymd :: "period \<Rightarrow> string" where
  "next_start_ymd p = (case next_month (pe_year p, pe_month p) of (y, m) \<Rightarrow> show_ymd (y, m, 1))"

definition days_in_month :: "int \<Rightarrow> int \<Rightarrow> int" where
  "days_in_month y m =
     (if m = 2 then (if y mod 4 = 0 \<and> (y mod 100 \<noteq> 0 \<or> y mod 400 = 0) then 29 else 28)
      else if m \<in> {4, 6, 9, 11} then 30 else 31)"

definition end_ymd :: "period \<Rightarrow> string" where
  "end_ymd p = show_ymd (pe_year p, pe_month p, days_in_month (pe_year p) (pe_month p))"

definition resets_at :: "period \<Rightarrow> string" where
  "resets_at p = next_start_ymd p @ ''T00:00:00Z''"

definition start_secs :: "cal_ops \<Rightarrow> period \<Rightarrow> u64" where
  "start_secs cal p =
     (case cal_first cal (pe_year p) (pe_month p) of
        Some t \<Rightarrow> if 0 \<le> t then word_of_int t else 0
      | None \<Rightarrow> 0)"

section \<open>The cap\<close>

datatype cap = Allowed | Capped string string

definition decide :: "cal_ops \<Rightarrow> u64 option \<Rightarrow> period \<Rightarrow> cap" where
  "decide cal revoked_at p =
     (case revoked_at of
        Some t \<Rightarrow> if t < start_secs cal p then Allowed else Capped (resets_at p) (next_start_ymd p)
      | None \<Rightarrow> Capped (resets_at p) (next_start_ymd p))"

section \<open>Names do not meet\<close>

lemma key_name_Some: "key_name u = Some n \<longleftrightarrow> n = ''discord-'' @ u @ ''-key'' \<and> u \<noteq> [] \<and> length u \<le> 32 \<and> list_all is_ascii_digit u"
  by (auto simp: key_name_def)

lemma digits_before_dash:
  assumes "list_all is_ascii_digit u" and "list_all is_ascii_digit v" and "v @ ''-key'' = u @ ''-key'' @ rest"
  shows "u = v"
  using assms
proof (induction u arbitrary: v)
  case Nil
  then show ?case by (cases v) (auto simp: is_ascii_digit_def)
next
  case (Cons c u)
  then show ?case by (cases v) (auto simp: is_ascii_digit_def)
qed

lemma names_are_prefix_free:
  assumes "key_name u = Some n" and "key_name v = Some (n @ rest)"
  shows "u = v"
  using digits_before_dash [of u v rest] assms by (auto simp: key_name_Some)

section \<open>The winner does not depend on the order\<close>

lemma min_by_key_None: "min_by_key f xs = None \<longleftrightarrow> xs = []"
  by (cases xs) (simp_all add: min_by_key_def)

lemma foldl_min_by:
  fixes f :: "'a \<Rightarrow> 'k::linorder"
  shows "foldl (\<lambda>m y. if f y < f m then y else m) x xs \<in> insert x (set xs) \<and>
   (\<forall>y \<in> insert x (set xs). f (foldl (\<lambda>m y. if f y < f m then y else m) x xs) \<le> f y)"
proof (induction xs arbitrary: x)
  case (Cons y xs)
  let ?x = "if f y < f x then y else x"
  have "f ?x \<le> f x" "f ?x \<le> f y" by auto
  then show ?case
    using Cons [of ?x] by (auto split: if_splits dest: order_trans)
qed simp

lemma min_by_key_Some: "min_by_key f xs = Some x \<Longrightarrow> x \<in> set xs \<and> (\<forall>y \<in> set xs. f x \<le> f y)"
  by (cases xs) (use foldl_min_by [of f] in \<open>auto simp: min_by_key_def\<close>)

lemma min_by_key_unique:
  assumes "inj_on f (set xs)" and "set xs = set ys"
  shows "min_by_key f xs = min_by_key f ys"
proof (cases "xs = []")
  case True
  then show ?thesis using assms(2) by simp
next
  case False
  then obtain x y where "min_by_key f xs = Some x" "min_by_key f ys = Some y"
    using assms(2) by (metis min_by_key_None not_None_eq set_empty)
  then show ?thesis
    using min_by_key_Some [of f xs x] min_by_key_Some [of f ys y] assms by (metis inj_onD order_antisym)
qed

lemma rank_inj: "inj_on kr_id A \<Longrightarrow> inj_on rank A"
  by (auto simp: inj_on_def rank_def)

lemma double_submits_agree:
  assumes "inj_on kr_id (set xs)" and "set xs = set ys" and "choose_winner xs = Some w" and "choose_winner ys = Some w'"
  shows "w = w' \<and> set (losers xs w) = set (losers ys w') \<and> set xs = insert w (set (losers xs w)) \<and> w \<notin> set (losers ys w')"
proof -
  have "w = w'"
    using min_by_key_unique [OF rank_inj [OF assms(1)] assms(2)] assms(3,4) by (simp add: choose_winner_def)
  moreover have "w \<in> set xs"
    using min_by_key_Some [of rank xs w] assms(3) by (simp add: choose_winner_def)
  ultimately show ?thesis
    using assms(1,2) by (auto simp: losers_def dest: inj_onD)
qed

section \<open>The cap opens with the next month\<close>

lemma first_is_month: "1 \<le> m \<Longrightarrow> m \<le> 12 \<Longrightarrow> cal_first cal y m = cal_month cal (y * 12 + (m - 1))"
  by (simp add: cal_month_def)

lemma cap_opens_with_the_next_month:
  assumes "cal_laws cal" and "0 \<le> n" and "n < 2 ^ 32" and "uint t < 2 ^ 32"
    and "cal_date cal n = Some (y, m)" and "cal_date cal (uint t) = Some (y', m')" and "period_containing cal (y, m) = Some p"
  shows "decide cal (Some t) p = Allowed \<longleftrightarrow> (y', m') < (y, m)"
proof -
  note now = cal_date_Some [OF assms(1,5)] and past = cal_date_Some [OF assms(1,6)]
  obtain a where a: "cal_month cal (y * 12 + (m - 1)) = Some a" "a \<le> n" using now(3) by blast
  obtain b where b: "cal_month cal (y' * 12 + (m' - 1)) = Some b" "b \<le> uint t" using past(3) by blast
  have zero: "cal_month cal (1970 * 12) = Some 0" using assms(1) unfolding cal_laws_def by blast
  have lo: "1970 * 12 \<le> y * 12 + (m - 1)"
    using now(4) [of "1970 * 12" 0] zero assms(2) by (meson not_less)
  then have "0 \<le> a"
    using cal_months_ascend(3) [OF assms(1) zero a(1)] by simp
  moreover have p: "p = \<lparr>pe_year = y, pe_month = m\<rparr>"
    using assms(7) by (auto simp: period_containing_def split: if_splits prod.splits)
  ultimately have start: "start_secs cal p = word_of_int a"
    using a(1) first_is_month [OF now(1,2), of cal y] by (simp add: start_secs_def)
  have "uint (word_of_int a :: u64) = a"
    using \<open>0 \<le> a\<close> a(2) assms(3) by (simp add: uint_word_of_int)
  then have "t < word_of_int a \<longleftrightarrow> uint t < a" by (simp add: word_less_def)
  also have "\<dots> \<longleftrightarrow> y' * 12 + (m' - 1) < y * 12 + (m - 1)"
  proof
    assume "uint t < a"
    then have "b < a" using b(2) by simp
    then show "y' * 12 + (m' - 1) < y * 12 + (m - 1)" using cal_months_ascend(1) [OF assms(1) b(1) a(1)] by simp
  next
    assume "y' * 12 + (m' - 1) < y * 12 + (m - 1)"
    then show "uint t < a" using past(4) [OF _ a(1)] by simp
  qed
  also have "\<dots> \<longleftrightarrow> (y', m') < (y, m)"
    using now(1,2) past(1,2) by (auto simp: less_prod_def)
  finally show ?thesis unfolding decide_def start by simp
qed

end
