(* ===== verification/Key_Gateway.thy ===== *)
theory Key_Gateway
  imports Key_Naming
begin

text \<open>
  The portal's calls to API Gateway (\<open>prices-api/src/portal/keys/gateway.rs\<close>): paging, the reading of answers and
  refusals, the choice of a plan. The SDK is a parameter: each call changes the state of the account and of whoever
  else works on it, in any way at all.
\<close>

section \<open>The control plane\<close>

text \<open>What the code tells apart of an SDK error, with the one-line message it logs.\<close>

datatype sdk_kind = TooManyRequests | NotFound | Conflict | BadRequest "string option" | OtherError

type_synonym sdk_error = "sdk_kind \<times> string"

record sdk_key =
  sk_id :: "string option"
  sk_name :: "string option"
  sk_created :: "int option"
  sk_enabled :: bool
  sk_last_updated :: "int option"
  sk_value :: "string option"

record sdk_plan =
  sp_id :: "string option"
  sp_name :: "string option"
  sp_stages :: "(string option \<times> string option) list"
  sp_throttle :: "(u64 \<times> i32) option"
  sp_quota :: "(i32 \<times> string option \<times> i32) option"

record 's sdk =
  sdk_get_api_keys :: "string \<Rightarrow> string option \<Rightarrow> 's \<Rightarrow> (sdk_error, sdk_key list \<times> string option) result \<times> 's"
  sdk_create_api_key :: "string \<Rightarrow> 's \<Rightarrow> (sdk_error, sdk_key) result \<times> 's"
  sdk_disable_api_key :: "string \<Rightarrow> 's \<Rightarrow> (sdk_error, int option) result \<times> 's"
  sdk_create_usage_plan_key :: "string \<Rightarrow> string \<Rightarrow> 's \<Rightarrow> (sdk_error, unit) result \<times> 's"
  sdk_get_api_key :: "string \<Rightarrow> bool \<Rightarrow> 's \<Rightarrow> (sdk_error, string option) result \<times> 's"
  sdk_delete_api_key :: "string \<Rightarrow> 's \<Rightarrow> (sdk_error, unit) result \<times> 's"
  sdk_get_usage_plans :: "string \<Rightarrow> string option \<Rightarrow> 's \<Rightarrow> (sdk_error, sdk_plan list \<times> string option) result \<times> 's"
  sdk_get_usage :: "string \<Rightarrow> string \<Rightarrow> string \<Rightarrow> string \<Rightarrow> string option \<Rightarrow> 's \<Rightarrow>
    (sdk_error, (string \<times> int list list) list option \<times> string option) result \<times> 's"
  sdk_today :: "'s \<Rightarrow> int \<times> int"
  sdk_left_ms :: "'s \<Rightarrow> nat"

datatype attachment = OnPlan | AlreadyOnAPlan | KeyGone

datatype disabling = Applied "u64 option" | DisableKeyGone

datatype gateway_error =
  Call string string
| Throttled string
| TooManyPages
| PlanNotFound string
| TooManyPlanPages
| Incomplete string string

datatype tier = Free | Basic | Analyst | Lite | Pro | Custom

record plan_info =
  pl_id :: string
  pl_name :: string
  pl_tier :: tier
  pl_rate_limit :: "u64 option"
  pl_burst_limit :: "i32 option"
  pl_quota_limit :: "u64 option"
  pl_quota_period :: "string option"
  pl_quota_offset :: "i32 option"

record 's gateway =
  gw_sdk :: "'s sdk"
  gw_free_plan_id :: string
  gw_api_id :: string
  gw_stage :: string

section \<open>Programs over the control plane\<close>

text \<open>
  What is logged of a run: the listings, the plans found, the reading of the clock the cap is judged at, and every
  write with what it answered.
\<close>

datatype key_event =
  Listed string "key_record list"
| PlanOf string "string option"
| Today "int \<times> int"
| Created string "key_record option"
| Attached string string "attachment option"
| Disabled string "disabling option"
| Deleted string

record 's gw_state =
  gs_aws :: 's
  gs_log :: "key_event list"

type_synonym ('s, 'a) gw_prog = "'s gw_state \<Rightarrow> (gateway_error \<times> 's gw_state, 'a \<times> 's gw_state) result"

definition gw_return :: "'a \<Rightarrow> ('s, 'a) gw_prog" where
  "gw_return x st = Inr (x, st)"

definition gw_fail :: "gateway_error \<Rightarrow> ('s, 'a) gw_prog" where
  "gw_fail e st = Inl (e, st)"

definition gw_bind :: "('s, 'a) gw_prog \<Rightarrow> ('a \<Rightarrow> ('s, 'b) gw_prog) \<Rightarrow> ('s, 'b) gw_prog" where
  "gw_bind m f st = rbind (m st) (\<lambda>(x, st). f x st)"

definition gw_try :: "('s, 'a) gw_prog \<Rightarrow> ('s, (gateway_error, 'a) result) gw_prog" where
  "gw_try m st = (case m st of Inl (e, st) \<Rightarrow> Inr (Inl e, st) | Inr (x, st) \<Rightarrow> Inr (Inr x, st))"

definition gw_call :: "('s \<Rightarrow> 'r \<times> 's) \<Rightarrow> ('s, 'r) gw_prog" where
  "gw_call c st = (case c (gs_aws st) of (r, s) \<Rightarrow> Inr (r, st\<lparr>gs_aws := s\<rparr>))"

definition gw_log :: "key_event \<Rightarrow> ('s, unit) gw_prog" where
  "gw_log ev st = Inr ((), st\<lparr>gs_log := gs_log st @ [ev]\<rparr>)"

definition gw_peek :: "('s \<Rightarrow> 'a) \<Rightarrow> ('s, 'a) gw_prog" where
  "gw_peek f st = Inr (f (gs_aws st), st)"

text \<open>The year and month of the clock, logged as they are read.\<close>

definition read_today :: "'s gateway \<Rightarrow> ('s, int \<times> int) gw_prog" where
  "read_today gw = gw_bind (gw_peek (sdk_today (gw_sdk gw))) (\<lambda>today. gw_bind (gw_log (Today today)) (\<lambda>_. gw_return today))"

section \<open>Plans\<close>

definition tier_segments :: "(tier \<times> string) list" where
  "tier_segments = [(Free, ''free''), (Basic, ''basic''), (Analyst, ''analyst''), (Lite, ''lite''), (Pro, ''pro'')]"

definition from_plan_name :: "string \<Rightarrow> string \<Rightarrow> tier" where
  "from_plan_name name stage =
     (case find (\<lambda>(_, segment). name = ''pricing-api-'' @ segment @ ''-'' @ stage) tier_segments of
        Some (t, _) \<Rightarrow> t | None \<Rightarrow> Custom)"

definition unsigned :: "int \<Rightarrow> u64 option" where
  "unsigned n = (if 0 \<le> n \<and> n < 2 ^ 64 then Some (word_of_int n) else None)"

text \<open>The rate is a 64-bit float, kept by its bits: it is only passed on.\<close>

definition plan_from_sdk :: "string \<Rightarrow> sdk_plan \<Rightarrow> plan_info option" where
  "plan_from_sdk stage plan = map_option (\<lambda>key.
     (let name = (case sp_name plan of Some n \<Rightarrow> n | None \<Rightarrow> [])
      in \<lparr>pl_id = key, pl_name = name, pl_tier = from_plan_name name stage,
           pl_rate_limit = map_option fst (sp_throttle plan), pl_burst_limit = map_option snd (sp_throttle plan),
           pl_quota_limit = Option.bind (sp_quota plan) (\<lambda>(limit, _, _). unsigned (sint limit)),
           pl_quota_period = Option.bind (sp_quota plan) (\<lambda>(_, period, _). period),
           pl_quota_offset = map_option (\<lambda>(_, _, offset). offset) (sp_quota plan)\<rparr>)) (sp_id plan)"

definition select_plan :: "sdk_plan list \<Rightarrow> string \<Rightarrow> string \<Rightarrow> plan_info option" where
  "select_plan plans api_id stage =
     (case sort_key pl_id (List.map_filter (plan_from_sdk stage) (filter (\<lambda>p. (Some api_id, Some stage) \<in> set (sp_stages p)) plans)) of
        [] \<Rightarrow> None | p # _ \<Rightarrow> Some p)"

section \<open>Reads\<close>

definition max_pages :: nat where
  "max_pages = 50"

text \<open>The next position of a page; an empty one is none.\<close>

definition cursor_of :: "string option \<Rightarrow> string option" where
  "cursor_of position = (if position = Some [] then None else position)"

definition read_error :: "string \<Rightarrow> sdk_error \<Rightarrow> gateway_error" where
  "read_error operation = (\<lambda>(kind, message). if kind = TooManyRequests then Throttled operation else Call operation message)"

fun plan_pages :: "'s gateway \<Rightarrow> string \<Rightarrow> nat \<Rightarrow> string option \<Rightarrow> sdk_plan list \<Rightarrow> ('s, plan_info option) gw_prog" where
  "plan_pages gw key_id 0 position plans = gw_fail TooManyPlanPages"
| "plan_pages gw key_id (Suc n) position plans =
     gw_bind (gw_call (sdk_get_usage_plans (gw_sdk gw) key_id position)) (\<lambda>answer.
       case answer of
         Inl (kind, message) \<Rightarrow>
           (if kind = NotFound then gw_return None else gw_fail (read_error ''GetUsagePlans'' (kind, message)))
       | Inr (items, next_position) \<Rightarrow>
           (case cursor_of next_position of
              Some p \<Rightarrow> plan_pages gw key_id n (Some p) (plans @ items)
            | None \<Rightarrow> gw_return (select_plan (plans @ items) (gw_api_id gw) (gw_stage gw))))"

definition plan_of :: "'s gateway \<Rightarrow> string \<Rightarrow> ('s, plan_info option) gw_prog" where
  "plan_of gw key_id = gw_bind (plan_pages gw key_id max_pages None []) (\<lambda>plan.
     gw_bind (gw_log (PlanOf key_id (map_option pl_id plan))) (\<lambda>_. gw_return plan))"

definition key_from_sdk :: "sdk_key \<Rightarrow> key_record option" where
  "key_from_sdk key = (case (sk_id key, sk_name key) of
     (Some key_id, Some name) \<Rightarrow> Some \<lparr>kr_id = key_id, kr_name = name, kr_created_at = Option.bind (sk_created key) unsigned,
        kr_enabled = sk_enabled key, kr_last_updated_at = Option.bind (sk_last_updated key) unsigned\<rparr>
   | _ \<Rightarrow> None)"

fun list_pages :: "'s gateway \<Rightarrow> string \<Rightarrow> nat \<Rightarrow> string option \<Rightarrow> key_record list \<Rightarrow> ('s, key_record list) gw_prog" where
  "list_pages gw pre 0 position found = gw_fail TooManyPages"
| "list_pages gw pre (Suc n) position found =
     gw_bind (gw_call (sdk_get_api_keys (gw_sdk gw) pre position)) (\<lambda>answer.
       case answer of
         Inl e \<Rightarrow> gw_fail (read_error ''GetApiKeys'' e)
       | Inr (items, next_position) \<Rightarrow>
           (case cursor_of next_position of
              Some p \<Rightarrow> list_pages gw pre n (Some p) (found @ List.map_filter key_from_sdk items)
            | None \<Rightarrow> gw_return (found @ List.map_filter key_from_sdk items)))"

definition list_named :: "'s gateway \<Rightarrow> string \<Rightarrow> ('s, key_record list) gw_prog" where
  "list_named gw pre = gw_bind (list_pages gw pre max_pages None []) (\<lambda>found.
     gw_bind (gw_log (Listed pre found)) (\<lambda>_. gw_return found))"

definition key_exists :: "'s gateway \<Rightarrow> string \<Rightarrow> ('s, bool) gw_prog" where
  "key_exists gw key_id = gw_bind (gw_call (sdk_get_api_key (gw_sdk gw) key_id False)) (\<lambda>answer.
     case answer of
       Inr _ \<Rightarrow> gw_return True
     | Inl (kind, message) \<Rightarrow> if kind = NotFound then gw_return False else gw_fail (Call ''GetApiKey'' message))"

definition value_of :: "'s gateway \<Rightarrow> string \<Rightarrow> ('s, string option) gw_prog" where
  "value_of gw key_id = gw_bind (gw_call (sdk_get_api_key (gw_sdk gw) key_id True)) (\<lambda>answer.
     case answer of
       Inr (Some v) \<Rightarrow> gw_return (Some v)
     | Inr None \<Rightarrow> gw_fail (Incomplete ''GetApiKey'' ''value'')
     | Inl (kind, message) \<Rightarrow> if kind = NotFound then gw_return None else gw_fail (Call ''GetApiKey'' message))"

section \<open>Writes\<close>

text \<open>A write is logged when it has been answered, with \<open>None\<close> for an error: it may have landed.\<close>

definition create_key :: "'s gateway \<Rightarrow> string \<Rightarrow> ('s, key_record \<times> string) gw_prog" where
  "create_key gw name = gw_bind (gw_call (sdk_create_api_key (gw_sdk gw) name)) (\<lambda>answer.
     case answer of
       Inl (kind, message) \<Rightarrow> gw_bind (gw_log (Created name None)) (\<lambda>_. gw_fail (Call ''CreateApiKey'' message))
     | Inr key \<Rightarrow>
         (case sk_id key of
            None \<Rightarrow> gw_bind (gw_log (Created name None)) (\<lambda>_. gw_fail (Incomplete ''CreateApiKey'' ''id''))
          | Some key_id \<Rightarrow>
              (case sk_value key of
                 None \<Rightarrow> gw_bind (gw_log (Created name None)) (\<lambda>_. gw_fail (Incomplete ''CreateApiKey'' ''value''))
               | Some v \<Rightarrow>
                   (let rec = \<lparr>kr_id = key_id, kr_name = name, kr_created_at = Option.bind (sk_created key) unsigned,
                      kr_enabled = sk_enabled key, kr_last_updated_at = Option.bind (sk_last_updated key) unsigned\<rparr>
                    in gw_bind (gw_log (Created name (Some rec))) (\<lambda>_. gw_return (rec, v))))))"

definition disable :: "'s gateway \<Rightarrow> string \<Rightarrow> ('s, disabling) gw_prog" where
  "disable gw key_id = gw_bind (gw_call (sdk_disable_api_key (gw_sdk gw) key_id)) (\<lambda>answer.
     case answer of
       Inr last_updated \<Rightarrow>
         (let d = Applied (Option.bind last_updated unsigned)
          in gw_bind (gw_log (Disabled key_id (Some d))) (\<lambda>_. gw_return d))
     | Inl (kind, message) \<Rightarrow>
         if kind = NotFound then gw_bind (gw_log (Disabled key_id (Some DisableKeyGone))) (\<lambda>_. gw_return DisableKeyGone)
         else gw_bind (gw_log (Disabled key_id None)) (\<lambda>_. gw_fail (Call ''UpdateApiKey'' message)))"

definition lower :: "char \<Rightarrow> char" where
  "lower c = (if 65 \<le> (of_char c :: nat) \<and> (of_char c :: nat) \<le> 90 then char_of (of_char c + 32 :: nat) else c)"

fun contains :: "string \<Rightarrow> string \<Rightarrow> bool" where
  "contains [] needle \<longleftrightarrow> needle = []"
| "contains (c # cs) needle \<longleftrightarrow> take (length needle) (c # cs) = needle \<or> contains cs needle"

definition is_same_stage_refusal :: "string option \<Rightarrow> bool" where
  "is_same_stage_refusal message = (case message of None \<Rightarrow> False | Some m \<Rightarrow> contains (map lower m) ''same api stage'')"

definition attach_to_plan :: "'s gateway \<Rightarrow> string \<Rightarrow> string \<Rightarrow> ('s, attachment) gw_prog" where
  "attach_to_plan gw key_id plan_id =
     (let settle = (\<lambda>a. gw_bind (gw_log (Attached key_id plan_id (Some a))) (\<lambda>_. gw_return a));
          refuse = (\<lambda>e. gw_bind (gw_log (Attached key_id plan_id None)) (\<lambda>_. gw_fail e))
      in gw_bind (gw_call (sdk_create_usage_plan_key (gw_sdk gw) plan_id key_id)) (\<lambda>answer.
           case answer of
             Inr _ \<Rightarrow> settle OnPlan
           | Inl (Conflict, message) \<Rightarrow> settle OnPlan
           | Inl (BadRequest m, message) \<Rightarrow>
               if is_same_stage_refusal m then settle AlreadyOnAPlan else refuse (Call ''CreateUsagePlanKey'' message)
           | Inl (NotFound, message) \<Rightarrow>
               gw_bind (gw_try (key_exists gw key_id)) (\<lambda>r.
                 case r of
                   Inl e \<Rightarrow> refuse e
                 | Inr alive \<Rightarrow> if alive then refuse (PlanNotFound plan_id) else settle KeyGone)
           | Inl (_, message) \<Rightarrow> refuse (Call ''CreateUsagePlanKey'' message)))"

definition delete_key :: "'s gateway \<Rightarrow> string \<Rightarrow> ('s, unit) gw_prog" where
  "delete_key gw key_id = gw_bind (gw_call (sdk_delete_api_key (gw_sdk gw) key_id)) (\<lambda>answer.
     gw_bind (gw_log (Deleted key_id)) (\<lambda>_.
     case answer of
       Inr _ \<Rightarrow> gw_return ()
     | Inl (kind, message) \<Rightarrow> if kind = NotFound then gw_return () else gw_fail (Call ''DeleteApiKey'' message)))"

section \<open>Usage\<close>

record key_usage =
  ku_used :: u64
  ku_remaining :: u64

definition sat_add64 :: "u64 \<Rightarrow> u64 \<Rightarrow> u64" where
  "sat_add64 a b = (if unat a + unat b < 2 ^ 64 then a + b else - 1)"

definition usage_limit :: "key_usage \<Rightarrow> u64" where
  "usage_limit u = sat_add64 (ku_used u) (ku_remaining u)"

definition usage_clamped :: "i64 \<Rightarrow> u64" where
  "usage_clamped v = (if sint v < 0 then 0 else v)"

text \<open>The days from the last one whose remaining balance rose above that of the day before.\<close>

fun since_reset :: "(i64 \<times> i64) list \<Rightarrow> (i64 \<times> i64) list" where
  "since_reset [] = []"
| "since_reset [d] = [d]"
| "since_reset (d # e # days) =
     (let rest = since_reset (e # days)
      in if length rest = length (e # days) \<and> \<not> usage_clamped (snd d) < usage_clamped (snd e) then d # e # days else rest)"

definition summarize_days :: "(i64 \<times> i64) list \<Rightarrow> key_usage option" where
  "summarize_days days =
     (if days = [] then None
      else Some \<lparr>ku_used = foldl sat_add64 0 (map (usage_clamped \<circ> fst) (since_reset days)), ku_remaining = usage_clamped (snd (last days))\<rparr>)"

definition daily_pairs :: "int list list \<Rightarrow> (i64 \<times> i64) list" where
  "daily_pairs rows = List.map_filter (\<lambda>row. case row of used # remaining # _ \<Rightarrow> Some (word_of_int used, word_of_int remaining) | _ \<Rightarrow> None) rows"

fun usage_pages :: "'s gateway \<Rightarrow> string \<Rightarrow> string \<Rightarrow> string \<Rightarrow> string \<Rightarrow> nat \<Rightarrow> string option \<Rightarrow> (i64 \<times> i64) list \<Rightarrow>
    ('s, key_usage option) gw_prog" where
  "usage_pages gw plan_id key_id start stop 0 position days = gw_fail TooManyPages"
| "usage_pages gw plan_id key_id start stop (Suc n) position days =
     gw_bind (gw_call (sdk_get_usage (gw_sdk gw) plan_id key_id start stop position)) (\<lambda>answer.
       case answer of
         Inl e \<Rightarrow> gw_fail (read_error ''GetUsage'' e)
       | Inr (items, next_position) \<Rightarrow>
           (let days = days @ (case Option.bind items (\<lambda>m. map_of m key_id) of Some rows \<Rightarrow> daily_pairs rows | None \<Rightarrow> [])
            in case cursor_of next_position of
                 Some p \<Rightarrow> usage_pages gw plan_id key_id start stop n (Some p) days
               | None \<Rightarrow> gw_return (summarize_days days)))"

definition usage_of :: "'s gateway \<Rightarrow> string \<Rightarrow> string \<Rightarrow> string \<Rightarrow> string \<Rightarrow> ('s, key_usage option) gw_prog" where
  "usage_of gw plan_id key_id start stop = usage_pages gw plan_id key_id start stop max_pages None []"

end
