(* ===== verification/Key_Issue.thy ===== *)
theory Key_Issue
  imports Key_Gateway
begin

text \<open>
  The portal's key routes (\<open>prices-api/src/portal/keys/mod.rs\<close>): revealing a key, revoking it, and the reconciler that
  issues one. The deadline of the caller may cut a run anywhere; what is proved of a log is proved of each prefix of it.
\<close>

section \<open>Reveal\<close>

datatype looked_up = LookupKey key_record string | LookupRevoked "u64 option" | LookupNone

definition lookup :: "'s gateway \<Rightarrow> string \<Rightarrow> ('s, looked_up) gw_prog" where
  "lookup gw name = gw_bind (list_named gw name) (\<lambda>found.
     let candidates = exact_matches found name
     in case current_key candidates of
          None \<Rightarrow> gw_return LookupNone
        | Some current \<Rightarrow>
            if \<not> kr_enabled current then gw_return (LookupRevoked (revocation_instant candidates))
            else gw_bind (value_of gw (kr_id current)) (\<lambda>v.
              gw_return (case v of Some v \<Rightarrow> LookupKey current v | None \<Rightarrow> LookupNone)))"

section \<open>Revoke\<close>

datatype revocation = NoKey | RevDone "u64 option" | RevPartial "u64 option"

text \<open>
  \<open>applied\<close> is the latest instant among the disables that landed, \<open>failure\<close> the first error. \<open>Option\<close> orders its
  absent value first.
\<close>

definition opt_max :: "u64 option \<Rightarrow> u64 option \<Rightarrow> u64 option" where
  "opt_max a b = (case (a, b) of (None, _) \<Rightarrow> b | (_, None) \<Rightarrow> a | (Some x, Some y) \<Rightarrow> Some (max x y))"

fun disable_each :: "'s gateway \<Rightarrow> string \<Rightarrow> key_record list \<Rightarrow> u64 option option \<Rightarrow> gateway_error option \<Rightarrow>
    ('s, u64 option option \<times> gateway_error option) gw_prog" where
  "disable_each gw name [] applied failure = gw_return (applied, failure)"
| "disable_each gw name (key # keys) applied failure =
     (if kr_name key \<noteq> name then disable_each gw name keys applied failure
      else gw_bind (gw_try (disable gw (kr_id key))) (\<lambda>r.
        case r of
          Inr (Applied instant) \<Rightarrow>
            disable_each gw name keys (Some (case applied of Some previous \<Rightarrow> opt_max previous instant | None \<Rightarrow> instant)) failure
        | Inr DisableKeyGone \<Rightarrow> disable_each gw name keys applied failure
        | Inl e \<Rightarrow> disable_each gw name keys applied (case failure of None \<Rightarrow> Some e | Some f \<Rightarrow> Some f)))"

definition disable_all :: "'s gateway \<Rightarrow> string \<Rightarrow> ('s, revocation) gw_prog" where
  "disable_all gw name = gw_bind (list_named gw name) (\<lambda>found.
     let keys = exact_matches found name
     in case current_key keys of
          None \<Rightarrow> gw_return NoKey
        | Some current \<Rightarrow>
            if \<not> kr_enabled current then gw_return (RevDone (revocation_instant keys))
            else gw_bind (disable_each gw name (filter kr_enabled keys) None None) (\<lambda>outcome.
              case outcome of
                (Some instant, None) \<Rightarrow> gw_return (RevDone instant)
              | (Some instant, Some e) \<Rightarrow> gw_return (RevPartial instant)
              | (None, Some e) \<Rightarrow> gw_fail e
              | (None, None) \<Rightarrow> gw_return NoKey))"

section \<open>Issue\<close>

datatype attempt =
  Done key_record bool
| AttemptCapped string
| OutOfTime
| Retry

datatype reconciled = Issued key_record bool | ReconciledCapped string | Lost | ReconciledOutOfTime

datatype issue_outcome = IssueIssued bool | IssueCapped string | IssueFailed

datatype settlement = Ready | SettledRetry

definition create_floor_ms :: nat where
  "create_floor_ms = 4000"

definition attach :: "'s gateway \<Rightarrow> string \<Rightarrow> string \<Rightarrow> ('s, settlement) gw_prog" where
  "attach gw key_id plan_id = gw_bind (attach_to_plan gw key_id plan_id) (\<lambda>a.
     case a of
       OnPlan \<Rightarrow> gw_return Ready
     | KeyGone \<Rightarrow> gw_return SettledRetry
     | AlreadyOnAPlan \<Rightarrow> gw_bind (plan_of gw key_id) (\<lambda>plan.
         gw_return (case plan of Some _ \<Rightarrow> Ready | None \<Rightarrow> SettledRetry)))"

text \<open>The plan of the newest revoked key that is not on the free one.\<close>

fun previous_plan :: "'s gateway \<Rightarrow> key_record list \<Rightarrow> ('s, string option) gw_prog" where
  "previous_plan gw [] = gw_return None"
| "previous_plan gw (previous # rest) = gw_bind (plan_of gw (kr_id previous)) (\<lambda>plan.
     case plan of
       None \<Rightarrow> previous_plan gw rest
     | Some p \<Rightarrow> if pl_id p = gw_free_plan_id gw then previous_plan gw rest else gw_return (Some (pl_id p)))"

definition resolve_target_plan :: "'s gateway \<Rightarrow> string \<Rightarrow> key_record list \<Rightarrow> ('s, string option) gw_prog" where
  "resolve_target_plan gw winner_id revoked = gw_bind (plan_of gw winner_id) (\<lambda>own.
     if own \<noteq> None then gw_return None
     else gw_bind (previous_plan gw (revoked_newest_first revoked)) (\<lambda>kept.
       gw_return (Some (case kept of Some p \<Rightarrow> p | None \<Rightarrow> gw_free_plan_id gw))))"

text \<open>Put a key on its plan, unless it is on one.\<close>

definition settle_plan :: "'s gateway \<Rightarrow> string \<Rightarrow> key_record list \<Rightarrow> ('s, settlement) gw_prog" where
  "settle_plan gw key_id revoked = gw_bind (resolve_target_plan gw key_id revoked) (\<lambda>target.
     case target of None \<Rightarrow> gw_return Ready | Some plan_id \<Rightarrow> attach gw key_id plan_id)"

text \<open>A delete that fails is logged by the code and stepped over.\<close>

fun sweep_keys :: "'s gateway \<Rightarrow> string \<Rightarrow> key_record list \<Rightarrow> ('s, unit) gw_prog" where
  "sweep_keys gw name [] = gw_return ()"
| "sweep_keys gw name (loser # rest) =
     (if kr_name loser \<noteq> name then sweep_keys gw name rest
      else gw_bind (gw_try (delete_key gw (kr_id loser))) (\<lambda>_. sweep_keys gw name rest))"

text \<open>From the winner on: its plan, the deletions, its readability. \<open>made\<close> is the key this attempt created.\<close>

definition converge :: "'s gateway \<Rightarrow> string \<Rightarrow> key_record list \<Rightarrow> key_record list \<Rightarrow> key_record option \<Rightarrow> ('s, attempt) gw_prog" where
  "converge gw name candidates revoked made =
     (case choose_winner candidates of
        None \<Rightarrow> gw_return Retry
      | Some winner \<Rightarrow>
          gw_bind (settle_plan gw (kr_id winner) revoked) (\<lambda>s.
          if s = SettledRetry then gw_return Retry
          else gw_bind (sweep_keys gw name (losers candidates winner @ revoked)) (\<lambda>_.
            if (case made of Some rec \<Rightarrow> kr_id rec = kr_id winner | None \<Rightarrow> False) then gw_return (Done winner True)
            else gw_bind (value_of gw (kr_id winner)) (\<lambda>v.
              gw_return (case v of Some _ \<Rightarrow> Done winner False | None \<Rightarrow> Retry)))))"

definition create_and_converge :: "'s gateway \<Rightarrow> string \<Rightarrow> key_record list \<Rightarrow> ('s, attempt) gw_prog" where
  "create_and_converge gw name revoked =
     gw_bind (gw_peek (sdk_left_ms (gw_sdk gw))) (\<lambda>left.
     if left < create_floor_ms then gw_return OutOfTime
     else gw_bind (create_key gw name) (\<lambda>(made, _).
       gw_bind (list_named gw name) (\<lambda>found.
         let candidates = filter kr_enabled (exact_matches found name)
         in if candidates = []
            then gw_bind (settle_plan gw (kr_id made) revoked) (\<lambda>s.
              gw_return (if s = SettledRetry then Retry else Done made True))
            else converge gw name (if kr_id made \<in> kr_id ` set candidates then candidates else candidates @ [made]) revoked (Some made))))"

definition judge_cap :: "'s gateway \<Rightarrow> cal_ops \<Rightarrow> u64 option \<Rightarrow> ('s, cap option) gw_prog" where
  "judge_cap gw cal revoked_at = gw_bind (read_today gw) (\<lambda>today.
     gw_return (map_option (decide cal revoked_at) (period_containing cal today)))"

text \<open>\<open>None\<close> is the panic of a date outside the calendar.\<close>

definition attempt_once :: "'s gateway \<Rightarrow> cal_ops \<Rightarrow> string \<Rightarrow> ('s, attempt option) gw_prog" where
  "attempt_once gw cal name = gw_bind (list_named gw name) (\<lambda>found.
     let existing = exact_matches found name;
         live = filter kr_enabled existing;
         revoked = filter (\<lambda>k. \<not> kr_enabled k) existing;
         go_on = gw_bind (if live = [] then create_and_converge gw name revoked else converge gw name live revoked None)
                   (\<lambda>a. gw_return (Some a))
     in if live = [] \<and> revoked \<noteq> []
        then gw_bind (judge_cap gw cal (revocation_instant revoked)) (\<lambda>c.
          case c of
            None \<Rightarrow> gw_return None
          | Some (Capped instant date) \<Rightarrow> gw_return (Some (AttemptCapped date))
          | Some Allowed \<Rightarrow> go_on)
        else go_on)"

definition max_attempts :: nat where
  "max_attempts = 2"

fun reconcile_times :: "'s gateway \<Rightarrow> cal_ops \<Rightarrow> string \<Rightarrow> nat \<Rightarrow> ('s, reconciled option) gw_prog" where
  "reconcile_times gw cal name 0 = gw_return (Some Lost)"
| "reconcile_times gw cal name (Suc n) = gw_bind (attempt_once gw cal name) (\<lambda>a.
     case a of
       None \<Rightarrow> gw_return None
     | Some (Done rec made) \<Rightarrow> gw_return (Some (Issued rec made))
     | Some (AttemptCapped date) \<Rightarrow> gw_return (Some (ReconciledCapped date))
     | Some OutOfTime \<Rightarrow> gw_return (Some ReconciledOutOfTime)
     | Some Retry \<Rightarrow> reconcile_times gw cal name n)"

definition reconcile :: "'s gateway \<Rightarrow> cal_ops \<Rightarrow> string \<Rightarrow> ('s, reconciled option) gw_prog" where
  "reconcile gw cal name = reconcile_times gw cal name max_attempts"

definition outcome_of_reconcile :: "reconciled \<Rightarrow> issue_outcome" where
  "outcome_of_reconcile r = (case r of
     Issued rec made \<Rightarrow> IssueIssued made
   | ReconciledCapped date \<Rightarrow> IssueCapped date
   | Lost \<Rightarrow> IssueFailed
   | ReconciledOutOfTime \<Rightarrow> IssueFailed)"

definition issue_for :: "'s gateway \<Rightarrow> cal_ops \<Rightarrow> string \<Rightarrow> ('s, issue_outcome option) gw_prog" where
  "issue_for gw cal sub =
     (case key_name sub of
        None \<Rightarrow> gw_return (Some IssueFailed)
      | Some name \<Rightarrow> gw_bind (gw_try (reconcile gw cal name)) (\<lambda>r.
          gw_return (case r of
            Inl e \<Rightarrow> Some IssueFailed
          | Inr r \<Rightarrow> map_option outcome_of_reconcile r)))"

end
