(* ===== verification/Key_Safety.thy ===== *)
theory Key_Safety
  imports Key_Issue
begin

text \<open>
  What the reconciler may write, whatever the control plane answers and whoever else works on it: it creates only what
  the cap allows and no listed key makes superfluous, attaches a key to the plan of the newest revoked key of the same
  user that is not on the free one, to the free plan where there is none such, and deletes only keys of the user's exact name, once another one is on a plan.
\<close>

section \<open>Facts of a log\<close>

definition seen :: "string \<Rightarrow> bool \<Rightarrow> key_event list \<Rightarrow> string \<Rightarrow> bool" where
  "seen name enabled evs k \<longleftrightarrow> (\<exists>pre records r. Listed pre records \<in> set evs \<and> r \<in> set records \<and> kr_id r = k \<and> kr_name r = name \<and> kr_enabled r = enabled)"

definition made_here :: "string \<Rightarrow> key_event list \<Rightarrow> string \<Rightarrow> bool" where
  "made_here name evs k \<longleftrightarrow> (\<exists>r. Created name (Some r) \<in> set evs \<and> kr_id r = k)"

definition is_live :: "string \<Rightarrow> key_event list \<Rightarrow> string \<Rightarrow> bool" where
  "is_live name evs k \<longleftrightarrow> seen name True evs k \<or> made_here name evs k"

definition on_plan :: "key_event list \<Rightarrow> string \<Rightarrow> bool" where
  "on_plan evs k \<longleftrightarrow> (\<exists>p. PlanOf k (Some p) \<in> set evs \<or> Attached k p (Some OnPlan) \<in> set evs)"

lemma facts_append:
  "seen name b evs k \<Longrightarrow> seen name b (evs @ later) k"
  "made_here name evs k \<Longrightarrow> made_here name (evs @ later) k"
  "is_live name evs k \<Longrightarrow> is_live name (evs @ later) k"
  "on_plan evs k \<Longrightarrow> on_plan (evs @ later) k"
  by (auto simp: seen_def made_here_def is_live_def on_plan_def)

lemma seen_listed: "Listed pre records \<in> set evs \<Longrightarrow> r \<in> set records \<Longrightarrow> kr_name r = name \<Longrightarrow> kr_enabled r = b \<Longrightarrow> seen name b evs (kr_id r)"
  unfolding seen_def by blast

text \<open>
  The listing that lets a key be created: no enabled key, and no revocation the cap still holds against in the month
  the clock has just shown.
\<close>

definition may_create :: "cal_ops \<Rightarrow> string \<Rightarrow> key_event list \<Rightarrow> bool" where
  "may_create cal name evs \<longleftrightarrow> (\<exists>before records rest. evs = before @ Listed name records # rest \<and>
     filter kr_enabled (exact_matches records name) = [] \<and>
     (rest = [] \<and> exact_matches records name = [] \<or>
      (\<exists>today p. rest = [Today today] \<and> period_containing cal today = Some p \<and>
         decide cal (revocation_instant (exact_matches records name)) p = Allowed)))"

definition disabled_keys :: "key_record list \<Rightarrow> string \<Rightarrow> key_record list" where
  "disabled_keys records name = filter (\<lambda>r. \<not> kr_enabled r) (exact_matches records name)"

text \<open>What an attempt logs between its first listing and the choice of a plan: nothing, or the creation of a key.\<close>

definition creation_of :: "string \<Rightarrow> key_event list \<Rightarrow> bool" where
  "creation_of name mid \<longleftrightarrow> mid = [] \<or> (\<exists>today r found. mid = today @ [Created name (Some r), Listed name found] \<and> (today = [] \<or> (\<exists>d. today = [Today d])))"

text \<open>
  The plan kept: the plans of the disabled keys are read newest first, as long as they are the free plan or none. The
  first other one is kept; the free plan is chosen only when all were read.
\<close>

fun kept_plan :: "string \<Rightarrow> key_record list \<Rightarrow> key_event list \<Rightarrow> string \<Rightarrow> bool" where
  "kept_plan free [] [] p \<longleftrightarrow> p = free"
| "kept_plan free (r # records) (PlanOf k plan # reads) p \<longleftrightarrow> k = kr_id r \<and>
     (if plan = None \<or> plan = Some free then kept_plan free records reads p else reads = [] \<and> plan = Some p)"
| "kept_plan free records reads p \<longleftrightarrow> False"

text \<open>An attempt that has listed, and created where it had to; \<open>revoked\<close> are the disabled keys of its listing.\<close>

definition opened :: "string \<Rightarrow> key_record list \<Rightarrow> key_event list \<Rightarrow> bool" where
  "opened name revoked evs \<longleftrightarrow> (\<exists>earlier records mid. evs = earlier @ Listed name records # mid \<and> creation_of name mid \<and>
     revoked = disabled_keys records name)"

definition attach_ok :: "'s gateway \<Rightarrow> string \<Rightarrow> key_event list \<Rightarrow> string \<Rightarrow> string \<Rightarrow> bool" where
  "attach_ok gw name evs k p \<longleftrightarrow> is_live name evs k \<and>
     (\<exists>before revoked reads. evs = before @ PlanOf k None # reads \<and> opened name revoked before \<and>
        kept_plan (gw_free_plan_id gw) (revoked_newest_first revoked) reads p)"

definition justified :: "'s gateway \<Rightarrow> cal_ops \<Rightarrow> string \<Rightarrow> key_event list \<Rightarrow> key_event \<Rightarrow> bool" where
  "justified gw cal name evs ev = (case ev of
     Created n r \<Rightarrow> n = name \<and> may_create cal name evs
   | Attached k p a \<Rightarrow> attach_ok gw name evs k p
   | Deleted k \<Rightarrow> (seen name False evs k \<or> is_live name evs k) \<and>
       (\<exists>w. is_live name evs w \<and> on_plan evs w \<and> (w = k \<longrightarrow> seen name False evs k))
   | Disabled k d \<Rightarrow> False
   | _ \<Rightarrow> True)"

definition sound :: "'s gateway \<Rightarrow> cal_ops \<Rightarrow> string \<Rightarrow> key_event list \<Rightarrow> bool" where
  "sound gw cal name evs \<longleftrightarrow> (\<forall>before ev after. evs = before @ ev # after \<longrightarrow> justified gw cal name before ev)"

lemma sound_Nil [simp]: "sound gw cal name []"
  by (simp add: sound_def)

lemma sound_snoc: "sound gw cal name (evs @ [ev]) \<longleftrightarrow> sound gw cal name evs \<and> justified gw cal name evs ev"
proof
  assume s: "sound gw cal name (evs @ [ev])"
  have "justified gw cal name before e" if "evs = before @ e # after" for before e after
    using s that unfolding sound_def by (metis append.assoc append_Cons)
  then show "sound gw cal name evs \<and> justified gw cal name evs ev"
    using s by (auto simp: sound_def)
next
  assume "sound gw cal name evs \<and> justified gw cal name evs ev"
  then show "sound gw cal name (evs @ [ev])"
    unfolding sound_def by (metis append_eq_append_conv2 append_Cons append_butlast_last_id butlast.simps(2) butlast_append
        butlast_snoc last_ConsL last_appendR last_snoc list.distinct(1) append_self_conv)
qed

section \<open>Programs\<close>

text \<open>From a sound log satisfying \<open>pre\<close>, a program leaves a sound one; a result satisfies \<open>post\<close> of the longer log.\<close>

definition writes_well :: "(key_event list \<Rightarrow> bool) \<Rightarrow> (key_event list \<Rightarrow> bool) \<Rightarrow> ('s, 'a) gw_prog \<Rightarrow> ('a \<Rightarrow> key_event list \<Rightarrow> bool) \<Rightarrow> bool" where
  "writes_well S pre m post \<longleftrightarrow> (\<forall>st. S (gs_log st) \<longrightarrow> pre (gs_log st) \<longrightarrow>
     (case m st of
        Inl (e, st') \<Rightarrow> S (gs_log st')
      | Inr (x, st') \<Rightarrow> S (gs_log st') \<and> (\<exists>later. gs_log st' = gs_log st @ later) \<and> post x (gs_log st')))"

lemma writes_wellI:
  fixes m :: "('s, 'a) gw_prog"
  assumes "\<And>st e st'. S (gs_log st) \<Longrightarrow> pre (gs_log st) \<Longrightarrow> m st = Inl (e, st') \<Longrightarrow> S (gs_log st')"
    and "\<And>st x st'. S (gs_log st) \<Longrightarrow> pre (gs_log st) \<Longrightarrow> m st = Inr (x, st') \<Longrightarrow>
      S (gs_log st') \<and> (\<exists>later. gs_log st' = gs_log st @ later) \<and> post x (gs_log st')"
  shows "writes_well S pre m post"
  unfolding writes_well_def
proof (intro allI impI)
  fix st :: "'s gw_state"
  assume st: "S (gs_log st)" "pre (gs_log st)"
  show "case m st of Inl (e, st') \<Rightarrow> S (gs_log st')
      | Inr (x, st') \<Rightarrow> S (gs_log st') \<and> (\<exists>later. gs_log st' = gs_log st @ later) \<and> post x (gs_log st')"
    using assms(1) [OF st] assms(2) [OF st] by (cases "m st") auto
qed

lemma writes_well_Inl: "writes_well S pre m post \<Longrightarrow> m st = Inl (e, st') \<Longrightarrow> S (gs_log st) \<Longrightarrow> pre (gs_log st) \<Longrightarrow> S (gs_log st')"
  unfolding writes_well_def by fastforce

lemma writes_well_Inr: "writes_well S pre m post \<Longrightarrow> m st = Inr (x, st') \<Longrightarrow> S (gs_log st) \<Longrightarrow> pre (gs_log st) \<Longrightarrow>
    S (gs_log st') \<and> (\<exists>later. gs_log st' = gs_log st @ later) \<and> post x (gs_log st')"
  unfolding writes_well_def by fastforce

lemma log_bind:
  assumes m: "writes_well S pre m mid" and f: "\<And>x. writes_well S (pre' x) (f x) post"
    and mid: "\<And>x evs later. pre evs \<Longrightarrow> mid x (evs @ later) \<Longrightarrow> pre' x (evs @ later)"
  shows "writes_well S pre (gw_bind m f) post"
proof (rule writes_wellI)
  fix st e st'
  assume "S (gs_log st)" "pre (gs_log st)" "gw_bind m f st = Inl (e, st')"
  then show "S (gs_log st')"
    using writes_well_Inl [OF m, of st] writes_well_Inr [OF m, of st] writes_well_Inl [OF f] mid
    by (cases "m st") (fastforce simp: gw_bind_def)+
next
  fix st x st'
  assume *: "S (gs_log st)" "pre (gs_log st)" "gw_bind m f st = Inr (x, st')"
  then obtain y st1 where y: "m st = Inr (y, st1)" "f y st1 = Inr (x, st')"
    by (cases "m st") (auto simp: gw_bind_def)
  obtain later where later: "S (gs_log st1)" "gs_log st1 = gs_log st @ later" "mid y (gs_log st1)"
    using writes_well_Inr [OF m y(1) *(1,2)] by blast
  have "pre' y (gs_log st1)" using mid [of "gs_log st" y later] *(2) later by simp
  then show "S (gs_log st') \<and> (\<exists>later. gs_log st' = gs_log st @ later) \<and> post x (gs_log st')"
    using writes_well_Inr [OF f y(2) later(1)] later(2) by auto
qed

lemma writes_then:
  "writes_well S pre m mid \<Longrightarrow> (\<And>x. writes_well S (mid x) (f x) post) \<Longrightarrow> writes_well S pre (gw_bind m f) post"
  by (rule log_bind) assumption+

lemma log_if: "(b \<Longrightarrow> writes_well S pre m post) \<Longrightarrow> (\<not> b \<Longrightarrow> writes_well S pre m' post) \<Longrightarrow> writes_well S pre (if b then m else m') post"
  by simp

lemma writes_conseq:
  "writes_well S pre m post \<Longrightarrow> (\<And>evs. pre' evs \<Longrightarrow> pre evs) \<Longrightarrow> (\<And>x evs. post x evs \<Longrightarrow> post' x evs) \<Longrightarrow> writes_well S pre' m post'"
  unfolding writes_well_def by (fastforce split: sum.split)

lemma writes_return: "(\<And>evs. pre evs \<Longrightarrow> post x evs) \<Longrightarrow> writes_well S pre (gw_return x) post"
  by (simp add: writes_well_def gw_return_def)

lemma writes_fail: "writes_well S pre (gw_fail e) post"
  by (simp add: writes_well_def gw_fail_def)

lemma writes_call: "(\<And>x evs. pre evs \<Longrightarrow> post x evs) \<Longrightarrow> writes_well S pre (gw_call c) post"
  by (auto simp: writes_well_def gw_call_def split: prod.split)

lemma writes_peek: "(\<And>x evs. pre evs \<Longrightarrow> post x evs) \<Longrightarrow> writes_well S pre (gw_peek c) post"
  by (auto simp: writes_well_def gw_peek_def)

lemma writes_log:
  "(\<And>evs. S evs \<Longrightarrow> pre evs \<Longrightarrow> S (evs @ [ev])) \<Longrightarrow> (\<And>evs. pre evs \<Longrightarrow> post () (evs @ [ev])) \<Longrightarrow> writes_well S pre (gw_log ev) post"
  by (auto simp: writes_well_def gw_log_def)

definition stable :: "(key_event list \<Rightarrow> bool) \<Rightarrow> bool" where
  "stable F \<longleftrightarrow> (\<forall>evs later. F evs \<longrightarrow> F (evs @ later))"

lemma stableD: "stable F \<Longrightarrow> F evs \<Longrightarrow> F (evs @ later)"
  by (simp add: stable_def)

lemma stable_facts:
  "stable (\<lambda>_. True)" "stable (\<lambda>evs. seen name b evs k)" "stable (\<lambda>evs. is_live name evs k)" "stable (\<lambda>evs. on_plan evs k)"
  "stable (\<lambda>evs. ev \<in> set evs)"
  "stable F \<Longrightarrow> stable G \<Longrightarrow> stable (\<lambda>evs. F evs \<and> G evs)"
  "(\<And>x. x \<in> A \<Longrightarrow> stable (H x)) \<Longrightarrow> stable (\<lambda>evs. \<forall>x \<in> A. H x evs)"
  by (auto simp: stable_def facts_append)

lemma sound_quiet: "sound gw cal name evs \<Longrightarrow> sound gw cal name (evs @ [Listed n records])" "sound gw cal name evs \<Longrightarrow> sound gw cal name (evs @ [PlanOf k p])"
  "sound gw cal name evs \<Longrightarrow> sound gw cal name (evs @ [Today q])"
  by (simp_all add: sound_snoc justified_def)

section \<open>Reads\<close>

lemma plan_pages_well: "writes_well S F (plan_pages gw k n position plans) (\<lambda>_. F)"
proof (induction n arbitrary: position plans)
  case (Suc n)
  show ?case
    unfolding plan_pages.simps
    by (rule writes_then [OF writes_call [where post = "\<lambda>_. F"]])
      (auto intro!: writes_return writes_fail Suc split: sum.split option.split)
qed (simp add: writes_fail)

lemma plan_of_exact:
  "writes_well (sound gw cal name) F (plan_of gw' k) (\<lambda>plan evs. \<exists>before. evs = before @ [PlanOf k (map_option pl_id plan)] \<and> F before)"
  unfolding plan_of_def
proof (rule writes_then [OF plan_pages_well])
  fix plan
  show "writes_well (sound gw cal name) F (gw_bind (gw_log (PlanOf k (map_option pl_id plan))) (\<lambda>_. gw_return plan))
      (\<lambda>plan evs. \<exists>before. evs = before @ [PlanOf k (map_option pl_id plan)] \<and> F before)"
    by (rule writes_then [OF writes_log [where post = "\<lambda>_ evs. \<exists>before. evs = before @ [PlanOf k (map_option pl_id plan)] \<and> F before"]])
      (auto intro: writes_return sound_quiet)
qed

lemma plan_of_well:
  assumes "stable F"
  shows "writes_well (sound gw cal name) F (plan_of gw' k) (\<lambda>plan evs. F evs \<and> PlanOf k (map_option pl_id plan) \<in> set evs)"
  by (rule writes_conseq [OF plan_of_exact [where F = F]]) (auto intro: stableD [OF assms])

lemma list_pages_well: "writes_well S F (list_pages gw pre n position found) (\<lambda>_. F)"
proof (induction n arbitrary: position found)
  case (Suc n)
  show ?case
    unfolding list_pages.simps
    by (rule writes_then [OF writes_call [where post = "\<lambda>_. F"]])
      (auto intro!: writes_return writes_fail Suc split: sum.split option.split)
qed (simp add: writes_fail)

lemma list_named_exact:
  "writes_well (sound gw cal name) F (list_named gw' n) (\<lambda>found evs. \<exists>before. evs = before @ [Listed n found] \<and> F before)"
  unfolding list_named_def
proof (rule writes_then [OF list_pages_well])
  fix found
  show "writes_well (sound gw cal name) F (gw_bind (gw_log (Listed n found)) (\<lambda>_. gw_return found))
      (\<lambda>found evs. \<exists>before. evs = before @ [Listed n found] \<and> F before)"
    by (rule writes_then [OF writes_log [where post = "\<lambda>_ evs. \<exists>before. evs = before @ [Listed n found] \<and> F before"]])
      (auto intro: writes_return sound_quiet)
qed

lemma read_key_well: "writes_well S F (value_of gw k) (\<lambda>_. F)" "writes_well S F (key_exists gw k) (\<lambda>_. F)"
  unfolding value_of_def key_exists_def
  by (rule writes_then [OF writes_call [where post = "\<lambda>_. F"]]; auto intro!: writes_return writes_fail split: sum.split option.split prod.split)+

lemma key_exists_quiet: "writes_well S F (gw_try (key_exists gw k)) (\<lambda>_. F)"
  by (auto simp: writes_well_def gw_try_def key_exists_def gw_bind_def gw_call_def gw_return_def gw_fail_def
      split: prod.splits sum.splits if_splits)

lemma read_today_well:
  "writes_well (sound gw cal name) F (read_today gw') (\<lambda>today evs. \<exists>before. evs = before @ [Today today] \<and> F before)"
  unfolding read_today_def
proof (rule writes_then [OF writes_peek [where post = "\<lambda>_. F"]])
  fix d
  show "writes_well (sound gw cal name) F (gw_bind (gw_log (Today d)) (\<lambda>_. gw_return d)) (\<lambda>today evs. \<exists>before. evs = before @ [Today today] \<and> F before)"
    by (rule writes_then [OF writes_log [where post = "\<lambda>_ evs. \<exists>before. evs = before @ [Today d] \<and> F before"]])
      (auto intro: writes_return sound_quiet)
qed assumption

section \<open>Writes\<close>

lemma create_key_well:
  "writes_well (sound gw cal name) (\<lambda>evs. F evs \<and> may_create cal name evs) (create_key gw' name)
    (\<lambda>r evs. \<exists>before. evs = before @ [Created name (Some (fst r))] \<and> F before \<and> kr_name (fst r) = name)"
  unfolding create_key_def
proof (rule writes_then [OF writes_call [where post = "\<lambda>_ evs. F evs \<and> may_create cal name evs"]], assumption)
  fix answer :: "(sdk_error, sdk_key) result"
  have logs: "writes_well (sound gw cal name) (\<lambda>evs. F evs \<and> may_create cal name evs) (gw_log (Created name r))
      (\<lambda>_ evs. \<exists>before. evs = before @ [Created name r] \<and> F before)" for r
    by (rule writes_log) (auto simp: sound_snoc justified_def)
  show "writes_well (sound gw cal name) (\<lambda>evs. F evs \<and> may_create cal name evs)
     (case answer of
       Inl (kind, message) \<Rightarrow> gw_bind (gw_log (Created name None)) (\<lambda>_. gw_fail (Call ''CreateApiKey'' message))
     | Inr key \<Rightarrow>
         (case sk_id key of
            None \<Rightarrow> gw_bind (gw_log (Created name None)) (\<lambda>_. gw_fail (Incomplete ''CreateApiKey'' ''id''))
          | Some key_id \<Rightarrow>
              (case sk_value key of
                 None \<Rightarrow> gw_bind (gw_log (Created name None)) (\<lambda>_. gw_fail (Incomplete ''CreateApiKey'' ''value''))
               | Some v \<Rightarrow>
                   (let rec = \<lparr>kr_id = key_id, kr_name = name, kr_created_at = Option.bind (sk_created key) unsigned,
                      kr_enabled = sk_enabled key, kr_last_updated_at = Option.bind (sk_last_updated key) unsigned\<rparr>
                    in gw_bind (gw_log (Created name (Some rec))) (\<lambda>_. gw_return (rec, v))))))
     (\<lambda>r evs. \<exists>before. evs = before @ [Created name (Some (fst r))] \<and> F before \<and> kr_name (fst r) = name)"
    unfolding Let_def
    by (auto intro!: writes_then [OF logs] writes_fail writes_return split: sum.split option.split)
qed

lemma attach_to_plan_well:
  assumes "stable F"
  shows "writes_well (sound gw cal name) (\<lambda>evs. F evs \<and> attach_ok gw name evs k p) (attach_to_plan gw' k p)
    (\<lambda>a evs. F evs \<and> (a = OnPlan \<longrightarrow> on_plan evs k))"
proof -
  have logs: "writes_well (sound gw cal name) (\<lambda>evs. F evs \<and> attach_ok gw name evs k p) (gw_log (Attached k p a))
      (\<lambda>_ evs. F evs \<and> (a = Some OnPlan \<longrightarrow> on_plan evs k))" for a
    by (rule writes_log) (auto simp: sound_snoc justified_def on_plan_def intro: stableD [OF assms])
  have settle: "writes_well (sound gw cal name) (\<lambda>evs. F evs \<and> attach_ok gw name evs k p)
      (gw_bind (gw_log (Attached k p (Some a))) (\<lambda>_. gw_return a)) (\<lambda>a evs. F evs \<and> (a = OnPlan \<longrightarrow> on_plan evs k))" for a
    by (rule writes_then [OF logs]) (auto intro!: writes_return)
  have refuse: "writes_well (sound gw cal name) (\<lambda>evs. F evs \<and> attach_ok gw name evs k p)
      (gw_bind (gw_log (Attached k p None)) (\<lambda>_. gw_fail e)) (\<lambda>a evs. F evs \<and> (a = OnPlan \<longrightarrow> on_plan evs k))" for e
    by (rule writes_then [OF logs]) (auto intro!: writes_fail)
  have gone: "writes_well (sound gw cal name) (\<lambda>evs. F evs \<and> attach_ok gw name evs k p)
      (gw_bind (gw_try (key_exists gw' k)) (\<lambda>r. case r of
           Inl e \<Rightarrow> gw_bind (gw_log (Attached k p None)) (\<lambda>_. gw_fail e)
         | Inr alive \<Rightarrow> if alive then gw_bind (gw_log (Attached k p None)) (\<lambda>_. gw_fail (PlanNotFound p))
             else gw_bind (gw_log (Attached k p (Some KeyGone))) (\<lambda>_. gw_return KeyGone))) (\<lambda>a evs. F evs \<and> (a = OnPlan \<longrightarrow> on_plan evs k))"
    by (rule writes_then [OF key_exists_quiet]) (auto intro: settle refuse split: sum.split)
  show ?thesis
    unfolding attach_to_plan_def Let_def
    by (rule writes_then [OF writes_call [where post = "\<lambda>_ evs. F evs \<and> attach_ok gw name evs k p"]])
      (auto intro: settle refuse gone split: sum.split sdk_kind.split)
qed

lemma attach_well:
  assumes "stable F"
  shows "writes_well (sound gw cal name) (\<lambda>evs. F evs \<and> attach_ok gw name evs k p) (attach gw' k p)
    (\<lambda>s evs. F evs \<and> (s = Ready \<longrightarrow> on_plan evs k))"
  unfolding attach_def
proof (rule writes_then [OF attach_to_plan_well [OF assms]])
  fix a
  have "writes_well (sound gw cal name) F
      (gw_bind (plan_of gw' k) (\<lambda>plan. gw_return (case plan of Some _ \<Rightarrow> Ready | None \<Rightarrow> SettledRetry)))
      (\<lambda>s evs. F evs \<and> (s = Ready \<longrightarrow> on_plan evs k))"
    by (rule writes_then [OF plan_of_well [OF assms]]) (rule writes_return, auto simp: on_plan_def split: option.splits)
  then have "writes_well (sound gw cal name) (\<lambda>evs. F evs \<and> (a = OnPlan \<longrightarrow> on_plan evs k))
      (gw_bind (plan_of gw' k) (\<lambda>plan. gw_return (case plan of Some _ \<Rightarrow> Ready | None \<Rightarrow> SettledRetry)))
      (\<lambda>s evs. F evs \<and> (s = Ready \<longrightarrow> on_plan evs k))"
    by (rule writes_conseq) auto
  then show "writes_well (sound gw cal name) (\<lambda>evs. F evs \<and> (a = OnPlan \<longrightarrow> on_plan evs k))
      (case a of OnPlan \<Rightarrow> gw_return Ready
       | AlreadyOnAPlan \<Rightarrow> gw_bind (plan_of gw' k) (\<lambda>plan. gw_return (case plan of Some _ \<Rightarrow> Ready | None \<Rightarrow> SettledRetry))
       | KeyGone \<Rightarrow> gw_return SettledRetry)
      (\<lambda>s evs. F evs \<and> (s = Ready \<longrightarrow> on_plan evs k))"
    by (cases a) (auto intro!: writes_return)
qed

section \<open>The plan of a key\<close>

definition all_revoked :: "string \<Rightarrow> key_record list \<Rightarrow> key_event list \<Rightarrow> bool" where
  "all_revoked name records evs \<longleftrightarrow> (\<forall>r \<in> set records. kr_name r = name \<longrightarrow> seen name False evs (kr_id r))"

lemma stable_all_revoked: "stable (all_revoked name records)"
  by (auto simp: stable_def all_revoked_def facts_append)

lemma opened_all_revoked: "opened name revoked evs \<Longrightarrow> all_revoked name revoked evs"
  by (auto simp: opened_def all_revoked_def disabled_keys_def exact_matches_def intro!: seen_listed)

lemma previous_plan_well:
  "writes_well (sound gw cal name) F (previous_plan gw' records)
    (\<lambda>kept evs. \<exists>before reads. evs = before @ reads \<and> F before \<and>
      kept_plan (gw_free_plan_id gw') records reads (case kept of Some p \<Rightarrow> p | None \<Rightarrow> gw_free_plan_id gw'))"
proof (induction records arbitrary: F)
  case Nil
  have "\<exists>before reads. evs = before @ reads \<and> F before \<and> kept_plan (gw_free_plan_id gw') [] reads (gw_free_plan_id gw')" if "F evs" for evs
    using that by (intro exI [of _ evs] exI [of _ "[]"]) simp
  then show ?case by (auto intro!: writes_return)
next
  case (Cons r records)
  let ?free = "gw_free_plan_id gw'"
  let ?post = "\<lambda>kept evs. \<exists>before reads. evs = before @ reads \<and> F before \<and>
      kept_plan ?free (r # records) reads (case kept of Some p \<Rightarrow> p | None \<Rightarrow> ?free)"
  have step: "writes_well (sound gw cal name) (\<lambda>evs. \<exists>before. evs = before @ [PlanOf (kr_id r) (map_option pl_id plan)] \<and> F before)
     (case plan of None \<Rightarrow> previous_plan gw' records
      | Some p \<Rightarrow> if pl_id p = ?free then previous_plan gw' records else gw_return (Some (pl_id p))) ?post" for plan
  proof -
    have rest: "writes_well (sound gw cal name) (\<lambda>evs. \<exists>before. evs = before @ [PlanOf (kr_id r) (map_option pl_id plan)] \<and> F before)
       (previous_plan gw' records) ?post" if free: "map_option pl_id plan \<in> {None, Some ?free}"
    proof (rule writes_conseq [OF Cons.IH], assumption)
      fix kept evs
      assume "\<exists>before reads. evs = before @ reads \<and> (\<exists>before'. before = before' @ [PlanOf (kr_id r) (map_option pl_id plan)] \<and> F before') \<and>
          kept_plan ?free records reads (case kept of Some p \<Rightarrow> p | None \<Rightarrow> ?free)"
      then obtain before reads where "evs = before @ PlanOf (kr_id r) (map_option pl_id plan) # reads" "F before"
          "kept_plan ?free records reads (case kept of Some p \<Rightarrow> p | None \<Rightarrow> ?free)"
        by auto
      moreover from this free have "kept_plan ?free (r # records) (PlanOf (kr_id r) (map_option pl_id plan) # reads) (case kept of Some p \<Rightarrow> p | None \<Rightarrow> ?free)"
        by auto
      ultimately show "?post kept evs" by blast
    qed
    show ?thesis
    proof (cases "map_option pl_id plan \<in> {None, Some ?free}")
      case True
      then show ?thesis using rest by (auto split: option.split)
    next
      case False
      then obtain p where p: "plan = Some p" "pl_id p \<noteq> ?free" by (cases plan) auto
      have "?post (Some (pl_id p)) (before @ [PlanOf (kr_id r) (Some (pl_id p))])" if "F before" for before
        using that p by (intro exI [of _ before] exI [of _ "[PlanOf (kr_id r) (Some (pl_id p))]"]) simp
      then show ?thesis using p by (auto intro!: writes_return)
    qed
  qed
  show ?case
    unfolding previous_plan.simps
    by (rule writes_then [OF plan_of_exact step])
qed

lemma resolve_well:
  assumes "stable F"
  shows "writes_well (sound gw cal name) (\<lambda>evs. F evs \<and> opened name revoked evs \<and> is_live name evs k) (resolve_target_plan gw k revoked)
    (\<lambda>target evs. F evs \<and> (case target of None \<Rightarrow> on_plan evs k | Some p \<Rightarrow> attach_ok gw name evs k p))"
  unfolding resolve_target_plan_def
proof (rule writes_then [OF plan_of_exact])
  let ?P = "\<lambda>evs. F evs \<and> opened name revoked evs \<and> is_live name evs k"
  let ?post = "\<lambda>target evs. F evs \<and> (case target of None \<Rightarrow> on_plan evs k | Some p \<Rightarrow> attach_ok gw name evs k p)"
  let ?free = "gw_free_plan_id gw"
  fix own
  show "writes_well (sound gw cal name) (\<lambda>evs. \<exists>before. evs = before @ [PlanOf k (map_option pl_id own)] \<and> ?P before)
     (if own \<noteq> None then gw_return None
      else gw_bind (previous_plan gw (revoked_newest_first revoked)) (\<lambda>kept. gw_return (Some (case kept of Some p \<Rightarrow> p | None \<Rightarrow> ?free)))) ?post"
  proof (cases own)
    case None
    have "writes_well (sound gw cal name) (\<lambda>evs. \<exists>before. evs = before @ [PlanOf k None] \<and> ?P before)
        (gw_bind (previous_plan gw (revoked_newest_first revoked)) (\<lambda>kept. gw_return (Some (case kept of Some p \<Rightarrow> p | None \<Rightarrow> ?free)))) ?post"
    proof (rule writes_then [OF previous_plan_well], rule writes_return)
      fix kept evs
      assume "\<exists>before reads. evs = before @ reads \<and> (\<exists>before'. before = before' @ [PlanOf k None] \<and> ?P before') \<and>
          kept_plan ?free (revoked_newest_first revoked) reads (case kept of Some p \<Rightarrow> p | None \<Rightarrow> ?free)"
      then obtain before reads where evs: "evs = before @ PlanOf k None # reads" and P: "?P before"
          and kept: "kept_plan ?free (revoked_newest_first revoked) reads (case kept of Some p \<Rightarrow> p | None \<Rightarrow> ?free)"
        by auto
      have "F evs" "is_live name evs k" using P stableD [OF assms] facts_append(3) unfolding evs by blast+
      then show "?post (Some (case kept of Some p \<Rightarrow> p | None \<Rightarrow> ?free)) evs"
        using evs P kept by (auto simp: attach_ok_def)
    qed
    then show ?thesis by (simp add: None)
  next
    case (Some plan)
    then show ?thesis by (auto intro!: writes_return stableD [OF assms] simp: on_plan_def)
  qed
qed

lemma settle_well:
  assumes "stable F"
  shows "writes_well (sound gw cal name) (\<lambda>evs. F evs \<and> opened name revoked evs \<and> is_live name evs k) (settle_plan gw k revoked)
    (\<lambda>s evs. F evs \<and> (s = Ready \<longrightarrow> on_plan evs k))"
  unfolding settle_plan_def
proof (rule writes_then [OF resolve_well [OF assms]])
  fix target
  show "writes_well (sound gw cal name) (\<lambda>evs. F evs \<and> (case target of None \<Rightarrow> on_plan evs k | Some p \<Rightarrow> attach_ok gw name evs k p))
     (case target of None \<Rightarrow> gw_return Ready | Some plan_id \<Rightarrow> attach gw k plan_id) (\<lambda>s evs. F evs \<and> (s = Ready \<longrightarrow> on_plan evs k))"
    by (cases target) (auto intro: writes_return attach_well [OF assms])
qed

section \<open>An attempt\<close>

definition sweepable :: "string \<Rightarrow> string \<Rightarrow> key_record list \<Rightarrow> key_event list \<Rightarrow> bool" where
  "sweepable name w records evs \<longleftrightarrow> is_live name evs w \<and> on_plan evs w \<and>
     (\<forall>r \<in> set records. kr_name r = name \<longrightarrow>
        (seen name False evs (kr_id r) \<or> is_live name evs (kr_id r)) \<and> (kr_id r = w \<longrightarrow> seen name False evs (kr_id r)))"

lemma stable_sweepable: "stable (sweepable name w records)"
  unfolding stable_def sweepable_def by (blast intro: facts_append)

lemma delete_well:
  assumes "stable F"
  shows "writes_well (sound gw cal name) (\<lambda>evs. F evs \<and> (\<exists>w. sweepable name w [r] evs) \<and> kr_name r = name) (gw_try (delete_key gw' (kr_id r))) (\<lambda>_. F)"
proof (rule writes_wellI)
  fix st e st'
  assume "gw_try (delete_key gw' (kr_id r)) st = Inl (e, st')"
  then show "sound gw cal name (gs_log st')" by (auto simp: gw_try_def split: sum.splits)
next
  fix st x st'
  assume S: "sound gw cal name (gs_log st)" and pre: "F (gs_log st) \<and> (\<exists>w. sweepable name w [r] (gs_log st)) \<and> kr_name r = name"
    and run: "gw_try (delete_key gw' (kr_id r)) st = Inr (x, st')"
  have gs_log: "gs_log st' = gs_log st @ [Deleted (kr_id r)]"
    using run by (auto simp: gw_try_def delete_key_def gw_bind_def gw_call_def gw_log_def gw_return_def gw_fail_def rbind_def
        split: sum.splits prod.splits if_splits)
  have "justified gw cal name (gs_log st) (Deleted (kr_id r))"
    using pre by (auto simp: justified_def sweepable_def)
  then show "sound gw cal name (gs_log st') \<and> (\<exists>later. gs_log st' = gs_log st @ later) \<and> F (gs_log st')"
    using S pre stableD [OF assms] by (auto simp: gs_log sound_snoc)
qed

lemma sweep_well:
  assumes "stable F"
  shows "writes_well (sound gw cal name) (\<lambda>evs. F evs \<and> sweepable name w records evs) (sweep_keys gw' name records) (\<lambda>_. F)"
proof (induction records)
  case Nil
  show ?case by (auto intro: writes_return)
next
  case (Cons r records)
  have rest: "writes_well (sound gw cal name) (\<lambda>evs. F evs \<and> sweepable name w (r # records) evs) (sweep_keys gw' name records) (\<lambda>_. F)"
    by (rule writes_conseq [OF Cons]) (auto simp: sweepable_def)
  show ?case
  proof (cases "kr_name r = name")
    case True
    have stable: "stable (\<lambda>evs. F evs \<and> sweepable name w (r # records) evs)"
      by (intro stable_facts assms stable_sweepable)
    have one: "writes_well (sound gw cal name) (\<lambda>evs. F evs \<and> sweepable name w (r # records) evs) (gw_try (delete_key gw' (kr_id r)))
        (\<lambda>_ evs. F evs \<and> sweepable name w (r # records) evs)"
      by (rule writes_conseq [OF delete_well [OF stable, of gw cal name r gw']]) (use True in \<open>auto simp: sweepable_def\<close>)
    have "sweep_keys gw' name (r # records) = gw_bind (gw_try (delete_key gw' (kr_id r))) (\<lambda>_. sweep_keys gw' name records)"
      using True by simp
    then show ?thesis using writes_then [OF one rest] by simp
  qed (simp add: rest)
qed

definition candidate :: "string \<Rightarrow> key_event list \<Rightarrow> key_record \<Rightarrow> bool" where
  "candidate name evs r \<longleftrightarrow> kr_name r = name \<and> is_live name evs (kr_id r)"

lemma stable_candidate: "stable (\<lambda>evs. candidate name evs r)"
  by (auto simp: stable_def candidate_def facts_append)

lemma converge_well:
  assumes "stable F"
  shows "writes_well (sound gw cal name) (\<lambda>evs. F evs \<and> opened name revoked evs \<and> (\<forall>r \<in> set candidates. candidate name evs r))
    (converge gw name candidates revoked made) (\<lambda>_. F)"
proof (cases "choose_winner candidates")
  case None
  then show ?thesis by (auto simp: converge_def intro: writes_return)
next
  case (Some w)
  let ?pre = "\<lambda>evs. F evs \<and> all_revoked name revoked evs \<and> (\<forall>r \<in> set candidates. candidate name evs r)"
  have w: "w \<in> set candidates" using min_by_key_Some [of rank candidates w] Some by (simp add: choose_winner_def)
  have stable: "stable ?pre" by (intro stable_facts assms stable_all_revoked stable_candidate)
  have plan: "writes_well (sound gw cal name) (\<lambda>evs. F evs \<and> opened name revoked evs \<and> (\<forall>r \<in> set candidates. candidate name evs r)) (settle_plan gw (kr_id w) revoked) (\<lambda>s evs. ?pre evs \<and> (s = Ready \<longrightarrow> on_plan evs (kr_id w)))"
    by (rule writes_conseq [OF settle_well [OF stable, of gw cal name revoked "kr_id w"]])
      (use w in \<open>auto simp: candidate_def opened_all_revoked\<close>)
  have sweep: "writes_well (sound gw cal name) (\<lambda>evs. ?pre evs \<and> (s = Ready \<longrightarrow> on_plan evs (kr_id w)))
      (sweep_keys gw name (losers candidates w @ revoked)) (\<lambda>_. F)" if "s \<noteq> SettledRetry" for s
  proof (rule writes_conseq [OF sweep_well [OF assms, of gw cal name "kr_id w" "losers candidates w @ revoked" gw]])
    fix evs
    assume "?pre evs \<and> (s = Ready \<longrightarrow> on_plan evs (kr_id w))"
    moreover have "s = Ready" using that by (cases s) auto
    ultimately show "F evs \<and> sweepable name (kr_id w) (losers candidates w @ revoked) evs"
      using w by (auto simp: sweepable_def candidate_def all_revoked_def losers_def)
  qed
  have finish: "writes_well (sound gw cal name) F
      (if (case made of Some rec \<Rightarrow> kr_id rec = kr_id w | None \<Rightarrow> False) then gw_return (Done w True)
       else gw_bind (value_of gw (kr_id w)) (\<lambda>v. gw_return (case v of Some _ \<Rightarrow> Done w False | None \<Rightarrow> Retry))) (\<lambda>_. F)"
    by (auto intro!: writes_return writes_then [OF read_key_well(1)])
  show ?thesis
    unfolding converge_def Some option.case
  proof (rule writes_then [OF plan], rule log_if)
    fix s
    assume "s \<noteq> SettledRetry"
    from writes_then [OF sweep [OF this] finish]
    show "writes_well (sound gw cal name) (\<lambda>evs. ?pre evs \<and> (s = Ready \<longrightarrow> on_plan evs (kr_id w)))
      (gw_bind (sweep_keys gw name (losers candidates w @ revoked)) (\<lambda>_.
        if (case made of Some rec \<Rightarrow> kr_id rec = kr_id w | None \<Rightarrow> False) then gw_return (Done w True)
        else gw_bind (value_of gw (kr_id w)) (\<lambda>v. gw_return (case v of Some _ \<Rightarrow> Done w False | None \<Rightarrow> Retry)))) (\<lambda>_. F)" .
  qed (auto intro: writes_return)
qed

text \<open>The log of an attempt when it comes to create: its listing, and perhaps the clock.\<close>

definition begun :: "string \<Rightarrow> key_record list \<Rightarrow> key_event list \<Rightarrow> bool" where
  "begun name revoked evs \<longleftrightarrow> (\<exists>earlier records today. evs = earlier @ Listed name records # today \<and> (today = [] \<or> (\<exists>d. today = [Today d])) \<and>
     revoked = disabled_keys records name)"

lemma opened_creation:
  assumes "begun name revoked evs"
  shows "opened name revoked (evs @ [Created name (Some r), Listed name found])"
proof -
  obtain earlier records today where *: "evs = earlier @ Listed name records # today" "today = [] \<or> (\<exists>d. today = [Today d])"
      "revoked = disabled_keys records name"
    using assms unfolding begun_def by blast
  then have "creation_of name (today @ [Created name (Some r), Listed name found])"
    unfolding creation_of_def by blast
  with * show ?thesis
    unfolding opened_def
    by (intro exI [of _ earlier] exI [of _ records] exI [of _ "today @ [Created name (Some r), Listed name found]"]) simp
qed

lemma create_and_converge_well:
  "writes_well (sound gw cal name) (\<lambda>evs. begun name revoked evs \<and> may_create cal name evs) (create_and_converge gw name revoked) (\<lambda>_ _. True)"
proof -
  let ?after = "\<lambda>made found evs. \<exists>before. evs = before @ [Created name (Some made), Listed name found] \<and> begun name revoked before"
  have opened: "opened name revoked evs" "made_here name evs (kr_id made)" "r \<in> set (filter kr_enabled (exact_matches found name) @ [made]) \<Longrightarrow> kr_name made = name \<Longrightarrow> candidate name evs r"
    if after: "?after made found evs" for made found evs r
  proof -
    obtain before where evs: "evs = before @ [Created name (Some made), Listed name found]" "begun name revoked before" using after by blast
    show "opened name revoked evs" unfolding evs(1) by (rule opened_creation [OF evs(2)])
    show made: "made_here name evs (kr_id made)" by (auto simp: evs(1) made_here_def)
    show "candidate name evs r" if "r \<in> set (filter kr_enabled (exact_matches found name) @ [made])" "kr_name made = name"
      using that made evs(1) by (auto simp: candidate_def is_live_def exact_matches_def intro!: seen_listed)
  qed
  have listed: "writes_well (sound gw cal name) (?after made found)
     (let candidates = filter kr_enabled (exact_matches found name)
      in if candidates = []
         then gw_bind (settle_plan gw (kr_id made) revoked) (\<lambda>s. gw_return (if s = SettledRetry then Retry else Done made True))
         else converge gw name (if kr_id made \<in> kr_id ` set candidates then candidates else candidates @ [made]) revoked (Some made)) (\<lambda>_ _. True)"
    if name: "kr_name made = name" for made found
  proof -
    have alone: "writes_well (sound gw cal name) (?after made found)
        (gw_bind (settle_plan gw (kr_id made) revoked) (\<lambda>s. gw_return (if s = SettledRetry then Retry else Done made True))) (\<lambda>_ _. True)"
      by (rule writes_then [OF writes_conseq [OF settle_well [OF stable_facts(1), of gw cal name revoked "kr_id made"]]])
        (use opened in \<open>auto simp: is_live_def intro: writes_return\<close>)
    have many: "writes_well (sound gw cal name) (?after made found) (converge gw name cs revoked (Some made)) (\<lambda>_ _. True)"
      if "set cs \<subseteq> set (filter kr_enabled (exact_matches found name) @ [made])" for cs
    proof (rule writes_conseq [OF converge_well [OF stable_facts(1), of gw cal name revoked cs "Some made"]])
      fix evs
      assume "?after made found evs"
      note facts = opened [OF this]
      show "True \<and> opened name revoked evs \<and> (\<forall>r \<in> set cs. candidate name evs r)"
        using facts(1) facts(3) [OF _ name] that by blast
    qed simp
    have "set (if kr_id made \<in> kr_id ` set (filter kr_enabled (exact_matches found name)) then filter kr_enabled (exact_matches found name)
        else filter kr_enabled (exact_matches found name) @ [made]) \<subseteq> set (filter kr_enabled (exact_matches found name) @ [made])"
      by auto
    from many [OF this] show ?thesis unfolding Let_def by (rule log_if [OF alone])
  qed
  have create: "writes_well (sound gw cal name) (\<lambda>evs. begun name revoked evs \<and> may_create cal name evs)
     (gw_bind (create_key gw name) (\<lambda>(made, _). gw_bind (list_named gw name) (\<lambda>found.
         let candidates = filter kr_enabled (exact_matches found name)
         in if candidates = []
            then gw_bind (settle_plan gw (kr_id made) revoked) (\<lambda>s. gw_return (if s = SettledRetry then Retry else Done made True))
            else converge gw name (if kr_id made \<in> kr_id ` set candidates then candidates else candidates @ [made]) revoked (Some made))))
     (\<lambda>_ _. True)"
  proof (rule writes_then [OF create_key_well])
    fix r :: "key_record \<times> string"
    obtain made v where r: "r = (made, v)" by (cases r)
    show "writes_well (sound gw cal name) (\<lambda>evs. \<exists>before. evs = before @ [Created name (Some (fst r))] \<and> begun name revoked before \<and> kr_name (fst r) = name)
       (case r of (made, _) \<Rightarrow> gw_bind (list_named gw name) (\<lambda>found.
         let candidates = filter kr_enabled (exact_matches found name)
         in if candidates = []
            then gw_bind (settle_plan gw (kr_id made) revoked) (\<lambda>s. gw_return (if s = SettledRetry then Retry else Done made True))
            else converge gw name (if kr_id made \<in> kr_id ` set candidates then candidates else candidates @ [made]) revoked (Some made)))
       (\<lambda>_ _. True)"
    proof (cases "kr_name made = name")
      case True
      show ?thesis
        unfolding r prod.case fst_conv
      proof (rule writes_then [OF list_named_exact])
        fix found
        show "writes_well (sound gw cal name)
          (\<lambda>evs. \<exists>before. evs = before @ [Listed name found] \<and> (\<exists>before'. before = before' @ [Created name (Some made)] \<and> begun name revoked before' \<and> kr_name made = name))
          (let candidates = filter kr_enabled (exact_matches found name)
           in if candidates = []
              then gw_bind (settle_plan gw (kr_id made) revoked) (\<lambda>s. gw_return (if s = SettledRetry then Retry else Done made True))
              else converge gw name (if kr_id made \<in> kr_id ` set candidates then candidates else candidates @ [made]) revoked (Some made)) (\<lambda>_ _. True)"
          by (rule writes_conseq [OF listed [OF True, of found]]) auto
      qed
    qed (simp add: r writes_well_def)
  qed
  show ?thesis
    unfolding create_and_converge_def
    by (rule writes_then [OF writes_peek [where post = "\<lambda>_ evs. begun name revoked evs \<and> may_create cal name evs"]])
      (auto intro: writes_return create)
qed

lemma attempt_well: "writes_well (sound gw cal name) (\<lambda>_. True) (attempt_once gw cal name) (\<lambda>_ _. True)"
  unfolding attempt_once_def
proof (rule writes_then [OF list_named_exact])
  fix found
  let ?existing = "exact_matches found name"
  let ?live = "filter kr_enabled ?existing" and ?revoked = "filter (\<lambda>k. \<not> kr_enabled k) ?existing"
  let ?pre = "\<lambda>evs. \<exists>before. evs = before @ [Listed name found] \<and> True"
  let ?judged = "\<lambda>evs. \<exists>before today p. evs = before @ [Listed name found, Today today] \<and> period_containing cal today = Some p \<and>
      decide cal (revocation_instant ?existing) p = Allowed"
  let ?go = "gw_bind (if ?live = [] then create_and_converge gw name ?revoked else converge gw name ?live ?revoked None) (\<lambda>a. gw_return (Some a))"
  have live: "candidate name evs r" if "?pre evs" "r \<in> set ?live" for evs r
    using that by (auto simp: candidate_def is_live_def exact_matches_def intro!: seen_listed)
  have opened: "opened name ?revoked evs" if "?pre evs" for evs
    using that unfolding opened_def creation_of_def disabled_keys_def by blast
  have make: "writes_well (sound gw cal name) pre ?go (\<lambda>_ _. True)"
    if "?live = []" "\<And>evs. pre evs \<Longrightarrow> begun name ?revoked evs \<and> may_create cal name evs" for pre
    unfolding if_P [OF that(1)]
    by (rule writes_then [OF writes_conseq [OF create_and_converge_well]]) (use that(2) in \<open>blast intro: writes_return\<close>)+
  have keep: "writes_well (sound gw cal name) ?pre ?go (\<lambda>_ _. True)" if "?live \<noteq> []"
    unfolding if_not_P [OF that]
    by (rule writes_then [OF writes_conseq [OF converge_well [OF stable_facts(1), of gw cal name ?revoked ?live None]]])
      (use opened live in \<open>blast intro: writes_return\<close>)+
  show "writes_well (sound gw cal name) ?pre
     (let existing = exact_matches found name; live = filter kr_enabled existing; revoked = filter (\<lambda>k. \<not> kr_enabled k) existing;
          go_on = gw_bind (if live = [] then create_and_converge gw name revoked else converge gw name live revoked None) (\<lambda>a. gw_return (Some a))
      in if live = [] \<and> revoked \<noteq> []
         then gw_bind (judge_cap gw cal (revocation_instant revoked)) (\<lambda>c.
           case c of None \<Rightarrow> gw_return None | Some (Capped instant date) \<Rightarrow> gw_return (Some (AttemptCapped date)) | Some Allowed \<Rightarrow> go_on)
         else go_on) (\<lambda>_ _. True)"
  proof (cases "?live = [] \<and> ?revoked \<noteq> []")
    case True
    then have same: "?revoked = ?existing" by (auto simp: filter_id_conv filter_empty_conv)
    have judge: "writes_well (sound gw cal name) ?pre (judge_cap gw cal (revocation_instant ?revoked)) (\<lambda>c evs. c = Some Allowed \<longrightarrow> ?judged evs)"
      unfolding judge_cap_def same by (rule writes_then [OF read_today_well], rule writes_return) auto
    have after: "writes_well (sound gw cal name) (\<lambda>evs. c = Some Allowed \<longrightarrow> ?judged evs)
        (case c of None \<Rightarrow> gw_return None | Some (Capped instant date) \<Rightarrow> gw_return (Some (AttemptCapped date)) | Some Allowed \<Rightarrow> ?go) (\<lambda>_ _. True)" for c
    proof (cases "c = Some Allowed")
      case allowed: True
      have "begun name ?revoked evs \<and> may_create cal name evs" if "?judged evs" for evs
      proof -
        obtain before today p where evs: "evs = before @ Listed name found # [Today today]" "period_containing cal today = Some p"
            "decide cal (revocation_instant ?existing) p = Allowed"
          using \<open>?judged evs\<close> by auto
        then show ?thesis using True unfolding begun_def may_create_def disabled_keys_def by blast
      qed
      then have "writes_well (sound gw cal name) ?judged ?go (\<lambda>_ _. True)" using True by (intro make) auto
      then show ?thesis unfolding allowed by (simp only: option.case cap.case simp_thms)
    next
      case False
      then show ?thesis by (auto intro!: writes_return split: option.split cap.split)
    qed
    show ?thesis unfolding Let_def if_P [OF True] by (rule writes_then [OF judge after])
  next
    case False
    have "writes_well (sound gw cal name) ?pre ?go (\<lambda>_ _. True)"
    proof (cases "?live = []")
      case True
      with False have none: "?existing = []" by (auto simp: filter_empty_conv)
      show ?thesis
      proof (rule make [OF True])
        fix evs
        assume "?pre evs"
        then obtain before where "evs = before @ Listed name found # []" by auto
        then show "begun name ?revoked evs \<and> may_create cal name evs"
          using none unfolding begun_def may_create_def disabled_keys_def by (metis filter.simps(1))
      qed
    qed (rule keep)
    then show ?thesis unfolding Let_def if_not_P [OF False] .
  qed
qed

lemma reconcile_well: "writes_well (sound gw cal name) (\<lambda>_. True) (reconcile_times gw cal name n) (\<lambda>_ _. True)"
proof (induction n)
  case (Suc n)
  show ?case
    unfolding reconcile_times.simps
    by (rule writes_then [OF attempt_well]) (auto intro: writes_return Suc split: option.split attempt.split)
qed (simp add: writes_return)

end
