(* ===== verification/Key_Revoke.thy ===== *)
theory Key_Revoke
  imports Key_Safety
begin

text \<open>
  What a revocation reports is what landed on the control plane: which of the user's keys it addressed, which answered
  that they are off or gone, and which failed. Revealing a key writes nothing at all.
\<close>

section \<open>Reads leave the log alone\<close>

lemma list_pages_log:
  "list_pages gw n m position found st = Inr (records, st') \<Longrightarrow> gs_log st' = gs_log st"
  "list_pages gw n m position found st = Inl (e, st') \<Longrightarrow> gs_log st' = gs_log st"
  using writes_well_Inr [OF list_pages_well [where S = "\<lambda>evs. evs = gs_log st" and F = "\<lambda>_. True" and gw = gw and pre = n and n = m and position = position and found = found]]
    writes_well_Inl [OF list_pages_well [where S = "\<lambda>evs. evs = gs_log st" and F = "\<lambda>_. True" and gw = gw and pre = n and n = m and position = position and found = found]]
  by auto

lemma list_named_log:
  "list_named gw name st = Inr (found, st') \<Longrightarrow> gs_log st' = gs_log st @ [Listed name found]"
  "list_named gw name st = Inl (e, st') \<Longrightarrow> gs_log st' = gs_log st"
  by (cases "list_pages gw name max_pages None [] st";
      auto simp: list_named_def gw_bind_def gw_log_def gw_return_def dest: list_pages_log)+

lemma value_of_log:
  "value_of gw k st = Inr (v, st') \<Longrightarrow> gs_log st' = gs_log st"
  "value_of gw k st = Inl (e, st') \<Longrightarrow> gs_log st' = gs_log st"
  using writes_well_Inr [OF read_key_well(1) [where S = "\<lambda>evs. evs = gs_log st" and F = "\<lambda>_. True" and gw = gw and k = k]]
    writes_well_Inl [OF read_key_well(1) [where S = "\<lambda>evs. evs = gs_log st" and F = "\<lambda>_. True" and gw = gw and k = k]]
  by auto

section \<open>The current key\<close>

lemma current_key_None: "current_key records = None \<longleftrightarrow> records = []"
proof -
  have "sort_key revocation_rank records = [] \<longleftrightarrow> records = []"
    by (metis length_0_conv length_sort)
  then show ?thesis
    by (auto simp: current_key_def Let_def min_by_key_None revoked_newest_first_def split: list.splits)
qed

lemma current_key_Some: "current_key records = Some c \<Longrightarrow> c \<in> set records \<and> (kr_enabled c \<longleftrightarrow> filter kr_enabled records \<noteq> [])"
proof (cases "filter kr_enabled records = []")
  case True
  assume "current_key records = Some c"
  then have "c \<in> set (revoked_newest_first records)"
    using True by (auto simp: current_key_def split: list.splits)
  then show ?thesis using True by (auto simp: revoked_newest_first_def filter_empty_conv)
next
  case False
  assume "current_key records = Some c"
  then have "c \<in> set (filter kr_enabled records)"
    using False min_by_key_Some [of rank "filter kr_enabled records" c] by (simp add: current_key_def Let_def)
  then show ?thesis using False by simp
qed

section \<open>Revoking\<close>

definition landed_last :: "u64 option \<Rightarrow> disabling option list \<Rightarrow> bool" where
  "landed_last instant rs \<longleftrightarrow> Some (Applied instant) \<in> set rs \<and> (\<forall>i. Some (Applied i) \<in> set rs \<longrightarrow> opt_max i instant = instant)"

definition disables :: "key_record list \<Rightarrow> disabling option list \<Rightarrow> key_event list" where
  "disables keys rs = map2 (\<lambda>k r. Disabled (kr_id k) r) keys rs"

definition tally_disable :: "u64 option option \<Rightarrow> disabling option \<Rightarrow> u64 option option" where
  "tally_disable applied r = (case r of
     Some (Applied instant) \<Rightarrow> Some (case applied of Some previous \<Rightarrow> opt_max previous instant | None \<Rightarrow> instant)
   | _ \<Rightarrow> applied)"

lemma opt_max_props: "opt_max a a = a" "opt_max a (opt_max a b) = opt_max a b" "opt_max b (opt_max a b) = opt_max a b"
  "opt_max a b = a \<or> opt_max a b = b" "opt_max a b = b \<Longrightarrow> opt_max b c = c \<Longrightarrow> opt_max a c = c"
  by (auto simp: opt_max_def max_def split: option.splits if_splits)

lemma note_landed: "(case a of None \<Rightarrow> \<forall>i. Some (Applied i) \<notin> set rs | Some x \<Rightarrow> landed_last x rs) \<Longrightarrow>
    (case tally_disable a r of None \<Rightarrow> \<forall>i. Some (Applied i) \<notin> set (rs @ [r]) | Some x \<Rightarrow> landed_last x (rs @ [r]))"
proof (cases "\<exists>x. r = Some (Applied x)")
  case True
  then obtain x where r: "r = Some (Applied x)" by blast
  assume a: "case a of None \<Rightarrow> \<forall>i. Some (Applied i) \<notin> set rs | Some x \<Rightarrow> landed_last x rs"
  show ?thesis
  proof (cases a)
    case None
    then show ?thesis using a by (auto simp: r tally_disable_def landed_last_def opt_max_props)
  next
    case (Some y)
    then have y: "Some (Applied y) \<in> set rs" "\<And>i. Some (Applied i) \<in> set rs \<Longrightarrow> opt_max i y = y"
      using a by (auto simp: landed_last_def)
    have "opt_max i (opt_max y x) = opt_max y x" if "Some (Applied i) \<in> set rs" for i
      using opt_max_props(5) [OF y(2) [OF that] opt_max_props(2)] .
    moreover have "Some (Applied (opt_max y x)) \<in> set (rs @ [r])"
      using opt_max_props(4) [of y x] y(1) by (auto simp: r)
    ultimately show ?thesis by (auto simp: Some r tally_disable_def landed_last_def opt_max_props)
  qed
next
  case False
  assume "case a of None \<Rightarrow> \<forall>i. Some (Applied i) \<notin> set rs | Some x \<Rightarrow> landed_last x rs"
  then show ?thesis using False
    by (auto simp: tally_disable_def landed_last_def split: option.splits disabling.splits)
qed

lemma foldl_note:
  "case foldl tally_disable None rs of None \<Rightarrow> \<forall>i. Some (Applied i) \<notin> set rs | Some x \<Rightarrow> landed_last x rs"
proof (induction rs rule: rev_induct)
  case (snoc r rs)
  then show ?case using note_landed [OF snoc, of r] by simp
qed simp

lemma disable_log:
  "disable gw k st = Inr (d, st') \<Longrightarrow> gs_log st' = gs_log st @ [Disabled k (Some d)]"
  "disable gw k st = Inl (e, st') \<Longrightarrow> gs_log st' = gs_log st @ [Disabled k None]"
  by (auto simp: disable_def gw_bind_def gw_call_def gw_log_def gw_return_def gw_fail_def Let_def split: prod.splits sum.splits if_splits)

lemma disable_each_log:
  assumes "\<forall>k \<in> set keys. kr_name k = name"
  shows "\<exists>failure' st' rs. disable_each gw name keys applied failure st = Inr ((foldl tally_disable applied rs, failure'), st') \<and>
    length rs = length keys \<and> gs_log st' = gs_log st @ disables keys rs \<and> (failure' = None \<longleftrightarrow> failure = None \<and> None \<notin> set rs)"
  using assms
proof (induction keys arbitrary: applied failure st)
  case Nil
  then show ?case by (intro exI [of _ failure] exI [of _ st] exI [of _ "[]"]) (simp add: gw_return_def disables_def)
next
  case (Cons key keys)
  obtain r st1 failure1 where step: "disable_each gw name (key # keys) applied failure st = disable_each gw name keys (tally_disable applied r) failure1 st1"
    "gs_log st1 = gs_log st @ [Disabled (kr_id key) r]" "failure1 = None \<longleftrightarrow> failure = None \<and> r \<noteq> None"
  proof (cases "disable gw (kr_id key) st")
    case (Inl a)
    obtain e st1 where a: "a = (e, st1)" by (cases a)
    show ?thesis
      by (rule that [of None "case failure of None \<Rightarrow> Some e | Some f \<Rightarrow> Some f" st1])
        (use Inl a Cons.prems in \<open>auto simp: gw_bind_def gw_try_def tally_disable_def disable_log(2) split: option.splits\<close>)
  next
    case (Inr b)
    obtain d st1 where b: "b = (d, st1)" by (cases b)
    show ?thesis
      by (rule that [of "Some d" failure st1])
        (use Inr b Cons.prems in \<open>auto simp: gw_bind_def gw_try_def tally_disable_def disable_log(1) split: disabling.splits\<close>)
  qed
  obtain failure' st' rs where rest: "disable_each gw name keys (tally_disable applied r) failure1 st1 = Inr ((foldl tally_disable (tally_disable applied r) rs, failure'), st')"
    "length rs = length keys" "gs_log st' = gs_log st1 @ disables keys rs" "failure' = None \<longleftrightarrow> failure1 = None \<and> None \<notin> set rs"
    using Cons.IH [of "tally_disable applied r" failure1 st1] Cons.prems by auto
  show ?case
    by (intro exI [of _ failure'] exI [of _ st'] exI [of _ "r # rs"]) (use step rest in \<open>auto simp: disables_def\<close>)
qed

lemma disable_all_Inr:
  assumes "list_named gw name st = Inr (found, st1)" and "filter kr_enabled (exact_matches found name) \<noteq> []"
  shows "\<exists>rs st'. length rs = length (filter kr_enabled (exact_matches found name)) \<and>
    gs_log st' = gs_log st @ Listed name found # disables (filter kr_enabled (exact_matches found name)) rs \<and>
    (case disable_all gw name st of
       Inr (NoKey, st'') \<Rightarrow> st'' = st' \<and> set rs \<subseteq> {Some DisableKeyGone}
     | Inr (RevDone instant, st'') \<Rightarrow> st'' = st' \<and> None \<notin> set rs \<and> landed_last instant rs
     | Inr (RevPartial instant, st'') \<Rightarrow> st'' = st' \<and> None \<in> set rs \<and> landed_last instant rs
     | Inl (e, st'') \<Rightarrow> st'' = st' \<and> None \<in> set rs \<and> (\<forall>i. Some (Applied i) \<notin> set rs))"
proof -
  let ?keys = "exact_matches found name"
  obtain c where c: "current_key ?keys = Some c"
    using assms(2) current_key_None [of ?keys] by (cases "current_key ?keys") auto
  then have "kr_enabled c" using current_key_Some [OF c] assms(2) by blast
  have "\<forall>k \<in> set (filter kr_enabled ?keys). kr_name k = name" by (auto simp: exact_matches_def)
  from disable_each_log [OF this, of gw None None st1]
  obtain failure st' rs where each: "disable_each gw name (filter kr_enabled ?keys) None None st1 = Inr ((foldl tally_disable None rs, failure), st')"
    "length rs = length (filter kr_enabled ?keys)" "gs_log st' = gs_log st1 @ disables (filter kr_enabled ?keys) rs"
    "failure = None \<longleftrightarrow> None \<notin> set rs"
    by blast
  have gone: "set rs \<subseteq> {Some DisableKeyGone}" if "None \<notin> set rs" "\<forall>i. Some (Applied i) \<notin> set rs"
  proof
    fix r
    assume "r \<in> set rs"
    with that show "r \<in> {Some DisableKeyGone}" by (cases r) (auto, metis disabling.exhaust)
  qed
  have run: "disable_all gw name st = (case (foldl tally_disable None rs, failure) of
      (Some instant, None) \<Rightarrow> Inr (RevDone instant, st') | (Some instant, Some e) \<Rightarrow> Inr (RevPartial instant, st')
    | (None, Some e) \<Rightarrow> Inl (e, st') | (None, None) \<Rightarrow> Inr (NoKey, st'))"
    using assms(1) c \<open>kr_enabled c\<close> each(1)
    by (simp add: disable_all_def gw_bind_def gw_return_def gw_fail_def split: option.split)
  show ?thesis
    unfolding run
    by (intro exI [of _ rs] exI [of _ st'])
      (use each list_named_log(1) [OF assms(1)] foldl_note [of rs] gone in \<open>auto split: option.splits\<close>)
qed

text \<open>
  C17: A revocation tells the truth: it addresses exactly the enabled keys of the exact name of its one listing,
  each once. Done means none failed, with the latest instant that landed, or that every key was already
  disabled, with the latest revocation; partial means some landed and some failed; no key means that every
  addressed key was gone, or that there was none.
\<close>

theorem revocation_reports_what_landed:
  assumes "disable_all gw name st = Inr (out, st')"
  shows "\<exists>found rs. gs_log st' = gs_log st @ Listed name found # disables (filter kr_enabled (exact_matches found name)) rs \<and>
    length rs = length (filter kr_enabled (exact_matches found name)) \<and>
    (case out of
       NoKey \<Rightarrow> set rs \<subseteq> {Some DisableKeyGone} \<and> (rs = [] \<longrightarrow> exact_matches found name = [])
     | RevDone instant \<Rightarrow> None \<notin> set rs \<and>
         (if rs = [] then exact_matches found name \<noteq> [] \<and> instant = revocation_instant (exact_matches found name)
          else landed_last instant rs)
     | RevPartial instant \<Rightarrow> None \<in> set rs \<and> landed_last instant rs)"
proof -
  obtain found st1 where named: "list_named gw name st = Inr (found, st1)"
    using assms by (cases "list_named gw name st") (auto simp: disable_all_def gw_bind_def)
  let ?keys = "exact_matches found name"
  show ?thesis
  proof (cases "filter kr_enabled ?keys = []")
    case True
    have "gs_log st' = gs_log st @ [Listed name found] \<and> (case out of
       NoKey \<Rightarrow> ?keys = [] | RevDone instant \<Rightarrow> ?keys \<noteq> [] \<and> instant = revocation_instant ?keys | RevPartial instant \<Rightarrow> False)"
      using assms named True list_named_log(1) [OF named] current_key_None [of ?keys] current_key_Some [of ?keys]
      by (auto simp: disable_all_def gw_bind_def gw_return_def split: option.splits if_splits)
    then show ?thesis
      using True by (intro exI [of _ found] exI [of _ "[]"]) (auto simp: disables_def split: revocation.splits)
  next
    case False
    have "\<exists>rs st2. length rs = length (filter kr_enabled ?keys) \<and>
      gs_log st2 = gs_log st @ Listed name found # disables (filter kr_enabled ?keys) rs \<and>
      (case out of NoKey \<Rightarrow> st' = st2 \<and> set rs \<subseteq> {Some DisableKeyGone}
       | RevDone instant \<Rightarrow> st' = st2 \<and> None \<notin> set rs \<and> landed_last instant rs
       | RevPartial instant \<Rightarrow> st' = st2 \<and> None \<in> set rs \<and> landed_last instant rs)"
      using disable_all_Inr [OF named False] unfolding assms by (cases out) simp_all
    then obtain rs st2 where "length rs = length (filter kr_enabled ?keys)"
      "gs_log st2 = gs_log st @ Listed name found # disables (filter kr_enabled ?keys) rs"
      "case out of NoKey \<Rightarrow> st' = st2 \<and> set rs \<subseteq> {Some DisableKeyGone}
       | RevDone instant \<Rightarrow> st' = st2 \<and> None \<notin> set rs \<and> landed_last instant rs
       | RevPartial instant \<Rightarrow> st' = st2 \<and> None \<in> set rs \<and> landed_last instant rs"
      by blast
    then show ?thesis
      using False by (intro exI [of _ found] exI [of _ rs]) (auto split: revocation.splits)
  qed
qed

lemma failed_revocation_landed_nothing:
  assumes "disable_all gw name st = Inl (e, st')" and "Disabled k d \<in> set (drop (length (gs_log st)) (gs_log st'))"
  shows "\<forall>instant. d \<noteq> Some (Applied instant)"
proof (cases "list_named gw name st")
  case (Inl a)
  then obtain e' where "list_named gw name st = Inl (e', st')"
    using assms(1) by (cases a) (auto simp: disable_all_def gw_bind_def)
  then show ?thesis using assms(2) list_named_log(2) by fastforce
next
  case (Inr b)
  then obtain found st1 where named: "list_named gw name st = Inr (found, st1)" by (cases b) auto
  let ?keys = "exact_matches found name"
  have "filter kr_enabled ?keys \<noteq> []"
    using assms(1) named current_key_Some [of ?keys]
    by (cases "current_key ?keys") (auto simp: disable_all_def gw_bind_def gw_return_def Let_def split: if_splits)
  from disable_all_Inr [OF named this] assms(1)
  obtain rs where "gs_log st' = gs_log st @ Listed name found # disables (filter kr_enabled ?keys) rs"
    "\<forall>i. Some (Applied i) \<notin> set rs"
    by auto
  then show ?thesis
    using assms(2) by (auto simp: disables_def dest!: set_zip_rightD)
qed

section \<open>Revealing\<close>

lemma reveal_writes_nothing:
  assumes "lookup gw name st = Inr (out, st')"
  shows "\<exists>found. gs_log st' = gs_log st @ [Listed name found] \<and>
    (case out of
       LookupKey r v \<Rightarrow> current_key (exact_matches found name) = Some r \<and> kr_enabled r \<and> kr_name r = name
     | LookupRevoked instant \<Rightarrow> exact_matches found name \<noteq> [] \<and> filter kr_enabled (exact_matches found name) = [] \<and>
         instant = revocation_instant (exact_matches found name)
     | LookupNone \<Rightarrow> True)"
proof -
  obtain found st1 where named: "list_named gw name st = Inr (found, st1)"
    using assms by (cases "list_named gw name st") (auto simp: lookup_def gw_bind_def)
  have exact: "r \<in> set (exact_matches found name) \<Longrightarrow> kr_name r = name" for r by (simp add: exact_matches_def)
  show ?thesis
  proof (cases "current_key (exact_matches found name)")
    case None
    then show ?thesis
      using assms named list_named_log(1) [OF named] by (auto simp: lookup_def gw_bind_def gw_return_def)
  next
    case (Some c)
    note c = current_key_Some [OF Some]
    show ?thesis
    proof (cases "kr_enabled c")
      case True
      then obtain v st2 where v: "value_of gw (kr_id c) st1 = Inr (v, st2)"
        using assms named Some by (cases "value_of gw (kr_id c) st1") (auto simp: lookup_def gw_bind_def)
      then show ?thesis
        using assms named Some True c exact list_named_log(1) [OF named] value_of_log(1) [OF v]
        by (auto simp: lookup_def gw_bind_def gw_return_def split: option.splits)
    next
      case False
      then show ?thesis
        using assms named Some c list_named_log(1) [OF named] by (auto simp: lookup_def gw_bind_def gw_return_def)
    qed
  qed
qed

end
