(* ===== verification/Key_Guarantees.thy ===== *)
theory Key_Guarantees
  imports Key_Safety
begin

text \<open>
  The guarantees of the key routes: what an issue run may write, that a revocation tells the truth about the keys it
  touched, and that a reveal writes nothing.
\<close>

section \<open>Issuing\<close>

definition log_of :: "(gateway_error \<times> 's gw_state, 'a \<times> 's gw_state) result \<Rightarrow> key_event list" where
  "log_of r = (case r of Inl (e, st) \<Rightarrow> gs_log st | Inr (x, st) \<Rightarrow> gs_log st)"

lemma issue_sound:
  assumes "key_name sub = Some name" and "gs_log st = []"
  shows "sound gw cal name (log_of (issue_for gw cal sub st))"
proof -
  have well: "writes_well (sound gw cal name) (\<lambda>_. True) (reconcile gw cal name) (\<lambda>_ _. True)"
    unfolding reconcile_def by (rule reconcile_well)
  have run: "sound gw cal name (log_of (reconcile gw cal name st))"
  proof (cases "reconcile gw cal name st")
    case (Inl a)
    obtain e st' where a: "a = (e, st')" by (cases a)
    show ?thesis using writes_well_Inl [OF well Inl [unfolded a]] assms(2) by (simp add: Inl a log_of_def)
  next
    case (Inr b)
    obtain x st' where b: "b = (x, st')" by (cases b)
    show ?thesis using writes_well_Inr [OF well Inr [unfolded b]] assms(2) by (simp add: Inr b log_of_def)
  qed
  have "log_of (issue_for gw cal sub st) = log_of (reconcile gw cal name st)"
    using assms(1) by (cases "reconcile gw cal name st") (auto simp: issue_for_def gw_bind_def gw_try_def gw_return_def log_of_def)
  then show ?thesis using run by simp
qed

lemma issue_justified:
  assumes "gs_log st = []" and "log_of (issue_for gw cal sub st) = before @ ev # after"
  shows "\<exists>name. key_name sub = Some name \<and> justified gw cal name before ev"
proof (cases "key_name sub")
  case None
  then have "log_of (issue_for gw cal sub st) = []" using assms(1) by (simp add: issue_for_def gw_return_def log_of_def)
  then show ?thesis using assms(2) by simp
next
  case (Some name)
  then show ?thesis using issue_sound [OF Some assms(1), of gw cal] assms(2) unfolding sound_def by blast
qed

text \<open>
  C14: Issuing deletes only superseded keys: whatever API Gateway answers and whoever else works on the account,
  every deletion in the log of an issue run is of a key listed or just created under the exact name of the
  signed-in user, and comes after another live key of that name was seen on a plan or attached to one. The one
  exception is proved too: the key kept may itself be deleted when an earlier listing showed it disabled.
\<close>

theorem issue_deletes_only_superseded_keys:
  assumes "gs_log st = []" and "log_of (issue_for gw cal sub st) = before @ Deleted k # after"
  shows "\<exists>name w. key_name sub = Some name \<and> (seen name True before k \<or> seen name False before k \<or> made_here name before k) \<and>
    (seen name True before w \<or> made_here name before w) \<and> on_plan before w \<and> (w = k \<longrightarrow> seen name False before k)"
  using issue_justified [OF assms] by (auto simp: justified_def is_live_def)

text \<open>
  C15: A key is created only when the rules allow one: a creation in the log of an issue run directly follows a
  listing under the exact name that has no key at all, or only disabled keys whose latest revocation the cap
  allows in the month the clock has just shown.
\<close>

theorem issue_creates_only_under_the_cap:
  assumes "gs_log st = []" and "log_of (issue_for gw cal sub st) = before @ Created n r # after"
  shows "key_name sub = Some n \<and> (\<exists>earlier records.
    (before = earlier @ [Listed n records] \<and> exact_matches records n = []) \<or>
    (\<exists>today month. before = earlier @ [Listed n records, Today today] \<and> filter kr_enabled (exact_matches records n) = [] \<and>
       period_containing cal today = Some month \<and> decide cal (revocation_instant (exact_matches records n)) month = Allowed))"
  using issue_justified [OF assms] by (fastforce simp: justified_def may_create_def)


end
