(* ===== verification/Key_Routes.thy ===== *)
theory Key_Routes
  imports Key_Revoke Key_Guarantees
begin

text \<open>
  The two routes of the portal's key page (\<open>reveal\<close> and \<open>revoke\<close> of \<open>prices-api/src/portal/keys/mod.rs\<close>): their guards
  in the order they are asked, and what they answer. The user a session cookie names is an argument.
\<close>

section \<open>Same-origin writes\<close>

definition eq_ignore_ascii_case :: "string \<Rightarrow> string \<Rightarrow> bool" where
  "eq_ignore_ascii_case a b \<longleftrightarrow> map lower a = map lower b"

definition portal_request_header :: "string \<times> string" where
  "portal_request_header = (''x-requested-with'', ''stellar-prices-portal'')"

text \<open>\<open>headers\<close> gives a header's value by its lower-case name, where it is readable as text.\<close>

definition is_same_origin_write :: "(string \<Rightarrow> string option) \<Rightarrow> string option \<Rightarrow> bool" where
  "is_same_origin_write headers web_origin =
     (let marker = (case headers (fst portal_request_header) of
            Some v \<Rightarrow> eq_ignore_ascii_case v (snd portal_request_header) | None \<Rightarrow> False);
          fetch_site_ok = (case headers ''sec-fetch-site'' of
            None \<Rightarrow> True
          | Some site \<Rightarrow>
              if eq_ignore_ascii_case site ''same-origin'' \<or> eq_ignore_ascii_case site ''none'' then True
              else if eq_ignore_ascii_case site ''same-site''
              then (case (headers ''origin'', web_origin) of (Some from_page, Some ours) \<Rightarrow> from_page = ours | _ \<Rightarrow> False)
              else False)
      in marker \<and> fetch_site_ok)"

section \<open>Answers\<close>

datatype eligible = EligibleNow | EligibleAt string

datatype key_answer =
  Unconfigured
| CrossSite
| NotSignedIn
| KeyUnavailable
| NoKeyYet
| KeyRevoked string "u64 option"
| KeyShown key_record string
| KeyRevocation eligible "u64 option" bool

definition status_of :: "key_answer \<Rightarrow> nat" where
  "status_of a = (case a of
     Unconfigured \<Rightarrow> 503
   | CrossSite \<Rightarrow> 403
   | NotSignedIn \<Rightarrow> 401
   | KeyUnavailable \<Rightarrow> 502
   | NoKeyYet \<Rightarrow> 404
   | KeyRevoked next_eligible_at revoked_at \<Rightarrow> 404
   | KeyShown r v \<Rightarrow> 200
   | KeyRevocation next_eligible_at revoked_at part \<Rightarrow> 200)"

section \<open>Reveal\<close>

text \<open>\<open>None\<close> is the panic of a date outside the calendar.\<close>

definition reveal_lookup :: "'s gateway \<Rightarrow> cal_ops \<Rightarrow> string \<Rightarrow> ('s, key_answer option) gw_prog" where
  "reveal_lookup gw cal name = gw_bind (gw_try (lookup gw name)) (\<lambda>looked_up.
     case looked_up of
       Inr (LookupRevoked revoked_at) \<Rightarrow> gw_bind (gw_peek (sdk_today (gw_sdk gw))) (\<lambda>today.
         gw_return (case period_containing cal today of
           None \<Rightarrow> None
         | Some p \<Rightarrow> (case decide cal revoked_at p of
             Capped next_eligible_at next_eligible_date \<Rightarrow> Some (KeyRevoked next_eligible_at revoked_at)
           | Allowed \<Rightarrow> Some NoKeyYet)))
     | Inr (LookupKey r v) \<Rightarrow> gw_return (Some (KeyShown r v))
     | Inr LookupNone \<Rightarrow> gw_return (Some NoKeyYet)
     | Inl e \<Rightarrow> gw_return (Some KeyUnavailable))"

definition reveal :: "bool \<Rightarrow> 's gateway option \<Rightarrow> cal_ops \<Rightarrow> string option \<Rightarrow> ('s, key_answer option) gw_prog" where
  "reveal oauth gateway cal session =
     (if \<not> oauth then gw_return (Some Unconfigured)
      else case gateway of
        None \<Rightarrow> gw_return (Some Unconfigured)
      | Some gw \<Rightarrow>
          (case session of
             None \<Rightarrow> gw_return (Some NotSignedIn)
           | Some sub \<Rightarrow>
               (case key_name sub of
                  None \<Rightarrow> gw_return (Some NotSignedIn)
                | Some name \<Rightarrow> reveal_lookup gw cal name)))"

section \<open>Revoke\<close>

definition revoke_name :: "'s gateway \<Rightarrow> cal_ops \<Rightarrow> string \<Rightarrow> ('s, key_answer option) gw_prog" where
  "revoke_name gw cal name = gw_bind (gw_try (disable_all gw name)) (\<lambda>revoked.
     let answer = (\<lambda>at_instant part. gw_bind (gw_peek (sdk_today (gw_sdk gw))) (\<lambda>today.
       gw_return (map_option (\<lambda>p.
         KeyRevocation (case decide cal at_instant p of Capped next_eligible_at d \<Rightarrow> EligibleAt next_eligible_at | Allowed \<Rightarrow> EligibleNow)
           at_instant part) (period_containing cal today))))
     in case revoked of
          Inr (RevDone instant) \<Rightarrow> answer instant False
        | Inr (RevPartial instant) \<Rightarrow> answer instant True
        | Inr NoKey \<Rightarrow> gw_return (Some NoKeyYet)
        | Inl e \<Rightarrow> gw_return (Some KeyUnavailable))"

definition revoke :: "bool \<Rightarrow> 's gateway option \<Rightarrow> cal_ops \<Rightarrow> (string \<Rightarrow> string option) \<Rightarrow> string option \<Rightarrow> string option \<Rightarrow>
    ('s, key_answer option) gw_prog" where
  "revoke oauth gateway cal headers web_origin session =
     (if \<not> oauth then gw_return (Some Unconfigured)
      else case gateway of
        None \<Rightarrow> gw_return (Some Unconfigured)
      | Some gw \<Rightarrow>
          (if \<not> is_same_origin_write headers web_origin then gw_return (Some CrossSite)
           else case session of
             None \<Rightarrow> gw_return (Some NotSignedIn)
           | Some sub \<Rightarrow>
               (case key_name sub of
                  None \<Rightarrow> gw_return (Some NotSignedIn)
                | Some name \<Rightarrow> revoke_name gw cal name)))"

section \<open>The reveal and the issue agree\<close>

lemma gw_bind_Inr: "gw_bind m f st = Inr r \<Longrightarrow> \<exists>x st1. m st = Inr (x, st1) \<and> f x st1 = Inr r"
  by (cases "m st") (auto simp: gw_bind_def)

lemma converge_not_capped: "converge gw name candidates revoked made st \<noteq> Inr (AttemptCapped d, st')"
  by (auto simp: converge_def gw_return_def split: option.splits if_splits dest!: gw_bind_Inr)

lemma create_not_capped: "create_and_converge gw name revoked st \<noteq> Inr (AttemptCapped d, st')"
  by (auto simp: create_and_converge_def gw_return_def Let_def converge_not_capped split: option.splits if_splits dest!: gw_bind_Inr)

lemma no_key_is_enabled:
  assumes "filter kr_enabled records = []" and "records \<noteq> []"
  obtains c where "current_key records = Some c" and "\<not> kr_enabled c"
  using assms current_key_None [of records] current_key_Some [of records] by (cases "current_key records") auto

definition all_disabled :: "key_record list \<Rightarrow> bool" where
  "all_disabled records \<longleftrightarrow> filter kr_enabled records = [] \<and> records \<noteq> []"

lemma lookup_listed:
  assumes "list_named gw name st = Inr (found, st1)"
  shows "all_disabled (exact_matches found name) \<Longrightarrow> lookup gw name st = Inr (LookupRevoked (revocation_instant (exact_matches found name)), st1)"
    and "\<not> all_disabled (exact_matches found name) \<Longrightarrow> lookup gw name st \<noteq> Inr (LookupRevoked instant, st')"
proof -
  let ?keys = "exact_matches found name"
  assume "all_disabled ?keys"
  then obtain c where "current_key ?keys = Some c" "\<not> kr_enabled c"
    using no_key_is_enabled [of ?keys] unfolding all_disabled_def by blast
  then show "lookup gw name st = Inr (LookupRevoked (revocation_instant ?keys), st1)"
    using assms by (simp add: lookup_def gw_bind_def gw_return_def)
next
  let ?keys = "exact_matches found name"
  assume some: "\<not> all_disabled ?keys"
  show "lookup gw name st \<noteq> Inr (LookupRevoked instant, st')"
  proof
    assume "lookup gw name st = Inr (LookupRevoked instant, st')"
    then obtain c where c: "current_key ?keys = Some c" "\<not> kr_enabled c"
      using assms by (auto simp: lookup_def gw_return_def Let_def gw_bind_def [of "list_named gw name"] split: option.splits if_splits dest!: gw_bind_Inr)
    then show False using current_key_Some [OF c(1)] some by (auto simp: all_disabled_def)
  qed
qed

lemma attempt_listed:
  assumes "list_named gw name st = Inr (found, st1)"
  shows "all_disabled (exact_matches found name) \<Longrightarrow> attempt_once gw cal name st =
      (let today = sdk_today (gw_sdk gw) (gs_aws st1); st2 = st1\<lparr>gs_log := gs_log st1 @ [Today today]\<rparr>
       in case period_containing cal today of
            None \<Rightarrow> Inr (None, st2)
          | Some p \<Rightarrow>
              (case decide cal (revocation_instant (exact_matches found name)) p of
                 Capped t d \<Rightarrow> Inr (Some (AttemptCapped d), st2)
               | Allowed \<Rightarrow> gw_bind (create_and_converge gw name (exact_matches found name)) (\<lambda>a. gw_return (Some a)) st2))"
    and "\<not> all_disabled (exact_matches found name) \<Longrightarrow> attempt_once gw cal name st \<noteq> Inr (Some (AttemptCapped d), st')"
proof -
  let ?keys = "exact_matches found name"
  assume all: "all_disabled ?keys"
  then have "filter (\<lambda>k. \<not> kr_enabled k) ?keys = ?keys" by (auto simp: all_disabled_def filter_id_conv filter_empty_conv)
  with all show "attempt_once gw cal name st =
      (let today = sdk_today (gw_sdk gw) (gs_aws st1); st2 = st1\<lparr>gs_log := gs_log st1 @ [Today today]\<rparr>
       in case period_containing cal today of
            None \<Rightarrow> Inr (None, st2)
          | Some p \<Rightarrow>
              (case decide cal (revocation_instant ?keys) p of
                 Capped t d \<Rightarrow> Inr (Some (AttemptCapped d), st2)
               | Allowed \<Rightarrow> gw_bind (create_and_converge gw name ?keys) (\<lambda>a. gw_return (Some a)) st2))"
    unfolding attempt_once_def gw_bind_def [of "list_named gw name"] assms
    by (auto simp: all_disabled_def judge_cap_def read_today_def gw_bind_def [of "gw_peek f" for f] gw_bind_def [of "gw_log e" for e]
        gw_bind_def [of "\<lambda>st. Inr (x, f st)" for x f] gw_bind_def [of "gw_bind m f" for m f]
        gw_peek_def gw_log_def gw_return_def Let_def split: option.split cap.split)
next
  let ?keys = "exact_matches found name"
  assume "\<not> all_disabled ?keys"
  then have "\<not> (filter kr_enabled ?keys = [] \<and> filter (\<lambda>k. \<not> kr_enabled k) ?keys \<noteq> [])"
    by (auto simp: all_disabled_def)
  then show "attempt_once gw cal name st \<noteq> Inr (Some (AttemptCapped d), st')"
    unfolding attempt_once_def gw_bind_def [of "list_named gw name"] assms
    by (auto simp: gw_return_def Let_def split: if_splits simp: create_not_capped converge_not_capped dest!: gw_bind_Inr)
qed

text \<open>
  C18: The page and the issue flow agree on the cap: from the same account and date, the reveal answers that the
  key is revoked until a date exactly when an issue attempt is refused until that date.
\<close>

theorem reveal_and_issue_agree_on_the_cap:
  assumes "key_name sub = Some name"
  shows "(\<exists>revoked_at st1. reveal True (Some gw) cal (Some sub) st = Inr (Some (KeyRevoked (date @ ''T00:00:00Z'') revoked_at), st1)) \<longleftrightarrow>
    (\<exists>st2. attempt_once gw cal name st = Inr (Some (AttemptCapped date), st2))"
proof (cases "list_named gw name st")
  case (Inl a)
  then show ?thesis
    using assms by (auto simp: reveal_def reveal_lookup_def lookup_def attempt_once_def gw_bind_def gw_try_def gw_return_def split: prod.splits)
next
  case (Inr b)
  then obtain found st1 where named: "list_named gw name st = Inr (found, st1)" by (cases b) auto
  let ?keys = "exact_matches found name"
  show ?thesis
  proof (cases "all_disabled ?keys")
    case True
    show ?thesis
      using assms lookup_listed(1) [OF named True] attempt_listed(1) [OF named True, of cal]
      by (auto simp: reveal_def reveal_lookup_def gw_bind_def gw_try_def gw_peek_def gw_return_def Let_def decide_def resets_at_def
          create_not_capped split: option.splits cap.splits if_splits sum.splits)
  next
    case False
    have "\<forall>i s. lookup gw name st \<noteq> Inr (LookupRevoked i, s)"
      using lookup_listed(2) [OF named False] by blast
    then have "reveal True (Some gw) cal (Some sub) st \<noteq> Inr (Some (KeyRevoked t revoked_at), st')" for t revoked_at st'
      using assms
      by (cases "lookup gw name st")
        (auto simp: reveal_def reveal_lookup_def gw_bind_def gw_try_def gw_return_def split: looked_up.splits)
    then show ?thesis using attempt_listed(2) [OF named False] by blast
  qed
qed

lemma disables_logged:
  fixes st st' :: "'s gw_state"
  assumes "list_named gw name st = Inr (found, st1)" and "filter kr_enabled (exact_matches found name) \<noteq> []"
    and "gs_log st' = gs_log (case disable_all gw name st of Inl (e, st1) \<Rightarrow> st1 | Inr (x, st1) \<Rightarrow> st1)"
  obtains rs where "gs_log st' = gs_log st @ Listed name found # disables (filter kr_enabled (exact_matches found name)) rs"
proof -
  obtain rs st2 where st2: "gs_log st2 = gs_log st @ Listed name found # disables (filter kr_enabled (exact_matches found name)) rs"
    and run: "case disable_all gw name st of
       Inr (NoKey, st'') \<Rightarrow> st'' = st2 \<and> set rs \<subseteq> {Some DisableKeyGone}
     | Inr (RevDone instant, st'') \<Rightarrow> st'' = st2 \<and> None \<notin> set rs \<and> landed_last instant rs
     | Inr (RevPartial instant, st'') \<Rightarrow> st'' = st2 \<and> None \<in> set rs \<and> landed_last instant rs
     | Inl (e, st'') \<Rightarrow> st'' = st2 \<and> None \<in> set rs \<and> (\<forall>i. Some (Applied i) \<notin> set rs)"
    using disable_all_Inr [OF assms(1,2)] by blast
  have "gs_log st' = gs_log st2"
  proof (cases "disable_all gw name st")
    case (Inr b)
    obtain out st'' where "b = (out, st'')" by (cases b)
    then show ?thesis using run assms(3) Inr by (cases out) simp_all
  qed (use run assms(3) in auto)
  with st2 show thesis using that by simp
qed

lemma revoke_disables_only_the_signed_in_users_keys:
  assumes "revoke oauth gateway cal headers web_origin session st = Inr (answer, st')"
    and "Disabled k d \<in> set (drop (length (gs_log st)) (gs_log st'))"
  shows "\<exists>sub name found key. session = Some sub \<and> key_name sub = Some name \<and> is_same_origin_write headers web_origin \<and>
    Listed name found \<in> set (gs_log st') \<and> key \<in> set found \<and> kr_id key = k \<and> kr_name key = name \<and> kr_enabled key"
proof -
  obtain gw sub name where run: "oauth" "gateway = Some gw" "is_same_origin_write headers web_origin" "session = Some sub" "key_name sub = Some name"
    and st': "revoke_name gw cal name st = Inr (answer, st')"
    using assms by (auto simp: revoke_def gw_return_def split: if_splits option.splits)
  have log: "gs_log st' = gs_log (case disable_all gw name st of Inl (e, st1) \<Rightarrow> st1 | Inr (x, st1) \<Rightarrow> st1)"
    using st' by (cases "disable_all gw name st")
      (auto simp: revoke_name_def gw_bind_def gw_try_def gw_peek_def gw_return_def Let_def split: revocation.splits)
  show ?thesis
  proof (cases "list_named gw name st")
    case (Inl a)
    then have "gs_log st' = gs_log st"
      using log list_named_log(2) [of gw name st] by (cases a) (auto simp: disable_all_def gw_bind_def)
    then show ?thesis using assms(2) by simp
  next
    case (Inr b)
    then obtain found st1 where named: "list_named gw name st = Inr (found, st1)" by (cases b) auto
    let ?keys = "exact_matches found name"
    show ?thesis
    proof (cases "filter kr_enabled ?keys = []")
      case True
      then have "gs_log st' = gs_log st @ [Listed name found]"
        using log named list_named_log(1) [OF named] current_key_Some [of ?keys]
        by (cases "current_key ?keys") (auto simp: disable_all_def gw_bind_def gw_return_def Let_def)
      then show ?thesis using assms(2) by simp
    next
      case False
      obtain rs where st2: "gs_log st' = gs_log st @ Listed name found # disables (filter kr_enabled ?keys) rs"
        by (rule disables_logged [OF named False log])
      then obtain key r where "(key, r) \<in> set (zip (filter kr_enabled ?keys) rs)" "kr_id key = k"
        using assms(2) by (auto simp: disables_def)
      then have "key \<in> set (filter kr_enabled ?keys)" by (meson set_zip_leftD)
      then show ?thesis
        using run st2 \<open>kr_id key = k\<close>
        by (intro exI [of _ sub] exI [of _ name] exI [of _ found] exI [of _ key]) (auto simp: exact_matches_def)
    qed
  qed
qed

end
