(* ===== verification/Key_Sample.thy ===== *)
theory Key_Sample
  imports Key_Routes Frontier_Sample
begin

text \<open>
  A concrete control plane, with the guarantees of the key routes at it: listings come from a script, so that they may lag
  or show what somebody else did; everything else answers from the account.
\<close>

record world =
  wo_listings :: "sdk_key list list"
  wo_plans :: "(string \<times> string) list"
  wo_deleted :: "string list"

definition listed_key :: "string \<Rightarrow> int \<Rightarrow> bool \<Rightarrow> int \<Rightarrow> sdk_key" where
  "listed_key k made on changed = \<lparr>sk_id = Some k, sk_name = Some ''discord-7-key'', sk_created = Some made, sk_enabled = on,
     sk_last_updated = Some changed, sk_value = Some ''value''\<rparr>"

definition world_plan :: "string \<Rightarrow> sdk_plan" where
  "world_plan p = \<lparr>sp_id = Some p, sp_name = Some ''pricing-api-pro-prod'', sp_stages = [(Some ''api'', Some ''prod'')],
     sp_throttle = None, sp_quota = None\<rparr>"

definition world_sdk :: "world sdk" where
  "world_sdk = \<lparr>
     sdk_get_api_keys = (\<lambda>pre position w. case wo_listings w of
       [] \<Rightarrow> (Inr ([], None), w) | l # ls \<Rightarrow> (Inr (l, None), w\<lparr>wo_listings := ls\<rparr>)),
     sdk_create_api_key = (\<lambda>name w. (Inr (listed_key ''new'' 1709300000 True 1709300000), w)),
     sdk_disable_api_key = (\<lambda>k w. (Inr (Some 1709300000), w)),
     sdk_create_usage_plan_key = (\<lambda>p k w. (Inr (), w\<lparr>wo_plans := (k, p) # wo_plans w\<rparr>)),
     sdk_get_api_key = (\<lambda>k values w. (if k \<in> set (wo_deleted w) then Inl (NotFound, ''gone'') else Inr (Some ''value''), w)),
     sdk_delete_api_key = (\<lambda>k w. (Inr (), w\<lparr>wo_deleted := k # wo_deleted w\<rparr>)),
     sdk_get_usage_plans = (\<lambda>k position w. (Inr (case map_of (wo_plans w) k of Some p \<Rightarrow> [world_plan p] | None \<Rightarrow> [], None), w)),
     sdk_get_usage = (\<lambda>p k start stop position w. (Inr (None, None), w)),
     sdk_today = (\<lambda>w. (2024, 3)), sdk_left_ms = (\<lambda>w. 10000)\<rparr>"

definition world_gateway :: "world gateway" where
  "world_gateway = \<lparr>gw_sdk = world_sdk, gw_free_plan_id = ''free'', gw_api_id = ''api'', gw_stage = ''prod''\<rparr>"

definition world_start :: "sdk_key list list \<Rightarrow> world gw_state" where
  "world_start listings = \<lparr>gs_aws = \<lparr>wo_listings = listings, wo_plans = [(''old'', ''pro'')], wo_deleted = []\<rparr>, gs_log = []\<rparr>"

definition march :: period where
  "march = \<lparr>pe_year = 2024, pe_month = 3\<rparr>"

lemma march_contains: "period_containing gregorian (2024, 3) = Some march"
  by (simp add: period_containing_def gregorian_def next_month_def march_def)

lemma march_start: "start_secs gregorian march = 1709251200"
  by (simp add: start_secs_def gregorian_def march_def month_seconds_def month_days_def leap_days_def Let_def)

section \<open>The calls of the sample\<close>

lemma pages: "max_pages = Suc 49" by (simp add: max_pages_def)

lemmas first_list = list_pages.simps(2) [where n = 49, folded pages] and first_plan = plan_pages.simps(2) [where n = 49, folded pages]

lemma world_lists:
  "list_named world_gateway n \<lparr>gs_aws = \<lparr>wo_listings = l # ls, wo_plans = ps, wo_deleted = ds\<rparr>, gs_log = evs\<rparr> =
   Inr (List.map_filter key_from_sdk l, \<lparr>gs_aws = \<lparr>wo_listings = ls, wo_plans = ps, wo_deleted = ds\<rparr>,
     gs_log = evs @ [Listed n (List.map_filter key_from_sdk l)]\<rparr>)"
  by (simp add: list_named_def first_list gw_bind_def gw_call_def world_gateway_def world_sdk_def cursor_of_def gw_return_def gw_log_def)

lemma world_plans:
  "plan_of world_gateway k \<lparr>gs_aws = \<lparr>wo_listings = ls, wo_plans = ps, wo_deleted = ds\<rparr>, gs_log = evs\<rparr> =
   (let plan = Option.bind (map_of ps k) (\<lambda>p. plan_from_sdk ''prod'' (world_plan p))
    in Inr (plan, \<lparr>gs_aws = \<lparr>wo_listings = ls, wo_plans = ps, wo_deleted = ds\<rparr>, gs_log = evs @ [PlanOf k (map_option pl_id plan)]\<rparr>))"
proof -
  have "select_plan (case map_of ps k of Some p \<Rightarrow> [world_plan p] | None \<Rightarrow> []) ''api'' ''prod'' =
      Option.bind (map_of ps k) (\<lambda>p. plan_from_sdk ''prod'' (world_plan p))"
    by (simp add: select_plan_def List.map_filter_def world_plan_def plan_from_sdk_def split: option.split)
  then show ?thesis
    by (simp add: plan_of_def first_plan gw_bind_def gw_call_def world_gateway_def world_sdk_def cursor_of_def gw_return_def gw_log_def Let_def)
qed

lemma world_plan_id: "map_option pl_id (plan_from_sdk s (world_plan p)) = Some p" "\<exists>x. plan_from_sdk s (world_plan p) = Some x \<and> pl_id x = p"
  by (simp_all add: plan_from_sdk_def world_plan_def Let_def)

lemma world_creates:
  "create_key world_gateway n st = Inr ((\<lparr>kr_id = ''new'', kr_name = n, kr_created_at = Some 1709300000, kr_enabled = True,
     kr_last_updated_at = Some 1709300000\<rparr>, ''value''), st\<lparr>gs_log := gs_log st @ [Created n (Some \<lparr>kr_id = ''new'', kr_name = n,
     kr_created_at = Some 1709300000, kr_enabled = True, kr_last_updated_at = Some 1709300000\<rparr>)]\<rparr>)"
  by (simp add: create_key_def gw_bind_def gw_call_def world_gateway_def world_sdk_def listed_key_def unsigned_def gw_return_def gw_log_def Let_def)

lemma world_attaches:
  "attach_to_plan world_gateway k p st = Inr (OnPlan, st\<lparr>gs_aws := (gs_aws st)\<lparr>wo_plans := (k, p) # wo_plans (gs_aws st)\<rparr>,
     gs_log := gs_log st @ [Attached k p (Some OnPlan)]\<rparr>)"
  by (simp add: attach_to_plan_def gw_bind_def gw_call_def world_gateway_def world_sdk_def gw_return_def gw_log_def Let_def)

lemma world_deletes:
  "delete_key world_gateway k st = Inr ((), st\<lparr>gs_aws := (gs_aws st)\<lparr>wo_deleted := k # wo_deleted (gs_aws st)\<rparr>, gs_log := gs_log st @ [Deleted k]\<rparr>)"
  by (simp add: delete_key_def gw_bind_def gw_call_def world_gateway_def world_sdk_def gw_return_def gw_log_def)

lemma world_reads:
  "value_of world_gateway k st = Inr (if k \<in> set (wo_deleted (gs_aws st)) then None else Some ''value'', st)"
  by (simp add: value_of_def gw_bind_def gw_call_def world_gateway_def world_sdk_def gw_return_def)

lemma world_disables:
  "disable world_gateway k st = Inr (Applied (Some 1709300000), st\<lparr>gs_log := gs_log st @ [Disabled k (Some (Applied (Some 1709300000)))]\<rparr>)"
  by (simp add: disable_def gw_bind_def gw_call_def world_gateway_def world_sdk_def unsigned_def gw_return_def gw_log_def Let_def)

lemma world_peeks: "sdk_today (gw_sdk world_gateway) w = (2024, 3)" "sdk_left_ms (gw_sdk world_gateway) w = 10000" "gw_free_plan_id world_gateway = ''free''"
  by (simp_all add: world_gateway_def world_sdk_def)

lemma listed: "key_from_sdk (listed_key k a b c) = Some \<lparr>kr_id = k, kr_name = ''discord-7-key'', kr_created_at = unsigned a, kr_enabled = b,
    kr_last_updated_at = unsigned c\<rparr>"
  by (simp add: key_from_sdk_def listed_key_def)

lemma seven: "key_name ''7'' = Some ''discord-7-key''"
  by (simp add: key_name_def is_ascii_digit_def)

lemmas world_simps = world_lists world_plans world_creates world_attaches world_deletes world_reads world_disables world_peeks listed
  march_contains march_start seven world_start_def

section \<open>A rework\<close>

text \<open>The user revoked the key in February; in March a new one is issued, put on the old one's plan, and the old one deleted.\<close>

definition old_key :: key_record where
  "old_key = \<lparr>kr_id = ''old'', kr_name = ''discord-7-key'', kr_created_at = Some 1700000000, kr_enabled = False, kr_last_updated_at = Some 1708000000\<rparr>"

definition new_key :: key_record where
  "new_key = \<lparr>kr_id = ''new'', kr_name = ''discord-7-key'', kr_created_at = Some 1709300000, kr_enabled = True, kr_last_updated_at = Some 1709300000\<rparr>"

definition rework :: "sdk_key list list" where
  "rework = [[listed_key ''old'' 1700000000 False 1708000000], [listed_key ''old'' 1700000000 False 1708000000, listed_key ''new'' 1709300000 True 1709300000]]"

lemma attempts: "max_attempts = Suc (Suc 0)"
  by (simp add: max_attempts_def)

lemma february_key: "decide gregorian (Some 1708000000) march = Allowed"
  by (simp add: decide_def march_start)

lemmas run_simps = log_of_def issue_for_def gw_bind_def gw_try_def gw_return_def reconcile_def attempts attempt_once_def exact_matches_def
  List.map_filter_def unsigned_def judge_cap_def read_today_def gw_peek_def gw_log_def revocation_instant_def max_of_list_def create_and_converge_def
  create_floor_ms_def converge_def choose_winner_def min_by_key_def settle_plan_def resolve_target_plan_def revoked_newest_first_def
  world_plan_def plan_from_sdk_def attach_def losers_def Let_def february_key

lemma rework_log: "log_of (issue_for world_gateway gregorian ''7'' (world_start rework)) =
    [Listed ''discord-7-key'' [old_key], Today (2024, 3), Created ''discord-7-key'' (Some new_key), Listed ''discord-7-key'' [old_key, new_key],
     PlanOf ''new'' None, PlanOf ''old'' (Some ''pro''), Attached ''new'' ''pro'' (Some OnPlan), Deleted ''old'']"
  by (simp add: world_simps run_simps rework_def old_key_def new_key_def)

lemma start_log: "gs_log (world_start l) = []"
  by (simp add: world_start_def)

theorem issue_deletes_only_superseded_keys_witness:
  "\<exists>before. log_of (issue_for world_gateway gregorian ''7'' (world_start rework)) = before @ [Deleted ''old''] \<and>
    (\<exists>name w. key_name ''7'' = Some name \<and> (seen name True before w \<or> made_here name before w) \<and> on_plan before w)"
proof -
  obtain before where "log_of (issue_for world_gateway gregorian ''7'' (world_start rework)) = before @ Deleted ''old'' # []"
    unfolding rework_log by (metis append_Cons append_Nil)
  from issue_deletes_only_superseded_keys [OF start_log this] this show ?thesis by blast
qed

theorem issue_creates_only_under_the_cap_witness:
  "key_name ''7'' = Some ''discord-7-key'' \<and> log_of (issue_for world_gateway gregorian ''7'' (world_start rework)) =
     [Listed ''discord-7-key'' [old_key], Today (2024, 3)] @ Created ''discord-7-key'' (Some new_key) #
     drop 3 (log_of (issue_for world_gateway gregorian ''7'' (world_start rework)))"
proof -
  have log: "log_of (issue_for world_gateway gregorian ''7'' (world_start rework)) =
     [Listed ''discord-7-key'' [old_key], Today (2024, 3)] @ Created ''discord-7-key'' (Some new_key) #
     drop 3 (log_of (issue_for world_gateway gregorian ''7'' (world_start rework)))"
    unfolding rework_log by simp
  from issue_creates_only_under_the_cap [OF start_log log] log show ?thesis by blast
qed


section \<open>A key that is enabled again\<close>

text \<open>
  The old key is enabled again between the two listings: it wins, and Step 5 deletes it with the new one, because the
  records of the first listing are chained without asking whether one of them is the winner.
\<close>

definition old_key_on :: key_record where
  "old_key_on = old_key\<lparr>kr_enabled := True, kr_last_updated_at := Some 1709299000\<rparr>"

definition enabled_again :: "sdk_key list list" where
  "enabled_again = [[listed_key ''old'' 1700000000 False 1708000000], [listed_key ''old'' 1700000000 True 1709299000, listed_key ''new'' 1709300000 True 1709300000]]"

lemma winner_enabled_again_is_deleted:
  "attempt_once world_gateway gregorian ''discord-7-key'' (world_start enabled_again) =
   Inr (Some Retry, \<lparr>gs_aws = \<lparr>wo_listings = [], wo_plans = [(''old'', ''pro'')], wo_deleted = [''old'', ''new'']\<rparr>,
     gs_log = [Listed ''discord-7-key'' [old_key], Today (2024, 3), Created ''discord-7-key'' (Some new_key), Listed ''discord-7-key'' [old_key_on, new_key],
       PlanOf ''old'' (Some ''pro''), Deleted ''new'', Deleted ''old'']\<rparr>)"
  by (simp add: world_simps run_simps enabled_again_def old_key_def new_key_def old_key_on_def rank_def)

section \<open>The page's routes\<close>

definition page_headers :: "string \<Rightarrow> string option" where
  "page_headers = map_of [(''x-requested-with'', ''stellar-prices-portal''), (''sec-fetch-site'', ''same-origin'')]"

lemma page_is_same_origin: "is_same_origin_write page_headers None"
  by (simp add: is_same_origin_write_def page_headers_def portal_request_header_def eq_ignore_ascii_case_def)

definition two_keys :: "sdk_key list list" where
  "two_keys = [[listed_key ''old'' 1700000000 False 1708000000, listed_key ''live'' 1709260000 True 1709260000]]"

lemma two_keys_revoked: "\<exists>st'. disable_all world_gateway ''discord-7-key'' (world_start two_keys) = Inr (RevDone (Some 1709300000), st') \<and>
    Disabled ''live'' (Some (Applied (Some 1709300000))) \<in> set (gs_log st')"
  by (simp add: world_simps run_simps two_keys_def disable_all_def current_key_def rank_def)

theorem revocation_reports_what_landed_witness:
  "\<exists>st' found rs. disable_all world_gateway ''discord-7-key'' (world_start two_keys) = Inr (RevDone (Some 1709300000), st') \<and>
    gs_log st' = Listed ''discord-7-key'' found # disables (filter kr_enabled (exact_matches found ''discord-7-key'')) rs \<and> None \<notin> set rs"
proof -
  obtain st' where run: "disable_all world_gateway ''discord-7-key'' (world_start two_keys) = Inr (RevDone (Some 1709300000), st')"
    using two_keys_revoked by blast
  from revocation_reports_what_landed [OF run] run show ?thesis by (auto simp: start_log)
qed

definition revoked_in_march :: "sdk_key list list" where
  "revoked_in_march = [[listed_key ''old'' 1700000000 False 1709260000]]"

lemma march_key: "decide gregorian (Some 1709260000) march = Capped (resets_at march) (next_start_ymd march)"
  by (simp add: decide_def march_start)

theorem reveal_and_issue_agree_on_the_cap_witness:
  "\<exists>st'. attempt_once world_gateway gregorian ''discord-7-key'' (world_start revoked_in_march) = Inr (Some (AttemptCapped (next_start_ymd march)), st')"
proof -
  have "\<exists>revoked_at st1. reveal True (Some world_gateway) gregorian (Some ''7'') (world_start revoked_in_march) =
      Inr (Some (KeyRevoked (next_start_ymd march @ ''T00:00:00Z'') revoked_at), st1)"
    by (simp add: world_simps run_simps revoked_in_march_def reveal_def reveal_lookup_def lookup_def current_key_def march_key resets_at_def)
  then show ?thesis using reveal_and_issue_agree_on_the_cap [OF seven] by blast
qed

end
