(* ===== verification/Rekey_Text.thy ===== *)
theory Rekey_Text
  imports Prelude Text_Pieces
begin

text \<open>
  The statement texts the id migration rewrites (\<open>prices-clickhouse/src/rekey.rs\<close>, \<open>rekey/swap.rs\<close>, \<open>asset_id.rs\<close>):
  searching and replacing, the rewriting of database names and of id types, and what a definition creates and writes.
\<close>

section \<open>Searching\<close>

text \<open>\<open>find\<close> and the text on both sides of the first match.\<close>

fun split_first :: "string \<Rightarrow> string \<Rightarrow> (string \<times> string) option" where
  "split_first pat [] = (if pat = [] then Some ([], []) else None)"
| "split_first pat (c # cs) =
     (if take (length pat) (c # cs) = pat then Some ([], drop (length pat) (c # cs))
      else map_option (\<lambda>(a, b). (c # a, b)) (split_first pat cs))"

lemma split_first_Some: "split_first pat s = Some (a, b) \<Longrightarrow> s = a @ pat @ b"
proof (induction s arbitrary: a)
  case (Cons c cs)
  show ?case
  proof (cases "take (length pat) (c # cs) = pat")
    case True
    then show ?thesis using Cons.prems append_take_drop_id [of "length pat" "c # cs"] by auto
  next
    case False
    then show ?thesis using Cons by (auto split: if_splits)
  qed
qed (auto split: if_splits)

lemma split_first_length: "split_first pat s = Some (a, b) \<Longrightarrow> length s = length a + length pat + length b"
  using split_first_Some [of pat s a b] by simp

definition has_text :: "string \<Rightarrow> string \<Rightarrow> bool" where
  "has_text s pat \<longleftrightarrow> split_first pat s \<noteq> None"

definition strip_text :: "string \<Rightarrow> string \<Rightarrow> string option" where
  "strip_text pre s = (if take (length pre) s = pre then Some (drop (length pre) s) else None)"

text \<open>\<open>str::replace\<close> and \<open>replacen\<close> of one; a search for nothing is not used.\<close>

function replace_all :: "string \<Rightarrow> string \<Rightarrow> string \<Rightarrow> string" where
  "replace_all pat by s = (if pat = [] then s else case split_first pat s of None \<Rightarrow> s | Some (a, b) \<Rightarrow> a @ by @ replace_all pat by b)"
  by pat_completeness auto
termination by (relation "measure (\<lambda>(pat, by, s). length s)") (auto dest: split_first_length)

declare replace_all.simps [simp del]

definition replace_first :: "string \<Rightarrow> string \<Rightarrow> string \<Rightarrow> string" where
  "replace_first pat by s = (case split_first pat s of None \<Rightarrow> s | Some (a, b) \<Rightarrow> a @ by @ b)"

definition is_ident :: "char \<Rightarrow> bool" where
  "is_ident c \<longleftrightarrow> (let n = (of_char c :: nat) in (48 \<le> n \<and> n \<le> 57) \<or> (65 \<le> n \<and> n \<le> 90) \<or> (97 \<le> n \<and> n \<le> 122) \<or> c = CHR ''_'')"

section \<open>String literals\<close>

definition sql_str :: "string \<Rightarrow> string" where
  "sql_str s = [CHR 0x27] @ concat (map (\<lambda>c. if c = CHR 0x5C \<or> c = CHR 0x27 then [CHR 0x5C, c] else [c]) s) @ [CHR 0x27]"

text \<open>How ClickHouse reads a literal: up to the closing quote, with a backslash before a backslash or a quote.\<close>

fun read_literal :: "string \<Rightarrow> string \<Rightarrow> (string \<times> string) option" where
  "read_literal acc [] = None"
| "read_literal acc (c # cs) =
     (if c = CHR 0x27 then Some (acc, cs)
      else if c = CHR 0x5C then (case cs of [] \<Rightarrow> None | d # ds \<Rightarrow> read_literal (acc @ [d]) ds)
      else read_literal (acc @ [c]) cs)"

lemma read_sql_body:
  "read_literal acc (concat (map (\<lambda>c. if c = CHR 0x5C \<or> c = CHR 0x27 then [CHR 0x5C, c] else [c]) s) @ CHR 0x27 # rest) = Some (acc @ s, rest)"
  by (induction s arbitrary: acc) auto

lemma sql_str_is_one_literal: "read_literal [] (tl (sql_str s @ rest)) = Some (s, rest)" "hd (sql_str s) = CHR 0x27"
  using read_sql_body [of "[]" s rest] by (simp_all add: sql_str_def)

section \<open>Rewriting definitions\<close>

definition id_columns :: "string \<Rightarrow> string list" where
  "id_columns table = (if strip_text ''price_ohlcv_'' table \<noteq> None then [''asset_id'', ''quote_asset_id''] else [''asset_id''])"

text \<open>The id columns of a captured column list, also inside \<open>Nullable\<close>, become \<open>UInt64\<close>. 0x60 is the back quote.\<close>

definition with_uint64_ids :: "string \<Rightarrow> string" where
  "with_uint64_ids ddl =
     foldl (\<lambda>s (c, wrap). replace_all ([CHR 0x60] @ c @ [CHR 0x60] @ '' '' @ wrap @ ''UInt32'') ([CHR 0x60] @ c @ [CHR 0x60] @ '' '' @ wrap @ ''UInt64'') s)
       ddl [(''asset_id'', []), (''asset_id'', ''Nullable(''), (''quote_asset_id'', []), (''quote_asset_id'', ''Nullable('')]"

function rewrite_loop :: "string \<Rightarrow> string \<Rightarrow> string list option \<Rightarrow> string \<Rightarrow> string \<Rightarrow> string" where
  "rewrite_loop from_db to_db names out rest =
     (case split_first (from_db @ ''.'') rest of
        None \<Rightarrow> out @ rest
      | Some (before, tail) \<Rightarrow>
          (let out = out @ before;
               bounded = (out = [] \<or> \<not> is_ident (last out));
               name = takeWhile is_ident tail;
               hit = (bounded \<and> (case names of None \<Rightarrow> True | Some ns \<Rightarrow> name \<in> set ns))
           in rewrite_loop from_db to_db names (out @ (if hit then to_db else from_db) @ ''.'' @ name) (dropWhile is_ident tail)))"
  by pat_completeness auto
termination
proof (relation "measure (\<lambda>(f, t, n, out, rest). length rest)", goal_cases)
  case (2 from_db to_db names out rest x before tail)
  then have "length rest = length before + (length from_db + 1) + length tail"
    using split_first_length [of "from_db @ ''.''" rest before tail] by simp
  then show ?case using length_dropWhile_le [of is_ident tail] by simp
qed simp

declare rewrite_loop.simps [simp del]

definition rewrite_db :: "string \<Rightarrow> string \<Rightarrow> string \<Rightarrow> string list option \<Rightarrow> string" where
  "rewrite_db ddl from_db to_db names = rewrite_loop from_db to_db names [] ddl"

function own_definer_loop :: "string \<Rightarrow> string \<Rightarrow> string" where
  "own_definer_loop out rest =
     (case split_first ''DEFINER = '' rest of
        None \<Rightarrow> out @ rest
      | Some (before, tail) \<Rightarrow> own_definer_loop (out @ before @ ''DEFINER = '' @ ''CURRENT_USER'') (dropWhile is_ident tail))"
  by pat_completeness auto
termination
proof (relation "measure (\<lambda>(out, rest). length rest)", goal_cases)
  case (2 out rest x before tail)
  then have "length rest = length before + 10 + length tail"
    using split_first_length [of "''DEFINER = ''" rest before tail] by simp
  then show ?case using length_dropWhile_le [of is_ident tail] by simp
qed simp

declare own_definer_loop.simps [simp del]

definition own_definer :: "string \<Rightarrow> string" where
  "own_definer ddl = own_definer_loop [] ddl"

section \<open>What a definition creates\<close>

fun find_strip :: "string list \<Rightarrow> string \<Rightarrow> string option" where
  "find_strip [] s = None"
| "find_strip (p # ps) s = (case strip_text p s of Some rest \<Rightarrow> Some rest | None \<Rightarrow> find_strip ps s)"

definition created_object :: "string \<Rightarrow> string option" where
  "created_object stmt =
     Option.bind (find_strip [''CREATE MATERIALIZED VIEW IF NOT EXISTS '', ''CREATE MATERIALIZED VIEW '', ''CREATE OR REPLACE VIEW '', ''CREATE VIEW '']
       (trim_front white_chars stmt)) first_word"

definition in_database :: "string \<Rightarrow> string \<Rightarrow> bool" where
  "in_database db obj = (case strip_text db obj of Some (c # _) \<Rightarrow> c = CHR ''.'' | _ \<Rightarrow> False)"

definition creates_in :: "string \<Rightarrow> string \<Rightarrow> bool" where
  "creates_in stmt db =
     (let head = (case split_first '' AS '' stmt of Some (a, b) \<Rightarrow> a | None \<Rightarrow> stmt)
      in (case created_object stmt of Some obj \<Rightarrow> in_database db obj | None \<Rightarrow> False) \<and>
         (case split_first '' TO '' head of
            None \<Rightarrow> True
          | Some (a, t) \<Rightarrow> (case first_word t of Some obj \<Rightarrow> in_database db obj | None \<Rightarrow> False)))"

section \<open>Schema statements\<close>

definition copied_tables :: "string list" where
  "copied_tables = [''price_ohlcv_1m'', ''price_ohlcv_15m'', ''price_ohlcv_1h'', ''price_ohlcv_4h'', ''price_ohlcv_1d'', ''price_ohlcv_1w'',
     ''price_ohlcv_1M'', ''current_prices'', ''asset_supply'', ''asset_metadata'', ''oracle_prices'']"

text \<open>The lines of a text.\<close>

definition text_lines :: "string \<Rightarrow> string list" where
  "text_lines s = (let ls = split_on CHR 0x0A s; ls = (if ls \<noteq> [] \<and> last ls = [] then butlast ls else ls)
     in map (\<lambda>l. if l \<noteq> [] \<and> last l = CHR 0x0D then butlast l else l) ls)"

definition split_statements :: "string \<Rightarrow> string list" where
  "split_statements sql =
     (let stripped = concat (let ls = map (\<lambda>l. case split_first ''--'' l of Some (a, b) \<Rightarrow> a | None \<Rightarrow> l) (text_lines sql)
        in map (\<lambda>l. l @ [CHR 0x0A]) (butlast ls) @ (if ls = [] then [] else [last ls]))
      in filter (\<lambda>s. s \<noteq> []) (map trim (split_on CHR '';'' stripped)))"

definition statement_table :: "string \<Rightarrow> string option" where
  "statement_table stmt = map_option (takeWhile is_ident) (find_strip [''CREATE TABLE IF NOT EXISTS prices.'', ''ALTER TABLE prices.''] stmt)"

function rename_loop :: "string \<Rightarrow> string \<Rightarrow> string \<Rightarrow> string" where
  "rename_loop db out rest =
     (case split_first ''prices.'' rest of
        None \<Rightarrow> out @ rest
      | Some (before, tail) \<Rightarrow>
          (let name = takeWhile is_ident tail
           in rename_loop db (out @ before @ db @ ''.'' @ name @ (if name \<in> set copied_tables then ''__new'' else [])) (dropWhile is_ident tail)))"
  by pat_completeness auto
termination
proof (relation "measure (\<lambda>(db, out, rest). length rest)", goal_cases)
  case (2 db out rest x before tail)
  then have "length rest = length before + 7 + length tail"
    using split_first_length [of "''prices.''" rest before tail] by simp
  then show ?case using length_dropWhile_le [of is_ident tail] by simp
qed simp

declare rename_loop.simps [simp del]

definition rename_for_new :: "string \<Rightarrow> string \<Rightarrow> string" where
  "rename_for_new stmt db = rename_loop db [] stmt"

definition create_sql :: "string \<Rightarrow> string \<Rightarrow> string list" where
  "create_sql init_sql db =
     map (\<lambda>s. rename_for_new s db)
       (filter (\<lambda>s. case statement_table s of Some t \<Rightarrow> t \<in> set copied_tables | None \<Rightarrow> False) (split_statements init_sql))"

section \<open>Column parity\<close>

definition parity :: "string \<Rightarrow> (string \<times> string) list \<Rightarrow> (string \<times> string) list \<Rightarrow> (string, unit) result" where
  "parity table live new =
     (let missing = concat (map (\<lambda>(name, ty). case map_of new name of
            None \<Rightarrow> [table @ ''__new lacks '' @ name]
          | Some t \<Rightarrow> if t \<noteq> ty \<and> name \<notin> {''asset_id'', ''quote_asset_id''}
              then [name @ '' is '' @ ty @ '' in '' @ table @ '', '' @ t @ '' in '' @ table @ ''__new''] else []) live);
          extra = concat (map (\<lambda>(name, _). if map_of live name = None then [table @ '' lacks '' @ name] else []) new);
          bad = missing @ extra
      in if bad = [] then Inr () else Inl (concat (map (\<lambda>s. s @ '', '') (butlast bad)) @ last bad))"

text \<open>Without an error the two tables have the same columns, of the same types but for the ids.\<close>

lemma parity_agrees:
  assumes "parity table live new = Inr ()"
  shows "fst ` set live = fst ` set new"
    and "distinct (map fst live) \<Longrightarrow> distinct (map fst new) \<Longrightarrow> (n, a) \<in> set live \<Longrightarrow> (n, b) \<in> set new \<Longrightarrow>
      n \<notin> {''asset_id'', ''quote_asset_id''} \<Longrightarrow> a = b"
proof -
  have live: "map_of new n \<noteq> None \<and> (map_of new n = Some ty \<or> n \<in> {''asset_id'', ''quote_asset_id''})" if "(n, ty) \<in> set live" for n ty
    using assms that by (fastforce simp: parity_def Let_def split: if_splits option.splits)
  have new: "map_of live n \<noteq> None" if "(n, ty) \<in> set new" for n ty
    using assms that by (fastforce simp: parity_def Let_def split: if_splits)
  show "fst ` set live = fst ` set new"
    using live new by (force simp: map_of_eq_None_iff)
  assume "distinct (map fst new)" "(n, a) \<in> set live" "(n, b) \<in> set new" "n \<notin> {''asset_id'', ''quote_asset_id''}"
  then show "a = b" using live [of n a] map_of_is_SomeI [of new n b] by auto
qed

section \<open>The rewriting keeps to its database\<close>

lemma rewrite_none: "split_first (from_db @ ''.'') rest = None \<Longrightarrow> rewrite_loop from_db to_db names out rest = out @ rest"
  by (simp add: rewrite_loop.simps)

lemma rewrite_same_loop: "rewrite_loop db db names out rest = out @ rest"
proof (induction "length rest" arbitrary: out rest rule: less_induct)
  case less
  show ?case
  proof (cases "split_first (db @ ''.'') rest")
    case (Some p)
    obtain before tail where p: "p = (before, tail)" by (cases p)
    note rest = split_first_Some [OF Some [unfolded p]] split_first_length [OF Some [unfolded p]]
    have "length (dropWhile is_ident tail) < length rest"
      using rest(2) length_dropWhile_le [of is_ident tail] by simp
    from less [OF this] Some p show ?thesis
      by (subst rewrite_loop.simps) (auto simp: rest(1) Let_def)
  qed (simp add: rewrite_none)
qed

text \<open>A rewrite into the same database changes nothing, so a capture in place stores the definitions as they are.\<close>

lemma rewrite_db_same: "rewrite_db ddl db db names = ddl"
  by (simp add: rewrite_db_def rewrite_same_loop)

end
