(* ===== verification/Rekey_Db.thy ===== *)
theory Rekey_Db
  imports Rekey_Text
begin

text \<open>
  What a step of the id migration is made of (\<open>prices-clickhouse/src/rekey.rs\<close>): the statements it sends to ClickHouse, the
  queries it asks, the log table it reads back, and its errors. A statement that fails may have landed.
\<close>

section \<open>Errors\<close>

datatype rk_refusal =
  MapIsFinal
| NoMap
| NoQueryLog
| NoIdColumn string
| AlreadyNewIds string
| TargetNotNew string
| PartitionsDiffer string string
| SwapHasRun
| ScratchOnly
| NothingCaptured
| WindowBusy "string list"
| CheckNotGreen string
| SwapDone
| AlterFirst
| CannotSwap string "string option" "string option"
| SwapNotRun
| OutsideDatabase string
| NothingToRollBack
| LosesRows "string list"

datatype rk_gate =
  MapGate "(string \<times> i64) list"
| CreateGate "string list"
| FillGate "string list"
| CheckGate "string list"
| MutationsOpen u64 string
| SnapshotDiffers u64 u64
| AssetsGate u64 u64 u64 u64
| TypeGate "(string \<times> string \<times> string) list"
| ViewsRunning u64

datatype rk_error = RkQuery string | RkRefused rk_refusal | RkGate rk_gate

section \<open>Statements and the log\<close>

record layout =
  ly_partition_key :: string
  ly_key :: "string list"
  ly_source_cols :: "string list"
  ly_target_cols :: "string list"
  ly_ids :: "string list"

record table_fill =
  fi_source :: string
  fi_target :: string
  fi_partition :: "string option"

definition fill_table :: "string \<Rightarrow> table_fill" where
  "fill_table t = \<lparr>fi_source = t, fi_target = t @ ''__new'', fi_partition = None\<rparr>"

datatype rk_stmt =
  EnsureToolTable nat
| ExchangeTables string string
| RenameTable string string
| DropTable string
| CreateTableAs string string
| CreateText string
| StopMerges string
| StartMerges string
| AttachPartition string string string
| ModifyIdColumn string
| MaterializeIdColumn string
| AddDerivedCheck string
| InsertMap string
| DropPartition string string
| InsertFill table_fill layout string string
| TruncateTable string
| InsertMonths string "string list"
| InsertDdl string string string
| InsertTablesDdl
| DropView string
| StopView string

record log_row =
  lr_step :: string
  lr_source :: string
  lr_target :: string
  lr_partition :: string
  lr_status :: string
  lr_query_id :: string
  lr_written :: u64
  lr_expected :: u64
  lr_expected_keys :: u64
  lr_target_keys :: u64
  lr_fingerprint :: string
  lr_detail :: string
  lr_from :: u32
  lr_to :: u32

definition log_row_of :: "string \<Rightarrow> string \<Rightarrow> log_row" where
  "log_row_of step status = \<lparr>lr_step = step, lr_source = [], lr_target = [], lr_partition = [], lr_status = status, lr_query_id = [],
     lr_written = 0, lr_expected = 0, lr_expected_keys = 0, lr_target_keys = 0, lr_fingerprint = [], lr_detail = [], lr_from = 0, lr_to = 0\<rparr>"

section \<open>The server\<close>

text \<open>
  The server and the arguments of the tool. Queries answer from the database or fail; \<open>rk_log_write\<close> says what an insert
  into the log answered and, when it failed, whether it landed; the polling queries answer what their last poll saw.
\<close>

record 'd rk_env =
  rk_db :: string
  rk_execute :: bool
  rk_run :: "rk_stmt \<Rightarrow> 'd \<Rightarrow> (string, unit) result \<times> 'd"
  rk_log_write :: "log_row \<Rightarrow> 'd \<Rightarrow> (string, unit) result \<times> bool"
  rk_log_read :: "'d \<Rightarrow> (string, unit) result"
  rk_exists :: "string \<Rightarrow> 'd \<Rightarrow> (string, bool) result"
  rk_id_types :: "string \<Rightarrow> 'd \<Rightarrow> (string, (string \<times> string) list) result"
  rk_map_violations :: "string \<Rightarrow> nat \<Rightarrow> 'd \<Rightarrow> (string, i64) result"
  rk_count :: "string \<Rightarrow> 'd \<Rightarrow> (string, u64) result"
  rk_query_log :: "'d \<Rightarrow> (string, bool) result"
  rk_status_summary :: "string \<Rightarrow> 'd \<Rightarrow> (string, string) result"
  rk_stored_columns :: "string \<Rightarrow> 'd \<Rightarrow> (string, (string \<times> string) list) result"
  rk_keys :: "string \<Rightarrow> 'd \<Rightarrow> (string, string \<times> string) result"
  rk_partitions :: "string \<Rightarrow> 'd \<Rightarrow> (string, (string \<times> string) list) result"
  rk_probe :: "table_fill \<Rightarrow> layout \<Rightarrow> string \<Rightarrow> 'd \<Rightarrow> (string, u64 \<times> u64 \<times> u64 \<times> u64) result"
  rk_target_keys :: "table_fill \<Rightarrow> layout \<Rightarrow> string \<Rightarrow> 'd \<Rightarrow> (string, u64) result"
  rk_written_rows :: "string \<Rightarrow> 'd \<Rightarrow> (string, u64 option) result"
  rk_classes :: "string \<Rightarrow> string list \<Rightarrow> 'd \<Rightarrow> (string, (string \<times> u64) list) result"
  rk_views :: "string \<Rightarrow> 'd \<Rightarrow> (string, (string \<times> string \<times> string) list) result"
  rk_captured :: "string \<Rightarrow> 'd \<Rightarrow> (string, (string \<times> string) list) result"
  rk_refreshes :: "'d \<Rightarrow> (string, (string \<times> string) list) result"
  rk_inserts :: "'d \<Rightarrow> (string, u64) result"
  rk_async_inserts :: "'d \<Rightarrow> (string, u64) result"
  rk_open_mutations :: "string \<Rightarrow> 'd \<Rightarrow> (string, u64 \<times> string) result"
  rk_underived :: "'d \<Rightarrow> (string, u64 \<times> u64) result"
  rk_identities :: "'d \<Rightarrow> (string, u64 \<times> u64) result"
  rk_live_bounds :: "'d \<Rightarrow> (string, u32 \<times> u32) result"
  rk_uint32_ids :: "'d \<Rightarrow> (string, (string \<times> string \<times> string) list) result"
  rk_mvs :: "'d \<Rightarrow> (string, string list) result"
  rk_rows_after :: "string \<Rightarrow> u32 \<Rightarrow> 'd \<Rightarrow> (string, u64) result"
  rk_new_identities :: "'d \<Rightarrow> (string, u64) result"
  rk_running_views :: "'d \<Rightarrow> (string, u64) result"
  rk_init_sql :: string
  rk_rollups_sql :: string
  rk_current_sql :: string
  rk_views_sql :: string

text \<open>The rows of the log are kept in the order of their instants, which are taken to differ.\<close>

record 'd rk_state =
  rs_db :: 'd
  rs_log :: "log_row list"
  rs_sent :: "rk_stmt list"

type_synonym ('d, 'a) rk_prog = "'d rk_state \<Rightarrow> (rk_error \<times> 'd rk_state, 'a \<times> 'd rk_state) result"

definition rk_return :: "'a \<Rightarrow> ('d, 'a) rk_prog" where
  "rk_return x st = Inr (x, st)"

definition rk_fail :: "rk_error \<Rightarrow> ('d, 'a) rk_prog" where
  "rk_fail e st = Inl (e, st)"

definition rk_bind :: "('d, 'a) rk_prog \<Rightarrow> ('a \<Rightarrow> ('d, 'b) rk_prog) \<Rightarrow> ('d, 'b) rk_prog" where
  "rk_bind m f st = rbind (m st) (\<lambda>(x, st). f x st)"

definition refuse :: "rk_refusal \<Rightarrow> ('d, 'a) rk_prog" where
  "refuse r = rk_fail (RkRefused r)"

definition rk_try :: "('d, 'a) rk_prog \<Rightarrow> ('d, (rk_error, 'a) result) rk_prog" where
  "rk_try m st = (case m st of Inl (e, st) \<Rightarrow> Inr (Inl e, st) | Inr (x, st) \<Rightarrow> Inr (Inr x, st))"

definition ask :: "('d \<Rightarrow> (string, 'a) result) \<Rightarrow> ('d, 'a) rk_prog" where
  "ask q st = (case q (rs_db st) of Inl message \<Rightarrow> Inl (RkQuery message, st) | Inr x \<Rightarrow> Inr (x, st))"

fun rk_each :: "('a \<Rightarrow> ('d, 'b) rk_prog) \<Rightarrow> 'a list \<Rightarrow> ('d, 'b list) rk_prog" where
  "rk_each f [] = rk_return []"
| "rk_each f (x # xs) = rk_bind (f x) (\<lambda>y. rk_bind (rk_each f xs) (\<lambda>ys. rk_return (y # ys)))"

section \<open>Writing\<close>

text \<open>\<open>write\<close> of the tool: without \<open>execute\<close> the statement is printed.\<close>

definition rk_write :: "'d rk_env \<Rightarrow> rk_stmt \<Rightarrow> ('d, unit) rk_prog" where
  "rk_write env s st =
     (if \<not> rk_execute env then Inr ((), st)
      else case rk_run env s (rs_db st) of
        (Inl message, d) \<Rightarrow> Inl (RkQuery message, st\<lparr>rs_db := d, rs_sent := rs_sent st @ [s]\<rparr>)
      | (Inr _, d) \<Rightarrow> Inr ((), st\<lparr>rs_db := d, rs_sent := rs_sent st @ [s]\<rparr>))"

definition rk_log :: "'d rk_env \<Rightarrow> log_row \<Rightarrow> ('d, unit) rk_prog" where
  "rk_log env row st =
     (if \<not> rk_execute env then Inr ((), st)
      else case rk_log_write env row (rs_db st) of
        (Inl message, landed) \<Rightarrow> Inl (RkQuery message, if landed then st\<lparr>rs_log := rs_log st @ [row]\<rparr> else st)
      | (Inr _, _) \<Rightarrow> Inr ((), st\<lparr>rs_log := rs_log st @ [row]\<rparr>))"

definition ensure_tool_tables :: "'d rk_env \<Rightarrow> ('d, unit) rk_prog" where
  "ensure_tool_tables env = rk_bind (rk_each (\<lambda>n. rk_write env (EnsureToolTable n)) [0, 1, 2, 3]) (\<lambda>_. rk_return ())"

section \<open>Reading the log\<close>

definition read_log :: "'d rk_env \<Rightarrow> ('d, log_row list) rk_prog" where
  "read_log env = rk_bind (ask (rk_log_read env)) (\<lambda>_ st. Inr (rs_log st, st))"

definition since_last :: "string \<Rightarrow> log_row list \<Rightarrow> log_row list" where
  "since_last step rows = rev (takeWhile (\<lambda>r. lr_step r \<noteq> step) (rev rows))"

definition newest :: "(log_row \<Rightarrow> bool) \<Rightarrow> log_row list \<Rightarrow> log_row option" where
  "newest p rows = find p (rev rows)"

definition last_logged :: "'d rk_env \<Rightarrow> string \<Rightarrow> ('d, log_row option) rk_prog" where
  "last_logged env step = rk_bind (read_log env) (\<lambda>rows.
     rk_return (newest (\<lambda>r. lr_step r = step) (if step = ''rollback'' then rows else since_last ''rollback'' rows)))"

definition altered :: "'d rk_env \<Rightarrow> ('d, nat) rk_prog" where
  "altered env = rk_bind (read_log env) (\<lambda>rows.
     rk_return (length (filter (\<lambda>r. lr_step r = ''alter-assets'') (since_last ''rollback'' rows))))"

definition id_type :: "'d rk_env \<Rightarrow> string \<Rightarrow> ('d, string option) rk_prog" where
  "id_type env table = rk_bind (ask (rk_id_types env table)) (\<lambda>types. rk_return (map_of types ''asset_id''))"

end
