(* ===== verification/Rekey_Fill.thy ===== *)
theory Rekey_Fill
  imports Rekey_Db
begin

text \<open>
  The steps of the id migration before the window: the map, the new tables, the copy partition by partition and its check
  (\<open>prices-clickhouse/src/rekey.rs\<close>).
\<close>

fun join_text :: "string \<Rightarrow> string list \<Rightarrow> string" where
  "join_text sep [] = []"
| "join_text sep [x] = x"
| "join_text sep (x # y # xs) = x @ sep @ join_text sep (y # xs)"

section \<open>The map\<close>

definition map_table :: string where
  "map_table = ''asset_id_map_0139''"

definition map_build :: string where
  "map_build = map_table @ ''__build''"

text \<open>The relation of the map's rows, read instead of a table when nothing is written.\<close>

definition map_select :: string where
  "map_select = ''(map select)''"

definition months_table :: string where
  "months_table = ''rekey_0139_reingest_months''"

definition refuse_if_map_final :: "'d rk_env \<Rightarrow> ('d, unit) rk_prog" where
  "refuse_if_map_final env =
     rk_bind (ask (rk_id_types env ''assets'')) (\<lambda>types.
     if \<exists>(c, ty) \<in> set types. ty = ''UInt64'' then refuse MapIsFinal
     else rk_bind (altered env) (\<lambda>n. if n > 0 then refuse MapIsFinal else rk_return ()))"

definition map_gate_names :: "string list" where
  "map_gate_names = [''a mapped new_id is 0 or the blank identity's id'', ''two identities share a new_id'', ''an old_id has more than one copyable row'']"

definition map_gates :: "'d rk_env \<Rightarrow> string \<Rightarrow> ('d, unit) rk_prog" where
  "map_gates env table =
     rk_bind (rk_each (\<lambda>i. rk_bind (ask (rk_map_violations env table i)) (\<lambda>n. rk_return (if n \<noteq> 0 then [(map_gate_names ! i, n)] else []))) [0, 1, 2])
       (\<lambda>bad. if concat bad = [] then rk_return () else rk_fail (RkGate (MapGate (concat bad))))"

definition map_step :: "'d rk_env \<Rightarrow> ('d, string) rk_prog" where
  "map_step env =
     rk_bind (refuse_if_map_final env) (\<lambda>_.
     if \<not> rk_execute env then
       rk_bind (ensure_tool_tables env) (\<lambda>_. rk_bind (rk_write env (InsertMap map_build)) (\<lambda>_. ask (rk_status_summary env map_select)))
     else
       rk_bind (ensure_tool_tables env) (\<lambda>_.
       rk_bind (rk_write env (DropTable map_build)) (\<lambda>_.
       rk_bind (rk_write env (CreateTableAs map_build map_table)) (\<lambda>_.
       rk_bind (rk_write env (InsertMap map_build)) (\<lambda>_.
       rk_bind (map_gates env map_build) (\<lambda>_.
       rk_bind (rk_write env (ExchangeTables map_table map_build)) (\<lambda>_.
       rk_bind (rk_write env (DropTable map_build)) (\<lambda>_.
       rk_bind (ask (rk_status_summary env map_table)) (\<lambda>summary.
       rk_bind (rk_log env ((log_row_of ''map'' ''ok'')\<lparr>lr_detail := summary\<rparr>)) (\<lambda>_.
       rk_return summary))))))))))"

section \<open>The new tables\<close>

definition parity_of :: "'d rk_env \<Rightarrow> string \<Rightarrow> ('d, string list) rk_prog" where
  "parity_of env t =
     rk_bind (ask (rk_stored_columns env t)) (\<lambda>live.
     rk_bind (ask (rk_stored_columns env (t @ ''__new''))) (\<lambda>new.
     rk_return (case parity t live new of Inl e \<Rightarrow> [e] | Inr _ \<Rightarrow> [])))"

definition create_step :: "'d rk_env \<Rightarrow> ('d, unit) rk_prog" where
  "create_step env =
     rk_bind (rk_each (\<lambda>stmt. rk_write env (CreateText stmt)) (create_sql (rk_init_sql env) (rk_db env))) (\<lambda>_.
     if \<not> rk_execute env then rk_return ()
     else rk_bind (rk_each (parity_of env) copied_tables) (\<lambda>bad.
       if concat bad \<noteq> [] then rk_fail (RkGate (CreateGate (concat bad)))
       else rk_bind (ensure_tool_tables env) (\<lambda>_. rk_log env (log_row_of ''create'' ''ok''))))"

section \<open>The copy\<close>

definition refuse_ids :: "'d rk_env \<Rightarrow> table_fill \<Rightarrow> ('d, unit) rk_prog" where
  "refuse_ids env f =
     rk_bind (ask (rk_id_types env (fi_source f))) (\<lambda>src.
     if src = [] then refuse (NoIdColumn (fi_source f))
     else if \<exists>(c, t) \<in> set src. t \<noteq> ''UInt32'' then refuse (AlreadyNewIds (fi_source f))
     else rk_bind (ask (rk_id_types env (fi_target f))) (\<lambda>tgt.
       if length tgt \<noteq> length src \<or> (\<exists>(c, t) \<in> set tgt. t \<noteq> ''UInt64'') then refuse (TargetNotNew (fi_target f))
       else rk_return ()))"

definition refuse_fill :: "'d rk_env \<Rightarrow> table_fill \<Rightarrow> ('d, unit) rk_prog" where
  "refuse_fill env f =
     rk_bind (refuse_ids env f) (\<lambda>_.
     rk_bind (ask (rk_exists env map_table)) (\<lambda>there.
     if \<not> there then refuse NoMap
     else rk_bind (ask (rk_count env map_table)) (\<lambda>n.
     if n = 0 then refuse NoMap
     else rk_bind (ask (rk_query_log env)) (\<lambda>logged.
     if \<not> logged then refuse NoQueryLog else map_gates env map_table))))"

text \<open>The pieces of a sorting key between \<open>", "\<close>.\<close>

function split_key :: "string \<Rightarrow> string list" where
  "split_key s = (case split_first '', '' s of None \<Rightarrow> [s] | Some (a, b) \<Rightarrow> a # split_key b)"
  by pat_completeness auto
termination
  by (relation "measure length") (auto dest: split_first_length)

declare split_key.simps [simp del]

definition layout_of :: "'d rk_env \<Rightarrow> table_fill \<Rightarrow> ('d, layout) rk_prog" where
  "layout_of env f =
     rk_bind (ask (rk_keys env (fi_source f))) (\<lambda>(src_pk, _).
     rk_bind (ask (rk_keys env (fi_target f))) (\<lambda>(pk, sk).
     if src_pk \<noteq> pk then refuse (PartitionsDiffer src_pk pk)
     else rk_bind (ask (rk_stored_columns env (fi_target f))) (\<lambda>target_cols.
     rk_bind (ask (rk_stored_columns env (fi_source f))) (\<lambda>source_cols.
     rk_return \<lparr>ly_partition_key = pk, ly_key = split_key sk, ly_source_cols = map fst source_cols, ly_target_cols = map fst target_cols,
       ly_ids = filter (\<lambda>c. c \<in> fst ` set target_cols) [''asset_id'', ''quote_asset_id'']\<rparr>))))"

definition last_fill :: "'d rk_env \<Rightarrow> table_fill \<Rightarrow> string \<Rightarrow> ('d, log_row option) rk_prog" where
  "last_fill env f pid = rk_bind (read_log env) (\<lambda>rows.
     rk_return (newest (\<lambda>r. lr_step r = ''fill'' \<and> lr_source r = fi_source f \<and> lr_target r = fi_target f \<and> lr_partition r = pid) rows))"

definition fill_attempts :: "'d rk_env \<Rightarrow> table_fill \<Rightarrow> string \<Rightarrow> ('d, nat) rk_prog" where
  "fill_attempts env f pid = rk_bind (read_log env) (\<lambda>rows.
     rk_return (length (filter (\<lambda>r. lr_step r = ''fill'' \<and> lr_target r = fi_target f \<and> lr_partition r = pid) rows)))"

definition partition_where :: "string \<Rightarrow> string \<Rightarrow> string" where
  "partition_where partition_key part = (if partition_key = [] then ''1'' else partition_key @ '' = '' @ part)"

definition probe :: "'d rk_env \<Rightarrow> table_fill \<Rightarrow> layout \<Rightarrow> string \<Rightarrow> ('d, string \<times> u64 \<times> u64) rk_prog" where
  "probe env f l flt = rk_bind (ask (rk_probe env f l flt)) (\<lambda>(rows, hash, expected, keys).
     rk_return (show_nat (unat rows) @ '':'' @ show_nat (unat hash), expected, keys))"

text \<open>Whether the last fill of a partition still stands: verified, the source unchanged, the keys of the target intact.\<close>

definition still_filled :: "'d rk_env \<Rightarrow> table_fill \<Rightarrow> layout \<Rightarrow> string \<Rightarrow> string \<Rightarrow> log_row option \<Rightarrow> ('d, bool) rk_prog" where
  "still_filled env f l flt fingerprint prev =
     (case prev of
        None \<Rightarrow> rk_return False
      | Some r \<Rightarrow>
          if lr_status r = ''verified'' \<and> lr_fingerprint r = fingerprint
          then rk_bind (ask (rk_target_keys env f l flt)) (\<lambda>keys. rk_return (keys = lr_expected_keys r))
          else rk_return False)"

record fill_report =
  fr_copied :: nat
  fr_skipped :: nat

definition show_written :: "u64 option \<Rightarrow> string" where
  "show_written w = (case w of None \<Rightarrow> ''None'' | Some n \<Rightarrow> ''Some('' @ show_nat (unat n) @ '')'')"

definition fill_problem :: "table_fill \<Rightarrow> string \<Rightarrow> u64 option \<Rightarrow> u64 \<Rightarrow> u64 \<Rightarrow> u64 \<Rightarrow> string" where
  "fill_problem f pid written expected keys expected_keys =
     fi_target f @ ''/'' @ pid @ '': written '' @ show_written written @ '' of '' @ show_nat (unat expected) @
     '', keys '' @ show_nat (unat keys) @ '' of '' @ show_nat (unat expected_keys)"

definition copy_partition :: "'d rk_env \<Rightarrow> table_fill \<Rightarrow> layout \<Rightarrow> string \<Rightarrow> string \<Rightarrow> string \<times> u64 \<times> u64 \<Rightarrow> ('d, string list) rk_prog" where
  "copy_partition env f l pid flt = (\<lambda>(fingerprint, expected, expected_keys).
     rk_bind (fill_attempts env f pid) (\<lambda>attempts.
     let query_id = ''rekey0139-'' @ rk_db env @ ''-'' @ fi_target f @ ''-'' @ pid @ ''-'' @ show_nat (attempts + 1)
     in rk_bind (rk_write env (DropPartition (fi_target f) pid)) (\<lambda>_.
        if \<not> rk_execute env then rk_return []
        else rk_bind (rk_write env (InsertFill f l flt query_id)) (\<lambda>_.
        rk_bind (ask (rk_written_rows env query_id)) (\<lambda>written.
        rk_bind (ask (rk_target_keys env f l flt)) (\<lambda>keys.
        let verified = (written = Some expected \<and> keys = expected_keys)
        in rk_bind (rk_log env ((log_row_of ''fill'' (if verified then ''verified'' else ''failed''))
               \<lparr>lr_source := fi_source f, lr_target := fi_target f, lr_partition := pid, lr_query_id := query_id,
                lr_written := (case written of Some w \<Rightarrow> w | None \<Rightarrow> 0), lr_expected := expected, lr_expected_keys := expected_keys,
                lr_target_keys := keys, lr_fingerprint := fingerprint,
                lr_detail := (if written = None then ''no QueryFinish row in system.query_log'' else [])\<rparr>)) (\<lambda>_.
           rk_return (if verified then [] else [fill_problem f pid written expected keys expected_keys]))))))))"

fun fill_partitions :: "'d rk_env \<Rightarrow> table_fill \<Rightarrow> layout \<Rightarrow> (string \<times> string) list \<Rightarrow> fill_report \<times> string list \<Rightarrow> ('d, fill_report \<times> string list) rk_prog" where
  "fill_partitions env f l [] acc = rk_return acc"
| "fill_partitions env f l ((part, pid) # parts) (report, failed) =
     (if (case fi_partition f of Some p \<Rightarrow> p \<noteq> part \<and> p \<noteq> pid | None \<Rightarrow> False) then fill_partitions env f l parts (report, failed)
      else
        let flt = partition_where (ly_partition_key l) part
        in rk_bind (probe env f l flt) (\<lambda>probed.
           rk_bind (last_fill env f pid) (\<lambda>prev.
           rk_bind (still_filled env f l flt (fst probed) prev) (\<lambda>stands.
           if stands then fill_partitions env f l parts (report\<lparr>fr_skipped := Suc (fr_skipped report)\<rparr>, failed)
           else rk_bind (copy_partition env f l pid flt probed) (\<lambda>bad.
             fill_partitions env f l parts (report\<lparr>fr_copied := Suc (fr_copied report)\<rparr>, failed @ bad))))))"

definition fill_step :: "'d rk_env \<Rightarrow> table_fill \<Rightarrow> ('d, fill_report) rk_prog" where
  "fill_step env f =
     rk_bind (refuse_fill env f) (\<lambda>_.
     rk_bind (ensure_tool_tables env) (\<lambda>_.
     rk_bind (layout_of env f) (\<lambda>l.
     rk_bind (ask (rk_partitions env (fi_source f))) (\<lambda>parts.
     rk_bind (fill_partitions env f l parts (\<lparr>fr_copied = 0, fr_skipped = 0\<rparr>, [])) (\<lambda>(report, failed).
     if failed = [] then rk_return report else rk_fail (RkGate (FillGate failed)))))))"

section \<open>The check\<close>

text \<open>The problem of one partition, with the written and expected rows of its last fill.\<close>

definition check_partition :: "'d rk_env \<Rightarrow> table_fill \<Rightarrow> layout \<Rightarrow> string \<times> string \<Rightarrow> ('d, string list \<times> u64 \<times> u64) rk_prog" where
  "check_partition env f l = (\<lambda>(part, pid).
     let flt = partition_where (ly_partition_key l) part; place = fi_target f @ ''/'' @ pid
     in rk_bind (last_fill env f pid) (\<lambda>prev.
        case prev of
          None \<Rightarrow> rk_return ([place @ '': not filled''], 0, 0)
        | Some r \<Rightarrow>
            rk_bind (probe env f l flt) (\<lambda>(fingerprint, _, _).
            rk_bind (ask (rk_target_keys env f l flt)) (\<lambda>target_keys.
            rk_return
              (if lr_status r \<noteq> ''verified'' then [place @ '': last fill '' @ lr_status r]
               else if lr_fingerprint r \<noteq> fingerprint then [place @ '': source changed since fill'']
               else if target_keys \<noteq> lr_expected_keys r then [place @ '': target keys '' @ show_nat (unat target_keys) @ '' of '' @ show_nat (unat (lr_expected_keys r))]
               else [], lr_written r, lr_expected r)))))"

definition class_count :: "(string \<times> u64) list \<Rightarrow> string \<Rightarrow> u64" where
  "class_count classes c = (case map_of classes c of Some n \<Rightarrow> n | None \<Rightarrow> 0)"

definition check_line :: "table_fill \<Rightarrow> u64 \<Rightarrow> u64 \<Rightarrow> (string \<times> u64) list \<Rightarrow> string" where
  "check_line f written expected classes =
     fi_source f @ '' -> '' @ fi_target f @ '': written '' @ show_nat (unat written) @ '' of '' @ show_nat (unat expected) @
     ''; excluded colliding '' @ show_nat (unat (class_count classes ''colliding'')) @ '', orphan '' @ show_nat (unat (class_count classes ''orphan''))"

definition check_fill :: "'d rk_env \<Rightarrow> table_fill \<Rightarrow> ('d, string list \<times> string) rk_prog" where
  "check_fill env f =
     rk_bind (refuse_ids env f) (\<lambda>_.
     rk_bind (layout_of env f) (\<lambda>l.
     rk_bind (ask (rk_partitions env (fi_source f))) (\<lambda>parts.
     rk_bind (rk_each (check_partition env f l) parts) (\<lambda>checked.
     let written = sum_list (map (\<lambda>(_, w, _). w) checked); expected = sum_list (map (\<lambda>(_, _, e). e) checked)
     in rk_bind (ask (rk_classes env (fi_source f) (ly_ids l))) (\<lambda>classes.
        let problems = concat (map fst checked) @
              (if written \<noteq> expected then [fi_target f @ '': written '' @ show_nat (unat written) @ '' != expected '' @ show_nat (unat expected)] else []) @
              (if class_count classes ''unmapped'' > 0 then [fi_source f @ '': '' @ show_nat (unat (class_count classes ''unmapped'')) @ '' rows under ids the map lacks (re-run map)''] else [])
        in rk_bind (if fi_source f = ''price_ohlcv_1m''
             then rk_bind (rk_write env (TruncateTable months_table)) (\<lambda>_. rk_write env (InsertMonths (fi_source f) (ly_ids l)))
             else rk_return ()) (\<lambda>_.
           rk_return (problems, check_line f written expected classes)))))))"

definition check_step :: "'d rk_env \<Rightarrow> table_fill list \<Rightarrow> ('d, string list) rk_prog" where
  "check_step env fills =
     rk_bind (ensure_tool_tables env) (\<lambda>_.
     rk_bind (rk_each (check_fill env) fills) (\<lambda>checked.
     let problems = concat (map fst checked); ls = map snd checked
     in rk_bind (rk_log env ((log_row_of ''check'' (if problems = [] then ''ok'' else ''failed''))\<lparr>lr_detail := join_text ''; '' ls\<rparr>)) (\<lambda>_.
        if problems = [] then rk_return ls else rk_fail (RkGate (CheckGate problems)))))"

section \<open>Preflight\<close>

text \<open>The free-space gate, in 128 bits.\<close>

definition disk_ok :: "u64 \<Rightarrow> u64 \<Rightarrow> bool" where
  "disk_ok free bytes \<longleftrightarrow> (ucast bytes :: 128 word) * 6 \<le> ucast free * 5"

definition supported_version :: "string \<Rightarrow> bool" where
  "supported_version v \<longleftrightarrow> strip_text ''26.3.'' v \<noteq> None"

lemma unat_widened: "unat (ucast (x :: u64) * w :: 128 word) = unat x * unat w" if "unat w < 8"
proof -
  have x: "unat x < 2 ^ 64" using unsigned_less [of x] by simp
  then have "unat x * unat w < 2 ^ 64 * 8" using that by (intro mult_strict_mono) auto
  then have "unat x * unat w < 2 ^ 128" by simp
  moreover have "unat (ucast x :: 128 word) = unat x" using x by (simp add: unsigned_ucast_eq take_bit_nat_eq_self_iff)
  ultimately show ?thesis by (simp add: unat_word_ariths)
qed

lemma disk_ok_exact: "disk_ok free bytes \<longleftrightarrow> 6 * unat bytes \<le> 5 * unat free"
  using unat_widened [of 5 free] unat_widened [of 6 bytes] by (simp add: disk_ok_def word_le_nat_alt mult.commute)

end
