(* ===== verification/Rekey_Swap.thy ===== *)
theory Rekey_Swap
  imports Rekey_Fill
begin

text \<open>
  The window steps of the id migration (\<open>prices-clickhouse/src/rekey/swap.rs\<close>): capture, the gates, the alteration of
  \<open>assets\<close>, the swap of the copied tables, the views made anew, and the rollback.
\<close>

definition prod_database :: string where
  "prod_database = ''prices''"

definition pre_name :: "string \<Rightarrow> string" where
  "pre_name t = t @ ''__pre0139''"

definition new_name :: "string \<Rightarrow> string" where
  "new_name t = t @ ''__new''"

definition ddl_table :: string where
  "ddl_table = ''rekey_0139_ddl''"

section \<open>Capture\<close>

definition capture_step :: "'d rk_env \<Rightarrow> string option \<Rightarrow> ('d, string list) rk_prog" where
  "capture_step env rewrite_from =
     rk_bind (last_logged env ''swap'') (\<lambda>swapped.
     if swapped \<noteq> None then refuse SwapHasRun
     else
       let views_db = (case rewrite_from of Some d \<Rightarrow> d | None \<Rightarrow> rk_db env)
       in if views_db \<noteq> rk_db env \<and> rk_db env = prod_database then refuse ScratchOnly
          else
            rk_bind (ensure_tool_tables env) (\<lambda>_.
            rk_bind (ask (rk_views env views_db)) (\<lambda>views.
            let names = map (\<lambda>(kind, name, q). name) views @ (''assets'' # copied_tables)
            in rk_bind (rk_write env (TruncateTable ddl_table)) (\<lambda>_.
               rk_bind (rk_each (\<lambda>(kind, name, q).
                   let q = rewrite_db q views_db (rk_db env) (Some names);
                       q = (if views_db \<noteq> rk_db env then own_definer q else q)
                   in rk_bind (rk_write env (InsertDdl kind name q)) (\<lambda>_. rk_return (kind @ '' '' @ name))) views) (\<lambda>ls.
               rk_bind (rk_write env InsertTablesDdl) (\<lambda>_.
               let ls = ls @ [show_nat (length copied_tables + 1) @ '' id tables'']
               in rk_bind (rk_log env ((log_row_of ''capture'' ''ok'')\<lparr>lr_detail := join_text '', '' ls\<rparr>)) (\<lambda>_.
                  rk_return ls)))))))"

section \<open>Gates\<close>

definition window_refusals :: "(string \<times> string) list \<Rightarrow> u64 \<Rightarrow> u64 \<Rightarrow> string list" where
  "window_refusals refreshes inserts async_inserts =
     map (\<lambda>(v, s). v @ '' is '' @ s @ '', not Disabled (SYSTEM STOP VIEW)'') (filter (\<lambda>(v, s). s \<noteq> ''Disabled'') refreshes) @
     (if inserts > 0 then [show_nat (unat inserts) @ '' INSERT queries into the database are running''] else []) @
     (if async_inserts > 0 then [show_nat (unat async_inserts) @ '' async inserts are queued''] else [])"

definition window_gates :: "'d rk_env \<Rightarrow> ('d, unit) rk_prog" where
  "window_gates env =
     rk_bind (ask (rk_captured env ''table'')) (\<lambda>tables.
     if tables = [] then refuse NothingCaptured
     else rk_bind (ask (rk_refreshes env)) (\<lambda>refreshes.
       rk_bind (ask (rk_inserts env)) (\<lambda>inserts.
       rk_bind (ask (rk_async_inserts env)) (\<lambda>async_inserts.
       let why = window_refusals refreshes inserts async_inserts
       in if why = [] then rk_return () else refuse (WindowBusy why)))))"

definition covers :: "string \<Rightarrow> string \<Rightarrow> bool" where
  "covers detail t = has_text detail (t @ '' -> '' @ t @ ''__new:'')"

definition check_green :: "'d rk_env \<Rightarrow> ('d, unit) rk_prog" where
  "check_green env =
     rk_bind (read_log env) (\<lambda>rows.
     case newest (\<lambda>r. lr_step r = ''check'') (since_last ''fill'' rows) of
       None \<Rightarrow> refuse (CheckNotGreen ''no check after the last fill'')
     | Some r \<Rightarrow>
         if lr_status r \<noteq> ''ok'' then refuse (CheckNotGreen (''last check '' @ lr_status r))
         else (case find (\<lambda>t. \<not> covers (lr_detail r) t) copied_tables of
             Some t \<Rightarrow> refuse (CheckNotGreen (''last check did not cover '' @ t))
           | None \<Rightarrow> rk_return ()))"

section \<open>The alteration of assets\<close>

definition assets_pre :: string where
  "assets_pre = pre_name ''assets''"

definition assets_new :: string where
  "assets_new = new_name ''assets''"

definition wait_mutations :: "'d rk_env \<Rightarrow> string \<Rightarrow> ('d, unit) rk_prog" where
  "wait_mutations env table =
     (if \<not> rk_execute env then rk_return ()
      else rk_bind (ask (rk_open_mutations env table)) (\<lambda>(still, why).
        if still = 0 then rk_return () else rk_fail (RkGate (MutationsOpen still why))))"

definition snapshot_assets :: "'d rk_env \<Rightarrow> ('d, string list) rk_prog" where
  "snapshot_assets env =
     rk_bind (rk_write env (DropTable assets_pre)) (\<lambda>_.
     rk_bind (rk_write env (CreateTableAs assets_pre ''assets'')) (\<lambda>_.
     rk_bind (rk_write env (StopMerges assets_pre)) (\<lambda>_.
     rk_bind (ask (rk_partitions env ''assets'')) (\<lambda>parts.
     rk_bind (rk_each (\<lambda>(_, pid). rk_write env (AttachPartition assets_pre pid ''assets'')) parts) (\<lambda>_.
     if \<not> rk_execute env then rk_return []
     else rk_bind (ask (rk_count env ''assets'')) (\<lambda>a.
       rk_bind (ask (rk_count env assets_pre)) (\<lambda>p.
       if a \<noteq> p then rk_fail (RkGate (SnapshotDiffers p a))
       else rk_return [''snapshot '' @ assets_pre @ '': '' @ show_nat (unat p) @ '' rows''])))))))"

definition alter_assets :: "'d rk_env \<Rightarrow> ('d, string list) rk_prog" where
  "alter_assets env =
     rk_bind (window_gates env) (\<lambda>_.
     rk_bind (check_green env) (\<lambda>_.
     rk_bind (id_type env ''assets'') (\<lambda>ty.
     rk_bind
       (if ty = Some ''UInt32'' then
          rk_bind (snapshot_assets env) (\<lambda>ls.
          rk_bind (rk_write env (StartMerges ''assets'')) (\<lambda>_.
          rk_bind (rk_write env (ModifyIdColumn ''assets'')) (\<lambda>_.
          rk_bind (wait_mutations env ''assets'') (\<lambda>_. rk_return ls))))
        else rk_bind (rk_write env (StartMerges ''assets'')) (\<lambda>_. rk_return [''asset_id is already UInt64: resuming''])) (\<lambda>ls.
     rk_bind (rk_write env (MaterializeIdColumn ''assets'')) (\<lambda>_.
     rk_bind (wait_mutations env ''assets'') (\<lambda>_.
     rk_bind (rk_write env (AddDerivedCheck ''assets'')) (\<lambda>_.
     if \<not> rk_execute env then rk_return ls
     else rk_bind (ask (rk_underived env)) (\<lambda>(rows, wrong).
       rk_bind (ask (rk_identities env)) (\<lambda>(ids, uniq).
       if wrong > 0 \<or> ids \<noteq> uniq then rk_fail (RkGate (AssetsGate wrong rows ids uniq))
       else
         let ls = ls @ [''assets: '' @ show_nat (unat rows) @ '' rows derived, '' @ show_nat (unat ids) @ '' identities, '' @ show_nat (unat uniq) @ '' ids'']
         in rk_bind (rk_log env ((log_row_of ''alter-assets'' ''ok'')\<lparr>lr_detail := join_text ''; '' ls\<rparr>)) (\<lambda>_. rk_return ls))))))))))"

section \<open>The swap\<close>

datatype swap_kind = Exchanged | Renamed | AlreadySwapped

definition swap_action_of :: "'d rk_env \<Rightarrow> string \<Rightarrow> ('d, swap_kind) rk_prog" where
  "swap_action_of env t =
     rk_bind (id_type env t) (\<lambda>live.
     rk_bind (id_type env (new_name t)) (\<lambda>staged.
     if live = Some ''UInt32'' \<and> staged = Some ''UInt64'' then rk_return Exchanged
     else if live = Some ''UInt64'' \<and> staged = Some ''UInt32'' then rk_return Renamed
     else if live = Some ''UInt64'' \<and> staged = None then
       rk_bind (ask (rk_exists env (pre_name t))) (\<lambda>there.
       if there then rk_return AlreadySwapped else refuse (CannotSwap t live staged))
     else refuse (CannotSwap t live staged)))"

definition swap_table :: "'d rk_env \<Rightarrow> u32 \<times> u32 \<Rightarrow> string \<Rightarrow> ('d, string) rk_prog" where
  "swap_table env gap t =
     rk_bind (swap_action_of env t) (\<lambda>action.
     if action = AlreadySwapped then rk_return (t @ '': already swapped'')
     else
       let status = (if action = Exchanged then ''exchanged'' else ''renamed'')
       in rk_bind (if action = Exchanged then rk_write env (ExchangeTables t (new_name t)) else rk_return ()) (\<lambda>_.
          rk_bind (rk_write env (RenameTable (new_name t) (pre_name t))) (\<lambda>_.
          rk_bind (rk_log env ((log_row_of ''swap'' status)\<lparr>lr_target := t, lr_from := fst gap, lr_to := snd gap\<rparr>)) (\<lambda>_.
          rk_return (t @ '': '' @ status)))))"

definition swap_range :: "'d rk_env \<Rightarrow> log_row option \<Rightarrow> ('d, u32 \<times> u32) rk_prog" where
  "swap_range env prev =
     (case prev of
        Some r \<Rightarrow> rk_return (lr_from r, lr_to r)
      | None \<Rightarrow>
          rk_bind (check_green env) (\<lambda>_.
          rk_bind (id_type env ''assets'') (\<lambda>ty.
          rk_bind (if ty \<noteq> Some ''UInt64'' then rk_return 0 else altered env) (\<lambda>n.
          if n = 0 then refuse AlterFirst
          else rk_bind (ask (rk_live_bounds env)) (\<lambda>gap.
            rk_bind (rk_log env ((log_row_of ''swap'' ''started'')
                \<lparr>lr_from := fst gap, lr_to := snd gap, lr_detail := ''range = (last_live_1m_ts, swap_at)''\<rparr>)) (\<lambda>_.
            rk_return gap))))))"

definition swap_step :: "'d rk_env \<Rightarrow> bool \<Rightarrow> ('d, string list) rk_prog" where
  "swap_step env check_only =
     rk_bind (last_logged env ''swap'') (\<lambda>prev.
     if \<not> check_only \<and> (case prev of Some r \<Rightarrow> lr_status r = ''ok'' | None \<Rightarrow> False) then refuse SwapDone
     else rk_bind (window_gates env) (\<lambda>_.
       if check_only then
         rk_bind (rk_try (check_green env)) (\<lambda>c.
         rk_return [''window: every view Disabled, no insert running or queued'', (case c of Inr _ \<Rightarrow> ''check: green'' | Inl e \<Rightarrow> ''check: not green'')])
       else
         rk_bind (swap_range env prev) (\<lambda>gap.
         rk_bind (rk_each (swap_table env gap) copied_tables) (\<lambda>ls.
         rk_bind (rk_log env ((log_row_of ''swap'' ''ok'')
             \<lparr>lr_from := fst gap, lr_to := snd gap, lr_detail := ''range = (last_live_1m_ts, swap_at)''\<rparr>)) (\<lambda>_.
         rk_return (ls @ [''last_live_1m_ts '' @ show_nat (unat (fst gap)) @ '', swap_at '' @ show_nat (unat (snd gap)) @ '' (unix s)'']))))))"

section \<open>The views made anew\<close>

definition type_gate :: "'d rk_env \<Rightarrow> ('d, unit) rk_prog" where
  "type_gate env = rk_bind (ask (rk_uint32_ids env)) (\<lambda>bad. if bad = [] then rk_return () else rk_fail (RkGate (TypeGate bad)))"

datatype mv_source = ProdText | Generator

text \<open>The views of the rollups, with their reconciling twins.\<close>

definition tier_mvs :: "(string \<times> string) list" where
  "tier_mvs = [(''mv_ohlcv_1m_to_15m'', ''mv_reconcile_1m_to_15m''), (''mv_ohlcv_15m_to_1h'', ''mv_reconcile_15m_to_1h''),
     (''mv_ohlcv_1h_to_4h'', ''mv_reconcile_1h_to_4h''), (''mv_ohlcv_4h_to_1d'', ''mv_reconcile_4h_to_1d''),
     (''mv_ohlcv_1d_to_1w'', ''mv_reconcile_1d_to_1w''), (''mv_ohlcv_1d_to_1M'', ''mv_reconcile_1d_to_1M'')]"

fun position :: "'a \<Rightarrow> 'a list \<Rightarrow> nat" where
  "position x [] = 0"
| "position x (y # ys) = (if x = y then 0 else Suc (position x ys))"

definition mv_rank :: "string \<Rightarrow> nat \<times> string" where
  "mv_rank name = (position name (map fst tier_mvs @ map snd tier_mvs @ [''mv_current_prices'']), name)"

text \<open>A view the text lacks comes last.\<close>

definition view_rank :: "string \<Rightarrow> string \<Rightarrow> nat \<times> nat \<times> string" where
  "view_rank views_sql name =
     (case split_first (''VIEW prices.'' @ name @ '' AS'') views_sql of Some (a, b) \<Rightarrow> (0, length a, name) | None \<Rightarrow> (1, 0, name))"

definition captured_mvs :: "'d rk_env \<Rightarrow> ('d, (string \<times> string) list) rk_prog" where
  "captured_mvs env = rk_bind (ask (rk_captured env ''mv'')) (\<lambda>mvs. rk_return (sort_key (\<lambda>(n, q). mv_rank n) mvs))"

definition captured_views :: "'d rk_env \<Rightarrow> ('d, (string \<times> string) list) rk_prog" where
  "captured_views env = rk_bind (ask (rk_captured env ''view'')) (\<lambda>views. rk_return (sort_key (\<lambda>(n, q). view_rank (rk_views_sql env) n) views))"

definition or_replace :: "string \<Rightarrow> string" where
  "or_replace q = replace_first ''CREATE VIEW'' ''CREATE OR REPLACE VIEW'' q"

definition generated :: "'d rk_env \<Rightarrow> string \<Rightarrow> string list" where
  "generated env sql = map (\<lambda>s. rewrite_db s prod_database (rk_db env) None) (filter (\<lambda>s. strip_text ''CREATE'' s \<noteq> None) (split_statements sql))"

definition definitions :: "'d rk_env \<Rightarrow> mv_source \<Rightarrow> ('d, string list \<times> string list) rk_prog" where
  "definitions env source = (case source of
     Generator \<Rightarrow> rk_return (generated env (rk_rollups_sql env) @ generated env (rk_current_sql env), generated env (rk_views_sql env))
   | ProdText \<Rightarrow> rk_bind (captured_mvs env) (\<lambda>mvs. rk_bind (captured_views env) (\<lambda>views.
       rk_return (map (\<lambda>(n, q). with_uint64_ids q) mvs, map (\<lambda>(n, q). with_uint64_ids (or_replace q)) views))))"

definition created_name :: "string \<Rightarrow> string option" where
  "created_name stmt = Option.bind (created_object stmt) (\<lambda>obj. map_option snd (split_first ''.'' obj))"

definition replace_mvs :: "'d rk_env \<Rightarrow> string list \<Rightarrow> string list \<Rightarrow> ('d, unit) rk_prog" where
  "replace_mvs env mvs views =
     (case find (\<lambda>s. \<not> creates_in s (rk_db env)) (mvs @ views) of
        Some bad \<Rightarrow> refuse (OutsideDatabase (take 120 bad))
      | None \<Rightarrow>
          rk_bind (ask (rk_mvs env)) (\<lambda>there.
          rk_bind (ask (rk_captured env ''mv'')) (\<lambda>captured.
          rk_bind (rk_each (\<lambda>mv. rk_write env (DropView mv)) (remdups_adj (sort (there @ map fst captured @ List.map_filter created_name mvs)))) (\<lambda>_.
          rk_bind (rk_each (\<lambda>s. rk_write env (CreateText s)) (mvs @ views)) (\<lambda>_. rk_return ())))))"

definition recreate_mvs :: "'d rk_env \<Rightarrow> mv_source \<Rightarrow> ('d, string list) rk_prog" where
  "recreate_mvs env source =
     rk_bind (last_logged env ''swap'') (\<lambda>prev.
     if \<not> (case prev of Some r \<Rightarrow> lr_status r = ''ok'' | None \<Rightarrow> False) then refuse SwapNotRun
     else rk_bind (definitions env source) (\<lambda>(mvs, views).
       rk_bind (replace_mvs env mvs views) (\<lambda>_.
       rk_bind (if rk_execute env then type_gate env else rk_return ()) (\<lambda>_.
       let detail = (case source of ProdText \<Rightarrow> ''ProdText'' | Generator \<Rightarrow> ''Generator'') @ '': '' @ show_nat (length mvs) @ '' MVs, '' @
             show_nat (length views) @ '' views''
       in rk_bind (rk_log env ((log_row_of ''recreate-mvs'' ''ok'')\<lparr>lr_detail := detail\<rparr>)) (\<lambda>_.
          rk_return [detail, ''type gate: no UInt32 id outside the old id space''])))))"

section \<open>Rollback\<close>

definition rows_after :: "'d rk_env \<Rightarrow> string \<Rightarrow> u32 \<Rightarrow> ('d, string list) rk_prog" where
  "rows_after env t instant =
     rk_bind (id_type env t) (\<lambda>ty.
     if ty = Some ''UInt64'' then
       rk_bind (ask (rk_rows_after env t instant)) (\<lambda>n. rk_return (if n > 0 then [t @ '': '' @ show_nat (unat n) @ '' rows''] else []))
     else rk_return [])"

definition post_swap_rows :: "'d rk_env \<Rightarrow> u32 \<Rightarrow> u32 \<Rightarrow> ('d, string list) rk_prog" where
  "post_swap_rows env last_live swap_at =
     rk_bind (rows_after env ''price_ohlcv_1m'' last_live) (\<lambda>candles.
     rk_bind (rows_after env ''oracle_prices'' swap_at) (\<lambda>oracle_rows.
     rk_bind (ask (rk_exists env assets_pre)) (\<lambda>there.
     if there then rk_bind (ask (rk_new_identities env)) (\<lambda>n.
       rk_return (candles @ oracle_rows @ (if n > 0 then [''assets: '' @ show_nat (unat n) @ '' new identities''] else [])))
     else rk_return (candles @ oracle_rows))))"

definition settle_views :: "'d rk_env \<Rightarrow> ('d, unit) rk_prog" where
  "settle_views env =
     (if \<not> rk_execute env then rk_return ()
      else rk_bind (ask (rk_running_views env)) (\<lambda>n. if n = 0 then rk_return () else rk_fail (RkGate (ViewsRunning n))))"

text \<open>Whether a table and its old copy stand the way a rollback exchanges them.\<close>

definition swapped_out :: "'d rk_env \<Rightarrow> string \<Rightarrow> ('d, bool) rk_prog" where
  "swapped_out env t =
     rk_bind (id_type env t) (\<lambda>ty. if ty = Some ''UInt64'' then ask (rk_exists env (pre_name t)) else rk_return False)"

definition restore_table :: "'d rk_env \<Rightarrow> string \<Rightarrow> ('d, string list) rk_prog" where
  "restore_table env t =
     rk_bind (swapped_out env t) (\<lambda>out.
     if out then
       rk_bind (rk_write env (ExchangeTables t (pre_name t))) (\<lambda>_.
       rk_bind (rk_write env (RenameTable (pre_name t) (new_name t))) (\<lambda>_.
       rk_return [t @ '': restored'']))
     else rk_return [])"

definition restore_assets :: "'d rk_env \<Rightarrow> ('d, string list) rk_prog" where
  "restore_assets env =
     rk_bind (swapped_out env ''assets'') (\<lambda>out.
     if out then
       rk_bind (rk_write env (DropTable assets_new)) (\<lambda>_.
       rk_bind (rk_write env (ExchangeTables ''assets'' assets_pre)) (\<lambda>_.
       rk_bind (rk_write env (RenameTable assets_pre assets_new)) (\<lambda>_.
       rk_bind (rk_write env (StartMerges ''assets'')) (\<lambda>_.
       rk_return [''assets: restored'']))))
     else rk_return [])"

definition rollback_step :: "'d rk_env \<Rightarrow> bool \<Rightarrow> ('d, string list) rk_prog" where
  "rollback_step env force =
     rk_bind (last_logged env ''swap'') (\<lambda>prev.
     case prev of
       None \<Rightarrow> refuse NothingToRollBack
     | Some r \<Rightarrow>
         rk_bind (post_swap_rows env (lr_from r) (lr_to r)) (\<lambda>lost.
         if lost \<noteq> [] \<and> \<not> force then refuse (LosesRows lost)
         else
           rk_bind (rk_each (restore_table env) copied_tables) (\<lambda>restored.
           rk_bind (restore_assets env) (\<lambda>assets.
           rk_bind (captured_mvs env) (\<lambda>mvs.
           rk_bind (captured_views env) (\<lambda>views.
           rk_bind (replace_mvs env (map snd mvs) (map (\<lambda>(n, q). or_replace q) views)) (\<lambda>_.
           rk_bind (rk_each (\<lambda>(mv, q). rk_write env (StopView mv)) mvs) (\<lambda>_.
           rk_bind (settle_views env) (\<lambda>_.
           let ls = concat restored @ assets @
                 [show_nat (length mvs) @ '' MVs re-created from the capture and STOPPED; '' @ show_nat (length views) @ '' views'']
           in rk_bind (rk_log env ((log_row_of ''rollback'' ''ok'')\<lparr>lr_detail := join_text ''; '' ls\<rparr>)) (\<lambda>_. rk_return ls))))))))))"

end
