(* ===== verification/Rekey_Tables.thy ===== *)
theory Rekey_Tables
  imports Rekey_Swap
begin

text \<open>
  Which table stands under which name while the window steps run, whatever fails: the laws of ClickHouse's table
  statements, the states a copied table passes through, and what the swap and the rollback make of them.
\<close>

section \<open>Tables\<close>

text \<open>What a name stands for: the identity of a table, and the type of its \<open>asset_id\<close>, if it has one.\<close>

type_synonym 'u tables = "string \<Rightarrow> ('u \<times> string option) option"

text \<open>The names a statement other than an exchange or a rename may change; a view statement makes its own view only.\<close>

definition touches :: "rk_stmt \<Rightarrow> string set" where
  "touches s = (case s of
     DropTable t \<Rightarrow> {t}
   | CreateTableAs t u \<Rightarrow> {t}
   | ModifyIdColumn t \<Rightarrow> {t}
   | DropView v \<Rightarrow> {v}
   | CreateText stmt \<Rightarrow> (case created_name stmt of Some v \<Rightarrow> {v} | None \<Rightarrow> UNIV)
   | EnsureToolTable n \<Rightarrow> {map_table, months_table, ddl_table, ''rekey_0139_log''}
   | _ \<Rightarrow> {})"

definition moves :: "rk_stmt \<Rightarrow> 'u tables \<Rightarrow> 'u tables \<Rightarrow> bool" where
  "moves s T T' = (case s of
     ExchangeTables a b \<Rightarrow> T a \<noteq> None \<and> T b \<noteq> None \<and> T' = T(a := T b, b := T a)
   | RenameTable a b \<Rightarrow> T a \<noteq> None \<and> T b = None \<and> T' = T(a := None, b := T a)
   | _ \<Rightarrow> (\<forall>t. t \<notin> touches s \<longrightarrow> T' t = T t))"

text \<open>
  The documented behaviour: a statement that answers has its effect, one that fails has its effect or none; the system
  tables tell the truth.
\<close>

definition table_laws :: "'d rk_env \<Rightarrow> ('d \<Rightarrow> 'u tables) \<Rightarrow> bool" where
  "table_laws env tb \<longleftrightarrow>
     (\<forall>s d x d'. rk_run env s d = (x, d') \<longrightarrow> moves s (tb d) (tb d') \<or> (x \<noteq> Inr () \<and> tb d' = tb d)) \<and>
     (\<forall>t d b. rk_exists env t d = Inr b \<longrightarrow> (b \<longleftrightarrow> tb d t \<noteq> None)) \<and>
     (\<forall>t d types. rk_id_types env t d = Inr types \<longrightarrow> map_of types ''asset_id'' = Option.bind (tb d t) snd)"

text \<open>A copied table before the swap, between its two statements, and after it; and between those of a rollback.\<close>

definition staged :: "'u tables \<Rightarrow> (string \<Rightarrow> 'u) \<Rightarrow> (string \<Rightarrow> 'u) \<Rightarrow> string \<Rightarrow> bool" where
  "staged T old new t \<longleftrightarrow> T t = Some (old t, Some ''UInt32'') \<and> T (new_name t) = Some (new t, Some ''UInt64'') \<and> T (pre_name t) = None"

definition halfway :: "'u tables \<Rightarrow> (string \<Rightarrow> 'u) \<Rightarrow> (string \<Rightarrow> 'u) \<Rightarrow> string \<Rightarrow> bool" where
  "halfway T old new t \<longleftrightarrow> T t = Some (new t, Some ''UInt64'') \<and> T (new_name t) = Some (old t, Some ''UInt32'') \<and> T (pre_name t) = None"

definition swapped :: "'u tables \<Rightarrow> (string \<Rightarrow> 'u) \<Rightarrow> (string \<Rightarrow> 'u) \<Rightarrow> string \<Rightarrow> bool" where
  "swapped T old new t \<longleftrightarrow> T t = Some (new t, Some ''UInt64'') \<and> T (new_name t) = None \<and> T (pre_name t) = Some (old t, Some ''UInt32'')"

definition unwound :: "'u tables \<Rightarrow> (string \<Rightarrow> 'u) \<Rightarrow> (string \<Rightarrow> 'u) \<Rightarrow> string \<Rightarrow> bool" where
  "unwound T old new t \<longleftrightarrow> T t = Some (old t, Some ''UInt32'') \<and> T (new_name t) = None \<and> T (pre_name t) = Some (new t, Some ''UInt64'')"

definition own_names :: "string \<Rightarrow> string set" where
  "own_names t = {t, new_name t, pre_name t}"

lemma names_apart: "\<forall>t \<in> set (''assets'' # copied_tables). \<forall>u \<in> set (''assets'' # copied_tables). t \<noteq> u \<longrightarrow> own_names t \<inter> own_names u = {}"
  unfolding own_names_def copied_tables_def new_name_def pre_name_def by simp

lemma own_names_apart: "t \<noteq> new_name t" "t \<noteq> pre_name t" "new_name t \<noteq> pre_name t" "new_name t \<noteq> t" "pre_name t \<noteq> t" "pre_name t \<noteq> new_name t"
  by (auto simp: new_name_def pre_name_def)

lemma own_names_mem [simp]: "t \<in> own_names t" "new_name t \<in> own_names t" "pre_name t \<in> own_names t"
  by (simp_all add: own_names_def)

lemma phase_local:
  assumes "\<forall>n \<in> own_names t. T' n = T n"
  shows "staged T' old new t = staged T old new t" "halfway T' old new t = halfway T old new t"
    "swapped T' old new t = swapped T old new t" "unwound T' old new t = unwound T old new t"
  using assms by (simp_all add: staged_def halfway_def swapped_def unwound_def own_names_def)

section \<open>Programs on the tables\<close>

definition rk_does :: "('d \<Rightarrow> 'u tables) \<Rightarrow> ('u tables \<Rightarrow> bool) \<Rightarrow> ('u tables \<Rightarrow> bool) \<Rightarrow> ('d, 'a) rk_prog \<Rightarrow> ('a \<Rightarrow> 'u tables \<Rightarrow> bool) \<Rightarrow> bool" where
  "rk_does tb I P m Q \<longleftrightarrow> valid (\<lambda>(e, st). I (tb (rs_db st))) (\<lambda>st. P (tb (rs_db st))) m (\<lambda>(x, st). Q x (tb (rs_db st)))"

lemma rk_does_Inr: "rk_does tb I P m Q \<Longrightarrow> m st = Inr (x, st') \<Longrightarrow> P (tb (rs_db st)) \<Longrightarrow> Q x (tb (rs_db st'))"
  unfolding rk_does_def by (drule validD) auto

lemma rk_does_Inl: "rk_does tb I P m Q \<Longrightarrow> m st = Inl (e, st') \<Longrightarrow> P (tb (rs_db st)) \<Longrightarrow> I (tb (rs_db st'))"
  unfolding rk_does_def by (drule validE) auto

lemma rk_does_conseq:
  "rk_does tb I P m Q \<Longrightarrow> (\<And>T. P' T \<Longrightarrow> P T) \<Longrightarrow> (\<And>x T. Q x T \<Longrightarrow> Q' x T) \<Longrightarrow> rk_does tb I P' m Q'"
  unfolding rk_does_def by (erule valid_conseq) auto

lemma rk_does_return: "(\<And>T. P T \<Longrightarrow> Q x T) \<Longrightarrow> rk_does tb I P (rk_return x) Q"
  by (simp add: rk_does_def valid_def rk_return_def)

lemma rk_does_fail: "(\<And>T. P T \<Longrightarrow> I T) \<Longrightarrow> rk_does tb I P (rk_fail e) Q" "(\<And>T. P T \<Longrightarrow> I T) \<Longrightarrow> rk_does tb I P (refuse r) Q"
  by (simp_all add: rk_does_def valid_def rk_fail_def refuse_def)

lemma rk_does_ask: "(\<And>T. P T \<Longrightarrow> I T) \<Longrightarrow> (\<And>x T. P T \<Longrightarrow> Q x T) \<Longrightarrow> rk_does tb I P (ask q) Q"
  by (auto simp: rk_does_def valid_def ask_def split: sum.split)

lemma rk_does_bind:
  assumes "rk_does tb I P m Q" and "\<And>x. rk_does tb I (Q x) (f x) R"
  shows "rk_does tb I P (rk_bind m f) R"
  using assms unfolding rk_does_def valid_def rk_bind_def rbind_def by (fastforce split: sum.splits)

lemma rk_does_if: "(b \<Longrightarrow> rk_does tb I P m Q) \<Longrightarrow> (\<not> b \<Longrightarrow> rk_does tb I P m' Q) \<Longrightarrow> rk_does tb I P (if b then m else m') Q"
  by simp

lemma rk_does_log: "(\<And>T. P T \<Longrightarrow> I T) \<Longrightarrow> (\<And>T. P T \<Longrightarrow> Q () T) \<Longrightarrow> rk_does tb I P (rk_log env row) Q"
  by (auto simp: rk_does_def valid_def rk_log_def split: sum.split prod.split)

lemma rk_does_read_log: "(\<And>T. P T \<Longrightarrow> I T) \<Longrightarrow> rk_does tb I P (read_log env) (\<lambda>_. P)"
  unfolding read_log_def
  by (rule rk_does_bind [OF rk_does_ask [where Q = "\<lambda>_. P"]]) (auto simp: rk_does_def valid_def)

lemma rk_does_each:
  assumes "\<And>x. x \<in> set xs \<Longrightarrow> rk_does tb I P (f x) (\<lambda>_. P)"
  shows "rk_does tb I P (rk_each f xs) (\<lambda>_. P)"
  using assms
proof (induction xs)
  case (Cons x xs)
  have "rk_does tb I P (rk_bind (rk_each f xs) (\<lambda>ys. rk_return (y # ys))) (\<lambda>_. P)" for y
    by (rule rk_does_bind [OF Cons.IH]) (use Cons.prems in \<open>auto intro: rk_does_return\<close>)
  then show ?case
    unfolding rk_each.simps by (intro rk_does_bind [where Q = "\<lambda>_. P", OF Cons.prems]) simp_all
qed (auto intro: rk_does_return)

text \<open>A statement moves the tables from \<open>P\<close> to \<open>Q\<close>; one that fails may have.\<close>

lemma rk_does_write:
  assumes "table_laws env tb" and "rk_execute env"
    and "\<And>T. P T \<Longrightarrow> I T" and "\<And>T T'. P T \<Longrightarrow> moves s T T' \<Longrightarrow> I T' \<and> Q () T'"
  shows "rk_does tb I P (rk_write env s) Q"
proof -
  have "I (tb d')" if "rk_run env s d = (Inl message, d')" "P (tb d)" for d d' message
    using assms(1,3,4) that unfolding table_laws_def by (metis (full_types))
  moreover have "Q () (tb d')" if "rk_run env s d = (Inr u, d')" "P (tb d)" for d d' u
    using assms(1,4) that unfolding table_laws_def by (metis (full_types) old.unit.exhaust)
  ultimately show ?thesis
    by (auto simp: rk_does_def valid_def rk_write_def assms(2) split: prod.split sum.split)
qed

lemma rk_does_quiet_write:
  assumes "table_laws env tb" and "rk_execute env" and "\<And>T. P T \<Longrightarrow> I T"
    and "\<And>T T'. P T \<Longrightarrow> (\<forall>t. t \<notin> touches s \<longrightarrow> T' t = T t) \<Longrightarrow> P T'" and "\<forall>a b. s \<noteq> ExchangeTables a b \<and> s \<noteq> RenameTable a b"
  shows "rk_does tb I P (rk_write env s) (\<lambda>_. P)"
proof (rule rk_does_write [OF assms(1-3)])
  fix T T'
  assume P: "P T" and "moves s T T'"
  then have "\<forall>t. t \<notin> touches s \<longrightarrow> T' t = T t"
    using assms(5) by (cases s) (simp_all add: moves_def)
  then have "P T'" using assms(4) [OF P] by blast
  then show "I T' \<and> P T'" using assms(3) by blast
qed assumption

lemma rk_does_id_type:
  assumes "table_laws env tb" and "\<And>T. P T \<Longrightarrow> I T"
  shows "rk_does tb I P (id_type env t) (\<lambda>ty T. P T \<and> ty = Option.bind (T t) snd)"
proof -
  have "map_of types ''asset_id'' = Option.bind (tb d t) snd" if "rk_id_types env t d = Inr types" for types d
    using assms(1) that unfolding table_laws_def by blast
  then show ?thesis
    using assms(2) by (auto simp: rk_does_def valid_def id_type_def rk_bind_def ask_def rk_return_def split: sum.split)
qed

lemma rk_does_exists:
  assumes "table_laws env tb" and "\<And>T. P T \<Longrightarrow> I T"
  shows "rk_does tb I P (ask (rk_exists env t)) (\<lambda>b T. P T \<and> (b \<longleftrightarrow> T t \<noteq> None))"
proof -
  have "b \<longleftrightarrow> tb d t \<noteq> None" if "rk_exists env t d = Inr b" for b d
    using assms(1) that unfolding table_laws_def by blast
  then show ?thesis
    using assms(2) by (auto simp: rk_does_def valid_def ask_def split: sum.split)
qed

end
