(* ===== verification/Rekey_Resume.thy ===== *)
theory Rekey_Resume
  imports Rekey_Tables
begin

text \<open>
  The swap may be interrupted anywhere and resumed: what one run makes of the copied tables, from any state an earlier one
  left, and what any sequence of them reaches.
\<close>

section \<open>The swap\<close>

definition in_swap :: "(string \<Rightarrow> 'u) \<Rightarrow> (string \<Rightarrow> 'u) \<Rightarrow> 'u tables \<Rightarrow> bool" where
  "in_swap old new T \<longleftrightarrow> (\<forall>t \<in> set copied_tables. staged T old new t \<or> halfway T old new t \<or> swapped T old new t)"

definition swapped_all :: "(string \<Rightarrow> 'u) \<Rightarrow> (string \<Rightarrow> 'u) \<Rightarrow> string set \<Rightarrow> 'u tables \<Rightarrow> bool" where
  "swapped_all old new S T \<longleftrightarrow> in_swap old new T \<and> (\<forall>t \<in> S. swapped T old new t)"

lemma apart:
  assumes "t \<in> set copied_tables" and "u \<in> set copied_tables" and "t \<noteq> u" and "n \<in> own_names t"
  shows "n \<notin> own_names u"
  using names_apart assms unfolding list.set(2) by blast

text \<open>A change of the names of one table leaves the others in their phase.\<close>

lemma phases_elsewhere:
  assumes "t \<in> set copied_tables" and "u \<in> set copied_tables" and "t \<noteq> u" and "\<forall>n. n \<notin> own_names t \<longrightarrow> T' n = T n"
  shows "staged T' old new u = staged T old new u" "halfway T' old new u = halfway T old new u"
    "swapped T' old new u = swapped T old new u" "unwound T' old new u = unwound T old new u"
  by (rule phase_local; use assms(4) apart [OF assms(2,1)] assms(3) in blast)+

lemma in_swap_step:
  assumes "swapped_all old new S T" and "t \<in> set copied_tables" and "t \<notin> S \<or> swapped T' old new t" and "S \<subseteq> set copied_tables"
    and "\<forall>n. n \<notin> own_names t \<longrightarrow> T' n = T n" and "staged T' old new t \<or> halfway T' old new t \<or> swapped T' old new t"
  shows "swapped_all old new S T'"
  using assms phases_elsewhere [OF assms(2) _ _ assms(5), of _ old new]
  unfolding swapped_all_def in_swap_def by (metis subsetD)

text \<open>The two statements of a table.\<close>

lemma exchange_staged:
  assumes "staged T old new t" and "moves (ExchangeTables t (new_name t)) T T'"
  shows "halfway T' old new t" and "\<forall>n. n \<notin> own_names t \<longrightarrow> T' n = T n"
  using assms own_names_apart [of t] by (auto simp: staged_def halfway_def moves_def own_names_def)

lemma rename_halfway:
  assumes "halfway T old new t" and "moves (RenameTable (new_name t) (pre_name t)) T T'"
  shows "swapped T' old new t" and "\<forall>n. n \<notin> own_names t \<longrightarrow> T' n = T n"
  using assms own_names_apart [of t] by (auto simp: swapped_def halfway_def moves_def own_names_def)

lemma swap_table_does:
  assumes laws: "table_laws env tb" "rk_execute env" and t: "t \<in> set copied_tables" "t \<notin> S" "S \<subseteq> set copied_tables"
  shows "rk_does tb (in_swap old new) (swapped_all old new S) (swap_table env gap t) (\<lambda>_. swapped_all old new (insert t S))"
proof -
  let ?I = "in_swap old new" and ?P = "swapped_all old new S"
  have PI: "?P T \<Longrightarrow> ?I T" for T by (simp add: swapped_all_def)
  have t_phase: "?P T \<Longrightarrow> staged T old new t \<or> halfway T old new t \<or> swapped T old new t" for T
    using t(1) by (simp add: swapped_all_def in_swap_def)
  have action: "rk_does tb ?I ?P (swap_action_of env t) (\<lambda>a T. ?P T \<and>
      (case a of Exchanged \<Rightarrow> staged T old new t | Renamed \<Rightarrow> halfway T old new t | AlreadySwapped \<Rightarrow> swapped T old new t))"
    unfolding swap_action_of_def
  proof (rule rk_does_bind [OF rk_does_id_type [OF laws(1) PI]], assumption,
      rule rk_does_bind [OF rk_does_id_type [OF laws(1)]])
    fix live staged_type
    let ?R = "\<lambda>T. (?P T \<and> live = Option.bind (T t) snd) \<and> staged_type = Option.bind (T (new_name t)) snd"
    have "rk_does tb ?I ?R (rk_bind (ask (rk_exists env (pre_name t)))
        (\<lambda>there. if there then rk_return AlreadySwapped else refuse (CannotSwap t live staged_type)))
        (\<lambda>a T. ?P T \<and> (case a of Exchanged \<Rightarrow> staged T old new t | Renamed \<Rightarrow> halfway T old new t | AlreadySwapped \<Rightarrow> swapped T old new t))"
      if "live = Some ''UInt64''" "staged_type = None"
    proof (rule rk_does_bind [OF rk_does_exists [OF laws(1)]])
      show "?R T \<Longrightarrow> ?I T" for T using PI by blast
      fix there
      have "swapped T old new t" if "?R T" for T
        using t_phase [of T] that \<open>live = _\<close> \<open>staged_type = _\<close> by (auto simp: staged_def halfway_def swapped_def)
      then show "rk_does tb ?I (\<lambda>T. ?R T \<and> (there \<longleftrightarrow> T (pre_name t) \<noteq> None))
        (if there then rk_return AlreadySwapped else refuse (CannotSwap t live staged_type))
        (\<lambda>a T. ?P T \<and> (case a of Exchanged \<Rightarrow> staged T old new t | Renamed \<Rightarrow> halfway T old new t | AlreadySwapped \<Rightarrow> swapped T old new t))"
        using PI by (intro rk_does_if rk_does_return rk_does_fail) auto
    qed
    then show "rk_does tb ?I ?R
      (if live = Some ''UInt32'' \<and> staged_type = Some ''UInt64'' then rk_return Exchanged
       else if live = Some ''UInt64'' \<and> staged_type = Some ''UInt32'' then rk_return Renamed
       else if live = Some ''UInt64'' \<and> staged_type = None
       then rk_bind (ask (rk_exists env (pre_name t))) (\<lambda>there. if there then rk_return AlreadySwapped else refuse (CannotSwap t live staged_type))
       else refuse (CannotSwap t live staged_type))
      (\<lambda>a T. ?P T \<and> (case a of Exchanged \<Rightarrow> staged T old new t | Renamed \<Rightarrow> halfway T old new t | AlreadySwapped \<Rightarrow> swapped T old new t))"
    proof (intro rk_does_if)
      assume "live = Some ''UInt32'' \<and> staged_type = Some ''UInt64''"
      then have "staged T old new t" if "?R T" for T
        using t_phase [of T] that by (auto simp: staged_def halfway_def swapped_def)
      then show "rk_does tb ?I ?R (rk_return Exchanged) (\<lambda>a T. ?P T \<and>
        (case a of Exchanged \<Rightarrow> staged T old new t | Renamed \<Rightarrow> halfway T old new t | AlreadySwapped \<Rightarrow> swapped T old new t))"
        by (intro rk_does_return) auto
    next
      assume "live = Some ''UInt64'' \<and> staged_type = Some ''UInt32''"
      then have "halfway T old new t" if "?R T" for T
        using t_phase [of T] that by (auto simp: staged_def halfway_def swapped_def)
      then show "rk_does tb ?I ?R (rk_return Renamed) (\<lambda>a T. ?P T \<and>
        (case a of Exchanged \<Rightarrow> staged T old new t | Renamed \<Rightarrow> halfway T old new t | AlreadySwapped \<Rightarrow> swapped T old new t))"
        by (intro rk_does_return) auto
    next
      show "rk_does tb ?I ?R (refuse (CannotSwap t live staged_type)) (\<lambda>a T. ?P T \<and>
        (case a of Exchanged \<Rightarrow> staged T old new t | Renamed \<Rightarrow> halfway T old new t | AlreadySwapped \<Rightarrow> swapped T old new t))"
        using PI by (intro rk_does_fail) auto
    qed blast
  qed (simp add: PI)
  have exchange: "rk_does tb ?I (\<lambda>T. ?P T \<and> staged T old new t) (rk_write env (ExchangeTables t (new_name t))) (\<lambda>_ T. ?P T \<and> halfway T old new t)"
  proof (rule rk_does_write [OF laws])
    fix T T'
    assume T: "?P T \<and> staged T old new t" and m: "moves (ExchangeTables t (new_name t)) T T'"
    note T' = exchange_staged [OF conjunct2 [OF T] m]
    have "?P T'" by (rule in_swap_step [OF conjunct1 [OF T] t(1) disjI1 [OF t(2)] t(3) T'(2)]) (simp add: T'(1))
    then show "?I T' \<and> ?P T' \<and> halfway T' old new t" using T'(1) PI by simp
  qed (simp add: PI)
  have rename: "rk_does tb ?I (\<lambda>T. ?P T \<and> halfway T old new t) (rk_write env (RenameTable (new_name t) (pre_name t))) (\<lambda>_ T. ?P T \<and> swapped T old new t)"
  proof (rule rk_does_write [OF laws])
    fix T T'
    assume T: "?P T \<and> halfway T old new t" and m: "moves (RenameTable (new_name t) (pre_name t)) T T'"
    note T' = rename_halfway [OF conjunct2 [OF T] m]
    have "?P T'" by (rule in_swap_step [OF conjunct1 [OF T] t(1) disjI1 [OF t(2)] t(3) T'(2)]) (simp add: T'(1))
    then show "?I T' \<and> ?P T' \<and> swapped T' old new t" using T'(1) PI by simp
  qed (simp add: PI)
  have finish: "rk_does tb ?I (\<lambda>T. ?P T \<and> swapped T old new t) (rk_bind (rk_log env row) (\<lambda>_. rk_return line)) (\<lambda>_. swapped_all old new (insert t S))" for row line
    by (rule rk_does_bind [OF rk_does_log [where Q = "\<lambda>_ T. ?P T \<and> swapped T old new t"]]) (auto simp: PI swapped_all_def intro: rk_does_return)
  show ?thesis
    unfolding swap_table_def
  proof (rule rk_does_bind [OF action])
    fix a
    show "rk_does tb ?I (\<lambda>T. ?P T \<and> (case a of Exchanged \<Rightarrow> staged T old new t | Renamed \<Rightarrow> halfway T old new t | AlreadySwapped \<Rightarrow> swapped T old new t))
      (if a = AlreadySwapped then rk_return (t @ '': already swapped'')
       else let status = (if a = Exchanged then ''exchanged'' else ''renamed'')
         in rk_bind (if a = Exchanged then rk_write env (ExchangeTables t (new_name t)) else rk_return ())
           (\<lambda>_. rk_bind (rk_write env (RenameTable (new_name t) (pre_name t)))
             (\<lambda>_. rk_bind (rk_log env ((log_row_of ''swap'' status)\<lparr>lr_target := t, lr_from := fst gap, lr_to := snd gap\<rparr>))
               (\<lambda>_. rk_return (t @ '': '' @ status)))))
      (\<lambda>_. swapped_all old new (insert t S))"
    proof (cases a)
      case Exchanged
      show ?thesis
        unfolding Exchanged Let_def by (simp add: rk_does_bind [OF exchange rk_does_bind [OF rename finish]])
    next
      case Renamed
      have "rk_does tb ?I (\<lambda>T. ?P T \<and> halfway T old new t) (rk_return ()) (\<lambda>_ T. ?P T \<and> halfway T old new t)" by (simp add: rk_does_return)
      from rk_does_bind [OF this rk_does_bind [OF rename finish]] show ?thesis unfolding Renamed Let_def by simp
    next
      case AlreadySwapped
      show ?thesis unfolding AlreadySwapped by (simp, rule rk_does_return) (simp add: swapped_all_def)
    qed
  qed
qed

lemma swap_tables_does:
  assumes laws: "table_laws env tb" "rk_execute env" and ts: "distinct ts" "set ts \<subseteq> set copied_tables" "set ts \<inter> S = {}" "S \<subseteq> set copied_tables"
  shows "rk_does tb (in_swap old new) (swapped_all old new S) (rk_each (swap_table env gap) ts) (\<lambda>_. swapped_all old new (S \<union> set ts))"
  using ts
proof (induction ts arbitrary: S)
  case Nil
  then show ?case by (simp add: rk_does_return)
next
  case (Cons t ts)
  have "rk_does tb (in_swap old new) (swapped_all old new (insert t S)) (rk_bind (rk_each (swap_table env gap) ts) (\<lambda>ys. rk_return (y # ys)))
      (\<lambda>_. swapped_all old new (insert t S \<union> set ts))" for y
    by (rule rk_does_bind [OF Cons.IH]) (use Cons.prems in \<open>auto intro: rk_does_return\<close>)
  moreover have "rk_does tb (in_swap old new) (swapped_all old new S) (swap_table env gap t) (\<lambda>_. swapped_all old new (insert t S))"
    by (rule swap_table_does [OF laws]) (use Cons.prems in auto)
  ultimately show ?case unfolding rk_each.simps by (simp add: rk_does_bind)
qed

text \<open>Programs that only ask, or log, keep what is said of the tables.\<close>

lemma last_logged_does: "(\<And>T. P T \<Longrightarrow> I T) \<Longrightarrow> rk_does tb I P (last_logged env step) (\<lambda>_. P)"
  unfolding last_logged_def by (rule rk_does_bind [OF rk_does_read_log]) (simp_all add: rk_does_return)

lemma altered_does: "(\<And>T. P T \<Longrightarrow> I T) \<Longrightarrow> rk_does tb I P (altered env) (\<lambda>_. P)"
  unfolding altered_def by (rule rk_does_bind [OF rk_does_read_log]) (simp_all add: rk_does_return)

lemma id_type_does: "(\<And>T. P T \<Longrightarrow> I T) \<Longrightarrow> rk_does tb I P (id_type env t) (\<lambda>_. P)"
  unfolding id_type_def by (rule rk_does_bind [OF rk_does_ask [where Q = "\<lambda>_. P"]]) (simp_all add: rk_does_return)

lemma check_green_does: "(\<And>T. P T \<Longrightarrow> I T) \<Longrightarrow> rk_does tb I P (check_green env) (\<lambda>_. P)"
  unfolding check_green_def
  by (rule rk_does_bind [OF rk_does_read_log]) (auto simp: rk_does_return rk_does_fail split: option.split)

lemma window_gates_does: "(\<And>T. P T \<Longrightarrow> I T) \<Longrightarrow> rk_does tb I P (window_gates env) (\<lambda>_. P)"
  unfolding window_gates_def Let_def
  by (intro rk_does_bind [OF rk_does_ask [where Q = "\<lambda>_. P"]] rk_does_if) (simp_all add: rk_does_return rk_does_fail)

lemma swap_range_does: "(\<And>T. P T \<Longrightarrow> I T) \<Longrightarrow> rk_does tb I P (swap_range env prev) (\<lambda>_. P)"
proof (cases prev)
  case None
  assume PI: "\<And>T. P T \<Longrightarrow> I T"
  have log: "rk_does tb I P (rk_bind (rk_log env row) (\<lambda>_. rk_return gap)) (\<lambda>_. P)" for row and gap :: "u32 \<times> u32"
    by (rule rk_does_bind [OF rk_does_log [where Q = "\<lambda>_. P"]]) (simp_all add: PI rk_does_return)
  have ask: "rk_does tb I P (rk_bind (ask (rk_live_bounds env)) (\<lambda>gap. rk_bind (rk_log env (row gap)) (\<lambda>_. rk_return gap))) (\<lambda>_. P)" for row
    by (rule rk_does_bind [OF rk_does_ask [where Q = "\<lambda>_. P"]]) (simp_all add: PI log)
  have count: "rk_does tb I P (if b then rk_return 0 else altered env) (\<lambda>_. P)" for b
    by (intro rk_does_if) (simp_all add: rk_does_return altered_does PI)
  show ?thesis
    unfolding swap_range_def None option.case
    by (rule rk_does_bind [OF check_green_does], simp add: PI, rule rk_does_bind [OF id_type_does], simp add: PI,
        rule rk_does_bind [OF count], intro rk_does_if) (simp_all add: PI rk_does_fail ask)
qed (simp add: swap_range_def rk_does_return)

lemma swap_step_does:
  assumes "table_laws env tb" and "rk_execute env"
  shows "rk_does tb (in_swap old new) (in_swap old new) (swap_step env False) (\<lambda>_. swapped_all old new (set copied_tables))"
proof -
  let ?I = "in_swap old new" and ?Q = "swapped_all old new (set copied_tables)"
  have QI: "?Q T \<Longrightarrow> ?I T" for T by (simp add: swapped_all_def)
  have "distinct copied_tables" by (simp add: copied_tables_def)
  have tables: "rk_does tb ?I ?I (rk_each (swap_table env gap) copied_tables) (\<lambda>_. ?Q)" for gap
  proof -
    have "swapped_all old new {} = ?I" by (rule ext) (simp add: swapped_all_def)
    with swap_tables_does [OF assms \<open>distinct copied_tables\<close>, of "{}" old new gap] show ?thesis by simp
  qed
  have finish: "rk_does tb ?I ?Q (rk_bind (rk_log env row) (\<lambda>_. rk_return ls)) (\<lambda>_. ?Q)" for row and ls :: "string list"
    by (rule rk_does_bind [OF rk_does_log [where Q = "\<lambda>_. ?Q"]]) (simp_all add: QI rk_does_return)
  show ?thesis
    unfolding swap_step_def
    by (rule rk_does_bind [OF last_logged_does], assumption, intro rk_does_if, rule rk_does_fail, assumption,
        rule rk_does_bind [OF window_gates_does], assumption, simp only: simp_thms if_False,
        rule rk_does_bind [OF swap_range_does], assumption, rule rk_does_bind [OF tables finish])
qed

section \<open>Interrupted and resumed\<close>

definition final_state :: "(rk_error \<times> 'd rk_state, 'a \<times> 'd rk_state) result \<Rightarrow> 'd rk_state" where
  "final_state r = (case r of Inl (e, st) \<Rightarrow> st | Inr (x, st) \<Rightarrow> st)"

text \<open>Runs of the swap on any servers that follow the laws, with any end; between them anything that leaves the tables.\<close>

inductive swaps :: "('d \<Rightarrow> 'u tables) \<Rightarrow> 'd rk_state \<Rightarrow> 'd rk_state \<Rightarrow> bool" for tb st where
  swaps_start: "swaps tb st st"
| swaps_run: "swaps tb st st1 \<Longrightarrow> table_laws env tb \<Longrightarrow> rk_execute env \<Longrightarrow> final_state (swap_step env False st1) = st2 \<Longrightarrow> swaps tb st st2"
| swaps_pause: "swaps tb st st1 \<Longrightarrow> \<forall>t \<in> set copied_tables. \<forall>n \<in> own_names t. tb (rs_db st2) n = tb (rs_db st1) n \<Longrightarrow> swaps tb st st2"

lemma swaps_in_swap:
  assumes "swaps tb st st'" and "in_swap old new (tb (rs_db st))"
  shows "in_swap old new (tb (rs_db st'))"
  using assms
proof (induction rule: swaps.induct)
  case (swaps_run st1 env st2)
  note does = swap_step_does [OF swaps_run.hyps(2,3), of old new] and I = swaps_run.IH [OF swaps_run.prems]
  show ?case
  proof (cases "swap_step env False st1")
    case (Inl a)
    then show ?thesis
      using rk_does_Inl [OF does, of st1] I swaps_run.hyps(4) by (cases a) (auto simp: final_state_def)
  next
    case (Inr b)
    then show ?thesis
      using rk_does_Inr [OF does, of st1] I swaps_run.hyps(4) by (cases b) (auto simp: final_state_def swapped_all_def)
  qed
next
  case (swaps_pause st1 st2)
  have "staged (tb (rs_db st2)) old new t \<or> halfway (tb (rs_db st2)) old new t \<or> swapped (tb (rs_db st2)) old new t" if t: "t \<in> set copied_tables" for t
    using swaps_pause.IH [OF swaps_pause.prems] t phase_local [of t "tb (rs_db st2)" "tb (rs_db st1)" old new] swaps_pause.hyps(2)
    by (simp add: in_swap_def)
  then show ?case by (simp add: in_swap_def)
qed

text \<open>
  C21: The swap of the migrated tables may be interrupted anywhere and run again: from staged tables, after any
  number of runs that ended at any statement on servers following the laws of EXCHANGE and RENAME, with a failed
  statement landing or not, a run that returns leaves every table swapped: the new table live, the old one under
  its __pre0139 name, and no __new.
\<close>

theorem swap_resumes:
  assumes "swaps tb st0 st" and "\<forall>t \<in> set copied_tables. staged (tb (rs_db st0)) old new t"
    and "table_laws env tb" and "rk_execute env" and "swap_step env False st = Inr (ls, st')" and "t \<in> set copied_tables"
  shows "swapped (tb (rs_db st')) old new t"
proof -
  have "in_swap old new (tb (rs_db st))"
    using swaps_in_swap [OF assms(1)] assms(2) by (simp add: in_swap_def)
  then show ?thesis
    using rk_does_Inr [OF swap_step_does [OF assms(3,4)] assms(5)] assms(6) by (simp add: swapped_all_def)
qed

end
