(* ===== verification/Rekey_Rollback.thy ===== *)
theory Rekey_Rollback
  imports Rekey_Resume
begin

text \<open>
  What a rollback makes of the copied tables and of \<open>assets\<close>: it restores every table whose swap was finished, and passes
  over a table that an interrupted swap, or an interrupted rollback, left between its two statements.
\<close>

section \<open>One table\<close>

text \<open>What a table satisfies before and after its turn. Both speak of its own three names only.\<close>

definition local_to :: "string \<Rightarrow> ('u tables \<Rightarrow> bool) \<Rightarrow> bool" where
  "local_to t F \<longleftrightarrow> (\<forall>T T'. (\<forall>n \<in> own_names t. T' n = T n) \<longrightarrow> F T' = F T)"

lemma local_phases:
  "local_to t (\<lambda>T. staged T old new t)" "local_to t (\<lambda>T. halfway T old new t)" "local_to t (\<lambda>T. swapped T old new t)" "local_to t (\<lambda>T. unwound T old new t)"
  by (simp_all add: local_to_def staged_def halfway_def swapped_def unwound_def own_names_def)

lemma local_toD: "local_to t F \<Longrightarrow> \<forall>n \<in> own_names t. T' n = T n \<Longrightarrow> F T' = F T"
  by (simp add: local_to_def)

definition turns :: "(string \<Rightarrow> 'u) \<Rightarrow> (string \<Rightarrow> 'u) \<Rightarrow> string \<Rightarrow> ('u tables \<Rightarrow> bool) \<Rightarrow> ('u tables \<Rightarrow> bool) \<Rightarrow> bool" where
  "turns old new t F G \<longleftrightarrow>
     F = (\<lambda>T. swapped T old new t) \<and> G = (\<lambda>T. staged T old new t) \<or>
     F = (\<lambda>T. staged T old new t) \<and> G = F \<or> F = (\<lambda>T. halfway T old new t) \<and> G = F \<or> F = (\<lambda>T. unwound T old new t) \<and> G = F"

lemma turns_local: "turns old new t F G \<Longrightarrow> local_to t F" "turns old new t F G \<Longrightarrow> local_to t G"
  using local_phases [of t old new] by (auto simp: turns_def)

definition rolling :: "(string \<Rightarrow> 'u tables \<Rightarrow> bool) \<Rightarrow> (string \<Rightarrow> 'u tables \<Rightarrow> bool) \<Rightarrow> string set \<Rightarrow> 'u tables \<Rightarrow> bool" where
  "rolling F G S T \<longleftrightarrow> (\<forall>t \<in> set copied_tables. if t \<in> S then G t T else F t T)"

lemma rolling_step:
  assumes "\<forall>u \<in> set copied_tables. local_to u (F u) \<and> local_to u (G u)" and "rolling F G S T" and "t \<in> set copied_tables"
    and "\<forall>n. n \<notin> own_names t \<longrightarrow> T' n = T n" and "G t T'"
  shows "rolling F G (insert t S) T'"
  unfolding rolling_def
proof
  fix u
  assume u: "u \<in> set copied_tables"
  show "if u \<in> insert t S then G u T' else F u T'"
  proof (cases "u = t")
    case False
    then have same: "\<forall>n \<in> own_names u. T' n = T n" using assms(4) apart [OF u assms(3) False] by blast
    have "F u T' = F u T" "G u T' = G u T" using local_toD [OF _ same] assms(1) u by blast+
    moreover have "if u \<in> S then G u T else F u T" using assms(2) u by (simp add: rolling_def)
    ultimately show ?thesis using False by simp
  qed (use assms(5) in simp)
qed

lemma swapped_out_does:
  assumes "table_laws env tb"
  shows "rk_does tb (\<lambda>_. True) P (swapped_out env t)
    (\<lambda>b T. P T \<and> (b \<longleftrightarrow> Option.bind (T t) snd = Some ''UInt64'' \<and> T (pre_name t) \<noteq> None))"
  unfolding swapped_out_def
proof (rule rk_does_bind [OF rk_does_id_type [OF assms]], simp, rule rk_does_if)
  fix ty :: "string option"
  assume "ty = Some ''UInt64''"
  then show "rk_does tb (\<lambda>_. True) (\<lambda>T. P T \<and> ty = Option.bind (T t) snd) (ask (rk_exists env (pre_name t)))
      (\<lambda>b T. P T \<and> (b \<longleftrightarrow> Option.bind (T t) snd = Some ''UInt64'' \<and> T (pre_name t) \<noteq> None))"
    by (intro rk_does_conseq [OF rk_does_exists [OF assms]]) auto
qed (auto intro: rk_does_return)

lemma exchange_swapped:
  assumes "swapped T old new t" and "moves (ExchangeTables t (pre_name t)) T T'"
  shows "unwound T' old new t" and "\<forall>n. n \<notin> own_names t \<longrightarrow> T' n = T n"
  using assms own_names_apart [of t] by (auto simp: swapped_def unwound_def moves_def own_names_def)

lemma rename_unwound:
  assumes "unwound T old new t" and "moves (RenameTable (pre_name t) (new_name t)) T T'"
  shows "staged T' old new t" and "\<forall>n. n \<notin> own_names t \<longrightarrow> T' n = T n"
  using assms own_names_apart [of t] by (auto simp: staged_def unwound_def moves_def own_names_def)

lemma restore_table_does:
  assumes laws: "table_laws env tb" "rk_execute env" and turns: "\<forall>u \<in> set copied_tables. turns old new u (F u) (G u)"
    and t: "t \<in> set copied_tables" "t \<notin> S"
  shows "rk_does tb (\<lambda>_. True) (rolling F G S) (restore_table env t) (\<lambda>_. rolling F G (insert t S))"
proof -
  have locals: "\<forall>u \<in> set copied_tables. local_to u (F u) \<and> local_to u (G u)"
    using turns turns_local by blast
  have here: "rolling F G S T \<Longrightarrow> F t T" for T using t by (simp add: rolling_def)
  have stays: "rolling F G (insert t S) T" if "rolling F G S T" "G t T" for T
    using rolling_step [OF locals that(1) t(1), of T] that(2) by simp
  show ?thesis
    unfolding restore_table_def
  proof (rule rk_does_bind [OF swapped_out_does [OF laws(1)]])
    fix out
    let ?P = "\<lambda>T. rolling F G S T \<and> (out \<longleftrightarrow> Option.bind (T t) snd = Some ''UInt64'' \<and> T (pre_name t) \<noteq> None)"
    show "rk_does tb (\<lambda>_. True) ?P
      (if out then rk_bind (rk_write env (ExchangeTables t (pre_name t))) (\<lambda>_. rk_bind (rk_write env (RenameTable (pre_name t) (new_name t))) (\<lambda>_. rk_return [t @ '': restored'']))
       else rk_return []) (\<lambda>_. rolling F G (insert t S))"
    proof -
      from turns t(1) have "turns old new t (F t) (G t)" by blast
      then consider (moved) "F t = (\<lambda>T. swapped T old new t)" "G t = (\<lambda>T. staged T old new t)"
        | (kept) "G t = F t" "\<forall>T. F t T \<longrightarrow> staged T old new t \<or> halfway T old new t \<or> unwound T old new t"
        unfolding turns_def by fastforce
      then show ?thesis
    proof cases
      case moved
      note True = moved(1) and G = moved(2)
      let ?M = "\<lambda>_ T'. \<exists>T. rolling F G S T \<and> unwound T' old new t \<and> (\<forall>n. n \<notin> own_names t \<longrightarrow> T' n = T n)"
      have one: "rk_does tb (\<lambda>_. True) ?P (rk_write env (ExchangeTables t (pre_name t))) ?M"
      proof (rule rk_does_write [OF laws])
        fix T T'
        assume P: "?P T" and m: "moves (ExchangeTables t (pre_name t)) T T'"
        have "swapped T old new t" using here [OF conjunct1 [OF P]] True by simp
        from exchange_swapped [OF this m] P show "True \<and> ?M () T'" by blast
      qed simp
      have two: "rk_does tb (\<lambda>_. True) (?M u) (rk_write env (RenameTable (pre_name t) (new_name t))) (\<lambda>_. rolling F G (insert t S))" for u
      proof (rule rk_does_write [OF laws])
        fix T' T''
        assume "?M u T'" and m: "moves (RenameTable (pre_name t) (new_name t)) T' T''"
        then obtain T where T: "rolling F G S T" "unwound T' old new t" "\<forall>n. n \<notin> own_names t \<longrightarrow> T' n = T n" by blast
        note T'' = rename_unwound [OF T(2) m]
        have "rolling F G (insert t S) T''"
          by (rule rolling_step [OF locals T(1) t(1)]) (use T(3) T'' G in auto)
        then show "True \<and> rolling F G (insert t S) T''" by simp
      qed simp
      have "out" if "?P T" for T using that here [of T] True by (simp add: swapped_def)
      then have never: "rk_does tb (\<lambda>_. True) ?P m Q" if "\<not> out" for m :: "('a, string list) rk_prog" and Q
        using that by (auto simp: rk_does_def valid_def)
      have "rk_does tb (\<lambda>_. True) ?P (rk_bind (rk_write env (ExchangeTables t (pre_name t)))
          (\<lambda>_. rk_bind (rk_write env (RenameTable (pre_name t) (new_name t))) (\<lambda>_. rk_return [t @ '': restored'']))) (\<lambda>_. rolling F G (insert t S))"
        by (rule rk_does_bind [OF one], rule rk_does_bind [OF two]) (simp add: rk_does_return)
      then show ?thesis by (rule rk_does_if) (rule never, assumption)
    next
      case kept
      note same = kept
      have "\<not> out" if "?P T" for T
        using that same(2) here [of T] by (auto simp: staged_def halfway_def unwound_def)
      then show ?thesis
        using stays same(1) here by (cases out) (auto simp: rk_does_def valid_def rk_return_def)
    qed
    qed
  qed
qed

lemma restore_tables_does:
  assumes laws: "table_laws env tb" "rk_execute env" and turns: "\<forall>u \<in> set copied_tables. turns old new u (F u) (G u)"
    and ts: "distinct ts" "set ts \<subseteq> set copied_tables" "set ts \<inter> S = {}"
  shows "rk_does tb (\<lambda>_. True) (rolling F G S) (rk_each (restore_table env) ts) (\<lambda>_. rolling F G (S \<union> set ts))"
  using ts
proof (induction ts arbitrary: S)
  case Nil
  then show ?case by (simp add: rk_does_return)
next
  case (Cons t ts)
  have "rk_does tb (\<lambda>_. True) (rolling F G (insert t S)) (rk_bind (rk_each (restore_table env) ts) (\<lambda>ys. rk_return (y # ys)))
      (\<lambda>_. rolling F G (insert t S \<union> set ts))" for y
    by (rule rk_does_bind [OF Cons.IH]) (use Cons.prems in \<open>auto intro: rk_does_return\<close>)
  moreover have "rk_does tb (\<lambda>_. True) (rolling F G S) (restore_table env t) (\<lambda>_. rolling F G (insert t S))"
    by (rule restore_table_does [OF laws turns]) (use Cons.prems in auto)
  ultimately show ?case unfolding rk_each.simps by (simp add: rk_does_bind)
qed

section \<open>Assets and the views\<close>

definition assets_altered :: "'u tables \<Rightarrow> 'u \<Rightarrow> 'u \<Rightarrow> bool" where
  "assets_altered T old_assets new_assets \<longleftrightarrow>
     T ''assets'' = Some (new_assets, Some ''UInt64'') \<and> T assets_pre = Some (old_assets, Some ''UInt32'')"

text \<open>\<open>P\<close> speaks of the copied tables only.\<close>

definition of_copies :: "('u tables \<Rightarrow> bool) \<Rightarrow> bool" where
  "of_copies P \<longleftrightarrow> (\<forall>T T'. (\<forall>t \<in> set copied_tables. \<forall>n \<in> own_names t. T' n = T n) \<longrightarrow> P T' = P T)"

lemma of_copiesD: "of_copies P \<Longrightarrow> P T \<Longrightarrow> \<forall>t \<in> set copied_tables. \<forall>n \<in> own_names t. T' n = T n \<Longrightarrow> P T'"
  unfolding of_copies_def by blast

lemma assets_apart: "t \<in> set copied_tables \<Longrightarrow> n \<in> own_names t \<Longrightarrow> n \<noteq> ''assets'' \<and> n \<noteq> assets_pre \<and> n \<noteq> assets_new"
proof -
  assume t: "t \<in> set copied_tables" "n \<in> own_names t"
  then have "t \<noteq> ''assets''" by (auto simp: copied_tables_def)
  then have "own_names t \<inter> own_names ''assets'' = {}"
    using names_apart t(1) unfolding list.set(2) by blast
  then show ?thesis
    using t(2) own_names_mem [of "''assets''"] unfolding assets_pre_def assets_new_def by blast
qed

lemma of_copies_keeps:
  assumes "of_copies P" and "P T" and "\<forall>n. n \<notin> {''assets'', assets_pre, assets_new} \<longrightarrow> T' n = T n"
  shows "P T'"
  by (rule of_copiesD [OF assms(1,2)]) (use assms(3) assets_apart in blast)

lemma restore_assets_does:
  assumes laws: "table_laws env tb" "rk_execute env" and P: "of_copies P"
  shows "rk_does tb (\<lambda>_. True) (\<lambda>T. P T \<and> assets_altered T oa na) (restore_assets env) (\<lambda>_ T. P T \<and> T ''assets'' = Some (oa, Some ''UInt32''))"
proof -
  let ?A = "\<lambda>T. P T \<and> assets_altered T oa na" and ?R = "\<lambda>T. P T \<and> T ''assets'' = Some (oa, Some ''UInt32'')"
  have names: "''assets'' \<noteq> assets_pre" "''assets'' \<noteq> assets_new" "assets_pre \<noteq> assets_new" "assets_pre = pre_name ''assets''"
    by (simp_all add: assets_pre_def assets_new_def pre_name_def new_name_def)
  note keep = of_copies_keeps [OF P]
  have drop: "rk_does tb (\<lambda>_. True) ?A (rk_write env (DropTable assets_new)) (\<lambda>_. ?A)"
  proof (rule rk_does_quiet_write [OF laws])
    fix T T' :: "'b tables"
    assume T: "?A T" and same: "\<forall>t. t \<notin> touches (DropTable assets_new) \<longrightarrow> T' t = T t"
    have "P T'" by (rule keep [OF conjunct1 [OF T]]) (use same in \<open>auto simp: touches_def\<close>)
    then show "?A T'" using T same names by (simp add: touches_def assets_altered_def)
  qed simp_all
  have exchange: "rk_does tb (\<lambda>_. True) ?A (rk_write env (ExchangeTables ''assets'' assets_pre)) (\<lambda>_. ?R)"
  proof (rule rk_does_write [OF laws])
    fix T T' :: "'b tables"
    assume T: "?A T" and m: "moves (ExchangeTables ''assets'' assets_pre) T T'"
    have "P T'" by (rule keep [OF conjunct1 [OF T]]) (use m in \<open>auto simp: moves_def\<close>)
    then show "True \<and> ?R T'" using T m names by (auto simp: moves_def assets_altered_def)
  qed simp
  have rename: "rk_does tb (\<lambda>_. True) ?R (rk_write env (RenameTable assets_pre assets_new)) (\<lambda>_. ?R)"
  proof (rule rk_does_write [OF laws])
    fix T T' :: "'b tables"
    assume T: "?R T" and m: "moves (RenameTable assets_pre assets_new) T T'"
    have "P T'" by (rule keep [OF conjunct1 [OF T]]) (use m in \<open>auto simp: moves_def\<close>)
    then show "True \<and> ?R T'" using T m names by (auto simp: moves_def)
  qed simp
  have merges: "rk_does tb (\<lambda>_. True) ?R (rk_write env (StartMerges ''assets'')) (\<lambda>_. ?R)"
  proof (rule rk_does_quiet_write [OF laws])
    fix T T' :: "'b tables"
    assume T: "?R T" and same: "\<forall>t. t \<notin> touches (StartMerges ''assets'') \<longrightarrow> T' t = T t"
    have "P T'" by (rule keep [OF conjunct1 [OF T]]) (use same in \<open>auto simp: touches_def\<close>)
    then show "?R T'" using T same by (simp add: touches_def)
  qed simp_all
  show ?thesis
    unfolding restore_assets_def
  proof (rule rk_does_bind [OF swapped_out_does [OF laws(1)]])
    fix out
    have "rk_does tb (\<lambda>_. True) ?A (rk_bind (rk_write env (DropTable assets_new)) (\<lambda>_. rk_bind (rk_write env (ExchangeTables ''assets'' assets_pre))
        (\<lambda>_. rk_bind (rk_write env (RenameTable assets_pre assets_new)) (\<lambda>_. rk_bind (rk_write env (StartMerges ''assets''))
        (\<lambda>_. rk_return [''assets: restored'']))))) (\<lambda>_. ?R)"
      by (rule rk_does_bind [OF drop], rule rk_does_bind [OF exchange], rule rk_does_bind [OF rename], rule rk_does_bind [OF merges], rule rk_does_return)
    then show "rk_does tb (\<lambda>_. True) (\<lambda>T. ?A T \<and> (out \<longleftrightarrow> Option.bind (T ''assets'') snd = Some ''UInt64'' \<and> T (pre_name ''assets'') \<noteq> None))
      (if out then rk_bind (rk_write env (DropTable assets_new)) (\<lambda>_. rk_bind (rk_write env (ExchangeTables ''assets'' assets_pre))
        (\<lambda>_. rk_bind (rk_write env (RenameTable assets_pre assets_new)) (\<lambda>_. rk_bind (rk_write env (StartMerges ''assets''))
        (\<lambda>_. rk_return [''assets: restored'']))))
       else rk_return []) (\<lambda>_. ?R)"
      using names(4) by (intro rk_does_if) (auto intro!: rk_does_return elim: rk_does_conseq simp: assets_altered_def)
  qed
qed

definition protected_names :: "string set" where
  "protected_names = (\<Union>t \<in> set (''assets'' # copied_tables). own_names t)"

text \<open>No view has the name of a table of the migration.\<close>

definition views_apart :: "'d rk_env \<Rightarrow> bool" where
  "views_apart env \<longleftrightarrow>
     (\<forall>d ns. rk_mvs env d = Inr ns \<longrightarrow> set ns \<inter> protected_names = {}) \<and>
     (\<forall>kind \<in> {''mv'', ''view''}. \<forall>d xs. rk_captured env kind d = Inr xs \<longrightarrow> (\<forall>(n, q) \<in> set xs. n \<notin> protected_names \<and>
        (\<forall>v \<in> protected_names. created_name q \<noteq> Some v \<and> created_name (or_replace q) \<noteq> Some v)))"

lemma captured_apart:
  assumes "views_apart env" and "rk_captured env kind d = Inr xs" and "kind = ''mv'' \<or> kind = ''view''" and "(n, q) \<in> set xs"
  shows "n \<notin> protected_names" and "v \<in> protected_names \<Longrightarrow> created_name q \<noteq> Some v" and "v \<in> protected_names \<Longrightarrow> created_name (or_replace q) \<noteq> Some v"
proof -
  have "\<forall>(n, q) \<in> set xs. n \<notin> protected_names \<and> (\<forall>v \<in> protected_names. created_name q \<noteq> Some v \<and> created_name (or_replace q) \<noteq> Some v)"
    using assms(1-3) unfolding views_apart_def by blast
  then show "n \<notin> protected_names" "v \<in> protected_names \<Longrightarrow> created_name q \<noteq> Some v" "v \<in> protected_names \<Longrightarrow> created_name (or_replace q) \<noteq> Some v"
    using assms(4) by blast+
qed

definition of_protected :: "('u tables \<Rightarrow> bool) \<Rightarrow> bool" where
  "of_protected R \<longleftrightarrow> (\<forall>T T'. R T \<longrightarrow> (\<forall>n \<in> protected_names. T' n = T n) \<longrightarrow> R T')"

lemma rk_does_asked: "(\<And>T. P T \<Longrightarrow> I T) \<Longrightarrow> (\<And>d x T. q d = Inr x \<Longrightarrow> P T \<Longrightarrow> Q x T) \<Longrightarrow> rk_does tb I P (ask q) Q"
  by (auto simp: rk_does_def valid_def ask_def split: sum.split)

lemma rk_does_pure: "(b \<Longrightarrow> rk_does tb I P m Q) \<Longrightarrow> rk_does tb I (\<lambda>T. b \<and> P T) m Q"
  by (cases b) (simp_all add: rk_does_def valid_def)

lemma view_write_does:
  assumes "table_laws env tb" and "rk_execute env" and "of_protected R" and "touches s \<inter> protected_names = {}"
    and "\<forall>a b. s \<noteq> ExchangeTables a b \<and> s \<noteq> RenameTable a b"
  shows "rk_does tb (\<lambda>_. True) R (rk_write env s) (\<lambda>_. R)"
proof (rule rk_does_quiet_write [OF assms(1,2) _ _ assms(5)])
  fix T T' :: "'b tables"
  assume "R T" "\<forall>t. t \<notin> touches s \<longrightarrow> T' t = T t"
  then show "R T'" using assms(3,4) unfolding of_protected_def by blast
qed simp

lemma split_first_char: "split_first [c] s = None \<longleftrightarrow> c \<notin> set s"
  by (induction s) auto

lemma creates_in_named: "creates_in stmt db \<Longrightarrow> \<exists>v. created_name stmt = Some v"
proof -
  assume "creates_in stmt db"
  then obtain obj where obj: "created_object stmt = Some obj" "in_database db obj"
    by (auto simp: creates_in_def split: option.splits)
  then have "CHR ''.'' \<in> set obj"
    by (auto simp: in_database_def strip_text_def split: if_splits list.splits) (metis in_set_dropD list.set_intros(1))
  then have "split_first ''.'' obj \<noteq> None" by (simp add: split_first_char)
  then show ?thesis using obj(1) by (auto simp: created_name_def)
qed

lemma replace_mvs_does:
  assumes laws: "table_laws env tb" "rk_execute env" and R: "of_protected R" and apart: "views_apart env"
    and texts: "\<forall>s \<in> set (mvs @ views). \<forall>v \<in> protected_names. created_name s \<noteq> Some v"
  shows "rk_does tb (\<lambda>_. True) R (replace_mvs env mvs views) (\<lambda>_. R)"
proof (cases "find (\<lambda>s. \<not> creates_in s (rk_db env)) (mvs @ views)")
  case None
  then have named: "\<forall>s \<in> set (mvs @ views). \<exists>v. created_name s = Some v"
    using creates_in_named by (auto simp: find_None_iff)
  have drops: "rk_does tb (\<lambda>_. True) R (rk_each (\<lambda>mv. rk_write env (DropView mv)) ns) (\<lambda>_. R)" if "set ns \<inter> protected_names = {}" for ns
    using that by (intro rk_does_each view_write_does [OF laws R]) (auto simp: touches_def)
  have creates: "rk_does tb (\<lambda>_. True) R (rk_bind (rk_each (\<lambda>s. rk_write env (CreateText s)) (mvs @ views)) (\<lambda>_. rk_return ())) (\<lambda>_. R)"
  proof (rule rk_does_bind [OF rk_does_each])
    fix s
    assume s: "s \<in> set (mvs @ views)"
    then obtain v where "created_name s = Some v" using named by blast
    then show "rk_does tb (\<lambda>_. True) R (rk_write env (CreateText s)) (\<lambda>_. R)"
      using texts s by (intro view_write_does [OF laws R]) (auto simp: touches_def)
  qed (simp add: rk_does_return)
  have made: "set (List.map_filter created_name mvs) \<inter> protected_names = {}"
    using texts by (auto simp: List.map_filter_def)
  have "rk_does tb (\<lambda>_. True) R
     (rk_bind (ask (rk_mvs env)) (\<lambda>there. rk_bind (ask (rk_captured env ''mv'')) (\<lambda>captured.
        rk_bind (rk_each (\<lambda>mv. rk_write env (DropView mv)) (remdups_adj (sort (there @ map fst captured @ List.map_filter created_name mvs))))
          (\<lambda>_. rk_bind (rk_each (\<lambda>s. rk_write env (CreateText s)) (mvs @ views)) (\<lambda>_. rk_return ()))))) (\<lambda>_. R)"
  proof (rule rk_does_bind [OF rk_does_asked [where Q = "\<lambda>there T. set there \<inter> protected_names = {} \<and> R T"]], simp)
    show "rk_mvs env d = Inr there \<Longrightarrow> R T \<Longrightarrow> set there \<inter> protected_names = {} \<and> R T" for d there T
      using apart unfolding views_apart_def by blast
    fix there
    show "rk_does tb (\<lambda>_. True) (\<lambda>T. set there \<inter> protected_names = {} \<and> R T) (rk_bind (ask (rk_captured env ''mv'')) (\<lambda>captured.
        rk_bind (rk_each (\<lambda>mv. rk_write env (DropView mv)) (remdups_adj (sort (there @ map fst captured @ List.map_filter created_name mvs))))
          (\<lambda>_. rk_bind (rk_each (\<lambda>s. rk_write env (CreateText s)) (mvs @ views)) (\<lambda>_. rk_return ())))) (\<lambda>_. R)"
    proof (rule rk_does_pure, rule rk_does_bind [OF rk_does_asked [where Q = "\<lambda>captured T. fst ` set captured \<inter> protected_names = {} \<and> R T"]], simp)
      show "rk_captured env ''mv'' d = Inr captured \<Longrightarrow> R T \<Longrightarrow> fst ` set captured \<inter> protected_names = {} \<and> R T" for d captured T
        using captured_apart(1) [OF apart, of "''mv''" d captured] by auto
      fix captured :: "(string \<times> string) list"
      assume "set there \<inter> protected_names = {}"
      then show "rk_does tb (\<lambda>_. True) (\<lambda>T. fst ` set captured \<inter> protected_names = {} \<and> R T)
        (rk_bind (rk_each (\<lambda>mv. rk_write env (DropView mv)) (remdups_adj (sort (there @ map fst captured @ List.map_filter created_name mvs))))
          (\<lambda>_. rk_bind (rk_each (\<lambda>s. rk_write env (CreateText s)) (mvs @ views)) (\<lambda>_. rk_return ()))) (\<lambda>_. R)"
        using made by (intro rk_does_pure rk_does_bind [OF drops creates]) auto
    qed
  qed
  then show ?thesis by (simp add: replace_mvs_def None)
qed (simp add: replace_mvs_def rk_does_fail)

section \<open>The rollback\<close>

definition restored_all :: "(string \<Rightarrow> 'u tables \<Rightarrow> bool) \<Rightarrow> 'u \<Rightarrow> 'u tables \<Rightarrow> bool" where
  "restored_all G oa T \<longleftrightarrow> (\<forall>t \<in> set copied_tables. G t T) \<and> T ''assets'' = Some (oa, Some ''UInt32'')"

lemma restored_all_protected: "\<forall>u \<in> set copied_tables. local_to u (G u) \<Longrightarrow> of_protected (restored_all G oa)"
proof (unfold of_protected_def, intro allI impI)
  fix T T' :: "'a tables"
  assume G: "\<forall>u \<in> set copied_tables. local_to u (G u)" and T: "restored_all G oa T" and same: "\<forall>n \<in> protected_names. T' n = T n"
  have "G t T'" if t: "t \<in> set copied_tables" for t
  proof -
    have "\<forall>n \<in> own_names t. T' n = T n" using same t unfolding protected_names_def by auto
    then show ?thesis using local_toD [of t "G t" T' T] G T t by (simp add: restored_all_def)
  qed
  moreover have "''assets'' \<in> protected_names" by (auto simp: protected_names_def)
  ultimately show "restored_all G oa T'" using T same by (simp add: restored_all_def)
qed

lemma captured_does:
  assumes apart: "views_apart env"
  shows "rk_does tb (\<lambda>_. True) R (captured_mvs env) (\<lambda>mvs T. (\<forall>s \<in> set (map snd mvs). \<forall>v \<in> protected_names. created_name s \<noteq> Some v) \<and> R T)"
    and "rk_does tb (\<lambda>_. True) R (captured_views env)
      (\<lambda>views T. (\<forall>s \<in> set (map (\<lambda>(n, q). or_replace q) views). \<forall>v \<in> protected_names. created_name s \<noteq> Some v) \<and> R T)"
proof -
  show "rk_does tb (\<lambda>_. True) R (captured_mvs env) (\<lambda>mvs T. (\<forall>s \<in> set (map snd mvs). \<forall>v \<in> protected_names. created_name s \<noteq> Some v) \<and> R T)"
    unfolding captured_mvs_def
    by (rule rk_does_bind [OF rk_does_asked [where Q = "\<lambda>mvs T. (\<forall>s \<in> set (map snd mvs). \<forall>v \<in> protected_names. created_name s \<noteq> Some v) \<and> R T"]])
      (auto intro!: rk_does_return dest: captured_apart(2) [OF apart])
  show "rk_does tb (\<lambda>_. True) R (captured_views env)
      (\<lambda>views T. (\<forall>s \<in> set (map (\<lambda>(n, q). or_replace q) views). \<forall>v \<in> protected_names. created_name s \<noteq> Some v) \<and> R T)"
    unfolding captured_views_def
    by (rule rk_does_bind [OF rk_does_asked [where Q = "\<lambda>views T. (\<forall>s \<in> set (map (\<lambda>(n, q). or_replace q) views). \<forall>v \<in> protected_names. created_name s \<noteq> Some v) \<and> R T"]])
      (auto simp: case_prod_beta intro!: rk_does_return dest: captured_apart(3) [OF apart])
qed

lemma settle_views_does: "rk_does tb (\<lambda>_. True) R (settle_views env) (\<lambda>_. R)"
  unfolding settle_views_def
  by (intro rk_does_if rk_does_bind [OF rk_does_ask [where Q = "\<lambda>_. R"]]) (simp_all add: rk_does_return rk_does_fail)

lemma post_swap_rows_does: "rk_does tb (\<lambda>_. True) R (post_swap_rows env a b) (\<lambda>_. R)"
proof -
  have rows: "rk_does tb (\<lambda>_. True) R (rows_after env t n) (\<lambda>_. R)" for t n
    unfolding rows_after_def
    by (rule rk_does_bind [OF id_type_does], simp, intro rk_does_if rk_does_bind [OF rk_does_ask [where Q = "\<lambda>_. R"]])
      (simp_all add: rk_does_return)
  show ?thesis
    unfolding post_swap_rows_def
    by (intro rk_does_bind [OF rows] rk_does_bind [OF rk_does_ask [where Q = "\<lambda>_. R"]] rk_does_if) (simp_all add: rk_does_return)
qed

lemma rk_does_conj: "rk_does tb I P m Q \<Longrightarrow> rk_does tb I P' m Q' \<Longrightarrow> rk_does tb I (\<lambda>T. P T \<and> P' T) m (\<lambda>x T. Q x T \<and> Q' x T)"
  unfolding rk_does_def valid_def by (fastforce split: sum.splits)

lemma restore_keeps_assets:
  assumes laws: "table_laws env tb" "rk_execute env"
  shows "rk_does tb (\<lambda>_. True) (\<lambda>T. assets_altered T oa na) (rk_each (restore_table env) copied_tables) (\<lambda>_ T. assets_altered T oa na)"
proof (rule rk_does_each)
  fix t
  assume t: "t \<in> set copied_tables"
  let ?A = "\<lambda>T. assets_altered T oa na"
  have apart: "''assets'' \<notin> own_names t" "assets_pre \<notin> own_names t" using assets_apart [OF t] by blast+
  have writes: "rk_does tb (\<lambda>_. True) ?A (rk_write env (ExchangeTables t (pre_name t))) (\<lambda>_. ?A)"
    "rk_does tb (\<lambda>_. True) ?A (rk_write env (RenameTable (pre_name t) (new_name t))) (\<lambda>_. ?A)"
    by (intro rk_does_write [OF laws]; use apart in \<open>auto simp: moves_def assets_altered_def own_names_def\<close>)+
  show "rk_does tb (\<lambda>_. True) ?A (restore_table env t) (\<lambda>_. ?A)"
    unfolding restore_table_def
    by (rule rk_does_bind [OF rk_does_conseq [OF swapped_out_does [OF laws(1), of ?A], where Q' = "\<lambda>_. ?A"]], assumption, simp,
        intro rk_does_if rk_does_bind [OF writes(1)] rk_does_bind [OF writes(2)]) (simp_all add: rk_does_return)
qed

lemma rolling_of_copies:
  assumes "\<forall>u \<in> set copied_tables. local_to u (F u) \<and> local_to u (G u)"
  shows "of_copies (rolling F G S)"
  unfolding of_copies_def
proof (intro allI impI)
  fix T T' :: "'a tables"
  assume same: "\<forall>t \<in> set copied_tables. \<forall>n \<in> own_names t. T' n = T n"
  have "F t T' = F t T \<and> G t T' = G t T" if t: "t \<in> set copied_tables" for t
    using local_toD [of t _ T' T] same t assms by blast
  then show "rolling F G S T' = rolling F G S T" by (simp add: rolling_def)
qed

lemma rollback_does:
  assumes laws: "table_laws env tb" "rk_execute env" and apart: "views_apart env"
    and turns: "\<forall>u \<in> set copied_tables. turns old new u (F u) (G u)"
  shows "rk_does tb (\<lambda>_. True) (\<lambda>T. rolling F G {} T \<and> assets_altered T oa na) (rollback_step env force) (\<lambda>_. restored_all G oa)"
proof -
  let ?P = "\<lambda>T. rolling F G {} T \<and> assets_altered T oa na" and ?R = "restored_all G oa"
  have locals: "\<forall>u \<in> set copied_tables. local_to u (F u) \<and> local_to u (G u)"
    using turns turns_local by blast
  have R: "of_protected ?R" by (rule restored_all_protected) (use locals in blast)
  have "distinct copied_tables" by (simp add: copied_tables_def)
  from restore_tables_does [OF laws turns this, of "{}"]
  have tables: "rk_does tb (\<lambda>_. True) (rolling F G {}) (rk_each (restore_table env) copied_tables) (\<lambda>_. rolling F G (set copied_tables))"
    by simp
  have restored: "rk_does tb (\<lambda>_. True) ?P (rk_each (restore_table env) copied_tables) (\<lambda>_ T. rolling F G (set copied_tables) T \<and> assets_altered T oa na)"
    by (rule rk_does_conj [OF tables restore_keeps_assets [OF laws]])
  have assets: "rk_does tb (\<lambda>_. True) (\<lambda>T. rolling F G (set copied_tables) T \<and> assets_altered T oa na) (restore_assets env) (\<lambda>_. ?R)"
    by (rule rk_does_conseq [OF restore_assets_does [OF laws rolling_of_copies [OF locals]]]) (auto simp: rolling_def restored_all_def)
  have stops: "rk_does tb (\<lambda>_. True) ?R (rk_each (\<lambda>(mv, q). rk_write env (StopView mv)) mvs) (\<lambda>_. ?R)" for mvs :: "(string \<times> string) list"
    by (rule rk_does_each) (auto simp: touches_def intro!: view_write_does [OF laws R])
  have finish: "rk_does tb (\<lambda>_. True) ?R (rk_bind (rk_log env row) (\<lambda>_. rk_return ls)) (\<lambda>_. ?R)" for row and ls :: "string list"
    by (rule rk_does_bind [OF rk_does_log [where Q = "\<lambda>_. ?R"]]) (simp_all add: rk_does_return)
  have views: "rk_does tb (\<lambda>_. True) ?R
     (rk_bind (captured_mvs env) (\<lambda>mvs. rk_bind (captured_views env) (\<lambda>views.
        rk_bind (replace_mvs env (map snd mvs) (map (\<lambda>(n, q). or_replace q) views)) (\<lambda>_.
        rk_bind (rk_each (\<lambda>(mv, q). rk_write env (StopView mv)) mvs) (\<lambda>_. rk_bind (settle_views env) (\<lambda>_.
        rk_bind (rk_log env (row mvs views)) (\<lambda>_. rk_return (ls mvs views)))))))) (\<lambda>_. ?R)"
    for row and ls :: "(string \<times> string) list \<Rightarrow> (string \<times> string) list \<Rightarrow> string list"
    by (intro rk_does_bind [OF captured_does(1) [OF apart]] rk_does_pure rk_does_bind [OF captured_does(2) [OF apart]]
        rk_does_bind [OF replace_mvs_does [OF laws R apart]] rk_does_bind [OF stops] rk_does_bind [OF settle_views_does] finish) auto
  have body: "rk_does tb (\<lambda>_. True) ?P
     (if b then refuse e else rk_bind (rk_each (restore_table env) copied_tables) (\<lambda>restored. rk_bind (restore_assets env) (\<lambda>assets.
        rk_bind (captured_mvs env) (\<lambda>mvs. rk_bind (captured_views env) (\<lambda>views.
        rk_bind (replace_mvs env (map snd mvs) (map (\<lambda>(n, q). or_replace q) views)) (\<lambda>_.
        rk_bind (rk_each (\<lambda>(mv, q). rk_write env (StopView mv)) mvs) (\<lambda>_. rk_bind (settle_views env) (\<lambda>_.
        rk_bind (rk_log env (row restored assets mvs views)) (\<lambda>_. rk_return (ls restored assets mvs views)))))))))) (\<lambda>_. ?R)"
    for b e row and ls :: "string list list \<Rightarrow> string list \<Rightarrow> (string \<times> string) list \<Rightarrow> (string \<times> string) list \<Rightarrow> string list"
    by (intro rk_does_if rk_does_fail rk_does_bind [OF restored] rk_does_bind [OF assets] views) simp
  show ?thesis
    unfolding rollback_step_def Let_def
  proof (rule rk_does_bind [OF last_logged_does], simp)
    fix prev
    show "rk_does tb (\<lambda>_. True) ?P
       (case prev of None \<Rightarrow> refuse NothingToRollBack
        | Some r \<Rightarrow> rk_bind (post_swap_rows env (lr_from r) (lr_to r)) (\<lambda>lost. if lost \<noteq> [] \<and> \<not> force then refuse (LosesRows lost)
            else rk_bind (rk_each (restore_table env) copied_tables) (\<lambda>restored. rk_bind (restore_assets env) (\<lambda>assets.
              rk_bind (captured_mvs env) (\<lambda>mvs. rk_bind (captured_views env) (\<lambda>views.
              rk_bind (replace_mvs env (map snd mvs) (map (\<lambda>(n, q). or_replace q) views)) (\<lambda>_.
              rk_bind (rk_each (\<lambda>(mv, q). rk_write env (StopView mv)) mvs) (\<lambda>_. rk_bind (settle_views env) (\<lambda>_.
              rk_bind (rk_log env ((log_row_of ''rollback'' ''ok'')\<lparr>lr_detail := join_text ''; '' (concat restored @ assets @
                 [show_nat (length mvs) @ '' MVs re-created from the capture and STOPPED; '' @ show_nat (length views) @ '' views''])\<rparr>)) (\<lambda>_.
              rk_return (concat restored @ assets @
                 [show_nat (length mvs) @ '' MVs re-created from the capture and STOPPED; '' @ show_nat (length views) @ '' views'']))))))))))) (\<lambda>_. ?R)"
      by (cases prev) (simp_all only: option.case, rule rk_does_fail, simp, rule rk_does_bind [OF post_swap_rows_does], rule body)
  qed
qed

text \<open>
  C22: Rolling back undoes a swap: from tables each of which is staged or swapped, and an altered assets table,
  a rollback that returns leaves every table staged as before the swap and the unaltered assets table live,
  whatever views it drops and creates. Assumed: no view, present, captured or made by a captured definition, has
  the name of a migrated table or of one of its copies.
\<close>

theorem rollback_restores_the_tables:
  assumes "table_laws env tb" and "rk_execute env" and "views_apart env" and "assets_altered (tb (rs_db st)) old_assets new_assets"
    and "\<forall>t \<in> set copied_tables. staged (tb (rs_db st)) old new t \<or> swapped (tb (rs_db st)) old new t"
    and "rollback_step env force st = Inr (ls, st')"
  shows "(\<forall>t \<in> set copied_tables. staged (tb (rs_db st')) old new t) \<and> tb (rs_db st') ''assets'' = Some (old_assets, Some ''UInt32'')"
proof -
  let ?T = "tb (rs_db st)"
  define F where "F t = (if swapped ?T old new t then (\<lambda>T. swapped T old new t) else (\<lambda>T. staged T old new t))" for t
  have turns: "\<forall>u \<in> set copied_tables. turns old new u (F u) (\<lambda>T. staged T old new u)"
    by (simp add: turns_def F_def)
  have "rolling F (\<lambda>t T. staged T old new t) {} ?T"
    using assms(5) by (auto simp: rolling_def F_def)
  then show ?thesis
    using rk_does_Inr [OF rollback_does [OF assms(1-3) turns] assms(6)] assms(4) by (simp add: restored_all_def)
qed

text \<open>A rollback that stopped between its two statements is not taken up by the next one, and no swap accepts its table.\<close>

lemma interrupted_rollback_is_not_resumed:
  assumes "table_laws env tb" and "rk_execute env" and "views_apart env" and "assets_altered (tb (rs_db st)) old_assets new_assets"
    and "\<forall>u \<in> set copied_tables. staged (tb (rs_db st)) old new u \<or> unwound (tb (rs_db st)) old new u"
    and "t \<in> set copied_tables" and "unwound (tb (rs_db st)) old new t" and "rollback_step env force st = Inr (ls, st')"
  shows "unwound (tb (rs_db st')) old new t"
proof -
  let ?T = "tb (rs_db st)"
  define F where "F t = (if unwound ?T old new t then (\<lambda>T. unwound T old new t) else (\<lambda>T. staged T old new t))" for t
  have turns: "\<forall>u \<in> set copied_tables. turns old new u (F u) (F u)"
    by (simp add: turns_def F_def)
  have "rolling F F {} ?T"
    using assms(5) by (auto simp: rolling_def F_def)
  then have "restored_all F old_assets (tb (rs_db st'))"
    using rk_does_Inr [OF rollback_does [OF assms(1-3) turns] assms(8)] assms(4) by simp
  then have "F t (tb (rs_db st'))" using assms(6) by (simp add: restored_all_def)
  then show ?thesis using assms(7) by (simp add: F_def)
qed

lemma no_swap_of_an_unwound_table:
  assumes "table_laws env tb" and "unwound (tb (rs_db st)) old new t"
  shows "\<exists>e st'. swap_table env gap t st = Inl (e, st') \<and> st' = st"
proof -
  have types: "map_of x ''asset_id'' = Option.bind (tb (rs_db st) n) snd" if "rk_id_types env n (rs_db st) = Inr x" for n x
    using assms(1) that unfolding table_laws_def by blast
  show ?thesis
    using assms(2) types [of t] types [of "new_name t"]
    by (cases "rk_id_types env t (rs_db st)"; cases "rk_id_types env (new_name t) (rs_db st)")
      (auto simp: swap_table_def swap_action_of_def id_type_def rk_bind_def ask_def rk_return_def refuse_def rk_fail_def unwound_def)
qed

end
