(* ===== verification/Rekey_Returns.thy ===== *)
theory Rekey_Returns
  imports Rekey_Rollback
begin

text \<open>
  A rollback on a server that answers: it returns, whatever state the interrupted swap left the copied tables in, and so
  it reports success over a table that stands between its two statements.
\<close>

section \<open>A server that answers\<close>

text \<open>What a statement needs of the tables.\<close>

definition possible :: "rk_stmt \<Rightarrow> 'u tables \<Rightarrow> bool" where
  "possible s T = (case s of
     ExchangeTables a b \<Rightarrow> T a \<noteq> None \<and> T b \<noteq> None
   | RenameTable a b \<Rightarrow> T a \<noteq> None \<and> T b = None
   | _ \<Rightarrow> True)"

text \<open>
  Queries and log writes answer, a possible statement succeeds, a dropped table is gone, no view is running, and what was
  captured creates views inside the database.
\<close>

definition answering :: "'d rk_env \<Rightarrow> ('d \<Rightarrow> 'u tables) \<Rightarrow> bool" where
  "answering env tb \<longleftrightarrow>
     (\<forall>s d. possible s (tb d) \<longrightarrow> fst (rk_run env s d) = Inr ()) \<and>
     (\<forall>t d. tb (snd (rk_run env (DropTable t) d)) t = None) \<and>
     (\<forall>row d. fst (rk_log_write env row d) = Inr ()) \<and>
     (\<forall>d. rk_log_read env d = Inr () \<and> rk_running_views env d = Inr 0 \<and> (\<exists>n. rk_new_identities env d = Inr n) \<and> (\<exists>ns. rk_mvs env d = Inr ns)) \<and>
     (\<forall>t d. (\<exists>b. rk_exists env t d = Inr b) \<and> (\<exists>types. rk_id_types env t d = Inr types) \<and> (\<forall>n. \<exists>k. rk_rows_after env t n d = Inr k)) \<and>
     (\<forall>kind d. \<exists>xs. rk_captured env kind d = Inr xs \<and>
        (\<forall>(n, q) \<in> set xs. (kind = ''mv'' \<longrightarrow> creates_in q (rk_db env)) \<and> (kind = ''view'' \<longrightarrow> creates_in (or_replace q) (rk_db env))))"

text \<open>Nothing was written to the new tables after the swap.\<close>

definition nothing_lost :: "'d rk_env \<Rightarrow> bool" where
  "nothing_lost env \<longleftrightarrow> (\<forall>d. rk_new_identities env d = Inr 0 \<and> (\<forall>t n. rk_rows_after env t n d = Inr 0))"

lemma answering_run: "answering env tb \<Longrightarrow> possible s (tb d) \<Longrightarrow> fst (rk_run env s d) = Inr ()"
  and answering_drop: "answering env tb \<Longrightarrow> tb (snd (rk_run env (DropTable t) d)) t = None"
  and answering_log: "answering env tb \<Longrightarrow> fst (rk_log_write env row d) = Inr ()"
  and answering_read: "answering env tb \<Longrightarrow> rk_log_read env d = Inr ()"
  and answering_running: "answering env tb \<Longrightarrow> rk_running_views env d = Inr 0"
  and answering_new: "answering env tb \<Longrightarrow> \<exists>n. rk_new_identities env d = Inr n"
  and answering_mvs: "answering env tb \<Longrightarrow> \<exists>ns. rk_mvs env d = Inr ns"
  and answering_exists: "answering env tb \<Longrightarrow> \<exists>b. rk_exists env t d = Inr b"
  and answering_types: "answering env tb \<Longrightarrow> \<exists>types. rk_id_types env t d = Inr types"
  and answering_rows: "answering env tb \<Longrightarrow> \<exists>k. rk_rows_after env t n d = Inr k"
  and answering_captured: "answering env tb \<Longrightarrow> \<exists>xs. rk_captured env kind d = Inr xs \<and>
        (\<forall>(n, q) \<in> set xs. (kind = ''mv'' \<longrightarrow> creates_in q (rk_db env)) \<and> (kind = ''view'' \<longrightarrow> creates_in (or_replace q) (rk_db env)))"
  by (simp_all only: answering_def simp_thms)

section \<open>Programs that return\<close>

definition rk_total :: "('d \<Rightarrow> 'u tables) \<Rightarrow> ('u tables \<Rightarrow> bool) \<Rightarrow> ('d, 'a) rk_prog \<Rightarrow> ('a \<Rightarrow> 'u tables \<Rightarrow> bool) \<Rightarrow> bool" where
  "rk_total tb P m Q \<longleftrightarrow> (\<forall>st. P (tb (rs_db st)) \<longrightarrow> (\<exists>x st'. m st = Inr (x, st') \<and> Q x (tb (rs_db st'))))"

lemma rk_totalD: "rk_total tb P m Q \<Longrightarrow> P (tb (rs_db st)) \<Longrightarrow> \<exists>x st'. m st = Inr (x, st') \<and> Q x (tb (rs_db st'))"
  by (simp add: rk_total_def)

lemma total_conseq: "rk_total tb P m Q \<Longrightarrow> (\<And>T. P' T \<Longrightarrow> P T) \<Longrightarrow> (\<And>x T. Q x T \<Longrightarrow> Q' x T) \<Longrightarrow> rk_total tb P' m Q'"
  unfolding rk_total_def by blast

lemma total_bind: "rk_total tb P m Q \<Longrightarrow> (\<And>x. rk_total tb (Q x) (f x) R) \<Longrightarrow> rk_total tb P (rk_bind m f) R"
  unfolding rk_total_def rk_bind_def by (fastforce simp: rbind_def)

lemma total_return: "(\<And>T. P T \<Longrightarrow> Q x T) \<Longrightarrow> rk_total tb P (rk_return x) Q"
  by (simp add: rk_total_def rk_return_def)

lemma total_if: "(b \<Longrightarrow> rk_total tb P m Q) \<Longrightarrow> (\<not> b \<Longrightarrow> rk_total tb P m' Q) \<Longrightarrow> rk_total tb P (if b then m else m') Q"
  by simp

lemma total_pure: "(b \<Longrightarrow> rk_total tb P m Q) \<Longrightarrow> rk_total tb (\<lambda>T. b \<and> P T) m Q"
  by (cases b) (simp_all add: rk_total_def)

lemma total_ask: "(\<And>d. \<exists>x. q d = Inr x \<and> Q' x) \<Longrightarrow> rk_total tb P (ask q) (\<lambda>x T. Q' x \<and> P T)"
  unfolding rk_total_def ask_def by (metis sum.case(2))

text \<open>A program that returns also has what is proved of it when it does.\<close>

lemma total_and:
  fixes m :: "('d, 'a) rk_prog"
  shows "rk_total tb P m Q \<Longrightarrow> rk_does tb I P' m Q' \<Longrightarrow> rk_total tb (\<lambda>T. P T \<and> P' T) m (\<lambda>x T. Q x T \<and> Q' x T)"
  unfolding rk_total_def
proof (intro allI impI)
  fix st :: "'d rk_state"
  assume m: "\<forall>st. P (tb (rs_db st)) \<longrightarrow> (\<exists>x st'. m st = Inr (x, st') \<and> Q x (tb (rs_db st')))" and does: "rk_does tb I P' m Q'"
    and st: "P (tb (rs_db st)) \<and> P' (tb (rs_db st))"
  obtain x st' where "m st = Inr (x, st')" "Q x (tb (rs_db st'))" using m st by blast
  then show "\<exists>x st'. m st = Inr (x, st') \<and> Q x (tb (rs_db st')) \<and> Q' x (tb (rs_db st'))"
    using rk_does_Inr [OF does] st by blast
qed

lemma total_log:
  assumes "answering env tb"
  shows "rk_total tb P (rk_log env row) (\<lambda>_. P)"
proof -
  have "\<exists>landed. rk_log_write env row d = (Inr (), landed)" for d
    using answering_log [OF assms, of row d] by (cases "rk_log_write env row d") simp
  then obtain landed where "\<And>d. rk_log_write env row d = (Inr (), landed d)" by metis
  then have "\<exists>st'. rk_log env row st = Inr ((), st') \<and> rs_db st' = rs_db st" for st
    by (simp add: rk_log_def)
  then show ?thesis unfolding rk_total_def by metis
qed

lemma total_write:
  fixes env :: "'d rk_env"
  assumes "answering env tb" and "\<And>T. P T \<Longrightarrow> possible s T"
    and "\<And>d. P (tb d) \<Longrightarrow> fst (rk_run env s d) = Inr () \<Longrightarrow> Q () (tb (snd (rk_run env s d)))" and "rk_execute env"
  shows "rk_total tb P (rk_write env s) Q"
  unfolding rk_total_def
proof (intro allI impI)
  fix st :: "'d rk_state"
  assume P: "P (tb (rs_db st))"
  obtain x d where run: "rk_run env s (rs_db st) = (x, d)" by (cases "rk_run env s (rs_db st)")
  have "fst (rk_run env s (rs_db st)) = Inr ()" by (rule answering_run [OF assms(1)]) (use P assms(2) in blast)
  then show "\<exists>x st'. rk_write env s st = Inr (x, st') \<and> Q x (tb (rs_db st'))"
    using assms(3) [OF P] assms(4) by (simp add: rk_write_def run)
qed

lemma total_each: "(\<And>x. x \<in> set xs \<Longrightarrow> rk_total tb P (f x) (\<lambda>_. P)) \<Longrightarrow> rk_total tb P (rk_each f xs) (\<lambda>_. P)"
proof (induction xs)
  case (Cons x xs)
  have "rk_total tb P (rk_bind (rk_each f xs) (\<lambda>ys. rk_return (y # ys))) (\<lambda>_. P)" for y
    by (rule total_bind [OF Cons.IH]) (use Cons.prems in \<open>auto intro: total_return\<close>)
  then show ?case unfolding rk_each.simps by (intro total_bind [where Q = "\<lambda>_. P", OF Cons.prems]) simp_all
qed (simp add: total_return)

lemma total_id_type: "answering env tb \<Longrightarrow> rk_total tb P (id_type env t) (\<lambda>_. P)"
  unfolding id_type_def
  by (rule total_bind [OF total_ask [where Q' = "\<lambda>_. True"]]) (auto dest: answering_types intro: total_return)

lemma total_swapped_out:
  assumes "table_laws env tb" and "answering env tb"
  shows "rk_total tb P (swapped_out env t) (\<lambda>b T. P T \<and> (b \<longleftrightarrow> Option.bind (T t) snd = Some ''UInt64'' \<and> T (pre_name t) \<noteq> None))"
proof -
  have "rk_total tb P (swapped_out env t) (\<lambda>_. P)"
    unfolding swapped_out_def
    by (intro total_bind [OF total_id_type [OF assms(2)]] total_if total_return)
      (auto intro!: total_conseq [OF total_ask [where Q' = "\<lambda>_. True"]] answering_exists [OF assms(2)])
  from total_and [OF this swapped_out_does [OF assms(1), of P t]] show ?thesis by (rule total_conseq) auto
qed

text \<open>A statement that answered had its effect.\<close>

lemma lawful_move: "table_laws env tb \<Longrightarrow> fst (rk_run env s d) = Inr () \<Longrightarrow> moves s (tb d) (tb (snd (rk_run env s d)))"
  unfolding table_laws_def by (metis prod.collapse)

section \<open>The steps of a rollback\<close>

lemma restore_table_total:
  assumes laws: "table_laws env tb" "rk_execute env" "answering env tb" and turns: "\<forall>u \<in> set copied_tables. turns old new u (F u) (G u)"
    and t: "t \<in> set copied_tables" "t \<notin> S"
  shows "rk_total tb (rolling F G S) (restore_table env t) (\<lambda>_. rolling F G (insert t S))"
proof -
  let ?out = "\<lambda>T. Option.bind (T t) snd = Some ''UInt64'' \<and> T (pre_name t) \<noteq> None"
  have swapped: "swapped T old new t" if "rolling F G S T" "?out T" for T
  proof -
    have "F t T" using that(1) t by (simp add: rolling_def)
    moreover have "turns old new t (F t) (G t)" using turns t(1) by blast
    ultimately show ?thesis
      using that(2) by (auto simp: turns_def staged_def halfway_def unwound_def)
  qed
  have one: "rk_total tb (\<lambda>T. swapped T old new t) (rk_write env (ExchangeTables t (pre_name t))) (\<lambda>_ T. unwound T old new t)"
  proof (rule total_write [OF laws(3) _ _ laws(2)])
    show "swapped T old new t \<Longrightarrow> possible (ExchangeTables t (pre_name t)) T" for T
      by (simp add: possible_def swapped_def)
    show "unwound (tb (snd (rk_run env (ExchangeTables t (pre_name t)) d))) old new t"
      if "swapped (tb d) old new t" "fst (rk_run env (ExchangeTables t (pre_name t)) d) = Inr ()" for d
      using exchange_swapped(1) [OF that(1)] lawful_move [OF laws(1) that(2)] by blast
  qed
  have two: "rk_total tb (\<lambda>T. unwound T old new t) (rk_write env (RenameTable (pre_name t) (new_name t))) (\<lambda>_ _. True)"
    by (rule total_write [OF laws(3) _ _ laws(2)]) (simp_all add: possible_def unwound_def)
  have "rk_total tb (rolling F G S) (restore_table env t) (\<lambda>_ _. True)"
    unfolding restore_table_def
  proof (rule total_bind [OF total_swapped_out [OF laws(1,3)]], rule total_if)
    fix out
    assume out
    have "rk_total tb (\<lambda>T. swapped T old new t) (rk_bind (rk_write env (ExchangeTables t (pre_name t)))
        (\<lambda>_. rk_bind (rk_write env (RenameTable (pre_name t) (new_name t))) (\<lambda>_. rk_return [t @ '': restored'']))) (\<lambda>_ _. True)"
      by (rule total_bind [OF one], rule total_bind [OF two], rule total_return, rule TrueI)
    then show "rk_total tb (\<lambda>T. rolling F G S T \<and> (out \<longleftrightarrow> ?out T)) (rk_bind (rk_write env (ExchangeTables t (pre_name t)))
        (\<lambda>_. rk_bind (rk_write env (RenameTable (pre_name t) (new_name t))) (\<lambda>_. rk_return [t @ '': restored'']))) (\<lambda>_ _. True)"
      by (rule total_conseq) (use \<open>out\<close> swapped in blast)+
  qed (simp add: total_return)
  from total_and [OF this restore_table_does [OF laws(1,2) turns t]] show ?thesis by (rule total_conseq) auto
qed

lemma restore_tables_total:
  assumes laws: "table_laws env tb" "rk_execute env" "answering env tb" and turns: "\<forall>u \<in> set copied_tables. turns old new u (F u) (G u)"
    and ts: "distinct ts" "set ts \<subseteq> set copied_tables" "set ts \<inter> S = {}"
  shows "rk_total tb (rolling F G S) (rk_each (restore_table env) ts) (\<lambda>_ _. True)"
  using ts
proof (induction ts arbitrary: S)
  case Nil
  then show ?case by (simp add: total_return)
next
  case (Cons t ts)
  have "rk_total tb (rolling F G (insert t S)) (rk_bind (rk_each (restore_table env) ts) (\<lambda>ys. rk_return (y # ys))) (\<lambda>_ _. True)" for y
    by (rule total_bind [OF Cons.IH]) (use Cons.prems in \<open>auto intro: total_return\<close>)
  moreover have "rk_total tb (rolling F G S) (restore_table env t) (\<lambda>_. rolling F G (insert t S))"
    by (rule restore_table_total [OF laws turns]) (use Cons.prems in auto)
  ultimately show ?case unfolding rk_each.simps by (simp add: total_bind)
qed

lemma restore_assets_total:
  assumes laws: "table_laws env tb" "rk_execute env" "answering env tb"
  shows "rk_total tb (\<lambda>T. assets_altered T oa na) (restore_assets env) (\<lambda>_ _. True)"
proof -
  have names: "''assets'' \<noteq> assets_pre" "''assets'' \<noteq> assets_new" "assets_pre \<noteq> assets_new"
    by (simp_all add: assets_pre_def assets_new_def pre_name_def new_name_def)
  let ?A = "\<lambda>T. assets_altered T oa na"
  have drop: "rk_total tb ?A (rk_write env (DropTable assets_new)) (\<lambda>_ T. ?A T \<and> T assets_new = None)"
  proof (rule total_write [OF laws(3) _ _ laws(2)])
    show "?A (tb (snd (rk_run env (DropTable assets_new) d))) \<and> tb (snd (rk_run env (DropTable assets_new) d)) assets_new = None"
      if "?A (tb d)" "fst (rk_run env (DropTable assets_new) d) = Inr ()" for d
      using lawful_move [OF laws(1) that(2)] that(1) answering_drop [OF laws(3), of assets_new d] names
      by (simp add: moves_def touches_def assets_altered_def)
  qed (simp add: possible_def)
  have exchange: "rk_total tb (\<lambda>T. ?A T \<and> T assets_new = None) (rk_write env (ExchangeTables ''assets'' assets_pre))
      (\<lambda>_ T. T assets_pre \<noteq> None \<and> T assets_new = None)"
  proof (rule total_write [OF laws(3) _ _ laws(2)])
    show "tb (snd (rk_run env (ExchangeTables ''assets'' assets_pre) d)) assets_pre \<noteq> None \<and>
        tb (snd (rk_run env (ExchangeTables ''assets'' assets_pre) d)) assets_new = None"
      if "?A (tb d) \<and> tb d assets_new = None" "fst (rk_run env (ExchangeTables ''assets'' assets_pre) d) = Inr ()" for d
      using lawful_move [OF laws(1) that(2)] that(1) names by (simp add: moves_def assets_altered_def)
  qed (simp add: possible_def assets_altered_def)
  have rename: "rk_total tb (\<lambda>T. T assets_pre \<noteq> None \<and> T assets_new = None) (rk_write env (RenameTable assets_pre assets_new)) (\<lambda>_ _. True)"
    and merges: "rk_total tb (\<lambda>_. True) (rk_write env (StartMerges ''assets'')) (\<lambda>_ _. True)"
    by (rule total_write [OF laws(3) _ _ laws(2)]; simp add: possible_def)+
  show ?thesis
    unfolding restore_assets_def
  proof (rule total_bind [OF total_swapped_out [OF laws(1,3)]], rule total_if)
    fix out
    have "rk_total tb ?A (rk_bind (rk_write env (DropTable assets_new)) (\<lambda>_. rk_bind (rk_write env (ExchangeTables ''assets'' assets_pre))
        (\<lambda>_. rk_bind (rk_write env (RenameTable assets_pre assets_new)) (\<lambda>_. rk_bind (rk_write env (StartMerges ''assets''))
        (\<lambda>_. rk_return [''assets: restored'']))))) (\<lambda>_ _. True)"
      by (rule total_bind [OF drop], rule total_bind [OF exchange], rule total_bind [OF rename], rule total_bind [OF merges], rule total_return, rule TrueI)
    then show "rk_total tb (\<lambda>T. ?A T \<and> (out \<longleftrightarrow> Option.bind (T ''assets'') snd = Some ''UInt64'' \<and> T (pre_name ''assets'') \<noteq> None))
      (rk_bind (rk_write env (DropTable assets_new)) (\<lambda>_. rk_bind (rk_write env (ExchangeTables ''assets'' assets_pre))
        (\<lambda>_. rk_bind (rk_write env (RenameTable assets_pre assets_new)) (\<lambda>_. rk_bind (rk_write env (StartMerges ''assets''))
        (\<lambda>_. rk_return [''assets: restored'']))))) (\<lambda>_ _. True)"
      by (rule total_conseq) auto
  qed (simp add: total_return)
qed

section \<open>The views\<close>

lemma view_write_total:
  assumes "rk_execute env" and "answering env tb" and "\<forall>a b. s \<noteq> ExchangeTables a b \<and> s \<noteq> RenameTable a b"
  shows "rk_total tb (\<lambda>_. True) (rk_write env s) (\<lambda>_ _. True)"
  by (rule total_write [OF assms(2) _ _ assms(1)]) (use assms(3) in \<open>cases s; simp add: possible_def\<close>)+

lemma captured_total:
  assumes "answering env tb"
  shows "rk_total tb (\<lambda>_. True) (captured_mvs env) (\<lambda>mvs _. (\<forall>s \<in> set (map snd mvs). creates_in s (rk_db env)) \<and> True)"
    and "rk_total tb (\<lambda>_. True) (captured_views env) (\<lambda>views _. (\<forall>s \<in> set (map (\<lambda>(n, q). or_replace q) views). creates_in s (rk_db env)) \<and> True)"
proof -
  have mvs: "\<exists>xs. rk_captured env ''mv'' d = Inr xs \<and> (\<forall>(n, q) \<in> set xs. creates_in q (rk_db env))"
    and views: "\<exists>xs. rk_captured env ''view'' d = Inr xs \<and> (\<forall>(n, q) \<in> set xs. creates_in (or_replace q) (rk_db env))" for d
    using answering_captured [OF assms, of "''mv''" d] answering_captured [OF assms, of "''view''" d] by auto
  show "rk_total tb (\<lambda>_. True) (captured_mvs env) (\<lambda>mvs _. (\<forall>s \<in> set (map snd mvs). creates_in s (rk_db env)) \<and> True)"
    unfolding captured_mvs_def by (rule total_bind [OF total_ask [OF mvs]]) (auto intro!: total_return)
  show "rk_total tb (\<lambda>_. True) (captured_views env) (\<lambda>views _. (\<forall>s \<in> set (map (\<lambda>(n, q). or_replace q) views). creates_in s (rk_db env)) \<and> True)"
    unfolding captured_views_def by (rule total_bind [OF total_ask [OF views]]) (auto intro!: total_return)
qed

lemma replace_mvs_total:
  assumes "rk_execute env" and "answering env tb" and "\<forall>s \<in> set (mvs @ views). creates_in s (rk_db env)"
  shows "rk_total tb (\<lambda>_. True) (replace_mvs env mvs views) (\<lambda>_ _. True)"
proof -
  have none: "find (\<lambda>s. \<not> creates_in s (rk_db env)) (mvs @ views) = None" using assms(3) by (auto simp: find_None_iff)
  have drops: "rk_total tb (\<lambda>_. True) (rk_each (\<lambda>mv. rk_write env (DropView mv)) ns) (\<lambda>_ _. True)" for ns
    by (rule total_each, rule view_write_total [OF assms(1,2)]) simp
  have creates: "rk_total tb (\<lambda>_. True) (rk_each (\<lambda>s. rk_write env (CreateText s)) ss) (\<lambda>_ _. True)" for ss
    by (rule total_each, rule view_write_total [OF assms(1,2)]) simp
  have asks: "rk_total tb (\<lambda>_. True) (ask (rk_mvs env)) (\<lambda>_ _. True)" "rk_total tb (\<lambda>_. True) (ask (rk_captured env ''mv'')) (\<lambda>_ _. True)"
    by (rule total_conseq [OF total_ask [where Q' = "\<lambda>_. True" and P = "\<lambda>_. True"]];
        use answering_mvs [OF assms(2)] answering_captured [OF assms(2), of "''mv''"] in blast)+
  show ?thesis
    unfolding replace_mvs_def none option.case
    by (rule total_bind [OF asks(1)], rule total_bind [OF asks(2)], rule total_bind [OF drops], rule total_bind [OF creates],
        rule total_return, rule TrueI)
qed

lemma settle_views_total:
  assumes "answering env tb"
  shows "rk_total tb (\<lambda>_. True) (settle_views env) (\<lambda>_ _. True)"
  using answering_running [OF assms] by (simp add: rk_total_def settle_views_def rk_return_def rk_bind_def ask_def)

lemma lost_total:
  assumes "answering env tb" and "force \<or> nothing_lost env"
  shows "rk_total tb P (post_swap_rows env a b) (\<lambda>lost T. (lost = [] \<or> force) \<and> P T)"
proof -
  obtain types where types: "\<And>t d. rk_id_types env t d = Inr (types t d)" using answering_types [OF assms(1)] by metis
  obtain there where there: "\<And>t d. rk_exists env t d = Inr (there t d)" using answering_exists [OF assms(1)] by metis
  obtain rows where rows: "\<And>t n d. rk_rows_after env t n d = Inr (rows t n d)" using answering_rows [OF assms(1)] by metis
  obtain fresh where fresh: "\<And>d. rk_new_identities env d = Inr (fresh d)" using answering_new [OF assms(1)] by metis
  have quiet: "force \<or> (\<forall>t n d. rows t n d = 0) \<and> (\<forall>d. fresh d = 0)"
    using assms(2) rows fresh by (auto simp: nothing_lost_def)
  then show ?thesis
    by (auto simp: rk_total_def post_swap_rows_def rows_after_def id_type_def rk_bind_def rk_return_def ask_def types there rows fresh)
qed

section \<open>The rollback\<close>

lemma rollback_total:
  fixes env :: "'d rk_env"
  assumes laws: "table_laws env tb" "rk_execute env" "answering env tb" and lost: "force \<or> nothing_lost env"
    and turns: "\<forall>u \<in> set copied_tables. turns old new u (F u) (G u)"
    and logged: "newest (\<lambda>r. lr_step r = ''swap'') (since_last ''rollback'' (rs_log st)) = Some r"
    and start: "rolling F G {} (tb (rs_db st))" "assets_altered (tb (rs_db st)) oa na"
  shows "\<exists>ls st'. rollback_step env force st = Inr (ls, st')"
proof -
  let ?P = "\<lambda>T. rolling F G {} T \<and> assets_altered T oa na"
  have "distinct copied_tables" by (simp add: copied_tables_def)
  from restore_tables_total [OF laws turns this, of "{}"]
  have tables: "rk_total tb (rolling F G {}) (rk_each (restore_table env) copied_tables) (\<lambda>_ _. True)" by simp
  have restored: "rk_total tb ?P (rk_each (restore_table env) copied_tables) (\<lambda>_ T. assets_altered T oa na)"
    by (rule total_conseq [OF total_and [OF tables restore_keeps_assets [OF laws(1,2)]]]) auto
  have stops: "rk_total tb (\<lambda>_. True) (rk_each (\<lambda>(mv, q). rk_write env (StopView mv)) mvs) (\<lambda>_ _. True)" for mvs :: "(string \<times> string) list"
    by (rule total_each) (auto intro!: view_write_total [OF laws(2,3)])
  have finish: "rk_total tb (\<lambda>_. True) (rk_bind (rk_log env row) (\<lambda>_. rk_return ls)) (\<lambda>_ _. True)" for row and ls :: "string list"
    by (rule total_bind [OF total_log [OF laws(3)]], rule total_return, rule TrueI)
  have views: "rk_total tb (\<lambda>_. True)
     (rk_bind (captured_mvs env) (\<lambda>mvs. rk_bind (captured_views env) (\<lambda>views.
        rk_bind (replace_mvs env (map snd mvs) (map (\<lambda>(n, q). or_replace q) views)) (\<lambda>_.
        rk_bind (rk_each (\<lambda>(mv, q). rk_write env (StopView mv)) mvs) (\<lambda>_. rk_bind (settle_views env) (\<lambda>_.
        rk_bind (rk_log env (row mvs views)) (\<lambda>_. rk_return (ls mvs views)))))))) (\<lambda>_ _. True)"
    for row and ls :: "(string \<times> string) list \<Rightarrow> (string \<times> string) list \<Rightarrow> string list"
  proof (rule total_bind [OF captured_total(1) [OF laws(3)]], rule total_pure, rule total_bind [OF captured_total(2) [OF laws(3)]], rule total_pure)
    fix mvs views :: "(string \<times> string) list"
    assume "\<forall>s \<in> set (map snd mvs). creates_in s (rk_db env)" "\<forall>s \<in> set (map (\<lambda>(n, q). or_replace q) views). creates_in s (rk_db env)"
    then have texts: "\<forall>s \<in> set (map snd mvs @ map (\<lambda>(n, q). or_replace q) views). creates_in s (rk_db env)" by auto
    show "rk_total tb (\<lambda>_. True)
       (rk_bind (replace_mvs env (map snd mvs) (map (\<lambda>(n, q). or_replace q) views)) (\<lambda>_.
        rk_bind (rk_each (\<lambda>(mv, q). rk_write env (StopView mv)) mvs) (\<lambda>_. rk_bind (settle_views env) (\<lambda>_.
        rk_bind (rk_log env (row mvs views)) (\<lambda>_. rk_return (ls mvs views)))))) (\<lambda>_ _. True)"
      by (rule total_bind [OF replace_mvs_total [OF laws(2,3) texts]], rule total_bind [OF stops],
          rule total_bind [OF settle_views_total [OF laws(3)]], rule finish)
  qed
  have assets: "rk_total tb (\<lambda>T. assets_altered T oa na) (restore_assets env) (\<lambda>_ _. True)"
    by (rule restore_assets_total [OF laws])
  have body: "rk_total tb ?P
     (rk_bind (post_swap_rows env a b) (\<lambda>lost. if lost \<noteq> [] \<and> \<not> force then refuse (LosesRows lost)
      else rk_bind (rk_each (restore_table env) copied_tables) (\<lambda>restored. rk_bind (restore_assets env) (\<lambda>assets.
        rk_bind (captured_mvs env) (\<lambda>mvs. rk_bind (captured_views env) (\<lambda>views.
        rk_bind (replace_mvs env (map snd mvs) (map (\<lambda>(n, q). or_replace q) views)) (\<lambda>_.
        rk_bind (rk_each (\<lambda>(mv, q). rk_write env (StopView mv)) mvs) (\<lambda>_. rk_bind (settle_views env) (\<lambda>_.
        rk_bind (rk_log env (row restored assets mvs views)) (\<lambda>_. rk_return (ls restored assets mvs views))))))))))) (\<lambda>_ _. True)"
    for a b row and ls :: "string list list \<Rightarrow> string list \<Rightarrow> (string \<times> string) list \<Rightarrow> (string \<times> string) list \<Rightarrow> string list"
  proof (rule total_bind [OF lost_total [OF laws(3) lost]], rule total_pure)
    fix lost :: "string list"
    assume "lost = [] \<or> force"
    then have no: "\<not> (lost \<noteq> [] \<and> \<not> force)" by blast
    show "rk_total tb ?P (if lost \<noteq> [] \<and> \<not> force then refuse (LosesRows lost)
      else rk_bind (rk_each (restore_table env) copied_tables) (\<lambda>restored. rk_bind (restore_assets env) (\<lambda>assets.
        rk_bind (captured_mvs env) (\<lambda>mvs. rk_bind (captured_views env) (\<lambda>views.
        rk_bind (replace_mvs env (map snd mvs) (map (\<lambda>(n, q). or_replace q) views)) (\<lambda>_.
        rk_bind (rk_each (\<lambda>(mv, q). rk_write env (StopView mv)) mvs) (\<lambda>_. rk_bind (settle_views env) (\<lambda>_.
        rk_bind (rk_log env (row restored assets mvs views)) (\<lambda>_. rk_return (ls restored assets mvs views)))))))))) (\<lambda>_ _. True)"
      unfolding if_not_P [OF no] by (rule total_bind [OF restored], rule total_bind [OF assets], rule views)
  qed
  have "last_logged env ''swap'' st = Inr (Some r, st)"
    using logged answering_read [OF laws(3)] by (simp add: last_logged_def read_log_def rk_bind_def rk_return_def ask_def)
  then have step: "rollback_step env force st = rk_bind (post_swap_rows env (lr_from r) (lr_to r)) (\<lambda>lost. if lost \<noteq> [] \<and> \<not> force then refuse (LosesRows lost)
      else rk_bind (rk_each (restore_table env) copied_tables) (\<lambda>restored. rk_bind (restore_assets env) (\<lambda>assets.
        rk_bind (captured_mvs env) (\<lambda>mvs. rk_bind (captured_views env) (\<lambda>views.
        rk_bind (replace_mvs env (map snd mvs) (map (\<lambda>(n, q). or_replace q) views)) (\<lambda>_.
        rk_bind (rk_each (\<lambda>(mv, q). rk_write env (StopView mv)) mvs) (\<lambda>_. rk_bind (settle_views env) (\<lambda>_.
        rk_bind (rk_log env ((log_row_of ''rollback'' ''ok'')\<lparr>lr_detail := join_text ''; '' (concat restored @ assets @
             [show_nat (length mvs) @ '' MVs re-created from the capture and STOPPED; '' @ show_nat (length views) @ '' views''])\<rparr>)) (\<lambda>_.
        rk_return (concat restored @ assets @
             [show_nat (length mvs) @ '' MVs re-created from the capture and STOPPED; '' @ show_nat (length views) @ '' views''])))))))))) st"
    unfolding rollback_step_def rk_bind_def [of "last_logged env ''swap''"] Let_def by simp
  have returns: "\<exists>x st'. m st = Inr (x, st')" if "rk_total tb ?P m (\<lambda>_ _. True)" for m :: "('d, string list) rk_prog"
    using rk_totalD [OF that, of st] start by blast
  show ?thesis unfolding step by (rule returns, rule body)
qed

text \<open>
  C23: A rollback after an interrupted swap passes over the table the swap left between EXCHANGE and RENAME: on
  a server that answers its queries and statements, where no view has the name of a migrated table or a copy,
  and with no rows to lose or losing them allowed, it returns without an error, with assets back on the old
  32-bit ids, while that table still is the copy with the new 64-bit ids.
\<close>

theorem rollback_passes_over_a_half_swapped_table:
  assumes "table_laws env tb" and "rk_execute env" and "views_apart env" and "assets_altered (tb (rs_db st)) old_assets new_assets"
    and "in_swap old new (tb (rs_db st))" and "t \<in> set copied_tables" and "halfway (tb (rs_db st)) old new t"
    and "answering env tb" and "force \<or> nothing_lost env"
    and "newest (\<lambda>r. lr_step r = ''swap'') (since_last ''rollback'' (rs_log st)) \<noteq> None"
  shows "\<exists>ls st'. rollback_step env force st = Inr (ls, st') \<and> tb (rs_db st') t = Some (new t, Some ''UInt64'') \<and> tb (rs_db st') ''assets'' = Some (old_assets, Some ''UInt32'')"
proof -
  let ?T = "tb (rs_db st)"
  define F where "F t = (if swapped ?T old new t then (\<lambda>T. swapped T old new t) else if halfway ?T old new t then (\<lambda>T. halfway T old new t)
    else (\<lambda>T. staged T old new t))" for t
  define G where "G t = (if halfway ?T old new t \<and> \<not> swapped ?T old new t then (\<lambda>T. halfway T old new t) else (\<lambda>T. staged T old new t))" for t
  have turns: "\<forall>u \<in> set copied_tables. turns old new u (F u) (G u)"
    by (simp add: turns_def F_def G_def)
  have rolling: "rolling F G {} ?T"
    using assms(5) by (auto simp: rolling_def F_def in_swap_def)
  obtain r where "newest (\<lambda>r. lr_step r = ''swap'') (since_last ''rollback'' (rs_log st)) = Some r" using assms(10) by blast
  from rollback_total [OF assms(1,2,8,9) turns this rolling assms(4)]
  obtain ls st' where run: "rollback_step env force st = Inr (ls, st')" by blast
  have "restored_all G old_assets (tb (rs_db st'))"
    using rk_does_Inr [OF rollback_does [OF assms(1-3) turns] run] assms(4) rolling by simp
  moreover have "\<not> swapped ?T old new t" using assms(7) by (auto simp: halfway_def swapped_def)
  ultimately show ?thesis
    using assms(6,7) run by (auto simp: restored_all_def G_def halfway_def)
qed

end
