(* ===== verification/Rekey_Copy.thy ===== *)
theory Rekey_Copy
  imports Rekey_Swap
begin

text \<open>
  What a copy leaves in the log: while nothing else changes its source, a fill that returns leaves every partition with a
  verified last fill that describes the source as it stands.
\<close>

definition fill_row :: "table_fill \<Rightarrow> string \<Rightarrow> log_row \<Rightarrow> bool" where
  "fill_row f pid r \<longleftrightarrow> lr_step r = ''fill'' \<and> lr_source r = fi_source f \<and> lr_target r = fi_target f \<and> lr_partition r = pid"

text \<open>What the source and the layouts of two tables look like is the same in two databases.\<close>

definition same_source :: "'d rk_env \<Rightarrow> table_fill \<Rightarrow> 'd \<Rightarrow> 'd \<Rightarrow> bool" where
  "same_source env f d d' \<longleftrightarrow> (\<forall>l flt. rk_probe env f l flt d' = rk_probe env f l flt d) \<and>
     rk_partitions env (fi_source f) d' = rk_partitions env (fi_source f) d \<and>
     (\<forall>t \<in> {fi_source f, fi_target f}. rk_keys env t d' = rk_keys env t d \<and> rk_stored_columns env t d' = rk_stored_columns env t d)"

text \<open>
  Emptying and filling a partition of the target changes neither the source, nor the map, nor a layout, and of the keys of
  the target only those of that partition; a partition id occurs once.
\<close>

definition copy_laws :: "'d rk_env \<Rightarrow> table_fill \<Rightarrow> bool" where
  "copy_laws env f \<longleftrightarrow>
     (\<forall>d pid. same_source env f d (snd (rk_run env (DropPartition (fi_target f) pid) d))) \<and>
     (\<forall>d l flt q. same_source env f d (snd (rk_run env (InsertFill f l flt q) d))) \<and>
     (\<forall>d parts. rk_partitions env (fi_source f) d = Inr parts \<longrightarrow> distinct (map snd parts)) \<and>
     (\<forall>d parts l sk part pid part' pid' q.
        rk_partitions env (fi_source f) d = Inr parts \<and> rk_keys env (fi_source f) d = Inr (ly_partition_key l, sk) \<and>
        (part, pid) \<in> set parts \<and> (part', pid') \<in> set parts \<and> pid \<noteq> pid' \<longrightarrow>
        (let flt = partition_where (ly_partition_key l) part; flt' = partition_where (ly_partition_key l) part'
         in rk_target_keys env f l flt' (snd (rk_run env (DropPartition (fi_target f) pid) d)) = rk_target_keys env f l flt' d \<and>
            rk_target_keys env f l flt' (snd (rk_run env (InsertFill f l flt q) d)) = rk_target_keys env f l flt' d))"

lemma same_source_refl: "same_source env f d d"
  by (simp add: same_source_def)

lemma same_source_trans: "same_source env f d d' \<Longrightarrow> same_source env f d' d'' \<Longrightarrow> same_source env f d d''"
  by (simp add: same_source_def)

definition fingerprint_now :: "'d rk_env \<Rightarrow> table_fill \<Rightarrow> layout \<Rightarrow> string \<Rightarrow> 'd \<Rightarrow> string option" where
  "fingerprint_now env f l part d = (case rk_probe env f l (partition_where (ly_partition_key l) part) d of
     Inr (rows, hash, expected, keys) \<Rightarrow> Some (show_nat (unat rows) @ '':'' @ show_nat (unat hash)) | Inl e \<Rightarrow> None)"

definition filled :: "'d rk_env \<Rightarrow> table_fill \<Rightarrow> layout \<Rightarrow> string \<times> string \<Rightarrow> 'd rk_state \<Rightarrow> bool" where
  "filled env f l = (\<lambda>(part, pid) st. \<exists>r. newest (fill_row f pid) (rs_log st) = Some r \<and> lr_status r = ''verified'' \<and>
     fingerprint_now env f l part (rs_db st) = Some (lr_fingerprint r) \<and>
     rk_target_keys env f l (partition_where (ly_partition_key l) part) (rs_db st) = Inr (lr_expected_keys r))"

lemma rk_bind_Inr: "rk_bind m f st = Inr r \<Longrightarrow> \<exists>x st1. m st = Inr (x, st1) \<and> f x st1 = Inr r"
  by (cases "m st") (auto simp: rk_bind_def)

lemma ask_Inr: "ask q st = Inr (x, st') \<Longrightarrow> q (rs_db st) = Inr x \<and> st' = st"
  by (auto simp: ask_def split: sum.splits)

lemma read_log_Inr: "read_log env st = Inr (rows, st') \<Longrightarrow> rows = rs_log st \<and> st' = st"
  by (auto simp: read_log_def dest!: rk_bind_Inr ask_Inr)

lemma last_fill_Inr: "last_fill env f pid st = Inr (r, st') \<Longrightarrow> r = newest (fill_row f pid) (rs_log st) \<and> st' = st"
  by (auto simp: last_fill_def fill_row_def [abs_def] rk_return_def dest!: rk_bind_Inr read_log_Inr)

lemma probe_Inr: "probe env f l flt st = Inr ((fp, expected, keys), st') \<Longrightarrow>
    \<exists>rows hash. rk_probe env f l flt (rs_db st) = Inr (rows, hash, expected, keys) \<and> fp = show_nat (unat rows) @ '':'' @ show_nat (unat hash) \<and> st' = st"
  by (auto simp: probe_def rk_return_def dest!: rk_bind_Inr ask_Inr)

lemma still_filled_Inr: "still_filled env f l flt fp prev st = Inr (b, st') \<Longrightarrow> st' = st \<and>
    (b \<longrightarrow> (\<exists>r. prev = Some r \<and> lr_status r = ''verified'' \<and> lr_fingerprint r = fp \<and>
       rk_target_keys env f l flt (rs_db st) = Inr (lr_expected_keys r)))"
  by (auto simp: still_filled_def rk_return_def split: option.splits if_splits dest!: rk_bind_Inr ask_Inr)

lemma rk_write_Inr: "rk_write env s st = Inr (x, st') \<Longrightarrow> rk_execute env \<Longrightarrow> rs_db st' = snd (rk_run env s (rs_db st)) \<and> rs_log st' = rs_log st"
  by (auto simp: rk_write_def split: prod.splits sum.splits)

lemma rk_log_Inr: "rk_log env row st = Inr (x, st') \<Longrightarrow> rk_execute env \<Longrightarrow> rs_db st' = rs_db st \<and> rs_log st' = rs_log st @ [row]"
  by (auto simp: rk_log_def split: prod.splits sum.splits)

lemma newest_snoc: "newest p (rows @ [r]) = (if p r then Some r else newest p rows)"
  by (simp add: newest_def)

text \<open>One partition copied: the probes stand, and the new row is the last fill of this partition only.\<close>

lemma copy_partition_Inr:
  assumes "copy_partition env f l pid flt (fp, expected, keys) st = Inr (bad, st')" and "rk_execute env"
  shows "\<exists>r q. rs_log st' = rs_log st @ [r] \<and> fill_row f pid r \<and>
    (bad = [] \<longrightarrow> lr_status r = ''verified'' \<and> lr_fingerprint r = fp \<and> rk_target_keys env f l flt (rs_db st') = Inr (lr_expected_keys r)) \<and>
    rs_db st' = snd (rk_run env (InsertFill f l flt q) (snd (rk_run env (DropPartition (fi_target f) pid) (rs_db st))))"
proof -
  define query where "query attempts = ''rekey0139-'' @ rk_db env @ ''-'' @ fi_target f @ ''-'' @ pid @ ''-'' @ show_nat (attempts + 1)" for attempts
  define row where "row attempts written tkeys = (log_row_of ''fill'' (if written = Some expected \<and> tkeys = keys then ''verified'' else ''failed''))
     \<lparr>lr_source := fi_source f, lr_target := fi_target f, lr_partition := pid, lr_query_id := query attempts,
      lr_written := (case written of Some w \<Rightarrow> w | None \<Rightarrow> 0), lr_expected := expected, lr_expected_keys := keys,
      lr_target_keys := tkeys, lr_fingerprint := fp,
      lr_detail := (if written = None then ''no QueryFinish row in system.query_log'' else [])\<rparr>" for attempts written tkeys
  obtain attempts st1 where a: "fill_attempts env f pid st = Inr (attempts, st1)"
    and rest: "(let query_id = ''rekey0139-'' @ rk_db env @ ''-'' @ fi_target f @ ''-'' @ pid @ ''-'' @ show_nat (attempts + 1)
     in rk_bind (rk_write env (DropPartition (fi_target f) pid)) (\<lambda>_.
        if \<not> rk_execute env then rk_return []
        else rk_bind (rk_write env (InsertFill f l flt query_id)) (\<lambda>_.
        rk_bind (ask (rk_written_rows env query_id)) (\<lambda>written.
        rk_bind (ask (rk_target_keys env f l flt)) (\<lambda>tkeys.
        let verified = (written = Some expected \<and> tkeys = keys)
        in rk_bind (rk_log env ((log_row_of ''fill'' (if verified then ''verified'' else ''failed''))
               \<lparr>lr_source := fi_source f, lr_target := fi_target f, lr_partition := pid, lr_query_id := query_id,
                lr_written := (case written of Some w \<Rightarrow> w | None \<Rightarrow> 0), lr_expected := expected, lr_expected_keys := keys,
                lr_target_keys := tkeys, lr_fingerprint := fp,
                lr_detail := (if written = None then ''no QueryFinish row in system.query_log'' else [])\<rparr>)) (\<lambda>_.
           rk_return (if verified then [] else [fill_problem f pid written expected tkeys keys]))))))) st1 = Inr (bad, st')"
    using rk_bind_Inr [OF assms(1) [unfolded copy_partition_def prod.case]] by blast
  have st1: "st1 = st" using a by (auto simp: fill_attempts_def rk_return_def dest!: rk_bind_Inr read_log_Inr)
  from rk_bind_Inr [OF rest [unfolded Let_def st1]] obtain st2
    where drop: "rk_write env (DropPartition (fi_target f) pid) st = Inr ((), st2)"
      and r2: "rk_bind (rk_write env (InsertFill f l flt (query attempts))) (\<lambda>_. rk_bind (ask (rk_written_rows env (query attempts))) (\<lambda>written.
        rk_bind (ask (rk_target_keys env f l flt)) (\<lambda>tkeys. rk_bind (rk_log env (row attempts written tkeys))
        (\<lambda>_. rk_return (if written = Some expected \<and> tkeys = keys then [] else [fill_problem f pid written expected tkeys keys]))))) st2 = Inr (bad, st')"
    using assms(2) unfolding query_def row_def by auto
  from rk_bind_Inr [OF r2] obtain st3 where ins: "rk_write env (InsertFill f l flt (query attempts)) st2 = Inr ((), st3)"
    and r3: "rk_bind (ask (rk_written_rows env (query attempts))) (\<lambda>written.
        rk_bind (ask (rk_target_keys env f l flt)) (\<lambda>tkeys. rk_bind (rk_log env (row attempts written tkeys))
        (\<lambda>_. rk_return (if written = Some expected \<and> tkeys = keys then [] else [fill_problem f pid written expected tkeys keys])))) st3 = Inr (bad, st')"
    by auto
  from rk_bind_Inr [OF r3] obtain written where
    r4: "rk_bind (ask (rk_target_keys env f l flt)) (\<lambda>tkeys. rk_bind (rk_log env (row attempts written tkeys))
        (\<lambda>_. rk_return (if written = Some expected \<and> tkeys = keys then [] else [fill_problem f pid written expected tkeys keys]))) st3 = Inr (bad, st')"
    by (auto dest: ask_Inr)
  from rk_bind_Inr [OF r4] obtain tkeys where tkeys: "rk_target_keys env f l flt (rs_db st3) = Inr tkeys" and
    r5: "rk_bind (rk_log env (row attempts written tkeys))
        (\<lambda>_. rk_return (if written = Some expected \<and> tkeys = keys then [] else [fill_problem f pid written expected tkeys keys])) st3 = Inr (bad, st')"
    by (auto dest: ask_Inr)
  from rk_bind_Inr [OF r5] have log: "rk_log env (row attempts written tkeys) st3 = Inr ((), st')"
    and bad: "bad = [] \<longrightarrow> written = Some expected \<and> tkeys = keys"
    by (auto simp: rk_return_def split: if_splits)
  have row: "fill_row f pid (row attempts written tkeys)" "bad = [] \<longrightarrow> lr_status (row attempts written tkeys) = ''verified''"
    "lr_fingerprint (row attempts written tkeys) = fp" "bad = [] \<longrightarrow> lr_expected_keys (row attempts written tkeys) = tkeys"
    using bad by (auto simp: row_def fill_row_def log_row_of_def)
  show ?thesis
    using rk_write_Inr [OF drop assms(2)] rk_write_Inr [OF ins assms(2)] rk_log_Inr [OF log assms(2)] row tkeys by auto
qed

text \<open>A copied partition leaves the source, and the keys of the other partitions, as they were.\<close>

lemma copied_apart:
  assumes "copy_laws env f" and "rk_partitions env (fi_source f) d = Inr parts" and "rk_keys env (fi_source f) d = Inr (ly_partition_key l, sk)"
    and "(part, pid) \<in> set parts"
    and "d' = snd (rk_run env (InsertFill f l (partition_where (ly_partition_key l) part) q) (snd (rk_run env (DropPartition (fi_target f) pid) d)))"
  shows "same_source env f d d'"
    and "(part', pid') \<in> set parts \<Longrightarrow> pid \<noteq> pid' \<Longrightarrow> rk_target_keys env f l (partition_where (ly_partition_key l) part') d' =
      rk_target_keys env f l (partition_where (ly_partition_key l) part') d"
proof -
  let ?d = "snd (rk_run env (DropPartition (fi_target f) pid) d)"
  have d: "same_source env f d ?d" using assms(1) by (simp add: copy_laws_def)
  moreover have "same_source env f ?d d'" using assms(1,5) by (simp add: copy_laws_def)
  ultimately show "same_source env f d d'" by (rule same_source_trans)
  have there: "rk_partitions env (fi_source f) ?d = Inr parts" "rk_keys env (fi_source f) ?d = Inr (ly_partition_key l, sk)"
    using d assms(2,3) by (simp_all add: same_source_def)
  assume other: "(part', pid') \<in> set parts" "pid \<noteq> pid'"
  note apart = assms(1) [unfolded copy_laws_def Let_def, THEN conjunct2, THEN conjunct2, THEN conjunct2, rule_format, OF conjI, OF _ conjI,
      OF _ _ conjI, OF _ _ _ conjI]
  show "rk_target_keys env f l (partition_where (ly_partition_key l) part') d' = rk_target_keys env f l (partition_where (ly_partition_key l) part') d"
    using apart [OF assms(2,3,4) other] apart [OF there assms(4) other] assms(5) by simp
qed

lemma fill_partitions_Inr:
  assumes "fill_partitions env f l parts (report, failed) st = Inr ((report', []), st')" and "rk_execute env" and "copy_laws env f"
    and "fi_partition f = None" and "distinct (map snd parts)" and "set parts \<subseteq> set all_parts"
    and "rk_partitions env (fi_source f) (rs_db st) = Inr all_parts" and "rk_keys env (fi_source f) (rs_db st) = Inr (ly_partition_key l, sk)"
  shows "(\<forall>p \<in> set parts. filled env f l p st') \<and> same_source env f (rs_db st) (rs_db st') \<and> failed = [] \<and>
    (\<forall>(part, pid) \<in> set all_parts. pid \<notin> snd ` set parts \<longrightarrow>
       newest (fill_row f pid) (rs_log st') = newest (fill_row f pid) (rs_log st) \<and>
       rk_target_keys env f l (partition_where (ly_partition_key l) part) (rs_db st') = rk_target_keys env f l (partition_where (ly_partition_key l) part) (rs_db st))"
  using assms(1,5-8)
proof (induction parts arbitrary: report failed st)
  case Nil
  then show ?case by (auto simp: rk_return_def same_source_refl)
next
  case (Cons p parts)
  obtain part pid where p: "p = (part, pid)" by (cases p)
  let ?flt = "partition_where (ly_partition_key l) part"
  have new: "pid \<notin> snd ` set parts" "distinct (map snd parts)" "(part, pid) \<in> set all_parts" "set parts \<subseteq> set all_parts"
    using Cons.prems(2,3) p by auto
  from rk_bind_Inr [OF Cons.prems(1) [unfolded p fill_partitions.simps assms(4) option.case if_False Let_def]]
  obtain fp expected keys st1 where probed: "probe env f l ?flt st = Inr ((fp, expected, keys), st1)"
    and r1: "rk_bind (last_fill env f pid) (\<lambda>prev. rk_bind (still_filled env f l ?flt fp prev) (\<lambda>stands.
        if stands then fill_partitions env f l parts (report\<lparr>fr_skipped := Suc (fr_skipped report)\<rparr>, failed)
        else rk_bind (copy_partition env f l pid ?flt (fp, expected, keys)) (\<lambda>bad.
          fill_partitions env f l parts (report\<lparr>fr_copied := Suc (fr_copied report)\<rparr>, failed @ bad)))) st1 = Inr ((report', []), st')"
    by fastforce
  obtain rows hash where pr: "rk_probe env f l ?flt (rs_db st) = Inr (rows, hash, expected, keys)" "fp = show_nat (unat rows) @ '':'' @ show_nat (unat hash)" "st1 = st"
    using probe_Inr [OF probed] by blast
  from rk_bind_Inr [OF r1] obtain prev where prev: "prev = newest (fill_row f pid) (rs_log st)"
    and r2: "rk_bind (still_filled env f l ?flt fp prev) (\<lambda>stands.
        if stands then fill_partitions env f l parts (report\<lparr>fr_skipped := Suc (fr_skipped report)\<rparr>, failed)
        else rk_bind (copy_partition env f l pid ?flt (fp, expected, keys)) (\<lambda>bad.
          fill_partitions env f l parts (report\<lparr>fr_copied := Suc (fr_copied report)\<rparr>, failed @ bad))) st = Inr ((report', []), st')"
    using pr(3) by (auto dest: last_fill_Inr)
  from rk_bind_Inr [OF r2] obtain stands where stands: "stands \<longrightarrow> (\<exists>r. prev = Some r \<and> lr_status r = ''verified'' \<and> lr_fingerprint r = fp \<and>
        rk_target_keys env f l ?flt (rs_db st) = Inr (lr_expected_keys r))"
    and r3: "(if stands then fill_partitions env f l parts (report\<lparr>fr_skipped := Suc (fr_skipped report)\<rparr>, failed)
        else rk_bind (copy_partition env f l pid ?flt (fp, expected, keys)) (\<lambda>bad.
          fill_partitions env f l parts (report\<lparr>fr_copied := Suc (fr_copied report)\<rparr>, failed @ bad))) st = Inr ((report', []), st')"
    by (auto dest: still_filled_Inr)
  have stands_now: "filled env f l p st'" if "newest (fill_row f pid) (rs_log st') = Some r" "lr_status r = ''verified''" "lr_fingerprint r = fp"
    "same_source env f (rs_db st) (rs_db st')" "rk_target_keys env f l ?flt (rs_db st') = Inr (lr_expected_keys r)" for r
    using that pr by (simp add: p filled_def fingerprint_now_def same_source_def)
  show ?case
  proof (cases stands)
    case True
    then have "fill_partitions env f l parts (report\<lparr>fr_skipped := Suc (fr_skipped report)\<rparr>, failed) st = Inr ((report', []), st')"
      using r3 by simp
    note IH = Cons.IH [OF this new(2,4) Cons.prems(4,5)]
    obtain r where r: "prev = Some r" "lr_status r = ''verified''" "lr_fingerprint r = fp" "rk_target_keys env f l ?flt (rs_db st) = Inr (lr_expected_keys r)"
      using stands True by blast
    have here: "newest (fill_row f pid) (rs_log st') = newest (fill_row f pid) (rs_log st)"
      "rk_target_keys env f l ?flt (rs_db st') = rk_target_keys env f l ?flt (rs_db st)"
      using IH new(1,3) by blast+
    have "filled env f l p st'" by (rule stands_now [of r]) (use here IH prev r in simp_all)
    then show ?thesis using IH p by auto
  next
    case False
    then obtain bad st2 where copy: "copy_partition env f l pid ?flt (fp, expected, keys) st = Inr (bad, st2)"
      and rest: "fill_partitions env f l parts (report\<lparr>fr_copied := Suc (fr_copied report)\<rparr>, failed @ bad) st2 = Inr ((report', []), st')"
      using r3 rk_bind_Inr by fastforce
    obtain r q where r: "rs_log st2 = rs_log st @ [r]" "fill_row f pid r"
      "bad = [] \<longrightarrow> lr_status r = ''verified'' \<and> lr_fingerprint r = fp \<and> rk_target_keys env f l ?flt (rs_db st2) = Inr (lr_expected_keys r)"
      "rs_db st2 = snd (rk_run env (InsertFill f l ?flt q) (snd (rk_run env (DropPartition (fi_target f) pid) (rs_db st))))"
      using copy_partition_Inr [OF copy assms(2)] by blast
    note apart = copied_apart [OF assms(3) Cons.prems(4,5) new(3) r(4)]
    have there: "rk_partitions env (fi_source f) (rs_db st2) = Inr all_parts" "rk_keys env (fi_source f) (rs_db st2) = Inr (ly_partition_key l, sk)"
      using apart(1) Cons.prems(4,5) by (simp_all add: same_source_def)
    note IH = Cons.IH [OF rest new(2,4) there]
    have same: "same_source env f (rs_db st) (rs_db st')" 
      by (rule same_source_trans [OF apart(1)]) (use IH in simp)
    have others: "newest (fill_row f q) (rs_log st2) = newest (fill_row f q) (rs_log st)" if "q \<noteq> pid" for q
      using r(1,2) that by (simp add: newest_snoc fill_row_def)
    have bad: "bad = []" "failed = []" using IH by simp_all
    have here: "newest (fill_row f pid) (rs_log st') = newest (fill_row f pid) (rs_log st2)"
      "rk_target_keys env f l ?flt (rs_db st') = rk_target_keys env f l ?flt (rs_db st2)"
      using IH new(1,3) by blast+
    have "filled env f l p st'"
    proof (rule stands_now)
      show "newest (fill_row f pid) (rs_log st') = Some r" using here(1) r(1,2) by (simp only: newest_snoc if_True)
      show "rk_target_keys env f l ?flt (rs_db st') = Inr (lr_expected_keys r)" using here(2) r(3) bad(1) by metis
    qed (use r(3) bad(1) same in blast)+
    moreover have "newest (fill_row f q) (rs_log st') = newest (fill_row f q) (rs_log st) \<and>
       rk_target_keys env f l (partition_where (ly_partition_key l) part') (rs_db st') = rk_target_keys env f l (partition_where (ly_partition_key l) part') (rs_db st)"
      if "(part', q) \<in> set all_parts" "q \<notin> snd ` set (p # parts)" for part' q
      using IH that p others [of q] apart(2) [OF that(1)] by force
    ultimately show ?thesis using IH same bad p by auto
  qed
qed

text \<open>A partition that is filled passes the check.\<close>

lemma filled_passes_check:
  assumes "filled env f l (part, pid) st" and "rk_log_read env (rs_db st) = Inr ()"
  shows "\<exists>written expected. check_partition env f l (part, pid) st = Inr (([], written, expected), st)"
proof -
  obtain r where "newest (fill_row f pid) (rs_log st) = Some r" "lr_status r = ''verified''"
    "fingerprint_now env f l part (rs_db st) = Some (lr_fingerprint r)"
    "rk_target_keys env f l (partition_where (ly_partition_key l) part) (rs_db st) = Inr (lr_expected_keys r)"
    using assms(1) by (auto simp: filled_def)
  then show ?thesis
    using assms(2) by (auto simp: check_partition_def last_fill_def read_log_def probe_def ask_def rk_bind_def rk_return_def fill_row_def [abs_def]
        fingerprint_now_def Let_def split: sum.splits prod.splits)
qed

lemma layout_of_Inr:
  assumes "layout_of env f st = Inr (l, st')"
  shows "\<exists>sk. rk_keys env (fi_source f) (rs_db st) = Inr (ly_partition_key l, sk)" and "st' = st"
    and "same_source env f (rs_db st) (rs_db st2) \<Longrightarrow> layout_of env f st2 = Inr (l, st2)"
  using assms by (auto simp: layout_of_def ask_def rk_bind_def rk_return_def refuse_def rk_fail_def same_source_def split: sum.splits prod.splits if_splits)

text \<open>
  When nobody but the fill changes the source while it runs (\<open>copy_laws\<close>; a merge of the source, or a live writer, may
  change its fingerprint), a fill of a whole table that returns leaves every partition filled, and the check finds no
  problem with any of them.
\<close>

lemma fill_verifies_every_partition:
  assumes "fill_step env f st = Inr (report, st')" and "rk_execute env" and "copy_laws env f" and "fi_partition f = None"
  shows "\<exists>l parts. layout_of env f st' = Inr (l, st') \<and> rk_partitions env (fi_source f) (rs_db st') = Inr parts \<and>
    (\<forall>p \<in> set parts. filled env f l p st' \<and> (rk_log_read env (rs_db st') = Inr () \<longrightarrow>
       (\<exists>written expected. check_partition env f l p st' = Inr (([], written, expected), st'))))"
proof -
  obtain l parts st0 st1 where laid: "layout_of env f st0 = Inr (l, st1)" and parts: "rk_partitions env (fi_source f) (rs_db st1) = Inr parts"
    and fill: "fill_partitions env f l parts (\<lparr>fr_copied = 0, fr_skipped = 0\<rparr>, []) st1 = Inr ((report, []), st')"
    using assms(1) by (auto simp: fill_step_def rk_return_def rk_fail_def split: if_splits dest!: rk_bind_Inr ask_Inr)
  note l = laid [unfolded layout_of_Inr(2) [OF laid, symmetric]]
  obtain sk where sk: "rk_keys env (fi_source f) (rs_db st1) = Inr (ly_partition_key l, sk)" using layout_of_Inr(1) [OF l] by blast
  have "distinct (map snd parts)" using parts assms(3) unfolding copy_laws_def by blast
  note stands = fill_partitions_Inr [OF fill assms(2-4) this order_refl parts sk]
  have "layout_of env f st' = Inr (l, st')" using layout_of_Inr(3) [OF l] stands by blast
  moreover have "rk_partitions env (fi_source f) (rs_db st') = Inr parts" using stands parts by (simp add: same_source_def)
  moreover have "filled env f l p st' \<and> (rk_log_read env (rs_db st') = Inr () \<longrightarrow>
      (\<exists>written expected. check_partition env f l p st' = Inr (([], written, expected), st')))" if "p \<in> set parts" for p
    using stands that filled_passes_check [of env f l "fst p" "snd p" st'] by simp
  ultimately show ?thesis by blast
qed

end
