(* ===== verification/Rekey_Check.thy ===== *)
theory Rekey_Check
  imports Rekey_Copy
begin

text \<open>
  The check that gates the swap (\<open>check\<close> of \<open>prices-clickhouse/src/rekey.rs\<close>, \<open>check_green\<close> of \<open>rekey/swap.rs\<close>): it passes
  only over filled tables, and its row in the log is what opens the gate, or shuts it.
\<close>

section \<open>What a passing check found\<close>

text \<open>The statements of a check: it writes to the tables of the tool only.\<close>

definition bookkeeping :: "rk_stmt \<Rightarrow> bool" where
  "bookkeeping s \<longleftrightarrow> (\<exists>n. s = EnsureToolTable n) \<or> s = TruncateTable months_table \<or> (\<exists>source ids. s = InsertMonths source ids)"

definition book_kept :: "'d rk_env \<Rightarrow> 'd \<Rightarrow> 'd \<Rightarrow> bool" where
  "book_kept env d d' \<longleftrightarrow> (\<exists>ss. list_all bookkeeping ss \<and> d' = foldl (\<lambda>d s. snd (rk_run env s d)) d ss)"

text \<open>
  A table that passes, at the moment it is read: its ids are those of a copy not yet swapped, every partition the source
  then has is \<open>filled\<close>, what the last fills wrote adds up to what they expected, and no row has an id the map lacks.
\<close>

definition passes :: "'d rk_env \<Rightarrow> table_fill \<Rightarrow> 'd rk_state \<Rightarrow> bool" where
  "passes env f st \<longleftrightarrow> refuse_ids env f st = Inr ((), st) \<and>
     (\<exists>l parts classes. layout_of env f st = Inr (l, st) \<and> rk_partitions env (fi_source f) (rs_db st) = Inr parts \<and>
        (\<forall>p \<in> set parts. filled env f l p st) \<and>
        (let fills = map (\<lambda>(part, pid). the (newest (fill_row f pid) (rs_log st))) parts
         in sum_list (map lr_written fills) = sum_list (map lr_expected fills)) \<and>
        rk_classes env (fi_source f) (ly_ids l) (rs_db st) = Inr classes \<and> class_count classes ''unmapped'' = 0)"

definition found_filled :: "'d rk_env \<Rightarrow> table_fill \<Rightarrow> 'd rk_state \<Rightarrow> bool" where
  "found_filled env f st \<longleftrightarrow> (\<exists>st1. rs_log st1 = rs_log st \<and> book_kept env (rs_db st) (rs_db st1) \<and> passes env f st1)"

lemma book_kept_refl: "book_kept env d d"
  unfolding book_kept_def by (intro exI [of _ "[]"]) simp

lemma book_kept_trans: "book_kept env d d' \<Longrightarrow> book_kept env d' d'' \<Longrightarrow> book_kept env d d''"
  unfolding book_kept_def by (metis foldl_append list_all_append)

lemma kept_write:
  assumes "rk_write env s st = Inr (x, st')" and "bookkeeping s"
  shows "rs_log st' = rs_log st \<and> book_kept env (rs_db st) (rs_db st')"
proof (cases "rk_execute env")
  case True
  have "book_kept env (rs_db st) (snd (rk_run env s (rs_db st)))"
    unfolding book_kept_def by (intro exI [of _ "[s]"]) (simp add: assms(2))
  then show ?thesis using rk_write_Inr [OF assms(1) True] by simp
next
  case False
  then show ?thesis using assms(1) by (simp add: rk_write_def book_kept_refl)
qed

lemma kept_each:
  assumes "\<And>x st y st'. x \<in> set xs \<Longrightarrow> f x st = Inr (y, st') \<Longrightarrow> rs_log st' = rs_log st \<and> book_kept env (rs_db st) (rs_db st')"
    and "rk_each f xs st = Inr (ys, st')"
  shows "rs_log st' = rs_log st \<and> book_kept env (rs_db st) (rs_db st')"
  using assms
proof (induction xs arbitrary: st ys)
  case Nil
  then show ?case by (simp add: rk_return_def book_kept_refl)
next
  case (Cons x xs)
  obtain y st1 where one: "f x st = Inr (y, st1)" and rest: "rk_bind (rk_each f xs) (\<lambda>ys. rk_return (y # ys)) st1 = Inr (ys, st')"
    using rk_bind_Inr Cons.prems(2) by fastforce
  obtain ys' where "rk_each f xs st1 = Inr (ys', st')"
    using rk_bind_Inr [OF rest] by (auto simp: rk_return_def)
  have "rs_log st' = rs_log st1 \<and> book_kept env (rs_db st1) (rs_db st')"
    by (rule Cons.IH [OF _ \<open>rk_each f xs st1 = Inr (ys', st')\<close>]) (use Cons.prems(1) in \<open>meson list.set_intros(2)\<close>)
  moreover have "rs_log st1 = rs_log st \<and> book_kept env (rs_db st) (rs_db st1)" using Cons.prems(1) [OF _ one] by simp
  ultimately show ?case using book_kept_trans by metis
qed

lemma refuse_ids_Inr: "refuse_ids env f st = Inr (x, st') \<Longrightarrow> st' = st"
  by (auto simp: refuse_ids_def ask_def rk_bind_def rk_return_def refuse_def rk_fail_def split: sum.splits if_splits)

lemma check_partition_Inr:
  assumes "check_partition env f l (part, pid) st = Inr ((bad, w, e), st')"
  shows "st' = st \<and> (bad = [] \<longrightarrow> filled env f l (part, pid) st \<and>
    w = lr_written (the (newest (fill_row f pid) (rs_log st))) \<and> e = lr_expected (the (newest (fill_row f pid) (rs_log st))))"
proof -
  obtain prev where prev: "prev = newest (fill_row f pid) (rs_log st)"
    and rest: "(case prev of None \<Rightarrow> rk_return ([fi_target f @ ''/'' @ pid @ '': not filled''], 0, 0)
      | Some r \<Rightarrow> rk_bind (probe env f l (partition_where (ly_partition_key l) part)) (\<lambda>(fingerprint, _, _).
          rk_bind (ask (rk_target_keys env f l (partition_where (ly_partition_key l) part))) (\<lambda>target_keys.
          rk_return
            (if lr_status r \<noteq> ''verified'' then [fi_target f @ ''/'' @ pid @ '': last fill '' @ lr_status r]
             else if lr_fingerprint r \<noteq> fingerprint then [fi_target f @ ''/'' @ pid @ '': source changed since fill'']
             else if target_keys \<noteq> lr_expected_keys r then [fi_target f @ ''/'' @ pid @ '': target keys '' @ show_nat (unat target_keys) @ '' of '' @ show_nat (unat (lr_expected_keys r))]
             else [], lr_written r, lr_expected r)))) st = Inr ((bad, w, e), st')"
    using rk_bind_Inr [OF assms [unfolded check_partition_def prod.case Let_def append_assoc]] by (auto dest!: last_fill_Inr)
  show ?thesis
  proof (cases prev)
    case None
    then show ?thesis using rest by (auto simp: rk_return_def)
  next
    case (Some r)
    from rk_bind_Inr [OF rest [unfolded Some option.case]] obtain fp expected keys st1
      where fp: "probe env f l (partition_where (ly_partition_key l) part) st = Inr ((fp, expected, keys), st1)"
        and r2: "rk_bind (ask (rk_target_keys env f l (partition_where (ly_partition_key l) part))) (\<lambda>target_keys.
          rk_return
            (if lr_status r \<noteq> ''verified'' then [fi_target f @ ''/'' @ pid @ '': last fill '' @ lr_status r]
             else if lr_fingerprint r \<noteq> fp then [fi_target f @ ''/'' @ pid @ '': source changed since fill'']
             else if target_keys \<noteq> lr_expected_keys r then [fi_target f @ ''/'' @ pid @ '': target keys '' @ show_nat (unat target_keys) @ '' of '' @ show_nat (unat (lr_expected_keys r))]
             else [], lr_written r, lr_expected r)) st1 = Inr ((bad, w, e), st')"
      by fastforce
    obtain rows hash where pr: "rk_probe env f l (partition_where (ly_partition_key l) part) (rs_db st) = Inr (rows, hash, expected, keys)"
        "fp = show_nat (unat rows) @ '':'' @ show_nat (unat hash)" "st1 = st"
      using probe_Inr [OF fp] by blast
    have found: "newest (fill_row f pid) (rs_log st) = Some r" using prev Some by simp
    from rk_bind_Inr [OF r2] show ?thesis
      using pr found by (auto simp: rk_return_def filled_def fingerprint_now_def dest!: ask_Inr split: if_splits)
  qed
qed

definition last_fill_row :: "table_fill \<Rightarrow> log_row list \<Rightarrow> string \<times> string \<Rightarrow> log_row" where
  "last_fill_row f rows = (\<lambda>(part, pid). the (newest (fill_row f pid) rows))"

lemma check_partitions_Inr:
  assumes "rk_each (check_partition env f l) parts st = Inr (checked, st')"
  shows "st' = st" and "concat (map fst checked) = [] \<Longrightarrow> (\<forall>p \<in> set parts. filled env f l p st) \<and>
    map (\<lambda>(_, w, _). w) checked = map (lr_written \<circ> last_fill_row f (rs_log st)) parts \<and>
    map (\<lambda>(_, _, e). e) checked = map (lr_expected \<circ> last_fill_row f (rs_log st)) parts"
proof -
  have "st' = st \<and> (concat (map fst checked) = [] \<longrightarrow> (\<forall>p \<in> set parts. filled env f l p st) \<and>
    map (\<lambda>(_, w, _). w) checked = map (lr_written \<circ> last_fill_row f (rs_log st)) parts \<and>
    map (\<lambda>(_, _, e). e) checked = map (lr_expected \<circ> last_fill_row f (rs_log st)) parts)"
    using assms
  proof (induction parts arbitrary: checked)
    case Nil
    then show ?case by (simp add: rk_return_def)
  next
    case (Cons p parts)
    obtain part pid where p: "p = (part, pid)" by (cases p)
    from rk_bind_Inr [OF Cons.prems [unfolded rk_each.simps]] obtain bad w e st1
      where one: "check_partition env f l (part, pid) st = Inr ((bad, w, e), st1)"
        and rest: "rk_bind (rk_each (check_partition env f l) parts) (\<lambda>ys. rk_return ((bad, w, e) # ys)) st1 = Inr (checked, st')"
      unfolding p by fastforce
    note first = check_partition_Inr [OF one]
    from rk_bind_Inr [OF rest] obtain ys where ys: "rk_each (check_partition env f l) parts st = Inr (ys, st')" "checked = (bad, w, e) # ys"
      using first by (auto simp: rk_return_def)
    show ?case using Cons.IH [OF ys(1)] ys(2) first by (auto simp: p last_fill_row_def)
  qed
  then show "st' = st" "concat (map fst checked) = [] \<Longrightarrow> (\<forall>p \<in> set parts. filled env f l p st) \<and>
    map (\<lambda>(_, w, _). w) checked = map (lr_written \<circ> last_fill_row f (rs_log st)) parts \<and>
    map (\<lambda>(_, _, e). e) checked = map (lr_expected \<circ> last_fill_row f (rs_log st)) parts"
    by blast+
qed

lemma check_fill_Inr:
  assumes "check_fill env f st = Inr ((problems, line), st')"
  shows "rs_log st' = rs_log st \<and> book_kept env (rs_db st) (rs_db st')" and "problems = [] \<Longrightarrow> passes env f st"
    and "\<exists>rest. line = fi_source f @ '' -> '' @ fi_target f @ '': written '' @ rest"
proof -
  obtain l parts checked st1 st2 st3 where ids: "refuse_ids env f st = Inr ((), st)" and laid: "layout_of env f st = Inr (l, st1)"
    and parts: "ask (rk_partitions env (fi_source f)) st1 = Inr (parts, st2)" and each: "rk_each (check_partition env f l) parts st2 = Inr (checked, st3)"
    and tail: "(let written = sum_list (map (\<lambda>(_, w, _). w) checked); expected = sum_list (map (\<lambda>(_, _, e). e) checked)
     in rk_bind (ask (rk_classes env (fi_source f) (ly_ids l))) (\<lambda>classes.
        let problems = concat (map fst checked) @
              (if written \<noteq> expected then [fi_target f @ '': written '' @ show_nat (unat written) @ '' != expected '' @ show_nat (unat expected)] else []) @
              (if class_count classes ''unmapped'' > 0 then [fi_source f @ '': '' @ show_nat (unat (class_count classes ''unmapped'')) @ '' rows under ids the map lacks (re-run map)''] else [])
        in rk_bind (if fi_source f = ''price_ohlcv_1m''
             then rk_bind (rk_write env (TruncateTable months_table)) (\<lambda>_. rk_write env (InsertMonths (fi_source f) (ly_ids l)))
             else rk_return ()) (\<lambda>_.
           rk_return (problems, check_line f written expected classes)))) st3 = Inr ((problems, line), st')"
    using assms refuse_ids_Inr unfolding check_fill_def by (fastforce dest!: rk_bind_Inr)
  have same: "st1 = st" "st2 = st" "st3 = st" and partitions: "rk_partitions env (fi_source f) (rs_db st) = Inr parts"
    using layout_of_Inr(2) [OF laid] ask_Inr [OF parts] check_partitions_Inr(1) [OF each] by auto
  note found = check_partitions_Inr(2) [OF each [unfolded same]]
  let ?written = "sum_list (map (\<lambda>(_, w, _). w) checked)" and ?expected = "sum_list (map (\<lambda>(_, _, e). e) checked)"
  from rk_bind_Inr [OF tail [unfolded Let_def same]] obtain classes where
    classes: "rk_classes env (fi_source f) (ly_ids l) (rs_db st) = Inr classes"
    and books: "rk_bind (if fi_source f = ''price_ohlcv_1m''
             then rk_bind (rk_write env (TruncateTable months_table)) (\<lambda>_. rk_write env (InsertMonths (fi_source f) (ly_ids l)))
             else rk_return ()) (\<lambda>_. rk_return (concat (map fst checked) @
              (if ?written \<noteq> ?expected then [fi_target f @ '': written '' @ show_nat (unat ?written) @ '' != expected '' @ show_nat (unat ?expected)] else []) @
              (if class_count classes ''unmapped'' > 0 then [fi_source f @ '': '' @ show_nat (unat (class_count classes ''unmapped'')) @ '' rows under ids the map lacks (re-run map)''] else []),
              check_line f ?written ?expected classes)) st = Inr ((problems, line), st')"
    by (auto dest!: ask_Inr)
  from rk_bind_Inr [OF books] obtain st4 where kept: "(if fi_source f = ''price_ohlcv_1m''
             then rk_bind (rk_write env (TruncateTable months_table)) (\<lambda>_. rk_write env (InsertMonths (fi_source f) (ly_ids l)))
             else rk_return ()) st = Inr ((), st')"
    and out: "problems = concat (map fst checked) @
              (if ?written \<noteq> ?expected then [fi_target f @ '': written '' @ show_nat (unat ?written) @ '' != expected '' @ show_nat (unat ?expected)] else []) @
              (if class_count classes ''unmapped'' > 0 then [fi_source f @ '': '' @ show_nat (unat (class_count classes ''unmapped'')) @ '' rows under ids the map lacks (re-run map)''] else [])"
      "line = check_line f ?written ?expected classes"
    by (auto simp: rk_return_def)
  show "rs_log st' = rs_log st \<and> book_kept env (rs_db st) (rs_db st')"
  proof (cases "fi_source f = ''price_ohlcv_1m''")
    case True
    from rk_bind_Inr [OF kept [unfolded if_P [OF True]]] obtain st5 where
      "rk_write env (TruncateTable months_table) st = Inr ((), st5)" "rk_write env (InsertMonths (fi_source f) (ly_ids l)) st5 = Inr ((), st')" by auto
    then show ?thesis
      using kept_write [of env "TruncateTable months_table" st "()" st5] kept_write [of env "InsertMonths (fi_source f) (ly_ids l)" st5 "()" st'] book_kept_trans
      by (auto simp: bookkeeping_def)
  qed (use kept in \<open>simp add: rk_return_def book_kept_refl\<close>)
  show "\<exists>rest. line = fi_source f @ '' -> '' @ fi_target f @ '': written '' @ rest"
    unfolding out(2) check_line_def by blast
  assume "problems = []"
  then have none: "concat (map fst checked) = []" "?written = ?expected" "class_count classes ''unmapped'' = 0"
    using out(1) by (auto split: if_splits simp: word_gt_0)
  have "layout_of env f st = Inr (l, st)" using laid same by simp
  moreover have "let fills = map (\<lambda>(part, pid). the (newest (fill_row f pid) (rs_log st))) parts
      in sum_list (map lr_written fills) = sum_list (map lr_expected fills)"
    using found [OF none(1)] none(2) by (simp add: last_fill_row_def [abs_def] comp_def)
  ultimately show "passes env f st"
    unfolding passes_def using ids partitions found [OF none(1)] classes none(3) by blast
qed

section \<open>The gate\<close>

definition described :: "table_fill \<Rightarrow> string list \<Rightarrow> bool" where
  "described f ls \<longleftrightarrow> (\<exists>line \<in> set ls. \<exists>rest. line = fi_source f @ '' -> '' @ fi_target f @ '': written '' @ rest)"

lemma described_Cons: "described f ls \<Longrightarrow> described f (line # ls)"
  "\<exists>rest. line = fi_source f @ '' -> '' @ fi_target f @ '': written '' @ rest \<Longrightarrow> described f (line # ls)"
  unfolding described_def by (meson list.set_intros, simp)

lemma found_filled_now: "passes env f st \<Longrightarrow> found_filled env f st"
  unfolding found_filled_def by (intro exI [of _ st]) (simp add: book_kept_refl)

lemma found_filled_later:
  assumes "found_filled env f st1" and "rs_log st1 = rs_log st" and "book_kept env (rs_db st) (rs_db st1)"
  shows "found_filled env f st"
proof -
  obtain st2 where "rs_log st2 = rs_log st1" "book_kept env (rs_db st1) (rs_db st2)" "passes env f st2"
    using assms(1) unfolding found_filled_def by blast
  then show ?thesis using assms(2,3) book_kept_trans [OF assms(3)] unfolding found_filled_def by metis
qed

lemma check_fills_Inr:
  assumes "rk_each (check_fill env) fills st = Inr (checked, st')"
  shows "rs_log st' = rs_log st \<and> book_kept env (rs_db st) (rs_db st') \<and>
    (concat (map fst checked) = [] \<longrightarrow> (\<forall>f \<in> set fills. found_filled env f st)) \<and>
    (\<forall>f \<in> set fills. described f (map snd checked))"
  using assms
proof (induction fills arbitrary: st checked)
  case Nil
  then show ?case by (simp add: rk_return_def book_kept_refl)
next
  case (Cons f fills)
  from rk_bind_Inr [OF Cons.prems [unfolded rk_each.simps]] obtain problems line st1
    where one: "check_fill env f st = Inr ((problems, line), st1)"
      and rest: "rk_bind (rk_each (check_fill env) fills) (\<lambda>ys. rk_return ((problems, line) # ys)) st1 = Inr (checked, st')"
    by fastforce
  obtain ys where ys: "rk_each (check_fill env) fills st1 = Inr (ys, st')" "checked = (problems, line) # ys"
    using rk_bind_Inr [OF rest] by (auto simp: rk_return_def)
  note IH = Cons.IH [OF ys(1)] and first = check_fill_Inr [OF one]
  have "found_filled env f st" if "problems = []"
    by (rule found_filled_now [OF first(2) [OF that]])
  moreover have later: "found_filled env g st" if "found_filled env g st1" for g
    by (rule found_filled_later [OF that]) (use first(1) in simp_all)
  moreover have "rs_log st' = rs_log st \<and> book_kept env (rs_db st) (rs_db st')"
    using IH first(1) book_kept_trans [of env "rs_db st" "rs_db st1" "rs_db st'"] by simp
  moreover have "\<forall>g \<in> set (f # fills). described g (map snd checked)"
    using IH described_Cons(1) described_Cons(2) [OF first(3)] by (simp add: ys(2))
  moreover have "concat (map fst checked) = [] \<longrightarrow> problems = [] \<and> (\<forall>g \<in> set fills. found_filled env g st1)"
    using IH unfolding ys(2) by simp
  ultimately show ?case by simp
qed

lemma has_text_inside: "has_text (a @ pat @ b) pat"
proof -
  have "split_first pat (a @ pat @ b) \<noteq> None"
  proof (induction a)
    case Nil
    have "take (length pat) (pat @ b) = pat" by simp
    then show ?case by (cases "pat @ b") auto
  qed auto
  then show ?thesis by (simp add: has_text_def)
qed

lemma join_text_inside: "x \<in> set xs \<Longrightarrow> \<exists>a b. join_text sep xs = a @ x @ b"
proof (induction sep xs rule: join_text.induct)
  case (3 sep x' y xs)
  show ?case
  proof (cases "x = x'")
    case True
    then show ?thesis by (intro exI [of _ "[]"] exI [of _ "sep @ join_text sep (y # xs)"]) simp
  next
    case False
    then obtain a b where "join_text sep (y # xs) = a @ x @ b" using 3 by auto
    then show ?thesis by (intro exI [of _ "x' @ sep @ a"] exI [of _ b]) simp
  qed
qed (auto intro: exI [of _ "[]"])

lemma line_covers:
  assumes "described (fill_table t) ls"
  shows "covers (join_text sep ls) t"
proof -
  obtain line rest where "line \<in> set ls" and line: "line = fi_source (fill_table t) @ '' -> '' @ fi_target (fill_table t) @ '': written '' @ rest"
    using assms unfolding described_def by blast
  obtain a b where "join_text sep ls = a @ line @ b" using join_text_inside [OF \<open>line \<in> set ls\<close>] by blast
  then have "join_text sep ls = a @ (t @ '' -> '' @ t @ ''__new:'') @ ('' written '' @ rest @ b)"
    by (simp add: line fill_table_def)
  then show ?thesis unfolding covers_def by (metis has_text_inside)
qed

text \<open>The last check is the row just written.\<close>

lemma newest_check: "lr_step r = ''check'' \<Longrightarrow> newest (\<lambda>r. lr_step r = ''check'') (since_last ''fill'' (rows @ [r])) = Some r"
  by (simp add: newest_def since_last_def)

lemma check_step_passes:
  assumes "rk_execute env" and "check_step env fills st = Inr (ls, st')"
  shows "(\<forall>f \<in> set fills. found_filled env f st) \<and> (\<exists>row. rs_log st' = rs_log st @ [row] \<and> lr_step row = ''check'' \<and> lr_status row = ''ok'' \<and>
     (\<forall>t. fill_table t \<in> set fills \<longrightarrow> covers (lr_detail row) t))"
proof -
  obtain u st1 checked st2 v st3 where books: "ensure_tool_tables env st = Inr (u, st1)" and each: "rk_each (check_fill env) fills st1 = Inr (checked, st2)"
    and row: "rk_log env ((log_row_of ''check'' (if concat (map fst checked) = [] then ''ok'' else ''failed''))\<lparr>lr_detail := join_text ''; '' (map snd checked)\<rparr>) st2 = Inr (v, st3)"
    and tail: "(if concat (map fst checked) = [] then rk_return (map snd checked) else rk_fail (RkGate (CheckGate (concat (map fst checked))))) st3 = Inr (ls, st')"
    using assms(2) unfolding check_step_def Let_def by (elim rk_bind_Inr [elim_format] exE conjE) blast
  have tables: "rs_log st1 = rs_log st \<and> book_kept env (rs_db st) (rs_db st1)"
  proof -
    obtain us where "rk_each (\<lambda>n. rk_write env (EnsureToolTable n)) [0, 1, 2, 3] st = Inr (us, st1)"
      using books by (auto simp: ensure_tool_tables_def rk_return_def simp del: rk_each.simps dest!: rk_bind_Inr)
    then show ?thesis by (rule kept_each [rotated]) (auto dest!: kept_write simp: bookkeeping_def)
  qed
  note found = check_fills_Inr [OF each]
  have none: "concat (map fst checked) = []" and "st' = st3"
    using tail by (auto simp: rk_fail_def rk_return_def split: if_splits)
  then have "rk_log env ((log_row_of ''check'' ''ok'')\<lparr>lr_detail := join_text ''; '' (map snd checked)\<rparr>) st2 = Inr (v, st')"
    using row by simp
  note logged = rk_log_Inr [OF this assms(1)]
  have "found_filled env f st" if "f \<in> set fills" for f
    by (rule found_filled_later [of _ _ st1]) (use found none that tables in simp_all)
  moreover have "covers (join_text ''; '' (map snd checked)) t" if "fill_table t \<in> set fills" for t
    using found that line_covers by blast
  ultimately show ?thesis using logged found tables by (auto simp: log_row_of_def)
qed

text \<open>
  C24: A check that returns over the copied tables found every one of them filled, with nothing assumed of the
  server: at the moment a table was read, its ids were those of a copy not yet swapped, every partition its
  source then had carried a verified last fill with the fingerprint of the source and the key count of the
  target as they stood, written and expected rows agreed, and no id was unmapped. And the row it logs opens the
  gate of the swap: the tables the gate looks for in its text are all there.
\<close>

theorem passing_check_opens_the_swap:
  assumes "check_step env fills st = Inr (ls, st')" and "rk_execute env" and "fill_table ` set copied_tables \<subseteq> set fills"
    and "rk_log_read env (rs_db st') = Inr ()"
  shows "check_green env st' = Inr ((), st') \<and> (\<forall>t \<in> set copied_tables. found_filled env (fill_table t) st)"
proof -
  obtain row where row: "rs_log st' = rs_log st @ [row]" "lr_step row = ''check''" "lr_status row = ''ok''"
    and covers: "\<forall>t. fill_table t \<in> set fills \<longrightarrow> covers (lr_detail row) t" and found: "\<forall>f \<in> set fills. found_filled env f st"
    using check_step_passes [OF assms(2,1)] by blast
  have "find (\<lambda>t. \<not> covers (lr_detail row) t) copied_tables = None"
    using covers assms(3) by (auto simp: find_None_iff)
  then have "check_green env st' = Inr ((), st')"
    using newest_check [OF row(2)] row(3) assms(4) by (simp add: check_green_def read_log_def rk_bind_def rk_return_def ask_def row(1))
  then show ?thesis using found assms(3) by blast
qed

end
