(* ===== verification/Rekey_Sample.thy ===== *)
theory Rekey_Sample
  imports Rekey_Returns Rekey_Check
begin

text \<open>
  A server that follows the laws, a swap of it that fails between its two statements and is resumed, its rollback with
  views to drop and make again, a fill of one partition, and a check over filled tables.
\<close>

section \<open>A server of tables\<close>

definition quiet_env :: "'d rk_env" where
  "quiet_env = \<lparr>rk_db = ''scratch'', rk_execute = True, rk_run = (\<lambda>s d. (Inr (), d)), rk_log_write = (\<lambda>row d. (Inr (), True)),
     rk_log_read = (\<lambda>d. Inr ()), rk_exists = (\<lambda>t d. Inr True), rk_id_types = (\<lambda>t d. Inr []), rk_map_violations = (\<lambda>t i d. Inr 0),
     rk_count = (\<lambda>t d. Inr 1), rk_query_log = (\<lambda>d. Inr True), rk_status_summary = (\<lambda>t d. Inr []), rk_stored_columns = (\<lambda>t d. Inr []),
     rk_keys = (\<lambda>t d. Inr ([], ''asset_id'')), rk_partitions = (\<lambda>t d. Inr [(''tuple()'', ''all'')]),
     rk_probe = (\<lambda>f l flt d. Inr (1, 7, 1, 9)), rk_target_keys = (\<lambda>f l flt d. Inr 9), rk_written_rows = (\<lambda>q d. Inr (Some 1)),
     rk_classes = (\<lambda>t ids d. Inr []), rk_views = (\<lambda>db d. Inr []),
     rk_captured = (\<lambda>kind d. Inr (if kind = ''table'' then [(''assets'', [])] else [])), rk_refreshes = (\<lambda>d. Inr []),
     rk_inserts = (\<lambda>d. Inr 0), rk_async_inserts = (\<lambda>d. Inr 0), rk_open_mutations = (\<lambda>t d. Inr (0, [])), rk_underived = (\<lambda>d. Inr (1, 0)),
     rk_identities = (\<lambda>d. Inr (1, 1)), rk_live_bounds = (\<lambda>d. Inr (1, 2)), rk_uint32_ids = (\<lambda>d. Inr []), rk_mvs = (\<lambda>d. Inr []),
     rk_rows_after = (\<lambda>t n d. Inr 0), rk_new_identities = (\<lambda>d. Inr 0), rk_running_views = (\<lambda>d. Inr 0), rk_init_sql = [],
     rk_rollups_sql = [], rk_current_sql = [], rk_views_sql = []\<rparr>"

fun move_tables :: "rk_stmt \<Rightarrow> string tables \<Rightarrow> (string, unit) result \<times> string tables" where
  "move_tables (ExchangeTables a b) T = (if T a \<noteq> None \<and> T b \<noteq> None then (Inr (), T(a := T b, b := T a)) else (Inl ''unknown table'', T))"
| "move_tables (RenameTable a b) T = (if T a \<noteq> None \<and> T b = None then (Inr (), T(a := None, b := T a)) else (Inl ''cannot rename'', T))"
| "move_tables (DropTable t) T = (Inr (), T(t := None))"
| "move_tables (DropView v) T = (Inr (), T(v := None))"
| "move_tables (CreateText stmt) T = (Inr (), case created_name stmt of Some v \<Rightarrow> T(v \<mapsto> (v, None)) | None \<Rightarrow> T)"
| "move_tables s T = (Inr (), T)"

text \<open>The views of the database as they were captured: one that is kept up to date, and one that reads it.\<close>

definition captured_mv :: "string \<times> string" where
  "captured_mv = (''mv_current_prices'',
     ''CREATE MATERIALIZED VIEW scratch.mv_current_prices REFRESH EVERY 5 MINUTE TO scratch.current_prices AS SELECT 1'')"

definition captured_view :: "string \<times> string" where
  "captured_view = (''v_prices'', ''CREATE VIEW scratch.v_prices AS SELECT asset_id FROM scratch.current_prices'')"

definition tables_env :: "string tables rk_env" where
  "tables_env = quiet_env
     \<lparr>rk_run := move_tables, rk_exists := (\<lambda>t T. Inr (T t \<noteq> None)),
      rk_id_types := (\<lambda>t T. Inr (case T t of Some (u, Some ty) \<Rightarrow> [(''asset_id'', ty)] | _ \<Rightarrow> [])),
      rk_mvs := (\<lambda>T. Inr (if T ''mv_current_prices'' = None then [] else [''mv_current_prices''])),
      rk_captured := (\<lambda>kind T. Inr (if kind = ''mv'' then [captured_mv] else if kind = ''view'' then [captured_view] else [(''assets'', [])]))\<rparr>"

text \<open>The same server while it refuses to rename.\<close>

definition failing_env :: "string tables rk_env" where
  "failing_env = tables_env\<lparr>rk_run := (\<lambda>s T. case s of RenameTable a b \<Rightarrow> (Inl ''connection reset'', T) | _ \<Rightarrow> move_tables s T)\<rparr>"

lemma env_simps:
  "rk_execute quiet_env" "rk_log_write quiet_env row d = (Inr (), True)" "rk_log_read quiet_env d = Inr ()"
  "rk_captured quiet_env kind d = Inr (if kind = ''table'' then [(''assets'', [])] else [])" "rk_refreshes quiet_env d = Inr []"
  "rk_inserts quiet_env d = Inr 0" "rk_async_inserts quiet_env d = Inr 0" "rk_mvs quiet_env d = Inr []"
  "rk_rows_after quiet_env t n d = Inr 0" "rk_new_identities quiet_env d = Inr 0" "rk_running_views quiet_env d = Inr 0"
  by (simp_all add: quiet_env_def)

text \<open>Their texts, word by word.\<close>

definition white_starts :: "char list" where
  "white_starts = [CHR 0x09, CHR 0x0A, CHR 0x0B, CHR 0x0C, CHR 0x0D, CHR 0x20, CHR 0xC2, CHR 0xE1, CHR 0xE2, CHR 0xE3]"

lemma white_char_starts: "list_all (\<lambda>w. case w of [] \<Rightarrow> False | c # _ \<Rightarrow> c \<in> set white_starts) white_chars"
  by code_simp

lemma plain_start: "c \<notin> set white_starts \<Longrightarrow> w \<in> set white_chars \<Longrightarrow> take (length w) (c # s) \<noteq> w"
  using white_char_starts by (cases w) (auto simp: list_all_iff)

lemma trim_plain: "c \<notin> set white_starts \<Longrightarrow> trim_front white_chars (c # s) = c # s"
proof -
  assume "c \<notin> set white_starts"
  then have "find (\<lambda>w. w \<noteq> [] \<and> take (length w) (c # s) = w) white_chars = None"
    using plain_start by (auto simp: find_None_iff)
  then show ?thesis by (subst trim_front.simps) simp
qed

lemma blank_is_white: "[CHR 0x20] \<in> set white_chars"
  by code_simp

lemma first_word_plain:
  assumes "w \<noteq> []" and "list_all (\<lambda>c. c \<notin> set white_starts) w" and "rest = [] \<or> (\<exists>more. rest = CHR 0x20 # more)"
  shows "first_word (w @ rest) = Some w"
proof -
  have stop: "until_white rest = []"
    using assms(3) bexI [OF _ blank_is_white, of "\<lambda>w. take (length w) rest = w"] by auto
  have "until_white (u @ rest) = u" if "list_all (\<lambda>c. c \<notin> set white_starts) u" for u
    using that
  proof (induction u)
    case (Cons c u)
    then show ?case using plain_start [of c] by auto
  qed (simp add: stop)
  then have "until_white (w @ rest) = w" using assms(2) by blast
  moreover have "trim_front white_chars (w @ rest) = w @ rest" using assms(1,2) trim_plain by (cases w) auto
  ultimately show ?thesis using assms(1) by (cases w) (simp_all add: first_word_def)
qed

lemma words: "first_word ''scratch.mv_current_prices REFRESH EVERY 5 MINUTE TO scratch.current_prices AS SELECT 1'' = Some ''scratch.mv_current_prices''"
  "first_word ''scratch.v_prices AS SELECT asset_id FROM scratch.current_prices'' = Some ''scratch.v_prices''"
  "first_word ''scratch.current_prices'' = Some ''scratch.current_prices''"
  using first_word_plain [of "''scratch.mv_current_prices''" "'' REFRESH EVERY 5 MINUTE TO scratch.current_prices AS SELECT 1''"]
    first_word_plain [of "''scratch.v_prices''" "'' AS SELECT asset_id FROM scratch.current_prices''"]
    first_word_plain [of "''scratch.current_prices''" "[]"]
  by (simp_all add: white_starts_def)

lemma captured_created:
  "created_object (snd captured_mv) = Some ''scratch.mv_current_prices''" "created_object (snd captured_view) = Some ''scratch.v_prices''"
  "created_object (or_replace (snd captured_view)) = Some ''scratch.v_prices''"
  "or_replace (snd captured_mv) = snd captured_mv"
  by (simp_all add: captured_mv_def captured_view_def created_object_def or_replace_def replace_first_def strip_text_def words trim_plain white_starts_def)

lemma captured_texts:
  "created_name (snd captured_mv) = Some ''mv_current_prices''" "created_name (snd captured_view) = Some ''v_prices''"
  "created_name (or_replace (snd captured_mv)) = Some ''mv_current_prices''" "created_name (or_replace (snd captured_view)) = Some ''v_prices''"
  by (simp_all add: created_name_def captured_created)

lemma captured_inside: "creates_in (snd captured_mv) ''scratch''" "creates_in (or_replace (snd captured_view)) ''scratch''"
proof -
  show "creates_in (snd captured_mv) ''scratch''"
    unfolding creates_in_def captured_created by (simp add: captured_mv_def in_database_def strip_text_def words)
  show "creates_in (or_replace (snd captured_view)) ''scratch''"
    unfolding creates_in_def captured_created by (simp add: captured_view_def or_replace_def replace_first_def in_database_def strip_text_def)
qed
lemma captured_names: "fst captured_mv = ''mv_current_prices''" "fst captured_view = ''v_prices''"
  by (simp_all add: captured_mv_def captured_view_def)

lemma view_names_apart: "''mv_current_prices'' \<notin> protected_names" "''v_prices'' \<notin> protected_names"
  by (simp_all add: protected_names_def own_names_def copied_tables_def new_name_def pre_name_def)

lemma move_tables_moves: "moves s T (snd (move_tables s T)) \<or> (fst (move_tables s T) \<noteq> Inr () \<and> snd (move_tables s T) = T)" for T :: "string tables"
  by (cases s) (auto simp: moves_def touches_def split: option.splits)

lemma laws_of_tables:
  assumes "\<And>s T. moves s T (snd (rk_run env s T)) \<or> (fst (rk_run env s T) \<noteq> Inr () \<and> snd (rk_run env s T) = T)"
    and "rk_exists env = rk_exists tables_env" and "rk_id_types env = rk_id_types tables_env"
  shows "table_laws env id"
proof -
  have "moves s T T' \<or> (x \<noteq> Inr () \<and> T' = T)" if "rk_run env s T = (x, T')" for s x T T'
    using assms(1) [of s T] that by simp
  moreover have "map_of types ''asset_id'' = Option.bind (T t) snd" if "rk_id_types tables_env t T = Inr types" for t T types
    using that by (auto simp: tables_env_def split: option.splits)
  ultimately show ?thesis by (simp add: table_laws_def assms(2,3)) (simp add: tables_env_def)
qed

lemma tables_env_laws: "table_laws tables_env id" "rk_execute tables_env" "views_apart tables_env"
proof -
  show "table_laws tables_env id"
    by (rule laws_of_tables) (use move_tables_moves in \<open>simp_all add: tables_env_def\<close>)
  show "rk_execute tables_env" by (simp add: tables_env_def quiet_env_def)
  show "views_apart tables_env"
    using captured_texts view_names_apart
    by (auto simp: tables_env_def views_apart_def captured_names case_prod_beta split: if_splits)
qed

lemma tables_env_answering: "answering tables_env id" "nothing_lost tables_env"
proof -
  have run: "fst (move_tables s T) = Inr ()" if "possible s T" for s T
    using that by (cases s) (simp_all add: possible_def)
  show "answering tables_env id"
    using run captured_inside by (auto simp: answering_def tables_env_def quiet_env_def case_prod_beta)
  show "nothing_lost tables_env" by (simp add: nothing_lost_def tables_env_def quiet_env_def)
qed

lemma failing_env_laws: "table_laws failing_env id" "rk_execute failing_env"
proof -
  have "moves s T (snd (rk_run failing_env s T)) \<or> (fst (rk_run failing_env s T) \<noteq> Inr () \<and> snd (rk_run failing_env s T) = T)" for s T
    using move_tables_moves [of s T] by (cases s) (simp_all add: failing_env_def)
  then show "table_laws failing_env id"
    by (rule laws_of_tables) (simp_all add: failing_env_def)
  show "rk_execute failing_env" by (simp add: failing_env_def tables_env_def quiet_env_def)
qed

section \<open>What the server answers\<close>

lemma tables_write:
  "fst (move_tables s (rs_db st)) = Inr () \<Longrightarrow> rk_write tables_env s st = Inr ((), st\<lparr>rs_db := snd (move_tables s (rs_db st)), rs_sent := rs_sent st @ [s]\<rparr>)"
  by (auto simp: rk_write_def tables_env_def env_simps split: prod.splits sum.splits)

lemma tables_log: "rk_log tables_env row st = Inr ((), st\<lparr>rs_log := rs_log st @ [row]\<rparr>)"
  by (simp add: rk_log_def tables_env_def env_simps)

lemma tables_id_type: "id_type tables_env t st = Inr (Option.bind (rs_db st t) snd, st)"
  by (auto simp: id_type_def rk_bind_def ask_def rk_return_def tables_env_def split: option.split)

lemma tables_exists: "ask (rk_exists tables_env t) st = Inr (rs_db st t \<noteq> None, st)"
  by (simp add: ask_def tables_env_def)

definition phased :: "string tables \<Rightarrow> string \<Rightarrow> bool" where
  "phased T t \<longleftrightarrow> staged T id new_name t \<or> halfway T id new_name t \<or> swapped T id new_name t"

text \<open>A program on one table that returns and touches its names only, run for several.\<close>

lemma each_returns:
  assumes "\<And>t st. t \<in> set ts \<Longrightarrow> F (rs_db st) t \<Longrightarrow> \<exists>x st'. f t st = Inr (x, st') \<and> (\<forall>n. n \<notin> own_names t \<longrightarrow> rs_db st' n = rs_db st n)"
    and "\<And>t T T'. F T t \<Longrightarrow> \<forall>n \<in> own_names t. T' n = T n \<Longrightarrow> F T' t"
    and "distinct ts" and "set ts \<subseteq> set copied_tables" and "\<forall>t \<in> set ts. F (rs_db st) t"
  shows "\<exists>xs st'. rk_each f ts st = Inr (xs, st') \<and> (\<forall>n. (\<forall>t \<in> set ts. n \<notin> own_names t) \<longrightarrow> rs_db st' n = rs_db st n)"
  using assms(1,3-5)
proof (induction ts arbitrary: st)
  case (Cons t ts)
  obtain x st1 where one: "f t st = Inr (x, st1)" "\<forall>n. n \<notin> own_names t \<longrightarrow> rs_db st1 n = rs_db st n"
    using Cons.prems(1) [of t st] Cons.prems(4) by auto
  have "F (rs_db st1) u" if "u \<in> set ts" for u
  proof (rule assms(2))
    show "F (rs_db st) u" using Cons.prems(4) that by simp
    have "t \<noteq> u" using Cons.prems(2) that by auto
    then show "\<forall>n \<in> own_names u. rs_db st1 n = rs_db st n"
      using one(2) apart [of u t] Cons.prems(3) that by auto
  qed
  then obtain xs st2 where "rk_each f ts st1 = Inr (xs, st2)" "\<forall>n. (\<forall>t \<in> set ts. n \<notin> own_names t) \<longrightarrow> rs_db st2 n = rs_db st1 n"
    using Cons.IH [of st1] Cons.prems by auto
  then show ?case using one by (auto simp: rk_bind_def rk_return_def)
qed (simp add: rk_return_def)

lemma swap_table_returns:
  assumes "phased (rs_db st) t"
  shows "\<exists>x st'. swap_table tables_env gap t st = Inr (x, st') \<and> (\<forall>n. n \<notin> own_names t \<longrightarrow> rs_db st' n = rs_db st n)"
  using assms own_names_apart [of t]
  by (auto simp: Let_def phased_def swap_table_def swap_action_of_def rk_bind_def rk_return_def tables_id_type tables_exists tables_log tables_write
      staged_def halfway_def swapped_def own_names_def)

lemma phased_local: "phased T t \<Longrightarrow> \<forall>n \<in> own_names t. T' n = T n \<Longrightarrow> phased T' t"
  using phase_local [of t T' T id new_name] by (simp add: phased_def)


section \<open>A swap that fails is resumed\<close>

definition started :: "string tables \<Rightarrow> string tables rk_state" where
  "started T = \<lparr>rs_db = T, rs_log = [log_row_of ''swap'' ''started''], rs_sent = []\<rparr>"

text \<open>A table is identified by the name it was made under.\<close>

definition before_swap :: "string tables" where
  "before_swap n = (if n \<in> set copied_tables then Some (n, Some ''UInt32'')
     else if n \<in> new_name ` set copied_tables then Some (n, Some ''UInt64'')
     else if n = ''assets'' then Some (''assets'', Some ''UInt64'')
     else if n = assets_pre then Some (assets_pre, Some ''UInt32'')
     else if n = ''mv_current_prices'' then Some (n, None) else None)"

definition after_failure :: "string tables rk_state" where
  "after_failure = final_state (swap_step failing_env False (started before_swap))"

lemma sample_names:
  assumes "t \<in> set copied_tables"
  shows "new_name t \<noteq> ''mv_current_prices''" "pre_name t \<noteq> ''mv_current_prices''" "t \<noteq> ''mv_current_prices''" "new_name t \<notin> set copied_tables" "pre_name t \<notin> set copied_tables" "pre_name t \<notin> new_name ` set copied_tables"
    "pre_name t \<noteq> assets_pre" "new_name t \<noteq> assets_pre" "pre_name t \<noteq> ''assets''" "t \<noteq> assets_pre" "t \<noteq> ''assets''" "t \<notin> new_name ` set copied_tables"
  using assms by (auto simp: copied_tables_def new_name_def pre_name_def assets_pre_def)

lemma before_swap_staged: "t \<in> set copied_tables \<Longrightarrow> staged before_swap id new_name t"
  using sample_names [of t] by (simp add: staged_def before_swap_def)

lemma last_logged_tables: "last_logged tables_env step st = Inr (newest (\<lambda>r. lr_step r = step) (if step = ''rollback'' then rs_log st else since_last ''rollback'' (rs_log st)), st)"
  by (simp add: last_logged_def read_log_def rk_bind_def rk_return_def ask_def tables_env_def env_simps)

lemma window_gates_tables: "window_gates tables_env st = Inr ((), st)"
  by (simp add: window_gates_def window_refusals_def rk_bind_def rk_return_def ask_def tables_env_def env_simps)

lemma swap_returns:
  assumes "\<forall>t \<in> set copied_tables. phased (rs_db st) t" and "newest (\<lambda>r. lr_step r = ''swap'') (since_last ''rollback'' (rs_log st)) = Some r"
    and "lr_status r \<noteq> ''ok''"
  shows "\<exists>ls st'. swap_step tables_env False st = Inr (ls, st')"
proof -
  have "\<exists>xs st1. rk_each (swap_table tables_env (lr_from r, lr_to r)) copied_tables st = Inr (xs, st1) \<and>
      (\<forall>n. (\<forall>t \<in> set copied_tables. n \<notin> own_names t) \<longrightarrow> rs_db st1 n = rs_db st n)"
    by (rule each_returns [where F = phased], erule swap_table_returns, erule phased_local, assumption, simp add: copied_tables_def, simp, rule assms(1))
  then obtain xs st1 where "rk_each (swap_table tables_env (lr_from r, lr_to r)) copied_tables st = Inr (xs, st1)" by blast
  then show ?thesis
    using assms(2,3) by (simp add: swap_step_def last_logged_tables window_gates_tables swap_range_def rk_bind_def rk_return_def tables_log)
qed

text \<open>The failing run exchanges the first table, and that is all.\<close>

lemma after_failure_eq:
  "rs_db after_failure = before_swap(''price_ohlcv_1m'' := before_swap ''price_ohlcv_1m__new'', ''price_ohlcv_1m__new'' := before_swap ''price_ohlcv_1m'')"
  "rs_log after_failure = [log_row_of ''swap'' ''started'']"
proof -
  obtain rest where ts: "copied_tables = ''price_ohlcv_1m'' # rest" by (simp add: copied_tables_def)
  have names: "new_name ''price_ohlcv_1m'' = ''price_ohlcv_1m__new''" by (simp add: new_name_def)
  have "''price_ohlcv_1m'' \<in> set copied_tables" by (simp add: ts)
  note first = before_swap_staged [OF this, unfolded staged_def names]
  have "swap_step failing_env False (started before_swap) = Inl (RkQuery ''connection reset'', \<lparr>
      rs_db = before_swap(''price_ohlcv_1m'' := before_swap ''price_ohlcv_1m__new'', ''price_ohlcv_1m__new'' := before_swap ''price_ohlcv_1m''),
      rs_log = [log_row_of ''swap'' ''started''],
      rs_sent = [ExchangeTables ''price_ohlcv_1m'' ''price_ohlcv_1m__new'', RenameTable ''price_ohlcv_1m__new'' (pre_name ''price_ohlcv_1m'')]\<rparr>)"
    using first
    by (simp add: swap_step_def started_def last_logged_def read_log_def newest_def since_last_def log_row_of_def window_gates_def window_refusals_def
        swap_range_def ts swap_table_def swap_action_of_def id_type_def names rk_write_def rk_bind_def rk_return_def ask_def failing_env_def tables_env_def
        env_simps Let_def)
  then show "rs_db after_failure = before_swap(''price_ohlcv_1m'' := before_swap ''price_ohlcv_1m__new'', ''price_ohlcv_1m__new'' := before_swap ''price_ohlcv_1m'')"
    "rs_log after_failure = [log_row_of ''swap'' ''started'']"
    by (simp_all add: after_failure_def final_state_def)
qed

lemma after_failure_phased: "\<forall>t \<in> set copied_tables. phased (rs_db after_failure) t"
proof -
  have "in_swap id new_name (id (rs_db after_failure))"
    by (rule swaps_in_swap [OF swaps_run [OF swaps_start failing_env_laws]])
      (auto simp: after_failure_def in_swap_def started_def before_swap_staged)
  then show ?thesis by (simp add: in_swap_def phased_def)
qed

theorem swap_resumes_witness:
  "swaps id (started before_swap) after_failure \<and> halfway (rs_db after_failure) id new_name ''price_ohlcv_1m'' \<and>
   (\<exists>ls st'. swap_step tables_env False after_failure = Inr (ls, st') \<and> (\<forall>t \<in> set copied_tables. swapped (rs_db st') id new_name t))"
proof -
  have failed: "swaps id (started before_swap) after_failure"
    by (rule swaps_run [OF swaps_start failing_env_laws]) (simp add: after_failure_def)
  have "newest (\<lambda>r. lr_step r = ''swap'') (since_last ''rollback'' (rs_log after_failure)) = Some (log_row_of ''swap'' ''started'')"
    by (simp add: after_failure_eq newest_def since_last_def log_row_of_def)
  from swap_returns [OF after_failure_phased this]
  obtain ls st' where run: "swap_step tables_env False after_failure = Inr (ls, st')" by (auto simp: log_row_of_def)
  have "\<forall>t \<in> set copied_tables. staged (id (rs_db (started before_swap))) id new_name t"
    by (simp add: started_def before_swap_staged)
  from swap_resumes [OF failed this tables_env_laws(1,2) run]
  have "\<forall>t \<in> set copied_tables. swapped (rs_db st') id new_name t" by simp
  moreover have "halfway (rs_db after_failure) id new_name ''price_ohlcv_1m''"
    using before_swap_staged [of "''price_ohlcv_1m''"]
    by (auto simp: after_failure_eq halfway_def staged_def new_name_def pre_name_def copied_tables_def)
  ultimately show ?thesis using failed run by blast
qed

section \<open>The rollback\<close>

text \<open>After a swap that finished, and after the one that failed, with \<open>assets\<close> altered.\<close>

definition after_swap :: "string tables" where
  "after_swap n = (if n \<in> set copied_tables then Some (new_name n, Some ''UInt64'')
     else if n \<in> pre_name ` set copied_tables then Some (take (length n - 9) n, Some ''UInt32'')
     else if n = ''assets'' then Some (''assets'', Some ''UInt64'')
     else if n = assets_pre then Some (assets_pre, Some ''UInt32'')
     else if n = ''mv_current_prices'' then Some (n, None) else None)"

lemma after_swap_swapped: "t \<in> set copied_tables \<Longrightarrow> swapped after_swap id new_name t"
  using sample_names [of t]
  by (simp add: swapped_def after_swap_def) (auto simp: pre_name_def new_name_def copied_tables_def)

lemma rollback_of_a_swap_returns: "\<exists>ls st'. rollback_step tables_env False (started after_swap) = Inr (ls, st')"
proof -
  have out: "assets_altered (id (rs_db (started after_swap))) assets_pre ''assets''"
    by (simp add: assets_altered_def started_def after_swap_def) (auto simp: copied_tables_def assets_pre_def pre_name_def)
  have turns: "\<forall>u \<in> set copied_tables. turns id new_name u (\<lambda>T. swapped T id new_name u) (\<lambda>T. staged T id new_name u)"
    by (simp add: turns_def)
  have rolling: "rolling (\<lambda>u T. swapped T id new_name u) (\<lambda>u T. staged T id new_name u) {} (id (rs_db (started after_swap)))"
    by (simp add: rolling_def started_def after_swap_swapped)
  have logged: "newest (\<lambda>r. lr_step r = ''swap'') (since_last ''rollback'' (rs_log (started after_swap))) = Some (log_row_of ''swap'' ''started'')"
    by (simp add: started_def newest_def since_last_def log_row_of_def)
  show ?thesis
    by (rule rollback_total [where tb = id and old = id and new = new_name, OF tables_env_laws(1,2) tables_env_answering(1) disjI2 [OF tables_env_answering(2)] turns logged rolling out])
qed

text \<open>The rollback drops the captured view that is there, and makes both views again.\<close>

theorem rollback_restores_the_tables_witness:
  "rk_mvs tables_env (rs_db (started after_swap)) = Inr [''mv_current_prices''] \<and> rk_captured tables_env ''view'' (rs_db (started after_swap)) = Inr [captured_view] \<and>
   (\<exists>ls st'. rollback_step tables_env False (started after_swap) = Inr (ls, st') \<and> (\<forall>t \<in> set copied_tables. staged (rs_db st') id new_name t) \<and>
     rs_db st' ''assets'' = Some (assets_pre, Some ''UInt32''))"
proof -
  have views: "rk_mvs tables_env (rs_db (started after_swap)) = Inr [''mv_current_prices'']"
      "rk_captured tables_env ''view'' (rs_db (started after_swap)) = Inr [captured_view]"
    by (auto simp: tables_env_def started_def after_swap_def copied_tables_def pre_name_def assets_pre_def)
  have out: "assets_altered (rs_db (started after_swap)) assets_pre ''assets''"
    by (simp add: assets_altered_def started_def after_swap_def) (auto simp: copied_tables_def assets_pre_def pre_name_def)
  have swapped: "\<forall>t \<in> set copied_tables. swapped (rs_db (started after_swap)) id new_name t"
    by (simp add: started_def after_swap_swapped)
  obtain ls st' where run: "rollback_step tables_env False (started after_swap) = Inr (ls, st')"
    using rollback_of_a_swap_returns by blast
  show ?thesis
    using rollback_restores_the_tables [where tb = id, simplified, OF tables_env_laws out _ run, of id new_name] swapped run views by blast
qed

theorem rollback_passes_over_a_half_swapped_table_witness:
  "\<exists>ls st'. rollback_step tables_env False after_failure = Inr (ls, st') \<and>
     rs_db st' ''price_ohlcv_1m'' = Some (''price_ohlcv_1m__new'', Some ''UInt64'') \<and> rs_db st' ''assets'' = Some (assets_pre, Some ''UInt32'')"
proof -
  have out: "assets_altered (id (rs_db after_failure)) assets_pre ''assets''"
    by (auto simp: assets_altered_def after_failure_eq before_swap_def copied_tables_def assets_pre_def pre_name_def new_name_def)
  have phases: "in_swap id new_name (id (rs_db after_failure))"
    using after_failure_phased by (simp add: in_swap_def phased_def)
  have half: "halfway (id (rs_db after_failure)) id new_name ''price_ohlcv_1m''"
    using before_swap_staged [of "''price_ohlcv_1m''"]
    by (auto simp: after_failure_eq halfway_def staged_def new_name_def pre_name_def copied_tables_def)
  have first: "''price_ohlcv_1m'' \<in> set copied_tables" by (simp add: copied_tables_def)
  have logged: "newest (\<lambda>r. lr_step r = ''swap'') (since_last ''rollback'' (rs_log after_failure)) \<noteq> None"
    by (simp add: after_failure_eq newest_def since_last_def log_row_of_def)
  have lost: "False \<or> nothing_lost tables_env" by (simp add: tables_env_answering(2))
  from rollback_passes_over_a_half_swapped_table [OF tables_env_laws out phases first half tables_env_answering(1) lost logged]
  show ?thesis by (simp add: new_name_def)
qed

section \<open>A fill\<close>

text \<open>One partition of one row, whose target is empty at first.\<close>

definition filling_env :: "bool rk_env" where
  "filling_env = quiet_env
     \<lparr>rk_run := (\<lambda>s d. (Inr (), case s of InsertFill f l flt q \<Rightarrow> True | DropPartition t pid \<Rightarrow> False | _ \<Rightarrow> d)),
      rk_id_types := (\<lambda>t d. Inr [(''asset_id'', if t = ''asset_supply'' then ''UInt32'' else ''UInt64'')]),
      rk_target_keys := (\<lambda>f l flt d. Inr (if d then 9 else 0))\<rparr>"

lemma filling_env_laws: "rk_execute filling_env" "copy_laws filling_env (fill_table t)"
  by (auto simp: copy_laws_def same_source_def filling_env_def quiet_env_def)

lemma sample_fill:
  "\<exists>report st'. fill_step filling_env (fill_table ''asset_supply'') \<lparr>rs_db = False, rs_log = [], rs_sent = []\<rparr> = Inr (report, st') \<and> fr_copied report = 1 \<and>
     (\<exists>l parts. layout_of filling_env (fill_table ''asset_supply'') st' = Inr (l, st') \<and>
        rk_partitions filling_env (fi_source (fill_table ''asset_supply'')) (rs_db st') = Inr parts \<and>
        (\<forall>p \<in> set parts. filled filling_env (fill_table ''asset_supply'') l p st'))"
proof -
  let ?f = "fill_table ''asset_supply''" and ?st = "\<lparr>rs_db = False, rs_log = [], rs_sent = []\<rparr>"
  have "\<exists>report st'. fill_step filling_env ?f ?st = Inr (report, st') \<and> fr_copied report = 1"
    by (simp add: fill_step_def refuse_fill_def refuse_ids_def map_gates_def ensure_tool_tables_def layout_of_def probe_def last_fill_def read_log_def
        still_filled_def copy_partition_def fill_attempts_def rk_write_def rk_log_def rk_bind_def rk_return_def ask_def newest_def Let_def
        filling_env_def quiet_env_def fill_table_def)
  then obtain report st' where run: "fill_step filling_env ?f ?st = Inr (report, st')" "fr_copied report = 1" by blast
  have "fi_partition ?f = None" by (simp add: fill_table_def)
  from fill_verifies_every_partition [OF run(1) filling_env_laws this] run show ?thesis by blast
qed

section \<open>A check\<close>

text \<open>Every table has one partition of one row, filled once.\<close>

definition checked_env :: "unit rk_env" where
  "checked_env = quiet_env
     \<lparr>rk_id_types := (\<lambda>t d. Inr [(''asset_id'', if t \<in> set copied_tables then ''UInt32'' else ''UInt64'')])\<rparr>"

definition sample_row :: "string \<Rightarrow> log_row" where
  "sample_row t = (log_row_of ''fill'' ''verified'')\<lparr>lr_source := t, lr_target := t @ ''__new'', lr_partition := ''all'', lr_written := 1,
     lr_expected := 1, lr_expected_keys := 9, lr_target_keys := 9, lr_fingerprint := show_nat 1 @ '':'' @ show_nat 7\<rparr>"

definition filled_log :: "unit rk_state" where
  "filled_log = \<lparr>rs_db = (), rs_log = map sample_row copied_tables, rs_sent = []\<rparr>"

lemma newest_only:
  assumes "r \<in> set rows" and "p r" and only: "\<And>r'. r' \<in> set rows \<Longrightarrow> p r' \<Longrightarrow> r' = r"
  shows "newest p rows = Some r"
proof (cases "find p (rev rows)")
  case None
  then show ?thesis using assms(1,2) by (simp add: find_None_iff)
next
  case (Some r')
  from find_SomeD [OF this] have "r' = r" using only by simp
  then show ?thesis using Some by (simp add: newest_def)
qed

lemma sample_row_of: "fill_row (fill_table t) ''all'' (sample_row u) \<longleftrightarrow> u = t"
  by (auto simp: fill_row_def sample_row_def log_row_of_def fill_table_def)

lemma sample_newest: "t \<in> set copied_tables \<Longrightarrow> newest (fill_row (fill_table t) ''all'') (rs_log filled_log) = Some (sample_row t)"
  unfolding filled_log_def by (rule newest_only) (auto simp: sample_row_of)

lemma checked_env_simps:
  "rk_execute checked_env" "rk_log_read checked_env d = Inr ()" "rk_log_write checked_env row d = (Inr (), True)" "rk_run checked_env s d = (Inr (), d)"
  "rk_id_types checked_env t d = Inr [(''asset_id'', if t \<in> set copied_tables then ''UInt32'' else ''UInt64'')]"
  "rk_stored_columns checked_env t d = Inr []" "rk_keys checked_env t d = Inr ([], ''asset_id'')" "rk_partitions checked_env t d = Inr [(''tuple()'', ''all'')]"
  "rk_probe checked_env f l flt d = Inr (1, 7, 1, 9)" "rk_target_keys checked_env f l flt d = Inr 9" "rk_classes checked_env t ids d = Inr []"
  by (simp_all add: checked_env_def quiet_env_def)

lemma checked_write: "rk_write checked_env s st = Inr ((), st\<lparr>rs_sent := rs_sent st @ [s]\<rparr>)"
  by (simp add: rk_write_def checked_env_simps)

lemma sample_check_fill:
  assumes "t \<in> set copied_tables" and "rs_log st = rs_log filled_log"
  shows "\<exists>line st'. check_fill checked_env (fill_table t) st = Inr (([], line), st') \<and> rs_log st' = rs_log filled_log"
proof -
  let ?f = "fill_table t"
  have new: "t @ ''__new'' \<notin> set copied_tables" using sample_names [OF assms(1)] by (simp add: new_name_def)
  have ids: "refuse_ids checked_env ?f st = Inr ((), st)"
    using assms(1) new by (simp add: refuse_ids_def rk_bind_def rk_return_def ask_def checked_env_simps fill_table_def)
  obtain l where layout: "layout_of checked_env ?f st = Inr (l, st)"
    by (simp add: layout_of_def rk_bind_def rk_return_def ask_def checked_env_simps)
  have "last_fill checked_env ?f ''all'' st = Inr (Some (sample_row t), st)"
    using sample_newest [OF assms(1)] assms(2)
    by (simp add: last_fill_def read_log_def rk_bind_def rk_return_def ask_def checked_env_simps fill_row_def [abs_def])
  then have part: "check_partition checked_env ?f l (''tuple()'', ''all'') st = Inr (([], 1, 1), st)"
    by (simp add: check_partition_def probe_def rk_bind_def rk_return_def ask_def checked_env_simps sample_row_def log_row_of_def Let_def)
  show ?thesis
    using assms(2)
    by (simp add: check_fill_def rk_bind_def rk_return_def ask_def checked_env_simps checked_write ids layout part class_count_def Let_def)
qed

lemma sample_check_fills:
  "set ts \<subseteq> set copied_tables \<Longrightarrow> rs_log st = rs_log filled_log \<Longrightarrow>
   \<exists>checked st'. rk_each (check_fill checked_env) (map fill_table ts) st = Inr (checked, st') \<and> concat (map fst checked) = []"
proof (induction ts arbitrary: st)
  case (Cons t ts)
  obtain line st1 where "check_fill checked_env (fill_table t) st = Inr (([], line), st1)" "rs_log st1 = rs_log filled_log"
    using sample_check_fill [of t st] Cons.prems by auto
  moreover from Cons.IH [OF _ this(2)] Cons.prems obtain checked st'
    where "rk_each (check_fill checked_env) (map fill_table ts) st1 = Inr (checked, st')" "concat (map fst checked) = []" by auto
  ultimately show ?case by (simp add: rk_bind_def rk_return_def)
qed (simp add: rk_return_def)

theorem passing_check_opens_the_swap_witness:
  "\<exists>ls st'. check_step checked_env (map fill_table copied_tables) filled_log = Inr (ls, st') \<and> check_green checked_env st' = Inr ((), st') \<and>
     found_filled checked_env (fill_table ''oracle_prices'') filled_log"
proof -
  note run = checked_env_simps(1,2)
  obtain u st1 where books: "ensure_tool_tables checked_env filled_log = Inr (u, st1)" "rs_log st1 = rs_log filled_log"
    by (simp add: ensure_tool_tables_def rk_bind_def rk_return_def checked_write)
  obtain checked st2 where each: "rk_each (check_fill checked_env) (map fill_table copied_tables) st1 = Inr (checked, st2)" "concat (map fst checked) = []"
    using sample_check_fills [OF order_refl books(2)] by blast
  have "\<exists>ls st'. check_step checked_env (map fill_table copied_tables) filled_log = Inr (ls, st')"
    by (simp add: check_step_def rk_bind_def books each rk_log_def rk_return_def checked_env_simps Let_def del: concat_eq_Nil_conv)
  then obtain ls st' where "check_step checked_env (map fill_table copied_tables) filled_log = Inr (ls, st')" by blast
  moreover have "''oracle_prices'' \<in> set copied_tables" by (simp add: copied_tables_def)
  ultimately show ?thesis
    using passing_check_opens_the_swap [OF _ run(1) _ run(2), of "map fill_table copied_tables" filled_log ls st'] by auto
qed

end
