(* ===== verification/Spec2Isabelle.thy ===== *)
theory Spec2Isabelle
  imports Live_Feed Backfill_Gap Reprice_Returns Repair_Sample Key_Sample Rekey_Sample
begin

text \<open>
  A model of the price ingest of \<open>stellar-prices-api\<close>: from a ledger of the Stellar network to the
  one-minute candles written to ClickHouse, and the passes that value them in dollars. The program's own arithmetic and control flow live in the
  packages \<open>prices-ingest-core\<close>, \<open>ledger-processor\<close>, the four \<open>*-extractor\<close> packages,
  \<open>prices-ledger-processor\<close>, \<open>sdex-backfill\<close>, \<open>events-backfill\<close> and \<open>enrichment-worker\<close>; that is what the theories below follow, function by function,
  with the API keys of \<open>prices-api\<close> and the id migration of \<open>prices-clickhouse\<close>.

  How the parts interact. A ledger carries transactions. Their results carry the claims of the order
  book and the classic pools (theory \<open>Ledger_Fills\<close>, \<open>filter.rs\<close>); each claim becomes a
  \<open>raw_trade\<close>, priced by the resting offer it crossed or by its amount ratio, and then a
  \<open>trade_tick\<close> (theory \<open>Tick\<close>, \<open>tick.rs\<close>) over the canonical asset pair (theory
  \<open>Canonical\<close>, \<open>canonical.rs\<close>) with the price rules of theory \<open>Price\<close> (\<open>price.rs\<close>).
  The contract events of the same ledger are decoded from typed JSON (theory \<open>Event_Json\<close>), grow the
  pool registries or are queued by contract, and each contract's group is routed to its venue's
  extractor (theories \<open>Extractors\<close> and \<open>Dispatch\<close>); the trades become ticks too, and what
  could not be priced is counted (theory \<open>Soroban\<close>, \<open>soroban.rs\<close>). Pool registries are persisted
  and loaded back by theory \<open>Registry_IO\<close> (\<open>registry_io.rs\<close>, \<open>static_pools.rs\<close>). All ticks are
  merged into minute buckets and flushed as candles (theory \<open>Bucket\<close>, \<open>bucket.rs\<close>). The live
  processor drives all of it (theory \<open>Reconcile\<close>, \<open>Reconciler::run_inner\<close> of \<open>reconcile.rs\<close>):
  it reads the cursor, derives the key of the next object (theory \<open>Galexie_Key\<close>), reads objects until
  one is missing or the budget is spent, decides which minutes it may write and where its cursor goes
  (theory \<open>Run_Boundary\<close>), and writes assets, pools, candles, oracle rows and last the cursor.
  History is filled by the backfill (\<open>sdex-backfill\<close>): it cuts a ledger range into partitions and keeps a progress
  row per stream (theory \<open>Backfill_Plan\<close>: \<open>partition.rs\<close>, \<open>progress.rs\<close>, \<open>sink.rs\<close>), indexes a
  partition with the same extraction and accumulators, holding back the resume markers of the minute still open
  (theory \<open>Backfill_Ingest\<close>: \<open>ingest.rs\<close>), and runs over the partitions of the archive (theory
  \<open>Backfill_Run\<close>: \<open>execute\<close> of \<open>run.rs\<close>). Contract pools are repriced from the stored events of a range
  (theory \<open>Reprice\<close>: \<open>events-backfill\<close>), in chunks whose rows are cut into ledgers and run through
  \<open>process_soroban_event_rows\<close>; the discovery of missing pools walks the same chunks.
  Written candles get their dollar columns from enrichment passes (theory \<open>Enrich_Pass\<close>: \<open>ch_enrich.rs\<close>): an
  optional reset behind its refusals, the oracle tier, then the external and the peg-pivot tier, each a loop of
  statements and counts. An invocation of the worker passes over the newest months (theory \<open>Month_Window\<close>:
  \<open>live_window.rs\<close>) and then drains the history month by month, guided by a table of marks (theory
  \<open>Frontier\<close>: \<open>frontier.rs\<close>, \<open>main.rs\<close>). The coarser candle tables are repaired by the same passes, one
  frozen partition at a time on an operator's order, or unfrozen in a recurring sweep over all tables (theory \<open>Coarse_Repair\<close>:
  \<open>repair.rs\<close>); theory \<open>Worker_Config\<close> reads the environment of the workers and the operator's command line (\<open>env.rs\<close>,
  \<open>coarse-repair.rs\<close>, \<open>coarse-sweep-worker\<close>).
  Beside the pipeline stands the portal of the API, which hands out API keys without a registry of its own: the keys in API
  Gateway are the state, found by their exact name (theory \<open>Key_Naming\<close>: \<open>naming.rs\<close>, \<open>cap.rs\<close>, \<open>period.rs\<close>), read and
  changed by calls that may fail in many ways (theory \<open>Key_Gateway\<close>: \<open>gateway.rs\<close>), by a reconciler that lists, creates,
  attaches, deletes and starts over (theory \<open>Key_Issue\<close>), behind two routes (theory \<open>Key_Routes\<close>; both \<open>keys/mod.rs\<close>).
  The tool of the asset id migration (\<open>prices-clickhouse\<close>) moves the candle tables from counted ids of 32 bits to derived ids of 64:
  it rewrites the stored definitions (theory \<open>Rekey_Text\<close>: \<open>rekey.rs\<close>, \<open>rekey/swap.rs\<close>, \<open>asset_id.rs\<close>), sends statements and keeps a log
  (theory \<open>Rekey_Db\<close>), maps the ids, copies and checks each table partition by partition (theory \<open>Rekey_Fill\<close>: \<open>rekey.rs\<close>), and in a
  window without writers alters \<open>assets\<close>, exchanges the tables, makes the views anew, or rolls all of it back (theory
  \<open>Rekey_Swap\<close>: \<open>rekey/swap.rs\<close>).

  Conventions. Rust integers are words of their width; \<open>sint\<close> reads a signed one, and wrapping,
  \<open>saturating_\<close> and \<open>checked_\<close> operations are written out (theory \<open>Prelude\<close>). A panic is
  \<open>None\<close>; a \<open>Result\<close> is a sum with the error on the left. A \<open>HashMap\<close> is an association
  list with distinct keys; where the code iterates over one, the iteration order is a parameter
  (\<open>iter\<close>) or the theorem quantifies over all orders. Strings are lists of bytes as characters.

  Parameters, for code outside the repository: \<open>rust_decimal\<close> is the record \<open>dec_ops\<close> with the
  hypothesis \<open>dec_laws\<close> (results are the rational result rounded at a scale of at most 28, and
  operations fail only on overflow or a zero divisor), satisfied by \<open>exact_ops\<close>; the SAC address
  derivation and the strkey parser are \<open>asset_env\<close>; \<open>xdr_parser\<close>'s event extraction and the
  \<open>hex\<close> crate are function parameters, and \<open>run_env\<close> holds what a run meets outside: the stored
  cursor, the object store, the object decoder and which writes fail; \<open>bf_env\<close> is the same for the backfill,
  with the archive and the outcome of each sync, and \<open>rp_env\<close> for the repricing, with the event queries. \<open>ch_env\<close> holds what
  ClickHouse does for an enrichment pass: the effect of each statement on an abstract database, and the answers of the queries; \<open>fr_env\<close>
  adds the frontier table and the clocks, \<open>cr_env\<close> the enumeration of months and the snapshot of a partition, and \<open>cal_ops\<close> is the calendar of \<open>chrono\<close> with the hypothesis
  \<open>cal_laws\<close>, satisfied by \<open>gregorian\<close>. \<open>sdk\<close> is the SDK of AWS with the clock: each call answers anything and changes the
  account in any way, so that whoever else works on it is covered; the log of a run keeps the reading of the clock it judged the cap at. The user of a session cookie is an argument of the routes.
  \<open>rk_env\<close> is the server the migration talks to; \<open>table_laws\<close> says what \<open>EXCHANGE\<close> and \<open>RENAME\<close> do, and that a statement that
  fails has its effect or none; \<open>views_apart\<close> that no view, present or captured, has the name of a migrated table or of a copy;
  \<open>answering\<close>, for the claim that a rollback returns, that queries answer and statements that can succeed do. Of the source of a copy
  nothing is assumed in a property: writers and merges may change it at any time, and the check speaks of the moment it reads. The rows of its log stand in the order of their instants, which are
  taken to differ.

  What the lemmas show. \<open>Extractors\<close> and \<open>Dispatch\<close>: each venue's decoder and the attribution
  of every trade to its contract, venue and tokens. \<open>Canonical\<close>: addresses and identities round-trip,
  orientation does not depend on the side sold, the SAC index never splits an asset. \<open>Price\<close>: the
  integer rounding test is the real inequality it stands for, and a price that survives is storable.
  \<open>Ledger_Fills\<close> and \<open>Tick\<close>: fill keys ascend, the tally counts exactly the emitted fills, every
  emitted fill becomes a tick. \<open>Bucket\<close>: candles are a function of the multiset of ticks, one per
  minute and pair, with the columns ADR 0287 defines, all within their column; the locale
  \<open>minute_accumulator\<close> states the accumulator's contract and is interpreted on the model.
  \<open>Soroban\<close>: a ledger is processed without a panic, groups with swaps are accounted for, and the
  stored-event path equals the live one. \<open>Run_Boundary\<close>: written minutes and the cursor agree.
  \<open>Interning\<close>: processing a ledger changes the asset registry by interning only and stamps every tick.
  \<open>Run_Reading\<close>: what the accumulators of a run hold of the ledgers it read. \<open>Run_Trace\<close>: the
  possible write traces of a run. \<open>Run_Properties\<close>: the cursor is written last, identities before the
  candles that name them, pools before the cursor that passes their factory event, in the life of a processor from its
  cold start on (\<open>processor_life\<close>); the committed static pool is in memory only. \<open>Live_Feed\<close>: the
  relation \<open>live\<close> steps through runs with any failures and cold starts from a cursor at the end of a minute, and its invariant
  refines the store to the candles of the whole feed; the version is a column of a candle, so a re-run of this code over the
  same objects repeats it. \<open>Run_Sample\<close>: a concrete run for the witnesses.
  \<open>Backfill_Plan\<close>: partitions cover a range, their files are the live objects, progress rows only advance.
  \<open>Backfill_Trace\<close> and \<open>Backfill_Index\<close>: the rows and markers each program of a run adds, whether it returns
  or fails. \<open>Backfill_Feed\<close> and \<open>Backfill_Resume\<close>: the loop invariants of a run, as triples over programs
  that may fail (\<open>valid\<close> of theory \<open>Prelude\<close>). \<open>Backfill_Store\<close>: the relation \<open>backfilled\<close> steps
  through interrupted runs; markers and rows always agree. \<open>Backfill_Returns\<close>: an undisturbed run returns, and a
  run that returns completes the range. \<open>Backfill_Gap\<close>: what a run reports after a skipped partition.
  \<open>Reprice_Ledgers\<close>: the pending identities influence neither ticks nor registries. \<open>Reprice_Chunks\<close>: chunks
  cover the range and a chunk is its ledgers. \<open>Reprice_Work\<close>: the work two runs have in common, kept by every
  step. \<open>Reprice_Run\<close>: the size of the chunks is irrelevant. \<open>Reprice_Candles\<close>: the candles written are
  those of all ticks. \<open>Reprice_Returns\<close>: a run against a store that answers returns; a concrete run.
  \<open>Enrich_Trace\<close>: a triple over the statements and counts of a program, and the rounds of a tier.
  \<open>Enrich_Safety\<close>: the events of a whole pass. \<open>Enrich_Guarantees\<close>: pegging waits for the oracle, and a
  one-shot pass ends at a fixed point. \<open>Enrich_Reset\<close>: what an admitted reset satisfies. \<open>Enrich_Sample\<close>: a
  concrete database for the witnesses. \<open>Month_Window\<close>: partitions tile time and agree with the month of a
  timestamp. \<open>Enrich_Driver\<close>: what the drivers of passes share. \<open>Frontier_Sweep\<close>: the months a sweep visits,
  all below the live window. \<open>Frontier_Rotation\<close>: marks are rechecked oldest first, so none is final.
  \<open>Frontier_Sample\<close>: concrete sweeps, one of which reopens a month nobody touched. \<open>Repair_Guarantees\<close>: a repair walks
  the months in order, each frozen before anything runs on it; a sweep accounts for every table and keeps off the live one.
  \<open>Operator_Guarantees\<close>: an accepted reset can be reverted. \<open>Repair_Sample\<close>: concrete repairs.
  \<open>Key_Safety\<close>: a triple over programs that log what they list and write; every write of the reconciler is justified by
  the log before it. \<open>Key_Guarantees\<close>: what that means for deletions, creations under the cap of the month the clock shows, and the plan a key is put on. \<open>Key_Revoke\<close>: a revocation
  reports what landed, a reveal writes nothing. \<open>Key_Routes\<close>: the reveal and the issue agree on the cap, only the signed-in
  user's keys are disabled. \<open>Key_Sample\<close>: a concrete account; a re-enabled key that wins and is deleted all the same.
  \<open>Rekey_Copy\<close>: while nothing else changes its source, a fill that returns leaves every partition as the check wants it.
  \<open>Rekey_Check\<close>: a check passes over filled tables only, and opens the gate of the swap. \<open>Rekey_Tables\<close>: a triple over programs on the
  tables, whatever fails, and the phases of a table. \<open>Rekey_Resume\<close>: the relation \<open>swaps\<close> steps through interrupted swaps, and the
  next one that returns has swapped every table. \<open>Rekey_Rollback\<close>: a rollback restores what is staged or swapped, and what it makes
  of a table between two statements. \<open>Rekey_Returns\<close>: total triples on a server that answers; a rollback returns over a table
  that is half swapped. \<open>Rekey_Sample\<close>: a server of tables, a swap that fails, its resumption and its rollback with views to drop and make again, a fill and a check.

  Bounds. Loops are structural or terminate by the length of the remaining input
  (\<open>process_soroban_event_rows\<close>) or its bits (\<open>base32_groups\<close>); no fuel is used. The loop over the
  partitions of a range is a \<open>partial_function\<close>, proved to return below the last partition of 32 bits; the one
  over the chunks of a range terminates by the ledgers left, whatever the chunk size. The tiers of a pass recurse on
  their batch budget, 2^32 - 1 for a one-shot pass, which no falling sequence of fewer than 2^32 - 2 candidates exhausts. The walk over
  the months is partial too: its step wraps at the end of the 32 bits, below which it is proved to end.
  The rewriting of definitions terminates by the text left; the polling loops of the migration are one query, what their last poll saw.
  Pages of API Gateway are read by recursion on the code's own bound of 50, attempts on its bound of 2.
  The read loop of a run recurses on the code's own \<open>max_iterations\<close>.

  Not modelled: logging and the log-once statics, the \<open>debug_assert\<close> of
  \<open>process_soroban_event_rows\<close>, ClickHouse SQL and its row encoding, the S3 client, the mutex around
  the processor's state (a run holds it throughout), the SQL of the migration's probes, its gap backfill (\<open>rekey/gap.rs\<close>), its test hooks and
  all of its preflight but two gates, and the measured write latencies (their number is
  kept), the HTTP API other than the portal's keys, and of those the response bodies, the usage cache and the deadline (a run it
  cuts leaves a prefix of its log, of which the same holds), the probes and the other workers, the metrics and elapsed times of a pass. In the pipeline a write that fails is taken not to have happened;
  the tables replace by key, so a failed write that did land is overwritten by the same row. In the migration it may have happened.
\<close>

end
